(* ===== verification/Prelude.thy ===== *)
theory Prelude
  imports Complex_Main "HOL-Library.Word" "HOL-Library.Char_ord" "HOL-Library.List_Lexorder"
    "HOL-Library.AList" "HOL-Library.Multiset"
begin

section \<open>Shared vocabulary of the model\<close>

text \<open>
  Types and lemmas every component uses.
  \<^item> Go's \<^verbatim>\<open>time.Time\<close> is an \<open>int\<close>, the nanoseconds since the Unix epoch, and
    \<^verbatim>\<open>time.Duration\<close> an \<open>int\<close> number of nanoseconds. \<open>zeroTime\<close> is the zero value
    (1 January of year 1). Rounding down to a unit is \<open>truncateTo\<close>
    (\<^verbatim>\<open>Time.Truncate\<close> for units that divide an hour), \<open>unixMilli\<close> is
    \<^verbatim>\<open>Time.UnixMilli\<close> and \<open>ofMilli\<close> is \<^verbatim>\<open>time.UnixMilli\<close>.
  \<^item> A Go string is a \<open>string\<close> of bytes, ordered lexicographically as Go orders it.
  \<^item> A Go map or a keyed SQL table is an association list with distinct keys; its order is
    the (arbitrary) iteration order.
  \<^item> An error is a value (theory \<open>Apierror\<close>), a fallible operation returns a sum.
\<close>

type_synonym time = int
type_synonym duration = int

abbreviation millisecond :: duration where "millisecond \<equiv> 1000000"
abbreviation second :: duration where "second \<equiv> 1000000000"
abbreviation minute :: duration where "minute \<equiv> 60000000000"
abbreviation hour :: duration where "hour \<equiv> 3600000000000"
abbreviation day :: duration where "day \<equiv> 86400000000000"

definition zeroTime :: time where
  "zeroTime = - 62135596800 * second"

definition truncateTo :: "duration \<Rightarrow> time \<Rightarrow> time" where
  "truncateTo d t = t - t mod d"

definition unixMilli :: "time \<Rightarrow> int" where
  "unixMilli t = t div millisecond"

definition ofMilli :: "int \<Rightarrow> time" where
  "ofMilli ms = ms * millisecond"

text \<open>Collections of facts: \<open>time_simps\<close> unfolds clock arithmetic, \<open>table_simps\<close> rewrites
  association-list tables.\<close>

named_theorems time_simps \<open>unfolds clock arithmetic\<close>
named_theorems table_simps \<open>rewrites association-list tables\<close>

lemmas [time_simps] = truncateTo_def unixMilli_def ofMilli_def

subsection \<open>Clock arithmetic\<close>

lemma truncateTo_le: "0 < d \<Longrightarrow> truncateTo d t \<le> t"
  by (simp add: truncateTo_def)

lemma truncateTo_gt: "0 < d \<Longrightarrow> t - d < truncateTo d t"
  using pos_mod_bound [of d t] by (simp add: truncateTo_def)

lemma truncateTo_mod [simp]: "truncateTo d t mod d = 0"
  by (simp add: truncateTo_def mod_diff_left_eq [symmetric])

lemma truncateTo_idem: "truncateTo d (truncateTo d t) = truncateTo d t"
  by (simp add: truncateTo_def)

lemma truncateTo_mono: "0 < d \<Longrightarrow> s \<le> t \<Longrightarrow> truncateTo d s \<le> truncateTo d t"
  by (simp add: truncateTo_def minus_mod_eq_mult_div zdiv_mono1)

lemma truncateTo_dvd_id: "t mod d = 0 \<Longrightarrow> truncateTo d t = t"
  by (simp add: truncateTo_def)

lemma unixMilli_ofMilli [simp]: "unixMilli (ofMilli ms) = ms"
  by (simp add: time_simps)

lemma ofMilli_unixMilli: "ofMilli (unixMilli t) = truncateTo millisecond t"
  by (simp add: time_simps minus_mod_eq_div_mult)

lemma unixMilli_mono: "s \<le> t \<Longrightarrow> unixMilli s \<le> unixMilli t"
  by (simp add: unixMilli_def zdiv_mono1)

lemma unixMilli_truncate [simp]: "unixMilli (truncateTo millisecond t) = unixMilli t"
  by (simp flip: ofMilli_unixMilli)

lemma ofMilli_less_iff [simp]: "ofMilli a < ofMilli b \<longleftrightarrow> a < b"
  by (simp add: ofMilli_def)

lemma ofMilli_le_iff [simp]: "ofMilli a \<le> ofMilli b \<longleftrightarrow> a \<le> b"
  by (simp add: ofMilli_def)

subsection \<open>Tables as association lists\<close>

abbreviation wf_table :: "('k \<times> 'v) list \<Rightarrow> bool" where
  "wf_table m \<equiv> distinct (map fst m)"

lemma map_of_delete [table_simps]:
  "map_of (AList.delete k m) k' = (if k' = k then None else map_of m k')"
  by (simp add: delete_conv)

lemma map_of_update [table_simps]:
  "map_of (AList.update k v m) k' = (if k' = k then Some v else map_of m k')"
  by (simp add: update_conv)

lemma map_of_filter_Some:
  "wf_table m \<Longrightarrow>
   map_of (filter P m) k = (case map_of m k of None \<Rightarrow> None | Some v \<Rightarrow> if P (k, v) then Some v else None)"
proof (induction m)
  case Nil
  then show ?case by simp
next
  case (Cons kv m)
  obtain k1 v1 where kv: "kv = (k1, v1)" by fastforce
  have notin: "map_of m k1 = None" if "k = k1"
    using Cons.prems kv by (simp add: map_of_eq_None_iff)
  then show ?case
    using Cons kv by (auto simp: map_of_eq_None_iff split: option.splits)
qed

lemma length_delete_le: "length (AList.delete k m) \<le> length m"
  by (induction m) auto

lemma length_update_le: "length (AList.update k v m) \<le> Suc (length m)"
  by (induction m) auto

lemma length_update_in: "k \<in> fst ` set m \<Longrightarrow> length (AList.update k v m) = length m"
  by (induction m) auto

lemma sum_list_map_delete:
  fixes f :: "'k \<times> 'v \<Rightarrow> int"
  shows "(\<And>kv. kv \<in> set m \<Longrightarrow> 0 \<le> f kv) \<Longrightarrow> sum_list (map f (filter P m)) \<le> sum_list (map f m)"
  by (induction m) (auto simp: add_increasing)

subsection \<open>Lists\<close>

lemma filter_eq_self_iff: "filter P xs = xs \<longleftrightarrow> (\<forall>x\<in>set xs. P x)"
  by (auto simp: filter_id_conv)

lemma length_filter_lt: "x \<in> set xs \<Longrightarrow> \<not> P x \<Longrightarrow> length (filter P xs) < length xs"
  by (rule length_filter_less)

lemma find_SomeD: "find P xs = Some x \<Longrightarrow> x \<in> set xs \<and> P x"
  by (auto simp: find_Some_iff)

lemma length_filter_keys_less:
  assumes "g \<noteq> []" "set g \<subseteq> set xs"
  shows "length (filter (\<lambda>x. f x \<notin> f ` set g) xs) < length xs"
proof -
  have "hd g \<in> set g" using assms(1) by simp
  then show ?thesis using assms(2) by (intro length_filter_less [of "hd g"]) auto
qed

lemma distinct_map_filter_fst: "wf_table m \<Longrightarrow> wf_table (filter P m)"
  by (rule distinct_map_filter)

lemma sorted_wrt_drop: "sorted_wrt R xs \<Longrightarrow> sorted_wrt R (drop n xs)"
  by (metis append_take_drop_id sorted_wrt_append)

end
