(* ===== verification/Apierror.thy ===== *)
theory Apierror
  imports Prelude
begin

section \<open>Domain errors and their HTTP status\<close>

text \<open>
  Model of \<^verbatim>\<open>internal/platform/apierror/apierror.go\<close>. \<open>ApiError\<close> is the typed
  \<^verbatim>\<open>*apierror.Error\<close>; \<open>OtherError\<close> is any other Go error (a wrapped I/O, SQL or library
  failure), which \<^verbatim>\<open>Write\<close> reports as an internal error without its detail.
\<close>

datatype kind = KindInternal | KindNotFound | KindConflict | KindInvalid | KindUnauthorized | KindForbidden

datatype error = ApiError kind string | OtherError string

type_synonym 'a result = "error + 'a"

definition NotFound :: "string \<Rightarrow> error" where "NotFound m = ApiError KindNotFound m"
definition Conflict :: "string \<Rightarrow> error" where "Conflict m = ApiError KindConflict m"
definition Invalid :: "string \<Rightarrow> error" where "Invalid m = ApiError KindInvalid m"
definition Unauthorized :: "string \<Rightarrow> error" where "Unauthorized m = ApiError KindUnauthorized m"
definition Forbidden :: "string \<Rightarrow> error" where "Forbidden m = ApiError KindForbidden m"

lemmas apierror_defs = NotFound_def Conflict_def Invalid_def Unauthorized_def Forbidden_def

fun statusFor :: "kind \<Rightarrow> int" where
  "statusFor KindNotFound = 404"
| "statusFor KindConflict = 409"
| "statusFor KindInvalid = 400"
| "statusFor KindUnauthorized = 401"
| "statusFor KindForbidden = 403"
| "statusFor KindInternal = 500"

text \<open>\<^verbatim>\<open>Write\<close> answers a status and the message of the JSON error body.\<close>

fun Write :: "error \<Rightarrow> int \<times> string" where
  "Write (ApiError k m) = (statusFor k, m)"
| "Write (OtherError m) = (500, ''internal server error'')"

text \<open>\<open>result_bind\<close> sequences fallible steps: the first error is returned.\<close>

definition result_bind :: "'a result \<Rightarrow> ('a \<Rightarrow> 'b result) \<Rightarrow> 'b result" where
  "result_bind r f = (case r of Inl e \<Rightarrow> Inl e | Inr x \<Rightarrow> f x)"

lemma result_bind_Inl [simp]: "result_bind (Inl e) f = Inl e"
  by (simp add: result_bind_def)

lemma result_bind_Inr [simp]: "result_bind (Inr x) f = f x"
  by (simp add: result_bind_def)

lemma result_bind_eq_Inr:
  "result_bind r f = Inr y \<longleftrightarrow> (\<exists>x. r = Inr x \<and> f x = Inr y)"
  by (cases r) auto

lemma result_bind_eq_Inl:
  "result_bind r f = Inl e \<longleftrightarrow> r = Inl e \<or> (\<exists>x. r = Inr x \<and> f x = Inl e)"
  by (cases r) auto

lemma Write_status_range: "fst (Write e) \<in> {400, 401, 403, 404, 409, 500}"
  by (cases e rule: Write.cases) (auto split: kind.splits, metis kind.exhaust statusFor.simps)

end
