(* ===== verification/Batch_Queue.thy ===== *)
theory Batch_Queue
  imports Apierror
begin

section \<open>What the sender relies on: a durable first-in first-out queue\<close>

text \<open>
  The agent's sender (\<^verbatim>\<open>internal/agent/sender.go\<close>) uses the spool through \<^verbatim>\<open>Peek\<close> and
  \<^verbatim>\<open>Remove\<close> only. \<open>batch_queue\<close> states what it relies on, with \<open>queue\<close> the names of the
  stored batches, oldest first; \<open>durable_queue\<close> adds that nothing is discarded while the stored
  files are intact. Theory \<open>Spool\<close> interprets both on the spool.
\<close>

locale batch_queue =
  fixes good :: "'st \<Rightarrow> bool"
    and queue :: "'st \<Rightarrow> string list"
    and ename :: "'e \<Rightarrow> string"
    and peek :: "'io \<Rightarrow> 'st \<Rightarrow> ('e option) result \<times> 'st"
    and remove :: "'io \<Rightarrow> 'e \<Rightarrow> 'st \<Rightarrow> error option \<times> 'st"
  assumes peek_good: "good st \<Longrightarrow> good (snd (peek f st))"
    and peek_suffix: "good st \<Longrightarrow> \<exists>k. queue (snd (peek f st)) = drop k (queue st)"
    and peek_some: "good st \<Longrightarrow> fst (peek f st) = Inr (Some e) \<Longrightarrow> \<exists>q. queue (snd (peek f st)) = ename e # q"
    and peek_none: "good st \<Longrightarrow> fst (peek f st) = Inr None \<Longrightarrow> queue (snd (peek f st)) = []"
    and remove_good: "good st \<Longrightarrow> good (snd (remove f e st))"
    and remove_head: "good st \<Longrightarrow> queue st = ename e # q \<Longrightarrow> fst (remove f e st) = None \<Longrightarrow>
          queue (snd (remove f e st)) = q"
    and remove_failed: "fst (remove f e st) = Some err \<Longrightarrow> snd (remove f e st) = st"
begin

lemma peek_length: "good st \<Longrightarrow> length (queue (snd (peek f st))) \<le> length (queue st)"
  using peek_suffix [of st f] by auto

lemma peek_subset: "good st \<Longrightarrow> set (queue (snd (peek f st))) \<subseteq> set (queue st)"
  using peek_suffix [of st f] set_drop_subset by metis

end

locale durable_queue = batch_queue good queue ename peek remove
  for good :: "'st \<Rightarrow> bool" and queue :: "'st \<Rightarrow> string list" and ename :: "'e \<Rightarrow> string"
    and peek :: "'io \<Rightarrow> 'st \<Rightarrow> ('e option) result \<times> 'st"
    and remove :: "'io \<Rightarrow> 'e \<Rightarrow> 'st \<Rightarrow> error option \<times> 'st" +
  fixes intact :: "'io \<Rightarrow> 'st \<Rightarrow> bool"
  assumes peek_intact: "good st \<Longrightarrow> intact f st \<Longrightarrow> snd (peek f st) = st"
    and peek_intact_ok: "good st \<Longrightarrow> intact f st \<Longrightarrow> \<not> isl (fst (peek f st))"
    and remove_intact: "good st \<Longrightarrow> intact g st \<Longrightarrow> intact g (snd (remove f e st))"

end
