(* ===== verification/GoText.thy ===== *)
theory GoText
  imports Prelude
begin

section \<open>Strings as the sources use them\<close>

text \<open>
  The functions of Go's \<^verbatim>\<open>strings\<close>, \<^verbatim>\<open>strconv\<close>, \<^verbatim>\<open>unicode/utf8\<close> and
  \<^verbatim>\<open>regexp\<close> that the components call, on strings of bytes: trimming of every Unicode white
  space (by its UTF-8 encoding), validity and repair of UTF-8, fixed-width and plain decimal
  formatting, \<^verbatim>\<open>ParseUint\<close>, and the anchored character-class patterns of the validators.
\<close>

subsection \<open>Prefixes, suffixes, membership\<close>

definition hasPrefix :: "string \<Rightarrow> string \<Rightarrow> bool" where
  "hasPrefix s p \<longleftrightarrow> take (length p) s = p"

definition hasSuffix :: "string \<Rightarrow> string \<Rightarrow> bool" where
  "hasSuffix s p \<longleftrightarrow> length p \<le> length s \<and> drop (length s - length p) s = p"

definition trimSuffix :: "string \<Rightarrow> string \<Rightarrow> string" where
  "trimSuffix s p = (if hasSuffix s p then take (length s - length p) s else s)"

definition trimPrefix :: "string \<Rightarrow> string \<Rightarrow> string" where
  "trimPrefix s p = (if hasPrefix s p then drop (length p) s else s)"

definition containsAny :: "string \<Rightarrow> string \<Rightarrow> bool" where
  "containsAny s cs \<longleftrightarrow> list_ex (\<lambda>c. c \<in> set cs) s"

fun contains :: "string \<Rightarrow> string \<Rightarrow> bool" where
  "contains [] p \<longleftrightarrow> p = []"
| "contains (c # cs) p \<longleftrightarrow> hasPrefix (c # cs) p \<or> contains cs p"

text \<open>\<^verbatim>\<open>strings.Split\<close> with a one-byte separator.\<close>

fun splitOn :: "char \<Rightarrow> string \<Rightarrow> string list" where
  "splitOn c [] = [[]]"
| "splitOn c (x # xs) =
     (if x = c then [] # splitOn c xs
      else case splitOn c xs of [] \<Rightarrow> [[x]] | f # fs \<Rightarrow> (x # f) # fs)"

definition byte :: "char \<Rightarrow> nat" where
  "byte c = of_char c"

subsection \<open>White space\<close>

text \<open>The UTF-8 encodings of the code points \<^verbatim>\<open>unicode.IsSpace\<close> accepts.\<close>

definition spaceSeqs :: "string list" where
  "spaceSeqs = map (map char_of)
     [[9], [10], [11], [12], [13], [32::nat], [194, 133], [194, 160], [225, 154, 128],
      [226, 128, 128], [226, 128, 129], [226, 128, 130], [226, 128, 131], [226, 128, 132],
      [226, 128, 133], [226, 128, 134], [226, 128, 135], [226, 128, 136], [226, 128, 137],
      [226, 128, 138], [226, 128, 168], [226, 128, 169], [226, 128, 175], [226, 129, 159],
      [227, 128, 128]]"

function stripAll :: "string list \<Rightarrow> string \<Rightarrow> string" where
  "stripAll es s =
     (case find (\<lambda>e. e \<noteq> [] \<and> hasPrefix s e) es of
        None \<Rightarrow> s
      | Some e \<Rightarrow> stripAll es (drop (length e) s))"
  by pat_completeness auto
termination
proof (relation "measure (\<lambda>(es, s). length s)", goal_cases)
  case 1
  show ?case by simp
next
  case (2 es s e)
  then have "e \<noteq> []" and "hasPrefix s e"
    by (auto simp: find_Some_iff)
  then have "0 < length e \<and> s \<noteq> []"
    by (auto simp: hasPrefix_def)
  then show ?case by simp
qed

declare stripAll.simps [simp del]

definition trimSpace :: "string \<Rightarrow> string" where
  "trimSpace s = rev (stripAll (map rev spaceSeqs) (rev (stripAll spaceSeqs s)))"

subsection \<open>UTF-8\<close>

definition cont :: "nat \<Rightarrow> bool" where
  "cont b \<longleftrightarrow> 128 \<le> b \<and> b \<le> 191"

text \<open>The width of the encoded code point at the head of a string, 0 where the bytes are no
  encoding: what \<^verbatim>\<open>utf8.DecodeRuneInString\<close> reports.\<close>

fun runeWidth :: "nat list \<Rightarrow> nat" where
  "runeWidth [] = 0"
| "runeWidth (b0 # bs) =
     (if b0 < 128 then 1
      else if 194 \<le> b0 \<and> b0 \<le> 223 then
        (case bs of b1 # _ \<Rightarrow> if cont b1 then 2 else 0 | _ \<Rightarrow> 0)
      else if 224 \<le> b0 \<and> b0 \<le> 239 then
        (case bs of b1 # b2 # _ \<Rightarrow>
           if cont b1 \<and> cont b2 \<and> (b0 = 224 \<longrightarrow> 160 \<le> b1) \<and> (b0 = 237 \<longrightarrow> b1 \<le> 159) then 3 else 0
         | _ \<Rightarrow> 0)
      else if 240 \<le> b0 \<and> b0 \<le> 244 then
        (case bs of b1 # b2 # b3 # _ \<Rightarrow>
           if cont b1 \<and> cont b2 \<and> cont b3 \<and> (b0 = 240 \<longrightarrow> 144 \<le> b1) \<and> (b0 = 244 \<longrightarrow> b1 \<le> 143)
           then 4 else 0
         | _ \<Rightarrow> 0)
      else 0)"

function validRunes :: "nat list \<Rightarrow> bool" where
  "validRunes bs =
     (if bs = [] then True
      else if runeWidth bs = 0 then False
      else validRunes (drop (runeWidth bs) bs))"
  by pat_completeness auto
termination
  by (relation "measure length") auto

declare validRunes.simps [simp del]

definition validString :: "string \<Rightarrow> bool" where
  "validString s = validRunes (map byte s)"

text \<open>\<^verbatim>\<open>strings.ToValidUTF8\<close> with an empty replacement: every byte that is no part of an
  encoding is dropped.\<close>

function repairRunes :: "nat list \<Rightarrow> nat list" where
  "repairRunes bs =
     (if bs = [] then []
      else if runeWidth bs = 0 then repairRunes (tl bs)
      else take (runeWidth bs) bs @ repairRunes (drop (runeWidth bs) bs))"
  by pat_completeness auto
termination
  by (relation "measure length") auto

declare repairRunes.simps [simp del]

definition toValidUTF8 :: "string \<Rightarrow> string" where
  "toValidUTF8 s = map char_of (repairRunes (map byte s))"

text \<open>A control character (\<^verbatim>\<open>unicode.IsControl\<close>) is below 32, or 127 to 159; the latter
  range above 127 is encoded as 194 followed by 128 to 159.\<close>

function hasControl :: "nat list \<Rightarrow> bool" where
  "hasControl bs =
     (if bs = [] then False
      else if runeWidth bs = 0 then hasControl (tl bs)
      else (hd bs < 32 \<or> hd bs = 127 \<or> (hd bs = 194 \<and> hd (tl bs) \<le> 159))
           \<or> hasControl (drop (runeWidth bs) bs))"
  by pat_completeness auto
termination
  by (relation "measure length") auto

declare hasControl.simps [simp del]

subsection \<open>Character classes\<close>

definition isLower :: "char \<Rightarrow> bool" where
  "isLower c \<longleftrightarrow> 97 \<le> byte c \<and> byte c \<le> 122"

definition isDigit :: "char \<Rightarrow> bool" where
  "isDigit c \<longleftrightarrow> 48 \<le> byte c \<and> byte c \<le> 57"

definition isHex :: "char \<Rightarrow> bool" where
  "isHex c \<longleftrightarrow> isDigit c \<or> (97 \<le> byte c \<and> byte c \<le> 102)"

text \<open>A pattern \<^verbatim>\<open>^[a-z][C]{0,n}$\<close> with a class \<open>C\<close> given as a predicate.\<close>

definition identRe :: "(char \<Rightarrow> bool) \<Rightarrow> nat \<Rightarrow> string \<Rightarrow> bool" where
  "identRe cls n s = (case s of [] \<Rightarrow> False | c # cs \<Rightarrow> isLower c \<and> length cs \<le> n \<and> list_all cls cs)"

definition lowerAscii :: "char \<Rightarrow> char" where
  "lowerAscii c = (if 65 \<le> byte c \<and> byte c \<le> 90 then char_of (byte c + 32) else c)"

text \<open>\<^verbatim>\<open>strings.ToLower\<close>: byte by byte on ASCII; beyond ASCII the case tables of the
  Unicode database decide, which are the parameter \<open>uni\<close>.\<close>

definition isAscii :: "string \<Rightarrow> bool" where
  "isAscii s = list_all (\<lambda>c. byte c < 128) s"

definition toLower :: "(string \<Rightarrow> string) \<Rightarrow> string \<Rightarrow> string" where
  "toLower uni s = (if isAscii s then map lowerAscii s else uni s)"

subsection \<open>Decimal numbers\<close>

definition digit :: "nat \<Rightarrow> char" where
  "digit d = char_of (48 + d)"

text \<open>\<^verbatim>\<open>%0wd\<close> of a number below \<open>10 ^ w\<close>.\<close>

primrec decPad :: "nat \<Rightarrow> nat \<Rightarrow> string" where
  "decPad 0 n = []"
| "decPad (Suc w) n = decPad w (n div 10) @ [digit (n mod 10)]"

fun itoa :: "nat \<Rightarrow> string" where
  "itoa n = (if n < 10 then [digit n] else itoa (n div 10) @ [digit (n mod 10)])"

declare itoa.simps [simp del]

fun parseDigits :: "nat \<Rightarrow> string \<Rightarrow> nat option" where
  "parseDigits acc [] = Some acc"
| "parseDigits acc (c # cs) =
     (if isDigit c then parseDigits (10 * acc + (byte c - 48)) cs else None)"

text \<open>\<^verbatim>\<open>strconv.ParseUint(s, 10, 64)\<close>.\<close>

definition parseUint64 :: "string \<Rightarrow> 64 word option" where
  "parseUint64 s =
     (if s = [] then None
      else case parseDigits 0 s of
        None \<Rightarrow> None
      | Some n \<Rightarrow> if n < 2 ^ 64 then Some (of_nat n) else None)"

text \<open>\<^verbatim>\<open>strconv.Atoi\<close>, with its error as no result.\<close>

definition atoi :: "string \<Rightarrow> int option" where
  "atoi s =
     (let neg = (s \<noteq> [] \<and> hd s = CHR ''-'');
          ds = (if s \<noteq> [] \<and> (hd s = CHR ''-'' \<or> hd s = CHR ''+'') then tl s else s)
      in if ds = [] then None
         else case parseDigits 0 ds of
                None \<Rightarrow> None
              | Some n \<Rightarrow>
                  if neg then (if n \<le> 2 ^ 63 then Some (- int n) else None)
                  else (if n < 2 ^ 63 then Some (int n) else None))"

text \<open>\<^verbatim>\<open>strconv.ParseBool\<close>.\<close>

definition parseBoolText :: "string \<Rightarrow> bool option" where
  "parseBoolText s =
     (if s \<in> {''1'', ''t'', ''T'', ''true'', ''TRUE'', ''True''} then Some True
      else if s \<in> {''0'', ''f'', ''F'', ''false'', ''FALSE'', ''False''} then Some False
      else None)"

subsection \<open>Lemmas: splitting\<close>

lemma splitOn_single: "c \<notin> set xs \<Longrightarrow> splitOn c xs = [xs]"
  by (induction xs) auto

subsection \<open>Lemmas: bytes and prefixes\<close>

lemma byte_char_of [simp]: "byte (char_of n) = n mod 256"
  by (simp add: byte_def)

lemma char_of_byte [simp]: "char_of (byte c) = c"
  by (simp add: byte_def)

lemma byte_less: "byte c < 256"
  by (simp add: byte_def)

lemma hasPrefix_append [simp]: "hasPrefix (p @ s) p"
  by (simp add: hasPrefix_def)

lemma hasSuffix_append [simp]: "hasSuffix (s @ p) p"
  by (simp add: hasSuffix_def)

lemma trimSuffix_append [simp]: "trimSuffix (s @ p) p = s"
  by (simp add: trimSuffix_def)

lemma hasPrefix_conv: "hasPrefix s p \<longleftrightarrow> (\<exists>t. s = p @ t)"
  unfolding hasPrefix_def by (metis append_eq_conv_conj)

lemma hasSuffix_conv: "hasSuffix s p \<longleftrightarrow> (\<exists>t. s = t @ p)"
proof
  assume "hasSuffix s p"
  then show "\<exists>t. s = t @ p"
    unfolding hasSuffix_def by (metis append_take_drop_id)
qed auto

subsection \<open>Lemmas: trimming\<close>

lemma stripAll_suffix: "\<exists>t. s = t @ stripAll es s"
proof (induction es s rule: stripAll.induct)
  case (1 es s)
  show ?case
  proof (cases "find (\<lambda>e. e \<noteq> [] \<and> hasPrefix s e) es")
    case None
    then show ?thesis by (simp add: stripAll.simps [of es s])
  next
    case (Some e)
    with 1 obtain t where "drop (length e) s = t @ stripAll es (drop (length e) s)"
      by blast
    then have "s = (take (length e) s @ t) @ stripAll es (drop (length e) s)"
      by (metis append_assoc append_take_drop_id)
    moreover have "stripAll es s = stripAll es (drop (length e) s)"
      using Some by (simp add: stripAll.simps [of es s])
    ultimately show ?thesis by metis
  qed
qed

lemma stripAll_stop: "e \<in> set es \<Longrightarrow> e \<noteq> [] \<Longrightarrow> \<not> hasPrefix (stripAll es s) e"
proof (induction es s rule: stripAll.induct)
  case (1 es s)
  then show ?case
    by (subst stripAll.simps) (auto simp: find_None_iff split: option.splits)
qed

lemma stripAll_fixed:
  "(\<forall>e\<in>set es. e \<noteq> [] \<longrightarrow> \<not> hasPrefix s e) \<Longrightarrow> stripAll es s = s"
  by (subst stripAll.simps) (auto simp: find_Some_iff split: option.splits)

lemma length_stripAll: "length (stripAll es s) \<le> length s"
  using stripAll_suffix [of s es] by (metis length_append le_add2)

lemma trimSpace_factor: "\<exists>a b. s = a @ trimSpace s @ b"
proof -
  obtain a where a: "s = a @ stripAll spaceSeqs s"
    using stripAll_suffix by blast
  obtain b where "rev (stripAll spaceSeqs s) = b @ stripAll (map rev spaceSeqs) (rev (stripAll spaceSeqs s))"
    using stripAll_suffix by blast
  then have "stripAll spaceSeqs s = trimSpace s @ rev b"
    unfolding trimSpace_def by (metis rev_append rev_rev_ident)
  with a show ?thesis by metis
qed

lemma length_trimSpace: "length (trimSpace s) \<le> length s"
proof -
  obtain a b where "s = a @ trimSpace s @ b"
    using trimSpace_factor by blast
  then have "length s = length a + (length (trimSpace s) + length b)"
    by (metis length_append)
  then show ?thesis by simp
qed

lemma trimSpace_Nil [simp]: "trimSpace [] = []"
  using length_trimSpace [of "[]"] by simp

text \<open>A text of printable ASCII characters without blanks is not trimmed.\<close>

lemma spaceSeqs_bytes: "\<forall>e\<in>set spaceSeqs. e \<noteq> [] \<and> byte (hd e) \<notin> {33..126} \<and> byte (last e) \<notin> {33..126}"
  by (simp add: spaceSeqs_def)

lemma hasPrefix_hd: "hasPrefix s e \<Longrightarrow> e \<noteq> [] \<Longrightarrow> s \<noteq> [] \<and> hd s = hd e"
  by (auto simp: hasPrefix_conv)

lemma trimSpace_plain:
  assumes "list_all (\<lambda>c. 33 \<le> byte c \<and> byte c \<le> 126) s"
  shows "trimSpace s = s"
proof -
  have in_s: "byte (hd s) \<in> {33..126}" "byte (hd (rev s)) \<in> {33..126}" if "s \<noteq> []"
    using assms that by (auto simp: list_all_iff hd_rev)
  have "stripAll spaceSeqs s = s"
    using hasPrefix_hd [of s] spaceSeqs_bytes in_s by (intro stripAll_fixed) metis
  moreover have "\<not> hasPrefix (rev s) (rev e)" if "e \<in> set spaceSeqs" for e
    using hasPrefix_hd [of "rev s" "rev e"] bspec [OF spaceSeqs_bytes that] in_s by (auto simp: hd_rev)
  then have "stripAll (map rev spaceSeqs) (rev s) = rev s"
    by (intro stripAll_fixed) auto
  ultimately show ?thesis by (simp add: trimSpace_def)
qed

lemma hasPrefix_appendD: "hasPrefix s e \<Longrightarrow> hasPrefix (s @ t) e"
  by (auto simp: hasPrefix_conv)

lemma trimSpace_idem [simp]: "trimSpace (trimSpace s) = trimSpace s"
proof -
  let ?l = "stripAll spaceSeqs s" and ?r = "stripAll (map rev spaceSeqs)"
  obtain b where b: "?l = trimSpace s @ b"
    unfolding trimSpace_def using stripAll_suffix [of "rev ?l" "map rev spaceSeqs"]
    by (metis rev_append rev_rev_ident)
  have "stripAll spaceSeqs (trimSpace s) = trimSpace s"
    using stripAll_stop [of _ spaceSeqs s] b
    by (intro stripAll_fixed) (metis hasPrefix_appendD)
  moreover have "?r (rev (trimSpace s)) = rev (trimSpace s)"
    unfolding trimSpace_def rev_rev_ident by (intro stripAll_fixed ballI impI stripAll_stop)
  ultimately show ?thesis
    by (simp add: trimSpace_def [of "trimSpace s"])
qed

subsection \<open>Lemmas: UTF-8\<close>

lemma runeWidth_le: "runeWidth bs \<le> length bs"
  by (cases bs) (auto split: list.splits)

lemma runeWidth_elim:
  assumes "runeWidth bs \<noteq> 0"
  obtains (one) b r where "bs = b # r" "b < 128" "runeWidth bs = 1"
  | (two) a b r where "bs = a # b # r" "194 \<le> a" "a \<le> 223" "cont b" "runeWidth bs = 2"
  | (three) a b c r where "bs = a # b # c # r" "224 \<le> a" "a \<le> 239" "cont b" "cont c" "runeWidth bs = 3"
  | (four) a b c d r where "bs = a # b # c # d # r" "240 \<le> a" "a \<le> 244" "cont b" "cont c" "cont d" "runeWidth bs = 4"
proof (cases bs)
  case Nil
  then show ?thesis using assms by simp
next
  case (Cons a s)
  consider "a < 128" | "194 \<le> a" "a \<le> 223" | "224 \<le> a" "a \<le> 239" | "240 \<le> a" "a \<le> 244"
    using assms Cons by (force split: if_splits)
  then show ?thesis
  proof cases
    case 1
    then show ?thesis using one Cons by simp
  next
    case 2
    then show ?thesis using assms Cons two by (cases s) (simp_all split: if_splits)
  next
    case 3
    then show ?thesis using assms Cons three by (cases s; cases "tl s") (simp_all split: if_splits)
  next
    case 4
    then show ?thesis using assms Cons four by (cases s; cases "tl s"; cases "tl (tl s)") (simp_all split: if_splits)
  qed
qed
lemma runeWidth_take:
  assumes "runeWidth bs \<noteq> 0"
  shows "runeWidth (take (runeWidth bs) bs @ r) = runeWidth bs"
  using assms
proof (cases rule: runeWidth_elim)
  case (two a b s)
  then show ?thesis by (simp split: if_splits)
next
  case (three a b c s)
  then show ?thesis by (simp split: if_splits)
next
  case (four a b c d s)
  then show ?thesis by (simp split: if_splits)
qed simp

lemma validRunes_repair: "validRunes (repairRunes bs)"
proof (induction bs rule: repairRunes.induct)
  case (1 bs)
  consider (nil) "bs = []" | (bad) "bs \<noteq> []" "runeWidth bs = 0" | (ok) "bs \<noteq> []" "runeWidth bs \<noteq> 0"
    by blast
  then show ?case
  proof cases
    case nil
    then show ?thesis by (simp add: repairRunes.simps validRunes.simps)
  next
    case bad
    with 1(1) show ?thesis by (subst repairRunes.simps) simp
  next
    case ok
    let ?r = "repairRunes (drop (runeWidth bs) bs)"
    have "runeWidth (take (runeWidth bs) bs @ ?r) = runeWidth bs"
      using ok(2) by (rule runeWidth_take)
    moreover have "drop (runeWidth bs) (take (runeWidth bs) bs @ ?r) = ?r"
      using runeWidth_le [of bs] by simp
    ultimately have "validRunes (take (runeWidth bs) bs @ ?r)"
      using ok 1(2) by (subst validRunes.simps) simp
    with ok show ?thesis by (subst repairRunes.simps) simp
  qed
qed

lemma repairRunes_valid: "validRunes bs \<Longrightarrow> repairRunes bs = bs"
proof (induction bs rule: validRunes.induct)
  case (1 bs)
  then show ?case
    by (cases "bs = []")
       (auto simp: validRunes.simps [of bs] repairRunes.simps [of bs] repairRunes.simps [of "[]"] split: if_splits)
qed

lemma length_repairRunes: "length (repairRunes bs) \<le> length bs"
proof (induction bs rule: repairRunes.induct)
  case (1 bs)
  consider (nil) "bs = []" | (bad) "bs \<noteq> []" "runeWidth bs = 0" | (ok) "bs \<noteq> []" "runeWidth bs \<noteq> 0"
    by blast
  then show ?case
  proof cases
    case nil
    then show ?thesis by (simp add: repairRunes.simps)
  next
    case bad
    with 1(1) show ?thesis by (subst repairRunes.simps) simp
  next
    case ok
    with 1(2) runeWidth_le [of bs] show ?thesis by (subst repairRunes.simps) simp
  qed
qed

lemma set_repairRunes: "set (repairRunes bs) \<subseteq> set bs"
proof (induction bs rule: repairRunes.induct)
  case (1 bs)
  have "set (tl bs) \<subseteq> set bs" "set (drop (runeWidth bs) bs) \<subseteq> set bs" "set (take (runeWidth bs) bs) \<subseteq> set bs"
    by (auto intro: set_drop_subset [THEN subsetD] set_take_subset [THEN subsetD] list.set_sel(2) dest: in_set_dropD in_set_takeD)
  with 1 show ?case
    by (subst repairRunes.simps) (simp, blast)
qed

lemma validString_toValidUTF8: "validString (toValidUTF8 s)"
proof -
  have "map byte (toValidUTF8 s) = map (\<lambda>n. n mod 256) (repairRunes (map byte s))"
    by (simp add: toValidUTF8_def)
  also have "\<dots> = repairRunes (map byte s)"
    using set_repairRunes [of "map byte s"] byte_less by (intro map_idI) force
  finally show ?thesis
    by (simp add: validString_def validRunes_repair)
qed

lemma toValidUTF8_valid: "validString s \<Longrightarrow> toValidUTF8 s = s"
  by (simp add: validString_def toValidUTF8_def repairRunes_valid comp_def)

lemma length_toValidUTF8: "length (toValidUTF8 s) \<le> length s"
  using length_repairRunes [of "map byte s"] by (simp add: toValidUTF8_def)

lemma validString_ascii: "isAscii s \<Longrightarrow> validString s"
proof -
  have "validRunes bs" if "list_all (\<lambda>b. b < 128) bs" for bs
    using that by (induction bs) (simp_all add: validRunes.simps)
  then show "isAscii s \<Longrightarrow> validString s" by (simp add: validString_def isAscii_def list_all_iff)
qed

lemma identRe_ascii:
  assumes "identRe cls n s" "\<And>c. cls c \<Longrightarrow> byte c < 128"
  shows "isAscii s"
  using assms by (auto simp: identRe_def isAscii_def isLower_def list_all_iff split: list.splits)

subsection \<open>Lemmas: decimal numbers\<close>

lemma isDigit_digit [simp]: "d < 10 \<Longrightarrow> isDigit (digit d)"
  by (simp add: isDigit_def digit_def)

lemma byte_digit [simp]: "d < 10 \<Longrightarrow> byte (digit d) = 48 + d"
  by (simp add: digit_def)

lemma digit_less_iff: "a < 10 \<Longrightarrow> b < 10 \<Longrightarrow> digit a < digit b \<longleftrightarrow> a < b"
  by (simp add: digit_def less_char_def)

lemma length_decPad [simp]: "length (decPad w n) = w"
  by (induction w arbitrary: n) auto

lemma decPad_digits: "list_all isDigit (decPad w n)"
  by (induction w arbitrary: n) auto

lemma parseDigits_append:
  "parseDigits acc (s @ t) = (case parseDigits acc s of None \<Rightarrow> None | Some n \<Rightarrow> parseDigits n t)"
  by (induction s arbitrary: acc) auto

lemma parseDigits_decPad: "n < 10 ^ w \<Longrightarrow> parseDigits 0 (decPad w n) = Some n"
proof (induction w arbitrary: n)
  case 0
  then show ?case by simp
next
  case (Suc w)
  then have "n div 10 < 10 ^ w" by auto
  with Suc.IH show ?case by (simp add: parseDigits_append)
qed

lemma append_less_append:
  fixes xs ys :: "'a::linorder list"
  assumes "length xs = length ys" and "xs < ys \<or> (xs = ys \<and> us < vs)"
  shows "xs @ us < ys @ vs"
  using assms by (auto simp: list_less_def intro: lexord_sufI lexord_append_leftI)

lemma decPad_less: "m < n \<Longrightarrow> n < 10 ^ w \<Longrightarrow> decPad w m < decPad w n"
proof (induction w arbitrary: m n)
  case 0
  then show ?case by simp
next
  case (Suc w)
  have n10: "n div 10 < 10 ^ w" using Suc.prems by auto
  consider (lt) "m div 10 < n div 10" | (eq) "m div 10 = n div 10" "m mod 10 < n mod 10"
    using \<open>m < n\<close> by (metis div_le_mono div_mod_decomp le_neq_implies_less less_or_eq_imp_le nat_add_left_cancel_less)
  then show ?case
  proof cases
    case lt
    then have "decPad w (m div 10) < decPad w (n div 10)" using n10 by (rule Suc.IH)
    then show ?thesis by (simp add: append_less_append)
  next
    case eq
    then have "[digit (m mod 10)] < [digit (n mod 10)]"
      by (simp add: digit_less_iff)
    with eq show ?thesis by (simp add: append_less_append)
  qed
qed

end
