(* ===== verification/Spool.thy ===== *)
theory Spool
  imports Batch_Queue GoText
begin

section \<open>The agent's durable queue of unsent batches\<close>

text \<open>
  Model of \<^verbatim>\<open>internal/agent/spool/spool.go\<close>: a directory of one file per batch, named by an
  increasing 64-bit sequence number, mirrored in memory by \<open>items\<close> (oldest first) and a running
  byte total. The directory is a \<open>disk\<close>, an association list from names to nodes. Every system
  call that can fail is a field of \<open>io\<close>: one value of it is the behaviour of the file system
  during one call. The JSON form of a record is produced and read by \<open>enc\<close> and \<open>dec\<close>
  (\<^verbatim>\<open>json.Marshal\<close> and \<^verbatim>\<open>json.Unmarshal\<close> at type \<^verbatim>\<open>record\<close>), which are
  parameters. The mutex makes each operation atomic.
\<close>

datatype fnode = RegFile string | Directory

type_synonym disk = "(string \<times> fnode) list"

datatype write_step = AtCreateTemp | AtChmod | AtWrite | AtSync | AtClose | AtRename

record io =
  mkdir_err :: bool
  readdir_err :: bool
  info_err :: "string \<Rightarrow> bool"
  remove_err :: "string \<Rightarrow> bool"
  read_err :: "string \<Rightarrow> bool"
  write_fault :: "write_step option"
  partial_write :: nat
  tmp_suffix :: string
  clock :: "64 word"

definition DefaultMaxBatches :: int where "DefaultMaxBatches = 5000"
definition DefaultMaxBytes :: int where "DefaultMaxBytes = 64 * 2 ^ 20"
definition fileSuffix :: string where "fileSuffix = ''.json''"
definition tmpPrefix :: string where "tmpPrefix = ''.tmp-''"

record entry =
  Key :: string
  Batch :: string
  entry_name :: string

record item =
  item_name :: string
  item_size :: int

record spool =
  maxBatches :: int
  maxBytes :: int
  items :: "item list"
  total_bytes :: int
  lastSeq :: "64 word"
  corrupt :: nat

text \<open>\<^verbatim>\<open>os.Remove\<close>: a missing file is the error the callers ignore, so only \<open>remove_err\<close>
  counts as a failure.\<close>

definition osRemove :: "io \<Rightarrow> string \<Rightarrow> disk \<Rightarrow> bool \<times> disk" where
  "osRemove f n d = (if remove_err f n then (False, d) else (True, AList.delete n d))"

text \<open>\<open>writeAtomic\<close>: create a temporary file, set its mode, write, sync and close it, and
  rename it over the path. A failed step removes the temporary file, if that works.\<close>

definition writeAtomic :: "io \<Rightarrow> string \<Rightarrow> string \<Rightarrow> disk \<Rightarrow> (error option) \<times> disk" where
  "writeAtomic f name body d =
     (let tmp = tmpPrefix @ tmp_suffix f;
          fail = (\<lambda>content msg. (Some (OtherError msg), snd (osRemove f tmp (AList.update tmp (RegFile content) d))))
      in case write_fault f of
           Some AtCreateTemp \<Rightarrow> (Some (OtherError ''spool: create temp file''), d)
         | Some AtChmod \<Rightarrow> fail [] ''spool: chmod''
         | Some AtWrite \<Rightarrow> fail (take (partial_write f) body) ''spool: write''
         | Some AtSync \<Rightarrow> fail body ''spool: sync''
         | Some AtClose \<Rightarrow> fail body ''spool: close''
         | Some AtRename \<Rightarrow> fail body ''spool: rename''
         | None \<Rightarrow> (None, AList.update name (RegFile body) d))"

text \<open>\<open>Open\<close>: one directory entry at a time, in the name order \<^verbatim>\<open>os.ReadDir\<close> gives.\<close>

definition nodeSize :: "fnode \<Rightarrow> int" where
  "nodeSize n = (case n of RegFile b \<Rightarrow> int (length b) | Directory \<Rightarrow> 0)"

definition loadEntry :: "io \<Rightarrow> string \<times> fnode \<Rightarrow> spool \<times> disk \<Rightarrow> spool \<times> disk" where
  "loadEntry f e st =
     (let name = fst e; s = fst st; d = snd st
      in if hasPrefix name tmpPrefix then (s, snd (osRemove f name d))
         else if hasSuffix name fileSuffix \<and> snd e \<noteq> Directory then
           (if info_err f name then st
            else let size = nodeSize (snd e);
                     s' = s\<lparr>items := items s @ [\<lparr>item_name = name, item_size = size\<rparr>],
                            total_bytes := total_bytes s + size\<rparr>
                 in case parseUint64 (trimSuffix name fileSuffix) of
                      None \<Rightarrow> (s', d)
                    | Some seq \<Rightarrow> (if lastSeq s < seq then s'\<lparr>lastSeq := seq\<rparr> else s', d))
         else st)"

definition Open :: "io \<Rightarrow> disk \<Rightarrow> int \<Rightarrow> int \<Rightarrow> spool result \<times> disk" where
  "Open f d mb my =
     (if mkdir_err f then (Inl (OtherError ''spool: create''), d)
      else if readdir_err f then (Inl (OtherError ''spool: read''), d)
      else let s0 = \<lparr>maxBatches = (if mb \<le> 0 then DefaultMaxBatches else mb),
                     maxBytes = (if my \<le> 0 then DefaultMaxBytes else my),
                     items = [], total_bytes = 0, lastSeq = 0, corrupt = 0\<rparr>;
               st = fold (loadEntry f) (sort_key fst d) (s0, d)
           in (Inr ((fst st)\<lparr>items := sort_key item_name (items (fst st))\<rparr>), snd st))"

text \<open>\<open>Add\<close>: the file name, the append and the loop that drops the oldest batches.\<close>

definition seqName :: "64 word \<Rightarrow> string" where
  "seqName seq = decPad 20 (unat seq) @ fileSuffix"

definition nextSeq :: "64 word \<Rightarrow> 64 word \<Rightarrow> 64 word" where
  "nextSeq now prev = (if now \<le> prev then prev + 1 else now)"

fun dropOldest :: "io \<Rightarrow> spool \<Rightarrow> item list \<Rightarrow> disk \<Rightarrow> nat \<Rightarrow> (error option \<times> nat) \<times> spool \<times> disk" where
  "dropOldest f s (it # it' # its) d n =
     (if maxBatches s < int (length (it # it' # its)) \<or> maxBytes s < total_bytes s then
        (case osRemove f (item_name it) d of
           (False, _) \<Rightarrow> ((Some (OtherError ''spool: drop oldest batch''), n), s\<lparr>items := it # it' # its\<rparr>, d)
         | (True, d') \<Rightarrow> dropOldest f (s\<lparr>total_bytes := total_bytes s - item_size it\<rparr>) (it' # its) d' (Suc n))
      else ((None, n), s\<lparr>items := it # it' # its\<rparr>, d))"
| "dropOldest f s its d n = ((None, n), s\<lparr>items := its\<rparr>, d)"

definition Add :: "(string \<Rightarrow> string \<Rightarrow> string option) \<Rightarrow> io \<Rightarrow> string \<Rightarrow> string \<Rightarrow> spool \<Rightarrow> disk
    \<Rightarrow> (error option \<times> nat) \<times> spool \<times> disk" where
  "Add enc f key batch s d =
     (if key = [] then ((Some (OtherError ''spool: empty idempotency key''), 0), s, d)
      else case enc key batch of
        None \<Rightarrow> ((Some (OtherError ''spool: encode batch''), 0), s, d)
      | Some body \<Rightarrow>
          (let seq = nextSeq (clock f) (lastSeq s); name = seqName seq
           in case writeAtomic f name body d of
                (Some e, d') \<Rightarrow> ((Some e, 0), s, d')
              | (None, d') \<Rightarrow>
                  dropOldest f
                    (s\<lparr>lastSeq := seq, total_bytes := total_bytes s + int (length body)\<rparr>)
                    (items s @ [\<lparr>item_name = name, item_size = int (length body)\<rparr>]) d' 0))"

text \<open>\<open>Peek\<close>: the content of the oldest readable file; an unreadable one is discarded and counted.\<close>

definition readItem :: "(string \<Rightarrow> (string \<times> string) option) \<Rightarrow> io \<Rightarrow> disk \<Rightarrow> item \<Rightarrow> entry option" where
  "readItem dec f d it =
     (if read_err f (item_name it) then None
      else case map_of d (item_name it) of
        Some (RegFile raw) \<Rightarrow>
          (case dec raw of
             Some (k, b) \<Rightarrow> if k = [] then None else Some \<lparr>Key = k, Batch = b, entry_name = item_name it\<rparr>
           | None \<Rightarrow> None)
      | _ \<Rightarrow> None)"

fun peekLoop :: "(string \<Rightarrow> (string \<times> string) option) \<Rightarrow> io \<Rightarrow> spool \<Rightarrow> item list \<Rightarrow> disk
    \<Rightarrow> (entry option) result \<times> spool \<times> disk" where
  "peekLoop dec f s [] d = (Inr None, s\<lparr>items := []\<rparr>, d)"
| "peekLoop dec f s (it # its) d =
     (case readItem dec f d it of
        Some e \<Rightarrow> (Inr (Some e), s\<lparr>items := it # its\<rparr>, d)
      | None \<Rightarrow>
          (case osRemove f (item_name it) d of
             (False, _) \<Rightarrow> (Inl (OtherError ''spool: discard unreadable batch''), s\<lparr>items := it # its\<rparr>, d)
           | (True, d') \<Rightarrow>
               peekLoop dec f (s\<lparr>total_bytes := total_bytes s - item_size it, corrupt := Suc (corrupt s)\<rparr>) its d'))"

definition Peek :: "(string \<Rightarrow> (string \<times> string) option) \<Rightarrow> io \<Rightarrow> spool \<Rightarrow> disk
    \<Rightarrow> (entry option) result \<times> spool \<times> disk" where
  "Peek dec f s d = peekLoop dec f s (items s) d"

text \<open>\<open>Remove\<close>: the first item with the entry's name.\<close>

fun removeFirst :: "string \<Rightarrow> item list \<Rightarrow> item list" where
  "removeFirst n [] = []"
| "removeFirst n (it # its) = (if item_name it = n then its else it # removeFirst n its)"

definition Remove :: "io \<Rightarrow> entry \<Rightarrow> spool \<Rightarrow> disk \<Rightarrow> error option \<times> spool \<times> disk" where
  "Remove f e s d =
     (case find (\<lambda>it. item_name it = entry_name e) (items s) of
        None \<Rightarrow> (None, s, d)
      | Some it \<Rightarrow>
          (case osRemove f (item_name it) d of
             (False, _) \<Rightarrow> (Some (OtherError ''spool: remove batch''), s, d)
           | (True, d') \<Rightarrow>
               (None, s\<lparr>items := removeFirst (entry_name e) (items s),
                        total_bytes := total_bytes s - item_size it\<rparr>, d')))"

definition Len :: "spool \<Rightarrow> nat" where "Len s = length (items s)"
definition Corrupt :: "spool \<Rightarrow> nat" where "Corrupt s = corrupt s"


subsection \<open>The invariant\<close>

text \<open>The byte total is the sum of the sizes, the names are the canonical names of increasing
  sequence numbers up to \<open>lastSeq\<close>, and every item is a regular file of its recorded size.\<close>

definition sizes :: "item list \<Rightarrow> int" where
  "sizes its = sum_list (map item_size its)"

definition on_disk :: "disk \<Rightarrow> item \<Rightarrow> bool" where
  "on_disk d it = (case map_of d (item_name it) of
      Some (RegFile b) \<Rightarrow> item_size it = int (length b) | _ \<Rightarrow> False)"

definition spool_inv :: "spool \<Rightarrow> disk \<Rightarrow> bool" where
  "spool_inv s d \<longleftrightarrow>
     total_bytes s = sizes (items s) \<and>
     sorted_wrt (<) (map item_name (items s)) \<and>
     (\<forall>it\<in>set (items s). \<exists>q\<le>lastSeq s. item_name it = seqName q) \<and>
     list_all (on_disk d) (items s)"

definition fits :: "spool \<Rightarrow> item list \<Rightarrow> bool" where
  "fits s its \<longleftrightarrow> int (length its) \<le> maxBatches s \<and> sizes its \<le> maxBytes s"

definition is_tmp :: "string \<times> fnode \<Rightarrow> bool" where
  "is_tmp e \<longleftrightarrow> hasPrefix (fst e) tmpPrefix"

text \<open>A disk is \<open>clean\<close> for a spool when it holds the spool's files and leftovers of interrupted
  writes only: what a crash of the agent at any moment leaves behind.\<close>

definition clean_disk :: "spool \<Rightarrow> disk \<Rightarrow> bool" where
  "clean_disk s d \<longleftrightarrow> wf_table d \<and> (\<forall>e\<in>set d. is_tmp e \<or> fst e \<in> item_name ` set (items s))"

subsection \<open>File names\<close>

lemma unat64_bound: "unat (q :: 64 word) < 10 ^ 20"
proof -
  have "unat q < 2 ^ LENGTH(64)" by (rule unsigned_less)
  then show ?thesis by simp
qed

lemma seqName_less: "p < q \<Longrightarrow> seqName p < seqName q"
  unfolding seqName_def
  by (rule append_less_append)
     (auto simp: word_less_nat_alt simp del: decPad.simps power_numeral intro: decPad_less unat64_bound)

lemma seqName_inj [simp]: "seqName p = seqName q \<longleftrightarrow> p = q"
  by (metis less_irrefl linorder_neqE seqName_less)

lemma seqName_less_iff [simp]: "seqName p < seqName q \<longleftrightarrow> p < q"
  by (metis less_asym less_irrefl linorder_neqE seqName_less)

lemma parse_seqName: "parseUint64 (trimSuffix (seqName q) fileSuffix) = Some q"
proof -
  have "decPad 20 (unat q) \<noteq> []" by (metis length_decPad list.size(3) zero_neq_numeral)
  moreover have "parseDigits 0 (decPad 20 (unat q)) = Some (unat q)"
    by (rule parseDigits_decPad) (rule unat64_bound)
  moreover have "unat q < 2 ^ LENGTH(64)" by (rule unsigned_less)
  ultimately show ?thesis
    by (simp add: seqName_def parseUint64_def)
qed

lemma seqName_suffix [simp]: "hasSuffix (seqName q) fileSuffix"
  by (simp add: seqName_def)

lemma seqName_not_tmp [simp]: "\<not> hasPrefix (seqName q) tmpPrefix"
proof -
  obtain c cs where c: "decPad 20 (unat q) = c # cs"
    by (metis length_decPad length_Cons list.exhaust list.size(3) zero_neq_numeral)
  then have "isDigit c" using decPad_digits [of 20 "unat q"] by simp
  moreover have "\<not> isDigit (CHR ''.'')" by (simp add: isDigit_def byte_def)
  ultimately show ?thesis
    by (auto simp: seqName_def c tmpPrefix_def hasPrefix_def)
qed

lemma tmp_neq_seqName [simp]: "tmpPrefix @ t \<noteq> seqName q"
  using seqName_not_tmp [of q] by (metis hasPrefix_append)

lemma nextSeq_gt: "prev \<noteq> - 1 \<Longrightarrow> prev < nextSeq now prev"
proof -
  assume "prev \<noteq> - 1"
  then have "1 + prev \<noteq> 0" by (metis add.commute add_eq_0_iff)
  then have "unat (1 + prev) = Suc (unat prev)" by (rule unatSuc)
  then have "prev < prev + 1" by (simp add: word_less_nat_alt add.commute)
  then show ?thesis by (auto simp: nextSeq_def)
qed

subsection \<open>Disk updates\<close>

lemma on_disk_delete: "item_name it \<noteq> n \<Longrightarrow> on_disk (AList.delete n d) it = on_disk d it"
  by (simp add: on_disk_def table_simps)

lemma on_disk_update: "item_name it \<noteq> n \<Longrightarrow> on_disk (AList.update n x d) it = on_disk d it"
  by (simp add: on_disk_def table_simps)

lemma on_disk_cong: "map_of d (item_name it) = map_of d' (item_name it) \<Longrightarrow> on_disk d it = on_disk d' it"
  by (simp add: on_disk_def)

text \<open>A failed atomic write leaves every canonical file as it was; a successful one sets
  exactly the named file.\<close>

lemma writeAtomic_fault:
  assumes "writeAtomic f n body d = (Some e, d')"
  shows "map_of d' (seqName q) = map_of d (seqName q)"
proof -
  have "tmpPrefix @ tmp_suffix f \<noteq> seqName q" by simp
  then have "seqName q \<noteq> tmpPrefix @ tmp_suffix f" by metis
  with assms show ?thesis
    by (auto simp: writeAtomic_def osRemove_def Let_def table_simps
        split: option.splits write_step.splits if_splits)
qed

lemma writeAtomic_ok:
  "writeAtomic f n body d = (None, d') \<Longrightarrow> d' = AList.update n (RegFile body) d"
  by (auto simp: writeAtomic_def Let_def split: option.splits write_step.splits)

lemma writeAtomic_no_fault:
  "write_fault f = None \<Longrightarrow> writeAtomic f n body d = (None, AList.update n (RegFile body) d)"
  by (simp add: writeAtomic_def Let_def)

subsection \<open>Dropping the oldest batches\<close>

definition delete_all :: "string list \<Rightarrow> disk \<Rightarrow> disk" where
  "delete_all ns d = fold AList.delete ns d"

lemma delete_all_simps [simp]:
  "delete_all [] d = d" "delete_all (n # ns) d = delete_all ns (AList.delete n d)"
  by (simp_all add: delete_all_def)

lemma map_of_delete_all [table_simps]:
  "map_of (delete_all ns d) k = (if k \<in> set ns then None else map_of d k)"
  by (induction ns arbitrary: d) (auto simp: table_simps)

lemma delete_all_subset: "set (delete_all ns d) \<subseteq> set d"
proof (induction ns arbitrary: d)
  case (Cons n ns)
  have "set (AList.delete n d) \<subseteq> set d" by (simp add: AList.delete_eq)
  with Cons show ?case by fastforce
qed simp

lemma sizes_simps [simp]: "sizes [] = 0" "sizes (it # its) = item_size it + sizes its"
  by (simp_all add: sizes_def)

lemma sizes_append [simp]: "sizes (xs @ ys) = sizes xs + sizes ys"
  by (simp add: sizes_def)

lemma fits_cong: "maxBatches s = maxBatches s' \<Longrightarrow> maxBytes s = maxBytes s' \<Longrightarrow> fits s its = fits s' its"
  by (simp add: fits_def)

text \<open>The loop drops a prefix, deletes exactly those files, stops only when the rest fits or one
  item is left, and never drops while what is left fits.\<close>

lemma dropOldest_spec:
  assumes "total_bytes s = sizes its" and "its \<noteq> []"
  shows "\<exists>k err. k < length its
     \<and> dropOldest f s its d n =
         ((err, n + k), s\<lparr>items := drop k its, total_bytes := sizes (drop k its)\<rparr>,
          delete_all (map item_name (take k its)) d)
     \<and> (err = None \<longrightarrow> length (drop k its) = 1 \<or> fits s (drop k its))
     \<and> (\<forall>j<k. \<not> fits s (drop j its))
     \<and> ((\<forall>it\<in>set its. \<not> remove_err f (item_name it)) \<longrightarrow> err = None)"
  using assms
proof (induction f s its d n rule: dropOldest.induct)
  case (1 f s it it' its d n)
  let ?its = "it # it' # its"
  show ?case
  proof (cases "fits s ?its")
    case True
    then have "dropOldest f s ?its d n = ((None, n + 0), s\<lparr>items := drop 0 ?its, total_bytes := sizes (drop 0 ?its)\<rparr>, delete_all (map item_name (take 0 ?its)) d)"
      using "1.prems" by (simp add: fits_def)
    with True show ?thesis by (intro exI [of _ 0] exI [of _ None]) auto
  next
    case False
    show ?thesis
    proof (cases "remove_err f (item_name it)")
      case True
      with False "1.prems" show ?thesis
        by (intro exI [of _ 0] exI) (auto simp: osRemove_def fits_def)
    next
      case ok: False
      let ?s = "s\<lparr>total_bytes := total_bytes s - item_size it\<rparr>" and ?d = "AList.delete (item_name it) d"
      have rm: "osRemove f (item_name it) d = (True, ?d)" using ok by (simp add: osRemove_def)
      have big: "maxBatches s < int (length ?its) \<or> maxBytes s < total_bytes s"
        using False "1.prems" by (auto simp: fits_def)
      have "total_bytes ?s = sizes (it' # its)" using "1.prems" by simp
      from "1.IH" [OF big rm [symmetric] refl this] obtain k err where
        k: "k < length (it' # its)"
        and eq: "dropOldest f ?s (it' # its) ?d (Suc n) =
           ((err, Suc n + k), ?s\<lparr>items := drop k (it' # its), total_bytes := sizes (drop k (it' # its))\<rparr>,
            delete_all (map item_name (take k (it' # its))) ?d)"
        and rest: "err = None \<longrightarrow> length (drop k (it' # its)) = 1 \<or> fits ?s (drop k (it' # its))"
          "\<forall>j<k. \<not> fits ?s (drop j (it' # its))"
          "(\<forall>x\<in>set (it' # its). \<not> remove_err f (item_name x)) \<longrightarrow> err = None"
        by auto
      have "dropOldest f s ?its d n = ((err, n + Suc k), s\<lparr>items := drop (Suc k) ?its, total_bytes := sizes (drop (Suc k) ?its)\<rparr>,
            delete_all (map item_name (take (Suc k) ?its)) d)"
        using eq big rm by simp
      moreover have "\<forall>j<Suc k. \<not> fits s (drop j ?its)"
        using rest(2) False by (auto simp: less_Suc_eq_0_disj fits_cong [of s ?s])
      ultimately show ?thesis
        using k rest by (intro exI [of _ "Suc k"] exI [of _ err]) (auto simp: fits_cong [of s ?s])
    qed
  qed
qed (auto intro!: exI [of _ 0])

subsection \<open>The directory holds the queue and nothing else\<close>

lemma clean_disk_delete:
  "clean_disk s d \<Longrightarrow> (\<forall>it\<in>set (items s). item_name it \<in> ns \<or> it \<in> set (items s')) \<Longrightarrow>
   wf_table d' \<Longrightarrow> set d' \<subseteq> set d \<Longrightarrow> (\<forall>e\<in>set d'. fst e \<notin> ns) \<Longrightarrow> clean_disk s' d'"
proof -
  assume a: "clean_disk s d" "\<forall>it\<in>set (items s). item_name it \<in> ns \<or> it \<in> set (items s')"
    "wf_table d'" "set d' \<subseteq> set d" "\<forall>e\<in>set d'. fst e \<notin> ns"
  have "is_tmp e \<or> fst e \<in> item_name ` set (items s')" if e: "e \<in> set d'" for e
  proof -
    have "is_tmp e \<or> fst e \<in> item_name ` set (items s)"
      using a(1,4) e by (auto simp: clean_disk_def)
    with a(2,5) e show ?thesis by fastforce
  qed
  with a(3) show ?thesis by (simp add: clean_disk_def)
qed

lemma wf_delete_all: "wf_table d \<Longrightarrow> wf_table (delete_all ns d)"
  by (induction ns arbitrary: d) (auto simp: distinct_delete)

lemma delete_all_notin: "e \<in> set (delete_all ns d) \<Longrightarrow> fst e \<notin> set ns"
proof
  assume e: "e \<in> set (delete_all ns d)" and "fst e \<in> set ns"
  then have "map_of (delete_all ns d) (fst e) = None" by (simp add: table_simps)
  with e show False by (auto simp: map_of_eq_None_iff)
qed

lemma clean_disk_drop:
  assumes "clean_disk s d" and "items s' = drop k (items s)"
  shows "clean_disk s' (delete_all (map item_name (take k (items s))) d)"
proof (rule clean_disk_delete [OF assms(1)])
  show "\<forall>it\<in>set (items s). item_name it \<in> set (map item_name (take k (items s))) \<or> it \<in> set (items s')"
    unfolding assms(2) by (metis Un_iff append_take_drop_id image_eqI image_set set_append)
  show "wf_table (delete_all (map item_name (take k (items s))) d)"
    using assms(1) by (simp add: clean_disk_def wf_delete_all)
qed (use delete_all_subset delete_all_notin in \<open>fast+\<close>)

lemma clean_disk_tmp:
  assumes "clean_disk s d" and "is_tmp (n, x)"
  shows "clean_disk s (AList.update n x d)" and "clean_disk s (AList.delete n (AList.update n x d))"
proof -
  have up: "set (AList.update n x d) \<subseteq> insert (n, x) (set d)"
    by (induction d) auto
  moreover have "wf_table (AList.update n x d)"
    using assms(1) by (simp add: clean_disk_def distinct_update)
  ultimately show "clean_disk s (AList.update n x d)"
    using assms by (auto simp: clean_disk_def)
  then show "clean_disk s (AList.delete n (AList.update n x d))"
    by (auto simp: clean_disk_def AList.delete_eq intro: distinct_map_filter)
qed

lemma writeAtomic_clean:
  assumes clean: "clean_disk s d" and wr: "writeAtomic f n body d = (Some e, d')"
  shows "clean_disk s d'"
proof -
  have "is_tmp (tmpPrefix @ tmp_suffix f, RegFile c)" for c by (simp add: is_tmp_def)
  with wr clean_disk_tmp [OF clean] clean show ?thesis
    by (auto simp: writeAtomic_def osRemove_def Let_def split: option.splits write_step.splits if_splits)
qed

lemma clean_disk_append:
  assumes "clean_disk s d" and "items s' = items s @ [\<lparr>item_name = n, item_size = z\<rparr>]"
  shows "clean_disk s' (AList.update n x d)"
proof -
  have "set (AList.update n x d) \<subseteq> insert (n, x) (set d)"
    by (induction d) auto
  moreover have "wf_table (AList.update n x d)"
    using assms(1) by (simp add: clean_disk_def distinct_update)
  ultimately show ?thesis using assms by (fastforce simp: clean_disk_def)
qed

subsection \<open>Add\<close>

lemma drop_sorted_names:
  "sorted_wrt (<) (map item_name its) \<Longrightarrow> sorted_wrt (<) (map item_name (drop k its))"
  by (metis drop_map sorted_wrt_drop)

lemma dropped_name_notin:
  assumes "sorted_wrt (<) (map item_name its)" and "it \<in> set (drop k its)"
  shows "item_name it \<notin> item_name ` set (take k its)"
proof
  assume "item_name it \<in> item_name ` set (take k its)"
  then obtain it' where "it' \<in> set (take k its)" "item_name it' = item_name it" by auto
  moreover have "sorted_wrt (<) (map item_name (take k its) @ map item_name (drop k its))"
    using assms(1) by (metis append_take_drop_id map_append)
  ultimately show False
    using assms(2) unfolding sorted_wrt_append by (metis image_eqI image_set less_irrefl)
qed

text \<open>Dropping a prefix together with its files keeps the invariant.\<close>

lemma spool_inv_drop:
  assumes "spool_inv (s\<lparr>items := its, total_bytes := sizes its\<rparr>) d"
  shows "spool_inv (s\<lparr>items := drop k its, total_bytes := sizes (drop k its)\<rparr>)
           (delete_all (map item_name (take k its)) d)"
proof -
  have "list_all (on_disk (delete_all (map item_name (take k its)) d)) (drop k its)"
    unfolding list_all_iff
  proof
    fix it assume it: "it \<in> set (drop k its)"
    then have "item_name it \<notin> item_name ` set (take k its)"
      using assms dropped_name_notin by (auto simp: spool_inv_def)
    then have "map_of (delete_all (map item_name (take k its)) d) (item_name it) = map_of d (item_name it)"
      by (simp add: table_simps)
    moreover have "on_disk d it"
      using assms it by (auto simp: spool_inv_def list_all_iff dest: in_set_dropD)
    ultimately show "on_disk (delete_all (map item_name (take k its)) d) it"
      using on_disk_cong by blast
  qed
  moreover have "sorted_wrt (<) (map item_name (drop k its))"
    using assms by (intro drop_sorted_names) (simp add: spool_inv_def)
  moreover have "\<forall>it\<in>set (drop k its). \<exists>q\<le>lastSeq s. item_name it = seqName q"
    using assms set_drop_subset [of k its] by (simp add: spool_inv_def) blast
  ultimately show ?thesis
    by (simp add: spool_inv_def)
qed

lemma spool_inv_on_disk: "spool_inv s d \<Longrightarrow> it \<in> set (items s) \<Longrightarrow> on_disk d it"
  by (simp add: spool_inv_def list_all_iff)

lemma spool_inv_name: "spool_inv s d \<Longrightarrow> it \<in> set (items s) \<Longrightarrow> \<exists>q\<le>lastSeq s. item_name it = seqName q"
  by (simp add: spool_inv_def)

lemma spool_inv_sorted: "spool_inv s d \<Longrightarrow> sorted_wrt (<) (map item_name (items s))"
  by (simp add: spool_inv_def)

lemma spool_inv_total: "spool_inv s d \<Longrightarrow> total_bytes s = sizes (items s)"
  by (simp add: spool_inv_def)

text \<open>Appending a freshly written file keeps the invariant.\<close>

lemma spool_inv_append:
  assumes inv: "spool_inv s d" and seq: "lastSeq s < q"
  shows "spool_inv (s\<lparr>lastSeq := q,
            items := items s @ [\<lparr>item_name = seqName q, item_size = int (length body)\<rparr>],
            total_bytes := sizes (items s @ [\<lparr>item_name = seqName q, item_size = int (length body)\<rparr>])\<rparr>)
           (AList.update (seqName q) (RegFile body) d)"
proof -
  have less: "item_name it < seqName q" if "it \<in> set (items s)" for it
    using spool_inv_name [OF inv that] seq by auto
  have disk: "on_disk (AList.update (seqName q) (RegFile body) d) it" if "it \<in> set (items s)" for it
  proof -
    have "item_name it \<noteq> seqName q" using less [OF that] by simp
    then show ?thesis using spool_inv_on_disk [OF inv that] by (simp add: on_disk_update)
  qed
  have "\<exists>p\<le>q. item_name it = seqName p" if "it \<in> set (items s)" for it
    using spool_inv_name [OF inv that] seq by (meson less_imp_le order_trans)
  with disk less spool_inv_sorted [OF inv] show ?thesis
    unfolding spool_inv_def
    by (simp add: sorted_wrt_append list_all_iff on_disk_def table_simps)
qed

lemma Add_written:
  assumes "key \<noteq> []" and "enc key batch = Some body"
    and "writeAtomic f (seqName (nextSeq (clock f) (lastSeq s))) body d = (None, d')"
  shows "Add enc f key batch s d =
    dropOldest f (s\<lparr>lastSeq := nextSeq (clock f) (lastSeq s), total_bytes := total_bytes s + int (length body)\<rparr>)
      (items s @ [\<lparr>item_name = seqName (nextSeq (clock f) (lastSeq s)), item_size = int (length body)\<rparr>]) d' 0"
  using assms by (simp add: Add_def Let_def)

text \<open>The complete effect of a written batch.\<close>

lemma Add_effect:
  assumes inv: "spool_inv s d" and room: "lastSeq s \<noteq> - 1"
    and key: "key \<noteq> []" "enc key batch = Some body"
    and wr: "writeAtomic f (seqName (nextSeq (clock f) (lastSeq s))) body d = (None, d')"
  defines "new \<equiv> \<lparr>item_name = seqName (nextSeq (clock f) (lastSeq s)), item_size = int (length body)\<rparr>"
  shows "\<exists>k err s' d''. Add enc f key batch s d = ((err, k), s', d'')
     \<and> items s' = drop k (items s @ [new]) \<and> k \<le> length (items s)
     \<and> spool_inv s' d'' \<and> (clean_disk s d \<longrightarrow> clean_disk s' d'')
     \<and> maxBatches s' = maxBatches s \<and> maxBytes s' = maxBytes s
     \<and> (err = None \<longrightarrow> length (items s') = 1 \<or> fits s (items s'))
     \<and> (\<forall>j<k. \<not> fits s (drop j (items s @ [new])))
     \<and> ((\<forall>n. \<not> remove_err f n) \<longrightarrow> err = None)"
proof -
  let ?q = "nextSeq (clock f) (lastSeq s)" and ?its = "items s @ [new]"
  let ?s = "s\<lparr>lastSeq := ?q, total_bytes := total_bytes s + int (length body)\<rparr>"
  have tot: "total_bytes ?s = sizes ?its"
    using spool_inv_total [OF inv] by (simp add: new_def)
  have "d' = AList.update (seqName ?q) (RegFile body) d"
    using wr by (rule writeAtomic_ok)
  then have app: "spool_inv (?s\<lparr>items := ?its, total_bytes := sizes ?its\<rparr>) d'"
    using spool_inv_append [OF inv nextSeq_gt [OF room], of "clock f" body] by (simp add: new_def)
  have add: "Add enc f key batch s d = dropOldest f ?s ?its d' 0"
    using Add_written [where enc = enc, OF key wr] by (simp add: new_def)
  have ne: "?its \<noteq> []" by simp
  obtain k err where k: "k < length ?its"
    and eq: "dropOldest f ?s ?its d' 0 = ((err, 0 + k), ?s\<lparr>items := drop k ?its, total_bytes := sizes (drop k ?its)\<rparr>,
               delete_all (map item_name (take k ?its)) d')"
    and r: "err = None \<longrightarrow> length (drop k ?its) = 1 \<or> fits ?s (drop k ?its)"
      "\<forall>j<k. \<not> fits ?s (drop j ?its)"
      "(\<forall>it\<in>set ?its. \<not> remove_err f (item_name it)) \<longrightarrow> err = None"
    using dropOldest_spec [OF tot ne, of f d' 0] by blast
  let ?s' = "?s\<lparr>items := drop k ?its, total_bytes := sizes (drop k ?its)\<rparr>"
  let ?d = "delete_all (map item_name (take k ?its)) d'"
  have fits: "fits ?s xs = fits s xs" for xs by (simp add: fits_def)
  have "spool_inv ?s' ?d" using app by (rule spool_inv_drop)
  moreover have "clean_disk s d \<longrightarrow> clean_disk ?s' ?d"
    using clean_disk_append [of s d "?s\<lparr>items := ?its\<rparr>"] clean_disk_drop [of "?s\<lparr>items := ?its\<rparr>" _ ?s' k]
      writeAtomic_ok [OF wr] by (simp add: new_def)
  moreover have "Add enc f key batch s d = ((err, k), ?s', ?d)" using add eq by simp
  ultimately show ?thesis
    using k r unfolding fits
    by (intro exI [of _ k] exI [of _ err] exI [of _ ?s'] exI [of _ ?d]) simp
qed

text \<open>Every outcome of \<open>Add\<close>, failures included, keeps the invariant.\<close>

lemma spool_inv_same_files:
  "spool_inv s d \<Longrightarrow> (\<And>q. map_of d' (seqName q) = map_of d (seqName q)) \<Longrightarrow> spool_inv s d'"
  unfolding spool_inv_def list_all_iff by (metis on_disk_cong)

lemma Add_inv:
  assumes inv: "spool_inv s d" and room: "lastSeq s \<noteq> - 1" and add: "Add enc f key batch s d = (r, s', d')"
  shows "spool_inv s' d' \<and> (clean_disk s d \<longrightarrow> clean_disk s' d')"
proof (cases "key = [] \<or> enc key batch = None")
  case True
  with inv add show ?thesis by (auto simp: Add_def split: if_splits)
next
  case False
  then obtain body where key: "key \<noteq> []" "enc key batch = Some body" by auto
  let ?n = "seqName (nextSeq (clock f) (lastSeq s))"
  obtain w d1 where w: "writeAtomic f ?n body d = (w, d1)" by fastforce
  show ?thesis
  proof (cases w)
    case None
    with Add_effect [where enc = enc, OF inv room key, of f d1] w add show ?thesis by auto
  next
    case (Some e)
    then have "s' = s" "d' = d1" using add key w by (auto simp: Add_def Let_def)
    with inv Some w writeAtomic_fault writeAtomic_clean show ?thesis by (metis spool_inv_same_files)
  qed
qed

subsection \<open>Peek and Remove\<close>

definition readable :: "(string \<Rightarrow> (string \<times> string) option) \<Rightarrow> io \<Rightarrow> disk \<Rightarrow> item \<Rightarrow> bool" where
  "readable dec f d it \<longleftrightarrow> readItem dec f d it \<noteq> None"

lemma readItem_name: "readItem dec f d it = Some e \<Longrightarrow> entry_name e = item_name it"
  by (auto simp: readItem_def split: if_splits option.splits fnode.splits)

lemma readItem_cong:
  "map_of d (item_name it) = map_of d' (item_name it) \<Longrightarrow> readItem dec f d it = readItem dec f d' it"
  by (simp add: readItem_def)

text \<open>Peek drops a prefix of unreadable items (with their files), counts them, and answers the
  first readable item without removing it.\<close>

lemma peekLoop_spec:
  assumes "total_bytes s = sizes its" and "sorted_wrt (<) (map item_name its)"
  shows "\<exists>k r. k \<le> length its
    \<and> peekLoop dec f s its d =
        (r, s\<lparr>items := drop k its, total_bytes := sizes (drop k its), corrupt := corrupt s + k\<rparr>,
         delete_all (map item_name (take k its)) d)
    \<and> (\<forall>it\<in>set (take k its). \<not> readable dec f d it \<and> \<not> remove_err f (item_name it))
    \<and> (case r of
         Inr (Some e) \<Rightarrow> k < length its \<and> readItem dec f d (its ! k) = Some e
       | Inr None \<Rightarrow> k = length its
       | Inl _ \<Rightarrow> k < length its \<and> \<not> readable dec f d (its ! k) \<and> remove_err f (item_name (its ! k)))"
  using assms
proof (induction dec f s its d rule: peekLoop.induct)
  case (1 dec f s d)
  then show ?case by (auto intro!: exI [of _ 0])
next
  case (2 dec f s it its d)
  show ?case
  proof (cases "readItem dec f d it")
    case (Some e)
    with 2 show ?thesis by (intro exI [of _ 0] exI [of _ "Inr (Some e)"]) (auto simp: readable_def)
  next
    case None
    show ?thesis
    proof (cases "remove_err f (item_name it)")
      case True
      with None 2 show ?thesis
        by (intro exI [of _ 0] exI [of _ "Inl (OtherError ''spool: discard unreadable batch'')"])
           (auto simp: readable_def osRemove_def)
    next
      case ok: False
      let ?s = "s\<lparr>total_bytes := total_bytes s - item_size it, corrupt := Suc (corrupt s)\<rparr>"
        and ?d = "AList.delete (item_name it) d"
      have rm: "osRemove f (item_name it) d = (True, ?d)" using ok by (simp add: osRemove_def)
      have same: "readItem dec f ?d x = readItem dec f d x" if "x \<in> set its" for x
        using 2(3) that by (intro readItem_cong) (auto simp: table_simps)
      have "total_bytes ?s = sizes its" "sorted_wrt (<) (map item_name its)" using 2 by auto
      from "2.IH" [OF None rm [symmetric] refl this] obtain k r where
        k: "k \<le> length its" and eq: "peekLoop dec f ?s its ?d =
          (r, ?s\<lparr>items := drop k its, total_bytes := sizes (drop k its), corrupt := corrupt ?s + k\<rparr>,
           delete_all (map item_name (take k its)) ?d)"
        and pre: "\<forall>x\<in>set (take k its). \<not> readable dec f ?d x \<and> \<not> remove_err f (item_name x)"
        and res: "case r of
             Inr (Some e) \<Rightarrow> k < length its \<and> readItem dec f ?d (its ! k) = Some e
           | Inr None \<Rightarrow> k = length its
           | Inl _ \<Rightarrow> k < length its \<and> \<not> readable dec f ?d (its ! k) \<and> remove_err f (item_name (its ! k))"
        by blast
      have "\<forall>x\<in>set (take k its). \<not> readable dec f d x"
        using pre same in_set_takeD unfolding readable_def by metis
      moreover have "case r of
             Inr (Some e) \<Rightarrow> k < length its \<and> readItem dec f d (its ! k) = Some e
           | Inr None \<Rightarrow> k = length its
           | Inl _ \<Rightarrow> k < length its \<and> \<not> readable dec f d (its ! k) \<and> remove_err f (item_name (its ! k))"
        using res same nth_mem unfolding readable_def by (fastforce split: sum.splits option.splits)
      ultimately show ?thesis
        using k eq pre None ok rm
        by (intro exI [of _ "Suc k"] exI [of _ r])
           (auto simp: readable_def split: sum.splits option.splits)
    qed
  qed
qed

lemma spool_inv_corrupt: "spool_inv (s\<lparr>corrupt := c\<rparr>) d = spool_inv s d"
  by (simp add: spool_inv_def)

lemma Peek_inv:
  assumes inv: "spool_inv s d" and pk: "Peek dec f s d = (r, s', d')"
  shows "spool_inv s' d' \<and> (clean_disk s d \<longrightarrow> clean_disk s' d')"
proof -
  obtain k where "s' = s\<lparr>items := drop k (items s), total_bytes := sizes (drop k (items s)), corrupt := corrupt s + k\<rparr>"
    "d' = delete_all (map item_name (take k (items s))) d"
    using peekLoop_spec [OF spool_inv_total [OF inv] spool_inv_sorted [OF inv], of dec f d] pk
    unfolding Peek_def by (metis Pair_inject)
  moreover have "spool_inv (s\<lparr>items := items s, total_bytes := sizes (items s)\<rparr>) d"
    using inv by (simp add: spool_inv_def)
  ultimately show ?thesis
    using spool_inv_drop [where s = s and its = "items s" and d = d and k = k]
      clean_disk_drop [of s d s' k] by (simp add: spool_inv_corrupt)
qed

lemma removeFirst_filter:
  "sorted_wrt (<) (map item_name its) \<Longrightarrow> removeFirst n its = filter (\<lambda>it. item_name it \<noteq> n) its"
  by (induction its) (auto intro!: filter_True [symmetric])

lemma sizes_filter_find:
  "sorted_wrt (<) (map item_name its) \<Longrightarrow> find (\<lambda>it. item_name it = n) its = Some it \<Longrightarrow>
   sizes (filter (\<lambda>it. item_name it \<noteq> n) its) = sizes its - item_size it"
proof (induction its)
  case Nil
  then show ?case by simp
next
  case (Cons x its)
  show ?case
  proof (cases "item_name x = n")
    case True
    with Cons.prems have "\<forall>y\<in>set its. item_name y \<noteq> n" by auto
    then have "filter (\<lambda>it. item_name it \<noteq> n) its = its" by (simp add: filter_id_conv)
    with True Cons.prems show ?thesis by simp
  next
    case False
    with Cons show ?thesis by simp
  qed
qed

lemma Remove_effect:
  assumes inv: "spool_inv s d" and rm: "Remove f e s d = (None, s', d')"
  shows "items s' = filter (\<lambda>it. item_name it \<noteq> entry_name e) (items s)"
    and "spool_inv s' d'" and "clean_disk s d \<longrightarrow> clean_disk s' d'"
proof -
  let ?n = "entry_name e" and ?its = "items s"
  let ?rest = "filter (\<lambda>it. item_name it \<noteq> ?n) ?its"
  note srt = spool_inv_sorted [OF inv]
  have "items s' = ?rest \<and> spool_inv s' d' \<and> (clean_disk s d \<longrightarrow> clean_disk s' d')"
  proof (cases "find (\<lambda>it. item_name it = ?n) ?its")
    case None
    then have "?rest = ?its" by (auto simp: find_None_iff filter_id_conv)
    with None rm inv show ?thesis by (simp add: Remove_def)
  next
    case (Some it)
    then have nm: "item_name it = ?n" by (auto simp: find_Some_iff)
    with Some rm have s': "s' = s\<lparr>items := ?rest, total_bytes := sizes ?rest\<rparr>" and d': "d' = AList.delete ?n d"
      using removeFirst_filter [OF srt] sizes_filter_find [OF srt Some] spool_inv_total [OF inv]
      by (auto simp: Remove_def osRemove_def split: if_splits)
    have "on_disk d' x" if "x \<in> set ?rest" for x
      using that spool_inv_on_disk [OF inv, of x] by (simp add: d' on_disk_delete)
    moreover have "sorted_wrt (<) (map item_name ?rest)"
      using srt by (simp add: sorted_wrt_map sorted_wrt_filter)
    ultimately have "spool_inv s' d'"
      using spool_inv_name [OF inv] by (simp add: s' spool_inv_def list_all_iff)
    moreover have "clean_disk s d \<longrightarrow> clean_disk s' d'"
    proof
      assume c: "clean_disk s d"
      then have "wf_table d'" by (simp add: d' clean_disk_def distinct_delete)
      then show "clean_disk s' d'"
        by (intro clean_disk_delete [OF c, of "{?n}"]) (auto simp: s' d' AList.delete_eq)
    qed
    ultimately show ?thesis by (simp add: s')
  qed
  then show "items s' = ?rest" "spool_inv s' d'" "clean_disk s d \<longrightarrow> clean_disk s' d'" by auto
qed

lemma Remove_error: "Remove f e s d = (Some err, s', d') \<Longrightarrow> s' = s \<and> d' = d"
  by (auto simp: Remove_def osRemove_def split: option.splits if_splits)

subsection \<open>Recovery: Open after a restart\<close>

definition mkItem :: "string \<times> fnode \<Rightarrow> item" where
  "mkItem e = \<lparr>item_name = fst e, item_size = nodeSize (snd e)\<rparr>"

definition canonical :: "string \<times> fnode \<Rightarrow> bool" where
  "canonical e \<longleftrightarrow> (\<exists>q b. e = (seqName q, RegFile b))"

definition io_ok :: "io \<Rightarrow> bool" where
  "io_ok f \<longleftrightarrow> \<not> mkdir_err f \<and> \<not> readdir_err f \<and> info_err f = (\<lambda>_. False) \<and>
     remove_err f = (\<lambda>_. False) \<and> read_err f = (\<lambda>_. False) \<and> write_fault f = None"

lemma loadEntry_tmp: "io_ok f \<Longrightarrow> is_tmp e \<Longrightarrow> loadEntry f e (s, d) = (s, AList.delete (fst e) d)"
  by (simp add: loadEntry_def is_tmp_def io_ok_def osRemove_def)

lemma loadEntry_canonical:
  "io_ok f \<Longrightarrow> loadEntry f (seqName q, RegFile b) (s, d) =
     (s\<lparr>items := items s @ [mkItem (seqName q, RegFile b)],
        total_bytes := total_bytes s + item_size (mkItem (seqName q, RegFile b)),
        lastSeq := max (lastSeq s) q\<rparr>, d)"
  by (auto simp: loadEntry_def io_ok_def parse_seqName Let_def mkItem_def max_def)

lemma fold_loadEntry:
  assumes f: "io_ok f" and es: "\<forall>e\<in>set es. is_tmp e \<or> canonical e"
  shows "\<exists>q. fold (loadEntry f) es (s, d) =
     (s\<lparr>items := items s @ map mkItem (filter (\<lambda>e. \<not> is_tmp e) es),
        total_bytes := total_bytes s + sizes (map mkItem (filter (\<lambda>e. \<not> is_tmp e) es)), lastSeq := q\<rparr>,
      delete_all (map fst (filter is_tmp es)) d)
     \<and> lastSeq s \<le> q \<and> (\<forall>p b. (seqName p, b) \<in> set es \<longrightarrow> p \<le> q)"
  using es
proof (induction es arbitrary: s d)
  case Nil
  then show ?case by (auto intro!: exI [of _ "lastSeq s"])
next
  case (Cons e es)
  show ?case
  proof (cases "is_tmp e")
    case True
    have "loadEntry f e (s, d) = (s, AList.delete (fst e) d)" using f True by (rule loadEntry_tmp)
    moreover have "\<forall>p b. e \<noteq> (seqName p, b)" using True by (auto simp: is_tmp_def)
    moreover obtain q where "fold (loadEntry f) es (s, AList.delete (fst e) d) =
        (s\<lparr>items := items s @ map mkItem (filter (\<lambda>e. \<not> is_tmp e) es),
            total_bytes := total_bytes s + sizes (map mkItem (filter (\<lambda>e. \<not> is_tmp e) es)), lastSeq := q\<rparr>,
         delete_all (map fst (filter is_tmp es)) (AList.delete (fst e) d))"
      "lastSeq s \<le> q" "\<forall>p b. (seqName p, b) \<in> set es \<longrightarrow> p \<le> q"
      using Cons.IH [of s "AList.delete (fst e) d"] Cons.prems by (meson list.set_intros(2))
    ultimately show ?thesis
      using True by (intro exI [of _ q]) auto
  next
    case False
    with Cons.prems obtain q b where e: "e = (seqName q, RegFile b)" by (auto simp: canonical_def)
    let ?s = "s\<lparr>items := items s @ [mkItem e], total_bytes := total_bytes s + item_size (mkItem e), lastSeq := max (lastSeq s) q\<rparr>"
    have ld: "loadEntry f e (s, d) = (?s, d)" unfolding e using f by (rule loadEntry_canonical)
    have "\<forall>e\<in>set es. is_tmp e \<or> canonical e" using Cons.prems by simp
    from Cons.IH [OF this, of ?s d] obtain q' where
      eq: "fold (loadEntry f) es (?s, d) =
        (?s\<lparr>items := items ?s @ map mkItem (filter (\<lambda>e. \<not> is_tmp e) es),
            total_bytes := total_bytes ?s + sizes (map mkItem (filter (\<lambda>e. \<not> is_tmp e) es)), lastSeq := q'\<rparr>,
         delete_all (map fst (filter is_tmp es)) d)"
      and q': "max (lastSeq s) q \<le> q'" "\<forall>p b. (seqName p, b) \<in> set es \<longrightarrow> p \<le> q'"
      by auto
    show ?thesis
      using eq q' ld False by (intro exI [of _ q']) (auto simp: e)
  qed
qed

lemma sort_names_eq:
  assumes "sorted_wrt (<) (map item_name its)" and "distinct (map item_name xs)"
    and "item_name ` set xs = item_name ` set its"
  shows "map item_name (sort_key item_name xs) = map item_name its"
proof -
  have "sorted (map item_name (sort_key item_name xs))" by simp
  moreover have "distinct (map item_name (sort_key item_name xs))"
    using assms(2) by (simp add: distinct_map)
  ultimately have "sorted_wrt (<) (map item_name (sort_key item_name xs))"
    by (simp add: strict_sorted_iff)
  moreover have "set (map item_name (sort_key item_name xs)) = set (map item_name its)"
    using assms(3) by simp
  ultimately show ?thesis
    using strict_sorted_equal assms(1) by blast
qed

lemma items_by_name:
  fixes xs ys :: "item list"
  assumes "map item_name xs = map item_name ys"
    and "\<forall>x\<in>set xs. g (item_name x) = item_size x" and "\<forall>y\<in>set ys. g (item_name y) = item_size y"
  shows "xs = ys"
  using assms
proof (induction xs arbitrary: ys)
  case Nil
  then show ?case by simp
next
  case (Cons x xs)
  then obtain y ys' where "ys = y # ys'" by (cases ys) auto
  with Cons show ?case by (cases x, cases y) auto
qed

lemma clean_disk_canonical:
  assumes inv: "spool_inv s d" and clean: "clean_disk s d" and e: "e \<in> set d"
  shows "is_tmp e \<or> canonical e"
proof (rule disjCI)
  assume "\<not> canonical e"
  show "is_tmp e"
  proof (rule ccontr)
    assume "\<not> is_tmp e"
    then obtain it where it: "it \<in> set (items s)" "fst e = item_name it"
      using clean e by (auto simp: clean_disk_def)
    have "map_of d (fst e) = Some (snd e)" using clean e by (simp add: clean_disk_def)
    then obtain b where "snd e = RegFile b"
      using spool_inv_on_disk [OF inv it(1)] it(2) by (auto simp: on_disk_def split: fnode.splits)
    with spool_inv_name [OF inv it(1)] it(2) \<open>\<not> canonical e\<close> show False
      by (metis canonical_def prod.collapse)
  qed
qed

definition loaded :: "disk \<Rightarrow> item list" where
  "loaded d = map mkItem (filter (\<lambda>e. \<not> is_tmp e) (sort_key fst d))"

lemma loaded_names:
  assumes inv: "spool_inv s d" and clean: "clean_disk s d"
  shows "item_name ` set (loaded d) = item_name ` set (items s)"
proof -
  have "item_name ` set (loaded d) = fst ` {e \<in> set d. \<not> is_tmp e}"
    by (auto simp: loaded_def mkItem_def image_image)
  also have "\<dots> = item_name ` set (items s)"
  proof (intro set_eqI iffI)
    fix n assume "n \<in> item_name ` set (items s)"
    then obtain it where it: "it \<in> set (items s)" "n = item_name it" by auto
    then obtain b where "map_of d n = Some (RegFile b)"
      using spool_inv_on_disk [OF inv] by (fastforce simp: on_disk_def split: option.splits fnode.splits)
    then have "(n, RegFile b) \<in> set d" by (rule map_of_SomeD)
    moreover have "\<not> is_tmp (n, RegFile b)"
      using spool_inv_name [OF inv it(1)] it(2) by (auto simp: is_tmp_def)
    ultimately show "n \<in> fst ` {e \<in> set d. \<not> is_tmp e}" by force
  qed (use clean in \<open>auto simp: clean_disk_def\<close>)
  finally show ?thesis .
qed

lemma loaded_items:
  assumes inv: "spool_inv s d" and clean: "clean_disk s d"
  shows "sort_key item_name (loaded d) = items s"
proof -
  have wf: "wf_table d" using clean by (simp add: clean_disk_def)
  have "distinct (map fst (filter (\<lambda>e. \<not> is_tmp e) (sort_key fst d)))"
    using wf by (intro distinct_map_filter) (simp add: distinct_map)
  then have dist: "distinct (map item_name (loaded d))" by (simp add: loaded_def mkItem_def comp_def)
  let ?g = "\<lambda>n. nodeSize (the (map_of d n))"
  show ?thesis
  proof (rule items_by_name [of _ _ ?g])
    show "map item_name (sort_key item_name (loaded d)) = map item_name (items s)"
      using spool_inv_sorted [OF inv] dist loaded_names [OF inv clean] by (rule sort_names_eq)
    show "\<forall>x\<in>set (sort_key item_name (loaded d)). ?g (item_name x) = item_size x"
      using wf by (auto simp: loaded_def mkItem_def)
    show "\<forall>y\<in>set (items s). ?g (item_name y) = item_size y"
      using spool_inv_on_disk [OF inv] by (fastforce simp: on_disk_def nodeSize_def split: option.splits fnode.splits)
  qed
qed

lemma sizes_sort: "sizes (sort_key item_name xs) = sizes xs"
  by (simp add: sizes_def flip: sum_mset_sum_list)

lemma recovered_inv:
  assumes inv: "spool_inv s d" and q: "\<forall>p b. (seqName p, b) \<in> set d \<longrightarrow> p \<le> q"
    and same: "\<And>it. it \<in> set (items s) \<Longrightarrow> map_of d' (item_name it) = map_of d (item_name it)"
    and s': "items s' = items s" "total_bytes s' = sizes (items s)" "lastSeq s' = q"
  shows "spool_inv s' d'"
proof -
  have "\<exists>p\<le>q. item_name it = seqName p" if it: "it \<in> set (items s)" for it
  proof -
    obtain p where p: "item_name it = seqName p" using spool_inv_name [OF inv it] by blast
    obtain b where "(seqName p, b) \<in> set d"
      using spool_inv_on_disk [OF inv it] p by (fastforce simp: on_disk_def split: option.splits dest: map_of_SomeD)
    with q p show ?thesis by blast
  qed
  moreover have "on_disk d' it" if "it \<in> set (items s)" for it
    using spool_inv_on_disk [OF inv that] same [OF that] on_disk_cong by blast
  ultimately show ?thesis
    using spool_inv_sorted [OF inv] s' by (simp add: spool_inv_def list_all_iff)
qed

lemma Open_recovers:
  assumes inv: "spool_inv s d" and clean: "clean_disk s d" and f: "io_ok f"
  shows "\<exists>s' d'. Open f d mb my = (Inr s', d') \<and> items s' = items s \<and> total_bytes s' = total_bytes s
     \<and> spool_inv s' d' \<and> clean_disk s' d' \<and> (\<forall>e\<in>set d'. \<not> is_tmp e)
     \<and> (\<forall>it\<in>set (items s). map_of d' (item_name it) = map_of d (item_name it))"
proof -
  let ?es = "sort_key fst d"
  let ?s0 = "\<lparr>maxBatches = (if mb \<le> 0 then DefaultMaxBatches else mb),
              maxBytes = (if my \<le> 0 then DefaultMaxBytes else my),
              items = [], total_bytes = 0, lastSeq = 0, corrupt = 0\<rparr>"
  let ?d = "delete_all (map fst (filter is_tmp ?es)) d"
  obtain q where fold: "fold (loadEntry f) ?es (?s0, d)
      = (?s0\<lparr>items := loaded d, total_bytes := sizes (loaded d), lastSeq := q\<rparr>, ?d)"
    and q: "\<forall>p b. (seqName p, b) \<in> set d \<longrightarrow> p \<le> q"
    using fold_loadEntry [OF f, of ?es ?s0 d] clean_disk_canonical [OF inv clean] by (auto simp: loaded_def)
  let ?s = "?s0\<lparr>items := items s, total_bytes := sizes (items s), lastSeq := q\<rparr>"
  have "sizes (loaded d) = sizes (items s)"
    using sizes_sort [of "loaded d"] loaded_items [OF inv clean] by simp
  then have op: "Open f d mb my = (Inr ?s, ?d)"
    using f fold loaded_items [OF inv clean] by (simp add: Open_def io_ok_def)
  have same: "map_of ?d (item_name it) = map_of d (item_name it)" if "it \<in> set (items s)" for it
    using spool_inv_name [OF inv that] by (auto simp: table_simps is_tmp_def)
  with inv q have "spool_inv ?s ?d" by (rule recovered_inv) auto
  moreover have "\<forall>e\<in>set ?d. \<not> is_tmp e"
  proof
    fix e assume e: "e \<in> set ?d"
    then have "fst e \<notin> set (map fst (filter is_tmp ?es))" by (rule delete_all_notin)
    moreover have "e \<in> set d" using e delete_all_subset by blast
    ultimately show "\<not> is_tmp e" by auto
  qed
  moreover have "clean_disk ?s ?d"
    using clean delete_all_subset [of "map fst (filter is_tmp ?es)" d] by (auto simp: clean_disk_def wf_delete_all)
  moreover have "items ?s = items s" "total_bytes ?s = total_bytes s" by (simp_all add: spool_inv_total [OF inv])
  ultimately show ?thesis using op same by blast
qed

subsection \<open>The spool as a state machine\<close>

text \<open>One step is one call of the agent, whatever the file system does during it, or a restart:
  the process ends and \<open>Open\<close> reads the directory again. The sequence counter is 64 bits wide;
  a step from its last value is excluded (a clock past the year 2554).\<close>

inductive spool_step :: "(string \<Rightarrow> string \<Rightarrow> string option) \<Rightarrow> (string \<Rightarrow> (string \<times> string) option)
    \<Rightarrow> spool \<times> disk \<Rightarrow> spool \<times> disk \<Rightarrow> bool"
  for enc dec where
  step_add: "lastSeq s \<noteq> - 1 \<Longrightarrow> Add enc f k b s d = (r, s', d') \<Longrightarrow> spool_step enc dec (s, d) (s', d')"
| step_peek: "Peek dec f s d = (p, s', d') \<Longrightarrow> spool_step enc dec (s, d) (s', d')"
| step_remove: "Remove f e s d = (err, s', d') \<Longrightarrow> spool_step enc dec (s, d) (s', d')"
| step_restart: "io_ok f \<Longrightarrow> Open f d mb my = (Inr s', d') \<Longrightarrow> spool_step enc dec (s, d) (s', d')"

inductive_cases spool_stepE: "spool_step enc dec (s, d) (s', d')"

inductive spool_reach :: "(string \<Rightarrow> string \<Rightarrow> string option) \<Rightarrow> (string \<Rightarrow> (string \<times> string) option)
    \<Rightarrow> spool \<times> disk \<Rightarrow> bool"
  for enc dec where
  reach_start: "io_ok f \<Longrightarrow> Open f [] mb my = (Inr s, d) \<Longrightarrow> spool_reach enc dec (s, d)"
| reach_step: "spool_reach enc dec st \<Longrightarrow> spool_step enc dec st st' \<Longrightarrow> spool_reach enc dec st'"

lemma Open_empty:
  "io_ok f \<Longrightarrow> Open f [] mb my = (Inr s, d) \<Longrightarrow> spool_inv s d \<and> clean_disk s d"
  by (auto simp: Open_def io_ok_def spool_inv_def clean_disk_def)

lemma spool_step_inv:
  assumes step: "spool_step enc dec (s, d) (s', d')" and good: "spool_inv s d" "clean_disk s d"
  shows "spool_inv s' d' \<and> clean_disk s' d'"
  using step
proof (rule spool_stepE)
  fix f k b r assume "lastSeq s \<noteq> - 1" "Add enc f k b s d = (r, s', d')"
  with good Add_inv show ?thesis by metis
next
  fix f p assume "Peek dec f s d = (p, s', d')"
  with good Peek_inv show ?thesis by metis
next
  fix f e err assume "Remove f e s d = (err, s', d')"
  with good show ?thesis
    by (cases err) (auto dest: Remove_effect Remove_error)
next
  fix f mb my assume "io_ok f" "Open f d mb my = (Inr s', d')"
  with Open_recovers [OF good, of f mb my] show ?thesis by auto
qed

lemma spool_reach_inv: "spool_reach enc dec st \<Longrightarrow> spool_inv (fst st) (snd st) \<and> clean_disk (fst st) (snd st)"
proof (induction rule: spool_reach.induct)
  case (reach_start f mb my s d)
  then show ?case using Open_empty by simp
next
  case (reach_step st st')
  then show ?case by (metis prod.collapse spool_step_inv)
qed

subsection \<open>The spool is a durable queue\<close>

definition spool_good :: "spool \<times> disk \<Rightarrow> bool" where
  "spool_good st \<longleftrightarrow> spool_inv (fst st) (snd st) \<and> clean_disk (fst st) (snd st)"

definition spool_queue :: "spool \<times> disk \<Rightarrow> string list" where
  "spool_queue st = map item_name (items (fst st))"

definition spool_peek :: "(string \<Rightarrow> (string \<times> string) option) \<Rightarrow> io \<Rightarrow> spool \<times> disk \<Rightarrow> (entry option) result \<times> (spool \<times> disk)" where
  "spool_peek dec f st = Peek dec f (fst st) (snd st)"

definition spool_remove :: "io \<Rightarrow> entry \<Rightarrow> spool \<times> disk \<Rightarrow> error option \<times> (spool \<times> disk)" where
  "spool_remove f e st = Remove f e (fst st) (snd st)"

definition spool_intact :: "(string \<Rightarrow> (string \<times> string) option) \<Rightarrow> io \<Rightarrow> spool \<times> disk \<Rightarrow> bool" where
  "spool_intact dec f st = list_all (readable dec f (snd st)) (items (fst st))"

lemma Peek_spec:
  assumes "spool_inv s d"
  obtains k r where "k \<le> length (items s)"
    and "Peek dec f s d = (r, s\<lparr>items := drop k (items s), total_bytes := sizes (drop k (items s)), corrupt := corrupt s + k\<rparr>,
           delete_all (map item_name (take k (items s))) d)"
    and "\<forall>it\<in>set (take k (items s)). \<not> readable dec f d it \<and> \<not> remove_err f (item_name it)"
    and "case r of
           Inr (Some e) \<Rightarrow> k < length (items s) \<and> readItem dec f d (items s ! k) = Some e
         | Inr None \<Rightarrow> k = length (items s)
         | Inl _ \<Rightarrow> k < length (items s) \<and> \<not> readable dec f d (items s ! k) \<and> remove_err f (item_name (items s ! k))"
  using peekLoop_spec [OF spool_inv_total [OF assms] spool_inv_sorted [OF assms], of dec f d]
  unfolding Peek_def by blast

lemma Peek_intact:
  assumes inv: "spool_inv s d" and ok: "list_all (readable dec f d) (items s)"
  shows "Peek dec f s d = (Inr (case items s of [] \<Rightarrow> None | it # _ \<Rightarrow> readItem dec f d it), s, d)"
proof (cases "items s")
  case Nil
  then show ?thesis by (simp add: Peek_def)
next
  case (Cons it its)
  with ok obtain e where e: "readItem dec f d it = Some e" by (auto simp: readable_def)
  have "s\<lparr>items := it # its\<rparr> = s" using Cons by (cases s) simp
  with Cons e show ?thesis by (simp add: Peek_def)
qed

interpretation spool_q: batch_queue spool_good spool_queue entry_name "spool_peek dec" spool_remove
  for dec :: "string \<Rightarrow> (string \<times> string) option"
proof unfold_locales
  fix st :: "spool \<times> disk" and f :: io and e :: entry and q err
  obtain s d where st: "st = (s, d)" by fastforce
  show "spool_good (snd (spool_peek dec f st))" if "spool_good st"
    using that Peek_inv [of s d dec f "fst (Peek dec f s d)" "fst (snd (Peek dec f s d))" "snd (snd (Peek dec f s d))"]
    by (simp add: st spool_good_def spool_peek_def)
  show "\<exists>k. spool_queue (snd (spool_peek dec f st)) = drop k (spool_queue st)" if "spool_good st"
    using that by (auto simp: st spool_good_def spool_queue_def spool_peek_def drop_map elim!: Peek_spec [of s d dec f])
  show "\<exists>q. spool_queue (snd (spool_peek dec f st)) = entry_name e # q"
    if "spool_good st" "fst (spool_peek dec f st) = Inr (Some e)"
    using that by (auto simp: st spool_good_def spool_queue_def spool_peek_def Cons_nth_drop_Suc [symmetric]
        dest: readItem_name [symmetric] elim!: Peek_spec [of s d dec f])
  show "spool_queue (snd (spool_peek dec f st)) = []"
    if "spool_good st" "fst (spool_peek dec f st) = Inr None"
    using that by (auto simp: st spool_good_def spool_queue_def spool_peek_def elim!: Peek_spec [of s d dec f])
  show "spool_good (snd (spool_remove f e st))" if "spool_good st"
  proof (cases "fst (Remove f e s d)")
    case None
    then show ?thesis
      using that Remove_effect [of s d f e] by (auto simp: st spool_good_def spool_remove_def prod_eq_iff)
  next
    case (Some err)
    then show ?thesis
      using that Remove_error [of f e s d err] by (auto simp: st spool_good_def spool_remove_def prod_eq_iff)
  qed
  show "spool_queue (snd (spool_remove f e st)) = q"
    if g: "spool_good st" and q: "spool_queue st = entry_name e # q" and ok: "fst (spool_remove f e st) = None"
  proof -
    obtain s' d' where rm: "Remove f e s d = (None, s', d')"
      using ok by (auto simp: st spool_remove_def prod_eq_iff)
    obtain it its where its: "items s = it # its" "item_name it = entry_name e" "map item_name its = q"
      using q by (auto simp: st spool_queue_def)
    have "sorted_wrt (<) (map item_name (items s))"
      using g by (auto simp: st spool_good_def intro: spool_inv_sorted)
    then have "filter (\<lambda>x. item_name x \<noteq> entry_name e) its = its"
      using its by (intro filter_True) fastforce
    moreover have "items s' = filter (\<lambda>x. item_name x \<noteq> entry_name e) (items s)"
      using g rm by (auto simp: st spool_good_def intro: Remove_effect(1))
    ultimately show ?thesis
      using its rm by (simp add: st spool_remove_def spool_queue_def)
  qed
  show "snd (spool_remove f e st) = st" if "fst (spool_remove f e st) = Some err"
    using that Remove_error [of f e s d err] by (auto simp: st spool_remove_def prod_eq_iff)
qed

interpretation spool_dq: durable_queue spool_good spool_queue entry_name "spool_peek dec" spool_remove "spool_intact dec"
  for dec :: "string \<Rightarrow> (string \<times> string) option"
proof unfold_locales
  fix st :: "spool \<times> disk" and f g :: io and e :: entry
  obtain s d where st: "st = (s, d)" by fastforce
  show "snd (spool_peek dec f st) = st" if "spool_good st" "spool_intact dec f st"
    using that by (simp add: st spool_good_def spool_intact_def spool_peek_def Peek_intact)
  show "\<not> isl (fst (spool_peek dec f st))" if "spool_good st" "spool_intact dec f st"
    using that by (simp add: st spool_good_def spool_intact_def spool_peek_def Peek_intact)
  show "spool_intact dec g (snd (spool_remove f e st))" if good: "spool_good st" and int: "spool_intact dec g st"
  proof (cases "fst (Remove f e s d)")
    case (Some err)
    then have "snd (spool_remove f e st) = st"
      by (intro spool_q.remove_failed [where err = err]) (simp add: st spool_remove_def)
    with int show ?thesis by simp
  next
    case None
    obtain s' d' where rm: "Remove f e s d = (None, s', d')"
      using None by (auto simp: prod_eq_iff)
    have its: "items s' = filter (\<lambda>x. item_name x \<noteq> entry_name e) (items s)"
      using good rm by (auto simp: st spool_good_def intro: Remove_effect(1))
    have "map_of d' (item_name x) = map_of d (item_name x)" if "x \<in> set (items s')" for x
      using that rm its
      by (auto simp: Remove_def osRemove_def table_simps find_Some_iff split: option.splits if_splits)
    then have "readItem dec g d' x = readItem dec g d x" if "x \<in> set (items s')" for x
      using that by (intro readItem_cong) auto
    then show ?thesis
      using int its by (auto simp: st rm spool_remove_def spool_intact_def readable_def list_all_iff)
  qed
qed

subsection \<open>Properties of the spool\<close>

definition quiet_io :: io where
  "quiet_io = \<lparr>mkdir_err = False, readdir_err = False, info_err = (\<lambda>_. False), remove_err = (\<lambda>_. False),
     read_err = (\<lambda>_. False), write_fault = None, partial_write = 0, tmp_suffix = ''1'', clock = 5\<rparr>"

definition empty_spool :: "int \<Rightarrow> int \<Rightarrow> spool" where
  "empty_spool mb my = \<lparr>maxBatches = mb, maxBytes = my, items = [], total_bytes = 0, lastSeq = 0, corrupt = 0\<rparr>"

lemma quiet_io_ok [simp]: "io_ok quiet_io"
  by (simp add: io_ok_def quiet_io_def)

lemma empty_spool_good [simp]: "spool_inv (empty_spool mb my) []" "clean_disk (empty_spool mb my) []"
  by (simp_all add: empty_spool_def spool_inv_def clean_disk_def)

text \<open>A concrete run the witnesses use: one batch added to an empty spool, with a codec that
  writes the one-byte key before the batch.\<close>

definition demo_enc :: "string \<Rightarrow> string \<Rightarrow> string option" where
  "demo_enc k b = Some (k @ b)"

definition demo_dec :: "string \<Rightarrow> (string \<times> string) option" where
  "demo_dec raw = (case raw of [] \<Rightarrow> None | c # cs \<Rightarrow> Some ([c], cs))"

definition demo_spool :: spool where
  "demo_spool = \<lparr>maxBatches = 2, maxBytes = 100, items = [\<lparr>item_name = seqName 5, item_size = 3\<rparr>],
     total_bytes = 3, lastSeq = 5, corrupt = 0\<rparr>"

definition demo_disk :: disk where
  "demo_disk = [(seqName 5, RegFile ''k{}'')]"

lemma demo_add: "Add demo_enc quiet_io ''k'' ''{}'' (empty_spool 2 100) [] = ((None, 0), demo_spool, demo_disk)"
  by (simp add: Add_def demo_enc_def quiet_io_def empty_spool_def nextSeq_def writeAtomic_def demo_spool_def demo_disk_def Let_def)

lemma demo_reach: "spool_reach demo_enc demo_dec (demo_spool, demo_disk)"
proof (rule reach_step)
  show "spool_reach demo_enc demo_dec (empty_spool 2 100, [])"
    by (rule reach_start [of quiet_io 2 100]) (simp_all add: Open_def io_ok_def quiet_io_def empty_spool_def)
  show "spool_step demo_enc demo_dec (empty_spool 2 100, []) (demo_spool, demo_disk)"
    by (rule step_add [OF _ demo_add]) (simp add: empty_spool_def)
qed

lemma demo_good: "spool_good (demo_spool, demo_disk)"
  using spool_reach_inv [OF demo_reach] by (simp add: spool_good_def)

text \<open>On a working file system \<open>Add\<close> appends the batch under a name after every
  queued one and drops the shortest prefix of the oldest batches that brings the queue within
  both bounds (the new batch itself is never dropped); the number dropped is what it returns,
  and the invariant holds again.\<close>

lemma Add_bounded_fifo:
  assumes "spool_inv s d" and "lastSeq s \<noteq> - 1" and "key \<noteq> []" and "enc key batch = Some body" and "io_ok f"
  defines "new \<equiv> \<lparr>item_name = seqName (nextSeq (clock f) (lastSeq s)), item_size = int (length body)\<rparr>"
  shows "\<exists>k s' d'. Add enc f key batch s d = ((None, k), s', d')
     \<and> items s' = drop k (items s @ [new]) \<and> k \<le> length (items s)
     \<and> (length (items s') = 1 \<or> fits s (items s'))
     \<and> (\<forall>j<k. \<not> fits s (drop j (items s @ [new])))
     \<and> (\<forall>it\<in>set (items s). item_name it < item_name new)
     \<and> spool_inv s' d'"
proof -
  let ?q = "nextSeq (clock f) (lastSeq s)"
  have wr: "writeAtomic f (seqName ?q) body d = (None, AList.update (seqName ?q) (RegFile body) d)"
    using assms(5) by (intro writeAtomic_no_fault) (simp add: io_ok_def)
  have "item_name it < item_name new" if "it \<in> set (items s)" for it
    using spool_inv_name [OF assms(1) that] nextSeq_gt [OF assms(2), of "clock f"] by (auto simp: new_def)
  with Add_effect [where enc = enc, OF assms(1,2,3,4) wr] assms(5) show ?thesis
    unfolding new_def [symmetric] by (fastforce simp: io_ok_def)
qed

lemma Add_bounded_fifo_witness:
  "\<exists>k s' d'. Add demo_enc quiet_io ''a'' ''[1]'' demo_spool demo_disk = ((None, k), s', d')
     \<and> items s' = drop k (items demo_spool @ [\<lparr>item_name = seqName 6, item_size = 4\<rparr>])
     \<and> (length (items s') = 1 \<or> fits demo_spool (items s')) \<and> spool_inv s' d'"
proof -
  have inv: "spool_inv demo_spool demo_disk" using demo_good by (simp add: spool_good_def)
  have "lastSeq demo_spool \<noteq> - 1" by (simp add: demo_spool_def)
  moreover have "demo_enc ''a'' ''[1]'' = Some ''a[1]''" by (simp add: demo_enc_def)
  moreover have "nextSeq (clock quiet_io) (lastSeq demo_spool) = 6"
    by (simp add: nextSeq_def quiet_io_def demo_spool_def)
  ultimately show ?thesis
    using Add_bounded_fifo [OF inv _ _ _ quiet_io_ok, of "''a''" demo_enc "''[1]''" "''a[1]''"] by auto
qed



text \<open>C1 (roundtrip). A restart loses nothing and reorders nothing: \<open>Open\<close> on the directory a
  reachable spool left behind, at any moment, rebuilds the same queue and byte total, and removes
  the leftovers of interrupted writes.\<close>

theorem Open_restores_queue:
  assumes "spool_reach enc dec (s, d)" and "io_ok f"
  shows "\<exists>s' d'. Open f d mb my = (Inr s', d') \<and> items s' = items s \<and> total_bytes s' = total_bytes s
     \<and> (\<forall>it\<in>set (items s). map_of d' (item_name it) = map_of d (item_name it))
     \<and> (\<forall>e\<in>set d'. \<not> is_tmp e)"
  using Open_recovers [of s d f mb my] assms(2) spool_reach_inv [OF assms(1)] by auto

theorem Open_restores_queue_witness:
  "\<exists>s' d'. Open quiet_io demo_disk 2 100 = (Inr s', d') \<and> items s' = items demo_spool
     \<and> total_bytes s' = total_bytes demo_spool"
  using Open_restores_queue [OF demo_reach quiet_io_ok, of 2 100] by blast

text \<open>A read that fails, for whatever passing reason, costs the batch: \<open>Peek\<close> deletes the
  file of an intact batch it could not read and counts it as corrupt, so the batch is never sent.\<close>

lemma Peek_read_error_discards:
  assumes "spool_inv s d" and "items s = [it]" and "read_err f (item_name it)" and "\<not> remove_err f (item_name it)"
  shows "\<exists>s' d'. Peek dec f s d = (Inr None, s', d') \<and> items s' = [] \<and> map_of d' (item_name it) = None
     \<and> corrupt s' = Suc (corrupt s)"
  using assms by (simp add: Peek_def readItem_def osRemove_def table_simps)

lemma Peek_read_error_discards_witness:
  "\<exists>s' d'. Peek demo_dec (quiet_io\<lparr>read_err := (\<lambda>_. True)\<rparr>) demo_spool demo_disk = (Inr None, s', d')
     \<and> items s' = [] \<and> map_of d' (seqName 5) = None \<and> corrupt s' = 1"
  using Peek_read_error_discards [of demo_spool demo_disk "\<lparr>item_name = seqName 5, item_size = 3\<rparr>"
      "quiet_io\<lparr>read_err := (\<lambda>_. True)\<rparr>" demo_dec] demo_good
  by (simp add: spool_good_def demo_spool_def quiet_io_def)

end
