(* ===== verification/Sender.thy ===== *)
theory Sender
  imports Spool
begin

section \<open>The agent's sender\<close>

text \<open>
  Model of \<^verbatim>\<open>internal/agent/sender.go\<close>: \<open>Link\<close>, \<open>Drain\<close>, \<open>fail\<close>, \<open>Close\<close> and \<open>Backoff\<close>.
  The queue operations, the dialer and the uplink are fields of \<open>drain_env\<close>, as the source has them
  behind \<^verbatim>\<open>*spool.Spool\<close>, \<^verbatim>\<open>Dialer\<close> and \<^verbatim>\<open>Uplink\<close>; \<open>net\<close> is the state of the world
  the uplink acts on. \<open>ios i\<close> is the behaviour of the file system in round \<open>i\<close>. \<open>Drain\<close> is the
  instance on the spool. The loop takes fuel; \<open>drain_returns\<close> shows that one round more
  than there are queued batches is enough.
\<close>

definition backoffMin :: duration where "backoffMin = second"
definition backoffMax :: duration where "backoffMax = minute"
definition rebuildAfterFails :: nat where "rebuildAfterFails = 3"

text \<open>What \<^verbatim>\<open>up.Send\<close> can answer: delivered, a status error with its code, or another error.\<close>

datatype send_outcome = Delivered | StatusError int | SendFailed

record ('st, 'io, 'e, 'net) drain_env =
  q_peek :: "'io \<Rightarrow> 'st \<Rightarrow> ('e option) result \<times> 'st"
  q_remove :: "'io \<Rightarrow> 'e \<Rightarrow> 'st \<Rightarrow> error option \<times> 'st"
  u_dial :: "'net \<Rightarrow> error option \<times> 'net"
  u_send :: "'e \<Rightarrow> 'net \<Rightarrow> send_outcome \<times> 'net"
  u_close :: "'net \<Rightarrow> 'net"
  ios :: "nat \<Rightarrow> 'io"

record ('st, 'net) sender =
  store :: 'st
  up :: bool
  fails :: nat
  net :: 'net

definition Close :: "('st, 'io, 'e, 'net) drain_env \<Rightarrow> ('st, 'net) sender \<Rightarrow> ('st, 'net) sender" where
  "Close env s = (if up s then s\<lparr>up := False, net := u_close env (net s)\<rparr> else s)"

definition Link :: "('st, 'io, 'e, 'net) drain_env \<Rightarrow> ('st, 'net) sender \<Rightarrow> error option \<times> ('st, 'net) sender" where
  "Link env s =
     (if up s then (None, s)
      else case u_dial env (net s) of
        (Some e, n) \<Rightarrow> (Some e, s\<lparr>net := n\<rparr>)
      | (None, n) \<Rightarrow> (None, s\<lparr>up := True, net := n\<rparr>))"

definition fail :: "('st, 'io, 'e, 'net) drain_env \<Rightarrow> error \<Rightarrow> ('st, 'net) sender \<Rightarrow> error option \<times> ('st, 'net) sender" where
  "fail env e s =
     (let s' = s\<lparr>fails := Suc (fails s)\<rparr>
      in (Some e, if rebuildAfterFails \<le> fails s' then Close env s' else s'))"

definition permanent :: "int \<Rightarrow> bool" where
  "permanent code \<longleftrightarrow> code = 400 \<or> code = 413"

text \<open>One round of the loop in \<open>Drain\<close>: \<open>Inl\<close> is its \<^verbatim>\<open>return\<close>, \<open>Inr\<close> its
  \<^verbatim>\<open>continue\<close>.\<close>

definition drainRound :: "('st, 'io, 'e, 'net) drain_env \<Rightarrow> nat \<Rightarrow> ('st, 'net) sender
    \<Rightarrow> (error option \<times> ('st, 'net) sender) + ('st, 'net) sender" where
  "drainRound env i s =
     (case q_peek env (ios env i) (store s) of
        (Inl e, q) \<Rightarrow> Inl (fail env e (s\<lparr>store := q\<rparr>))
      | (Inr None, q) \<Rightarrow> Inl (None, s\<lparr>store := q, fails := 0\<rparr>)
      | (Inr (Some en), q) \<Rightarrow>
          (case Link env (s\<lparr>store := q\<rparr>) of
             (Some e, s1) \<Rightarrow> Inl (fail env e s1)
           | (None, s1) \<Rightarrow>
               (case u_send env en (net s1) of
                  (Delivered, n) \<Rightarrow>
                    (case q_remove env (ios env i) en (store s1) of
                       (Some e, q') \<Rightarrow> Inl (fail env e (s1\<lparr>store := q', net := n\<rparr>))
                     | (None, q') \<Rightarrow> Inr (s1\<lparr>store := q', net := n, fails := 0\<rparr>))
                | (StatusError code, n) \<Rightarrow>
                    (if permanent code then
                       (case q_remove env (ios env i) en (store s1) of
                          (Some e, q') \<Rightarrow> Inl (fail env e (s1\<lparr>store := q', net := n\<rparr>))
                        | (None, q') \<Rightarrow> Inr (s1\<lparr>store := q', net := n\<rparr>))
                     else Inl (fail env (OtherError ''status'') (s1\<lparr>net := n\<rparr>)))
                | (SendFailed, n) \<Rightarrow> Inl (fail env (OtherError ''send'') (s1\<lparr>net := n\<rparr>)))))"

fun drain :: "('st, 'io, 'e, 'net) drain_env \<Rightarrow> nat \<Rightarrow> nat \<Rightarrow> ('st, 'net) sender
    \<Rightarrow> (error option \<times> ('st, 'net) sender) option" where
  "drain env 0 i s = None"
| "drain env (Suc fuel) i s =
     (case drainRound env i s of Inl r \<Rightarrow> Some r | Inr s' \<Rightarrow> drain env fuel (Suc i) s')"

definition spool_env :: "(string \<Rightarrow> (string \<times> string) option) \<Rightarrow> ('net \<Rightarrow> error option \<times> 'net)
    \<Rightarrow> (entry \<Rightarrow> 'net \<Rightarrow> send_outcome \<times> 'net) \<Rightarrow> ('net \<Rightarrow> 'net) \<Rightarrow> (nat \<Rightarrow> io)
    \<Rightarrow> (spool \<times> disk, io, entry, 'net) drain_env" where
  "spool_env dec dial send close fs =
     \<lparr>q_peek = spool_peek dec, q_remove = spool_remove, u_dial = dial, u_send = send, u_close = close, ios = fs\<rparr>"

definition Drain :: "(spool \<times> disk, io, entry, 'net) drain_env \<Rightarrow> (spool \<times> disk, 'net) sender
    \<Rightarrow> (error option \<times> (spool \<times> disk, 'net) sender) option" where
  "Drain env s = drain env (Suc (length (items (fst (store s))))) 0 s"

text \<open>The wait before retry \<open>n\<close>: the doubling loop, its cap, and the spread by a jitter in
  [0, 1), given as thousandths.\<close>

fun backoffLoop :: "nat \<Rightarrow> duration \<Rightarrow> duration" where
  "backoffLoop 0 d = d"
| "backoffLoop (Suc k) d = (if d < backoffMax then backoffLoop k (d * 2) else d)"

definition backoffBase :: "int \<Rightarrow> duration" where
  "backoffBase n =
     (let m = (if n < 1 then 1 else n); d = backoffLoop (nat (m - 1)) backoffMin
      in if backoffMax < d then backoffMax else d)"

definition Backoff :: "int \<Rightarrow> rat \<Rightarrow> rat" where
  "Backoff n jitter = of_int (backoffBase n) * (4 / 5 + 2 / 5 * jitter)"

subsection \<open>Connections\<close>

lemma store_Close [simp]: "store (Close env s) = store s"
  by (simp add: Close_def)

lemma fails_Close [simp]: "fails (Close env s) = fails s"
  by (simp add: Close_def)

lemma up_Close [simp]: "\<not> up (Close env s)"
  by (simp add: Close_def)

lemma store_fail [simp]: "store (snd (fail env e s)) = store s"
  by (simp add: fail_def Let_def)

lemma fst_fail [simp]: "fst (fail env e s) = Some e"
  by (simp add: fail_def Let_def)

lemma fails_fail [simp]: "fails (snd (fail env e s)) = Suc (fails s)"
  by (simp add: fail_def Let_def)

lemma up_fail: "rebuildAfterFails \<le> Suc (fails s) \<Longrightarrow> \<not> up (snd (fail env e s))"
  by (simp add: fail_def Let_def)

lemma Link_effect: "Link env s = (r, s1) \<Longrightarrow> store s1 = store s \<and> fails s1 = fails s"
  by (auto simp: Link_def split: if_splits prod.splits option.splits)

subsection \<open>What one round does to the queue\<close>

definition settled :: "send_outcome \<Rightarrow> bool" where
  "settled out \<longleftrightarrow> (case out of Delivered \<Rightarrow> True | StatusError c \<Rightarrow> permanent c | SendFailed \<Rightarrow> False)"

text \<open>A log of the sends of a world: every \<^verbatim>\<open>Send\<close> is recorded with its outcome, nothing else is.\<close>

definition env_logs :: "('st, 'io, 'e, 'net) drain_env \<Rightarrow> ('net \<Rightarrow> ('e \<times> send_outcome) list) \<Rightarrow> bool" where
  "env_logs env slog \<longleftrightarrow>
     (\<forall>e n. slog (snd (u_send env e n)) = slog n @ [(e, fst (u_send env e n))]) \<and>
     (\<forall>n. slog (snd (u_dial env n)) = slog n) \<and> (\<forall>n. slog (u_close env n) = slog n)"

lemma log_Close: "env_logs env slog \<Longrightarrow> slog (net (Close env s)) = slog (net s)"
  by (simp add: env_logs_def Close_def)

lemma log_fail: "env_logs env slog \<Longrightarrow> slog (net (snd (fail env e s))) = slog (net s)"
  by (simp add: fail_def Let_def log_Close)

lemma log_Link: "env_logs env slog \<Longrightarrow> Link env s = (r, s1) \<Longrightarrow> slog (net s1) = slog (net s)"
  by (auto simp: Link_def env_logs_def split: if_splits prod.splits option.splits) (metis snd_conv)+

lemma log_send: "env_logs env slog \<Longrightarrow> u_send env e n = (out, n') \<Longrightarrow> slog n' = slog n @ [(e, out)]"
  unfolding env_logs_def by (metis fst_conv snd_conv)

context batch_queue
begin

text \<open>One round more than there are queued batches is enough.\<close>

lemma drain_enough:
  assumes "q_peek env = peek" "q_remove env = remove" "good (store s)"
    and "length (queue (store s)) < fuel"
  shows "\<exists>r. drain env fuel i s = Some r"
  using assms
proof (induction fuel arbitrary: i s)
  case 0
  then show ?case by simp
next
  case (Suc fuel)
  show ?case
  proof (cases "drainRound env i s")
    case (Inl r)
    then show ?thesis by simp
  next
    case (Inr s')
    obtain e q0 where e: "peek (ios env i) (store s) = (Inr (Some e), q0)"
      using Inr Suc.prems(1) by (auto simp: drainRound_def split: prod.splits sum.splits option.splits)
    obtain s1 where link: "Link env (s\<lparr>store := q0\<rparr>) = (None, s1)"
      using Inr e Suc.prems(1) by (auto simp: drainRound_def split: prod.splits option.splits)
    then have s1: "store s1 = q0" using Link_effect by fastforce
    obtain q' where rm: "remove (ios env i) e q0 = (None, q')" and s': "store s' = q'"
      using Inr e link s1 Suc.prems(1,2)
      by (auto simp: drainRound_def split: prod.splits option.splits send_outcome.splits if_splits)
    have good: "good q0" using peek_good [OF Suc.prems(3), of "ios env i"] e by simp
    obtain q where q: "queue q0 = ename e # q" using peek_some [OF Suc.prems(3), of "ios env i" e] e by auto
    have "good q'" "queue q' = q"
      using remove_good [OF good, of "ios env i" e] remove_head [OF good q, of "ios env i"] rm by auto
    moreover have "length q < length (queue (store s))"
      using peek_length [OF Suc.prems(3), of "ios env i"] e q by simp
    ultimately show ?thesis
      using Inr s' Suc.IH [of s' "Suc i"] Suc.prems by simp
  qed
qed

end

context durable_queue
begin

text \<open>A round that goes on has settled and removed exactly the oldest batch.\<close>

lemma round_continues:
  assumes env: "q_peek env = peek" "q_remove env = remove" and good: "good (store s)"
    and int: "intact (ios env i) (store s)" and slog: "env_logs env slog"
    and r: "drainRound env i s = Inr s'"
  obtains e out q where "queue (store s) = ename e # q" "queue (store s') = q" "settled out"
    "slog (net s') = slog (net s) @ [(e, out)]" "good (store s')"
    "\<forall>g. intact g (store s) \<longrightarrow> intact g (store s')"
proof -
  have pk: "snd (peek (ios env i) (store s)) = store s"
    using good int by (rule peek_intact)
  obtain e where e: "peek (ios env i) (store s) = (Inr (Some e), store s)"
    using r env pk by (auto simp: drainRound_def prod_eq_iff split: prod.splits sum.splits option.splits)
  obtain s1 where link: "Link env s = (None, s1)"
    using r env e by (auto simp: drainRound_def split: prod.splits option.splits)
  obtain out n q' where send: "u_send env e (net s1) = (out, n)" "settled out"
    and rm: "remove (ios env i) e (store s1) = (None, q')"
    and s': "store s' = q'" "net s' = n"
    using r env e link
    by (auto simp: drainRound_def settled_def split: prod.splits option.splits send_outcome.splits if_splits)
  have s1: "store s1 = store s" using link Link_effect by blast
  obtain q where q: "queue (store s) = ename e # q"
    using peek_some [OF good, of "ios env i" e] e by auto
  have "queue q' = q" "good q'" "\<forall>g. intact g (store s) \<longrightarrow> intact g q'"
    using remove_head [OF good q, of "ios env i"] remove_good [OF good, of "ios env i" e]
      remove_intact [OF good, of _ "ios env i" e] rm s1 by auto
  moreover have "slog n = slog (net s) @ [(e, out)]"
    using log_send [OF slog send(1)] log_Link [OF slog link] by simp
  ultimately show thesis using that [OF q] s' send(2) by simp
qed

text \<open>A round that returns leaves the queue as it was, or empty, and has sent at most one batch,
  the oldest.\<close>

lemma round_returns:
  assumes env: "q_peek env = peek" "q_remove env = remove" and good: "good (store s)"
    and int: "intact (ios env i) (store s)" and slog: "env_logs env slog"
    and r: "drainRound env i s = Inl (res, s')"
  shows "queue (store s') = queue (store s) \<and> (res = None \<longrightarrow> queue (store s) = []) \<and>
    (\<exists>new. slog (net s') = slog (net s) @ new \<and> length new \<le> 1 \<and>
       map (ename \<circ> fst) new = take (length new) (queue (store s)))"
proof -
  have pk: "snd (peek (ios env i) (store s)) = store s"
    using good int by (rule peek_intact)
  obtain pe where pe: "peek (ios env i) (store s) = (pe, store s)"
    using pk by (metis prod.collapse)
  then have "\<not> isl pe" using peek_intact_ok [OF good int] by simp
  then obtain eo where eo: "pe = Inr eo" by (cases pe) auto
  show ?thesis
  proof (cases eo)
    case None
    then have "queue (store s) = []"
      using peek_none [OF good, of "ios env i"] pe eo by simp
    then show ?thesis
      using r env pe eo None by (auto simp: drainRound_def intro!: exI [of _ "[]"])
  next
    case (Some e)
    obtain q where q: "queue (store s) = ename e # q"
      using peek_some [OF good, of "ios env i" e] pe eo Some by auto
    obtain lr s1 where link: "Link env s = (lr, s1)" by fastforce
    have s1: "store s1 = store s" using link Link_effect by blast
    have l1: "slog (net s1) = slog (net s)" using log_Link [OF slog link] .
    obtain out n where send: "u_send env e (net s1) = (out, n)" by fastforce
    have l2: "slog n = slog (net s) @ [(e, out)]" using log_send [OF slog send] l1 by simp
    have "\<exists>err st. fail env err st = (res, s') \<and> store st = store s
        \<and> (slog (net st) = slog (net s) \<or> slog (net st) = slog (net s) @ [(e, out)])"
    proof (cases lr)
      case (Some err)
      then have "fail env err s1 = (res, s')"
        using r env pe eo \<open>eo = Some e\<close> link by (simp add: drainRound_def)
      with s1 l1 show ?thesis by blast
    next
      case None
      obtain err' q' where rm: "remove (ios env i) e (store s) = (err', q')" by fastforce
      have kept: "q' = store s" if "err' = Some x" for x
        using that rm remove_failed [of "ios env i" e "store s" x] by simp
      have "fail env err (s1\<lparr>store := store s, net := n\<rparr>) = (res, s') \<Longrightarrow> ?thesis" for err
        using l2 by (intro exI [of _ err] exI [of _ "s1\<lparr>store := store s, net := n\<rparr>"]) simp
      moreover have "fail env err (s1\<lparr>net := n\<rparr>) = (res, s') \<Longrightarrow> ?thesis" for err
        using l2 s1 by (intro exI [of _ err] exI [of _ "s1\<lparr>net := n\<rparr>"]) simp
      ultimately show ?thesis
        using r env pe eo \<open>eo = Some e\<close> link None send s1 rm kept
        by (simp add: drainRound_def split: option.splits send_outcome.splits if_splits)
    qed
    then obtain err st where res: "fail env err st = (res, s')" and st: "store st = store s"
      and lst: "slog (net st) = slog (net s) \<or> slog (net st) = slog (net s) @ [(e, out)]"
      by blast
    then have "res = Some err" "store s' = store s" "slog (net s') = slog (net st)"
      using log_fail [OF slog, of err st] fst_fail [of env err st] store_fail [of env err st] by auto
    with lst q show ?thesis by (auto intro: exI [of _ "[]"] exI [of _ "[(e, out)]"])
  qed
qed

text \<open>The account of a whole drain: batches are sent in queue order, each once; the ones that
  left the queue are exactly those the server settled, and only the last send may be unsettled.\<close>

lemma drain_account:
  assumes "q_peek env = peek" "q_remove env = remove" "good (store s)"
    and "\<forall>g. intact (ios env g) (store s)" and "env_logs env slog"
    and "drain env fuel i s = Some (res, s')"
  shows "\<exists>k new. queue (store s') = drop k (queue (store s)) \<and> k \<le> length (queue (store s))
    \<and> slog (net s') = slog (net s) @ new
    \<and> k \<le> length new \<and> length new \<le> Suc k
    \<and> map (ename \<circ> fst) new = take (length new) (queue (store s))
    \<and> list_all (settled \<circ> snd) (take k new)
    \<and> (res = None \<longrightarrow> k = length (queue (store s)))"
  using assms
proof (induction fuel arbitrary: i s)
  case 0
  then show ?case by simp
next
  case (Suc fuel)
  show ?case
  proof (cases "drainRound env i s")
    case (Inl r)
    with Suc.prems(6) have "drainRound env i s = Inl (res, s')" by simp
    from round_returns [OF Suc.prems(1,2,3) _ Suc.prems(5) this] Suc.prems(4)
    obtain new where "queue (store s') = queue (store s)" "res = None \<longrightarrow> queue (store s) = []"
      "slog (net s') = slog (net s) @ new" "length new \<le> 1"
      "map (ename \<circ> fst) new = take (length new) (queue (store s))" by blast
    then show ?thesis by (intro exI [of _ 0] exI [of _ new]) (auto simp: comp_def)
  next
    case (Inr s1)
    have inti: "intact (ios env i) (store s)" using Suc.prems(4) by blast
    obtain e out q where q: "queue (store s) = ename e # q" "queue (store s1) = q" and out: "settled out"
      and log1: "slog (net s1) = slog (net s) @ [(e, out)]" and good: "good (store s1)"
      and int: "\<forall>g. intact g (store s) \<longrightarrow> intact g (store s1)"
      by (rule round_continues [OF Suc.prems(1,2,3) inti Suc.prems(5) Inr])
    have dr: "drain env fuel (Suc i) s1 = Some (res, s')" using Suc.prems(6) Inr by simp
    have int1: "\<forall>g. intact (ios env g) (store s1)" using int Suc.prems(4) by blast
    from Suc.IH [OF Suc.prems(1,2) good int1 Suc.prems(5) dr] obtain k new where
      "queue (store s') = drop k (queue (store s1)) \<and> k \<le> length (queue (store s1))
       \<and> slog (net s') = slog (net s1) @ new
       \<and> k \<le> length new \<and> length new \<le> Suc k \<and> map (ename \<circ> fst) new = take (length new) (queue (store s1))
       \<and> list_all (settled \<circ> snd) (take k new) \<and> (res = None \<longrightarrow> k = length (queue (store s1)))"
      by (elim exE)
    then show ?thesis
      using q out log1 by (intro exI [of _ "Suc k"] exI [of _ "(e, out) # new"]) (auto simp: comp_def)
  qed
qed

end

subsection \<open>Failures and waiting\<close>

lemma drain_failures:
  "drain env fuel i s = Some (res, s') \<Longrightarrow>
   (case res of None \<Rightarrow> fails s' = 0
    | Some _ \<Rightarrow> 0 < fails s' \<and> (rebuildAfterFails \<le> fails s' \<longrightarrow> \<not> up s'))"
proof (induction fuel arbitrary: i s)
  case 0
  then show ?case by simp
next
  case (Suc fuel)
  have failed: "fails s' = Suc (fails x) \<and> res = Some err \<and> (rebuildAfterFails \<le> Suc (fails x) \<longrightarrow> \<not> up s')"
    if "fail env err x = (res, s')" for err x
    using that by (auto simp: fail_def Let_def)
  show ?case
  proof (cases "drainRound env i s")
    case (Inl r)
    with Suc.prems have "drainRound env i s = Inl (res, s')" by simp
    then show ?thesis
      by (auto simp: drainRound_def split: prod.splits sum.splits option.splits send_outcome.splits if_splits
          dest!: failed)
  next
    case (Inr s1)
    with Suc.prems Suc.IH [of "Suc i" s1] show ?thesis by simp
  qed
qed

lemma backoffLoop_bounds:
  "0 < d \<Longrightarrow> d \<le> 2 * backoffMax \<Longrightarrow> d \<le> backoffLoop k d \<and> backoffLoop k d \<le> 2 * backoffMax"
proof (induction k arbitrary: d)
  case 0
  then show ?case by simp
next
  case (Suc k)
  show ?case
  proof (cases "d < backoffMax")
    case True
    with Suc.IH [of "d * 2"] Suc.prems show ?thesis by simp
  next
    case False
    with Suc.prems show ?thesis by simp
  qed
qed

lemma backoffLoop_min: "0 < d \<Longrightarrow> min (backoffLoop k d) backoffMax = min (d * 2 ^ k) backoffMax"
proof (induction k arbitrary: d)
  case 0
  then show ?case by simp
next
  case (Suc k)
  show ?case
  proof (cases "d < backoffMax")
    case True
    with Suc.IH [of "d * 2"] Suc.prems show ?thesis by (simp add: ac_simps)
  next
    case False
    have "d \<le> d * 2 ^ Suc k" using Suc.prems by (simp add: mult_le_cancel_left1 del: power_Suc)
    with False show ?thesis by simp
  qed
qed

lemma backoffBase_eq: "backoffBase n = min (second * 2 ^ nat (n - 1)) minute"
proof -
  have "min (backoffLoop (nat (n - 1)) second) minute = min (second * 2 ^ nat (n - 1)) minute"
    using backoffLoop_min [of second "nat (n - 1)"] by (simp add: backoffMax_def)
  then show ?thesis
    by (auto simp: backoffBase_def backoffMin_def backoffMax_def Let_def min_def)
qed

subsection \<open>Properties of the sender\<close>

text \<open>C14 (liveness). \<open>Drain\<close> always returns: whatever the file system, the dialer and the server do
  in each round, on a well-formed spool the loop ends after at most one round more than there
  are queued batches.\<close>

theorem Drain_returns:
  assumes "spool_good (store s)"
  shows "\<exists>r. Drain (spool_env dec dial send close fs) s = Some r"
  unfolding Drain_def
  using assms by (intro spool_q.drain_enough [where dec = dec]) (simp_all add: spool_env_def spool_queue_def)

text \<open>A world for the witnesses: the log of the sends is its whole state, dialing works and the
  server accepts every batch.\<close>

definition demo_env :: "(spool \<times> disk, io, entry, (entry \<times> send_outcome) list) drain_env" where
  "demo_env = spool_env demo_dec (\<lambda>n. (None, n)) (\<lambda>e n. (Delivered, n @ [(e, Delivered)])) (\<lambda>n. n) (\<lambda>_. quiet_io)"

definition demo_sender :: "(spool \<times> disk, (entry \<times> send_outcome) list) sender" where
  "demo_sender = \<lparr>store = (demo_spool, demo_disk), up = False, fails = 2, net = []\<rparr>"



lemma demo_drain: "\<exists>s'. Drain demo_env demo_sender = Some (None, s')"
  by (simp add: Drain_def demo_sender_def demo_env_def spool_env_def demo_spool_def demo_disk_def drainRound_def
      spool_peek_def Peek_def readItem_def quiet_io_def demo_dec_def Link_def spool_remove_def Remove_def osRemove_def
      numeral_2_eq_2)

theorem Drain_returns_witness: "\<exists>r. Drain demo_env demo_sender = Some r"
  using Drain_returns [of demo_sender] demo_good by (simp add: demo_sender_def demo_env_def)



text \<open>A failed \<open>Drain\<close> counts a failure and, from the third consecutive one on,
  has released the tunnel session so the next attempt dials again; a successful one resets
  the count.\<close>

lemma Drain_rebuilds:
  assumes "Drain env s = Some (res, s')"
  shows "case res of None \<Rightarrow> fails s' = 0
    | Some _ \<Rightarrow> 0 < fails s' \<and> (3 \<le> fails s' \<longrightarrow> \<not> up s')"
  using drain_failures [OF assms [unfolded Drain_def]] unfolding rebuildAfterFails_def .

lemma Drain_rebuilds_witness:
  "\<exists>s'. Drain demo_env demo_sender = Some (None, s') \<and> fails s' = 0"
proof -
  obtain s' where "Drain demo_env demo_sender = Some (None, s')" using demo_drain by blast
  with Drain_rebuilds [OF this] show ?thesis by auto
qed

text \<open>The wait before retry number \<open>n\<close> is one second doubled \<open>n - 1\<close> times and capped
  at a minute, spread by at most a fifth: never below 0.8 s, never above 72 s.\<close>

lemma Backoff_bounds:
  assumes "0 \<le> j" and "j < 1"
  shows "backoffBase n = min (second * 2 ^ nat (n - 1)) minute
    \<and> 4 / 5 * of_int second \<le> Backoff n j \<and> Backoff n j < 6 / 5 * of_int minute"
proof -
  have base: "backoffBase n = min (second * 2 ^ nat (n - 1)) minute"
    by (rule backoffBase_eq)
  have lo: "(of_int second :: rat) \<le> of_int (backoffBase n)"
    unfolding of_int_le_iff base by (simp add: mult_le_cancel_left1)
  have hi: "(of_int (backoffBase n) :: rat) \<le> of_int minute"
    unfolding of_int_le_iff base by simp
  have "of_int second * (4 / 5) \<le> Backoff n j"
    unfolding Backoff_def using lo assms by (intro mult_mono) auto
  moreover have "Backoff n j < of_int minute * (6 / 5)"
    unfolding Backoff_def using hi lo assms by (intro mult_le_less_imp_less) auto
  ultimately show ?thesis using base by simp
qed

lemma Backoff_bounds_witness:
  "backoffBase 3 = 4 * second \<and> 4 / 5 * of_int second \<le> Backoff 3 (1 / 2)"
  using Backoff_bounds [of "1 / 2" 3] by (simp add: numeral_2_eq_2)

end
