(* ===== verification/Labels.thy ===== *)
theory Labels
  imports GoText
begin

section \<open>Label sets and their text (internal/telemetry/domain/labels.go)\<close>

text \<open>
  A label set (\<^verbatim>\<open>map[string]string\<close>) is an association list with distinct keys. Its canonical
  text is what \<^verbatim>\<open>json.Marshal\<close> prints for such a map: the keys in byte order, strings quoted with
  the escapes of \<^verbatim>\<open>encoding/json\<close> (quote, backslash, control characters, the HTML characters,
  the two Unicode line separators, and the replacement character for bytes that are no UTF-8).
  \<open>readStr\<close> reads a quoted string back; with it the text is shown to determine the label set.
\<close>

type_synonym labels = "(string \<times> string) list"

definition hexByte :: "nat \<Rightarrow> nat" where
  "hexByte n = (if n < 10 then 48 + n else 87 + n)"

definition escByte :: "nat \<Rightarrow> nat list" where
  "escByte b =
     (if b = 34 then [92, 34] else if b = 92 then [92, 92] else if b = 8 then [92, 98]
      else if b = 12 then [92, 102] else if b = 10 then [92, 110] else if b = 13 then [92, 114]
      else if b = 9 then [92, 116]
      else if b < 32 \<or> b = 60 \<or> b = 62 \<or> b = 38 then [92, 117, 48, 48, hexByte (b div 16), hexByte (b mod 16)]
      else [b])"

definition escRune :: "nat list \<Rightarrow> nat list" where
  "escRune u =
     (if u = [226, 128, 168] then [92, 117, 50, 48, 50, 56]
      else if u = [226, 128, 169] then [92, 117, 50, 48, 50, 57]
      else case u of [b] \<Rightarrow> escByte b | _ \<Rightarrow> u)"

function escape :: "nat list \<Rightarrow> nat list" where
  "escape bs =
     (if bs = [] then []
      else if runeWidth bs = 0 then [92, 117, 102, 102, 102, 100] @ escape (tl bs)
      else escRune (take (runeWidth bs) bs) @ escape (drop (runeWidth bs) bs))"
  by pat_completeness auto
termination
  by (relation "measure length") auto

declare escape.simps [simp del]

definition quoted :: "string \<Rightarrow> nat list" where
  "quoted s = 34 # escape (map byte s) @ [34]"

definition pairText :: "string \<times> string \<Rightarrow> nat list" where
  "pairText kv = quoted (fst kv) @ 58 # quoted (snd kv)"

fun pairsText :: "labels \<Rightarrow> nat list" where
  "pairsText [] = []"
| "pairsText [kv] = pairText kv"
| "pairsText (kv # kv' # r) = pairText kv @ 44 # pairsText (kv' # r)"

definition CanonicalLabels :: "labels \<Rightarrow> string" where
  "CanonicalLabels l =
     (if l = [] then ''{}'' else map char_of ([123] @ pairsText (sort_key fst l) @ [125]))"

subsection \<open>Reading a quoted string back\<close>

definition unhex :: "nat \<Rightarrow> nat" where
  "unhex h = (if h \<le> 57 then h - 48 else h - 87)"

definition unescChar :: "nat \<Rightarrow> nat" where
  "unescChar c =
     (if c = 98 then 8 else if c = 102 then 12 else if c = 110 then 10 else if c = 114 then 13
      else if c = 116 then 9 else c)"

fun unescCode :: "nat \<Rightarrow> nat \<Rightarrow> nat \<Rightarrow> nat \<Rightarrow> nat list" where
  "unescCode a b c d = (if a = 50 then [226, 128, if d = 56 then 168 else 169] else [unhex c * 16 + unhex d])"

text \<open>The bytes of a string up to its closing quote, and what follows the quote.\<close>

fun readStr :: "nat list \<Rightarrow> nat list \<times> nat list" where
  "readStr [] = ([], [])"
| "readStr (b # bs) =
     (if b = 34 then ([], bs)
      else if b \<noteq> 92 then (case readStr bs of (s, r) \<Rightarrow> (b # s, r))
      else case bs of
             [] \<Rightarrow> ([], [])
           | c # r1 \<Rightarrow>
               if c \<noteq> 117 then (case readStr r1 of (s, r) \<Rightarrow> (unescChar c # s, r))
               else case r1 of
                      h1 # h2 # h3 # h4 # r2 \<Rightarrow> (case readStr r2 of (s, r) \<Rightarrow> (unescCode h1 h2 h3 h4 @ s, r))
                    | _ \<Rightarrow> ([], []))"

lemma unhex_hexByte: "n < 16 \<Longrightarrow> unhex (hexByte n) = n"
  by (simp add: unhex_def hexByte_def)

lemma readStr_escByte:
  assumes "b < 128"
  shows "readStr (escByte b @ r) = (b # fst (readStr r), snd (readStr r))"
proof -
  have "unhex (hexByte (b div 16)) * 16 + unhex (hexByte (b mod 16)) = b"
    using assms by (subst (1 2) unhex_hexByte) (auto simp: less_mult_imp_div_less)
  then show ?thesis
    by (cases "readStr r") (auto simp: escByte_def unescChar_def)
qed

lemma readStr_plain:
  "\<forall>b\<in>set u. 128 \<le> b \<Longrightarrow> readStr (u @ r) = (u @ fst (readStr r), snd (readStr r))"
  by (induction u) (auto split: prod.splits)

lemma rune_head_cases:
  assumes "runeWidth bs \<noteq> 0"
  shows "(\<exists>b. take (runeWidth bs) bs = [b] \<and> b < 128) \<or>
     (1 < length (take (runeWidth bs) bs) \<and> (\<forall>b\<in>set (take (runeWidth bs) bs). 128 \<le> b))"
  using assms by (cases rule: runeWidth_elim) (simp_all add: cont_def)

lemma readStr_escRune:
  assumes "runeWidth bs \<noteq> 0"
  shows "readStr (escRune (take (runeWidth bs) bs) @ r) =
     (take (runeWidth bs) bs @ fst (readStr r), snd (readStr r))"
  using rune_head_cases [OF assms]
proof (elim disjE exE conjE)
  fix b assume "take (runeWidth bs) bs = [b]" "b < 128"
  then show ?thesis using readStr_escByte [of b r] by (simp add: escRune_def)
next
  let ?u = "take (runeWidth bs) bs"
  assume len: "1 < length ?u" and big: "\<forall>b\<in>set ?u. 128 \<le> b"
  have plain: "escRune u = u" if "1 < length u" "u \<noteq> [226, 128, 168]" "u \<noteq> [226, 128, 169]" for u
    using that by (cases u rule: remdups_adj.cases) (simp_all add: escRune_def)
  have sep: "readStr (escRune [226, 128, n] @ r) = ([226, 128, n] @ fst (readStr r), snd (readStr r))"
    if "n = 168 \<or> n = 169" for n
    using that by (auto simp: escRune_def split: prod.splits)
  show ?thesis
  proof (cases "?u = [226, 128, 168] \<or> ?u = [226, 128, 169]")
    case True
    then show ?thesis by (elim disjE) (simp_all only: sep simp_thms)
  next
    case False
    then show ?thesis using plain [OF len] readStr_plain [OF big, of r] by simp
  qed
qed

lemma readStr_escape:
  "validRunes bs \<Longrightarrow> readStr (escape bs @ 34 # r) = (bs, r)"
proof (induction bs rule: escape.induct)
  case (1 bs)
  show ?case
  proof (cases "bs = []")
    case True
    then show ?thesis by (simp add: escape.simps)
  next
    case False
    with 1(3) have w: "runeWidth bs \<noteq> 0" and v: "validRunes (drop (runeWidth bs) bs)"
      by (auto simp: validRunes.simps [of bs] split: if_splits)
    then show ?thesis
      using 1(2) [OF False w v] False readStr_escRune [OF w, of "escape (drop (runeWidth bs) bs) @ 34 # r"]
      by (subst escape.simps) simp
  qed
qed

lemma quoted_read:
  assumes "validString s" and "validString s'" and "quoted s @ r = quoted s' @ r'"
  shows "s = s' \<and> r = r'"
proof -
  have "readStr (escape (map byte s) @ 34 # r) = readStr (escape (map byte s') @ 34 # r')"
    using assms(3) by (simp add: quoted_def)
  then have "map byte s = map byte s'" and r: "r = r'"
    using assms(1,2) by (simp_all add: readStr_escape validString_def)
  then have "map char_of (map byte s) = map char_of (map byte s')" by simp
  then show ?thesis using r by (simp add: comp_def)
qed

definition validLabels :: "labels \<Rightarrow> bool" where
  "validLabels l \<longleftrightarrow> (\<forall>(k, v)\<in>set l. validString k \<and> validString v)"

lemma pairText_read:
  assumes "validLabels [kv]" and "validLabels [kv']" and "pairText kv @ r = pairText kv' @ r'"
  shows "kv = kv' \<and> r = r'"
proof -
  have 1: "fst kv = fst kv' \<and> 58 # quoted (snd kv) @ r = 58 # quoted (snd kv') @ r'"
    using assms by (intro quoted_read) (auto simp: validLabels_def pairText_def)
  then have "snd kv = snd kv' \<and> r = r'"
    using assms by (intro quoted_read) (auto simp: validLabels_def)
  with 1 show ?thesis by (simp add: prod_eq_iff)
qed

lemma pairText_head: "hd (pairText kv @ r) = 34"
  by (simp add: pairText_def quoted_def)

lemma pairsText_read:
  assumes "validLabels l" and "validLabels l'" and "l \<noteq> []" and "l' \<noteq> []"
    and "pairsText l @ [125] = pairsText l' @ [125]"
  shows "l = l'"
  using assms
proof (induction l arbitrary: l')
  case (Cons kv r)
  then obtain kv' r' where l': "l' = kv' # r'" by (cases l') auto
  have unf: "pairsText (x # y) @ [125] = pairText x @ (if y = [] then [125] else 44 # pairsText y @ [125])" for x y
    by (cases y) auto
  have val: "validLabels [kv]" "validLabels [kv']" "validLabels r" "validLabels r'"
    using Cons.prems(1,2) l' by (auto simp: validLabels_def)
  have step: "kv = kv' \<and> (if r = [] then [125] else 44 # pairsText r @ [125]) = (if r' = [] then [125] else 44 # pairsText r' @ [125])"
    using Cons.prems(5) unfolding l' unf by (rule pairText_read [OF val(1,2)])
  then have "r = r'" using Cons.IH [OF val(3,4)] by (auto split: if_splits)
  then show ?case using step l' by simp
qed simp

lemma escape_bytes: "\<forall>b\<in>set bs. b < 256 \<Longrightarrow> \<forall>b\<in>set (escape bs). b < 256"
proof (induction bs rule: escape.induct)
  case (1 bs)
  have "\<forall>b\<in>set (escRune u). b < 256" if "\<forall>b\<in>set u. b < 256" for u
    using that by (auto simp: escRune_def escByte_def hexByte_def split: list.splits if_splits)
  then have r: "\<forall>b\<in>set (escRune (take (runeWidth bs) bs)). b < 256"
    using 1(3) by (meson in_set_takeD)
  have "\<forall>b\<in>set (tl bs). b < 256" "\<forall>b\<in>set (drop (runeWidth bs) bs). b < 256"
    using 1(3) by (auto dest: in_set_dropD) (metis list.sel(2) list.set_sel(2))
  then show ?case using 1(1,2) r by (subst escape.simps) (simp add: ball_Un)
qed

lemma pairText_bytes: "\<forall>b\<in>set (pairText kv). b < 256"
proof -
  have "\<forall>b\<in>set (escape (map byte s)). b < 256" for s
    by (rule escape_bytes) (auto simp: byte_less)
  then show ?thesis by (simp add: pairText_def quoted_def ball_Un)
qed

lemma pairsText_bytes: "\<forall>b\<in>set (pairsText l). b < 256"
  by (induction l rule: pairsText.induct) (use pairText_bytes in auto)

lemma map_char_of_inj: "\<forall>b\<in>set xs. b < 256 \<Longrightarrow> \<forall>b\<in>set ys. b < 256 \<Longrightarrow> map char_of xs = map char_of ys \<Longrightarrow> xs = (ys :: nat list)"
  by (rule map_inj_on [of char_of]) (auto intro!: inj_onI dest!: arg_cong [of "char_of _" _ byte])

subsection \<open>Properties\<close>

lemma sort_labels_eq:
  assumes "wf_table l" and "wf_table l'"
  shows "sort_key fst l = sort_key fst l' \<longleftrightarrow> map_of l = map_of l'"
proof
  assume "sort_key fst l = sort_key fst l'"
  then have "set l = set l'" by (metis set_sort)
  then show "map_of l = map_of l'" using map_of_inject_set [OF assms] by simp
next
  assume "map_of l = map_of l'"
  then have eq: "set l = set l'" using map_of_inject_set [OF assms] by simp
  have "distinct l" "distinct l'" using assms by (simp_all add: distinct_map)
  with eq have "mset l = mset l'" by (simp add: set_eq_iff_mset_eq_distinct)
  moreover have "inj_on fst (set l)" using assms(1) by (simp add: distinct_map)
  ultimately show "sort_key fst l = sort_key fst l'" by (rule sort_key_eq_sort_key)
qed

lemma CanonicalLabels_empty_iff: "CanonicalLabels l = ''{}'' \<longleftrightarrow> l = []"
proof (cases "sort_key fst l")
  case Nil
  then show ?thesis by (metis CanonicalLabels_def length_0_conv length_sort)
next
  case (Cons kv r)
  have "\<exists>t. pairsText (kv # r) = 34 # t"
    by (cases r) (simp_all add: pairText_def quoted_def)
  then show ?thesis using Cons by (auto simp: CanonicalLabels_def char_of_def)
qed

text \<open>The canonical text is the identity of a label set: two label sets of valid UTF-8
  have the same text exactly when they are equal as maps, whatever order they list their
  labels in.\<close>

lemma CanonicalLabels_identity:
  assumes "wf_table l" and "wf_table l'" and "validLabels l" and "validLabels l'"
  shows "CanonicalLabels l = CanonicalLabels l' \<longleftrightarrow> map_of l = map_of l'"
proof (cases "l = [] \<or> l' = []")
  case True
  have "CanonicalLabels [] = ''{}''" by (simp add: CanonicalLabels_def)
  moreover have "map_of x = map_of [] \<longleftrightarrow> x = []" for x :: labels
    by (cases x) (auto simp: fun_eq_iff split: if_splits)
  ultimately show ?thesis using True CanonicalLabels_empty_iff by (metis map_of.simps(1))
next
  case False
  have "CanonicalLabels l = CanonicalLabels l' \<longleftrightarrow> sort_key fst l = sort_key fst l'"
  proof
    assume "CanonicalLabels l = CanonicalLabels l'"
    then have "[123] @ pairsText (sort_key fst l) @ [125] = [123] @ pairsText (sort_key fst l') @ [125]"
      using False pairsText_bytes unfolding CanonicalLabels_def by (intro map_char_of_inj) auto
    then have "pairsText (sort_key fst l) @ [125] = pairsText (sort_key fst l') @ [125]" by simp
    moreover have "sort_key fst l \<noteq> []" "sort_key fst l' \<noteq> []"
      using False by (metis length_0_conv length_sort)+
    moreover have "validLabels (sort_key fst l)" "validLabels (sort_key fst l')"
      using assms(3,4) by (simp_all add: validLabels_def)
    ultimately show "sort_key fst l = sort_key fst l'" by (intro pairsText_read)
  qed (use False in \<open>simp add: CanonicalLabels_def\<close>)
  then show ?thesis using sort_labels_eq [OF assms(1,2)] by simp
qed

lemma CanonicalLabels_identity_witness:
  "CanonicalLabels [(''b'', ''2''), (''a'', ''x<y'')] = CanonicalLabels [(''a'', ''x<y''), (''b'', ''2'')] \<and>
   CanonicalLabels [(''a'', ''1'')] \<noteq> CanonicalLabels [(''a'', ''2'')]"
proof
  have v: "validLabels [(''b'', ''2''), (''a'', ''x<y'')]" "validLabels [(''a'', ''x<y''), (''b'', ''2'')]"
    "validLabels [(''a'', ''1'')]" "validLabels [(''a'', ''2'')]"
    by (simp_all add: validLabels_def validString_def validRunes.simps byte_def)
  show "CanonicalLabels [(''b'', ''2''), (''a'', ''x<y'')] = CanonicalLabels [(''a'', ''x<y''), (''b'', ''2'')]"
    by (subst CanonicalLabels_identity [OF _ _ v(1,2)]) (auto simp: fun_eq_iff)
  show "CanonicalLabels [(''a'', ''1'')] \<noteq> CanonicalLabels [(''a'', ''2'')]"
    by (subst CanonicalLabels_identity [OF _ _ v(3,4)]) (auto simp: fun_eq_iff)
qed

end
