(* ===== verification/Telemetry.thy ===== *)
theory Telemetry
  imports Labels Apierror
begin

section \<open>The telemetry contract (internal/telemetry/domain)\<close>

text \<open>
  The value types of \<^verbatim>\<open>types.go\<close>, the wire decoding of \<^verbatim>\<open>decode.go\<close> and the validation of
  \<^verbatim>\<open>validate.go\<close>. A \<^verbatim>\<open>float64\<close> is a finite rational, an infinity or NaN. Two functions of
  \<^verbatim>\<open>encoding/json\<close> are arguments: \<open>validJson\<close> is \<^verbatim>\<open>json.Valid\<close>, and \<open>canonObject\<close> is
  \<^verbatim>\<open>json.Unmarshal\<close> into a map followed by \<^verbatim>\<open>json.Marshal\<close> (\<open>None\<close> when the text is no object). The
  text of an error names the field and the rule; the numbers and patterns the source formats into
  it are left out. The early returns of the source's loops are \<open>eachIdx\<close>.
\<close>

datatype float64 = Fin rat | PosInf | NegInf | NaN

fun isFin :: "float64 \<Rightarrow> bool" where
  "isFin (Fin _) = True"
| "isFin _ = False"

record metric =
  m_name :: string
  m_ts :: time
  m_value :: float64
  m_labels :: labels

record check =
  k_name :: string
  k_ts :: time
  k_status :: string
  k_meta :: string

record event =
  e_ts :: time
  e_level :: string
  e_message :: string
  e_labels :: labels

record document =
  d_kind :: string
  d_body :: string

record batch =
  schemaVersion :: string
  metrics :: "metric list"
  checks :: "check list"
  events :: "event list"
  documents :: "document list"

definition batchLen :: "batch \<Rightarrow> nat" where
  "batchLen b = length (metrics b) + length (checks b) + length (events b)"

definition emptyBatch :: "string \<Rightarrow> batch" where
  "emptyBatch v = \<lparr>schemaVersion = v, metrics = [], checks = [], events = [], documents = []\<rparr>"

definition MaxRecords :: nat where "MaxRecords = 1000"
definition MaxDocuments :: nat where "MaxDocuments = 4"
definition MaxDocumentBytes :: nat where "MaxDocumentBytes = 512 * 1024"
definition MaxLabels :: nat where "MaxLabels = 16"
definition MaxLabelValue :: nat where "MaxLabelValue = 128"
definition MaxMessage :: nat where "MaxMessage = 2048"
definition MaxMeta :: nat where "MaxMeta = 4096"
definition MaxIdempotencyKey :: nat where "MaxIdempotencyKey = 128"
definition MaxFutureSkew :: duration where "MaxFutureSkew = 5 * minute"

lemmas contract_limits = MaxRecords_def MaxDocuments_def MaxDocumentBytes_def MaxLabels_def
  MaxLabelValue_def MaxMessage_def MaxMeta_def MaxIdempotencyKey_def MaxFutureSkew_def

definition nameRe :: "string \<Rightarrow> bool" where
  "nameRe = identRe (\<lambda>c. isLower c \<or> isDigit c \<or> c = CHR ''_'' \<or> c = CHR ''.'') 127"

definition labelKeyRe :: "string \<Rightarrow> bool" where
  "labelKeyRe = identRe (\<lambda>c. isLower c \<or> isDigit c \<or> c = CHR ''_'') 63"

definition versionRe :: "string \<Rightarrow> bool" where
  "versionRe s \<longleftrightarrow> hasPrefix s ''1.'' \<and> 3 \<le> length s \<and> length s \<le> 6 \<and> list_all isDigit (drop 2 s)"

definition documentKindRe :: "string \<Rightarrow> bool" where
  "documentKindRe = identRe (\<lambda>c. isLower c \<or> isDigit c \<or> c = CHR ''_'' \<or> c = CHR ''.'') 63"

definition ValidDocumentKind :: "string \<Rightarrow> bool" where
  "ValidDocumentKind kind = documentKindRe kind"

subsection \<open>Validation\<close>

definition invalid :: "string \<Rightarrow> string \<Rightarrow> error" where
  "invalid field rule = Invalid (field @ '': '' @ rule)"

definition fieldAt :: "string \<Rightarrow> nat \<Rightarrow> string" where
  "fieldAt kind i = kind @ ''['' @ itoa i @ '']''"

fun eachIdx :: "(nat \<Rightarrow> 'a \<Rightarrow> 'b result) \<Rightarrow> nat \<Rightarrow> 'a list \<Rightarrow> 'b list result" where
  "eachIdx f i [] = Inr []"
| "eachIdx f i (x # xs) =
     result_bind (f i x) (\<lambda>y. result_bind (eachIdx f (Suc i) xs) (\<lambda>ys. Inr (y # ys)))"

definition normalizeTS :: "string \<Rightarrow> time \<Rightarrow> time \<Rightarrow> time result" where
  "normalizeTS field ts now =
     (if ts = zeroTime then Inl (invalid field ''is required'')
      else if now + MaxFutureSkew < ts then Inl (invalid field ''is more than 5m0s in the future'')
      else Inr (truncateTo millisecond ts))"

definition normalizeLabel :: "string \<Rightarrow> nat \<Rightarrow> string \<times> string \<Rightarrow> (string \<times> string) result" where
  "normalizeLabel field i kv =
     (if \<not> labelKeyRe (fst kv) then Inl (invalid field ''label key must match'')
      else if MaxLabelValue < length (snd kv) \<or> \<not> validString (snd kv) then
        Inl (invalid field ''label value must be valid UTF-8 of at most 128 bytes'')
      else Inr kv)"

definition normalizeLabels :: "string \<Rightarrow> labels \<Rightarrow> labels result" where
  "normalizeLabels field ls =
     (if MaxLabels < length ls then Inl (invalid field ''has too many labels'')
      else eachIdx (normalizeLabel field) 0 ls)"

definition common :: "string \<Rightarrow> string \<Rightarrow> time \<Rightarrow> labels \<Rightarrow> time \<Rightarrow> (time \<times> labels) result" where
  "common field name ts ls now =
     (if \<not> nameRe name then Inl (invalid (field @ ''.name'') ''must match'')
      else result_bind (normalizeTS (field @ ''.ts'') ts now) (\<lambda>t.
           result_bind (normalizeLabels (field @ ''.labels'') ls) (\<lambda>l. Inr (t, l))))"

definition normalizeMeta :: "(string \<Rightarrow> string option) \<Rightarrow> string \<Rightarrow> string \<Rightarrow> string result" where
  "normalizeMeta canonObject field meta =
     (let trimmed = trimSpace meta
      in if trimmed = '''' \<or> trimmed = ''null'' then Inr ''{}''
         else if MaxMeta < length trimmed then Inl (invalid field ''exceeds 4096 bytes'')
         else case canonObject trimmed of
                None \<Rightarrow> Inl (invalid field ''must be a JSON object'')
              | Some c \<Rightarrow> Inr c)"

definition normMetric :: "time \<Rightarrow> nat \<Rightarrow> metric \<Rightarrow> metric result" where
  "normMetric now i m =
     (let field = fieldAt ''metrics'' i
      in result_bind (common field (m_name m) (m_ts m) (m_labels m) now) (\<lambda>(t, l).
           if \<not> isFin (m_value m) then Inl (invalid (field @ ''.value'') ''must be a finite number'')
           else Inr \<lparr>m_name = m_name m, m_ts = t, m_value = m_value m, m_labels = l\<rparr>))"

definition normCheck :: "(string \<Rightarrow> string option) \<Rightarrow> time \<Rightarrow> nat \<Rightarrow> check \<Rightarrow> check result" where
  "normCheck canonObject now i c =
     (let field = fieldAt ''checks'' i
      in result_bind (common field (k_name c) (k_ts c) [] now) (\<lambda>(t, _).
           if k_status c \<notin> {''ok'', ''warn'', ''critical''} then
             Inl (invalid (field @ ''.status'') ''must be ok, warn or critical'')
           else result_bind (normalizeMeta canonObject (field @ ''.meta'') (k_meta c)) (\<lambda>meta.
             Inr \<lparr>k_name = k_name c, k_ts = t, k_status = k_status c, k_meta = meta\<rparr>)))"

definition normEvent :: "time \<Rightarrow> nat \<Rightarrow> event \<Rightarrow> event result" where
  "normEvent now i e =
     (let field = fieldAt ''events'' i
      in result_bind (normalizeTS (field @ ''.ts'') (e_ts e) now) (\<lambda>t.
           if e_level e \<notin> {''info'', ''warn'', ''error'', ''critical''} then
             Inl (invalid (field @ ''.level'') ''must be info, warn, error or critical'')
           else if e_message e = '''' \<or> MaxMessage < length (e_message e) \<or> \<not> validString (e_message e) then
             Inl (invalid (field @ ''.message'') ''must be non-empty valid UTF-8 of at most 2048 bytes'')
           else result_bind (normalizeLabels (field @ ''.labels'') (e_labels e)) (\<lambda>l.
             Inr \<lparr>e_ts = t, e_level = e_level e, e_message = e_message e, e_labels = l\<rparr>)))"

fun normDocuments :: "(string \<Rightarrow> bool) \<Rightarrow> string list \<Rightarrow> nat \<Rightarrow> document list \<Rightarrow> document list result" where
  "normDocuments validJson kinds i [] = Inr []"
| "normDocuments validJson kinds i (d # ds) =
     (let field = fieldAt ''documents'' i; body = trimSpace (d_body d)
      in if \<not> documentKindRe (d_kind d) then Inl (invalid (field @ ''.kind'') ''must match'')
         else if d_kind d \<in> set kinds then Inl (invalid (field @ ''.kind'') ''repeats in one batch'')
         else if MaxDocumentBytes < length body \<or> \<not> hasPrefix body ''{'' \<or> \<not> validJson body then
           Inl (invalid (field @ ''.body'') ''must be a JSON object of at most 524288 bytes'')
         else result_bind (normDocuments validJson (d_kind d # kinds) (Suc i) ds) (\<lambda>r.
           Inr (\<lparr>d_kind = d_kind d, d_body = body\<rparr> # r)))"

definition Normalize :: "(string \<Rightarrow> bool) \<Rightarrow> (string \<Rightarrow> string option) \<Rightarrow> time \<Rightarrow> batch \<Rightarrow> batch result" where
  "Normalize validJson canonObject now b =
     (if \<not> versionRe (schemaVersion b) then Inl (invalid ''schema_version'' ''must be a 1.x version'')
      else if MaxRecords < batchLen b then Inl (invalid ''batch'' ''contains too many records'')
      else result_bind (eachIdx (normMetric now) 0 (metrics b)) (\<lambda>ms.
           result_bind (eachIdx (normCheck canonObject now) 0 (checks b)) (\<lambda>cs.
           result_bind (eachIdx (normEvent now) 0 (events b)) (\<lambda>es.
           if MaxDocuments < length (documents b) then Inl (invalid ''documents'' ''contains too many documents'')
           else result_bind (normDocuments validJson [] 0 (documents b)) (\<lambda>ds.
             Inr \<lparr>schemaVersion = schemaVersion b, metrics = ms, checks = cs, events = es, documents = ds\<rparr>)))))"

subsection \<open>Decoding\<close>

text \<open>The wire types: what \<^verbatim>\<open>json.Unmarshal\<close> fills in, with an absent timestamp or value as \<open>None\<close>.\<close>

record wireMetric =
  wm_name :: string
  wm_ts :: "time option"
  wm_value :: "float64 option"
  wm_labels :: labels

record wireCheck =
  wc_name :: string
  wc_ts :: "time option"
  wc_status :: string
  wc_meta :: string

record wireEvent =
  we_ts :: "time option"
  we_level :: string
  we_message :: string
  we_labels :: labels

record wireBatch =
  w_schemaVersion :: string
  w_metrics :: "wireMetric list"
  w_checks :: "wireCheck list"
  w_events :: "wireEvent list"
  w_documents :: "document list"

definition deref :: "time option \<Rightarrow> time" where
  "deref t = (case t of None \<Rightarrow> zeroTime | Some x \<Rightarrow> x)"

definition decodeMetric :: "nat \<Rightarrow> wireMetric \<Rightarrow> metric result" where
  "decodeMetric i m =
     (case wm_value m of
        None \<Rightarrow> Inl (invalid (fieldAt ''metrics'' i @ ''.value'') ''is required'')
      | Some v \<Rightarrow> Inr \<lparr>m_name = wm_name m, m_ts = deref (wm_ts m), m_value = v, m_labels = wm_labels m\<rparr>)"

text \<open>\<open>unmarshal\<close> is \<^verbatim>\<open>json.Unmarshal\<close> into \<^verbatim>\<open>wireBatch\<close>.\<close>

definition DecodeBatch :: "(string \<Rightarrow> wireBatch option) \<Rightarrow> string \<Rightarrow> batch result" where
  "DecodeBatch unmarshal data =
     (case unmarshal data of
        None \<Rightarrow> Inl (Invalid ''malformed batch'')
      | Some w \<Rightarrow>
          result_bind (eachIdx decodeMetric 0 (w_metrics w)) (\<lambda>ms.
            Inr \<lparr>schemaVersion = w_schemaVersion w, metrics = ms,
                 checks = map (\<lambda>c. \<lparr>k_name = wc_name c, k_ts = deref (wc_ts c), k_status = wc_status c, k_meta = wc_meta c\<rparr>) (w_checks w),
                 events = map (\<lambda>e. \<lparr>e_ts = deref (we_ts e), e_level = we_level e, e_message = we_message e, e_labels = we_labels e\<rparr>) (w_events w),
                 documents = w_documents w\<rparr>))"

subsection \<open>The contract, stated on its own\<close>

text \<open>What the contract admits, record by record, without an order of checks.\<close>

definition okTS :: "time \<Rightarrow> time \<Rightarrow> bool" where
  "okTS now ts \<longleftrightarrow> ts \<noteq> zeroTime \<and> ts \<le> now + 5 * minute"

definition okLabels :: "labels \<Rightarrow> bool" where
  "okLabels ls \<longleftrightarrow> length ls \<le> 16 \<and>
     (\<forall>kv\<in>set ls. labelKeyRe (fst kv) \<and> length (snd kv) \<le> 128 \<and> validString (snd kv))"

definition okMetric :: "time \<Rightarrow> metric \<Rightarrow> bool" where
  "okMetric now m \<longleftrightarrow> nameRe (m_name m) \<and> okTS now (m_ts m) \<and> okLabels (m_labels m) \<and> isFin (m_value m)"

definition metaForm :: "(string \<Rightarrow> string option) \<Rightarrow> string \<Rightarrow> string option" where
  "metaForm canonObject meta =
     (if trimSpace meta \<in> {'''', ''null''} then Some ''{}''
      else if length (trimSpace meta) \<le> 4096 then canonObject (trimSpace meta) else None)"

definition okCheck :: "(string \<Rightarrow> string option) \<Rightarrow> time \<Rightarrow> check \<Rightarrow> bool" where
  "okCheck canonObject now c \<longleftrightarrow>
     nameRe (k_name c) \<and> okTS now (k_ts c) \<and> k_status c \<in> {''ok'', ''warn'', ''critical''} \<and>
     metaForm canonObject (k_meta c) \<noteq> None"

definition okEvent :: "time \<Rightarrow> event \<Rightarrow> bool" where
  "okEvent now e \<longleftrightarrow>
     okTS now (e_ts e) \<and> e_level e \<in> {''info'', ''warn'', ''error'', ''critical''} \<and>
     e_message e \<noteq> '''' \<and> length (e_message e) \<le> 2048 \<and> validString (e_message e) \<and> okLabels (e_labels e)"

definition okDocument :: "(string \<Rightarrow> bool) \<Rightarrow> document \<Rightarrow> bool" where
  "okDocument validJson d \<longleftrightarrow>
     documentKindRe (d_kind d) \<and> length (trimSpace (d_body d)) \<le> 524288 \<and>
     hasPrefix (trimSpace (d_body d)) ''{'' \<and> validJson (trimSpace (d_body d))"

definition admissible :: "(string \<Rightarrow> bool) \<Rightarrow> (string \<Rightarrow> string option) \<Rightarrow> time \<Rightarrow> batch \<Rightarrow> bool" where
  "admissible validJson canonObject now b \<longleftrightarrow>
     versionRe (schemaVersion b) \<and> batchLen b \<le> 1000 \<and>
     list_all (okMetric now) (metrics b) \<and> list_all (okCheck canonObject now) (checks b) \<and>
     list_all (okEvent now) (events b) \<and>
     length (documents b) \<le> 4 \<and> list_all (okDocument validJson) (documents b) \<and> distinct (map d_kind (documents b))"

text \<open>The normal form: times in whole milliseconds, meta and documents in canonical text, the rest
  unchanged.\<close>

definition normalForm :: "(string \<Rightarrow> string option) \<Rightarrow> batch \<Rightarrow> batch" where
  "normalForm canonObject b =
     b\<lparr>metrics := map (\<lambda>m. m\<lparr>m_ts := truncateTo millisecond (m_ts m)\<rparr>) (metrics b),
       checks := map (\<lambda>c. c\<lparr>k_ts := truncateTo millisecond (k_ts c), k_meta := the (metaForm canonObject (k_meta c))\<rparr>) (checks b),
       events := map (\<lambda>e. e\<lparr>e_ts := truncateTo millisecond (e_ts e)\<rparr>) (events b),
       documents := map (\<lambda>d. d\<lparr>d_body := trimSpace (d_body d)\<rparr>) (documents b)\<rparr>"

subsection \<open>Validation decides the contract\<close>

text \<open>\<open>decides r p y\<close>: the outcome \<open>r\<close> is the value \<open>y\<close> when \<open>p\<close> holds and an \<^verbatim>\<open>apierror.Invalid\<close>
  otherwise.\<close>

definition decides :: "'b result \<Rightarrow> bool \<Rightarrow> 'b \<Rightarrow> bool" where
  "decides r p y \<longleftrightarrow> (if p then r = Inr y else \<exists>m. r = Inl (Invalid m))"

lemma decides_Inr [intro]: "decides (Inr y) True y"
  by (simp add: decides_def)

lemma decides_unless: "(\<not> p \<Longrightarrow> decides r q y) \<Longrightarrow> decides (if p then Inl (invalid f m) else r) (\<not> p \<and> q) y"
  by (auto simp: decides_def invalid_def)

lemma decides_bind: "decides r p x \<Longrightarrow> (p \<Longrightarrow> decides (f x) q y) \<Longrightarrow> decides (result_bind r f) (p \<and> q) y"
  by (auto simp: decides_def split: if_splits)

lemma decides_cong: "decides r p y \<Longrightarrow> p = q \<Longrightarrow> (p \<Longrightarrow> y = z) \<Longrightarrow> decides r q z"
  by (auto simp: decides_def)

lemma decides_eachIdx:
  "(\<And>i x. decides (f i x) (P x) (g x)) \<Longrightarrow> decides (eachIdx f i xs) (list_all P xs) (map g xs)"
proof (induction xs arbitrary: i)
  case (Cons x xs)
  have "decides (eachIdx f i (x # xs)) (P x \<and> list_all P xs \<and> True) (g x # map g xs)"
    unfolding eachIdx.simps using Cons by (intro decides_bind) auto
  then show ?case by simp
qed (simp add: decides_def)

lemma normalizeTS_decides: "decides (normalizeTS field ts now) (okTS now ts) (truncateTo millisecond ts)"
  by (auto simp: normalizeTS_def okTS_def decides_def invalid_def MaxFutureSkew_def)

lemma normalizeLabels_decides: "decides (normalizeLabels field ls) (okLabels ls) ls"
proof -
  have each: "decides (normalizeLabel field i kv) (labelKeyRe (fst kv) \<and> length (snd kv) \<le> 128 \<and> validString (snd kv)) kv" for i kv
    by (auto simp: normalizeLabel_def decides_def invalid_def MaxLabelValue_def)
  have "decides (normalizeLabels field ls) (\<not> MaxLabels < length ls \<and>
      list_all (\<lambda>kv. labelKeyRe (fst kv) \<and> length (snd kv) \<le> 128 \<and> validString (snd kv)) ls) (map (\<lambda>kv. kv) ls)"
    unfolding normalizeLabels_def by (intro decides_unless decides_eachIdx each)
  then show ?thesis by (rule decides_cong) (auto simp: okLabels_def MaxLabels_def list_all_iff)
qed

lemma common_decides:
  "decides (common field name ts ls now) (nameRe name \<and> okTS now ts \<and> okLabels ls) (truncateTo millisecond ts, ls)"
proof -
  have "decides (common field name ts ls now) (\<not> \<not> nameRe name \<and> okTS now ts \<and> okLabels ls \<and> True) (truncateTo millisecond ts, ls)"
    unfolding common_def
    by (intro decides_unless decides_bind [OF normalizeTS_decides] decides_bind [OF normalizeLabels_decides] decides_Inr)
  then show ?thesis by (rule decides_cong) simp_all
qed

lemma normMetric_decides: "decides (normMetric now i m) (okMetric now m) (m\<lparr>m_ts := truncateTo millisecond (m_ts m)\<rparr>)"
proof -
  have "decides (normMetric now i m) ((nameRe (m_name m) \<and> okTS now (m_ts m) \<and> okLabels (m_labels m)) \<and> \<not> \<not> isFin (m_value m) \<and> True)
      \<lparr>m_name = m_name m, m_ts = truncateTo millisecond (m_ts m), m_value = m_value m, m_labels = m_labels m\<rparr>"
    unfolding normMetric_def Let_def
    by (rule decides_bind [OF common_decides], unfold prod.case) (intro decides_unless decides_Inr)
  then show ?thesis by (rule decides_cong) (auto simp: okMetric_def)
qed

lemma normalizeMeta_decides:
  "decides (normalizeMeta canonObject field meta) (metaForm canonObject meta \<noteq> None) (the (metaForm canonObject meta))"
  by (auto simp: normalizeMeta_def metaForm_def decides_def invalid_def MaxMeta_def Let_def split: option.splits)

lemma okLabels_Nil [simp]: "okLabels []"
  by (simp add: okLabels_def)

lemma normCheck_decides:
  "decides (normCheck canonObject now i c) (okCheck canonObject now c)
     (c\<lparr>k_ts := truncateTo millisecond (k_ts c), k_meta := the (metaForm canonObject (k_meta c))\<rparr>)"
proof -
  have "decides (normCheck canonObject now i c)
      ((nameRe (k_name c) \<and> okTS now (k_ts c) \<and> okLabels []) \<and> \<not> k_status c \<notin> {''ok'', ''warn'', ''critical''} \<and>
       metaForm canonObject (k_meta c) \<noteq> None \<and> True)
      \<lparr>k_name = k_name c, k_ts = truncateTo millisecond (k_ts c), k_status = k_status c, k_meta = the (metaForm canonObject (k_meta c))\<rparr>"
    unfolding normCheck_def Let_def
    by (rule decides_bind [OF common_decides], unfold prod.case)
       (intro decides_unless decides_bind [OF normalizeMeta_decides] decides_Inr)
  then show ?thesis by (rule decides_cong) (auto simp: okCheck_def)
qed

lemma normEvent_decides: "decides (normEvent now i e) (okEvent now e) (e\<lparr>e_ts := truncateTo millisecond (e_ts e)\<rparr>)"
proof -
  have "decides (normEvent now i e)
      (okTS now (e_ts e) \<and> \<not> e_level e \<notin> {''info'', ''warn'', ''error'', ''critical''} \<and>
       \<not> (e_message e = '''' \<or> MaxMessage < length (e_message e) \<or> \<not> validString (e_message e)) \<and>
       okLabels (e_labels e) \<and> True)
      \<lparr>e_ts = truncateTo millisecond (e_ts e), e_level = e_level e, e_message = e_message e, e_labels = e_labels e\<rparr>"
    unfolding normEvent_def Let_def
    by (intro decides_bind [OF normalizeTS_decides] decides_unless decides_bind [OF normalizeLabels_decides] decides_Inr)
  then show ?thesis by (rule decides_cong) (auto simp: okEvent_def MaxMessage_def)
qed

lemma normDocuments_decides:
  "decides (normDocuments validJson kinds i ds)
     (list_all (okDocument validJson) ds \<and> distinct (map d_kind ds) \<and> set (map d_kind ds) \<inter> set kinds = {})
     (map (\<lambda>d. d\<lparr>d_body := trimSpace (d_body d)\<rparr>) ds)"
proof (induction ds arbitrary: kinds i)
  case (Cons d ds)
  have "decides (normDocuments validJson kinds i (d # ds))
      (\<not> \<not> documentKindRe (d_kind d) \<and> \<not> d_kind d \<in> set kinds \<and>
       \<not> (MaxDocumentBytes < length (trimSpace (d_body d)) \<or> \<not> hasPrefix (trimSpace (d_body d)) ''{'' \<or> \<not> validJson (trimSpace (d_body d))) \<and>
       (list_all (okDocument validJson) ds \<and> distinct (map d_kind ds) \<and> set (map d_kind ds) \<inter> set (d_kind d # kinds) = {}) \<and> True)
      (\<lparr>d_kind = d_kind d, d_body = trimSpace (d_body d)\<rparr> # map (\<lambda>d. d\<lparr>d_body := trimSpace (d_body d)\<rparr>) ds)"
    unfolding normDocuments.simps Let_def by (intro decides_unless decides_bind [OF Cons.IH] decides_Inr)
  then show ?case by (rule decides_cong) (auto simp: okDocument_def [of validJson d] MaxDocumentBytes_def)
qed (simp add: decides_def)

lemma Normalize_decides:
  "decides (Normalize validJson canonObject now b) (admissible validJson canonObject now b) (normalForm canonObject b)"
proof -
  have "decides (Normalize validJson canonObject now b)
      (\<not> \<not> versionRe (schemaVersion b) \<and> \<not> MaxRecords < batchLen b \<and> list_all (okMetric now) (metrics b) \<and>
       list_all (okCheck canonObject now) (checks b) \<and> list_all (okEvent now) (events b) \<and>
       \<not> MaxDocuments < length (documents b) \<and>
       (list_all (okDocument validJson) (documents b) \<and> distinct (map d_kind (documents b)) \<and> set (map d_kind (documents b)) \<inter> set [] = {}) \<and> True)
      (normalForm canonObject b)"
    unfolding Normalize_def
    by (intro decides_unless decides_bind [OF decides_eachIdx [OF normMetric_decides]]
        decides_bind [OF decides_eachIdx [OF normCheck_decides]] decides_bind [OF decides_eachIdx [OF normEvent_decides]]
        decides_bind [OF normDocuments_decides])
       (simp add: decides_def normalForm_def)
  then show ?thesis by (rule decides_cong) (auto simp: admissible_def MaxRecords_def MaxDocuments_def)
qed

lemmas decodeMetrics_decides = decides_eachIdx [where f = decodeMetric]

lemma decodeMetric_decides:
  "decides (decodeMetric i m) (wm_value m \<noteq> None)
     \<lparr>m_name = wm_name m, m_ts = deref (wm_ts m), m_value = the (wm_value m), m_labels = wm_labels m\<rparr>"
  by (auto simp: decodeMetric_def decides_def invalid_def split: option.splits)

lemma okTS_deref: "okTS now (deref t) \<Longrightarrow> t \<noteq> None"
  by (cases t) (simp_all add: okTS_def deref_def)

subsection \<open>Properties\<close>

text \<open>C17 (equivalence). Normalize accepts a batch exactly when every record keeps the contract, and
  then returns it with times cut to milliseconds, meta and documents in canonical text and
  nothing else changed or dropped; any violation rejects the whole batch with a validation
  error.\<close>

theorem Normalize_decides_contract:
  "if admissible validJson canonObject now b
   then Normalize validJson canonObject now b = Inr (normalForm canonObject b)
   else \<exists>m. Normalize validJson canonObject now b = Inl (Invalid m)"
  using Normalize_decides [of validJson canonObject now b] by (simp add: decides_def)

text \<open>A missing value and a missing timestamp are never read as zero: a wire batch with a
  metric without value does not decode, one with a record without timestamp decodes but is
  refused by Normalize, and otherwise every value arrives as it was sent, zero included.\<close>

lemma decode_keeps_absence:
  assumes "unmarshal data = Some w"
  shows "if \<exists>m\<in>set (w_metrics w). wm_value m = None
         then \<exists>msg. DecodeBatch unmarshal data = Inl (Invalid msg)
         else \<exists>b. DecodeBatch unmarshal data = Inr b \<and> map wm_value (w_metrics w) = map (\<lambda>m. Some (m_value m)) (metrics b) \<and>
           (if (\<exists>m\<in>set (w_metrics w). wm_ts m = None) \<or> (\<exists>c\<in>set (w_checks w). wc_ts c = None) \<or>
               (\<exists>e\<in>set (w_events w). we_ts e = None)
            then \<exists>msg. Normalize validJson canonObject now b = Inl (Invalid msg) else True)"
proof (cases "\<exists>m\<in>set (w_metrics w). wm_value m = None")
  case True
  then have "\<not> list_all (\<lambda>m. wm_value m \<noteq> None) (w_metrics w)" by (auto simp: list_all_iff)
  then show ?thesis
    using decodeMetrics_decides [where i = 0 and xs = "w_metrics w", OF decodeMetric_decides] True assms
    by (auto simp: DecodeBatch_def decides_def)
next
  case False
  define ms where "ms = map (\<lambda>m. \<lparr>m_name = wm_name m, m_ts = deref (wm_ts m), m_value = the (wm_value m), m_labels = wm_labels m\<rparr>) (w_metrics w)"
  define b where "b = \<lparr>schemaVersion = w_schemaVersion w, metrics = ms,
       checks = map (\<lambda>c. \<lparr>k_name = wc_name c, k_ts = deref (wc_ts c), k_status = wc_status c, k_meta = wc_meta c\<rparr>) (w_checks w),
       events = map (\<lambda>e. \<lparr>e_ts = deref (we_ts e), e_level = we_level e, e_message = we_message e, e_labels = we_labels e\<rparr>) (w_events w),
       documents = w_documents w\<rparr>"
  have "list_all (\<lambda>m. wm_value m \<noteq> None) (w_metrics w)" using False by (auto simp: list_all_iff)
  then have "eachIdx decodeMetric 0 (w_metrics w) = Inr ms"
    using decodeMetrics_decides [where i = 0 and xs = "w_metrics w", OF decodeMetric_decides] by (simp add: decides_def ms_def)
  then have dec: "DecodeBatch unmarshal data = Inr b" using assms by (simp add: DecodeBatch_def b_def)
  have vals: "map wm_value (w_metrics w) = map (\<lambda>m. Some (m_value m)) (metrics b)"
    using False by (auto simp: b_def ms_def)
  have "\<exists>msg. Normalize validJson canonObject now b = Inl (Invalid msg)"
    if "(\<exists>m\<in>set (w_metrics w). wm_ts m = None) \<or> (\<exists>c\<in>set (w_checks w). wc_ts c = None) \<or> (\<exists>e\<in>set (w_events w). we_ts e = None)"
  proof -
    have "\<not> admissible validJson canonObject now b"
    proof
      assume adm: "admissible validJson canonObject now b"
      have "\<forall>m\<in>set (w_metrics w). okTS now (deref (wm_ts m))" "\<forall>c\<in>set (w_checks w). okTS now (deref (wc_ts c))"
        "\<forall>e\<in>set (w_events w). okTS now (deref (we_ts e))"
        using adm by (simp_all add: admissible_def b_def ms_def list_all_iff okMetric_def okCheck_def okEvent_def)
      then show False using that okTS_deref by blast
    qed
    then show ?thesis using Normalize_decides [of validJson canonObject now b] by (simp add: decides_def)
  qed
  then show ?thesis using False dec vals by auto
qed

definition demoWire :: wireBatch where
  "demoWire = \<lparr>w_schemaVersion = ''1.0'', w_metrics = [\<lparr>wm_name = ''cpu'', wm_ts = None, wm_value = Some (Fin 0), wm_labels = []\<rparr>],
     w_checks = [], w_events = [], w_documents = []\<rparr>"

lemma decode_keeps_absence_witness:
  "\<exists>b. DecodeBatch (\<lambda>_. Some demoWire) ''x'' = Inr b \<and> map wm_value (w_metrics demoWire) = map (\<lambda>m. Some (m_value m)) (metrics b) \<and>
     (\<exists>msg. Normalize (\<lambda>_. True) Some 0 b = Inl (Invalid msg))"
  using decode_keeps_absence [of "\<lambda>_. Some demoWire" "''x''" demoWire "\<lambda>_. True" Some 0]
  by (simp add: demoWire_def)

end
