(* ===== verification/Netip.thy ===== *)
theory Netip
  imports GoText
begin

section \<open>IP addresses\<close>

text \<open>
  The part of Go's \<^verbatim>\<open>net/netip\<close> the sources use: parsing and printing of addresses,
  \<^verbatim>\<open>Unmap\<close>, \<^verbatim>\<open>Next\<close>, and prefixes with \<^verbatim>\<open>Masked\<close>, \<^verbatim>\<open>Contains\<close> and
  \<^verbatim>\<open>String\<close>. An IPv4 address is its 32-bit value, an IPv6 address its eight 16-bit groups and
  its zone. The round trip of IPv4 text is what the peer table rests on.
\<close>

datatype addr = V4 nat | V6 "nat list" string

fun joinWith :: "string \<Rightarrow> string list \<Rightarrow> string" where
  "joinWith sep [] = []"
| "joinWith sep [x] = x"
| "joinWith sep (x # y # ys) = x @ sep @ joinWith sep (y # ys)"

subsection \<open>Parsing\<close>

definition v4Field :: "string \<Rightarrow> nat option" where
  "v4Field f =
     (if f = [] \<or> (1 < length f \<and> hd f = CHR ''0'') then None
      else case parseDigits 0 f of
             None \<Rightarrow> None
           | Some n \<Rightarrow> if n < 256 then Some n else None)"

definition parseV4 :: "string \<Rightarrow> nat option" where
  "parseV4 s =
     (case map v4Field (splitOn CHR ''.'' s) of
        [Some a, Some b, Some c, Some d] \<Rightarrow> Some (((a * 256 + b) * 256 + c) * 256 + d)
      | _ \<Rightarrow> None)"

definition hexDigit :: "char \<Rightarrow> nat option" where
  "hexDigit c =
     (let b = byte c
      in if 48 \<le> b \<and> b \<le> 57 then Some (b - 48)
         else if 97 \<le> b \<and> b \<le> 102 then Some (b - 87)
         else if 65 \<le> b \<and> b \<le> 70 then Some (b - 55)
         else None)"

definition hexValue :: "string \<Rightarrow> nat" where
  "hexValue s = foldl (\<lambda>acc c. acc * 16 + (case hexDigit c of Some d \<Rightarrow> d | None \<Rightarrow> 0)) 0 s"

text \<open>The loop of the IPv6 parser: \<open>n\<close> groups may still follow, \<open>acc\<close> are the groups read,
  \<open>ell\<close> the position of the double colon.\<close>

fun v6Groups :: "nat \<Rightarrow> string \<Rightarrow> nat list \<Rightarrow> nat option \<Rightarrow> (nat list \<times> nat option) option" where
  "v6Groups 0 s acc ell = (if s = [] then Some (acc, ell) else None)"
| "v6Groups (Suc n) s acc ell =
     (let h = takeWhile (\<lambda>c. hexDigit c \<noteq> None) s; r = drop (length h) s
      in if h = [] \<or> 4 < length h then None
         else if r \<noteq> [] \<and> hd r = CHR ''.'' then
           (if 6 < length acc \<or> (ell = None \<and> length acc \<noteq> 6) then None
            else case parseV4 s of
                   None \<Rightarrow> None
                 | Some v \<Rightarrow> Some (acc @ [v div 65536, v mod 65536], ell))
         else let acc' = acc @ [hexValue h]
              in case r of
                   [] \<Rightarrow> Some (acc', ell)
                 | c # r1 \<Rightarrow>
                     if c \<noteq> CHR '':'' \<or> r1 = [] then None
                     else if hd r1 \<noteq> CHR '':'' then v6Groups n r1 acc' ell
                     else if ell \<noteq> None then None
                     else if tl r1 = [] then Some (acc', Some (length acc'))
                     else v6Groups n (tl r1) acc' (Some (length acc')))"

definition expandGroups :: "nat list \<times> nat option \<Rightarrow> nat list option" where
  "expandGroups ge =
     (case ge of (acc, ell) \<Rightarrow>
        if length acc < 8 then
          (case ell of
             None \<Rightarrow> None
           | Some e \<Rightarrow> Some (take e acc @ replicate (8 - length acc) 0 @ drop e acc))
        else if ell = None then Some acc else None)"

definition parseV6 :: "string \<Rightarrow> addr option" where
  "parseV6 t =
     (let s = takeWhile (\<lambda>c. c \<noteq> CHR ''%'') t; z = drop (length s) t; zone = tl z
      in if z \<noteq> [] \<and> zone = [] then None
         else if s = ''::'' then Some (V6 (replicate 8 0) zone)
         else case (if hasPrefix s ''::'' then v6Groups 8 (drop 2 s) [] (Some 0) else v6Groups 8 s [] None) of
                None \<Rightarrow> None
              | Some ge \<Rightarrow> map_option (\<lambda>gs. V6 gs zone) (expandGroups ge))"

definition ParseAddr :: "string \<Rightarrow> addr option" where
  "ParseAddr s =
     (case find (\<lambda>c. c = CHR ''.'' \<or> c = CHR '':'' \<or> c = CHR ''%'') s of
        None \<Rightarrow> None
      | Some c \<Rightarrow>
          if c = CHR ''.'' then map_option V4 (parseV4 s)
          else if c = CHR '':'' then parseV6 s
          else None)"

subsection \<open>Printing\<close>

definition v4String :: "nat \<Rightarrow> string" where
  "v4String v =
     joinWith ''.'' [itoa (v div 16777216 mod 256), itoa (v div 65536 mod 256), itoa (v div 256 mod 256), itoa (v mod 256)]"

fun itoaHex :: "nat \<Rightarrow> string" where
  "itoaHex n =
     (if n < 16 then [(''0123456789abcdef'' ! n)]
      else itoaHex (n div 16) @ [(''0123456789abcdef'' ! (n mod 16))])"

declare itoaHex.simps [simp del]

definition zeroRun :: "nat list \<Rightarrow> nat \<Rightarrow> nat" where
  "zeroRun gs i = length (takeWhile (\<lambda>g. g = 0) (drop i gs))"

text \<open>The longest run of at least two zero groups, the first one of several.\<close>

definition bestRun :: "nat list \<Rightarrow> (nat \<times> nat) option" where
  "bestRun gs =
     foldl (\<lambda>best i.
         let l = zeroRun gs i; b = (case best of None \<Rightarrow> 0 | Some (_, n) \<Rightarrow> n)
         in if 2 \<le> l \<and> b < l then Some (i, l) else best)
       None [0..<8]"

definition v6String :: "nat list \<Rightarrow> string" where
  "v6String gs =
     (case bestRun gs of
        None \<Rightarrow> joinWith '':'' (map itoaHex gs)
      | Some (i, l) \<Rightarrow>
          joinWith '':'' (map itoaHex (take i gs)) @ ''::'' @ joinWith '':'' (map itoaHex (drop (i + l) gs)))"

definition is4In6 :: "nat list \<Rightarrow> bool" where
  "is4In6 gs \<longleftrightarrow> take 6 gs = [0, 0, 0, 0, 0, 65535]"

definition mappedV4 :: "nat list \<Rightarrow> nat" where
  "mappedV4 gs = gs ! 6 * 65536 + gs ! 7"

fun addrString :: "addr \<Rightarrow> string" where
  "addrString (V4 v) = v4String v"
| "addrString (V6 gs z) =
     (if is4In6 gs then ''::ffff:'' @ v4String (mappedV4 gs) else v6String gs)
     @ (if z = [] then [] else CHR ''%'' # z)"

fun Unmap :: "addr \<Rightarrow> addr" where
  "Unmap (V4 v) = V4 v"
| "Unmap (V6 gs z) = (if is4In6 gs then V4 (mappedV4 gs) else V6 gs z)"

subsection \<open>Prefixes\<close>

record prefix = p_addr :: addr  p_bits :: nat

text \<open>The groups of an IPv6 address under a mask.\<close>

definition maskGroups :: "nat \<Rightarrow> nat list \<Rightarrow> nat list" where
  "maskGroups bits gs =
     map (\<lambda>(i, g). let keep = min 16 (bits - 16 * i) in g div 2 ^ (16 - keep) * 2 ^ (16 - keep)) (enumerate 0 gs)"

fun maskAddr :: "nat \<Rightarrow> addr \<Rightarrow> addr" where
  "maskAddr bits (V4 v) = V4 (v div 2 ^ (32 - bits) * 2 ^ (32 - bits))"
| "maskAddr bits (V6 gs z) = V6 (maskGroups bits gs) []"

text \<open>\<^verbatim>\<open>Addr.Prefix(bits)\<close>: the masked address, without a zone.\<close>

definition prefixOf :: "nat \<Rightarrow> addr \<Rightarrow> prefix" where
  "prefixOf bits a = \<lparr>p_addr = maskAddr bits a, p_bits = bits\<rparr>"

definition prefixString :: "prefix \<Rightarrow> string" where
  "prefixString p = addrString (p_addr p) @ ''/'' @ itoa (p_bits p)"

text \<open>An address with a zone is in no prefix, and the families do not mix.\<close>

fun Contains :: "prefix \<Rightarrow> addr \<Rightarrow> bool" where
  "Contains p (V4 v) =
     (case p_addr p of
        V4 w \<Rightarrow> maskAddr (p_bits p) (V4 v) = maskAddr (p_bits p) (V4 w)
      | V6 _ _ \<Rightarrow> False)"
| "Contains p (V6 gs z) =
     (case p_addr p of
        V4 _ \<Rightarrow> False
      | V6 hs _ \<Rightarrow> z = [] \<and> maskGroups (p_bits p) gs = maskGroups (p_bits p) hs)"

subsection \<open>Lemmas\<close>

lemma eight_groups: "length gs = 8 \<Longrightarrow> \<exists>a b c d e f g h. gs = [a, b, c, d, e, f, g, h]"
  by (auto simp: numeral_eq_Suc length_Suc_conv)

text \<open>A well-formed address: 32 bits, or eight groups of 16 bits.\<close>

fun wf_addr :: "addr \<Rightarrow> bool" where
  "wf_addr (V4 v) \<longleftrightarrow> v < 2 ^ 32"
| "wf_addr (V6 gs z) \<longleftrightarrow> length gs = 8 \<and> (\<forall>g\<in>set gs. g < 65536)"

text \<open>A /64 keeps the first four groups.\<close>

lemma maskGroups_64: "wf_addr (V6 gs z) \<Longrightarrow> maskGroups 64 gs = take 4 gs @ [0, 0, 0, 0]"
  using eight_groups [of gs] by (auto simp: maskGroups_def)

lemma hexValue_bound: "hexValue s < 16 ^ length s"
proof (induction s rule: rev_induct)
  case (snoc c s)
  have "(case hexDigit c of Some d \<Rightarrow> d | None \<Rightarrow> 0) < 16"
    by (auto simp: hexDigit_def Let_def split: option.splits if_splits)
  then show ?case using snoc by (simp add: hexValue_def)
qed (simp add: hexValue_def)

lemma hexValue_group: "length s \<le> 4 \<Longrightarrow> hexValue s < 65536"
  using hexValue_bound [of s] power_increasing [of "length s" 4 "16::nat"] by simp

lemma v4Field_bound: "v4Field f = Some n \<Longrightarrow> n < 256"
  by (auto simp: v4Field_def split: if_splits option.splits)

lemma parseV4_bound:
  assumes "parseV4 s = Some v"
  shows "v < 4294967296"
proof -
  obtain a b c d where f: "map v4Field (splitOn CHR ''.'' s) = [Some a, Some b, Some c, Some d]"
    and v: "v = ((a * 256 + b) * 256 + c) * 256 + d"
    using assms by (auto simp: parseV4_def split: list.splits option.splits)
  have "Some x \<in> set (map v4Field (splitOn CHR ''.'' s)) \<Longrightarrow> x < 256" for x
    by (auto intro: v4Field_bound dest: sym)
  then have "a < 256" "b < 256" "c < 256" "d < 256" unfolding f by simp_all
  then show ?thesis unfolding v by simp
qed

lemma v6Groups_wf:
  "v6Groups n s acc ell = Some (acc', ell') \<Longrightarrow> length acc + n = 8 \<Longrightarrow> (\<forall>g\<in>set acc. g < 65536) \<Longrightarrow>
   length acc' \<le> 8 \<and> (\<forall>g\<in>set acc'. g < 65536)"
proof (induction n arbitrary: s acc ell)
  case 0
  then show ?case by (simp split: if_splits)
next
  case (Suc n)
  define h where "h = takeWhile (\<lambda>c. hexDigit c \<noteq> None) s"
  have eq: "v6Groups (Suc n) s acc ell =
      (if h = [] \<or> 4 < length h then None
       else if drop (length h) s \<noteq> [] \<and> hd (drop (length h) s) = CHR ''.'' then
         (if 6 < length acc \<or> (ell = None \<and> length acc \<noteq> 6) then None
          else case parseV4 s of None \<Rightarrow> None | Some v \<Rightarrow> Some (acc @ [v div 65536, v mod 65536], ell))
       else case drop (length h) s of
              [] \<Rightarrow> Some (acc @ [hexValue h], ell)
            | c # r1 \<Rightarrow>
                if c \<noteq> CHR '':'' \<or> r1 = [] then None
                else if hd r1 \<noteq> CHR '':'' then v6Groups n r1 (acc @ [hexValue h]) ell
                else if ell \<noteq> None then None
                else if tl r1 = [] then Some (acc @ [hexValue h], Some (length (acc @ [hexValue h])))
                else v6Groups n (tl r1) (acc @ [hexValue h]) (Some (length (acc @ [hexValue h]))))"
    by (simp only: v6Groups.simps h_def [symmetric] Let_def)
  have "h \<noteq> [] \<and> length h \<le> 4" using Suc.prems(1) unfolding eq by (metis leI option.distinct(1))
  then have g: "hexValue h < 65536" by (simp add: hexValue_group)
  have IH: "v6Groups n r (acc @ [hexValue h]) e = Some (acc', ell') \<Longrightarrow>
      length acc' \<le> 8 \<and> (\<forall>g\<in>set acc'. g < 65536)" for r e
    using Suc.IH [of r "acc @ [hexValue h]" e] Suc.prems(2,3) g by simp
  have v4: "parseV4 s = Some v \<Longrightarrow> v div 65536 < 65536" for v
    using parseV4_bound [of s v] by (simp add: less_mult_imp_div_less)
  show ?case
    using Suc.prems g unfolding eq
    by (auto split: if_splits option.splits list.splits dest: IH v4)
qed

lemma expandGroups_wf:
  assumes "length acc \<le> 8 \<and> (\<forall>g\<in>set acc. g < 65536)" and "expandGroups (acc, ell) = Some gs"
  shows "wf_addr (V6 gs z)"
proof (cases "length acc < 8")
  case True
  then obtain e where gs: "gs = take e acc @ replicate (8 - length acc) 0 @ drop e acc"
    using assms(2) by (auto simp: expandGroups_def split: option.splits)
  have "length (take e acc) + length (drop e acc) = length acc"
    by (metis append_take_drop_id length_append)
  moreover have "set gs \<subseteq> set acc \<union> {0}"
    unfolding gs by (auto dest: in_set_takeD in_set_dropD)
  ultimately show ?thesis using True assms(1) gs by (auto simp del: length_take length_drop)
next
  case False
  then show ?thesis using assms by (auto simp: expandGroups_def split: if_splits)
qed

lemma ParseAddr_wf: "ParseAddr s = Some a \<Longrightarrow> wf_addr a"
proof -
  have "wf_addr x" if x: "parseV6 t = Some x" for t x
  proof -
    consider (zero) z where "x = V6 (replicate 8 0) z"
      | (groups) u ell ge z where "v6Groups 8 u [] ell = Some ge" "map_option (\<lambda>gs. V6 gs z) (expandGroups ge) = Some x"
      using x by (auto simp: parseV6_def Let_def split: if_splits option.splits)
    then show ?thesis
    proof cases
      case groups
      obtain acc' ell' where ge: "ge = (acc', ell')" by fastforce
      have "length acc' \<le> 8 \<and> (\<forall>g\<in>set acc'. g < 65536)"
        using groups(1) ge v6Groups_wf [of 8 u "[]" ell acc' ell'] by simp
      then show ?thesis
        using groups(2) ge expandGroups_wf [of acc' ell'] by auto
    qed simp
  qed
  then show "ParseAddr s = Some a \<Longrightarrow> wf_addr a"
    by (auto simp: ParseAddr_def split: option.splits if_splits dest: parseV4_bound)
qed

text \<open>Evaluation of the parser on literals.\<close>

lemma v6Groups_8: "v6Groups 8 = v6Groups (Suc (Suc (Suc (Suc (Suc (Suc (Suc (Suc 0))))))))"
  by (simp add: numeral_eq_Suc)

lemma replicate_numeral: "replicate (numeral k) x = x # replicate (pred_numeral k) x"
  by (simp add: numeral_eq_Suc)

lemmas parse_eval = ParseAddr_def parseV6_def parseV4_def v4Field_def expandGroups_def hexValue_def hexDigit_def
  hasPrefix_def isDigit_def byte_def Let_def v6Groups_8 replicate_numeral

subsection \<open>IPv4 text\<close>

lemma parseDigits_append_acc: "parseDigits a (xs @ [c]) =
    (case parseDigits a xs of None \<Rightarrow> None | Some n \<Rightarrow> if isDigit c then Some (10 * n + (byte c - 48)) else None)"
  by (induction xs arbitrary: a) auto

lemma parseDigits_itoa: "parseDigits 0 (itoa n) = Some n"
proof (induction n rule: itoa.induct)
  case (1 n)
  then show ?case
    by (cases "n < 10") (simp_all add: itoa.simps [of n] parseDigits_append_acc)
qed

lemma itoa_digits: "list_all isDigit (itoa n)"
proof (induction n rule: itoa.induct)
  case (1 n)
  then show ?case by (cases "n < 10") (simp_all add: itoa.simps [of n])
qed

lemma itoa_not_Nil [simp]: "itoa n \<noteq> []"
  by (simp add: itoa.simps [of n])

lemma itoa_hd: "0 < n \<Longrightarrow> hd (itoa n) \<noteq> CHR ''0''"
proof (induction n rule: itoa.induct)
  case (1 n)
  show ?case
  proof (cases "n < 10")
    case True
    have "byte (digit n) = 48 + n" using True by simp
    then have "digit n \<noteq> CHR ''0''" using 1(2) by (auto simp: byte_def)
    then show ?thesis using True by (simp add: itoa.simps [of n])
  next
    case False
    then show ?thesis using 1(1) by (simp add: itoa.simps [of n])
  qed
qed

lemma v4Field_itoa: "n < 256 \<Longrightarrow> v4Field (itoa n) = Some n"
proof -
  assume n: "n < 256"
  have "\<not> (1 < length (itoa n) \<and> hd (itoa n) = CHR ''0'')"
    using itoa_hd [of n] by (cases "n = 0") (simp_all add: itoa.simps [of 0])
  then show ?thesis using n by (simp add: v4Field_def parseDigits_itoa)
qed

lemma splitOn_sep: "c \<notin> set xs \<Longrightarrow> splitOn c (xs @ c # ys) = xs # splitOn c ys"
  by (induction xs) auto

lemma itoa_no_dot: "CHR ''.'' \<notin> set (itoa n)"
  using itoa_digits [of n] by (auto simp: list_all_iff isDigit_def byte_def dest!: bspec)

lemma v4_digits:
  assumes "v < 2 ^ 32"
  shows "((v div 16777216 mod 256 * 256 + v div 65536 mod 256) * 256 + v div 256 mod 256) * 256 + v mod 256 = (v::nat)"
proof -
  have "v div 16777216 < 256" using assms by (simp add: less_mult_imp_div_less)
  then have a: "v div 16777216 mod 256 = v div 16777216" by simp
  have b: "v div 65536 div 256 = v div 16777216" "v div 256 div 256 = v div 65536"
    by (simp_all add: div_mult2_eq [symmetric])
  have "v div 16777216 * 256 + v div 65536 mod 256 = v div 65536"
    using div_mult_mod_eq [of "v div 65536" 256] by (simp add: b)
  moreover have "v div 65536 * 256 + v div 256 mod 256 = v div 256"
    using div_mult_mod_eq [of "v div 256" 256] by (simp add: b)
  ultimately show ?thesis using a div_mult_mod_eq [of v 256] by simp
qed

lemma parseV4_v4String: "v < 2 ^ 32 \<Longrightarrow> parseV4 (v4String v) = Some v"
proof -
  assume v: "v < 2 ^ 32"
  have "splitOn CHR ''.'' (v4String v) = [itoa (v div 16777216 mod 256), itoa (v div 65536 mod 256), itoa (v div 256 mod 256), itoa (v mod 256)]"
    by (simp add: v4String_def splitOn_sep splitOn_single itoa_no_dot)
  moreover have "parseV4 s = Some (((a * 256 + b) * 256 + c) * 256 + d)"
    if "splitOn CHR ''.'' s = [itoa a, itoa b, itoa c, itoa d]" "a < 256" "b < 256" "c < 256" "d < 256" for s a b c d
    using that by (simp add: parseV4_def v4Field_itoa)
  ultimately have "parseV4 (v4String v) = Some (((v div 16777216 mod 256 * 256 + v div 65536 mod 256) * 256 + v div 256 mod 256) * 256 + v mod 256)"
    by fastforce
  then show ?thesis unfolding v4_digits [OF v] .
qed

lemma ParseAddr_v4String: "v < 2 ^ 32 \<Longrightarrow> ParseAddr (v4String v) = Some (V4 v)"
proof -
  assume v: "v < 2 ^ 32"
  have skip: "find P (xs @ ys) = find P ys" if "\<forall>x\<in>set xs. \<not> P x" for P :: "char \<Rightarrow> bool" and xs ys
    using that by (induction xs) auto
  have "\<forall>x\<in>set (itoa n). \<not> (x = CHR ''.'' \<or> x = CHR '':'' \<or> x = CHR ''%'')" for n
    using itoa_digits [of n] by (auto simp: list_all_iff isDigit_def byte_def dest!: bspec)
  then have "find (\<lambda>c. c = CHR ''.'' \<or> c = CHR '':'' \<or> c = CHR ''%'') (v4String v) = Some CHR ''.''"
    by (simp add: v4String_def skip)
  then show ?thesis using parseV4_v4String [OF v] by (simp add: ParseAddr_def)
qed

lemma v4String_inj: "v < 2 ^ 32 \<Longrightarrow> w < 2 ^ 32 \<Longrightarrow> v4String v = v4String w \<longleftrightarrow> v = w"
  by (metis ParseAddr_v4String addr.inject(1) option.inject)

end
