(* ===== verification/Telemetry_Store.thy ===== *)
theory Telemetry_Store
  imports Telemetry Netip
begin

section \<open>The telemetry tables and their writer (internal/telemetry/infrastructure/store.go)\<close>

text \<open>
  \<open>tdb\<close> holds the telemetry tables of the database, each an association list from its primary key
  to the other columns; timestamps are Unix milliseconds. \<open>metric_latest\<close> and \<open>check_latest\<close> are the
  tables the migrations keep by triggers. A transaction either commits or leaves the tables as they
  were, so an operation returns its result and the tables after it; the argument \<open>fault\<close> is the error
  of the first statement that fails, if one does.
\<close>

type_synonym series = "string \<times> string \<times> string"

record hostRow =
  h_name :: string
  h_created :: int
  h_lastSeen :: "int option"

record enrollRow =
  en_expires :: int
  en_used :: "int option"

record peerRow =
  p_key :: string
  p_ip :: string
  p_enrolled :: int

record rollupRow =
  ru_count :: nat
  ru_min :: rat
  ru_max :: rat
  ru_sum :: rat

record tdb =
  hosts :: "(string \<times> hostRow) list"
  metricRows :: "((series \<times> int) \<times> (float64 \<times> string)) list"
  checkRows :: "(((string \<times> string) \<times> int) \<times> (string \<times> string \<times> string)) list"
  eventRows :: "((string \<times> int \<times> string \<times> string \<times> string) \<times> string) list"
  batches :: "((string \<times> string) \<times> (int \<times> nat)) list"
  documentRows :: "((string \<times> string) \<times> (int \<times> string)) list"
  metricLatest :: "(series \<times> (int \<times> float64)) list"
  checkLatest :: "((string \<times> string) \<times> (int \<times> string \<times> string)) list"
  rollups :: "((series \<times> int) \<times> rollupRow) list"
  rolledThrough :: "int option"
  enrollments :: "((string \<times> string) \<times> enrollRow) list"
  peers :: "(string \<times> peerRow) list"

text \<open>\<^verbatim>\<open>INSERT ... ON CONFLICT DO NOTHING\<close>: whether a row was inserted, and the table.\<close>

definition insertIgnore :: "'k \<Rightarrow> 'v \<Rightarrow> ('k \<times> 'v) list \<Rightarrow> bool \<times> ('k \<times> 'v) list" where
  "insertIgnore k v t = (if map_of t k = None then (True, t @ [(k, v)]) else (False, t))"

text \<open>The triggers: keep the newest row of a series.\<close>

definition keepLatest :: "'s \<Rightarrow> int \<Rightarrow> 'v \<Rightarrow> ('s \<times> (int \<times> 'v)) list \<Rightarrow> ('s \<times> (int \<times> 'v)) list" where
  "keepLatest s ts v t =
     (case map_of t s of
        None \<Rightarrow> AList.update s (ts, v) t
      | Some (old, _) \<Rightarrow> if old < ts then AList.update s (ts, v) t else t)"

record storeResult =
  Replayed :: bool
  Accepted :: batch
  Duplicates :: "nat \<times> nat \<times> nat"

definition metricKey :: "string \<Rightarrow> metric \<Rightarrow> series \<times> int" where
  "metricKey host m = ((host, m_name m, CanonicalLabels (m_labels m)), unixMilli (m_ts m))"

definition checkKey :: "string \<Rightarrow> check \<Rightarrow> (string \<times> string) \<times> int" where
  "checkKey host c = ((host, k_name c), unixMilli (k_ts c))"

definition eventKey :: "string \<Rightarrow> event \<Rightarrow> string \<times> int \<times> string \<times> string \<times> string" where
  "eventKey host e = (host, unixMilli (e_ts e), e_level e, e_message e, CanonicalLabels (e_labels e))"

text \<open>The three insert loops. A NaN (stored as NULL) and a status or level outside the CHECK constraint
  fail the insert.\<close>

fun storeMetrics :: "string \<Rightarrow> string \<Rightarrow> metric list \<Rightarrow> tdb \<Rightarrow> (metric list \<times> nat \<times> tdb) result" where
  "storeMetrics host ver [] db = Inr ([], 0, db)"
| "storeMetrics host ver (m # ms) db =
     (if m_value m = NaN then Inl (OtherError ''telemetry: insert record'')
      else case insertIgnore (metricKey host m) (m_value m, ver) (metricRows db) of
             (True, t) \<Rightarrow>
               result_bind (storeMetrics host ver ms
                   (db\<lparr>metricRows := t,
                       metricLatest := keepLatest (fst (metricKey host m)) (snd (metricKey host m)) (m_value m) (metricLatest db)\<rparr>))
                 (\<lambda>(acc, dup, db'). Inr (m # acc, dup, db'))
           | (False, _) \<Rightarrow> result_bind (storeMetrics host ver ms db) (\<lambda>(acc, dup, db'). Inr (acc, Suc dup, db')))"

fun storeChecks :: "string \<Rightarrow> string \<Rightarrow> check list \<Rightarrow> tdb \<Rightarrow> (check list \<times> nat \<times> tdb) result" where
  "storeChecks host ver [] db = Inr ([], 0, db)"
| "storeChecks host ver (c # cs) db =
     (if k_status c \<notin> {''ok'', ''warn'', ''critical''} then Inl (OtherError ''telemetry: insert record'')
      else case insertIgnore (checkKey host c) (k_status c, k_meta c, ver) (checkRows db) of
             (True, t) \<Rightarrow>
               result_bind (storeChecks host ver cs
                   (db\<lparr>checkRows := t,
                       checkLatest := keepLatest (fst (checkKey host c)) (snd (checkKey host c)) (k_status c, k_meta c) (checkLatest db)\<rparr>))
                 (\<lambda>(acc, dup, db'). Inr (c # acc, dup, db'))
           | (False, _) \<Rightarrow> result_bind (storeChecks host ver cs db) (\<lambda>(acc, dup, db'). Inr (acc, Suc dup, db')))"

fun storeEvents :: "string \<Rightarrow> string \<Rightarrow> event list \<Rightarrow> tdb \<Rightarrow> (event list \<times> nat \<times> tdb) result" where
  "storeEvents host ver [] db = Inr ([], 0, db)"
| "storeEvents host ver (e # es) db =
     (if e_level e \<notin> {''info'', ''warn'', ''error'', ''critical''} then Inl (OtherError ''telemetry: insert record'')
      else case insertIgnore (eventKey host e) ver (eventRows db) of
             (True, t) \<Rightarrow>
               result_bind (storeEvents host ver es (db\<lparr>eventRows := t\<rparr>)) (\<lambda>(acc, dup, db'). Inr (e # acc, dup, db'))
           | (False, _) \<Rightarrow> result_bind (storeEvents host ver es db) (\<lambda>(acc, dup, db'). Inr (acc, Suc dup, db')))"

definition storeDocuments :: "string \<Rightarrow> int \<Rightarrow> document list \<Rightarrow> tdb \<Rightarrow> tdb" where
  "storeDocuments host received ds db =
     db\<lparr>documentRows := fold (\<lambda>d. AList.update (host, d_kind d) (received, d_body d)) ds (documentRows db)\<rparr>"

definition touchHost :: "string \<Rightarrow> int \<Rightarrow> tdb \<Rightarrow> tdb" where
  "touchHost host received db =
     db\<lparr>hosts := map (\<lambda>(i, h). (i, if i = host then h\<lparr>h_lastSeen := Some received\<rparr> else h)) (hosts db)\<rparr>"

text \<open>The transaction: the idempotency row first, then the records, the documents and the host.\<close>

definition storeBatch :: "string \<Rightarrow> string \<Rightarrow> time \<Rightarrow> batch \<Rightarrow> tdb \<Rightarrow> (storeResult \<times> tdb) result" where
  "storeBatch host key receivedAt b db =
     result_bind (storeMetrics host (schemaVersion b) (metrics b)
         (db\<lparr>batches := snd (insertIgnore (host, key) (unixMilli receivedAt, batchLen b) (batches db))\<rparr>)) (\<lambda>(ms, dm, db1).
     result_bind (storeChecks host (schemaVersion b) (checks b) db1) (\<lambda>(cs, dc, db2).
     result_bind (storeEvents host (schemaVersion b) (events b) db2) (\<lambda>(es, de, db3).
       Inr (\<lparr>Replayed = False,
             Accepted = \<lparr>schemaVersion = schemaVersion b, metrics = ms, checks = cs, events = es, documents = []\<rparr>,
             Duplicates = (dm, dc, de)\<rparr>,
            touchHost host (unixMilli receivedAt) (storeDocuments host (unixMilli receivedAt) (documents b) db3)))))"

definition Store :: "error option \<Rightarrow> string \<Rightarrow> string \<Rightarrow> time \<Rightarrow> batch \<Rightarrow> tdb \<Rightarrow> storeResult result \<times> tdb" where
  "Store fault host key receivedAt b db =
     (case fault of
        Some e \<Rightarrow> (Inl e, db)
      | None \<Rightarrow>
          if map_of (hosts db) host = None then (Inl (NotFound ''host not found''), db)
          else if \<not> fst (insertIgnore (host, key) (unixMilli receivedAt, batchLen b) (batches db)) then
            (Inr \<lparr>Replayed = True, Accepted = emptyBatch [], Duplicates = (0, 0, 0)\<rparr>, db)
          else case storeBatch host key receivedAt b db of
                 Inl e \<Rightarrow> (Inl e, db)
               | Inr (r, db') \<Rightarrow> (Inr r, db'))"

definition CreateHost :: "error option \<Rightarrow> string option \<Rightarrow> string \<Rightarrow> time \<Rightarrow> tdb \<Rightarrow> (string \<times> hostRow) result \<times> tdb" where
  "CreateHost fault rnd name now db =
     (if trimSpace name = '''' \<or> 80 < length name then (Inl (Invalid ''host name must contain 1..80 bytes''), db)
      else case rnd of
             None \<Rightarrow> (Inl (OtherError ''telemetry: generate host id''), db)
           | Some hid \<Rightarrow>
               let row = \<lparr>h_name = name, h_created = unixMilli now, h_lastSeen = None\<rparr>
               in (case fault of
                     Some e \<Rightarrow> (Inl e, db)
                   | None \<Rightarrow>
                       if map_of (hosts db) hid \<noteq> None \<or> (\<exists>h\<in>set (hosts db). h_name (snd h) = name)
                       then (Inl (Conflict ''host name already exists''), db)
                       else (Inr (hid, row), db\<lparr>hosts := hosts db @ [(hid, row)]\<rparr>)))"

definition Host :: "error option \<Rightarrow> string \<Rightarrow> tdb \<Rightarrow> (string \<times> hostRow) result" where
  "Host fault hid db =
     (case fault of
        Some e \<Rightarrow> Inl e
      | None \<Rightarrow> (case map_of (hosts db) hid of None \<Rightarrow> Inl (NotFound ''host not found'') | Some h \<Rightarrow> Inr (hid, h)))"

subsection \<open>What the insert loops do\<close>

text \<open>The records a table does not know yet, each identity once.\<close>

fun news :: "('x \<Rightarrow> 'k) \<Rightarrow> 'k set \<Rightarrow> 'x list \<Rightarrow> 'x list" where
  "news key known [] = []"
| "news key known (x # xs) =
     (if key x \<in> known then news key known xs else x # news key (insert (key x) known) xs)"

abbreviation keysOf :: "('k \<times> 'v) list \<Rightarrow> 'k set" where
  "keysOf t \<equiv> fst ` set t"

definition metricRow :: "string \<Rightarrow> string \<Rightarrow> metric \<Rightarrow> (series \<times> int) \<times> (float64 \<times> string)" where
  "metricRow host ver m = (metricKey host m, (m_value m, ver))"

definition checkRow :: "string \<Rightarrow> string \<Rightarrow> check \<Rightarrow> ((string \<times> string) \<times> int) \<times> (string \<times> string \<times> string)" where
  "checkRow host ver c = (checkKey host c, (k_status c, k_meta c, ver))"

definition eventRow :: "string \<Rightarrow> string \<Rightarrow> event \<Rightarrow> (string \<times> int \<times> string \<times> string \<times> string) \<times> string" where
  "eventRow host ver e = (eventKey host e, ver)"

lemma length_news: "length (news key known xs) \<le> length xs"
  by (induction key known xs rule: news.induct) auto

lemma set_news: "set (news key known xs) \<subseteq> set xs"
  by (induction key known xs rule: news.induct) auto

lemma keys_news: "key ` set (news key known xs) = key ` set xs - known"
  by (induction key known xs rule: news.induct) auto

lemma distinct_news: "distinct (map key (news key known xs))"
proof (induction key known xs rule: news.induct)
  case (2 key known x xs)
  then show ?case using keys_news [of key "insert (key x) known" xs] by auto
qed simp

lemma insertIgnore_fst: "fst (insertIgnore k v t) \<longleftrightarrow> k \<notin> keysOf t"
  by (simp add: insertIgnore_def map_of_eq_None_iff)

lemma insertIgnore_eq: "insertIgnore k v t = (if k \<in> keysOf t then (False, t) else (True, t @ [(k, v)]))"
  by (auto simp: insertIgnore_def map_of_eq_None_iff)

lemma storeMetrics_eq:
  assumes "\<forall>m\<in>set ms. m_value m \<noteq> NaN"
  shows "storeMetrics host ver ms db =
     (let new = news (metricKey host) (keysOf (metricRows db)) ms
      in Inr (new, length ms - length new,
              db\<lparr>metricRows := metricRows db @ map (metricRow host ver) new,
                 metricLatest := fold (\<lambda>m. keepLatest (fst (metricKey host m)) (snd (metricKey host m)) (m_value m)) new (metricLatest db)\<rparr>))"
  using assms
proof (induction ms arbitrary: db)
  case (Cons m ms)
  show ?case
  proof (cases "metricKey host m \<in> keysOf (metricRows db)")
    case True
    then show ?thesis
      using Cons length_news [of "metricKey host" "keysOf (metricRows db)" ms]
      by (simp add: insertIgnore_eq Let_def Suc_diff_le)
  next
    case False
    then show ?thesis using Cons by (simp add: insertIgnore_eq Let_def metricRow_def)
  qed
qed simp

lemma storeChecks_eq:
  assumes "\<forall>c\<in>set cs. k_status c \<in> {''ok'', ''warn'', ''critical''}"
  shows "storeChecks host ver cs db =
     (let new = news (checkKey host) (keysOf (checkRows db)) cs
      in Inr (new, length cs - length new,
              db\<lparr>checkRows := checkRows db @ map (checkRow host ver) new,
                 checkLatest := fold (\<lambda>c. keepLatest (fst (checkKey host c)) (snd (checkKey host c)) (k_status c, k_meta c)) new (checkLatest db)\<rparr>))"
  using assms
proof (induction cs arbitrary: db)
  case (Cons c cs)
  then have ok: "\<not> k_status c \<notin> {''ok'', ''warn'', ''critical''}" by simp
  show ?case
  proof (cases "checkKey host c \<in> keysOf (checkRows db)")
    case True
    then show ?thesis
      using Cons length_news [of "checkKey host" "keysOf (checkRows db)" cs]
      by (simp add: insertIgnore_eq Let_def Suc_diff_le if_not_P [OF ok] del: insert_iff)
  next
    case False
    then show ?thesis using Cons by (simp add: insertIgnore_eq Let_def checkRow_def if_not_P [OF ok] del: insert_iff)
  qed
qed simp

lemma storeEvents_eq:
  assumes "\<forall>e\<in>set es. e_level e \<in> {''info'', ''warn'', ''error'', ''critical''}"
  shows "storeEvents host ver es db =
     (let new = news (eventKey host) (keysOf (eventRows db)) es
      in Inr (new, length es - length new, db\<lparr>eventRows := eventRows db @ map (eventRow host ver) new\<rparr>))"
  using assms
proof (induction es arbitrary: db)
  case (Cons e es)
  then have ok: "\<not> e_level e \<notin> {''info'', ''warn'', ''error'', ''critical''}" by simp
  show ?case
  proof (cases "eventKey host e \<in> keysOf (eventRows db)")
    case True
    then show ?thesis
      using Cons length_news [of "eventKey host" "keysOf (eventRows db)" es]
      by (simp add: insertIgnore_eq Let_def Suc_diff_le if_not_P [OF ok] del: insert_iff)
  next
    case False
    then show ?thesis using Cons by (simp add: insertIgnore_eq Let_def eventRow_def if_not_P [OF ok] del: insert_iff)
  qed
qed simp

subsection \<open>The whole transaction\<close>

text \<open>What every normalized batch satisfies, and all the store needs of it.\<close>

definition storable :: "batch \<Rightarrow> bool" where
  "storable b \<longleftrightarrow> (\<forall>m\<in>set (metrics b). m_value m \<noteq> NaN) \<and>
     (\<forall>c\<in>set (checks b). k_status c \<in> {''ok'', ''warn'', ''critical''}) \<and>
     (\<forall>e\<in>set (events b). e_level e \<in> {''info'', ''warn'', ''error'', ''critical''})"

lemma normalForm_storable: "admissible validJson canonObject now b \<Longrightarrow> storable (normalForm canonObject b)"
  by (auto simp: admissible_def storable_def normalForm_def list_all_iff okMetric_def okCheck_def okEvent_def)

text \<open>The records of a batch that are new to the tables, and the tables with them.\<close>

definition newRecords :: "string \<Rightarrow> batch \<Rightarrow> tdb \<Rightarrow> batch" where
  "newRecords host b db =
     \<lparr>schemaVersion = schemaVersion b,
      metrics = news (metricKey host) (keysOf (metricRows db)) (metrics b),
      checks = news (checkKey host) (keysOf (checkRows db)) (checks b),
      events = news (eventKey host) (keysOf (eventRows db)) (events b), documents = []\<rparr>"

definition withBatch :: "string \<Rightarrow> string \<Rightarrow> time \<Rightarrow> batch \<Rightarrow> tdb \<Rightarrow> tdb" where
  "withBatch host key t b db =
     (let new = newRecords host b db; ver = schemaVersion b
      in touchHost host (unixMilli t) (storeDocuments host (unixMilli t) (documents b)
           (db\<lparr>batches := batches db @ [((host, key), (unixMilli t, batchLen b))],
               metricRows := metricRows db @ map (metricRow host ver) (metrics new),
               metricLatest := fold (\<lambda>m. keepLatest (fst (metricKey host m)) (snd (metricKey host m)) (m_value m)) (metrics new) (metricLatest db),
               checkRows := checkRows db @ map (checkRow host ver) (checks new),
               checkLatest := fold (\<lambda>c. keepLatest (fst (checkKey host c)) (snd (checkKey host c)) (k_status c, k_meta c)) (checks new) (checkLatest db),
               eventRows := eventRows db @ map (eventRow host ver) (events new)\<rparr>)))"

lemma storeBatch_eq:
  assumes "storable b" and "(host, key) \<notin> keysOf (batches db)"
  shows "storeBatch host key t b db =
     (let new = newRecords host b db
      in Inr (\<lparr>Replayed = False, Accepted = new,
               Duplicates = (length (metrics b) - length (metrics new), length (checks b) - length (checks new),
                             length (events b) - length (events new))\<rparr>,
              withBatch host key t b db))"
proof -
  have m: "\<forall>m\<in>set (metrics b). m_value m \<noteq> NaN" and c: "\<forall>c\<in>set (checks b). k_status c \<in> {''ok'', ''warn'', ''critical''}"
    and e: "\<forall>e\<in>set (events b). e_level e \<in> {''info'', ''warn'', ''error'', ''critical''}"
    using assms(1) by (simp_all add: storable_def)
  show ?thesis
    using assms(2)
    by (simp add: storeBatch_def storeMetrics_eq [OF m] storeChecks_eq [OF c] storeEvents_eq [OF e] insertIgnore_eq Let_def
        newRecords_def withBatch_def)
qed

lemma Store_eq:
  assumes "storable b"
  shows "Store None host key t b db =
     (if map_of (hosts db) host = None then (Inl (NotFound ''host not found''), db)
      else if (host, key) \<in> keysOf (batches db)
      then (Inr \<lparr>Replayed = True, Accepted = emptyBatch [], Duplicates = (0, 0, 0)\<rparr>, db)
      else let new = newRecords host b db
           in (Inr \<lparr>Replayed = False, Accepted = new,
                    Duplicates = (length (metrics b) - length (metrics new), length (checks b) - length (checks new),
                                  length (events b) - length (events new))\<rparr>,
               withBatch host key t b db))"
  using storeBatch_eq [OF assms] by (simp add: Store_def insertIgnore_fst Let_def)

lemma Store_error: "fst (Store fault host key t b db) = Inl e \<Longrightarrow> snd (Store fault host key t b db) = db"
  by (auto simp: Store_def split: option.splits if_splits sum.splits)

lemma withBatch_tables:
  "batches (withBatch host key t b db) = batches db @ [((host, key), (unixMilli t, batchLen b))]"
  "metricRows (withBatch host key t b db) = metricRows db @ map (metricRow host (schemaVersion b)) (metrics (newRecords host b db))"
  "checkRows (withBatch host key t b db) = checkRows db @ map (checkRow host (schemaVersion b)) (checks (newRecords host b db))"
  "eventRows (withBatch host key t b db) = eventRows db @ map (eventRow host (schemaVersion b)) (events (newRecords host b db))"
  "documentRows (withBatch host key t b db) = fold (\<lambda>d. AList.update (host, d_kind d) (unixMilli t, d_body d)) (documents b) (documentRows db)"
  by (simp_all add: withBatch_def Let_def touchHost_def storeDocuments_def)

lemma touchHost_lookup:
  "map_of (hosts (touchHost host t db)) h =
     map_option (\<lambda>r. if h = host then r\<lparr>h_lastSeen := Some t\<rparr> else r) (map_of (hosts db) h)"
proof -
  have "map_of (map (\<lambda>(i, h). (i, if i = host then h\<lparr>h_lastSeen := Some t\<rparr> else h)) m) h =
      map_option (\<lambda>r. if h = host then r\<lparr>h_lastSeen := Some t\<rparr> else r) (map_of m h)" for m
    by (induction m) auto
  then show ?thesis by (simp add: touchHost_def)
qed

lemma withBatch_hosts:
  "map_of (hosts (withBatch host key t b db)) h =
     map_option (\<lambda>r. if h = host then r\<lparr>h_lastSeen := Some (unixMilli t)\<rparr> else r) (map_of (hosts db) h)"
  by (simp add: withBatch_def Let_def touchHost_lookup storeDocuments_def)

subsection \<open>Retries\<close>

text \<open>A delivery attempt: the outcome of the database, the host, the key, the clock and the batch.\<close>

type_synonym attempt = "error option \<times> string \<times> string \<times> time \<times> batch"

fun deliver :: "attempt list \<Rightarrow> tdb \<Rightarrow> tdb" where
  "deliver [] db = db"
| "deliver ((fault, host, key, t, b) # as) db = deliver as (snd (Store fault host key t b db))"

text \<open>The attempts that count: of each host and key the first one that does not fail.\<close>

fun firsts :: "(string \<times> string) set \<Rightarrow> attempt list \<Rightarrow> attempt list" where
  "firsts seen [] = []"
| "firsts seen ((fault, host, key, t, b) # as) =
     (if fault \<noteq> None \<or> (host, key) \<in> seen then firsts seen as
      else (fault, host, key, t, b) # firsts (insert (host, key) seen) as)"

lemma Store_hosts:
  "storable b \<Longrightarrow> map_of (hosts (snd (Store fault host key t b db))) h = None \<longleftrightarrow> map_of (hosts db) h = None"
  by (cases fault) (simp_all add: Store_eq Let_def withBatch_hosts, simp add: Store_def)

lemma deliver_firsts:
  assumes "\<forall>(f, h, k, t, b)\<in>set as. storable b \<and> map_of (hosts db) h \<noteq> None"
    and "seen = keysOf (batches db)"
  shows "deliver as db = deliver (firsts seen as) db"
  using assms
proof (induction as arbitrary: db seen)
  case (Cons a as)
  obtain f h k t b where a: "a = (f, h, k, t, b)" by (metis prod.exhaust)
  let ?db = "snd (Store f h k t b db)"
  have ok: "storable b" "map_of (hosts db) h \<noteq> None" using Cons.prems(1) a by auto
  have next_ok: "\<forall>(f', h', k', t', b')\<in>set as. storable b' \<and> map_of (hosts ?db) h' \<noteq> None"
    using Cons.prems(1) Store_hosts [OF ok(1), of f h k t db] by auto
  show ?case
  proof (cases "f \<noteq> None \<or> (h, k) \<in> seen")
    case True
    then have "?db = db" using ok Cons.prems(2) by (cases f) (simp_all add: Store_eq, simp add: Store_def)
    then show ?thesis using True Cons a by simp
  next
    case False
    then have "insert (h, k) seen = keysOf (batches ?db)"
      using ok Cons.prems(2) by (auto simp: Store_eq Let_def withBatch_tables)
    then show ?thesis using False a Cons.IH [OF next_ok] by simp
  qed
qed simp

subsection \<open>Newest rows\<close>

text \<open>A table of newest rows is right for a table of rows: each series of the rows has its newest
  row there, and there is nothing else.\<close>

definition latestOk :: "('w \<Rightarrow> 'v) \<Rightarrow> (('s \<times> int) \<times> 'w) list \<Rightarrow> ('s \<times> (int \<times> 'v)) list \<Rightarrow> bool" where
  "latestOk proj rows latest \<longleftrightarrow>
     (\<forall>s. case map_of latest s of
            None \<Rightarrow> \<forall>ts. map_of rows (s, ts) = None
          | Some (ts, v) \<Rightarrow>
              (\<exists>w. map_of rows (s, ts) = Some w \<and> v = proj w) \<and> (\<forall>ts'. map_of rows (s, ts') \<noteq> None \<longrightarrow> ts' \<le> ts))"

lemma latestOk_insert:
  assumes "latestOk proj rows latest" and "(s, ts) \<notin> keysOf rows"
  shows "latestOk proj (rows @ [((s, ts), w)]) (keepLatest s ts (proj w) latest)"
proof -
  have new: "map_of rows (s, ts) = None" using assms(2) by (simp add: map_of_eq_None_iff)
  have rows': "map_of (rows @ [((s, ts), w)]) k = (if k = (s, ts) then Some w else map_of rows k)" for k
    using new by (simp add: map_add_def split: option.splits)
  have at: "case map_of latest s' of
            None \<Rightarrow> \<forall>ts. map_of rows (s', ts) = None
          | Some (ts, v) \<Rightarrow>
              (\<exists>w. map_of rows (s', ts) = Some w \<and> v = proj w) \<and> (\<forall>ts'. map_of rows (s', ts') \<noteq> None \<longrightarrow> ts' \<le> ts)" for s'
    using assms(1) by (simp add: latestOk_def)
  show ?thesis
    unfolding latestOk_def rows'
  proof
    fix s'
    show "case map_of (keepLatest s ts (proj w) latest) s' of
        None \<Rightarrow> \<forall>ts'. (if (s', ts') = (s, ts) then Some w else map_of rows (s', ts')) = None
      | Some (t, v) \<Rightarrow>
          (\<exists>w'. (if (s', t) = (s, ts) then Some w else map_of rows (s', t)) = Some w' \<and> v = proj w') \<and>
          (\<forall>ts'. (if (s', ts') = (s, ts) then Some w else map_of rows (s', ts')) \<noteq> None \<longrightarrow> ts' \<le> t)"
    proof (cases "s' = s")
      case False
      then have "map_of (keepLatest s ts (proj w) latest) s' = map_of latest s'"
        by (simp add: keepLatest_def table_simps split: option.splits)
      then show ?thesis using at [of s'] False by (cases "map_of latest s'") auto
    next
      case True
      show ?thesis
        using at [of s] new True
        by (auto simp: keepLatest_def table_simps split: option.splits if_splits)
    qed
  qed
qed

lemma latestOk_fold:
  assumes "latestOk proj rows latest" and "distinct (map key xs)" and "key ` set xs \<inter> keysOf rows = {}"
  shows "latestOk proj (rows @ map (\<lambda>x. (key x, row x)) xs)
     (fold (\<lambda>x. keepLatest (fst (key x)) (snd (key x)) (proj (row x))) xs latest)"
  using assms
proof (induction xs arbitrary: rows latest)
  case (Cons x xs)
  have "latestOk proj (rows @ [(key x, row x)]) (keepLatest (fst (key x)) (snd (key x)) (proj (row x)) latest)"
    using latestOk_insert [OF Cons.prems(1), of "fst (key x)" "snd (key x)" "row x"] Cons.prems(3) by simp
  then show ?case using Cons.IH [of "rows @ [(key x, row x)]"] Cons.prems(2,3) by auto
qed simp

lemma latestOk_news:
  assumes "latestOk proj rows latest"
  shows "latestOk proj (rows @ map (\<lambda>x. (key x, row x)) (news key (keysOf rows) xs))
     (fold (\<lambda>x. keepLatest (fst (key x)) (snd (key x)) (proj (row x))) (news key (keysOf rows) xs) latest)"
  using assms distinct_news by (rule latestOk_fold) (auto simp: keys_news)

text \<open>What the tables keep after every operation: primary keys are unique and the newest-row tables
  are right.\<close>

definition tdb_inv :: "tdb \<Rightarrow> bool" where
  "tdb_inv db \<longleftrightarrow> wf_table (hosts db) \<and> wf_table (metricRows db) \<and> wf_table (checkRows db) \<and> wf_table (eventRows db) \<and>
     wf_table (batches db) \<and> latestOk fst (metricRows db) (metricLatest db) \<and>
     latestOk (\<lambda>(st, meta, ver). (st, meta)) (checkRows db) (checkLatest db)"

lemma wf_append_news:
  "wf_table t \<Longrightarrow> (\<And>x. fst (row x) = key x) \<Longrightarrow> wf_table (t @ map row (news key (keysOf t) xs))"
  using distinct_news [of key "keysOf t" xs] keys_news [of key "keysOf t" xs]
  by (auto simp: comp_def)

lemma withBatch_inv:
  assumes "tdb_inv db" and "(host, key) \<notin> keysOf (batches db)"
  shows "tdb_inv (withBatch host key t b db)"
proof -
  let ?db = "withBatch host key t b db" and ?new = "newRecords host b db"
  have latest: "metricLatest ?db = fold (\<lambda>m. keepLatest (fst (metricKey host m)) (snd (metricKey host m)) (m_value m)) (metrics ?new) (metricLatest db)"
    "checkLatest ?db = fold (\<lambda>c. keepLatest (fst (checkKey host c)) (snd (checkKey host c)) (k_status c, k_meta c)) (checks ?new) (checkLatest db)"
    "map fst (hosts ?db) = map fst (hosts db)"
    by (auto simp: withBatch_def Let_def touchHost_def storeDocuments_def)
  have "latestOk fst (metricRows ?db) (metricLatest ?db)"
    using assms(1) latestOk_news [of fst "metricRows db" "metricLatest db" "metricKey host" "\<lambda>m. (m_value m, schemaVersion b)" "metrics b"]
    unfolding latest withBatch_tables by (simp add: tdb_inv_def newRecords_def metricRow_def [abs_def])
  moreover have "latestOk (\<lambda>(st, meta, ver). (st, meta)) (checkRows ?db) (checkLatest ?db)"
    using assms(1) latestOk_news [of "\<lambda>(st, meta, ver). (st, meta)" "checkRows db" "checkLatest db" "checkKey host"
        "\<lambda>c. (k_status c, k_meta c, schemaVersion b)" "checks b"]
    unfolding latest withBatch_tables by (simp add: tdb_inv_def newRecords_def checkRow_def [abs_def])
  moreover have "wf_table (metricRows ?db)" "wf_table (checkRows ?db)" "wf_table (eventRows ?db)"
    using assms(1) unfolding withBatch_tables newRecords_def batch.simps tdb_inv_def
    by (intro wf_append_news; simp add: metricRow_def checkRow_def eventRow_def)+
  moreover have "wf_table (batches ?db)" using assms by (simp add: withBatch_tables tdb_inv_def)
  ultimately show ?thesis using assms(1) latest(3) by (simp add: tdb_inv_def)
qed

lemma Store_inv: "tdb_inv db \<Longrightarrow> storable b \<Longrightarrow> tdb_inv (snd (Store fault host key t b db))"
  by (cases fault) (simp_all add: Store_eq Let_def withBatch_inv, simp add: Store_def)

lemma CreateHost_inv: "tdb_inv db \<Longrightarrow> tdb_inv (snd (CreateHost fault rnd name now db))"
  by (auto simp: CreateHost_def Let_def tdb_inv_def map_of_eq_None_iff split: option.splits)

lemma fold_documents_lookup:
  "distinct (map d_kind ds) \<Longrightarrow>
   map_of (fold (\<lambda>d. AList.update (host, d_kind d) (t, d_body d)) ds m) (h, k) =
     (if h = host \<and> k \<in> d_kind ` set ds then Some (t, d_body (the (find (\<lambda>d. d_kind d = k) ds))) else map_of m (h, k))"
proof (induction ds arbitrary: m)
  case (Cons d ds)
  then show ?case by (auto simp: table_simps)
qed simp

subsection \<open>Properties\<close>

text \<open>A batch under a new key for a known host is stored as a whole: accepted are
  exactly its records whose identity was not in the tables, each once, the others are counted as
  duplicates and the stored row wins; the documents replace the host's previous ones of their
  kind; no row of another host or an earlier batch changes.\<close>

lemma Store_new_batch:
  assumes "map_of (hosts db) host \<noteq> None" and "(host, key) \<notin> keysOf (batches db)"
    and "storable b" and "distinct (map d_kind (documents b))"
  shows "\<exists>r db'. Store None host key t b db = (Inr r, db') \<and> \<not> Replayed r \<and>
     metrics (Accepted r) = news (metricKey host) (keysOf (metricRows db)) (metrics b) \<and>
     checks (Accepted r) = news (checkKey host) (keysOf (checkRows db)) (checks b) \<and>
     events (Accepted r) = news (eventKey host) (keysOf (eventRows db)) (events b) \<and>
     Duplicates r = (length (metrics b) - length (metrics (Accepted r)), length (checks b) - length (checks (Accepted r)),
                     length (events b) - length (events (Accepted r))) \<and>
     metricRows db' = metricRows db @ map (metricRow host (schemaVersion b)) (metrics (Accepted r)) \<and>
     checkRows db' = checkRows db @ map (checkRow host (schemaVersion b)) (checks (Accepted r)) \<and>
     eventRows db' = eventRows db @ map (eventRow host (schemaVersion b)) (events (Accepted r)) \<and>
     batches db' = batches db @ [((host, key), (unixMilli t, batchLen b))] \<and>
     (\<forall>h k. map_of (documentRows db') (h, k) =
        (if h = host \<and> k \<in> d_kind ` set (documents b)
         then Some (unixMilli t, d_body (the (find (\<lambda>d. d_kind d = k) (documents b)))) else map_of (documentRows db) (h, k)))"
proof -
  let ?new = "newRecords host b db"
  let ?r = "\<lparr>Replayed = False, Accepted = ?new,
      Duplicates = (length (metrics b) - length (metrics ?new), length (checks b) - length (checks ?new),
                    length (events b) - length (events ?new))\<rparr>"
  have "Store None host key t b db = (Inr ?r, withBatch host key t b db)"
    using assms(1-3) by (simp add: Store_eq Let_def)
  then show ?thesis
    by (intro exI [of _ ?r] exI [of _ "withBatch host key t b db"])
       (simp add: withBatch_tables fold_documents_lookup [OF assms(4)], simp add: newRecords_def)
qed

definition demoDb :: tdb where
  "demoDb = \<lparr>hosts = [(''h1'', \<lparr>h_name = ''web'', h_created = 0, h_lastSeen = None\<rparr>)], metricRows = [], checkRows = [],
     eventRows = [], batches = [], documentRows = [], metricLatest = [], checkLatest = [], rollups = [],
     rolledThrough = None, enrollments = [], peers = []\<rparr>"

definition demoMetric :: "string \<Rightarrow> time \<Rightarrow> rat \<Rightarrow> metric" where
  "demoMetric name ts v = \<lparr>m_name = name, m_ts = ts, m_value = Fin v, m_labels = []\<rparr>"

definition demoBatch :: batch where
  "demoBatch = (emptyBatch ''1.0'')\<lparr>metrics := [demoMetric ''cpu'' second 1, demoMetric ''mem'' second 0, demoMetric ''cpu'' second 2]\<rparr>"

lemmas demo_store = demoDb_def demoMetric_def demoBatch_def emptyBatch_def storable_def metricKey_def CanonicalLabels_def time_simps

lemma Store_new_batch_witness:
  "\<exists>r db'. Store None ''h1'' ''k'' 0 demoBatch demoDb = (Inr r, db') \<and>
     metrics (Accepted r) = [demoMetric ''cpu'' second 1, demoMetric ''mem'' second 0] \<and> Duplicates r = (1, 0, 0)"
proof -
  have "metrics demoBatch = [demoMetric ''cpu'' second 1, demoMetric ''mem'' second 0, demoMetric ''cpu'' second 2]"
    "checks demoBatch = []" "events demoBatch = []" by (simp_all add: demoBatch_def emptyBatch_def)
  then have "news (metricKey ''h1'') (keysOf (metricRows demoDb)) (metrics demoBatch) = [demoMetric ''cpu'' second 1, demoMetric ''mem'' second 0]"
    "length (metrics demoBatch) = 3"
    by (simp_all add: demo_store)
  then show ?thesis
    using Store_new_batch [of demoDb "''h1''" "''k''" demoBatch 0]
    by (auto simp: demoDb_def demoBatch_def demoMetric_def emptyBatch_def storable_def)
qed

text \<open>C3 (safety). Retrying is harmless: any sequence of delivery attempts, with failures and repeats in
  any order, leaves the tables exactly as the first successful attempt of each host and key
  alone would.\<close>

theorem deliver_exactly_once:
  assumes "\<forall>(f, h, k, t, b)\<in>set as. storable b \<and> map_of (hosts db) h \<noteq> None"
  shows "deliver as db = deliver (firsts (keysOf (batches db)) as) db"
  using deliver_firsts [OF assms refl] .

theorem deliver_exactly_once_witness:
  "deliver [(Some (OtherError ''locked''), ''h1'', ''k'', 0, demoBatch), (None, ''h1'', ''k'', 1, demoBatch),
            (None, ''h1'', ''k'', 2, demoBatch)] demoDb
   = deliver [(None, ''h1'', ''k'', 1, demoBatch)] demoDb"
  using deliver_exactly_once [of "[(Some (OtherError ''locked''), ''h1'', ''k'', 0, demoBatch), (None, ''h1'', ''k'', 1, demoBatch),
            (None, ''h1'', ''k'', 2, demoBatch)]" demoDb]
  by (simp add: demo_store del: deliver.simps)

end
