(* ===== verification/Maintenance.thy ===== *)
theory Maintenance
  imports Telemetry_Store
begin

section \<open>Rollup and retention (maintenance.go of telemetry/application and telemetry/infrastructure)\<close>

text \<open>
  The hourly aggregation of raw metrics and the purge of old rows, on the tables \<open>tdb\<close>. Each SQL
  statement of the source is one function; a purge statement deletes at most \<open>limit\<close> rows, row by row
  with the delete triggers that keep the newest-row tables. Sums and extrema are over exact
  rationals. \<open>failAt\<close> is the number of statements of a call that run before one fails, if one does.
\<close>

definition rerollWindow :: duration where "rerollWindow = 24 * hour"
definition purgeBatch :: nat where "purgeBatch = 5000"

subsection \<open>The repository\<close>

definition RolledThrough :: "tdb \<Rightarrow> time option" where
  "RolledThrough db = map_option ofMilli (rolledThrough db)"

definition SetRolledThrough :: "time \<Rightarrow> tdb \<Rightarrow> tdb" where
  "SetRolledThrough t db = db\<lparr>rolledThrough := Some (unixMilli t)\<rparr>"

definition EarliestMetric :: "tdb \<Rightarrow> time option" where
  "EarliestMetric db =
     (if metricRows db = [] then None
      else Some (ofMilli (Min (set (map (\<lambda>r. snd (fst r)) (metricRows db))))))"

fun finValue :: "float64 \<Rightarrow> rat" where
  "finValue (Fin q) = q"
| "finValue _ = 0"

text \<open>The values of a series in the hour from \<open>start\<close> to \<open>stop\<close>, and their aggregate. Stored values are
  finite, since \<open>Normalize\<close> refuses the others.\<close>

definition hourValues :: "int \<Rightarrow> int \<Rightarrow> series \<Rightarrow> tdb \<Rightarrow> rat list" where
  "hourValues start stop s db =
     map (\<lambda>r. finValue (fst (snd r))) (filter (\<lambda>r. fst (fst r) = s \<and> start \<le> snd (fst r) \<and> snd (fst r) < stop) (metricRows db))"

definition aggregate :: "rat list \<Rightarrow> rollupRow" where
  "aggregate vs = \<lparr>ru_count = length vs, ru_min = Min (set vs), ru_max = Max (set vs), ru_sum = sum_list vs\<rparr>"

definition hourSeries :: "int \<Rightarrow> int \<Rightarrow> tdb \<Rightarrow> series list" where
  "hourSeries start stop db =
     remdups (map (\<lambda>r. fst (fst r)) (filter (\<lambda>r. start \<le> snd (fst r) \<and> snd (fst r) < stop) (metricRows db)))"

definition RollupHour :: "time \<Rightarrow> tdb \<Rightarrow> tdb" where
  "RollupHour h db =
     (let start = truncateTo hour h; a = unixMilli start; b = unixMilli (start + hour)
      in db\<lparr>rollups := fold (\<lambda>s. AList.update (s, a) (aggregate (hourValues a b s db))) (hourSeries a b db) (rollups db)\<rparr>)"

text \<open>The delete trigger: when the newest row of a series goes, the newest of the remaining ones takes
  its place.\<close>

definition newer :: "'s \<Rightarrow> ('s \<times> int) \<times> 'w \<Rightarrow> (int \<times> 'w) option \<Rightarrow> (int \<times> 'w) option" where
  "newer s r best =
     (if fst (fst r) \<noteq> s then best
      else case best of
             None \<Rightarrow> Some (snd (fst r), snd r)
           | Some (t, _) \<Rightarrow> if t < snd (fst r) then Some (snd (fst r), snd r) else best)"

definition newest :: "'s \<Rightarrow> (('s \<times> int) \<times> 'w) list \<Rightarrow> (int \<times> 'w) option" where
  "newest s rows = foldr (newer s) rows None"

definition deleteRow ::
  "('w \<Rightarrow> 'v) \<Rightarrow> 's \<times> int \<Rightarrow> (('s \<times> int) \<times> 'w) list \<times> ('s \<times> (int \<times> 'v)) list \<Rightarrow>
   (('s \<times> int) \<times> 'w) list \<times> ('s \<times> (int \<times> 'v)) list" where
  "deleteRow proj k rl =
     (case rl of (rows, latest) \<Rightarrow>
        let rows' = AList.delete k rows
        in (rows',
            if map_option fst (map_of latest (fst k)) = Some (snd k) then
              (case newest (fst k) rows' of
                 None \<Rightarrow> AList.delete (fst k) latest
               | Some (ts, w) \<Rightarrow> AList.update (fst k) (ts, proj w) (AList.delete (fst k) latest))
            else latest))"

definition victims :: "('k \<Rightarrow> 'v \<Rightarrow> int) \<Rightarrow> int \<Rightarrow> nat \<Rightarrow> ('k \<times> 'v) list \<Rightarrow> 'k list" where
  "victims ts before limit rows = take limit (map fst (filter (\<lambda>r. ts (fst r) (snd r) < before) rows))"

definition purgeMetrics :: "int \<Rightarrow> nat \<Rightarrow> tdb \<Rightarrow> nat \<times> tdb" where
  "purgeMetrics before limit db =
     (let vs = victims (\<lambda>k _. snd k) before limit (metricRows db);
          (rows, latest) = fold (deleteRow fst) vs (metricRows db, metricLatest db)
      in (length vs, db\<lparr>metricRows := rows, metricLatest := latest\<rparr>))"

definition purgeChecks :: "int \<Rightarrow> nat \<Rightarrow> tdb \<Rightarrow> nat \<times> tdb" where
  "purgeChecks before limit db =
     (let vs = victims (\<lambda>k _. snd k) before limit (checkRows db);
          (rows, latest) = fold (deleteRow (\<lambda>(st, meta, ver). (st, meta))) vs (checkRows db, checkLatest db)
      in (length vs, db\<lparr>checkRows := rows, checkLatest := latest\<rparr>))"

definition purgeEvents :: "int \<Rightarrow> nat \<Rightarrow> tdb \<Rightarrow> nat \<times> tdb" where
  "purgeEvents before limit db =
     (let vs = victims (\<lambda>k _. fst (snd k)) before limit (eventRows db)
      in (length vs, db\<lparr>eventRows := fold AList.delete vs (eventRows db)\<rparr>))"

definition purgeBatches :: "int \<Rightarrow> nat \<Rightarrow> tdb \<Rightarrow> nat \<times> tdb" where
  "purgeBatches before limit db =
     (let vs = victims (\<lambda>_ v. fst v) before limit (batches db)
      in (length vs, db\<lparr>batches := fold AList.delete vs (batches db)\<rparr>))"

definition purgeRawStatements :: "int \<Rightarrow> nat \<Rightarrow> (tdb \<Rightarrow> nat \<times> tdb) list" where
  "purgeRawStatements before limit =
     [purgeMetrics before limit, purgeChecks before limit, purgeEvents before limit, purgeBatches before limit]"

fun runStatements :: "(tdb \<Rightarrow> nat \<times> tdb) list \<Rightarrow> tdb \<Rightarrow> nat \<times> tdb" where
  "runStatements [] db = (0, db)"
| "runStatements (s # ss) db = (let (n, db1) = s db; (m, db2) = runStatements ss db1 in (n + m, db2))"

definition PurgeRaw :: "nat option \<Rightarrow> time \<Rightarrow> nat \<Rightarrow> tdb \<Rightarrow> nat result \<times> tdb" where
  "PurgeRaw failAt before limit db =
     (case failAt of
        Some j \<Rightarrow> (Inl (OtherError ''telemetry: purge raw''), snd (runStatements (take j (purgeRawStatements (unixMilli before) limit)) db))
      | None \<Rightarrow> (case runStatements (purgeRawStatements (unixMilli before) limit) db of (n, db') \<Rightarrow> (Inr n, db')))"

definition PurgeRollups :: "nat option \<Rightarrow> time \<Rightarrow> nat \<Rightarrow> tdb \<Rightarrow> nat result \<times> tdb" where
  "PurgeRollups failAt before limit db =
     (case failAt of
        Some _ \<Rightarrow> (Inl (OtherError ''telemetry: purge rollups''), db)
      | None \<Rightarrow>
          let vs = victims (\<lambda>k _. snd k) (unixMilli before) limit (rollups db)
          in (Inr (length vs), db\<lparr>rollups := fold AList.delete vs (rollups db)\<rparr>))"

subsection \<open>The jobs\<close>

text \<open>The hours from \<open>from\<close> up to, not including, \<open>current\<close>; \<open>stop\<close> hours are processed before the
  context is cancelled or a statement fails.\<close>

definition hoursFrom :: "time \<Rightarrow> time \<Rightarrow> time list" where
  "hoursFrom from current = map (\<lambda>i. from + int i * hour) [0..<nat (- ((from - current) div hour))]"

definition rollupFrom :: "time \<Rightarrow> time option \<Rightarrow> time" where
  "rollupFrom earliest through =
     (let from = truncateTo hour earliest
      in case through of
           None \<Rightarrow> from
         | Some t \<Rightarrow> if from < t - rerollWindow then t - rerollWindow else from)"

definition rolledHours :: "time \<Rightarrow> tdb \<Rightarrow> time list" where
  "rolledHours now db =
     (case EarliestMetric db of
        None \<Rightarrow> []
      | Some earliest \<Rightarrow> hoursFrom (rollupFrom earliest (RolledThrough db)) (truncateTo hour now))"

definition Rollup :: "nat option \<Rightarrow> time \<Rightarrow> tdb \<Rightarrow> unit result \<times> tdb" where
  "Rollup failAt now db =
     (let current = truncateTo hour now
      in case failAt of
           Some j \<Rightarrow> (Inl (OtherError ''telemetry: rollup hour''), fold RollupHour (take j (rolledHours now db)) db)
         | None \<Rightarrow>
             let db' = fold RollupHour (rolledHours now db) db
             in (case RolledThrough db of
                   Some t \<Rightarrow> if \<not> t < current then (Inr (), db') else (Inr (), SetRolledThrough current db')
                 | None \<Rightarrow> (Inr (), SetRolledThrough current db')))"

definition rawCutoff :: "time \<Rightarrow> duration \<Rightarrow> time \<Rightarrow> time" where
  "rawCutoff now rawTTL through =
     (if through - rerollWindow < now - rawTTL then through - rerollWindow else now - rawTTL)"

subsection \<open>Purge statements only delete old rows\<close>

lemma fst_deleteRow: "fst (deleteRow proj k rl) = AList.delete k (fst rl)"
  by (simp add: deleteRow_def Let_def split: prod.splits)

lemma fst_fold_deleteRow: "fst (fold (deleteRow proj) vs rl) = fold AList.delete vs (fst rl)"
  by (induction vs arbitrary: rl) (simp_all add: fst_deleteRow)

lemma fold_delete_filter: "fold AList.delete vs t = filter (\<lambda>r. fst r \<notin> set vs) t"
proof (induction vs arbitrary: t)
  case (Cons v vs)
  have "AList.delete v t = filter (\<lambda>r. fst r \<noteq> v) t" for t :: "('a \<times> 'b) list" by (induction t) auto
  then show ?case using Cons by (simp add: conj_commute)
qed (simp add: filter_id_conv)

lemma length_fold_delete_less:
  "vs \<noteq> [] \<Longrightarrow> set vs \<subseteq> fst ` set t \<Longrightarrow> length (fold AList.delete vs t) < length t"
  unfolding fold_delete_filter by (cases vs) (auto intro!: length_filter_less)

lemma set_victims: "set (victims ts before limit rows) \<subseteq> fst ` {r \<in> set rows. ts (fst r) (snd r) < before}"
  unfolding victims_def using set_take_subset by fastforce

lemma victims_Nil: "0 < limit \<Longrightarrow> victims ts before limit rows = [] \<longleftrightarrow> (\<forall>r\<in>set rows. \<not> ts (fst r) (snd r) < before)"
  by (auto simp: victims_def filter_empty_conv)

definition rawSize :: "tdb \<Rightarrow> nat" where
  "rawSize db = length (metricRows db) + length (checkRows db) + length (eventRows db) + length (batches db)"

lemma purge_tables:
  "metricRows (snd (purgeMetrics b l db)) = fold AList.delete (victims (\<lambda>k _. snd k) b l (metricRows db)) (metricRows db)"
  "checkRows (snd (purgeChecks b l db)) = fold AList.delete (victims (\<lambda>k _. snd k) b l (checkRows db)) (checkRows db)"
  "fst (purgeMetrics b l db) = length (victims (\<lambda>k _. snd k) b l (metricRows db))"
  "fst (purgeChecks b l db) = length (victims (\<lambda>k _. snd k) b l (checkRows db))"
  using fst_fold_deleteRow [of fst "victims (\<lambda>k _. snd k) b l (metricRows db)" "(metricRows db, metricLatest db)"]
    fst_fold_deleteRow [of "\<lambda>(st, meta, ver). (st, meta)" "victims (\<lambda>k _. snd k) b l (checkRows db)" "(checkRows db, checkLatest db)"]
  by (simp_all add: purgeMetrics_def purgeChecks_def Let_def split_def)

lemma purge_other_tables:
  "checkRows (snd (purgeMetrics b l db)) = checkRows db" "eventRows (snd (purgeMetrics b l db)) = eventRows db"
  "batches (snd (purgeMetrics b l db)) = batches db" "rolledThrough (snd (purgeMetrics b l db)) = rolledThrough db"
  "rollups (snd (purgeMetrics b l db)) = rollups db" "hosts (snd (purgeMetrics b l db)) = hosts db"
  "checkLatest (snd (purgeMetrics b l db)) = checkLatest db"
  "metricRows (snd (purgeChecks b l db)) = metricRows db" "eventRows (snd (purgeChecks b l db)) = eventRows db"
  "batches (snd (purgeChecks b l db)) = batches db" "rolledThrough (snd (purgeChecks b l db)) = rolledThrough db"
  "rollups (snd (purgeChecks b l db)) = rollups db" "hosts (snd (purgeChecks b l db)) = hosts db"
  "metricLatest (snd (purgeChecks b l db)) = metricLatest db"
  by (simp_all add: purgeMetrics_def purgeChecks_def Let_def split_def)

lemma rawSize_victims:
  assumes "vs = victims ts b l rows"
  shows "length (fold AList.delete vs rows) \<le> length rows" and "0 < length vs \<Longrightarrow> length (fold AList.delete vs rows) < length rows"
proof -
  show "length (fold AList.delete vs rows) \<le> length rows" by (simp add: fold_delete_filter)
  show "0 < length vs \<Longrightarrow> length (fold AList.delete vs rows) < length rows"
    using set_victims [of ts b l rows] assms by (intro length_fold_delete_less) auto
qed

lemma purge_statement_size:
  assumes "st \<in> set (purgeRawStatements b l)"
  shows "rawSize (snd (st db)) \<le> rawSize db \<and> (0 < fst (st db) \<longrightarrow> rawSize (snd (st db)) < rawSize db)"
proof -
  have 1: "rawSize (snd (purgeMetrics b l db)) \<le> rawSize db \<and> (0 < fst (purgeMetrics b l db) \<longrightarrow> rawSize (snd (purgeMetrics b l db)) < rawSize db)"
    using rawSize_victims [OF refl, of "\<lambda>k _. snd k" b l "metricRows db"]
    by (simp add: rawSize_def purge_tables purge_other_tables)
  have 2: "rawSize (snd (purgeChecks b l db)) \<le> rawSize db \<and> (0 < fst (purgeChecks b l db) \<longrightarrow> rawSize (snd (purgeChecks b l db)) < rawSize db)"
    using rawSize_victims [OF refl, of "\<lambda>k _. snd k" b l "checkRows db"]
    by (simp add: rawSize_def purge_tables purge_other_tables)
  have 3: "rawSize (snd (purgeEvents b l db)) \<le> rawSize db \<and> (0 < fst (purgeEvents b l db) \<longrightarrow> rawSize (snd (purgeEvents b l db)) < rawSize db)"
    using rawSize_victims [OF refl, of "\<lambda>k _. fst (snd k)" b l "eventRows db"]
    by (simp add: rawSize_def purgeEvents_def Let_def)
  have 4: "rawSize (snd (purgeBatches b l db)) \<le> rawSize db \<and> (0 < fst (purgeBatches b l db) \<longrightarrow> rawSize (snd (purgeBatches b l db)) < rawSize db)"
    using rawSize_victims [OF refl, of "\<lambda>_ v. fst v" b l "batches db"]
    by (simp add: rawSize_def purgeBatches_def Let_def)
  show ?thesis using assms 1 2 3 4 by (auto simp: purgeRawStatements_def)
qed

lemma runStatements_size:
  "(\<And>st db. st \<in> set sts \<Longrightarrow> rawSize (snd (st db)) \<le> rawSize db \<and> (0 < fst (st db) \<longrightarrow> rawSize (snd (st db)) < rawSize db)) \<Longrightarrow>
   rawSize (snd (runStatements sts db)) \<le> rawSize db \<and>
   (0 < fst (runStatements sts db) \<longrightarrow> rawSize (snd (runStatements sts db)) < rawSize db)"
proof (induction sts arbitrary: db)
  case (Cons st sts)
  have "rawSize (snd (st db)) \<le> rawSize db \<and> (0 < fst (st db) \<longrightarrow> rawSize (snd (st db)) < rawSize db)"
    using Cons.prems by simp
  moreover have "rawSize (snd (runStatements sts (snd (st db)))) \<le> rawSize (snd (st db)) \<and>
      (0 < fst (runStatements sts (snd (st db))) \<longrightarrow> rawSize (snd (runStatements sts (snd (st db)))) < rawSize (snd (st db)))"
    using Cons by simp
  ultimately show ?case by (auto simp: split_def Let_def)
qed simp

lemma purgeRaw_size:
  "rawSize (snd (runStatements (purgeRawStatements b l) db)) \<le> rawSize db \<and>
   (0 < fst (runStatements (purgeRawStatements b l) db) \<longrightarrow> rawSize (snd (runStatements (purgeRawStatements b l) db)) < rawSize db)"
  by (rule runStatements_size) (rule purge_statement_size)

subsection \<open>The delete triggers keep the newest rows\<close>

lemma newest_None: "newest s rows = None \<longleftrightarrow> (\<forall>ts. (s, ts) \<notin> fst ` set rows)"
proof (induction rows)
  case (Cons r rows)
  obtain s' t' w where r: "r = ((s', t'), w)" by (metis prod.exhaust)
  show ?case
    using Cons by (auto simp: newest_def newer_def r split: option.splits)
qed (simp add: newest_def)

lemma newest_Some: "newest s rows = Some (ts, w) \<Longrightarrow> ((s, ts), w) \<in> set rows \<and> (\<forall>ts'. (s, ts') \<in> fst ` set rows \<longrightarrow> ts' \<le> ts)"
proof (induction rows arbitrary: ts w)
  case (Cons r rows)
  obtain s' t' w' where r: "r = ((s', t'), w')" by (metis prod.exhaust)
  have n: "newest s (r # rows) = newer s r (newest s rows)" by (simp add: newest_def)
  show ?case
  proof (cases "s' = s \<and> (\<forall>t v. newest s rows = Some (t, v) \<longrightarrow> t < t')")
    case True
    then have eq: "ts = t'" "w = w'"
      using Cons.prems n by (auto simp: newer_def r split: option.splits)
    have "ts' \<le> t'" if "(s, ts') \<in> fst ` set rows" for ts'
    proof (cases "newest s rows")
      case None
      then show ?thesis using that newest_None by metis
    next
      case (Some b)
      then show ?thesis using Cons.IH [of "fst b" "snd b"] True that by (metis less_imp_le order_trans prod.collapse)
    qed
    then show ?thesis using eq True r by auto
  next
    case False
    then have "newest s rows = Some (ts, w) \<and> (s' = s \<longrightarrow> t' \<le> ts)"
      using Cons.prems n by (auto simp: newer_def r split: option.splits if_splits)
    then show ?thesis using Cons.IH [of ts w] r by auto
  qed
qed (simp add: newest_def)

lemma latestOk_delete:
  assumes "latestOk proj rows latest" and "wf_table rows" and "deleteRow proj k (rows, latest) = (rows', latest')"
  shows "latestOk proj rows' latest' \<and> wf_table rows'"
proof -
  obtain s ts where k: "k = (s, ts)" by fastforce
  have rows': "rows' = AList.delete k rows" using assms(3) by (simp add: deleteRow_def Let_def)
  have wf: "wf_table rows'" using assms(2) by (simp add: rows' distinct_delete)
  have lk: "map_of rows' x = (if x = k then None else map_of rows x)" for x by (simp add: rows' map_of_delete)
  have at: "case map_of latest s' of
      None \<Rightarrow> \<forall>ts. map_of rows (s', ts) = None
    | Some (ts, v) \<Rightarrow> (\<exists>w. map_of rows (s', ts) = Some w \<and> v = proj w) \<and> (\<forall>ts'. map_of rows (s', ts') \<noteq> None \<longrightarrow> ts' \<le> ts)" for s'
    using assms(1) by (simp add: latestOk_def)
  have "case map_of latest' s' of
      None \<Rightarrow> \<forall>ts. map_of rows' (s', ts) = None
    | Some (ts, v) \<Rightarrow> (\<exists>w. map_of rows' (s', ts) = Some w \<and> v = proj w) \<and> (\<forall>ts'. map_of rows' (s', ts') \<noteq> None \<longrightarrow> ts' \<le> ts)" for s'
  proof (cases "s' = s \<and> map_option fst (map_of latest s) = Some ts")
    case False
    then have "map_of latest' s' = map_of latest s'"
      using assms(3) k by (auto simp: deleteRow_def Let_def table_simps split: option.splits if_splits)
    then show ?thesis using at [of s'] False by (cases "map_of latest s'") (auto simp: lk k)
  next
    case True
    then have l': "map_of latest' s = map_option (\<lambda>(t, w). (t, proj w)) (newest s rows')"
      using assms(3) k rows' by (auto simp: deleteRow_def Let_def table_simps split: option.splits)
    show ?thesis
    proof (cases "newest s rows'")
      case None
      then have "map_of latest' s = None" "\<forall>ts. map_of rows' (s, ts) = None"
        using l' newest_None [of s rows'] by (simp_all add: map_of_eq_None_iff)
      then show ?thesis using True by simp
    next
      case (Some b)
      then have "((s, fst b), snd b) \<in> set rows' \<and> (\<forall>ts'. (s, ts') \<in> fst ` set rows' \<longrightarrow> ts' \<le> fst b)"
        using newest_Some [of s rows' "fst b" "snd b"] by simp
      then show ?thesis
        using l' True Some wf by (auto simp: map_of_eq_Some_iff split_def dest: map_of_SomeD) (force dest: map_of_SomeD)
    qed
  qed
  then show ?thesis using wf by (simp add: latestOk_def)
qed

lemma latestOk_fold_delete:
  "latestOk proj (fst rl) (snd rl) \<Longrightarrow> wf_table (fst rl) \<Longrightarrow>
   latestOk proj (fst (fold (deleteRow proj) vs rl)) (snd (fold (deleteRow proj) vs rl)) \<and> wf_table (fst (fold (deleteRow proj) vs rl))"
proof (induction vs arbitrary: rl)
  case (Cons v vs)
  then show ?case using latestOk_delete [of proj "fst rl" "snd rl" v "fst (deleteRow proj v rl)" "snd (deleteRow proj v rl)"] by simp
qed simp

subsection \<open>Draining\<close>

text \<open>\<^verbatim>\<open>drain\<close>: calls are repeated until one deletes nothing; \<open>fails i\<close> is the outcome of the i-th
  call.\<close>

function drainRaw :: "(nat \<Rightarrow> nat option) \<Rightarrow> nat \<Rightarrow> time \<Rightarrow> nat \<Rightarrow> tdb \<Rightarrow> unit result \<times> tdb" where
  "drainRaw fails i before limit db =
     (case PurgeRaw (fails i) before limit db of
        (Inl e, db') \<Rightarrow> (Inl e, db')
      | (Inr n, db') \<Rightarrow> if n = 0 then (Inr (), db') else drainRaw fails (Suc i) before limit db')"
  by pat_completeness auto
termination
proof (relation "measure (\<lambda>(f, i, b, l, db). rawSize db)", goal_cases)
  case (2 fails i before limit db r db' n)
  then show ?case
    using purgeRaw_size [of "unixMilli before" limit db]
    by (auto simp: PurgeRaw_def split: option.splits prod.splits)
qed simp

declare drainRaw.simps [simp del]

function drainRollups :: "(nat \<Rightarrow> nat option) \<Rightarrow> nat \<Rightarrow> time \<Rightarrow> nat \<Rightarrow> tdb \<Rightarrow> unit result \<times> tdb" where
  "drainRollups fails i before limit db =
     (case PurgeRollups (fails i) before limit db of
        (Inl e, db') \<Rightarrow> (Inl e, db')
      | (Inr n, db') \<Rightarrow> if n = 0 then (Inr (), db') else drainRollups fails (Suc i) before limit db')"
  by pat_completeness auto
termination
proof (relation "measure (\<lambda>(f, i, b, l, db). length (rollups db))", goal_cases)
  case (2 fails i before limit db r db' n)
  then show ?case
    using rawSize_victims [OF refl, of "\<lambda>k _. snd k" "unixMilli before" limit "rollups db"]
    by (auto simp: PurgeRollups_def Let_def split: option.splits)
qed simp

declare drainRollups.simps [simp del]

definition Purge :: "(nat \<Rightarrow> nat option) \<Rightarrow> (nat \<Rightarrow> nat option) \<Rightarrow> duration \<Rightarrow> duration \<Rightarrow> time \<Rightarrow> tdb \<Rightarrow> unit result \<times> tdb" where
  "Purge failsRaw failsRollups rawTTL rollupTTL now db =
     (let raw = (case RolledThrough db of
                   None \<Rightarrow> (Inr (), db)
                 | Some t \<Rightarrow> drainRaw failsRaw 0 (rawCutoff now rawTTL t) purgeBatch db)
      in case raw of
           (Inl e, db1) \<Rightarrow> (Inl e, db1)
         | (Inr _, db1) \<Rightarrow> drainRollups failsRollups 0 (truncateTo hour (now - rollupTTL)) purgeBatch db1)"

subsection \<open>What a purge leaves\<close>

text \<open>\<open>keeps b db db'\<close>: the raw tables lose rows older than \<open>b\<close> only, and nothing else changes but the
  newest-row tables.\<close>

definition keptRows :: "('k \<Rightarrow> 'v \<Rightarrow> int) \<Rightarrow> int \<Rightarrow> ('k \<times> 'v) list \<Rightarrow> ('k \<times> 'v) list" where
  "keptRows ts b rows = filter (\<lambda>r. \<not> ts (fst r) (snd r) < b) rows"

definition keeps :: "int \<Rightarrow> tdb \<Rightarrow> tdb \<Rightarrow> bool" where
  "keeps b db db' \<longleftrightarrow>
     keptRows (\<lambda>k _. snd k) b (metricRows db') = keptRows (\<lambda>k _. snd k) b (metricRows db) \<and>
     keptRows (\<lambda>k _. snd k) b (checkRows db') = keptRows (\<lambda>k _. snd k) b (checkRows db) \<and>
     keptRows (\<lambda>k _. fst (snd k)) b (eventRows db') = keptRows (\<lambda>k _. fst (snd k)) b (eventRows db) \<and>
     keptRows (\<lambda>_ v. fst v) b (batches db') = keptRows (\<lambda>_ v. fst v) b (batches db) \<and>
     set (metricRows db') \<subseteq> set (metricRows db) \<and>
     rollups db' = rollups db \<and> rolledThrough db' = rolledThrough db \<and> hosts db' = hosts db \<and> wf_table (batches db')"

lemma kept_fold_delete:
  assumes "wf_table rows"
  shows "keptRows ts b (fold AList.delete (victims ts b l rows) rows) = keptRows ts b rows"
proof -
  have "fst r \<notin> set (victims ts b l rows)" if "r \<in> set rows" "\<not> ts (fst r) (snd r) < b" for r
  proof
    assume "fst r \<in> set (victims ts b l rows)"
    then obtain r' where r': "r' \<in> set rows" "ts (fst r') (snd r') < b" "fst r' = fst r"
      using set_victims [of ts b l rows] by auto
    have "r' = r" using assms r'(1,3) that(1) by (metis distinct_map inj_onD)
    then show False using r'(2) that(2) by simp
  qed
  then show ?thesis
    by (auto simp: keptRows_def fold_delete_filter intro: filter_cong)
qed

lemma kept_fold_delete_key:
  "keptRows (\<lambda>k _. f k) b (fold AList.delete (victims (\<lambda>k _. f k) b l rows) rows) = keptRows (\<lambda>k _. f k) b rows"
proof -
  have "fst r \<notin> set (victims (\<lambda>k _. f k) b l rows)" if "\<not> f (fst r) < b" for r
    using set_victims [of "\<lambda>k _. f k" b l rows] that by auto
  then show ?thesis
    by (auto simp: keptRows_def fold_delete_filter intro: filter_cong)
qed

lemma keeps_refl: "wf_table (batches db) \<Longrightarrow> keeps b db db"
  by (simp add: keeps_def)

lemma keeps_trans: "keeps b db db' \<Longrightarrow> keeps b db' db'' \<Longrightarrow> keeps b db db''"
  by (auto simp: keeps_def)

lemma statement_keeps:
  assumes "st \<in> set (purgeRawStatements b l)" and "wf_table (batches db)"
  shows "keeps b db (snd (st db))"
proof -
  have 1: "keeps b db (snd (purgeMetrics b l db))"
    using assms(2) by (simp add: keeps_def purge_tables purge_other_tables kept_fold_delete_key) (simp add: fold_delete_filter)
  have 2: "keeps b db (snd (purgeChecks b l db))"
    using assms(2) by (simp add: keeps_def purge_tables purge_other_tables kept_fold_delete_key)
  have 3: "keeps b db (snd (purgeEvents b l db))"
    using assms(2) by (simp add: keeps_def purgeEvents_def Let_def kept_fold_delete_key)
  have 4: "keeps b db (snd (purgeBatches b l db))"
    using assms(2) kept_fold_delete [OF assms(2), of "\<lambda>_ v. fst v" b l]
    by (simp add: keeps_def purgeBatches_def Let_def fold_delete_filter distinct_map_filter)
  show ?thesis using assms(1) 1 2 3 4 by (auto simp: purgeRawStatements_def)
qed

lemma runStatements_keeps:
  "(\<And>st db. st \<in> set sts \<Longrightarrow> wf_table (batches db) \<Longrightarrow> keeps b db (snd (st db))) \<Longrightarrow> wf_table (batches db) \<Longrightarrow>
   keeps b db (snd (runStatements sts db))"
proof (induction sts arbitrary: db)
  case (Cons st sts)
  have 1: "keeps b db (snd (st db))" using Cons.prems by simp
  then have "wf_table (batches (snd (st db)))" by (simp add: keeps_def)
  then have "keeps b (snd (st db)) (snd (runStatements sts (snd (st db))))" using Cons by simp
  with 1 show ?case by (simp add: split_def Let_def keeps_trans)
qed (simp add: keeps_refl)

lemma PurgeRaw_keeps:
  assumes "wf_table (batches db)"
  shows "keeps (unixMilli before) db (snd (PurgeRaw failAt before l db))"
proof (cases failAt)
  case None
  have "keeps (unixMilli before) db (snd (runStatements (purgeRawStatements (unixMilli before) l) db))"
    using assms by (intro runStatements_keeps) (auto intro: statement_keeps)
  then show ?thesis using None by (simp add: PurgeRaw_def split_def)
next
  case (Some j)
  have "keeps (unixMilli before) db (snd (runStatements (take j (purgeRawStatements (unixMilli before) l)) db))"
    using assms by (intro runStatements_keeps) (auto dest: in_set_takeD intro: statement_keeps)
  then show ?thesis using Some by (simp add: PurgeRaw_def)
qed

text \<open>Nothing is older than \<open>b\<close>.\<close>

definition noneBefore :: "int \<Rightarrow> tdb \<Rightarrow> bool" where
  "noneBefore b db \<longleftrightarrow> (\<forall>r\<in>set (metricRows db). b \<le> snd (fst r)) \<and> (\<forall>r\<in>set (checkRows db). b \<le> snd (fst r)) \<and>
     (\<forall>r\<in>set (eventRows db). b \<le> fst (snd (fst r))) \<and> (\<forall>r\<in>set (batches db). b \<le> fst (snd r))"

lemma victims_zero: "0 < l \<Longrightarrow> length (victims ts b l rows) = 0 \<Longrightarrow> \<forall>r\<in>set rows. b \<le> ts (fst r) (snd r)"
  using victims_Nil [of l ts b rows] by auto

lemma PurgeRaw_zero:
  assumes "0 < l" and "PurgeRaw failAt before l db = (Inr 0, db')"
  shows "noneBefore (unixMilli before) db'"
proof -
  let ?b = "unixMilli before"
  have f: "failAt = None" using assms(2) by (cases failAt) (simp_all add: PurgeRaw_def)
  define d1 where "d1 = snd (purgeMetrics ?b l db)"
  define d2 where "d2 = snd (purgeChecks ?b l d1)"
  define d3 where "d3 = snd (purgeEvents ?b l d2)"
  have z: "fst (purgeMetrics ?b l db) = 0" "fst (purgeChecks ?b l d1) = 0" "fst (purgeEvents ?b l d2) = 0"
    "fst (purgeBatches ?b l d3) = 0" and db': "db' = snd (purgeBatches ?b l d3)"
    using assms(2) f by (simp_all add: PurgeRaw_def purgeRawStatements_def split_def Let_def d1_def d2_def d3_def)
  have m: "metricRows d1 = metricRows db" "\<forall>r\<in>set (metricRows db). ?b \<le> snd (fst r)"
    using z(1) victims_zero [OF assms(1), of "\<lambda>k _. snd k" ?b "metricRows db"] by (simp_all add: d1_def purge_tables)
  have c: "checkRows d2 = checkRows d1" "\<forall>r\<in>set (checkRows d1). ?b \<le> snd (fst r)" "metricRows d2 = metricRows d1"
    using z(2) victims_zero [OF assms(1), of "\<lambda>k _. snd k" ?b "checkRows d1"] by (simp_all add: d2_def purge_tables purge_other_tables)
  have e: "eventRows d3 = eventRows d2" "\<forall>r\<in>set (eventRows d2). ?b \<le> fst (snd (fst r))" "metricRows d3 = metricRows d2"
    "checkRows d3 = checkRows d2"
    using z(3) victims_zero [OF assms(1), of "\<lambda>k _. fst (snd k)" ?b "eventRows d2"] by (simp_all add: d3_def purgeEvents_def Let_def)
  have bt: "batches db' = batches d3" "\<forall>r\<in>set (batches d3). ?b \<le> fst (snd r)" "metricRows db' = metricRows d3"
    "checkRows db' = checkRows d3" "eventRows db' = eventRows d3"
    using z(4) victims_zero [OF assms(1), of "\<lambda>_ v. fst v" ?b "batches d3"] by (simp_all add: db' purgeBatches_def Let_def)
  show ?thesis using m c e bt by (simp add: noneBefore_def)
qed

lemma drainRaw_spec:
  "wf_table (batches db) \<Longrightarrow>
   keeps (unixMilli before) db (snd (drainRaw fails i before limit db)) \<and>
   (0 < limit \<and> fst (drainRaw fails i before limit db) = Inr () \<longrightarrow>
      noneBefore (unixMilli before) (snd (drainRaw fails i before limit db))) \<and>
   ((\<forall>j. fails j = None) \<longrightarrow> fst (drainRaw fails i before limit db) = Inr ())"
proof (induction fails i before limit db rule: drainRaw.induct)
  case (1 fails i before limit db)
  obtain r db' where p: "PurgeRaw (fails i) before limit db = (r, db')" by fastforce
  have k: "keeps (unixMilli before) db db'" using PurgeRaw_keeps [OF 1(2), of before "fails i" limit] p by simp
  then have wf: "wf_table (batches db')" by (simp add: keeps_def)
  consider (err) e where "r = Inl e" | (zero) "r = Inr 0" | (more) n where "r = Inr n" "n \<noteq> 0"
    by (cases r) auto
  then show ?case
  proof cases
    case err
    have "fails i \<noteq> None" using p err by (cases "fails i") (auto simp: PurgeRaw_def split: prod.splits)
    then show ?thesis using p err k by (auto simp: drainRaw.simps [of fails i])
  next
    case zero
    then have e: "drainRaw fails i before limit db = (Inr (), db')" using p by (simp add: drainRaw.simps [of fails i])
    show ?thesis unfolding e using p zero k PurgeRaw_zero [of limit "fails i" before db db'] by simp
  next
    case more
    then have e: "drainRaw fails i before limit db = drainRaw fails (Suc i) before limit db'"
      using p by (simp add: drainRaw.simps [of fails i])
    show ?thesis unfolding e using 1(1) [OF p [symmetric] more(1) more(2) wf] keeps_trans [OF k] by blast
  qed
qed

lemma drainRollups_spec:
  "(let db' = snd (drainRollups fails i before limit db); b = unixMilli before
    in keptRows (\<lambda>k _. snd k) b (rollups db') = keptRows (\<lambda>k _. snd k) b (rollups db) \<and>
       (\<exists>rs. db' = db\<lparr>rollups := rs\<rparr>) \<and>
       (0 < limit \<and> fst (drainRollups fails i before limit db) = Inr () \<longrightarrow> (\<forall>r\<in>set (rollups db'). b \<le> snd (fst r))) \<and>
       ((\<forall>j. fails j = None) \<longrightarrow> fst (drainRollups fails i before limit db) = Inr ()))"
proof (induction fails i before limit db rule: drainRollups.induct)
  case (1 fails i before limit db)
  let ?b = "unixMilli before" and ?vs = "victims (\<lambda>k _. snd k) (unixMilli before) limit (rollups db)"
  let ?db = "db\<lparr>rollups := fold AList.delete ?vs (rollups db)\<rparr>"
  have k: "keptRows (\<lambda>k _. snd k) ?b (rollups ?db) = keptRows (\<lambda>k _. snd k) ?b (rollups db)"
    by (simp add: kept_fold_delete_key)
  show ?case
  proof (cases "fails i")
    case (Some j)
    then show ?thesis
      by (auto simp: drainRollups.simps [of fails i] PurgeRollups_def Let_def intro: exI [of _ "rollups db"])
  next
    case None
    then have p: "PurgeRollups (fails i) before limit db = (Inr (length ?vs), ?db)" by (simp add: PurgeRollups_def Let_def)
    show ?thesis
    proof (cases "length ?vs = 0")
      case True
      then have e: "drainRollups fails i before limit db = (Inr (), ?db)"
        using p by (simp add: drainRollups.simps [of fails i])
      show ?thesis
        unfolding e using k victims_zero [OF _ True] True
        by (auto simp: Let_def intro: exI [of _ "rollups db"])
    next
      case False
      have e: "drainRollups fails i before limit db = drainRollups fails (Suc i) before limit ?db"
        using p False by (simp add: drainRollups.simps [of fails i])
      show ?thesis using 1 [OF p [symmetric] refl False] k unfolding e Let_def by fastforce
    qed
  qed
qed

subsection \<open>What a rollup writes\<close>

lemma fold_update_lookup:
  "distinct ss \<Longrightarrow> map_of (fold (\<lambda>s. AList.update (s, a) (f s)) ss t) (s, h) =
     (if h = a \<and> s \<in> set ss then Some (f s) else map_of t (s, h))"
proof (induction ss arbitrary: t)
  case (Cons x ss)
  then show ?case by (auto simp: table_simps)
qed simp

lemma hourSeries_iff: "s \<in> set (hourSeries a b db) \<longleftrightarrow> hourValues a b s db \<noteq> []"
  by (auto simp: hourSeries_def hourValues_def filter_empty_conv image_iff) force+

definition hourStart :: "time \<Rightarrow> int" where "hourStart h = unixMilli (truncateTo hour h)"

abbreviation hourOf :: "int \<Rightarrow> series \<Rightarrow> tdb \<Rightarrow> rat list" where
  "hourOf a s db \<equiv> hourValues a (a + 3600000) s db"

lemma hour_end: "unixMilli (t + hour) = unixMilli t + 3600000"
  by (simp add: unixMilli_def)

lemma RollupHour_lookup:
  "map_of (rollups (RollupHour h db)) (s, a) =
     (if a = hourStart h \<and> hourOf a s db \<noteq> [] then Some (aggregate (hourOf a s db)) else map_of (rollups db) (s, a))"
proof -
  have "distinct (hourSeries x y db)" for x y by (simp add: hourSeries_def)
  then show ?thesis
    by (auto simp: RollupHour_def Let_def fold_update_lookup hourSeries_iff hourStart_def hour_end)
qed

lemma RollupHour_frame [simp]:
  "metricRows (RollupHour h db) = metricRows db" "rolledThrough (RollupHour h db) = rolledThrough db"
  "batches (RollupHour h db) = batches db" "hosts (RollupHour h db) = hosts db"
  "checkRows (RollupHour h db) = checkRows db" "eventRows (RollupHour h db) = eventRows db"
  "metricLatest (RollupHour h db) = metricLatest db" "checkLatest (RollupHour h db) = checkLatest db"
  by (simp_all add: RollupHour_def Let_def)

lemma hourValues_cong: "metricRows db = metricRows db' \<Longrightarrow> hourValues a b s db = hourValues a b s db'"
  by (simp add: hourValues_def)

lemma fold_RollupHour_frame [simp]:
  "metricRows (fold RollupHour hs db) = metricRows db" "rolledThrough (fold RollupHour hs db) = rolledThrough db"
  "batches (fold RollupHour hs db) = batches db" "hosts (fold RollupHour hs db) = hosts db"
  "checkRows (fold RollupHour hs db) = checkRows db" "eventRows (fold RollupHour hs db) = eventRows db"
  "metricLatest (fold RollupHour hs db) = metricLatest db" "checkLatest (fold RollupHour hs db) = checkLatest db"
  by (induction hs arbitrary: db) simp_all

lemma fold_RollupHour_lookup:
  "map_of (rollups (fold RollupHour hs db)) (s, a) =
     (if a \<in> hourStart ` set hs \<and> hourOf a s db \<noteq> [] then Some (aggregate (hourOf a s db)) else map_of (rollups db) (s, a))"
proof (induction hs arbitrary: db)
  case (Cons h hs)
  have "hourOf a s (RollupHour h db) = hourOf a s db" by (rule hourValues_cong) simp
  then show ?case by (auto simp: Cons.IH RollupHour_lookup)
qed simp

lemma set_hoursFrom: "h \<in> set (hoursFrom from current) \<longleftrightarrow> (\<exists>i::nat. h = from + int i * hour \<and> h < current)"
proof -
  have "int i < - ((from - current) div hour) \<longleftrightarrow> from + int i * hour < current" for i
  proof -
    have "((from - current) + int i * hour) div hour = (from - current) div hour + int i"
      using div_mult_self1 [of hour "from - current" "int i"] by simp
    moreover have "((from - current) + int i * hour) div hour < 0 \<longleftrightarrow> (from - current) + int i * hour < 0"
      by (rule pos_imp_zdiv_neg_iff) simp
    ultimately show ?thesis by linarith
  qed
  moreover have "i < nat x \<longleftrightarrow> int i < x" for i x by linarith
  ultimately show ?thesis by (auto simp: hoursFrom_def image_iff)
qed

lemma rollupFrom_ge: "rollupFrom e (Some t) \<ge> t - rerollWindow"
  by (simp add: rollupFrom_def Let_def)

lemma rollupFrom_aligned: "(\<And>t. through = Some t \<Longrightarrow> t mod hour = 0) \<Longrightarrow> rollupFrom e through mod hour = 0"
  by (auto simp: rollupFrom_def Let_def rerollWindow_def mod_diff_eq [of _ hour, symmetric] split: option.splits)

lemma aligned_add: "f mod hour = 0 \<Longrightarrow> (f + int i * hour) mod hour = 0"
  by simp

text \<open>The state of the system for retention: the tables and how far raw rows have ever been purged.\<close>

inductive maint_step :: "tdb \<times> int option \<Rightarrow> tdb \<times> int option \<Rightarrow> bool" where
  store: "storable b \<Longrightarrow> maint_step (db, gone) (snd (Store fault host key t b db), gone)"
| create: "maint_step (db, gone) (snd (CreateHost fault rnd name now db), gone)"
| rollup: "maint_step (db, gone) (snd (Rollup failAt now db), gone)"
| purge: "maint_step (db, gone) (snd (Purge fr fu rawTTL rollupTTL now db),
    case RolledThrough db of
      None \<Rightarrow> gone
    | Some t \<Rightarrow> Some (case gone of None \<Rightarrow> unixMilli (rawCutoff now rawTTL t) | Some c \<Rightarrow> max c (unixMilli (rawCutoff now rawTTL t))))"

inductive_cases maint_stepE: "maint_step s s'"

definition maint_inv :: "tdb \<times> int option \<Rightarrow> bool" where
  "maint_inv s \<longleftrightarrow> (case s of (db, gone) \<Rightarrow>
     (\<forall>t. RolledThrough db = Some t \<longrightarrow> t mod hour = 0) \<and>
     (\<forall>c. gone = Some c \<longrightarrow> (\<exists>t. RolledThrough db = Some t \<and> c \<le> unixMilli (t - rerollWindow))))"

lemma Store_rolled: "storable b \<Longrightarrow> rolledThrough (snd (Store fault host key t b db)) = rolledThrough db"
  by (cases fault) (simp_all add: Store_eq Let_def withBatch_def touchHost_def storeDocuments_def, simp add: Store_def)

lemma CreateHost_rolled: "rolledThrough (snd (CreateHost fault rnd name now db)) = rolledThrough db"
  by (simp add: CreateHost_def Let_def split: option.splits)

lemma drainRaw_rolled: "rolledThrough (snd (drainRaw fails i before limit db)) = rolledThrough db"
proof (induction fails i before limit db rule: drainRaw.induct)
  case (1 fails i before limit db)
  have st: "rolledThrough (snd (st d)) = rolledThrough d" if "st \<in> set (purgeRawStatements b l)" for st d b l
    using that by (auto simp: purgeRawStatements_def purge_other_tables purgeEvents_def purgeBatches_def Let_def)
  have run: "rolledThrough (snd (runStatements sts d)) = rolledThrough d" if "set sts \<subseteq> set (purgeRawStatements b l)" for sts d b l
    using that by (induction sts arbitrary: d) (auto simp: split_def Let_def st)
  have "rolledThrough (snd (PurgeRaw (fails i) before limit db)) = rolledThrough db"
    using run [where b = "unixMilli before" and l = limit, OF order_refl, of db]
      run [where b = "unixMilli before" and l = limit, OF set_take_subset, of _ db]
    by (simp add: PurgeRaw_def split_def split: option.splits)
  then show ?case
    using 1 by (subst drainRaw.simps) (auto split: prod.splits sum.splits)
qed

lemma Purge_rolled: "rolledThrough (snd (Purge fr fu rawTTL rollupTTL now db)) = rolledThrough db"
proof -
  have "\<exists>rs. snd (drainRollups fu 0 c purgeBatch d) = d\<lparr>rollups := rs\<rparr>" for c d
    using drainRollups_spec [of fu 0 c purgeBatch d] by (simp add: Let_def)
  then have r: "rolledThrough (snd (drainRollups fu 0 c purgeBatch d)) = rolledThrough d" for c d
    by (metis (no_types, lifting) tdb.select_convs(10) tdb.surjective tdb.update_convs(9))
  have "rolledThrough d = rolledThrough db" if "drainRaw fr 0 c purgeBatch db = (x, d)" for c x d
    using drainRaw_rolled [of fr 0 c purgeBatch db] that by simp
  then show ?thesis
    by (auto simp: Purge_def Let_def r split: option.splits prod.splits sum.splits)
qed

lemma Rollup_rolled:
  "rolledThrough (snd (Rollup failAt now db)) = rolledThrough db \<or>
   (rolledThrough (snd (Rollup failAt now db)) = Some (unixMilli (truncateTo hour now)) \<and>
    (\<forall>t. RolledThrough db = Some t \<longrightarrow> t < truncateTo hour now))"
  by (auto simp: Rollup_def Let_def SetRolledThrough_def split: option.splits)

lemma hour_aligned_milli: "t mod hour = 0 \<Longrightarrow> ofMilli (unixMilli t) = t"
proof -
  assume "t mod hour = 0"
  then obtain k where "t = hour * k" by (auto simp: mod_eq_0_iff_dvd elim: dvdE)
  then have "t = millisecond * (3600000 * k)" by simp
  then show ?thesis by (simp add: unixMilli_def ofMilli_def)
qed

lemma unixMilli_window_mono: "s \<le> t \<Longrightarrow> unixMilli (s - rerollWindow) \<le> unixMilli (t - rerollWindow)"
  by (rule unixMilli_mono) simp

lemma rawCutoff_le: "rawCutoff now rawTTL t \<le> t - rerollWindow"
  by (simp add: rawCutoff_def)

lemma maint_step_inv:
  assumes "maint_step s s'" and "maint_inv s"
  shows "maint_inv s'"
  using assms
proof (cases rule: maint_step.cases)
  case (rollup db gone failAt now)
  show ?thesis
    using Rollup_rolled [of failAt now db]
  proof
    assume "rolledThrough (snd (Rollup failAt now db)) = rolledThrough db"
    then show ?thesis using assms(2) rollup by (simp add: maint_inv_def RolledThrough_def)
  next
    assume r: "rolledThrough (snd (Rollup failAt now db)) = Some (unixMilli (truncateTo hour now)) \<and>
      (\<forall>t. RolledThrough db = Some t \<longrightarrow> t < truncateTo hour now)"
    then have new: "RolledThrough (snd (Rollup failAt now db)) = Some (truncateTo hour now)"
      by (simp add: RolledThrough_def hour_aligned_milli)
    have "c \<le> unixMilli (truncateTo hour now - rerollWindow)" if gc: "gone = Some c" for c
    proof -
      obtain t where t: "RolledThrough db = Some t" "c \<le> unixMilli (t - rerollWindow)"
        using assms(2) rollup gc by (auto simp: maint_inv_def)
      have "t \<le> truncateTo hour now" using r t(1) by (simp add: less_imp_le)
      then show ?thesis using t(2) unixMilli_window_mono order_trans by blast
    qed
    then show ?thesis using rollup new by (simp add: maint_inv_def)
  qed
next
  case (purge db gone fr fu rawTTL rollupTTL now)
  have same: "RolledThrough (snd (Purge fr fu rawTTL rollupTTL now db)) = RolledThrough db"
    by (simp add: RolledThrough_def Purge_rolled)
  have "unixMilli (rawCutoff now rawTTL t) \<le> unixMilli (t - rerollWindow)" for t
    by (intro unixMilli_mono rawCutoff_le)
  then show ?thesis using assms(2) purge same by (auto simp: maint_inv_def split: option.splits)
qed (auto simp: maint_inv_def RolledThrough_def Store_rolled CreateHost_rolled)

lemma maint_reach_inv: "maint_step\<^sup>*\<^sup>* s s' \<Longrightarrow> maint_inv s \<Longrightarrow> maint_inv s'"
  by (induction rule: rtranclp_induct) (auto intro: maint_step_inv)

lemma rolledHours_after:
  assumes "maint_inv (db, Some c)" and "h \<in> set (rolledHours now db)"
  shows "c \<le> hourStart h"
proof -
  obtain t where t: "RolledThrough db = Some t" "c \<le> unixMilli (t - rerollWindow)" "t mod hour = 0"
    using assms(1) by (auto simp: maint_inv_def)
  obtain e i where h: "h = rollupFrom e (Some t) + int i * hour"
    using assms(2) t(1) by (auto simp: rolledHours_def set_hoursFrom split: option.splits)
  have "rollupFrom e (Some t) mod hour = 0" using t(3) by (intro rollupFrom_aligned) simp
  then have "truncateTo hour h = h" unfolding h by (intro truncateTo_dvd_id aligned_add)
  moreover have "t - rerollWindow \<le> h" unfolding h using rollupFrom_ge [of t e] by simp
  ultimately show ?thesis using t(2) unixMilli_mono [of "t - rerollWindow" h] by (simp add: hourStart_def)
qed

lemma statement_inv:
  assumes "st \<in> set (purgeRawStatements b l)" and "tdb_inv db"
  shows "tdb_inv (snd (st db))"
proof -
  have 1: "tdb_inv (snd (purgeMetrics b l db))"
    using assms(2) latestOk_fold_delete [of fst "(metricRows db, metricLatest db)" "victims (\<lambda>k _. snd k) b l (metricRows db)"]
    by (simp add: tdb_inv_def purgeMetrics_def Let_def split_def)
  have 2: "tdb_inv (snd (purgeChecks b l db))"
    using assms(2) latestOk_fold_delete [of "\<lambda>(st, meta, ver). (st, meta)" "(checkRows db, checkLatest db)" "victims (\<lambda>k _. snd k) b l (checkRows db)"]
    by (simp add: tdb_inv_def purgeChecks_def Let_def split_def)
  have 3: "tdb_inv (snd (purgeEvents b l db))" "tdb_inv (snd (purgeBatches b l db))"
    using assms(2) by (simp_all add: tdb_inv_def purgeEvents_def purgeBatches_def Let_def fold_delete_filter distinct_map_filter)
  show ?thesis using assms(1) 1 2 3 by (auto simp: purgeRawStatements_def)
qed

lemma PurgeRaw_inv:
  assumes "tdb_inv db"
  shows "tdb_inv (snd (PurgeRaw failAt before l db))"
proof -
  have run: "tdb_inv (snd (runStatements sts d))"
    if "set sts \<subseteq> set (purgeRawStatements (unixMilli before) l)" "tdb_inv d" for sts d
    using that by (induction sts arbitrary: d) (auto simp: split_def Let_def intro: statement_inv)
  show ?thesis
    using run [OF order_refl assms] run [OF set_take_subset assms] by (simp add: PurgeRaw_def split_def split: option.splits)
qed

lemma drainRaw_inv: "tdb_inv db \<Longrightarrow> tdb_inv (snd (drainRaw fails i before limit db))"
proof (induction fails i before limit db rule: drainRaw.induct)
  case (1 fails i before limit db)
  have "tdb_inv (snd (PurgeRaw (fails i) before limit db))" using 1(2) by (rule PurgeRaw_inv)
  then show ?case using 1(1) by (subst drainRaw.simps) (auto split: prod.splits sum.splits)
qed

lemma tdb_inv_cong:
  "hosts d = hosts e \<Longrightarrow> metricRows d = metricRows e \<Longrightarrow> checkRows d = checkRows e \<Longrightarrow> eventRows d = eventRows e \<Longrightarrow>
   batches d = batches e \<Longrightarrow> metricLatest d = metricLatest e \<Longrightarrow> checkLatest d = checkLatest e \<Longrightarrow> tdb_inv d = tdb_inv e"
  by (simp add: tdb_inv_def)

lemma Rollup_inv: "tdb_inv db \<Longrightarrow> tdb_inv (snd (Rollup failAt now db))"
  by (erule tdb_inv_cong [THEN iffD1, rotated -1]; simp add: Rollup_def Let_def SetRolledThrough_def split: option.splits)

lemma Purge_inv: "tdb_inv db \<Longrightarrow> tdb_inv (snd (Purge fr fu rawTTL rollupTTL now db))"
proof -
  have r: "tdb_inv (snd (drainRollups fu 0 c purgeBatch d)) = tdb_inv d" for c d
  proof -
    obtain rs where "snd (drainRollups fu 0 c purgeBatch d) = d\<lparr>rollups := rs\<rparr>"
      using drainRollups_spec [of fu 0 c purgeBatch d] unfolding Let_def by blast
    then show ?thesis by (simp add: tdb_inv_def)
  qed
  assume "tdb_inv db"
  then have "tdb_inv (snd (drainRaw fr 0 c purgeBatch db))" for c by (rule drainRaw_inv)
  then have "tdb_inv d" if "drainRaw fr 0 c purgeBatch db = (x, d)" for c x d
    using that by (metis snd_conv)
  then show ?thesis using \<open>tdb_inv db\<close>
    by (auto simp: Purge_def Let_def r split: option.splits prod.splits sum.splits)
qed

lemma tdb_reach_inv: "maint_step\<^sup>*\<^sup>* s s' \<Longrightarrow> tdb_inv (fst s) \<Longrightarrow> tdb_inv (fst s')"
  by (induction rule: rtranclp_induct)
     (auto elim!: maint_stepE intro: Store_inv CreateHost_inv Rollup_inv Purge_inv)

subsection \<open>Properties\<close>

definition freshDb :: tdb where
  "freshDb = \<lparr>hosts = [], metricRows = [], checkRows = [], eventRows = [], batches = [], documentRows = [],
     metricLatest = [], checkLatest = [], rollups = [], rolledThrough = None, enrollments = [], peers = []\<rparr>"



text \<open>C19 (termination). The purge loop ends whatever fails; it deletes no row that is not older than its
  limit and touches no aggregate, and when no statement fails it leaves no raw row older than
  the limit.\<close>

theorem drainRaw_exact:
  assumes "wf_table (batches db)"
  shows "case drainRaw fails 0 before purgeBatch db of (r, db') \<Rightarrow>
     keeps (unixMilli before) db db' \<and>
     (if r = Inr () then noneBefore (unixMilli before) db' else True) \<and>
     (if \<forall>j. fails j = None then r = Inr () else True)"
proof -
  have "0 < purgeBatch" by (simp add: purgeBatch_def)
  then show ?thesis using drainRaw_spec [OF assms, of before fails 0 purgeBatch] by (simp add: split_def)
qed

text \<open>Three days on one host, to run the definitions.\<close>

definition demoStored :: tdb where "demoStored = snd (Store None ''h1'' ''k'' second demoBatch demoDb)"
definition demoRolled :: tdb where "demoRolled = snd (Rollup None (3 * day) demoStored)"
definition demoPurged :: tdb where "demoPurged = snd (Purge (\<lambda>_. None) (\<lambda>_. None) (30 * day) (400 * day) (3 * day) demoRolled)"

lemma demoStored_eq: "demoStored = withBatch ''h1'' ''k'' second demoBatch demoDb"
  by (simp add: demoStored_def Store_eq storable_def demoBatch_def demoMetric_def emptyBatch_def demoDb_def Let_def)

lemma demoStored_rows:
  "metricRows demoStored = [(((''h1'', ''cpu'', ''{}''), 1000), (Fin 1, ''1.0'')), (((''h1'', ''mem'', ''{}''), 1000), (Fin 0, ''1.0''))]"
  "checkRows demoStored = []" "eventRows demoStored = []" "batches demoStored = [((''h1'', ''k''), (1000, 3))]"
  "rolledThrough demoStored = None" "rollups demoStored = []"
  unfolding demoStored_eq withBatch_tables
  by (simp_all add: demo_store newRecords_def metricRow_def batchLen_def withBatch_def Let_def touchHost_def storeDocuments_def)

lemma demoRolled_rows:
  "metricRows demoRolled = metricRows demoStored" "checkRows demoRolled = []" "eventRows demoRolled = []"
  "batches demoRolled = batches demoStored" "RolledThrough demoRolled = Some (3 * day)"
  by (simp_all add: demoRolled_def Rollup_def Let_def RolledThrough_def demoStored_rows SetRolledThrough_def)
     (simp add: time_simps)

lemma demoPurged_step:
  "maint_step (demoRolled, None) (demoPurged, Some (- 2332800000)) \<and> metricRows demoPurged = metricRows demoStored \<and>
   RolledThrough demoPurged = Some (3 * day)"
proof -
  have cut: "unixMilli (rawCutoff (3 * day) (30 * day) (3 * day)) = - 2332800000"
    by (simp add: rawCutoff_def rerollWindow_def unixMilli_def)
  let ?b = "- 2332800000 :: int"
  have v: "victims (\<lambda>k _. snd k) ?b purgeBatch (metricRows demoRolled) = []" "victims (\<lambda>k _. snd k) ?b purgeBatch (checkRows demoRolled) = []"
    "victims (\<lambda>k _. fst (snd k)) ?b purgeBatch (eventRows demoRolled) = []" "victims (\<lambda>_ v. fst v) ?b purgeBatch (batches demoRolled) = []"
    by (simp_all add: victims_def demoRolled_rows demoStored_rows)
  have "purgeMetrics ?b purgeBatch demoRolled = (0, demoRolled)" "purgeChecks ?b purgeBatch demoRolled = (0, demoRolled)"
    "purgeEvents ?b purgeBatch demoRolled = (0, demoRolled)" "purgeBatches ?b purgeBatch demoRolled = (0, demoRolled)"
    by (simp_all add: purgeMetrics_def purgeChecks_def purgeEvents_def purgeBatches_def v)
  then have "PurgeRaw None (rawCutoff (3 * day) (30 * day) (3 * day)) purgeBatch demoRolled = (Inr 0, demoRolled)"
    unfolding PurgeRaw_def cut by (simp add: purgeRawStatements_def)
  then have raw: "drainRaw (\<lambda>_. None) 0 (rawCutoff (3 * day) (30 * day) (3 * day)) purgeBatch demoRolled = (Inr (), demoRolled)"
    by (subst drainRaw.simps) simp
  have "demoPurged = snd (drainRollups (\<lambda>_. None) 0 (truncateTo hour (3 * day - 400 * day)) purgeBatch demoRolled)"
    unfolding demoPurged_def Purge_def Let_def demoRolled_rows option.case raw by simp
  moreover obtain rs where "snd (drainRollups (\<lambda>_. None) 0 (truncateTo hour (3 * day - 400 * day)) purgeBatch demoRolled) = demoRolled\<lparr>rollups := rs\<rparr>"
    using drainRollups_spec [of "\<lambda>_. None" 0 "truncateTo hour (3 * day - 400 * day)" purgeBatch demoRolled]
    unfolding Let_def by blast
  ultimately have eq: "demoPurged = demoRolled\<lparr>rollups := rs\<rparr>" by simp
  have "metricRows demoPurged = metricRows demoStored" "RolledThrough demoPurged = Some (3 * day)"
    unfolding eq using demoRolled_rows by (simp_all add: RolledThrough_def)
  moreover have "maint_step (demoRolled, None) (demoPurged, Some (- 2332800000))"
    using maint_step.purge [of demoRolled None "\<lambda>_. None" "\<lambda>_. None" "30 * day" "400 * day" "3 * day"]
    unfolding demoRolled_rows option.case cut demoPurged_def .
  ultimately show ?thesis by blast
qed

lemma demo_reachable: "maint_step\<^sup>*\<^sup>* (freshDb, None) (demoPurged, Some (- 2332800000))"
proof -
  have "trimSpace ''web'' = ''web''" by code_simp
  then have create: "maint_step (freshDb, None) (demoDb, None)"
    using maint_step.create [of freshDb None None "Some ''h1''" "''web''" 0]
    by (simp add: CreateHost_def freshDb_def demoDb_def unixMilli_def Let_def)
  have "storable demoBatch" by (simp add: storable_def demoBatch_def demoMetric_def emptyBatch_def)
  then have store: "maint_step (demoDb, None) (demoStored, None)"
    unfolding demoStored_def by (rule maint_step.store)
  have roll: "maint_step (demoStored, None) (demoRolled, None)"
    unfolding demoRolled_def by (rule maint_step.rollup)
  show ?thesis
    using create store roll demoPurged_step by (meson converse_rtranclp_into_rtranclp rtranclp.rtrancl_refl)
qed


theorem drainRaw_exact_witness:
  "case drainRaw (\<lambda>_. None) 0 day purgeBatch demoStored of (r, db') \<Rightarrow>
     keeps (unixMilli day) demoStored db' \<and> noneBefore (unixMilli day) db'"
proof -
  have "wf_table (batches demoStored)" by (simp add: demoStored_rows)
  then show ?thesis using drainRaw_exact [of demoStored day "\<lambda>_. None"] by (simp add: split_def)
qed

text \<open>After any history of ingests, rollups and purges every primary key is unique, and
  the tables the triggers keep are right: for each series there is a newest row exactly when the
  series has rows, and it is the one with the greatest timestamp, with its value.\<close>

lemma reachable_tables_consistent:
  assumes "maint_step\<^sup>*\<^sup>* (freshDb, None) (db, gone)"
  shows "wf_table (metricRows db) \<and> wf_table (checkRows db) \<and> wf_table (eventRows db) \<and> wf_table (batches db) \<and>
     latestOk fst (metricRows db) (metricLatest db) \<and>
     latestOk (\<lambda>(st, meta, ver). (st, meta)) (checkRows db) (checkLatest db)"
proof -
  have "tdb_inv (fst (freshDb, None :: int option))" by (simp add: tdb_inv_def freshDb_def latestOk_def)
  then show ?thesis using tdb_reach_inv [OF assms] by (simp add: tdb_inv_def)
qed

lemma reachable_tables_consistent_witness:
  "metricRows demoPurged \<noteq> [] \<and> latestOk fst (metricRows demoPurged) (metricLatest demoPurged)"
  using reachable_tables_consistent [OF demo_reachable] demoPurged_step by (simp add: demoStored_rows)

text \<open>Samples that arrive more than 24 hours behind the rollup marker are never aggregated:
  no later rollup, at any clock, changes an aggregate of an hour before that window, although
  the purge deletes the raw samples in time.\<close>

lemma late_samples_not_aggregated:
  assumes "maint_step\<^sup>*\<^sup>* (freshDb, None) (db, gone)" and "RolledThrough db = Some t" and "a < unixMilli (t - 24 * hour)"
  shows "map_of (rollups (snd (Rollup None now db))) (s, a) = map_of (rollups db) (s, a)"
proof -
  have "maint_inv (freshDb, None)" by (simp add: maint_inv_def RolledThrough_def freshDb_def)
  then have "maint_inv (db, gone)" using maint_reach_inv [OF assms(1)] by simp
  then have inv: "maint_inv (db, Some (unixMilli (t - 24 * hour)))"
    using assms(2) by (simp add: maint_inv_def rerollWindow_def)
  have "a \<notin> hourStart ` set (rolledHours now db)" using rolledHours_after [OF inv] assms(3) by fastforce
  then show ?thesis
    by (simp add: Rollup_def Let_def SetRolledThrough_def fold_RollupHour_lookup split: option.splits)
qed

lemma late_samples_not_aggregated_witness:
  "RolledThrough demoPurged = Some (3 * day) \<and>
   map_of (rollups (snd (Rollup None (4 * day) demoPurged))) ((''h1'', ''late'', ''{}''), 3600000) =
   map_of (rollups demoPurged) ((''h1'', ''late'', ''{}''), 3600000)"
  using late_samples_not_aggregated [OF demo_reachable, of "3 * day" 3600000] demoPurged_step by (simp add: unixMilli_def)

end
