(* ===== verification/Hub.thy ===== *)
theory Hub
  imports Telemetry_Store
begin

section \<open>Live updates, ingestion and queries (internal/telemetry/application)\<close>

text \<open>
  \<open>hub\<close> is \<^verbatim>\<open>application.Hub\<close>: the subscriptions by number, each with its buffered messages. A
  subscription that left the hub keeps its buffer and is closed. \<open>Ingest\<close> ties validation, storage
  and publication together; the query validation bounds what a client may ask for.
\<close>

definition SubscriberBuffer :: nat where "SubscriberBuffer = 64"

datatype recordBody = RMetric metric | RCheck check | REvent event | RUptime string

record msg =
  msg_type :: string
  msg_host :: string
  msg_body :: recordBody

record subscription =
  sub_buffer :: "msg list"
  sub_host :: string
  sub_typ :: string
  sub_dropped :: bool
  sub_closed :: bool

text \<open>All subscriptions ever made, by number; \<open>subs\<close> are those the hub still serves.\<close>

record hub =
  all_subs :: "subscription list"
  subs :: "nat list"
  hub_closed :: bool

definition NewHub :: hub where
  "NewHub = \<lparr>all_subs = [], subs = [], hub_closed = False\<rparr>"

definition Subscribe :: "string \<Rightarrow> string \<Rightarrow> hub \<Rightarrow> nat \<times> hub" where
  "Subscribe host typ h =
     (let i = length (all_subs h);
          sub = \<lparr>sub_buffer = [], sub_host = host, sub_typ = typ, sub_dropped = False, sub_closed = hub_closed h\<rparr>
      in (i, if hub_closed h then h\<lparr>all_subs := all_subs h @ [sub]\<rparr>
             else h\<lparr>all_subs := all_subs h @ [sub], subs := subs h @ [i]\<rparr>))"

definition closeSub :: "nat \<Rightarrow> hub \<Rightarrow> hub" where
  "closeSub i h = h\<lparr>all_subs := (all_subs h)[i := (all_subs h ! i)\<lparr>sub_closed := True\<rparr>], subs := removeAll i (subs h)\<rparr>"

definition Unsubscribe :: "nat \<Rightarrow> hub \<Rightarrow> hub" where
  "Unsubscribe i h = (if i \<in> set (subs h) then closeSub i h else h)"

definition wants :: "subscription \<Rightarrow> msg \<Rightarrow> bool" where
  "wants s m \<longleftrightarrow> \<not> ((sub_host s \<noteq> [] \<and> sub_host s \<noteq> msg_host m) \<or> (sub_typ s \<noteq> [] \<and> sub_typ s \<noteq> msg_type m))"

text \<open>The inner loop of \<^verbatim>\<open>Publish\<close> for one subscription: a full buffer drops it.\<close>

fun offer :: "msg list \<Rightarrow> subscription \<Rightarrow> subscription" where
  "offer [] s = s"
| "offer (m # ms) s =
     (if \<not> wants s m then offer ms s
      else if length (sub_buffer s) < SubscriberBuffer then offer ms (s\<lparr>sub_buffer := sub_buffer s @ [m]\<rparr>)
      else s\<lparr>sub_dropped := True, sub_closed := True\<rparr>)"

definition Publish :: "msg list \<Rightarrow> hub \<Rightarrow> hub" where
  "Publish msgs h =
     (if msgs = [] then h
      else let served = map (\<lambda>(i, s). if i \<in> set (subs h) then offer msgs s else s) (enumerate 0 (all_subs h))
           in h\<lparr>all_subs := served, subs := filter (\<lambda>i. \<not> sub_dropped (served ! i)) (subs h)\<rparr>)"

definition closeHub :: "hub \<Rightarrow> hub" where
  "closeHub h =
     h\<lparr>hub_closed := True, subs := [],
       all_subs := map (\<lambda>(i, s). if i \<in> set (subs h) then s\<lparr>sub_closed := True\<rparr> else s) (enumerate 0 (all_subs h))\<rparr>"

definition messagesFor :: "string \<Rightarrow> batch \<Rightarrow> msg list" where
  "messagesFor host b =
     map (\<lambda>m. \<lparr>msg_type = ''metric'', msg_host = host, msg_body = RMetric m\<rparr>) (metrics b) @
     map (\<lambda>c. \<lparr>msg_type = ''check'', msg_host = host, msg_body = RCheck c\<rparr>) (checks b) @
     map (\<lambda>e. \<lparr>msg_type = ''event'', msg_host = host, msg_body = REvent e\<rparr>) (events b)"

text \<open>A subscriber taking the next message from its channel.\<close>

definition receive :: "nat \<Rightarrow> hub \<Rightarrow> hub" where
  "receive i h = h\<lparr>all_subs := (all_subs h)[i := (all_subs h ! i)\<lparr>sub_buffer := drop 1 (sub_buffer (all_subs h ! i))\<rparr>]\<rparr>"

subsection \<open>Ingestion\<close>

definition Ingest ::
  "(string \<Rightarrow> bool) \<Rightarrow> (string \<Rightarrow> string option) \<Rightarrow> error option \<Rightarrow> string \<Rightarrow> string \<Rightarrow> time \<Rightarrow> batch \<Rightarrow>
   tdb \<times> hub \<Rightarrow> storeResult result \<times> tdb \<times> hub" where
  "Ingest validJson canonObject fault host key now b st =
     (case st of (db, h) \<Rightarrow>
        if host = '''' then (Inl (Invalid ''host is required''), db, h)
        else if key = '''' \<or> MaxIdempotencyKey < length key then
          (Inl (Invalid ''idempotency key must contain 1..128 bytes''), db, h)
        else case Normalize validJson canonObject now b of
               Inl e \<Rightarrow> (Inl e, db, h)
             | Inr nb \<Rightarrow>
                 (case Store fault host key now nb db of
                    (Inl e, db') \<Rightarrow> (Inl e, db', h)
                  | (Inr r, db') \<Rightarrow>
                      (Inr r, db', if Replayed r then h else Publish (messagesFor host (Accepted r)) h)))"

subsection \<open>Query validation\<close>

definition DefaultMetricLimit :: int where "DefaultMetricLimit = 1000"
definition MaxMetricLimit :: int where "MaxMetricLimit = 5000"
definition DefaultEventLimit :: int where "DefaultEventLimit = 100"
definition MaxEventLimit :: int where "MaxEventLimit = 500"
definition MinStepSeconds :: int where "MinStepSeconds = 10"
definition MaxStepSeconds :: int where "MaxStepSeconds = 3600"

record metricQuery =
  q_host :: string
  q_name :: string
  q_from :: "time option"
  q_to :: "time option"
  q_limit :: int
  q_latest :: bool
  q_step :: int

record eventQuery =
  eq_host :: string
  eq_level :: string
  eq_from :: "time option"
  eq_limit :: int

definition boundedLimit :: "int \<Rightarrow> int \<Rightarrow> int \<Rightarrow> int result" where
  "boundedLimit requested dflt upper =
     (if requested = 0 then Inr dflt
      else if requested < 0 \<or> upper < requested then Inl (Invalid ''limit must be between 1 and the maximum'')
      else Inr requested)"

definition validateStep :: "metricQuery \<Rightarrow> unit result" where
  "validateStep q =
     (if q_step q = 0 then Inr ()
      else if q_step q < MinStepSeconds \<or> MaxStepSeconds < q_step q then Inl (Invalid ''step must be between 10 and 3600 seconds'')
      else if q_latest q then Inl (Invalid ''step cannot be combined with latest'')
      else Inr ())"

definition afterTo :: "metricQuery \<Rightarrow> bool" where
  "afterTo q = (case (q_from q, q_to q) of (Some f, Some t) \<Rightarrow> t < f | _ \<Rightarrow> False)"

text \<open>The query the service passes to the repository.\<close>

definition Metrics :: "metricQuery \<Rightarrow> metricQuery result" where
  "Metrics q =
     (if q_latest q \<and> (q_from q \<noteq> None \<or> q_to q \<noteq> None) then Inl (Invalid ''latest cannot be combined with from/to'')
      else result_bind (validateStep q) (\<lambda>_.
           if afterTo q then Inl (Invalid ''from must not be after to'')
           else result_bind (boundedLimit (q_limit q) DefaultMetricLimit MaxMetricLimit) (\<lambda>l. Inr (q\<lparr>q_limit := l\<rparr>))))"

definition MetricRollups :: "metricQuery \<Rightarrow> metricQuery result" where
  "MetricRollups q =
     (if q_latest q then Inl (Invalid ''latest is only available with resolution=raw'')
      else if q_step q \<noteq> 0 then Inl (Invalid ''step is only available with resolution=raw'')
      else if afterTo q then Inl (Invalid ''from must not be after to'')
      else result_bind (boundedLimit (q_limit q) DefaultMetricLimit MaxMetricLimit) (\<lambda>l. Inr (q\<lparr>q_limit := l\<rparr>)))"

definition Events :: "eventQuery \<Rightarrow> eventQuery result" where
  "Events q =
     (if eq_level q \<notin> {'''', ''info'', ''warn'', ''error'', ''critical''} then
        Inl (Invalid ''level must be info, warn, error or critical'')
      else result_bind (boundedLimit (eq_limit q) DefaultEventLimit MaxEventLimit) (\<lambda>l. Inr (q\<lparr>eq_limit := l\<rparr>)))"

subsection \<open>What a subscriber sees\<close>

lemma offer_fields [simp]: "sub_host (offer ms s) = sub_host s" "sub_typ (offer ms s) = sub_typ s"
  by (induction ms s rule: offer.induct) simp_all

lemma wants_buffer [simp]: "wants (s\<lparr>sub_buffer := b\<rparr>) m = wants s m"
  by (simp add: wants_def)

lemma offer_spec:
  assumes "length (sub_buffer s) \<le> 64"
  shows "offer ms s =
     (let wanted = sub_buffer s @ filter (wants s) ms
      in if length wanted \<le> 64 then s\<lparr>sub_buffer := wanted\<rparr>
         else s\<lparr>sub_buffer := take 64 wanted, sub_dropped := True, sub_closed := True\<rparr>)"
  using assms
proof (induction ms arbitrary: s)
  case (Cons m ms)
  show ?case
  proof (cases "wants s m")
    case False
    then show ?thesis using Cons by (simp add: Let_def)
  next
    case True
    show ?thesis
    proof (cases "length (sub_buffer s) < 64")
      case True
      then show ?thesis
        using Cons.IH [of "s\<lparr>sub_buffer := sub_buffer s @ [m]\<rparr>"] \<open>wants s m\<close> by (simp add: Let_def SubscriberBuffer_def)
    next
      case False
      then show ?thesis using \<open>wants s m\<close> Cons.prems by (simp add: SubscriberBuffer_def)
    qed
  qed
qed simp

text \<open>What the hub keeps: served subscriptions exist once, are open and within their buffer; a closed
  hub serves nobody.\<close>

definition hub_inv :: "hub \<Rightarrow> bool" where
  "hub_inv h \<longleftrightarrow> distinct (subs h) \<and> (hub_closed h \<longrightarrow> subs h = []) \<and>
     (\<forall>s\<in>set (all_subs h). length (sub_buffer s) \<le> 64) \<and>
     (\<forall>i\<in>set (subs h). i < length (all_subs h) \<and> \<not> sub_closed (all_subs h ! i) \<and> \<not> sub_dropped (all_subs h ! i))"

definition served :: "msg list \<Rightarrow> hub \<Rightarrow> subscription list" where
  "served msgs h = map (\<lambda>(i, s). if i \<in> set (subs h) then offer msgs s else s) (enumerate 0 (all_subs h))"

lemma length_served [simp]: "length (served msgs h) = length (all_subs h)"
  by (simp add: served_def)

lemma served_nth: "i < length (all_subs h) \<Longrightarrow> served msgs h ! i = (if i \<in> set (subs h) then offer msgs (all_subs h ! i) else all_subs h ! i)"
  by (simp add: served_def nth_enumerate_eq)

lemma Publish_eq:
  "msgs \<noteq> [] \<Longrightarrow> Publish msgs h = h\<lparr>all_subs := served msgs h, subs := filter (\<lambda>i. \<not> sub_dropped (served msgs h ! i)) (subs h)\<rparr>"
  by (simp add: Publish_def served_def Let_def)

lemma offer_state:
  "length (sub_buffer s) \<le> 64 \<Longrightarrow> \<not> sub_dropped s \<Longrightarrow> \<not> sub_closed s \<Longrightarrow>
   length (sub_buffer (offer ms s)) \<le> 64 \<and> sub_dropped (offer ms s) = sub_closed (offer ms s)"
  by (auto simp: offer_spec Let_def)

lemma Publish_inv:
  assumes "hub_inv h"
  shows "hub_inv (Publish msgs h)"
proof (cases "msgs = []")
  case False
  have nth: "length (sub_buffer (served msgs h ! i)) \<le> 64 \<and>
      (i \<in> set (subs h) \<and> \<not> sub_dropped (served msgs h ! i) \<longrightarrow> \<not> sub_closed (served msgs h ! i))"
    if "i < length (all_subs h)" for i
    using that assms offer_state [of "all_subs h ! i" msgs] by (auto simp: hub_inv_def served_nth)
  then have "\<forall>s\<in>set (served msgs h). length (sub_buffer s) \<le> 64" by (auto simp: in_set_conv_nth)
  then show ?thesis using assms nth False by (simp add: hub_inv_def Publish_eq)
qed (simp add: Publish_def assms)

lemma Subscribe_inv: "hub_inv h \<Longrightarrow> hub_inv (snd (Subscribe host typ h))"
  by (auto simp: hub_inv_def Subscribe_def Let_def nth_append)

lemma Unsubscribe_inv: "hub_inv h \<Longrightarrow> hub_inv (Unsubscribe i h)"
  by (auto simp: hub_inv_def Unsubscribe_def closeSub_def distinct_removeAll nth_list_update dest!: set_update_subset_insert [THEN subsetD])

lemma closeHub_inv: "hub_inv h \<Longrightarrow> hub_inv (closeHub h)"
  by (auto simp: hub_inv_def closeHub_def in_set_enumerate_eq dest: nth_mem)

lemma receive_inv:
  assumes "hub_inv h"
  shows "hub_inv (receive i h)"
proof (cases "i < length (all_subs h)")
  case True
  then have "length (sub_buffer (all_subs h ! i)) \<le> 64" using assms by (simp add: hub_inv_def)
  then have "\<forall>s\<in>set (all_subs (receive i h)). length (sub_buffer s) \<le> 64"
    using assms by (auto simp: hub_inv_def receive_def dest!: set_update_subset_insert [THEN subsetD])
  then show ?thesis using assms True by (auto simp: hub_inv_def receive_def nth_list_update)
next
  case False
  then show ?thesis using assms by (simp add: receive_def list_update_beyond)
qed

inductive hub_step :: "hub \<Rightarrow> hub \<Rightarrow> bool" where
  subscribe: "hub_step h (snd (Subscribe host typ h))"
| unsubscribe: "hub_step h (Unsubscribe i h)"
| publish: "hub_step h (Publish msgs h)"
| read: "hub_step h (receive i h)"
| close: "hub_step h (closeHub h)"

lemmas hub_invs = Subscribe_inv Unsubscribe_inv Publish_inv receive_inv closeHub_inv

lemma hub_reach_inv: "hub_step\<^sup>*\<^sup>* h h' \<Longrightarrow> hub_inv h \<Longrightarrow> hub_inv h'"
  by (induction rule: rtranclp_induct) (auto elim!: hub_step.cases intro: hub_invs)

lemma NewHub_inv: "hub_inv NewHub"
  by (simp add: hub_inv_def NewHub_def)

subsection \<open>Properties\<close>

text \<open>In every reachable hub, publishing gives each served subscriber exactly the messages
  it asked for, in order, after what it had buffered, as long as they fit its buffer of 64; a
  subscriber whose buffer would overflow gets what fits, is dropped, closed and no longer served;
  nobody else is affected and nothing blocks.\<close>

lemma Publish_delivers:
  assumes "hub_step\<^sup>*\<^sup>* NewHub h" and "i \<in> set (subs h)"
  shows "let s = all_subs h ! i; s' = all_subs (Publish msgs h) ! i; wanted = sub_buffer s @ filter (wants s) msgs
     in if length wanted \<le> 64
        then sub_buffer s' = wanted \<and> i \<in> set (subs (Publish msgs h)) \<and> \<not> sub_closed s'
        else sub_buffer s' = take 64 wanted \<and> i \<notin> set (subs (Publish msgs h)) \<and> sub_dropped s' \<and> sub_closed s'"
proof -
  have inv: "hub_inv h" using hub_reach_inv [OF assms(1) NewHub_inv] .
  then have i: "i < length (all_subs h)" "\<not> sub_closed (all_subs h ! i)" "\<not> sub_dropped (all_subs h ! i)"
    and len: "length (sub_buffer (all_subs h ! i)) \<le> 64"
    using assms(2) by (auto simp: hub_inv_def)
  show ?thesis
  proof (cases "msgs = []")
    case True
    then show ?thesis using i len assms(2) by (simp add: Publish_def Let_def)
  next
    case False
    then show ?thesis
      using i assms(2) by (simp add: Publish_eq served_nth offer_spec [OF len] Let_def)
  qed
qed

definition demoMsg :: msg where
  "demoMsg = \<lparr>msg_type = ''metric'', msg_host = ''h1'', msg_body = RUptime ''x''\<rparr>"

lemma Publish_delivers_witness:
  "let h = snd (Subscribe ''h1'' '''' NewHub)
   in hub_step\<^sup>*\<^sup>* NewHub h \<and> sub_buffer (all_subs (Publish [demoMsg, demoMsg\<lparr>msg_host := ''h2''\<rparr>] h) ! 0) = [demoMsg]"
proof -
  let ?h = "snd (Subscribe ''h1'' '''' NewHub)"
  have r: "hub_step\<^sup>*\<^sup>* NewHub ?h" using hub_step.subscribe by (rule r_into_rtranclp)
  have "0 \<in> set (subs ?h)" by (simp add: Subscribe_def NewHub_def)
  from Publish_delivers [OF r this, of "[demoMsg, demoMsg\<lparr>msg_host := ''h2''\<rparr>]"]
  have "sub_buffer (all_subs (Publish [demoMsg, demoMsg\<lparr>msg_host := ''h2''\<rparr>] ?h) ! 0) = [demoMsg]"
    by (simp add: Subscribe_def NewHub_def wants_def demoMsg_def Let_def)
  then show ?thesis using r by (simp add: Let_def)
qed

text \<open>Ingest: an empty host, a key that is empty or above 128 bytes, and a batch that
  breaks the contract are refused before anything is stored; a refused or failed batch changes
  neither the tables nor what subscribers see; a replayed key changes nothing and publishes
  nothing; otherwise exactly the records the store accepted as new are published.\<close>

lemma Ingest_effect:
  "case Ingest validJson canonObject fault host key now b (db, h) of (r, db', h') \<Rightarrow>
     (case r of
        Inl e \<Rightarrow> db' = db \<and> h' = h
      | Inr res \<Rightarrow>
          host \<noteq> '''' \<and> key \<noteq> '''' \<and> length key \<le> 128 \<and> admissible validJson canonObject now b \<and> fault = None \<and>
          map_of (hosts db) host \<noteq> None \<and>
          (if (host, key) \<in> keysOf (batches db) then Replayed res \<and> db' = db \<and> h' = h
           else Accepted res = newRecords host (normalForm canonObject b) db \<and>
                db' = withBatch host key now (normalForm canonObject b) db \<and>
                h' = Publish (messagesFor host (Accepted res)) h))"
proof (cases "admissible validJson canonObject now b")
  case False
  then obtain m where "Normalize validJson canonObject now b = Inl (Invalid m)"
    using Normalize_decides [of validJson canonObject now b] by (auto simp: decides_def)
  then show ?thesis by (simp add: Ingest_def)
next
  case True
  then have n: "Normalize validJson canonObject now b = Inr (normalForm canonObject b)"
    using Normalize_decides [of validJson canonObject now b] by (simp add: decides_def)
  show ?thesis
  proof (cases fault)
    case (Some e)
    then show ?thesis using n by (simp add: Ingest_def Store_def)
  next
    case None
    then show ?thesis
      using n True by (auto simp: Ingest_def Store_eq [OF normalForm_storable [OF True]] Let_def MaxIdempotencyKey_def)
  qed
qed

text \<open>What reaches the metric store is bounded: a query passes validation only with a limit
  of 1 to 5000 (1000 when none is given), a step of 10 to 3600 seconds if any, no step and no
  time range together with the newest-point mode, and a range that does not run backwards.\<close>

lemma Metrics_bounded:
  "case Metrics q of
     Inl e \<Rightarrow> \<exists>m. e = Invalid m
   | Inr q' \<Rightarrow> q' = q\<lparr>q_limit := (if q_limit q = 0 then 1000 else q_limit q)\<rparr> \<and> 1 \<le> q_limit q' \<and> q_limit q' \<le> 5000 \<and>
       (q_step q = 0 \<or> (10 \<le> q_step q \<and> q_step q \<le> 3600 \<and> \<not> q_latest q)) \<and>
       \<not> (q_latest q \<and> (q_from q \<noteq> None \<or> q_to q \<noteq> None)) \<and>
       (case (q_from q, q_to q) of (Some f, Some t) \<Rightarrow> f \<le> t | _ \<Rightarrow> True)"
  by (auto simp: Metrics_def validateStep_def afterTo_def boundedLimit_def MinStepSeconds_def MaxStepSeconds_def
      DefaultMetricLimit_def MaxMetricLimit_def result_bind_def split: option.splits)

end
