(* ===== verification/Enrollment.thy ===== *)
theory Enrollment
  imports Telemetry_Store
begin

section \<open>Host enrollment (enrollment.go of telemetry/application and telemetry/infrastructure)\<close>

text \<open>
  One-time secrets, tunnel addresses and the peer table. \<open>sha\<close> is the stored form of a secret
  (\<^verbatim>\<open>HashSecret\<close>, a hexadecimal SHA-256), \<open>validKey\<close> is \<^verbatim>\<open>transport.ValidatePublicKey\<close> and \<open>addPeer\<close> the
  WireGuard device: all three are arguments. The tunnel subnet is an IPv4 prefix, as the
  configuration requires. Tunnel addresses are stored as text, so the round trip of that text
  carries the results about them.
\<close>

definition EnrollmentTTL :: duration where "EnrollmentTTL = hour"

record peer =
  pe_host :: string
  pe_key :: string
  pe_ip :: addr
  pe_enrolled :: time

subsection \<open>Addresses\<close>

text \<open>\<^verbatim>\<open>subnet.Contains\<close> on the address with a value, which is invalid above 32 bits.\<close>

definition inSubnet :: "prefix \<Rightarrow> nat \<Rightarrow> bool" where
  "inSubnet p v \<longleftrightarrow> v < 2 ^ 32 \<and> Contains p (V4 v)"

definition broadcast :: "prefix \<Rightarrow> nat \<Rightarrow> bool" where
  "broadcast p v \<longleftrightarrow> \<not> inSubnet p (v + 1)"

function freeFrom :: "prefix \<Rightarrow> addr list \<Rightarrow> nat \<Rightarrow> nat option" where
  "freeFrom p used v =
     (if \<not> inSubnet p v then None
      else if broadcast p v then None
      else if V4 v \<notin> set used then Some v
      else freeFrom p used (v + 1))"
  by pat_completeness auto
termination
  by (relation "measure (\<lambda>(p, used, v). 2 ^ 32 - v)") (auto simp: inSubnet_def)

declare freeFrom.simps [simp del]

text \<open>The search starts two above the network address.\<close>

definition nextFreeAddr :: "prefix \<Rightarrow> addr list \<Rightarrow> addr option" where
  "nextFreeAddr p used =
     (case maskAddr (p_bits p) (p_addr p) of
        V4 n \<Rightarrow> map_option V4 (freeFrom p used (n + 2))
      | V6 _ _ \<Rightarrow> None)"

definition usedTunnelIPs :: "tdb \<Rightarrow> addr list" where
  "usedTunnelIPs db = List.map_filter (\<lambda>r. ParseAddr (p_ip (snd r))) (peers db)"

subsection \<open>The repository\<close>

definition CreateEnrollableHost ::
  "error option \<Rightarrow> string option \<Rightarrow> string \<Rightarrow> string \<Rightarrow> time \<Rightarrow> time \<Rightarrow> tdb \<Rightarrow> (string \<times> hostRow) result \<times> tdb" where
  "CreateEnrollableHost fault rnd name secretHash now expiresAt db =
     (case rnd of
        None \<Rightarrow> (Inl (OtherError ''telemetry: generate host id''), db)
      | Some hid \<Rightarrow>
          let row = \<lparr>h_name = name, h_created = unixMilli now, h_lastSeen = None\<rparr>
          in (case fault of
                Some e \<Rightarrow> (Inl e, db)
              | None \<Rightarrow>
                  if map_of (hosts db) hid \<noteq> None \<or> (\<exists>h\<in>set (hosts db). h_name (snd h) = name)
                  then (Inl (Conflict ''host name already exists''), db)
                  else if \<exists>e\<in>set (enrollments db). snd (fst e) = secretHash
                  then (Inl (OtherError ''telemetry: store enrollment secret''), db)
                  else (Inr (hid, row),
                        db\<lparr>hosts := hosts db @ [(hid, row)],
                           enrollments := enrollments db @ [((hid, secretHash), \<lparr>en_expires = unixMilli expiresAt, en_used = None\<rparr>)]\<rparr>)))"

text \<open>The conditional update that consumes a secret: the host it belongs to, and the table.\<close>

definition usable :: "string \<Rightarrow> int \<Rightarrow> (string \<times> string) \<times> enrollRow \<Rightarrow> bool" where
  "usable secretHash now r \<longleftrightarrow> snd (fst r) = secretHash \<and> en_used (snd r) = None \<and> now < en_expires (snd r)"

definition consume :: "string \<Rightarrow> int \<Rightarrow> tdb \<Rightarrow> (string \<times> tdb) option" where
  "consume secretHash now db =
     (case find (usable secretHash now) (enrollments db) of
        None \<Rightarrow> None
      | Some r \<Rightarrow>
          Some (fst (fst r),
                db\<lparr>enrollments := map (\<lambda>r. if usable secretHash now r then (fst r, (snd r)\<lparr>en_used := Some now\<rparr>) else r) (enrollments db)\<rparr>))"

definition Enroll :: "error option \<Rightarrow> string \<Rightarrow> string \<Rightarrow> time \<Rightarrow> prefix \<Rightarrow> tdb \<Rightarrow> peer result \<times> tdb" where
  "Enroll fault secretHash publicKey now subnet db =
     (case fault of
        Some e \<Rightarrow> (Inl e, db)
      | None \<Rightarrow>
          (case consume secretHash (unixMilli now) db of
             None \<Rightarrow> (Inl (Unauthorized ''invalid or expired enrollment secret''), db)
           | Some (host, db1) \<Rightarrow>
               (case nextFreeAddr subnet (usedTunnelIPs db1) of
                  None \<Rightarrow> (Inl (OtherError ''telemetry: tunnel subnet is exhausted''), db)
                | Some ip \<Rightarrow>
                    if \<exists>r\<in>set (peers db1). fst r = host \<or> p_key (snd r) = publicKey \<or> p_ip (snd r) = addrString ip
                    then (Inl (Conflict ''public key is already enrolled''), db)
                    else (Inr \<lparr>pe_host = host, pe_key = publicKey, pe_ip = ip, pe_enrolled = truncateTo millisecond now\<rparr>,
                          db1\<lparr>peers := peers db1 @ [(host, \<lparr>p_key = publicKey, p_ip = addrString ip, p_enrolled = unixMilli now\<rparr>)]\<rparr>))))"

text \<open>\<^verbatim>\<open>ORDER BY tunnel_ip\<close>; a stored address that does not parse fails the listing.\<close>

fun readPeers :: "(string \<times> peerRow) list \<Rightarrow> peer list result" where
  "readPeers [] = Inr []"
| "readPeers ((host, r) # rs) =
     (case ParseAddr (p_ip r) of
        None \<Rightarrow> Inl (OtherError ''telemetry: stored tunnel address'')
      | Some ip \<Rightarrow>
          result_bind (readPeers rs) (\<lambda>ps. Inr (\<lparr>pe_host = host, pe_key = p_key r, pe_ip = ip, pe_enrolled = ofMilli (p_enrolled r)\<rparr> # ps)))"

definition Peers :: "error option \<Rightarrow> tdb \<Rightarrow> peer list result" where
  "Peers fault db = (case fault of Some e \<Rightarrow> Inl e | None \<Rightarrow> readPeers (sort_key (\<lambda>r. p_ip (snd r)) (peers db)))"

definition HostByTunnelIP :: "error option \<Rightarrow> addr \<Rightarrow> tdb \<Rightarrow> string option result" where
  "HostByTunnelIP fault ip db =
     (case fault of
        Some e \<Rightarrow> Inl e
      | None \<Rightarrow> Inr (map_option fst (find (\<lambda>r. p_ip (snd r) = addrString ip) (peers db))))"

subsection \<open>The service\<close>

definition CreateHostSvc ::
  "(string \<Rightarrow> string) \<Rightarrow> error option \<Rightarrow> string option \<Rightarrow> string option \<Rightarrow> string \<Rightarrow> time \<Rightarrow> tdb \<Rightarrow>
   ((string \<times> hostRow) \<times> string \<times> time) result \<times> tdb" where
  "CreateHostSvc sha fault secretRnd idRnd rawName now db =
     (let name = trimSpace rawName
      in if name = '''' \<or> 80 < length name then (Inl (Invalid ''host name must contain 1..80 bytes''), db)
         else case secretRnd of
                None \<Rightarrow> (Inl (OtherError ''telemetry: generate enrollment secret''), db)
              | Some secret \<Rightarrow>
                  let expires = now + EnrollmentTTL
                  in (case CreateEnrollableHost fault idRnd name (sha secret) now expires db of
                        (Inl e, db') \<Rightarrow> (Inl e, db')
                      | (Inr host, db') \<Rightarrow> (Inr (host, secret, expires), db')))"

text \<open>What an agent needs to reach the server, and what enrollment hands to it. \<open>addPeer\<close> tries to
  make the tunnel accept a peer; commands that only create hosts have no tunnel.\<close>

record serverInfo =
  si_key :: string
  si_endpoint :: string
  si_ip :: addr

record enrollment =
  er_host :: string
  er_ip :: addr
  er_server :: serverInfo

definition EnrollSvc ::
  "(string \<Rightarrow> string) \<Rightarrow> (string \<Rightarrow> bool) \<Rightarrow> (string \<Rightarrow> addr \<Rightarrow> 't \<Rightarrow> unit result \<times> 't) option \<Rightarrow> error option \<Rightarrow> serverInfo \<Rightarrow>
   string \<Rightarrow> string \<Rightarrow> time \<Rightarrow> prefix \<Rightarrow> tdb \<times> 't \<Rightarrow> enrollment result \<times> tdb \<times> 't" where
  "EnrollSvc sha validKey tunnel fault server secret publicKey now subnet st =
     (case st of (db, tun) \<Rightarrow>
        if \<not> validKey publicKey then (Inl (Invalid ''public_key must be a base64 WireGuard public key''), db, tun)
        else case Enroll fault (sha secret) publicKey now subnet db of
               (Inl e, db') \<Rightarrow> (Inl e, db', tun)
             | (Inr p, db') \<Rightarrow>
                 (case (case tunnel of None \<Rightarrow> (Inr (), tun) | Some addPeer \<Rightarrow> addPeer (pe_key p) (pe_ip p) tun) of
                    (Inl e, tun') \<Rightarrow> (Inl e, db', tun')
                  | (Inr _, tun') \<Rightarrow> (Inr \<lparr>er_host = pe_host p, er_ip = pe_ip p, er_server = server\<rparr>, db', tun')))"

fun addPeers :: "(string \<Rightarrow> addr \<Rightarrow> 't \<Rightarrow> unit result \<times> 't) \<Rightarrow> peer list \<Rightarrow> 't \<Rightarrow> unit result \<times> 't" where
  "addPeers addPeer [] tun = (Inr (), tun)"
| "addPeers addPeer (p # ps) tun =
     (case addPeer (pe_key p) (pe_ip p) tun of
        (Inl e, tun') \<Rightarrow> (Inl e, tun')
      | (Inr _, tun') \<Rightarrow> addPeers addPeer ps tun')"

definition RestorePeers ::
  "(string \<Rightarrow> addr \<Rightarrow> 't \<Rightarrow> unit result \<times> 't) \<Rightarrow> error option \<Rightarrow> tdb \<Rightarrow> 't \<Rightarrow> nat result \<times> 't" where
  "RestorePeers addPeer fault db tun =
     (case Peers fault db of
        Inl e \<Rightarrow> (Inl e, tun)
      | Inr ps \<Rightarrow>
          (case addPeers addPeer ps tun of
             (Inl e, tun') \<Rightarrow> (Inl e, tun')
           | (Inr _, tun') \<Rightarrow> (Inr (length ps), tun')))"

text \<open>The server's private key in the settings table. The three statements may fail one by one, and
  between the first read and the insert another starter may have stored a key of its own.\<close>

definition serverKeySetting :: string where "serverKeySetting = ''wg_server_private_key''"

definition ServerKey ::
  "error option \<Rightarrow> error option \<Rightarrow> error option \<Rightarrow> string result \<Rightarrow> (string \<rightharpoonup> string) \<Rightarrow> (string \<rightharpoonup> string) \<Rightarrow>
   string result \<times> (string \<rightharpoonup> string)" where
  "ServerKey readFault insertFault rereadFault generated settings settings' =
     (case readFault of
        Some e \<Rightarrow> (Inl e, settings)
      | None \<Rightarrow>
          (case settings serverKeySetting of
             Some key \<Rightarrow> (Inr key, settings)
           | None \<Rightarrow>
               (case generated of
                  Inl e \<Rightarrow> (Inl e, settings')
                | Inr private \<Rightarrow>
                    (case insertFault of
                       Some e \<Rightarrow> (Inl e, settings')
                     | None \<Rightarrow>
                         let stored = (if settings' serverKeySetting = None then settings'(serverKeySetting \<mapsto> private) else settings')
                         in (case rereadFault of
                               Some e \<Rightarrow> (Inl e, stored)
                             | None \<Rightarrow> (case stored serverKeySetting of
                                          None \<Rightarrow> (Inl (OtherError ''telemetry: read server key''), stored)
                                        | Some key \<Rightarrow> (Inr key, stored)))))))"

text \<open>Starters that race converge on one key: whatever a start returned, every start reading a state
  that still has that key returns the same.\<close>

lemma ServerKey_converges:
  assumes "ServerKey rf insF rr g st st' = (Inr key, st1)" and "st = st' \<or> st serverKeySetting = None"
  shows "st1 serverKeySetting = Some key" and "ServerKey None i2 r2 g2 st1 st2 = (Inr key, st1)"
  using assms by (auto simp: ServerKey_def Let_def split: option.splits sum.splits if_splits)

subsection \<open>Free addresses\<close>

lemma freeFrom_spec:
  "case freeFrom p used v of
     Some w \<Rightarrow> v \<le> w \<and> inSubnet p w \<and> \<not> broadcast p w \<and> V4 w \<notin> set used \<and> (\<forall>u. v \<le> u \<and> u < w \<longrightarrow> V4 u \<in> set used)
   | None \<Rightarrow> \<exists>stop. v \<le> stop \<and> (\<not> inSubnet p stop \<or> broadcast p stop) \<and> (\<forall>u. v \<le> u \<and> u < stop \<longrightarrow> V4 u \<in> set used)"
proof (induction p used v rule: freeFrom.induct)
  case (1 p used v)
  show ?case
  proof (cases "\<not> inSubnet p v \<or> broadcast p v \<or> V4 v \<notin> set used")
    case True
    then show ?thesis by (auto simp: freeFrom.simps [of p used v] intro: exI [of _ v])
  next
    case False
    then have eq: "freeFrom p used v = freeFrom p used (v + 1)" by (simp add: freeFrom.simps [of p used v])
    have all: "(\<forall>u. v \<le> u \<and> u < w \<longrightarrow> V4 u \<in> set used)" if "\<forall>u. v + 1 \<le> u \<and> u < w \<longrightarrow> V4 u \<in> set used" for w
    proof (intro allI impI)
      fix u assume u: "v \<le> u \<and> u < w"
      show "V4 u \<in> set used" using that False u by (cases "u = v") auto
    qed
    have IH: "case freeFrom p used (v + 1) of
        Some w \<Rightarrow> v + 1 \<le> w \<and> inSubnet p w \<and> \<not> broadcast p w \<and> V4 w \<notin> set used \<and> (\<forall>u. v + 1 \<le> u \<and> u < w \<longrightarrow> V4 u \<in> set used)
      | None \<Rightarrow> \<exists>stop. v + 1 \<le> stop \<and> (\<not> inSubnet p stop \<or> broadcast p stop) \<and> (\<forall>u. v + 1 \<le> u \<and> u < stop \<longrightarrow> V4 u \<in> set used)"
      using 1 False by simp
    show ?thesis
    proof (cases "freeFrom p used (v + 1)")
      case None
      then obtain stop where "v + 1 \<le> stop" "\<not> inSubnet p stop \<or> broadcast p stop" "\<forall>u. v + 1 \<le> u \<and> u < stop \<longrightarrow> V4 u \<in> set used"
        using IH by auto
      then show ?thesis unfolding eq None using all [of stop] by (auto intro!: exI [of _ stop])
    next
      case (Some w)
      then show ?thesis using IH all [of w] unfolding eq Some by auto
    qed
  qed
qed

lemma inSubnet_V4: "p_addr p = V4 n \<Longrightarrow> inSubnet p v \<longleftrightarrow> v < 2 ^ 32 \<and> v div 2 ^ (32 - p_bits p) = n div 2 ^ (32 - p_bits p)"
  by (simp add: inSubnet_def)

lemma inSubnet_convex: "p_addr p = V4 n \<Longrightarrow> inSubnet p a \<Longrightarrow> inSubnet p c \<Longrightarrow> a \<le> b \<Longrightarrow> b \<le> c \<Longrightarrow> inSubnet p b"
proof -
  assume p: "p_addr p = V4 n" and a: "inSubnet p a" and c: "inSubnet p c" and ab: "a \<le> b" and bc: "b \<le> c"
  let ?k = "2 ^ (32 - p_bits p) :: nat"
  have "a div ?k \<le> b div ?k" "b div ?k \<le> c div ?k" using ab bc by (simp_all add: div_le_mono)
  then show ?thesis using a c bc p by (simp add: inSubnet_V4)
qed

text \<open>The host addresses of a subnet: all but the network address, the server's and the broadcast
  address.\<close>

definition networkOf :: "prefix \<Rightarrow> nat" where
  "networkOf p = (case maskAddr (p_bits p) (p_addr p) of V4 n \<Rightarrow> n | V6 _ _ \<Rightarrow> 0)"

definition hostAddress :: "prefix \<Rightarrow> nat \<Rightarrow> bool" where
  "hostAddress p v \<longleftrightarrow> networkOf p + 2 \<le> v \<and> inSubnet p v \<and> \<not> broadcast p v"

lemma nextFreeAddr_eq: "p_addr p = V4 n \<Longrightarrow> nextFreeAddr p used = map_option V4 (freeFrom p used (networkOf p + 2))"
  by (simp add: nextFreeAddr_def networkOf_def)

lemma network_in: "p_addr p = V4 n \<Longrightarrow> n < 2 ^ 32 \<Longrightarrow> inSubnet p (networkOf p)"
  using le_less_trans [OF div_times_less_eq_dividend [of n "2 ^ (32 - p_bits p)"]] by (simp add: inSubnet_V4 networkOf_def)

lemma nextFreeAddr_spec:
  assumes "p_addr p = V4 n" and "n < 2 ^ 32"
  shows "case nextFreeAddr p used of
     Some ip \<Rightarrow> \<exists>w. ip = V4 w \<and> hostAddress p w \<and> V4 w \<notin> set used \<and> (\<forall>u. hostAddress p u \<and> u < w \<longrightarrow> V4 u \<in> set used)
   | None \<Rightarrow> \<forall>u. hostAddress p u \<longrightarrow> V4 u \<in> set used"
proof (cases "freeFrom p used (networkOf p + 2)")
  case (Some w)
  then show ?thesis
    using freeFrom_spec [of "networkOf p + 2" p used] assms(1)
    by (auto simp: nextFreeAddr_eq hostAddress_def)
next
  case None
  then obtain stop where stop: "networkOf p + 2 \<le> stop" "\<not> inSubnet p stop \<or> broadcast p stop"
    "\<forall>u. networkOf p + 2 \<le> u \<and> u < stop \<longrightarrow> V4 u \<in> set used"
    using freeFrom_spec [of "networkOf p + 2" p used] by auto
  have "V4 u \<in> set used" if u: "hostAddress p u" for u
  proof -
    have in_u: "inSubnet p u" "inSubnet p (u + 1)" "networkOf p + 2 \<le> u"
      using u by (auto simp: hostAddress_def broadcast_def)
    have "u < stop"
    proof (rule ccontr)
      assume "\<not> u < stop"
      then have "inSubnet p stop" "inSubnet p (stop + 1)"
        using inSubnet_convex [OF assms(1) network_in [OF assms] in_u(2)] stop(1) by auto
      then show False using stop(2) by (simp add: broadcast_def)
    qed
    then show ?thesis using stop(3) in_u(3) by blast
  qed
  then show ?thesis using None assms(1) by (simp add: nextFreeAddr_eq)
qed

subsection \<open>What the peer table keeps\<close>

definition ipv4 :: "prefix \<Rightarrow> bool" where
  "ipv4 p \<longleftrightarrow> (\<exists>n. p_addr p = V4 n \<and> n < 2 ^ 32)"

definition peers_inv :: "prefix \<Rightarrow> tdb \<Rightarrow> bool" where
  "peers_inv p db \<longleftrightarrow>
     distinct (map (\<lambda>e. snd (fst e)) (enrollments db)) \<and>
     wf_table (peers db) \<and> distinct (map (\<lambda>r. p_key (snd r)) (peers db)) \<and> distinct (map (\<lambda>r. p_ip (snd r)) (peers db)) \<and>
     (\<forall>r\<in>set (peers db). \<exists>v. p_ip (snd r) = v4String v \<and> hostAddress p v)"

lemma CreateEnrollableHost_inv: "peers_inv p db \<Longrightarrow> peers_inv p (snd (CreateEnrollableHost fault rnd name sh now ex db))"
  by (auto simp: CreateEnrollableHost_def Let_def peers_inv_def split: option.splits)

text \<open>A successful enrollment, spelled out.\<close>

lemma Enroll_Inr:
  assumes "Enroll fault sh key now p db = (Inr pe, db')"
  shows "\<exists>db1. consume sh (unixMilli now) db = Some (pe_host pe, db1) \<and> nextFreeAddr p (usedTunnelIPs db1) = Some (pe_ip pe) \<and>
     (\<forall>r\<in>set (peers db1). fst r \<noteq> pe_host pe \<and> p_key (snd r) \<noteq> key \<and> p_ip (snd r) \<noteq> addrString (pe_ip pe)) \<and>
     db' = db1\<lparr>peers := peers db1 @ [(pe_host pe, \<lparr>p_key = key, p_ip = addrString (pe_ip pe), p_enrolled = unixMilli now\<rparr>)]\<rparr>"
  using assms by (auto simp: Enroll_def split: option.splits if_splits; force)

lemma Enroll_frame:
  assumes "Enroll fault sh key now p db = (Inr pe, db')"
  shows "\<exists>db1. consume sh (unixMilli now) db = Some (pe_host pe, db1) \<and> enrollments db' = enrollments db1 \<and> set (peers db1) \<subseteq> set (peers db')"
proof -
  obtain db1 where c: "consume sh (unixMilli now) db = Some (pe_host pe, db1)"
    and db': "db' = db1\<lparr>peers := peers db1 @ [(pe_host pe, \<lparr>p_key = key, p_ip = addrString (pe_ip pe), p_enrolled = unixMilli now\<rparr>)]\<rparr>"
    using Enroll_Inr [OF assms] by blast
  show ?thesis by (rule exI [of _ db1]) (simp add: c db' subset_iff)
qed

lemma Enroll_Inl: "Enroll fault sh key now p db = (Inl e, db') \<Longrightarrow> db' = db"
  by (auto simp: Enroll_def split: option.splits if_splits)

lemma consume_frame:
  assumes "consume sh t db = Some (host, db1)"
  shows "peers db1 = peers db" and "map fst (enrollments db1) = map fst (enrollments db)"
    and "\<exists>r\<in>set (enrollments db). usable sh t r \<and> fst (fst r) = host"
  using assms
  by (auto simp: consume_def comp_def split: option.splits dest!: find_Some_iff [THEN iffD1] intro!: bexI [OF _ nth_mem])

lemma Enroll_inv:
  assumes "ipv4 p" and "peers_inv p db"
  shows "peers_inv p (snd (Enroll fault sh key now p db))"
proof (cases "Enroll fault sh key now p db")
  case (Pair r db')
  show ?thesis
  proof (cases r)
    case (Inl e)
    then show ?thesis using Pair Enroll_Inl [of fault sh key now p db e db'] assms(2) by simp
  next
    case (Inr pe)
    obtain db1 where c: "consume sh (unixMilli now) db = Some (pe_host pe, db1)"
      and f: "nextFreeAddr p (usedTunnelIPs db1) = Some (pe_ip pe)"
      and new: "\<forall>r\<in>set (peers db1). fst r \<noteq> pe_host pe \<and> p_key (snd r) \<noteq> key \<and> p_ip (snd r) \<noteq> addrString (pe_ip pe)"
      and db': "db' = db1\<lparr>peers := peers db1 @ [(pe_host pe, \<lparr>p_key = key, p_ip = addrString (pe_ip pe), p_enrolled = unixMilli now\<rparr>)]\<rparr>"
      using Pair Inr Enroll_Inr [of fault sh key now p db pe db'] by blast
    obtain w where w: "pe_ip pe = V4 w" "hostAddress p w"
      using nextFreeAddr_spec [of p _ "usedTunnelIPs db1"] f assms(1) by (fastforce simp: ipv4_def)
    have "map (\<lambda>e. snd (fst e)) (enrollments db1) = map (\<lambda>e. snd (fst e)) (enrollments db)"
      using arg_cong [OF consume_frame(2) [OF c], of "map snd"] by (simp add: comp_def)
    then show ?thesis
      using Pair db' new w assms(2) consume_frame(1) [OF c] by (auto simp: peers_inv_def)
  qed
qed

inductive enroll_step :: "prefix \<Rightarrow> tdb \<Rightarrow> tdb \<Rightarrow> bool" for p where
  create: "enroll_step p db (snd (CreateEnrollableHost fault rnd name sh now ex db))"
| enroll: "enroll_step p db (snd (Enroll fault sh key now p db))"

lemma enroll_reach_inv: "(enroll_step p)\<^sup>*\<^sup>* db db' \<Longrightarrow> ipv4 p \<Longrightarrow> peers_inv p db \<Longrightarrow> peers_inv p db'"
  by (induction rule: rtranclp_induct) (auto elim!: enroll_step.cases intro: CreateEnrollableHost_inv Enroll_inv)

text \<open>A secret that was used stays used, and its hash is never issued again.\<close>

definition spent :: "string \<Rightarrow> tdb \<Rightarrow> bool" where
  "spent sh db \<longleftrightarrow> sh \<in> set (map (\<lambda>e. snd (fst e)) (enrollments db)) \<and>
     (\<forall>e\<in>set (enrollments db). snd (fst e) = sh \<longrightarrow> en_used (snd e) \<noteq> None)"

lemma consume_enrollments:
  "consume sh t db = Some (host, db1) \<Longrightarrow>
   enrollments db1 = map (\<lambda>r. if usable sh t r then (fst r, (snd r)\<lparr>en_used := Some t\<rparr>) else r) (enrollments db)"
  by (auto simp: consume_def split: option.splits)

lemma consume_hashes:
  "consume sh t db = Some (host, db1) \<Longrightarrow> map (\<lambda>e. snd (fst e)) (enrollments db1) = map (\<lambda>e. snd (fst e)) (enrollments db)"
  using arg_cong [OF consume_frame(2), of sh t db host db1 "map snd"] by (simp add: comp_def)

lemma consume_spent:
  assumes "consume sh t db = Some (host, db1)" and "distinct (map (\<lambda>e. snd (fst e)) (enrollments db))"
  shows "spent sh db1"
proof -
  obtain r where r: "r \<in> set (enrollments db)" "usable sh t r" using consume_frame(3) [OF assms(1)] by blast
  have "e = r" if "e \<in> set (enrollments db)" "snd (fst e) = sh" for e
    using assms(2) r that by (auto simp: distinct_map usable_def dest: inj_onD)
  then have "\<forall>e\<in>set (enrollments db1). snd (fst e) = sh \<longrightarrow> en_used (snd e) \<noteq> None"
    unfolding consume_enrollments [OF assms(1)] using r by auto
  moreover have "sh \<in> set (map (\<lambda>e. snd (fst e)) (enrollments db1))"
    unfolding consume_hashes [OF assms(1)] using r by (auto simp: usable_def)
  ultimately show ?thesis by (simp add: spent_def)
qed

lemma spent_consume: "spent sh db \<Longrightarrow> consume sh t db = None"
proof -
  assume "spent sh db"
  then have "find (usable sh t) (enrollments db) = None"
    by (auto simp: spent_def usable_def find_None_iff)
  then show ?thesis by (simp add: consume_def)
qed

lemma spent_consume_other:
  assumes "spent sh db" and c: "consume sh' t db = Some (host, db1)"
  shows "spent sh db1"
proof -
  have "\<forall>e\<in>set (enrollments db1). snd (fst e) = sh \<longrightarrow> en_used (snd e) \<noteq> None"
    unfolding consume_enrollments [OF c] using assms(1) by (auto simp: spent_def)
  then show ?thesis using assms(1) unfolding spent_def consume_hashes [OF c] by blast
qed

lemma spent_step: "enroll_step p db db' \<Longrightarrow> spent sh db \<Longrightarrow> spent sh db'"
proof (induction rule: enroll_step.induct)
  case (create db fault rnd name sh' now ex)
  then show ?case by (auto simp: CreateEnrollableHost_def Let_def spent_def split: option.splits)
next
  case (enroll db fault sh' key now)
  obtain r db' where e: "Enroll fault sh' key now p db = (r, db')" by fastforce
  show ?case
  proof (cases r)
    case (Inl x)
    then show ?thesis using e Enroll_Inl [of fault sh' key now p db x db'] enroll by simp
  next
    case (Inr pe)
    obtain db1 where "consume sh' (unixMilli now) db = Some (pe_host pe, db1)" and db': "enrollments db' = enrollments db1"
      using Enroll_frame [OF e [unfolded Inr]] by blast
    then have "spent sh db1" using spent_consume_other enroll by blast
    then show ?thesis using e db' by (simp add: spent_def)
  qed
qed

lemma spent_reach: "(enroll_step p)\<^sup>*\<^sup>* db db' \<Longrightarrow> spent sh db \<Longrightarrow> spent sh db'"
  by (induction rule: rtranclp_induct) (auto intro: spent_step)

lemma step_peers: "enroll_step p db db' \<Longrightarrow> set (peers db) \<subseteq> set (peers db')"
proof (induction rule: enroll_step.induct)
  case (create db fault rnd name sh now ex)
  then show ?case by (auto simp: CreateEnrollableHost_def Let_def split: option.splits)
next
  case (enroll db fault sh key now)
  obtain r db' where e: "Enroll fault sh key now p db = (r, db')" by fastforce
  show ?case
  proof (cases r)
    case (Inl x)
    then show ?thesis using e Enroll_Inl [of fault sh key now p db x db'] by simp
  next
    case (Inr pe)
    obtain db1 where "consume sh (unixMilli now) db = Some (pe_host pe, db1)" and "set (peers db1) \<subseteq> set (peers db')"
      using Enroll_frame [OF e [unfolded Inr]] by blast
    then show ?thesis using e consume_frame(1) by fastforce
  qed
qed

lemma reach_peers: "(enroll_step p)\<^sup>*\<^sup>* db db' \<Longrightarrow> set (peers db) \<subseteq> set (peers db')"
  by (induction rule: rtranclp_induct) (use step_peers in blast)+

lemma hostAddress_small: "hostAddress p v \<Longrightarrow> v < 2 ^ 32"
  by (simp add: hostAddress_def inSubnet_def)

lemma find_by_ip:
  assumes "distinct (map (\<lambda>r. p_ip (snd r)) rs)" and "r \<in> set rs"
  shows "find (\<lambda>x. p_ip (snd x) = p_ip (snd r)) rs = Some r"
  using assms
proof (induction rs)
  case (Cons x rs)
  then show ?case by auto
qed simp

lemma EnrollSvc_stored:
  assumes "EnrollSvc sha validKey tunnel fault server secret key now p (db, tun) = (Inr en, db', tun')"
  shows "\<exists>pe. Enroll fault (sha secret) key now p db = (Inr pe, db') \<and> pe_host pe = er_host en \<and> pe_ip pe = er_ip en"
  using assms by (auto simp: EnrollSvc_def split: if_splits prod.splits sum.splits)

subsection \<open>Properties\<close>

text \<open>C20 (safety). An enrollment secret works at most once: after a successful enrollment, and after any
  further registrations and enrollments, the same secret is refused as unauthorized, whatever
  key or clock it comes with, and nothing changes.\<close>

theorem secret_single_use:
  assumes "peers_inv p db" and "Enroll fault (sha secret) key now p db = (Inr pe, db')" and "(enroll_step p)\<^sup>*\<^sup>* db' db''"
  shows "Enroll None (sha secret) key' now' p db'' = (Inl (Unauthorized ''invalid or expired enrollment secret''), db'')"
proof -
  obtain db1 where c: "consume (sha secret) (unixMilli now) db = Some (pe_host pe, db1)" and "enrollments db' = enrollments db1"
    using Enroll_frame [OF assms(2)] by blast
  then have "spent (sha secret) db'" using consume_spent [OF c] assms(1) by (simp add: spent_def peers_inv_def)
  then have "spent (sha secret) db''" by (rule spent_reach [OF assms(3)])
  then show ?thesis by (simp add: Enroll_def spent_consume)
qed

lemma enrolled_address:
  assumes "ipv4 p" and "peers_inv p db"
    and "EnrollSvc sha validKey tunnel fault server secret key now p (db, tun) = (Inr en, db', tun')"
    and "(enroll_step p)\<^sup>*\<^sup>* db' db''"
  shows "peers_inv p db'' \<and> HostByTunnelIP None (er_ip en) db'' = Inr (Some (er_host en)) \<and> (\<exists>v. er_ip en = V4 v \<and> hostAddress p v)"
proof -
  define host ip where "host = er_host en" and "ip = er_ip en"
  obtain pe where e: "Enroll fault (sha secret) key now p db = (Inr pe, db')" and pe: "pe_host pe = host" "pe_ip pe = ip"
    using EnrollSvc_stored [OF assms(3)] unfolding host_def ip_def by blast
  have "(enroll_step p)\<^sup>*\<^sup>* db db''"
    using enroll_step.enroll [of p db fault "sha secret" key now] e assms(4) by (simp add: converse_rtranclp_into_rtranclp)
  then have inv: "peers_inv p db''" using assms(1,2) by (rule enroll_reach_inv)
  define r where "r = \<lparr>p_key = key, p_ip = addrString ip, p_enrolled = unixMilli now\<rparr>"
  have r: "(host, r) \<in> set (peers db')" "p_ip r = addrString ip"
    using Enroll_Inr [OF e] pe by (auto simp: r_def)
  then have r'': "(host, r) \<in> set (peers db'')" using reach_peers [OF assms(4)] by blast
  have "find (\<lambda>x. p_ip (snd x) = p_ip (snd (host, r))) (peers db'') = Some (host, r)"
    using inv r'' by (intro find_by_ip) (auto simp: peers_inv_def)
  then have look: "HostByTunnelIP None ip db'' = Inr (Some host)" using r(2) by (simp add: HostByTunnelIP_def)
  obtain db1 where "nextFreeAddr p (usedTunnelIPs db1) = Some ip" using Enroll_Inr [OF e] pe by blast
  then have "\<exists>v. ip = V4 v \<and> hostAddress p v"
    using nextFreeAddr_spec [of p _ "usedTunnelIPs db1"] assms(1) by (fastforce simp: ipv4_def)
  then show ?thesis using inv look unfolding host_def ip_def by blast
qed

text \<open>Tunnel addresses identify hosts: in every state reachable from a consistent one,
  peers have pairwise different hosts, keys and addresses, every address is a host address of the
  subnet (never the network, the server or the broadcast address), and the address a host was
  given resolves to that host for ever.\<close>

lemma tunnel_address_identifies_host:
  assumes "ipv4 p" and "peers_inv p db"
    and "EnrollSvc sha validKey tunnel fault server secret key now p (db, tun) = (Inr en, db', tun')"
    and "(enroll_step p)\<^sup>*\<^sup>* db' db''"
  shows "peers_inv p db'' \<and> HostByTunnelIP None (er_ip en) db'' = Inr (Some (er_host en)) \<and> (\<exists>v. er_ip en = V4 v \<and> hostAddress p v)"
  using assms by (rule enrolled_address)

text \<open>The address given is the lowest free host address of the subnet; none is given
  exactly when all are taken.\<close>

lemma nextFreeAddr_lowest:
  assumes "ipv4 p"
  shows "case nextFreeAddr p used of
     Some ip \<Rightarrow> \<exists>w. ip = V4 w \<and> hostAddress p w \<and> ip \<notin> set used \<and> (\<forall>u<w. hostAddress p u \<longrightarrow> V4 u \<in> set used)
   | None \<Rightarrow> \<forall>u. hostAddress p u \<longrightarrow> V4 u \<in> set used"
  using assms nextFreeAddr_spec [of p _ used] by (fastforce simp: ipv4_def split: option.splits)

text \<open>The subnet 10.77.0.0/24 and a registered host, to run the definitions.\<close>

definition demoSubnet :: prefix where "demoSubnet = \<lparr>p_addr = V4 172818432, p_bits = 24\<rparr>"
definition demoEnroll :: tdb where
  "demoEnroll = demoDb\<lparr>enrollments := [((''h1'', ''hash:s''), \<lparr>en_expires = 3600000, en_used = None\<rparr>)]\<rparr>"
definition demoSha :: "string \<Rightarrow> string" where "demoSha s = ''hash:'' @ s"
definition demoServer :: serverInfo where "demoServer = \<lparr>si_key = ''sk'', si_endpoint = ''vps:51820'', si_ip = V4 172818433\<rparr>"
definition demoAddPeer :: "string \<Rightarrow> addr \<Rightarrow> nat \<Rightarrow> unit result \<times> nat" where "demoAddPeer k ip n = (Inr (), n + 1)"

lemma demoSubnet_ipv4: "ipv4 demoSubnet"
  by (simp add: ipv4_def demoSubnet_def)

lemma demoEnroll_inv: "peers_inv p demoEnroll"
  by (simp add: peers_inv_def demoEnroll_def demoDb_def)

lemma demo_free: "nextFreeAddr demoSubnet [] = Some (V4 172818434)"
  by (simp add: nextFreeAddr_def demoSubnet_def freeFrom.simps inSubnet_def broadcast_def)

lemma demoEnroll_any:
  "\<exists>db'. Enroll None (demoSha ''s'') key second demoSubnet demoEnroll =
     (Inr \<lparr>pe_host = ''h1'', pe_key = key, pe_ip = V4 172818434, pe_enrolled = second\<rparr>, db')"
proof -
  obtain db1 where c: "consume (demoSha ''s'') (unixMilli second) demoEnroll = Some (''h1'', db1)"
    by (simp add: consume_def demoEnroll_def demoDb_def usable_def demoSha_def unixMilli_def)
  then have "peers db1 = []" using consume_frame(1) [OF c] by (simp add: demoEnroll_def demoDb_def)
  moreover have "truncateTo millisecond second = second" by (simp add: truncateTo_def)
  ultimately show ?thesis using c by (simp add: Enroll_def usedTunnelIPs_def map_filter_simps demo_free)
qed

lemma demoEnroll_ok:
  "\<exists>db'. Enroll None (demoSha ''s'') ''pk'' second demoSubnet demoEnroll =
     (Inr \<lparr>pe_host = ''h1'', pe_key = ''pk'', pe_ip = V4 172818434, pe_enrolled = second\<rparr>, db')"
  by (rule demoEnroll_any)

theorem secret_single_use_witness:
  "\<exists>pe db'. Enroll None (demoSha ''s'') ''pk'' second demoSubnet demoEnroll = (Inr pe, db') \<and>
     Enroll None (demoSha ''s'') ''other'' second demoSubnet db' = (Inl (Unauthorized ''invalid or expired enrollment secret''), db')"
  using demoEnroll_ok secret_single_use [OF demoEnroll_inv, where sha = demoSha] by blast

lemma tunnel_address_identifies_host_witness:
  "\<exists>db' tun'. EnrollSvc demoSha (\<lambda>_. True) (Some demoAddPeer) None demoServer ''s'' ''pk'' second demoSubnet (demoEnroll, 0) =
       (Inr \<lparr>er_host = ''h1'', er_ip = V4 172818434, er_server = demoServer\<rparr>, db', tun') \<and> HostByTunnelIP None (V4 172818434) db' = Inr (Some ''h1'')"
proof -
  obtain db' where "Enroll None (demoSha ''s'') ''pk'' second demoSubnet demoEnroll =
      (Inr \<lparr>pe_host = ''h1'', pe_key = ''pk'', pe_ip = V4 172818434, pe_enrolled = second\<rparr>, db')"
    using demoEnroll_ok by blast
  then have e: "EnrollSvc demoSha (\<lambda>_. True) (Some demoAddPeer) None demoServer ''s'' ''pk'' second demoSubnet (demoEnroll, 0) =
      (Inr \<lparr>er_host = ''h1'', er_ip = V4 172818434, er_server = demoServer\<rparr>, db', 1)"
    by (simp add: EnrollSvc_def demoAddPeer_def)
  show ?thesis
    using e tunnel_address_identifies_host [OF demoSubnet_ipv4 demoEnroll_inv e rtranclp.rtrancl_refl] by auto
qed

lemma nextFreeAddr_lowest_witness:
  "ipv4 demoSubnet \<and> (\<exists>w. nextFreeAddr demoSubnet [] = Some (V4 w) \<and> hostAddress demoSubnet w)"
  using nextFreeAddr_lowest [OF demoSubnet_ipv4, of "[]"] demoSubnet_ipv4 demo_free by auto

end
