(* ===== verification/Operator_Domain.thy ===== *)
theory Operator_Domain
  imports Labels Apierror
begin

section \<open>Operator commands, reports and incidents (internal/operator/domain/domain.go)\<close>

text \<open>
  The closed set of commands with their arguments, the host's report and the incident form. The JSON
  decoder is the argument \<open>decodeArgs\<close> (with unknown fields refused) or \<open>unmarshalArgs\<close> (with unknown
  fields ignored), \<open>jsonValid\<close> is \<^verbatim>\<open>json.Valid\<close>; the encoder is modelled, with the quoting of theory
  \<open>Labels\<close>. A Go map that is ranged over comes as the list of its keys in iteration order.
\<close>

datatype cmdKind = KindWarn | KindSuspend | KindTerminate | KindLift | KindRefundExecute | KindAccountShow | OtherKind string

fun kindString :: "cmdKind \<Rightarrow> string" where
  "kindString KindWarn = ''warn''"
| "kindString KindSuspend = ''suspend''"
| "kindString KindTerminate = ''terminate''"
| "kindString KindLift = ''lift''"
| "kindString KindRefundExecute = ''refund_execute''"
| "kindString KindAccountShow = ''account_show''"
| "kindString (OtherKind s) = s"

definition Kinds :: "cmdKind list" where
  "Kinds = [KindWarn, KindSuspend, KindTerminate, KindLift, KindRefundExecute, KindAccountShow]"

definition Valid :: "cmdKind \<Rightarrow> bool" where
  "Valid k = list_ex (\<lambda>known. kindString k = kindString known) Kinds"

definition NeedsReason :: "cmdKind \<Rightarrow> bool" where
  "NeedsReason k \<longleftrightarrow> k = KindWarn \<or> k = KindSuspend \<or> k = KindTerminate"

definition NeedsStepUp :: "cmdKind \<Rightarrow> bool" where
  "NeedsStepUp k \<longleftrightarrow> k = KindTerminate \<or> k = KindRefundExecute"

text \<open>A kind is read from its text, so \<open>OtherKind\<close> never holds the text of a listed kind.\<close>

definition parseKind :: "string \<Rightarrow> cmdKind" where
  "parseKind s = (case find (\<lambda>k. kindString k = s) Kinds of Some k \<Rightarrow> k | None \<Rightarrow> OtherKind s)"

datatype status = StatusQueued | StatusRunning | StatusDone | StatusFailed | StatusExpired | OtherStatus string

definition MaxReasonBytes :: nat where "MaxReasonBytes = 300"
definition MaxNoteBytes :: nat where "MaxNoteBytes = 1000"
definition MaxEmailBytes :: nat where "MaxEmailBytes = 320"
definition MaxResultBytes :: nat where "MaxResultBytes = 65536"
definition MaxErrorBytes :: nat where "MaxErrorBytes = 2048"
definition MaxResultBody :: nat where "MaxResultBody = 81920"
definition ClaimBatch :: nat where "ClaimBatch = 5"
definition QueuedExpiry :: duration where "QueuedExpiry = 10 * minute"
definition RunningExpiry :: duration where "RunningExpiry = 5 * minute"
definition ResultRetention :: duration where "ResultRetention = 30 * day"
definition AuditRetention :: duration where "AuditRetention = 3 * 365 * day"
definition DefaultListLimit :: int where "DefaultListLimit = 50"
definition MaxListLimit :: int where "MaxListLimit = 200"

subsection \<open>Commands\<close>

record newCommand =
  nc_host :: string
  nc_kind :: cmdKind
  nc_args :: string
  nc_reason :: string
  nc_password :: string

record commandArgs =
  a_user :: "string option"
  a_email :: "string option"
  a_days :: "int option"
  a_compensate :: "bool option"
  a_refund :: "string option"
  a_note :: "string option"
  a_reason :: "string option"

definition uuidPattern :: "string \<Rightarrow> bool" where
  "uuidPattern s \<longleftrightarrow> length s = 36 \<and>
     list_all (\<lambda>(i, c). if i \<in> {8, 13, 18, 23} then c = CHR ''-'' else isHex c) (zip [0..<36] s)"

definition addressChar :: "char \<Rightarrow> bool" where
  "addressChar c \<longleftrightarrow> c \<noteq> CHR ''@'' \<and> byte c \<notin> {9, 10, 12, 13, 32}"

definition emailPattern :: "string \<Rightarrow> bool" where
  "emailPattern s \<longleftrightarrow> takeWhile addressChar s \<noteq> [] \<and>
     (case dropWhile addressChar s of
        [] \<Rightarrow> False
      | c # r \<Rightarrow> c = CHR ''@'' \<and> r \<noteq> [] \<and> list_all addressChar r)"

definition checkText :: "string \<Rightarrow> string \<Rightarrow> nat \<Rightarrow> unit result" where
  "checkText field v maxLen =
     (if v = [] \<or> maxLen < length v \<or> \<not> validString v then Inl (Invalid (field @ '' must contain 1..'' @ itoa maxLen @ '' bytes''))
      else if hasControl (map byte v) then Inl (Invalid (field @ '' must not contain control characters''))
      else Inr ())"

fun allowedArgs :: "cmdKind \<Rightarrow> string list" where
  "allowedArgs KindWarn = [''user'', ''email'', ''note'']"
| "allowedArgs KindTerminate = [''user'', ''email'', ''note'']"
| "allowedArgs KindSuspend = [''user'', ''email'', ''note'', ''days'']"
| "allowedArgs KindLift = [''user'', ''email'', ''compensate'']"
| "allowedArgs KindAccountShow = [''user'', ''email'']"
| "allowedArgs KindRefundExecute = [''refund'']"
| "allowedArgs (OtherKind _) = []"

definition presentArgs :: "commandArgs \<Rightarrow> (string \<times> bool) list" where
  "presentArgs a =
     [(''user'', a_user a \<noteq> None), (''email'', a_email a \<noteq> None), (''days'', a_days a \<noteq> None),
      (''compensate'', a_compensate a \<noteq> None), (''refund'', a_refund a \<noteq> None), (''note'', a_note a \<noteq> None)]"

text \<open>The encoder of the argument object: absent fields are left out.\<close>

definition intText :: "int \<Rightarrow> string" where
  "intText n = (if n < 0 then CHR ''-'' # itoa (nat (- n)) else itoa (nat n))"

definition stringField :: "string \<Rightarrow> string option \<Rightarrow> nat list list" where
  "stringField name v = (case v of None \<Rightarrow> [] | Some s \<Rightarrow> [quoted name @ 58 # quoted s])"

fun commaJoin :: "nat list list \<Rightarrow> nat list" where
  "commaJoin [] = []"
| "commaJoin [f] = f"
| "commaJoin (f # g # fs) = f @ 44 # commaJoin (g # fs)"

definition marshalArgs :: "commandArgs \<Rightarrow> string" where
  "marshalArgs a = map char_of ([123] @ commaJoin
     (stringField ''user'' (a_user a) @ stringField ''email'' (a_email a) @
      (case a_days a of None \<Rightarrow> [] | Some n \<Rightarrow> [quoted ''days'' @ 58 # map byte (intText n)]) @
      (case a_compensate a of None \<Rightarrow> [] | Some b \<Rightarrow> [quoted ''compensate'' @ 58 # map byte (if b then ''true'' else ''false'')]) @
      stringField ''refund'' (a_refund a) @ stringField ''note'' (a_note a) @ stringField ''reason'' (a_reason a)) @ [125])"

definition checkTarget :: "cmdKind \<Rightarrow> commandArgs \<Rightarrow> unit result" where
  "checkTarget k a =
     (if k = KindRefundExecute then
        (case a_refund a of
           None \<Rightarrow> Inl (Invalid ''args.refund must be a refund UUID'')
         | Some r \<Rightarrow> if uuidPattern r then Inr () else Inl (Invalid ''args.refund must be a refund UUID''))
      else if (a_user a = None) = (a_email a = None) then Inl (Invalid ''args must name exactly one of user or email'')
      else if (case a_user a of None \<Rightarrow> False | Some u \<Rightarrow> \<not> uuidPattern u) then Inl (Invalid ''args.user must be an account UUID'')
      else if (case a_email a of None \<Rightarrow> False | Some e \<Rightarrow> MaxEmailBytes < length e \<or> \<not> emailPattern e)
      then Inl (Invalid ''args.email must be an address of at most 320 bytes'')
      else Inr ())"

text \<open>The checks of \<^verbatim>\<open>Validate\<close>, with the argument object they let through, and \<^verbatim>\<open>Validate\<close> itself, which
  encodes it.\<close>

definition checkedArgs ::
  "(string \<Rightarrow> string + commandArgs) \<Rightarrow> string list \<Rightarrow> newCommand \<Rightarrow> commandArgs result" where
  "checkedArgs decodeArgs order n =
     (if \<not> Valid (nc_kind n) then Inl (Invalid ''kind must be one of warn, suspend, terminate, lift, refund_execute, account_show'')
      else if trimSpace (nc_host n) = [] then Inl (Invalid ''host_id is required'')
      else
        let raw = (if trimSpace (nc_args n) = [] then ''{}'' else nc_args n)
        in case decodeArgs raw of
             Inl msg \<Rightarrow> Inl (Invalid (''args: '' @ trimPrefix msg ''json: ''))
           | Inr a \<Rightarrow>
               if a_reason a \<noteq> None then Inl (Invalid ''args.reason: the reason is a top-level field'')
               else case find (\<lambda>name. map_of (presentArgs a) name = Some True \<and> name \<notin> set (allowedArgs (nc_kind n))) order of
                      Some name \<Rightarrow> Inl (Invalid (''args.'' @ name @ '' is not accepted for '' @ kindString (nc_kind n)))
                    | None \<Rightarrow>
                        result_bind (checkTarget (nc_kind n) a) (\<lambda>_.
                        if nc_kind n = KindSuspend \<and> (case a_days a of None \<Rightarrow> True | Some d \<Rightarrow> d < 1 \<or> 30 < d)
                        then Inl (Invalid ''args.days must be 1..30'')
                        else
                          result_bind (case a_note a of None \<Rightarrow> Inr () | Some t \<Rightarrow> checkText ''args.note'' t MaxNoteBytes) (\<lambda>_.
                          let reason = trimSpace (nc_reason n)
                          in if NeedsReason (nc_kind n) then
                               result_bind (checkText ''reason'' reason MaxReasonBytes) (\<lambda>_. Inr (a\<lparr>a_reason := Some reason\<rparr>))
                             else if reason \<noteq> [] then Inl (Invalid ''reason is only for warn, suspend and terminate'')
                             else Inr a)))"

definition Validate :: "(string \<Rightarrow> string + commandArgs) \<Rightarrow> string list \<Rightarrow> newCommand \<Rightarrow> string result" where
  "Validate decodeArgs order n = result_bind (checkedArgs decodeArgs order n) (\<lambda>a. Inr (marshalArgs a))"

definition Target :: "(string \<Rightarrow> commandArgs option) \<Rightarrow> string \<Rightarrow> string" where
  "Target unmarshalArgs raw =
     (case unmarshalArgs raw of
        None \<Rightarrow> []
      | Some a \<Rightarrow>
          (case a_user a of
             Some u \<Rightarrow> ''user:'' @ u
           | None \<Rightarrow> (case a_email a of
                        Some e \<Rightarrow> ''email:'' @ e
                      | None \<Rightarrow> (case a_refund a of Some r \<Rightarrow> ''refund:'' @ r | None \<Rightarrow> []))))"

subsection \<open>Reports\<close>

record report =
  rp_status :: status
  rp_result :: "string option"
  rp_error :: string

definition reportValidate :: "(string \<Rightarrow> bool) \<Rightarrow> report \<Rightarrow> report result" where
  "reportValidate jsonValid r =
     (if rp_status r \<noteq> StatusDone \<and> rp_status r \<noteq> StatusFailed then Inl (Invalid ''status must be done or failed'')
      else
        let trimmed = trimSpace (case rp_result r of None \<Rightarrow> [] | Some s \<Rightarrow> s);
            err = (if MaxErrorBytes < length (rp_error r) then toValidUTF8 (drop (length (rp_error r) - MaxErrorBytes) (rp_error r)) else rp_error r)
        in if trimmed = [] \<or> trimmed = ''null'' then Inr (r\<lparr>rp_result := None, rp_error := err\<rparr>)
           else if MaxResultBytes < length trimmed \<or> hd trimmed \<noteq> CHR ''{'' \<or> \<not> jsonValid trimmed
           then Inl (Invalid ''result must be a JSON object of at most 64 KiB'')
           else Inr (r\<lparr>rp_result := Some trimmed, rp_error := err\<rparr>))"

subsection \<open>Incidents\<close>

datatype incidentKind = IncidentLeak | IncidentOutage | IncidentOther | OtherIncident string

record incidentInput =
  in_title :: string
  in_kind :: incidentKind
  in_detected :: "time option"
  in_scope :: string
  in_people :: "int option"
  in_measures :: string
  in_rknPrimary :: "time option"
  in_rknFinal :: "time option"
  in_notified :: "time option"
  in_notes :: string
  in_closed :: "time option"

definition incidentTexts :: "incidentInput \<Rightarrow> (string \<times> string) list" where
  "incidentTexts i = [(''scope'', in_scope i), (''measures'', in_measures i), (''notes'', in_notes i)]"

definition tooLong :: "incidentInput \<Rightarrow> string \<Rightarrow> bool" where
  "tooLong i name = (case map_of (incidentTexts i) name of None \<Rightarrow> False | Some t \<Rightarrow> 10000 < length t)"

definition incidentValidate :: "time \<Rightarrow> string list \<Rightarrow> incidentInput \<Rightarrow> incidentInput result" where
  "incidentValidate now order i =
     (let i1 = i\<lparr>in_title := trimSpace (in_title i)\<rparr>
      in if in_title i1 = [] \<or> 200 < length (in_title i1) then Inl (Invalid ''title must contain 1..200 bytes'')
         else if in_kind i1 \<notin> {IncidentLeak, IncidentOutage, IncidentOther} then Inl (Invalid ''kind must be leak, outage or other'')
         else
           let detected = (case in_detected i1 of None \<Rightarrow> now | Some t \<Rightarrow> t);
               i2 = i1\<lparr>in_detected := Some detected\<rparr>
           in if now + 5 * minute < detected then Inl (Invalid ''detected_at must not be in the future'')
              else case find (tooLong i2) order of
                     Some name \<Rightarrow> Inl (Invalid (name @ '' must contain at most 10000 bytes''))
                   | None \<Rightarrow>
                       if (case in_people i2 of None \<Rightarrow> False | Some p \<Rightarrow> p < 0) then Inl (Invalid ''people_affected must not be negative'')
                       else Inr i2)"

subsection \<open>The contract of a command\<close>

text \<open>The per-kind schema of the arguments, written as a table: whom the command is about, and the fields
  that may and must be there.\<close>

definition accountTarget :: "commandArgs \<Rightarrow> bool" where
  "accountTarget a =
     (case (a_user a, a_email a) of
        (Some u, None) \<Rightarrow> uuidPattern u
      | (None, Some e) \<Rightarrow> length e \<le> 320 \<and> emailPattern e
      | _ \<Rightarrow> False)"

definition lineOf :: "nat \<Rightarrow> string \<Rightarrow> bool" where
  "lineOf n t \<longleftrightarrow> 1 \<le> length t \<and> length t \<le> n \<and> validString t \<and> \<not> hasControl (map byte t)"

definition noteOk :: "commandArgs \<Rightarrow> bool" where
  "noteOk a = (case a_note a of None \<Rightarrow> True | Some t \<Rightarrow> lineOf 1000 t)"

fun schema :: "cmdKind \<Rightarrow> commandArgs \<Rightarrow> bool" where
  "schema KindWarn a \<longleftrightarrow> accountTarget a \<and> noteOk a \<and> a_days a = None \<and> a_compensate a = None \<and> a_refund a = None"
| "schema KindTerminate a \<longleftrightarrow> accountTarget a \<and> noteOk a \<and> a_days a = None \<and> a_compensate a = None \<and> a_refund a = None"
| "schema KindSuspend a \<longleftrightarrow> accountTarget a \<and> noteOk a \<and> (\<exists>n \<in> {1..30}. a_days a = Some n) \<and> a_compensate a = None \<and> a_refund a = None"
| "schema KindLift a \<longleftrightarrow> accountTarget a \<and> a_note a = None \<and> a_days a = None \<and> a_refund a = None"
| "schema KindAccountShow a \<longleftrightarrow> accountTarget a \<and> a_note a = None \<and> a_days a = None \<and> a_compensate a = None \<and> a_refund a = None"
| "schema KindRefundExecute a \<longleftrightarrow> (\<exists>r. a_refund a = Some r \<and> uuidPattern r) \<and> a_user a = None \<and> a_email a = None \<and>
     a_note a = None \<and> a_days a = None \<and> a_compensate a = None"
| "schema (OtherKind _) a \<longleftrightarrow> False"

definition reasonOk :: "cmdKind \<Rightarrow> string \<Rightarrow> bool" where
  "reasonOk k t \<longleftrightarrow> (if k \<in> {KindWarn, KindSuspend, KindTerminate} then lineOf 300 t else t = [])"

definition finalArgs :: "newCommand \<Rightarrow> commandArgs \<Rightarrow> commandArgs" where
  "finalArgs n a = (if nc_kind n \<in> {KindWarn, KindSuspend, KindTerminate} then a\<lparr>a_reason := Some (trimSpace (nc_reason n))\<rparr> else a)"

definition argNames :: "string set" where
  "argNames = {''user'', ''email'', ''days'', ''compensate'', ''refund'', ''note''}"

lemma checkText_iff: "checkText field t n = Inr () \<longleftrightarrow> lineOf n t"
  by (cases t) (auto simp: checkText_def lineOf_def Suc_le_eq)

lemma checkText_cases: "checkText field t n = (if lineOf n t then Inr () else Inl (Invalid (if t = [] \<or> n < length t \<or> \<not> validString t
    then field @ '' must contain 1..'' @ itoa n @ '' bytes'' else field @ '' must not contain control characters'')))"
  by (cases t) (auto simp: checkText_def lineOf_def Suc_le_eq)

lemma checkTarget_account:
  "k \<noteq> KindRefundExecute \<Longrightarrow> checkTarget k a = Inr () \<longleftrightarrow> accountTarget a"
  by (cases "a_user a"; cases "a_email a") (auto simp: checkTarget_def accountTarget_def MaxEmailBytes_def)

lemma checkTarget_refund: "checkTarget KindRefundExecute a = Inr () \<longleftrightarrow> (\<exists>r. a_refund a = Some r \<and> uuidPattern r)"
  by (cases "a_refund a") (auto simp: checkTarget_def)

lemma checkTarget_invalid: "checkTarget k a = Inl e \<Longrightarrow> \<exists>m. e = Invalid m"
  by (auto simp: checkTarget_def split: if_splits option.splits)

text \<open>No field outside the kind's own set is present.\<close>

definition onlyAllowed :: "cmdKind \<Rightarrow> commandArgs \<Rightarrow> bool" where
  "onlyAllowed k a \<longleftrightarrow> (\<forall>name\<in>argNames. map_of (presentArgs a) name = Some True \<longrightarrow> name \<in> set (allowedArgs k))"

lemma find_onlyAllowed:
  "set order = argNames \<Longrightarrow>
   find (\<lambda>name. map_of (presentArgs a) name = Some True \<and> name \<notin> set (allowedArgs k)) order = None \<longleftrightarrow> onlyAllowed k a"
  unfolding onlyAllowed_def find_None_iff by blast

lemma onlyAllowed_simps:
  "onlyAllowed KindWarn a \<longleftrightarrow> a_days a = None \<and> a_compensate a = None \<and> a_refund a = None"
  "onlyAllowed KindTerminate a \<longleftrightarrow> a_days a = None \<and> a_compensate a = None \<and> a_refund a = None"
  "onlyAllowed KindSuspend a \<longleftrightarrow> a_compensate a = None \<and> a_refund a = None"
  "onlyAllowed KindLift a \<longleftrightarrow> a_days a = None \<and> a_refund a = None \<and> a_note a = None"
  "onlyAllowed KindAccountShow a \<longleftrightarrow> a_days a = None \<and> a_compensate a = None \<and> a_refund a = None \<and> a_note a = None"
  "onlyAllowed KindRefundExecute a \<longleftrightarrow> a_user a = None \<and> a_email a = None \<and> a_days a = None \<and> a_compensate a = None \<and> a_note a = None"
  by (simp_all add: onlyAllowed_def argNames_def presentArgs_def)

lemma Valid_iff: "(\<forall>s. nc_kind n = OtherKind s \<longrightarrow> s \<notin> kindString ` set Kinds) \<Longrightarrow> Valid (nc_kind n) \<longleftrightarrow> (\<forall>s. nc_kind n \<noteq> OtherKind s)"
  by (cases "nc_kind n") (auto simp: Valid_def Kinds_def)


text \<open>The checks after the allowed fields, in the order of the code.\<close>

definition laterChecks :: "newCommand \<Rightarrow> commandArgs \<Rightarrow> commandArgs result" where
  "laterChecks n a =
     result_bind (checkTarget (nc_kind n) a) (\<lambda>_.
       if nc_kind n = KindSuspend \<and> (case a_days a of None \<Rightarrow> True | Some d \<Rightarrow> d < 1 \<or> 30 < d)
       then Inl (Invalid ''args.days must be 1..30'')
       else
         result_bind (case a_note a of None \<Rightarrow> Inr () | Some t \<Rightarrow> checkText ''args.note'' t MaxNoteBytes) (\<lambda>_.
         let reason = trimSpace (nc_reason n)
         in if NeedsReason (nc_kind n) then
              result_bind (checkText ''reason'' reason MaxReasonBytes) (\<lambda>_. Inr (a\<lparr>a_reason := Some reason\<rparr>))
            else if reason \<noteq> [] then Inl (Invalid ''reason is only for warn, suspend and terminate'')
            else Inr a))"

definition targetOk :: "cmdKind \<Rightarrow> commandArgs \<Rightarrow> bool" where
  "targetOk k a \<longleftrightarrow> (if k = KindRefundExecute then \<exists>r. a_refund a = Some r \<and> uuidPattern r else accountTarget a)"

definition daysOk :: "cmdKind \<Rightarrow> commandArgs \<Rightarrow> bool" where
  "daysOk k a \<longleftrightarrow> (k = KindSuspend \<longrightarrow> (\<exists>d \<in> {1..30}. a_days a = Some d))"

lemma targetOk_check: "if targetOk k a then checkTarget k a = Inr () else \<exists>m. checkTarget k a = Inl (Invalid m)"
proof (cases "checkTarget k a")
  case (Inl e)
  then show ?thesis using checkTarget_invalid [OF Inl] checkTarget_account [of k a] checkTarget_refund [of a]
    by (cases "k = KindRefundExecute") (auto simp: targetOk_def)
next
  case (Inr u)
  then show ?thesis using checkTarget_account [of k a] checkTarget_refund [of a]
    by (cases "k = KindRefundExecute") (auto simp: targetOk_def)
qed

lemma laterChecks_iff:
  "if targetOk (nc_kind n) a \<and> daysOk (nc_kind n) a \<and> noteOk a \<and> reasonOk (nc_kind n) (trimSpace (nc_reason n))
   then laterChecks n a = Inr (finalArgs n a) else \<exists>m. laterChecks n a = Inl (Invalid m)"
proof (cases "targetOk (nc_kind n) a \<and> daysOk (nc_kind n) a")
  case False
  then show ?thesis
    using targetOk_check [of "nc_kind n" a]
    by (cases "a_days a") (auto simp: laterChecks_def daysOk_def split: if_splits)
next
  case True
  then have "checkTarget (nc_kind n) a = Inr ()" "\<not> (nc_kind n = KindSuspend \<and> (case a_days a of None \<Rightarrow> True | Some d \<Rightarrow> d < 1 \<or> 30 < d))"
    using targetOk_check [of "nc_kind n" a] by (auto simp: daysOk_def)
  then have "laterChecks n a = result_bind (case a_note a of None \<Rightarrow> Inr () | Some t \<Rightarrow> checkText ''args.note'' t MaxNoteBytes) (\<lambda>_.
         let reason = trimSpace (nc_reason n)
         in if NeedsReason (nc_kind n) then
              result_bind (checkText ''reason'' reason MaxReasonBytes) (\<lambda>_. Inr (a\<lparr>a_reason := Some reason\<rparr>))
            else if reason \<noteq> [] then Inl (Invalid ''reason is only for warn, suspend and terminate'')
            else Inr a)"
    by (simp only: laterChecks_def result_bind_Inr if_False simp_thms)
  with True show ?thesis
    by (cases "a_note a") (auto simp: checkText_cases noteOk_def reasonOk_def finalArgs_def NeedsReason_def MaxNoteBytes_def MaxReasonBytes_def Let_def)
qed

lemma schema_split:
  "k \<in> set Kinds \<Longrightarrow> schema k a \<longleftrightarrow> onlyAllowed k a \<and> targetOk k a \<and> daysOk k a \<and> noteOk a"
  by (cases k) (auto simp: Kinds_def onlyAllowed_simps targetOk_def daysOk_def noteOk_def)

lemma checkedArgs_later:
  assumes "nc_kind n \<in> set Kinds" and "trimSpace (nc_host n) \<noteq> []"
    and "decodeArgs (if trimSpace (nc_args n) = [] then ''{}'' else nc_args n) = Inr a" and "a_reason a = None"
    and "set order = argNames" and "onlyAllowed (nc_kind n) a"
  shows "checkedArgs decodeArgs order n = laterChecks n a"
proof -
  have v: "Valid (nc_kind n)" using assms(1) by (auto simp: Valid_def list_ex_iff)
  have f: "find (\<lambda>name. map_of (presentArgs a) name = Some True \<and> name \<notin> set (allowedArgs (nc_kind n))) order = None"
    using find_onlyAllowed [OF assms(5)] assms(6) by blast
  show ?thesis
    unfolding checkedArgs_def laterChecks_def Let_def assms(3) sum.case using v assms(2,4) by (simp only: f option.case) simp
qed

lemma checkedArgs_refused:
  assumes "Valid (nc_kind n)" and "trimSpace (nc_host n) \<noteq> []"
    and "decodeArgs (if trimSpace (nc_args n) = [] then ''{}'' else nc_args n) = Inr a"
    and "set order = argNames" and "\<not> (a_reason a = None \<and> onlyAllowed (nc_kind n) a)"
  shows "\<exists>m. checkedArgs decodeArgs order n = Inl (Invalid m)"
proof (cases "a_reason a = None")
  case False
  then have "checkedArgs decodeArgs order n = Inl (Invalid ''args.reason: the reason is a top-level field'')"
    unfolding checkedArgs_def Let_def assms(3) using assms(1,2) by simp
  then show ?thesis by blast
next
  case True
  then obtain name where f: "find (\<lambda>name. map_of (presentArgs a) name = Some True \<and> name \<notin> set (allowedArgs (nc_kind n))) order = Some name"
    using find_onlyAllowed [OF assms(4), of a "nc_kind n"] assms(5) by (metis option.exhaust)
  have "checkedArgs decodeArgs order n = Inl (Invalid (''args.'' @ name @ '' is not accepted for '' @ kindString (nc_kind n)))"
    unfolding checkedArgs_def Let_def assms(3) sum.case f option.case using assms(1,2) True by simp
  then show ?thesis by blast
qed

text \<open>\<^verbatim>\<open>Validate\<close> decides the schema of the command channel: a command is accepted exactly when its
  kind is listed, a host is named, the arguments decode and fit the table of their kind, and the
  reason is one line of 1 to 300 bytes for a measure and absent otherwise; the host then receives
  exactly these arguments with the trimmed reason added. Everything else is refused as invalid.\<close>

lemma Validate_decides_schema:
  assumes "set order = argNames" and "nc_kind n = parseKind s"
  shows "case decodeArgs (if trimSpace (nc_args n) = [] then ''{}'' else nc_args n) of
      Inl msg \<Rightarrow> \<exists>m. Validate decodeArgs order n = Inl (Invalid m)
    | Inr a \<Rightarrow>
        if nc_kind n \<in> set Kinds \<and> trimSpace (nc_host n) \<noteq> [] \<and> a_reason a = None \<and> schema (nc_kind n) a \<and> reasonOk (nc_kind n) (trimSpace (nc_reason n))
        then Validate decodeArgs order n = Inr (marshalArgs (finalArgs n a))
        else \<exists>m. Validate decodeArgs order n = Inl (Invalid m)"
proof (cases "nc_kind n \<in> set Kinds \<and> trimSpace (nc_host n) \<noteq> []")
  case False
  have "Valid (nc_kind n) \<longleftrightarrow> nc_kind n \<in> set Kinds"
    using assms(2) by (cases "nc_kind n") (auto simp: parseKind_def Valid_def Kinds_def split: if_splits)
  then have "\<exists>m. Validate decodeArgs order n = Inl (Invalid m)" using False by (auto simp: Validate_def checkedArgs_def)
  then show ?thesis using False by (auto split: sum.split)
next
  case True
  have v: "Valid (nc_kind n)" using True by (auto simp: Valid_def list_ex_iff)
  show ?thesis
  proof (cases "decodeArgs (if trimSpace (nc_args n) = [] then ''{}'' else nc_args n)")
    case (Inl msg)
    then show ?thesis using True v by (auto simp: Validate_def checkedArgs_def Let_def)
  next
    case (Inr a)
    show ?thesis
    proof (cases "a_reason a = None \<and> onlyAllowed (nc_kind n) a")
      case False
      then have "\<exists>m. checkedArgs decodeArgs order n = Inl (Invalid m)"
        by (intro checkedArgs_refused [where a = a]) (use True v Inr assms(1) in simp_all)
      then show ?thesis using Inr False True schema_split [of "nc_kind n" a] by (auto simp: Validate_def)
    next
      case ok: True
      have "checkedArgs decodeArgs order n = laterChecks n a" by (rule checkedArgs_later) (use True ok Inr assms(1) in simp_all)
      then show ?thesis
        using laterChecks_iff [of n a] schema_split [of "nc_kind n" a] Inr True ok by (auto simp: Validate_def split: if_splits)
    qed
  qed
qed


definition demoArgs :: commandArgs where
  "demoArgs = \<lparr>a_user = None, a_email = Some ''anna@example.org'', a_days = None, a_compensate = Some True, a_refund = None, a_note = None, a_reason = None\<rparr>"

definition demoNew :: newCommand where
  "demoNew = \<lparr>nc_host = ''h1'', nc_kind = KindLift, nc_args = ''x'', nc_reason = [], nc_password = []\<rparr>"

lemma Validate_decides_schema_witness:
  "Validate (\<lambda>_. Inr demoArgs) [''note'', ''user'', ''email'', ''days'', ''compensate'', ''refund''] demoNew = Inr (marshalArgs demoArgs)"
proof -
  have h: "trimSpace (nc_host demoNew) = ''h1''" unfolding demoNew_def by (simp add: trimSpace_plain byte_def)
  have k: "nc_kind demoNew = KindLift" "nc_reason demoNew = []" by (simp_all add: demoNew_def)
  have "schema KindLift demoArgs" "a_reason demoArgs = None"
    by (simp_all add: demoArgs_def accountTarget_def emailPattern_def addressChar_def byte_def)
  moreover have "set [''note'', ''user'', ''email'', ''days'', ''compensate'', ''refund''] = argNames"
    by (auto simp: argNames_def)
  moreover have "KindLift \<in> set Kinds" by (simp add: Kinds_def)
  moreover have "nc_kind demoNew = parseKind ''lift''" by (simp add: k parseKind_def Kinds_def)
  moreover have "finalArgs demoNew demoArgs = demoArgs" "reasonOk KindLift []" by (simp_all add: finalArgs_def k reasonOk_def)
  ultimately show ?thesis
    using Validate_decides_schema [where n = demoNew and s = "''lift''" and decodeArgs = "\<lambda>_. Inr demoArgs"
        and order = "[''note'', ''user'', ''email'', ''days'', ''compensate'', ''refund'']"]
    by (simp add: h k del: list.set)
qed

end
