(* ===== verification/Operator.thy ===== *)
theory Operator
  imports Operator_Domain "HOL-Library.Product_Lexorder"
begin

section \<open>The operator console: store and service (internal/operator/infrastructure, internal/operator/application)\<close>

text \<open>
  The three tables of migration 0010 and every operation of the store and of the service. Each SQL
  statement or transaction is one step; \<open>fault\<close> arguments are the errors of the database driver. The
  \<open>hosts\<close> table is the predicate \<open>hostKnown\<close>, the random identifiers and the encoder of the audit
  details are arguments. The triggers that make the audit log append-only belong to the table: the
  delete statement reads the database's own clock, \<open>dbNow\<close>.
\<close>

record commandRow =
  oc_id :: string
  oc_host :: string
  oc_kind :: cmdKind
  oc_args :: string
  oc_reason :: "string option"
  oc_status :: status
  oc_created :: int
  oc_started :: "int option"
  oc_finished :: "int option"
  oc_result :: "string option"
  oc_error :: "string option"

record command =
  cm_id :: string
  cm_host :: string
  cm_kind :: cmdKind
  cm_args :: string
  cm_reason :: string
  cm_status :: status
  cm_created :: time
  cm_started :: "time option"
  cm_finished :: "time option"
  cm_result :: "string option"
  cm_error :: string

record claimed =
  cl_id :: string
  cl_kind :: cmdKind
  cl_args :: string

text \<open>An audit entry; the detail is the list of its named values.\<close>

record auditEntry =
  ad_id :: int
  ad_at :: int
  ad_action :: string
  ad_target :: string
  ad_detail :: "(string \<times> string) list"
  ad_client :: string
  ad_outcome :: string

record incidentRow =
  ir_id :: string
  ir_title :: string
  ir_kind :: incidentKind
  ir_detected :: int
  ir_scope :: string
  ir_people :: "int option"
  ir_measures :: string
  ir_rknPrimary :: "int option"
  ir_rknFinal :: "int option"
  ir_notified :: "int option"
  ir_notes :: string
  ir_closed :: "int option"
  ir_created :: int
  ir_updated :: int

record incident =
  i_id :: string
  i_title :: string
  i_kind :: incidentKind
  i_detected :: time
  i_scope :: string
  i_people :: "int option"
  i_measures :: string
  i_rknPrimary :: "time option"
  i_rknFinal :: "time option"
  i_notified :: "time option"
  i_notes :: string
  i_closed :: "time option"
  i_created :: time
  i_updated :: time

record opdb =
  commands :: "commandRow list"
  audits :: "auditEntry list"
  auditSeq :: int
  incidentRows :: "incidentRow list"

subsection \<open>Commands\<close>

definition nullString :: "string \<Rightarrow> string option" where
  "nullString s = (if s = [] then None else Some s)"

definition fromNull :: "string option \<Rightarrow> string" where
  "fromNull v = (case v of None \<Rightarrow> [] | Some s \<Rightarrow> s)"

definition scanCommand :: "commandRow \<Rightarrow> command" where
  "scanCommand r =
     \<lparr>cm_id = oc_id r, cm_host = oc_host r, cm_kind = oc_kind r, cm_args = oc_args r, cm_reason = fromNull (oc_reason r),
      cm_status = oc_status r, cm_created = ofMilli (oc_created r), cm_started = map_option ofMilli (oc_started r),
      cm_finished = map_option ofMilli (oc_finished r), cm_result = oc_result r, cm_error = fromNull (oc_error r)\<rparr>"

definition InsertCommand :: "error option \<Rightarrow> (string \<Rightarrow> bool) \<Rightarrow> command \<Rightarrow> opdb \<Rightarrow> unit result \<times> opdb" where
  "InsertCommand fault hostKnown c db =
     (case fault of
        Some e \<Rightarrow> (Inl e, db)
      | None \<Rightarrow>
          if cm_id c \<in> oc_id ` set (commands db) then (Inl (OtherError ''operator: insert command''), db)
          else if \<not> hostKnown (cm_host c) then (Inl (Invalid ''host_id is not an enrolled host''), db)
          else (Inr (), db\<lparr>commands := commands db @
                 [\<lparr>oc_id = cm_id c, oc_host = cm_host c, oc_kind = cm_kind c, oc_args = cm_args c, oc_reason = nullString (cm_reason c),
                   oc_status = cm_status c, oc_created = unixMilli (cm_created c), oc_started = None, oc_finished = None,
                   oc_result = None, oc_error = None\<rparr>]\<rparr>))"

definition queuedOf :: "string \<Rightarrow> opdb \<Rightarrow> commandRow list" where
  "queuedOf host db =
     sort_key (\<lambda>r. (oc_created r, oc_id r)) (filter (\<lambda>r. oc_host r = host \<and> oc_status r = StatusQueued) (commands db))"

definition toClaimed :: "commandRow \<Rightarrow> claimed" where
  "toClaimed r = \<lparr>cl_id = oc_id r, cl_kind = oc_kind r, cl_args = oc_args r\<rparr>"

definition markRunning :: "int \<Rightarrow> string \<Rightarrow> commandRow list \<Rightarrow> commandRow list" where
  "markRunning now cid = map (\<lambda>r. if oc_id r = cid \<and> oc_status r = StatusQueued
      then r\<lparr>oc_status := StatusRunning, oc_started := Some now\<rparr> else r)"

text \<open>One transaction: any error rolls it back.\<close>

definition ClaimRepo :: "error option \<Rightarrow> string \<Rightarrow> time \<Rightarrow> nat \<Rightarrow> opdb \<Rightarrow> claimed list result \<times> opdb" where
  "ClaimRepo fault host now n db =
     (case fault of
        Some e \<Rightarrow> (Inl e, db)
      | None \<Rightarrow>
          let cs = map toClaimed (take n (queuedOf host db))
          in (Inr cs, db\<lparr>commands := fold (\<lambda>c. markRunning (unixMilli now) (cl_id c)) cs (commands db)\<rparr>))"

definition CommandRepo :: "error option \<Rightarrow> string \<Rightarrow> opdb \<Rightarrow> command result" where
  "CommandRepo fault cid db =
     (case fault of
        Some e \<Rightarrow> Inl e
      | None \<Rightarrow> (case find (\<lambda>r. oc_id r = cid) (commands db) of
                   None \<Rightarrow> Inl (NotFound ''command not found'')
                 | Some r \<Rightarrow> Inr (scanCommand r)))"

definition completable :: "string \<Rightarrow> string \<Rightarrow> commandRow \<Rightarrow> bool" where
  "completable host cid r \<longleftrightarrow> oc_id r = cid \<and> oc_host r = host \<and> oc_status r = StatusRunning"

definition CompleteRepo ::
  "error option \<Rightarrow> error option \<Rightarrow> string \<Rightarrow> string \<Rightarrow> report \<Rightarrow> time \<Rightarrow> opdb \<Rightarrow> command result \<times> opdb" where
  "CompleteRepo fault readFault host cid rp now db =
     (case fault of
        Some e \<Rightarrow> (Inl e, db)
      | None \<Rightarrow>
          if \<not> list_ex (completable host cid) (commands db)
          then (Inl (NotFound ''no running command with this id for this host''), db)
          else
            let db1 = db\<lparr>commands := map (\<lambda>r. if completable host cid r
                        then r\<lparr>oc_status := rp_status rp, oc_finished := Some (unixMilli now),
                               oc_result := rp_result rp, oc_error := nullString (rp_error rp)\<rparr> else r) (commands db)\<rparr>
            in (CommandRepo readFault cid db1, db1))"

text \<open>\<^verbatim>\<open>ORDER BY created_at DESC, id DESC LIMIT n\<close>.\<close>

definition CommandsRepo :: "error option \<Rightarrow> int \<Rightarrow> opdb \<Rightarrow> command list result" where
  "CommandsRepo fault n db =
     (case fault of
        Some e \<Rightarrow> Inl e
      | None \<Rightarrow> Inr (map scanCommand (take (nat n) (rev (sort_key (\<lambda>r. (oc_created r, oc_id r)) (commands db))))))"

definition staleQueued :: "time \<Rightarrow> commandRow \<Rightarrow> bool" where
  "staleQueued now r \<longleftrightarrow> oc_status r = StatusQueued \<and> oc_created r < unixMilli (now - QueuedExpiry)"

definition staleRunning :: "time \<Rightarrow> commandRow \<Rightarrow> bool" where
  "staleRunning now r \<longleftrightarrow> oc_status r = StatusRunning \<and>
     (case oc_started r of None \<Rightarrow> False | Some t \<Rightarrow> t < unixMilli (now - RunningExpiry))"

text \<open>Two statements; the second may fail after the first took effect.\<close>

definition Expire :: "error option \<Rightarrow> error option \<Rightarrow> time \<Rightarrow> opdb \<Rightarrow> nat result \<times> opdb" where
  "Expire fault1 fault2 now db =
     (case fault1 of
        Some e \<Rightarrow> (Inl e, db)
      | None \<Rightarrow>
          let a = length (filter (staleQueued now) (commands db));
              db1 = db\<lparr>commands := map (\<lambda>r. if staleQueued now r
                      then r\<lparr>oc_status := StatusExpired, oc_finished := Some (unixMilli now)\<rparr> else r) (commands db)\<rparr>
          in (case fault2 of
                Some e \<Rightarrow> (Inl e, db1)
              | None \<Rightarrow>
                  let b = length (filter (staleRunning now) (commands db1))
                  in (Inr (a + b),
                      db1\<lparr>commands := map (\<lambda>r. if staleRunning now r
                        then r\<lparr>oc_status := StatusFailed, oc_finished := Some (unixMilli now), oc_error := Some ''no result''\<rparr> else r)
                        (commands db1)\<rparr>)))"

definition oldAnswer :: "time \<Rightarrow> commandRow \<Rightarrow> bool" where
  "oldAnswer before r \<longleftrightarrow> (case oc_finished r of None \<Rightarrow> False | Some t \<Rightarrow> t < unixMilli before) \<and>
     (oc_result r \<noteq> None \<or> oc_error r \<noteq> None)"

definition ClearResults :: "error option \<Rightarrow> time \<Rightarrow> opdb \<Rightarrow> nat result \<times> opdb" where
  "ClearResults fault before db =
     (case fault of
        Some e \<Rightarrow> (Inl e, db)
      | None \<Rightarrow> (Inr (length (filter (oldAnswer before) (commands db))),
                 db\<lparr>commands := map (\<lambda>r. if oldAnswer before r then r\<lparr>oc_result := None, oc_error := None\<rparr> else r) (commands db)\<rparr>))"

subsection \<open>The audit log\<close>

definition AppendAudit :: "error option \<Rightarrow> auditEntry \<Rightarrow> opdb \<Rightarrow> unit result \<times> opdb" where
  "AppendAudit fault e db =
     (case fault of
        Some x \<Rightarrow> (Inl x, db)
      | None \<Rightarrow> (Inr (), db\<lparr>audits := audits db @ [e\<lparr>ad_id := auditSeq db + 1\<rparr>], auditSeq := auditSeq db + 1\<rparr>))"

definition AuditRepo :: "error option \<Rightarrow> int \<Rightarrow> int \<Rightarrow> opdb \<Rightarrow> auditEntry list result" where
  "AuditRepo fault before n db =
     (case fault of
        Some e \<Rightarrow> Inl e
      | None \<Rightarrow> Inr (take (nat n) (rev (sort_key ad_id (filter (\<lambda>e. 0 < before \<longrightarrow> ad_id e < before) (audits db))))))"

text \<open>The trigger \<^verbatim>\<open>audit_log_no_early_delete\<close>, on whole seconds of the database's clock.\<close>

definition keptByTrigger :: "time \<Rightarrow> auditEntry \<Rightarrow> bool" where
  "keptByTrigger dbNow e \<longleftrightarrow> (dbNow div second - 3 * 365 * 86400) * 1000 < ad_at e"

definition PurgeAudit :: "error option \<Rightarrow> time \<Rightarrow> time \<Rightarrow> opdb \<Rightarrow> nat result \<times> opdb" where
  "PurgeAudit fault dbNow before db =
     (let old = filter (\<lambda>e. ad_at e < unixMilli before) (audits db)
      in case fault of
           Some e \<Rightarrow> (Inl e, db)
         | None \<Rightarrow>
             if list_ex (keptByTrigger dbNow) old then (Inl (OtherError ''operator: purge audit''), db)
             else (Inr (length old), db\<lparr>audits := filter (\<lambda>e. \<not> ad_at e < unixMilli before) (audits db)\<rparr>))"

subsection \<open>Incidents\<close>

definition incidentFields :: "incidentInput \<Rightarrow> time \<Rightarrow> incidentRow \<Rightarrow> incidentRow" where
  "incidentFields i now r =
     r\<lparr>ir_title := in_title i, ir_kind := in_kind i, ir_detected := unixMilli (case in_detected i of None \<Rightarrow> zeroTime | Some t \<Rightarrow> t),
       ir_scope := in_scope i, ir_people := in_people i, ir_measures := in_measures i,
       ir_rknPrimary := map_option unixMilli (in_rknPrimary i), ir_rknFinal := map_option unixMilli (in_rknFinal i),
       ir_notified := map_option unixMilli (in_notified i), ir_notes := in_notes i, ir_closed := map_option unixMilli (in_closed i),
       ir_updated := unixMilli now\<rparr>"

definition emptyIncident :: "string \<Rightarrow> time \<Rightarrow> incidentRow" where
  "emptyIncident iid now = \<lparr>ir_id = iid, ir_title = [], ir_kind = IncidentOther, ir_detected = 0, ir_scope = [], ir_people = None,
     ir_measures = [], ir_rknPrimary = None, ir_rknFinal = None, ir_notified = None, ir_notes = [], ir_closed = None,
     ir_created = unixMilli now, ir_updated = unixMilli now\<rparr>"

definition scanIncident :: "incidentRow \<Rightarrow> incident" where
  "scanIncident r = \<lparr>i_id = ir_id r, i_title = ir_title r, i_kind = ir_kind r, i_detected = ofMilli (ir_detected r), i_scope = ir_scope r,
     i_people = ir_people r, i_measures = ir_measures r, i_rknPrimary = map_option ofMilli (ir_rknPrimary r),
     i_rknFinal = map_option ofMilli (ir_rknFinal r), i_notified = map_option ofMilli (ir_notified r), i_notes = ir_notes r,
     i_closed = map_option ofMilli (ir_closed r), i_created = ofMilli (ir_created r), i_updated = ofMilli (ir_updated r)\<rparr>"

definition incidentRead :: "error option \<Rightarrow> string \<Rightarrow> opdb \<Rightarrow> incident result" where
  "incidentRead fault iid db =
     (case fault of
        Some e \<Rightarrow> Inl e
      | None \<Rightarrow> (case find (\<lambda>r. ir_id r = iid) (incidentRows db) of
                   None \<Rightarrow> Inl (NotFound ''incident not found'')
                 | Some r \<Rightarrow> Inr (scanIncident r)))"

definition InsertIncident ::
  "error option \<Rightarrow> error option \<Rightarrow> incidentInput \<Rightarrow> string \<Rightarrow> time \<Rightarrow> opdb \<Rightarrow> incident result \<times> opdb" where
  "InsertIncident fault readFault i iid now db =
     (case fault of
        Some e \<Rightarrow> (Inl e, db)
      | None \<Rightarrow>
          if iid \<in> ir_id ` set (incidentRows db) then (Inl (OtherError ''operator: insert incident''), db)
          else let db1 = db\<lparr>incidentRows := incidentRows db @ [incidentFields i now (emptyIncident iid now)]\<rparr>
               in (incidentRead readFault iid db1, db1))"

definition UpdateIncidentRepo ::
  "error option \<Rightarrow> error option \<Rightarrow> string \<Rightarrow> incidentInput \<Rightarrow> time \<Rightarrow> opdb \<Rightarrow> incident result \<times> opdb" where
  "UpdateIncidentRepo fault readFault iid i now db =
     (case fault of
        Some e \<Rightarrow> (Inl e, db)
      | None \<Rightarrow>
          if iid \<notin> ir_id ` set (incidentRows db) then (Inl (NotFound ''incident not found''), db)
          else let db1 = db\<lparr>incidentRows := map (\<lambda>r. if ir_id r = iid then incidentFields i now r else r) (incidentRows db)\<rparr>
               in (incidentRead readFault iid db1, db1))"

definition DeleteIncidentRepo :: "error option \<Rightarrow> string \<Rightarrow> opdb \<Rightarrow> unit result \<times> opdb" where
  "DeleteIncidentRepo fault iid db =
     (case fault of
        Some e \<Rightarrow> (Inl e, db)
      | None \<Rightarrow>
          if iid \<notin> ir_id ` set (incidentRows db) then (Inl (NotFound ''incident not found''), db)
          else (Inr (), db\<lparr>incidentRows := filter (\<lambda>r. ir_id r \<noteq> iid) (incidentRows db)\<rparr>))"

text \<open>\<^verbatim>\<open>ORDER BY detected_at DESC, id\<close>.\<close>

definition Incidents :: "error option \<Rightarrow> opdb \<Rightarrow> incident list result" where
  "Incidents fault db =
     (case fault of Some e \<Rightarrow> Inl e | None \<Rightarrow> Inr (map scanIncident (sort_key (\<lambda>r. (- ir_detected r, ir_id r)) (incidentRows db))))"

subsection \<open>The service\<close>

text \<open>\<open>deps\<close> are the parts outside the console; \<open>call\<close> is what one call reads from its surroundings: the
  clock of the call, of its audit entry and of the database, the fresh identifier (\<open>None\<close> when the
  random source fails), the outcome of its database statements in order, and the iteration order
  of the maps it ranges over.\<close>

record deps =
  d_decodeArgs :: "string \<Rightarrow> string + commandArgs"
  d_unmarshalArgs :: "string \<Rightarrow> commandArgs option"
  d_jsonValid :: "string \<Rightarrow> bool"
  d_hostKnown :: "string \<Rightarrow> bool"

record call =
  k_now :: time
  k_auditNow :: time
  k_dbNow :: time
  k_newID :: "string option"
  k_fault :: "nat \<Rightarrow> error option"
  k_order :: "string list"

definition clampLimit :: "int \<Rightarrow> int" where
  "clampLimit n = (if n \<le> 0 then DefaultListLimit else if MaxListLimit < n then MaxListLimit else n)"

text \<open>A failing append is logged and never undoes the action.\<close>

definition audit :: "call \<Rightarrow> error option \<Rightarrow> string \<Rightarrow> string \<Rightarrow> (string \<times> string) list \<Rightarrow> string \<Rightarrow> string \<Rightarrow> opdb \<Rightarrow> opdb" where
  "audit k fault action target detail client outcome db =
     snd (AppendAudit fault \<lparr>ad_id = 0, ad_at = unixMilli (k_auditNow k), ad_action = action, ad_target = target, ad_detail = detail,
       ad_client = client, ad_outcome = outcome\<rparr> db)"

definition Queue :: "deps \<Rightarrow> call \<Rightarrow> newCommand \<Rightarrow> string \<Rightarrow> opdb \<Rightarrow> command result \<times> opdb" where
  "Queue d k n client db =
     (case Validate (d_decodeArgs d) (k_order k) n of
        Inl e \<Rightarrow> (Inl e, db)
      | Inr args \<Rightarrow>
          (case k_newID k of
             None \<Rightarrow> (Inl (OtherError ''operator: command id''), db)
           | Some cid \<Rightarrow>
               let c = \<lparr>cm_id = cid, cm_host = nc_host n, cm_kind = nc_kind n, cm_args = args,
                        cm_reason = (if NeedsReason (nc_kind n) then nc_reason n else []), cm_status = StatusQueued,
                        cm_created = truncateTo millisecond (k_now k), cm_started = None, cm_finished = None,
                        cm_result = None, cm_error = []\<rparr>
               in (case InsertCommand (k_fault k 0) (d_hostKnown d) c db of
                     (Inl e, db1) \<Rightarrow> (Inl e, db1)
                   | (Inr _, db1) \<Rightarrow>
                       (Inr c, audit k (k_fault k 1) ''command.queue'' (Target (d_unmarshalArgs d) args)
                          [(''id'', cid), (''host_id'', nc_host n), (''kind'', kindString (nc_kind n)), (''args'', args)]
                          client ''queued'' db1))))"

definition Refused :: "deps \<Rightarrow> call \<Rightarrow> newCommand \<Rightarrow> string \<Rightarrow> string \<Rightarrow> opdb \<Rightarrow> opdb" where
  "Refused d k n client why db =
     audit k (k_fault k 0) ''command.refused'' (Target (d_unmarshalArgs d) (nc_args n))
       [(''host_id'', nc_host n), (''kind'', kindString (nc_kind n))] client why db"

definition Claim :: "call \<Rightarrow> string \<Rightarrow> opdb \<Rightarrow> claimed list result \<times> opdb" where
  "Claim k host db =
     (case Expire (k_fault k 0) (k_fault k 1) (k_now k) db of
        (Inl e, db1) \<Rightarrow> (Inl e, db1)
      | (Inr _, db1) \<Rightarrow> ClaimRepo (k_fault k 2) host (k_now k) ClaimBatch db1)"

fun statusString :: "status \<Rightarrow> string" where
  "statusString StatusQueued = ''queued''"
| "statusString StatusRunning = ''running''"
| "statusString StatusDone = ''done''"
| "statusString StatusFailed = ''failed''"
| "statusString StatusExpired = ''expired''"
| "statusString (OtherStatus s) = s"

definition Complete :: "deps \<Rightarrow> call \<Rightarrow> string \<Rightarrow> string \<Rightarrow> report \<Rightarrow> opdb \<Rightarrow> command result \<times> opdb" where
  "Complete d k host cid rp db =
     (case reportValidate (d_jsonValid d) rp of
        Inl e \<Rightarrow> (Inl e, db)
      | Inr rp' \<Rightarrow>
          (case CompleteRepo (k_fault k 0) (k_fault k 1) host cid rp' (k_now k) db of
             (Inl e, db1) \<Rightarrow> (Inl e, db1)
           | (Inr c, db1) \<Rightarrow>
               (Inr c, audit k (k_fault k 2) ''command.result'' (Target (d_unmarshalArgs d) (cm_args c))
                  [(''id'', cid), (''kind'', kindString (cm_kind c)), (''error'', cm_error c)]
                  (''host:'' @ host) (statusString (cm_status c)) db1)))"

definition CommandSvc :: "call \<Rightarrow> string \<Rightarrow> opdb \<Rightarrow> command result \<times> opdb" where
  "CommandSvc k cid db =
     (case Expire (k_fault k 0) (k_fault k 1) (k_now k) db of
        (Inl e, db1) \<Rightarrow> (Inl e, db1)
      | (Inr _, db1) \<Rightarrow> (CommandRepo (k_fault k 2) cid db1, db1))"

definition CommandsSvc :: "call \<Rightarrow> int \<Rightarrow> opdb \<Rightarrow> command list result \<times> opdb" where
  "CommandsSvc k n db =
     (case Expire (k_fault k 0) (k_fault k 1) (k_now k) db of
        (Inl e, db1) \<Rightarrow> (Inl e, db1)
      | (Inr _, db1) \<Rightarrow> (CommandsRepo (k_fault k 2) (clampLimit n) db1, db1))"

fun incidentKindString :: "incidentKind \<Rightarrow> string" where
  "incidentKindString IncidentLeak = ''leak''"
| "incidentKindString IncidentOutage = ''outage''"
| "incidentKindString IncidentOther = ''other''"
| "incidentKindString (OtherIncident s) = s"

definition CreateIncident :: "call \<Rightarrow> incidentInput \<Rightarrow> string \<Rightarrow> opdb \<Rightarrow> incident result \<times> opdb" where
  "CreateIncident k i client db =
     (case incidentValidate (k_now k) (k_order k) i of
        Inl e \<Rightarrow> (Inl e, db)
      | Inr i' \<Rightarrow>
          (case k_newID k of
             None \<Rightarrow> (Inl (OtherError ''operator: incident id''), db)
           | Some iid \<Rightarrow>
               (case InsertIncident (k_fault k 0) (k_fault k 1) i' iid (k_now k) db of
                  (Inl e, db1) \<Rightarrow> (Inl e, db1)
                | (Inr inc, db1) \<Rightarrow>
                    (Inr inc, audit k (k_fault k 2) ''incident.create'' (''incident:'' @ iid)
                       [(''title'', in_title i'), (''kind'', incidentKindString (in_kind i'))] client ''created'' db1))))"

definition UpdateIncident :: "call \<Rightarrow> string \<Rightarrow> incidentInput \<Rightarrow> string \<Rightarrow> opdb \<Rightarrow> incident result \<times> opdb" where
  "UpdateIncident k iid i client db =
     (case incidentValidate (k_now k) (k_order k) i of
        Inl e \<Rightarrow> (Inl e, db)
      | Inr i' \<Rightarrow>
          (case UpdateIncidentRepo (k_fault k 0) (k_fault k 1) iid i' (k_now k) db of
             (Inl e, db1) \<Rightarrow> (Inl e, db1)
           | (Inr inc, db1) \<Rightarrow>
               (Inr inc, audit k (k_fault k 2) ''incident.update'' (''incident:'' @ iid)
                  [(''title'', in_title i'), (''kind'', incidentKindString (in_kind i')),
                   (''closed'', if in_closed i' \<noteq> None then ''true'' else ''false'')] client ''updated'' db1)))"

definition DeleteIncident :: "call \<Rightarrow> string \<Rightarrow> string \<Rightarrow> opdb \<Rightarrow> unit result \<times> opdb" where
  "DeleteIncident k iid client db =
     (case DeleteIncidentRepo (k_fault k 0) iid db of
        (Inl e, db1) \<Rightarrow> (Inl e, db1)
      | (Inr _, db1) \<Rightarrow> (Inr (), audit k (k_fault k 1) ''incident.delete'' (''incident:'' @ iid) [] client ''deleted'' db1))"

definition Audit :: "call \<Rightarrow> int \<Rightarrow> int \<Rightarrow> opdb \<Rightarrow> auditEntry list result" where
  "Audit k before n db = AuditRepo (k_fault k 0) before (clampLimit n) db"

text \<open>The retention jobs; each failure is logged and the next job runs.\<close>

definition maintain :: "call \<Rightarrow> opdb \<Rightarrow> opdb" where
  "maintain k db =
     snd (PurgeAudit (k_fault k 3) (k_dbNow k) (k_now k - AuditRetention)
       (snd (ClearResults (k_fault k 2) (k_now k - ResultRetention) (snd (Expire (k_fault k 0) (k_fault k 1) (k_now k) db)))))"

subsection \<open>Histories\<close>

text \<open>A history is a list of calls, the ticks of the \<^verbatim>\<open>Run\<close> loop among them. Its events are the commands
  handed to a host and the answers accepted.\<close>

datatype opcall =
    CQueue call newCommand string
  | CRefused call newCommand string string
  | CClaim call string
  | CComplete call string string report
  | CCommand call string
  | CCommands call int
  | CCreateIncident call incidentInput string
  | CUpdateIncident call string incidentInput string
  | CDeleteIncident call string string
  | CMinute call
  | CMaintain call

datatype opevent = Handed string claimed | Answered string string

fun opExec :: "deps \<Rightarrow> opcall \<Rightarrow> opdb \<Rightarrow> opevent list \<times> opdb" where
  "opExec d (CQueue k n client) db = ([], snd (Queue d k n client db))"
| "opExec d (CRefused k n client why) db = ([], Refused d k n client why db)"
| "opExec d (CClaim k host) db =
     (case Claim k host db of (Inl _, db') \<Rightarrow> ([], db') | (Inr cs, db') \<Rightarrow> (map (Handed host) cs, db'))"
| "opExec d (CComplete k host cid rp) db =
     (case Complete d k host cid rp db of (Inl _, db') \<Rightarrow> ([], db') | (Inr _, db') \<Rightarrow> ([Answered host cid], db'))"
| "opExec d (CCommand k cid) db = ([], snd (CommandSvc k cid db))"
| "opExec d (CCommands k n) db = ([], snd (CommandsSvc k n db))"
| "opExec d (CCreateIncident k i client) db = ([], snd (CreateIncident k i client db))"
| "opExec d (CUpdateIncident k iid i client) db = ([], snd (UpdateIncident k iid i client db))"
| "opExec d (CDeleteIncident k iid client) db = ([], snd (DeleteIncident k iid client db))"
| "opExec d (CMinute k) db = ([], snd (Expire (k_fault k 0) (k_fault k 1) (k_now k) db))"
| "opExec d (CMaintain k) db = ([], maintain k db)"

fun opRun :: "deps \<Rightarrow> opcall list \<Rightarrow> opdb \<Rightarrow> opevent list \<times> opdb" where
  "opRun d [] db = ([], db)"
| "opRun d (c # cs) db = (case opExec d c db of (ev, db1) \<Rightarrow> case opRun d cs db1 of (ev', db2) \<Rightarrow> (ev @ ev', db2))"


subsection \<open>The life of a command\<close>

text \<open>The abstract machine: what may happen to one command.\<close>

datatype phase = Absent | At status

inductive phaseStep :: "phase \<Rightarrow> phase \<Rightarrow> bool" where
  queue: "phaseStep Absent (At StatusQueued)"
| claim: "phaseStep (At StatusQueued) (At StatusRunning)"
| expire: "phaseStep (At StatusQueued) (At StatusExpired)"
| succeed: "phaseStep (At StatusRunning) (At StatusDone)"
| fail: "phaseStep (At StatusRunning) (At StatusFailed)"

inductive_simps phaseStep_from: "phaseStep (At s) p"

definition phaseOf :: "commandRow list \<Rightarrow> string \<Rightarrow> phase" where
  "phaseOf cs i = (case find (\<lambda>r. oc_id r = i) cs of None \<Rightarrow> Absent | Some r \<Rightarrow> At (oc_status r))"

fun rank :: "phase \<Rightarrow> nat" where
  "rank Absent = 0"
| "rank (At StatusQueued) = 0"
| "rank (At StatusRunning) = 1"
| "rank (At s) = 2"

lemma phaseStep_rank: "phaseStep p q \<Longrightarrow> rank p \<le> rank q"
  by (induction rule: phaseStep.induct) auto

lemma phases_rank: "phaseStep\<^sup>*\<^sup>* p q \<Longrightarrow> rank p \<le> rank q"
  by (induction rule: rtranclp_induct) (auto dest: phaseStep_rank)

lemma phaseOf_Cons: "phaseOf (r # cs) i = (if oc_id r = i then At (oc_status r) else phaseOf cs i)"
  by (simp add: phaseOf_def)

lemma phaseOf_map:
  assumes "\<And>r. r \<in> set cs \<Longrightarrow> oc_id (f r) = oc_id r \<and> phaseStep\<^sup>*\<^sup>* (At (oc_status r)) (At (oc_status (f r)))"
  shows "phaseStep\<^sup>*\<^sup>* (phaseOf cs i) (phaseOf (map f cs) i)"
  using assms by (induction cs) (auto simp: phaseOf_Cons phaseOf_def)

lemma phaseOf_member:
  assumes "distinct (map oc_id cs)" and "r \<in> set cs"
  shows "phaseOf cs (oc_id r) = At (oc_status r)"
  using assms by (induction cs) (auto simp: phaseOf_Cons)

lemma phaseOf_At: "phaseOf cs i = At s \<Longrightarrow> \<exists>r\<in>set cs. oc_id r = i \<and> oc_status r = s"
  by (auto simp: phaseOf_def split: option.splits dest!: find_Some_iff [THEN iffD1] intro: bexI [OF _ nth_mem])

lemma phaseOf_append_new: "phaseOf (cs @ [r]) i = (if i \<notin> oc_id ` set cs \<and> oc_id r = i then At (oc_status r) else phaseOf cs i)"
  by (induction cs) (auto simp: phaseOf_Cons phaseOf_def)

lemma phase_claim: "phaseStep\<^sup>*\<^sup>* (At StatusQueued) (At StatusRunning)"
  and phase_expire: "phaseStep\<^sup>*\<^sup>* (At StatusQueued) (At StatusExpired)"
  and phase_done: "phaseStep\<^sup>*\<^sup>* (At StatusRunning) (At StatusDone)"
  and phase_fail: "phaseStep\<^sup>*\<^sup>* (At StatusRunning) (At StatusFailed)"
  by (auto intro: phaseStep.intros)

subsection \<open>The primitive steps\<close>

text \<open>Every call is a sequence of statements; the invariants are shown statement by statement. \<open>T\<close> bounds
  the database's clock in the deletes.\<close>

inductive opPrim :: "deps \<Rightarrow> time \<Rightarrow> opdb \<Rightarrow> opdb \<Rightarrow> bool" for d T where
  insert: "cm_status c = StatusQueued \<Longrightarrow> Valid (cm_kind c) \<Longrightarrow> opPrim d T db (snd (InsertCommand f (d_hostKnown d) c db))"
| claim: "opPrim d T db (snd (ClaimRepo f host now n db))"
| complete: "rp_status rp \<in> {StatusDone, StatusFailed} \<Longrightarrow> opPrim d T db (snd (CompleteRepo f g host cid rp now db))"
| expire: "opPrim d T db (snd (Expire f g now db))"
| clear: "opPrim d T db (snd (ClearResults f before db))"
| append: "opPrim d T db (snd (AppendAudit f e db))"
| purge: "dbNow \<le> T \<Longrightarrow> opPrim d T db (snd (PurgeAudit f dbNow before db))"
| insertIncident: "in_kind i \<in> {IncidentLeak, IncidentOutage, IncidentOther} \<Longrightarrow> opPrim d T db (snd (InsertIncident f g i iid now db))"
| updateIncident: "in_kind i \<in> {IncidentLeak, IncidentOutage, IncidentOther} \<Longrightarrow> opPrim d T db (snd (UpdateIncidentRepo f g iid i now db))"
| deleteIncident: "opPrim d T db (snd (DeleteIncidentRepo f iid db))"

fun callOf :: "opcall \<Rightarrow> call" where
  "callOf (CQueue k _ _) = k"
| "callOf (CRefused k _ _ _) = k"
| "callOf (CClaim k _) = k"
| "callOf (CComplete k _ _ _) = k"
| "callOf (CCommand k _) = k"
| "callOf (CCommands k _) = k"
| "callOf (CCreateIncident k _ _) = k"
| "callOf (CUpdateIncident k _ _ _) = k"
| "callOf (CDeleteIncident k _ _) = k"
| "callOf (CMinute k) = k"
| "callOf (CMaintain k) = k"

lemma prim1: "opPrim d T db db1 \<Longrightarrow> (opPrim d T)\<^sup>*\<^sup>* db db1"
  by (rule r_into_rtranclp)

lemma prim2: "opPrim d T db db1 \<Longrightarrow> opPrim d T db1 db2 \<Longrightarrow> (opPrim d T)\<^sup>*\<^sup>* db db2"
  by (meson prim1 rtranclp_trans)

lemma Queue_prims: "(opPrim d T)\<^sup>*\<^sup>* db (snd (Queue d k n client db))"
proof (cases "Validate (d_decodeArgs d) (k_order k) n")
  case (Inl e)
  then show ?thesis by (simp add: Queue_def)
next
  case (Inr args)
  then have v: "Valid (nc_kind n)" by (auto simp: Validate_def checkedArgs_def result_bind_eq_Inr split: if_splits)
  show ?thesis
  proof (cases "k_newID k")
    case None
    then show ?thesis by (simp add: Queue_def Inr)
  next
    case (Some cid)
    define c where "c = \<lparr>cm_id = cid, cm_host = nc_host n, cm_kind = nc_kind n, cm_args = args,
                        cm_reason = (if NeedsReason (nc_kind n) then nc_reason n else []), cm_status = StatusQueued,
                        cm_created = truncateTo millisecond (k_now k), cm_started = None, cm_finished = None,
                        cm_result = None, cm_error = []\<rparr>"
    have i: "opPrim d T db (snd (InsertCommand (k_fault k 0) (d_hostKnown d) c db))"
      by (rule opPrim.insert) (simp_all add: c_def v)
    obtain r db1 where r: "InsertCommand (k_fault k 0) (d_hostKnown d) c db = (r, db1)" by fastforce
    show ?thesis
    proof (cases r)
      case (Inl e)
      then show ?thesis using i r Inr Some by (simp add: Queue_def c_def prim1)
    next
      case (Inr u)
      have "snd (Queue d k n client db) = audit k (k_fault k 1) ''command.queue'' (Target (d_unmarshalArgs d) args)
                          [(''id'', cid), (''host_id'', nc_host n), (''kind'', kindString (nc_kind n)), (''args'', args)]
                          client ''queued'' db1"
        using \<open>Validate _ _ _ = _\<close> Some r [unfolded Inr c_def] by (simp add: Queue_def)
      then show ?thesis using i r by (simp add: audit_def prim2 opPrim.append)
    qed
  qed
qed


lemma reportValidate_status: "reportValidate v rp = Inr rp' \<Longrightarrow> rp_status rp' \<in> {StatusDone, StatusFailed}"
  by (auto simp: reportValidate_def Let_def split: if_splits)

lemma incidentValidate_kind: "incidentValidate now ord i = Inr i' \<Longrightarrow> in_kind i' \<in> {IncidentLeak, IncidentOutage, IncidentOther}"
  by (auto simp: incidentValidate_def Let_def split: if_splits option.splits)

lemma Claim_prims: "(opPrim d T)\<^sup>*\<^sup>* db (snd (Claim k host db))"
proof -
  obtain r db1 where e: "Expire (k_fault k 0) (k_fault k 1) (k_now k) db = (r, db1)" by fastforce
  then have "opPrim d T db db1" by (metis opPrim.expire snd_conv)
  then show ?thesis using e by (cases r) (auto simp: Claim_def intro: prim1 prim2 opPrim.claim)
qed

lemma Expire_first: "(opPrim d T)\<^sup>*\<^sup>* db (snd (Expire f g now db))"
  by (rule prim1 [OF opPrim.expire])

lemma CommandSvc_prims: "snd (CommandSvc k cid db) = snd (Expire (k_fault k 0) (k_fault k 1) (k_now k) db)"
  and CommandsSvc_prims: "snd (CommandsSvc k n db) = snd (Expire (k_fault k 0) (k_fault k 1) (k_now k) db)"
  by (auto simp: CommandSvc_def CommandsSvc_def split: prod.splits sum.splits)

lemma Complete_prims: "(opPrim d T)\<^sup>*\<^sup>* db (snd (Complete d k host cid rp db))"
proof (cases "reportValidate (d_jsonValid d) rp")
  case (Inl e)
  then show ?thesis by (simp add: Complete_def)
next
  case (Inr rp')
  obtain r db1 where c: "CompleteRepo (k_fault k 0) (k_fault k 1) host cid rp' (k_now k) db = (r, db1)" by fastforce
  have "opPrim d T db db1"
    using opPrim.complete [OF reportValidate_status [OF Inr], of d T db "k_fault k 0" "k_fault k 1" host cid "k_now k"] c by simp
  then show ?thesis using Inr c by (cases r) (auto simp: Complete_def audit_def intro: prim1 prim2 opPrim.append)
qed

lemma CreateIncident_prims: "(opPrim d T)\<^sup>*\<^sup>* db (snd (CreateIncident k i client db))"
proof (cases "incidentValidate (k_now k) (k_order k) i")
  case (Inl e)
  then show ?thesis by (simp add: CreateIncident_def)
next
  case (Inr i')
  note v = Inr
  show ?thesis
  proof (cases "k_newID k")
    case None
    then show ?thesis using v by (simp add: CreateIncident_def)
  next
    case (Some iid)
    obtain r db1 where c: "InsertIncident (k_fault k 0) (k_fault k 1) i' iid (k_now k) db = (r, db1)" by fastforce
    have "opPrim d T db db1"
      using opPrim.insertIncident [OF incidentValidate_kind [OF v], of d T db "k_fault k 0" "k_fault k 1" iid "k_now k"] c by simp
    then show ?thesis using v Some c by (cases r) (auto simp: CreateIncident_def audit_def intro: prim1 prim2 opPrim.append)
  qed
qed

lemma UpdateIncident_prims: "(opPrim d T)\<^sup>*\<^sup>* db (snd (UpdateIncident k iid i client db))"
proof (cases "incidentValidate (k_now k) (k_order k) i")
  case (Inl e)
  then show ?thesis by (simp add: UpdateIncident_def)
next
  case (Inr i')
  obtain r db1 where c: "UpdateIncidentRepo (k_fault k 0) (k_fault k 1) iid i' (k_now k) db = (r, db1)" by fastforce
  have "opPrim d T db db1"
    using opPrim.updateIncident [OF incidentValidate_kind [OF Inr], of d T db "k_fault k 0" "k_fault k 1" iid "k_now k"] c by simp
  then show ?thesis using Inr c by (cases r) (auto simp: UpdateIncident_def audit_def intro: prim1 prim2 opPrim.append)
qed

lemma DeleteIncident_prims: "(opPrim d T)\<^sup>*\<^sup>* db (snd (DeleteIncident k iid client db))"
proof -
  obtain r db1 where c: "DeleteIncidentRepo (k_fault k 0) iid db = (r, db1)" by fastforce
  then have "opPrim d T db db1" by (metis opPrim.deleteIncident snd_conv)
  then show ?thesis using c by (cases r) (auto simp: DeleteIncident_def audit_def intro: prim1 prim2 opPrim.append)
qed

lemma maintain_prims: "k_dbNow k \<le> T \<Longrightarrow> (opPrim d T)\<^sup>*\<^sup>* db (maintain k db)"
  unfolding maintain_def
  by (meson opPrim.expire opPrim.clear opPrim.purge rtranclp.rtrancl_into_rtrancl rtranclp.rtrancl_refl)

lemma opExec_prims:
  assumes "k_dbNow (callOf c) \<le> T"
  shows "(opPrim d T)\<^sup>*\<^sup>* db (snd (opExec d c db))"
proof (cases c)
  case (CClaim k host)
  then show ?thesis using Claim_prims [of d T db k host] by (auto split: prod.splits sum.splits)
next
  case (CComplete k host cid rp)
  then show ?thesis using Complete_prims [of d T db k host cid rp] by (auto split: prod.splits sum.splits)
next
  case (CRefused k n client why)
  then show ?thesis by (simp add: Refused_def audit_def prim1 opPrim.append)
next
  case (CMaintain k)
  then show ?thesis using assms by (simp add: maintain_prims)
qed (simp_all add: Queue_prims CommandSvc_prims CommandsSvc_prims Expire_first CreateIncident_prims UpdateIncident_prims DeleteIncident_prims)

lemma opRun_prims:
  assumes "\<forall>c\<in>set cs. k_dbNow (callOf c) \<le> T"
  shows "(opPrim d T)\<^sup>*\<^sup>* db (snd (opRun d cs db))"
  using assms
proof (induction cs arbitrary: db)
  case (Cons c cs)
  obtain ev db1 where e: "opExec d c db = (ev, db1)" by fastforce
  then have "(opPrim d T)\<^sup>*\<^sup>* db db1" using opExec_prims [of c T d db] Cons.prems by simp
  moreover have "(opPrim d T)\<^sup>*\<^sup>* db1 (snd (opRun d cs db1))" using Cons by simp
  ultimately show ?case using e by (auto split: prod.splits)
qed simp

text \<open>Every history has such a bound.\<close>

lemma clock_bound: "\<exists>T. \<forall>c\<in>set cs. k_dbNow (callOf c) \<le> T"
  by (rule exI [of _ "Max ((\<lambda>c. k_dbNow (callOf c)) ` set cs)"]) simp


subsection \<open>What the statements keep\<close>

text \<open>The columns a command has in each status.\<close>

definition row_ok :: "commandRow \<Rightarrow> bool" where
  "row_ok r \<longleftrightarrow> Valid (oc_kind r) \<and>
     (case oc_status r of
        StatusQueued \<Rightarrow> oc_started r = None \<and> oc_finished r = None \<and> oc_result r = None \<and> oc_error r = None
      | StatusRunning \<Rightarrow> oc_started r \<noteq> None \<and> oc_finished r = None \<and> oc_result r = None \<and> oc_error r = None
      | StatusDone \<Rightarrow> oc_started r \<noteq> None \<and> oc_finished r \<noteq> None
      | StatusFailed \<Rightarrow> oc_started r \<noteq> None \<and> oc_finished r \<noteq> None
      | StatusExpired \<Rightarrow> oc_started r = None \<and> oc_finished r \<noteq> None \<and> oc_result r = None \<and> oc_error r = None
      | OtherStatus _ \<Rightarrow> False)"

definition op_inv :: "opdb \<Rightarrow> bool" where
  "op_inv db \<longleftrightarrow> distinct (map oc_id (commands db)) \<and> (\<forall>r\<in>set (commands db). row_ok r) \<and>
     sorted_wrt (<) (map ad_id (audits db)) \<and> (\<forall>e\<in>set (audits db). ad_id e \<le> auditSeq db) \<and>
     distinct (map ir_id (incidentRows db)) \<and>
     (\<forall>r\<in>set (incidentRows db). ir_kind r \<in> {IncidentLeak, IncidentOutage, IncidentOther})"

text \<open>What a command is and stays, and the order on states that keeps it: a statement on commands is an
  insert or a map over the rows.\<close>

definition ident :: "commandRow \<Rightarrow> string \<times> string \<times> cmdKind \<times> string \<times> string option \<times> int" where
  "ident r = (oc_id r, oc_host r, oc_kind r, oc_args r, oc_reason r, oc_created r)"

lemma ident_simps [simp]:
  "ident (r\<lparr>oc_status := a\<rparr>) = ident r" "ident (r\<lparr>oc_started := b\<rparr>) = ident r" "ident (r\<lparr>oc_finished := b\<rparr>) = ident r"
  "ident (r\<lparr>oc_result := e\<rparr>) = ident r" "ident (r\<lparr>oc_error := e\<rparr>) = ident r"
  by (simp_all add: ident_def)

lemma ident_id: "ident r = ident r' \<Longrightarrow> oc_id r = oc_id r'"
  by (simp add: ident_def)

definition advanced :: "opdb \<Rightarrow> opdb \<Rightarrow> bool" where
  "advanced db db' \<longleftrightarrow> (\<exists>new. map ident (commands db') = map ident (commands db) @ new) \<and>
     (\<forall>i. phaseStep\<^sup>*\<^sup>* (phaseOf (commands db) i) (phaseOf (commands db') i))"

lemma advanced_refl: "advanced db db"
  by (simp add: advanced_def)

lemma advanced_trans: "advanced a b \<Longrightarrow> advanced b c \<Longrightarrow> advanced a c"
  unfolding advanced_def by (metis append.assoc rtranclp_trans)

definition rowMap :: "(commandRow \<Rightarrow> commandRow) \<Rightarrow> opdb \<Rightarrow> bool" where
  "rowMap f db \<longleftrightarrow> (\<forall>r\<in>set (commands db). ident (f r) = ident r \<and> (row_ok r \<longrightarrow> row_ok (f r)) \<and>
     (row_ok r \<longrightarrow> phaseStep\<^sup>*\<^sup>* (At (oc_status r)) (At (oc_status (f r)))))"

lemma rowMap_id: "rowMap f db \<Longrightarrow> r \<in> set (commands db) \<Longrightarrow> oc_id (f r) = oc_id r"
  by (rule ident_id) (simp add: rowMap_def)

lemma rowMap_inv: "op_inv db \<Longrightarrow> rowMap f db \<Longrightarrow> op_inv (db\<lparr>commands := map f (commands db)\<rparr>)"
proof -
  assume inv: "op_inv db" and f: "rowMap f db"
  have eq: "map (oc_id \<circ> f) (commands db) = map oc_id (commands db)" by (simp add: rowMap_id [OF f])
  show ?thesis using inv f by (auto simp: op_inv_def rowMap_def eq)
qed

lemma rowMap_advanced: "op_inv db \<Longrightarrow> rowMap f db \<Longrightarrow> advanced db (db\<lparr>commands := map f (commands db)\<rparr>)"
proof -
  assume inv: "op_inv db" and f: "rowMap f db"
  have eq: "map (ident \<circ> f) (commands db) = map ident (commands db)" using f by (auto simp: rowMap_def)
  have "phaseStep\<^sup>*\<^sup>* (phaseOf (commands db) i) (phaseOf (map f (commands db)) i)" for i
    by (rule phaseOf_map) (use inv f in \<open>simp add: op_inv_def rowMap_def rowMap_id [OF f]\<close>)
  then show ?thesis by (simp add: advanced_def eq)
qed

definition runningRow :: "int \<Rightarrow> string \<Rightarrow> commandRow \<Rightarrow> commandRow" where
  "runningRow now cid r = (if oc_id r = cid \<and> oc_status r = StatusQueued
      then r\<lparr>oc_status := StatusRunning, oc_started := Some now\<rparr> else r)"

lemma markRunning_map: "markRunning now cid = map (runningRow now cid)"
  by (simp add: markRunning_def runningRow_def fun_eq_iff)

lemma runningRow_map: "rowMap (runningRow now cid) db"
  by (auto simp: rowMap_def runningRow_def row_ok_def phase_claim)

definition keeps :: "(opdb \<Rightarrow> opdb) \<Rightarrow> bool" where
  "keeps g \<longleftrightarrow> (\<forall>db. op_inv db \<longrightarrow> op_inv (g db) \<and> advanced db (g db))"

lemma keeps_id: "keeps (\<lambda>db. db)"
  by (simp add: keeps_def advanced_refl)

lemma keeps_comp: "keeps f \<Longrightarrow> keeps g \<Longrightarrow> keeps (\<lambda>db. g (f db))"
  unfolding keeps_def by (meson advanced_trans)

lemma keeps_rowMap: "(\<And>db. rowMap f db) \<Longrightarrow> keeps (\<lambda>db. db\<lparr>commands := map f (commands db)\<rparr>)"
  by (simp add: keeps_def rowMap_inv rowMap_advanced)

lemma keeps_fold: "keeps (\<lambda>db. db\<lparr>commands := fold (\<lambda>c. markRunning now (cl_id c)) cs (commands db)\<rparr>)"
proof (induction cs)
  case Nil
  then show ?case by (simp add: keeps_def advanced_refl)
next
  case (Cons c cs)
  have "keeps (\<lambda>db. db\<lparr>commands := map (runningRow now (cl_id c)) (commands db)\<rparr>)"
    by (rule keeps_rowMap [OF runningRow_map])
  from keeps_comp [OF this Cons] show ?case by (simp add: markRunning_map)
qed

lemma expireQueued_map: "rowMap (\<lambda>r. if staleQueued now r then r\<lparr>oc_status := StatusExpired, oc_finished := Some (unixMilli now)\<rparr> else r) db"
  by (auto simp: rowMap_def staleQueued_def row_ok_def phase_expire)

lemma expireRunning_map: "rowMap (\<lambda>r. if staleRunning now r
    then r\<lparr>oc_status := StatusFailed, oc_finished := Some (unixMilli now), oc_error := Some ''no result''\<rparr> else r) db"
  by (auto simp: rowMap_def staleRunning_def row_ok_def phase_fail)

lemma clear_map: "rowMap (\<lambda>r. if oldAnswer before r then r\<lparr>oc_result := None, oc_error := None\<rparr> else r) db"
  by (auto simp: rowMap_def oldAnswer_def row_ok_def split: status.splits option.splits)

lemma complete_map: "rp_status rp \<in> {StatusDone, StatusFailed} \<Longrightarrow> rowMap (\<lambda>r. if completable host cid r
    then r\<lparr>oc_status := rp_status rp, oc_finished := Some t, oc_result := res, oc_error := err\<rparr> else r) db"
  by (auto simp: rowMap_def completable_def row_ok_def phase_done phase_fail)

lemma Expire_keeps: "keeps (\<lambda>db. snd (Expire f g now db))"
proof (cases f)
  case (Some e)
  then show ?thesis by (simp add: Expire_def keeps_id)
next
  case None
  note a = keeps_rowMap [OF expireQueued_map [of now]]
  show ?thesis
  proof (cases g)
    case (Some e)
    then show ?thesis using None a by (simp add: Expire_def Let_def)
  next
    case (None)
    then show ?thesis using \<open>f = None\<close> keeps_comp [OF a keeps_rowMap [OF expireRunning_map [of now]]] by (simp add: Expire_def Let_def)
  qed
qed

lemmas keepsD = keeps_def [THEN iffD1, rule_format]

lemma ClaimRepo_keeps: "keeps (\<lambda>db. snd (ClaimRepo f host now n db))"
  unfolding keeps_def
proof (intro allI impI)
  fix db assume "op_inv db"
  from keepsD [OF keeps_fold this, of "unixMilli now" "map toClaimed (take n (queuedOf host db))"]
  show "op_inv (snd (ClaimRepo f host now n db)) \<and> advanced db (snd (ClaimRepo f host now n db))"
    using \<open>op_inv db\<close> by (simp add: ClaimRepo_def Let_def advanced_refl split: option.split)
qed

lemma ClearResults_keeps: "keeps (\<lambda>db. snd (ClearResults f before db))"
  using keeps_rowMap [OF clear_map] by (simp add: keeps_def advanced_refl ClearResults_def split: option.split)

lemma CompleteRepo_keeps: "rp_status rp \<in> {StatusDone, StatusFailed} \<Longrightarrow> keeps (\<lambda>db. snd (CompleteRepo f g host cid rp now db))"
  using keeps_rowMap [OF complete_map [where rp = rp and host = host and cid = cid and t = "unixMilli now" and res = "rp_result rp" and err = "nullString (rp_error rp)"]]
  by (simp add: keeps_def advanced_refl CompleteRepo_def Let_def split: option.split)

lemma InsertCommand_keeps:
  assumes "cm_status c = StatusQueued" and "Valid (cm_kind c)"
  shows "keeps (\<lambda>db. snd (InsertCommand f known c db))"
proof -
  have "phaseStep\<^sup>*\<^sup>* (phaseOf cs i) (At StatusQueued)" if "i \<notin> oc_id ` set cs" for cs i
  proof -
    have "phaseOf cs i = Absent" using that by (induction cs) (auto simp: phaseOf_Cons phaseOf_def)
    then show ?thesis by (auto intro: phaseStep.intros)
  qed
  then show ?thesis
    using assms by (auto simp: keeps_def advanced_def InsertCommand_def op_inv_def row_ok_def phaseOf_append_new split: option.split)
qed

lemma AppendAudit_keeps: "keeps (\<lambda>db. snd (AppendAudit f e db))"
  by (fastforce simp: keeps_def advanced_def AppendAudit_def op_inv_def sorted_wrt_append split: option.split)

lemma PurgeAudit_keeps: "keeps (\<lambda>db. snd (PurgeAudit f dbNow before db))"
  by (auto simp: keeps_def advanced_def PurgeAudit_def Let_def op_inv_def sorted_wrt_map intro: sorted_wrt_filter split: option.split)

lemma incidentFields_id [simp]: "ir_id (incidentFields i now r) = ir_id r" "ir_kind (incidentFields i now r) = in_kind i"
  by (simp_all add: incidentFields_def)

lemma incidents_keep:
  "in_kind i \<in> {IncidentLeak, IncidentOutage, IncidentOther} \<Longrightarrow> keeps (\<lambda>db. snd (InsertIncident f g i iid now db))"
  "in_kind i \<in> {IncidentLeak, IncidentOutage, IncidentOther} \<Longrightarrow> keeps (\<lambda>db. snd (UpdateIncidentRepo f g iid i now db))"
  "keeps (\<lambda>db. snd (DeleteIncidentRepo f iid db))"
proof -
  show "keeps (\<lambda>db. snd (InsertIncident f g i iid now db))" if "in_kind i \<in> {IncidentLeak, IncidentOutage, IncidentOther}"
    using that by (auto simp: keeps_def advanced_def InsertIncident_def op_inv_def Let_def emptyIncident_def split: option.split)
  have eq: "ir_id (if ir_id r = iid then incidentFields i now r else r) = ir_id r" for r by simp
  show "keeps (\<lambda>db. snd (UpdateIncidentRepo f g iid i now db))" if "in_kind i \<in> {IncidentLeak, IncidentOutage, IncidentOther}"
    using that by (auto simp: keeps_def advanced_def UpdateIncidentRepo_def op_inv_def Let_def comp_def eq simp del: if_split split: option.split if_split_asm)
  show "keeps (\<lambda>db. snd (DeleteIncidentRepo f iid db))"
    by (auto simp: keeps_def advanced_def DeleteIncidentRepo_def op_inv_def intro: distinct_map_filter split: option.split)
qed

lemma opPrim_keeps: "opPrim d T db db' \<Longrightarrow> op_inv db \<Longrightarrow> op_inv db' \<and> advanced db db'"
  by (induction rule: opPrim.induct)
    (use InsertCommand_keeps ClaimRepo_keeps CompleteRepo_keeps Expire_keeps ClearResults_keeps AppendAudit_keeps PurgeAudit_keeps
       incidents_keep in \<open>simp_all add: keeps_def\<close>)

lemma opPrims_keep:
  "(opPrim d T)\<^sup>*\<^sup>* db db' \<Longrightarrow> op_inv db \<Longrightarrow> op_inv db' \<and> advanced db db'"
  by (induction rule: rtranclp_induct) (auto dest: opPrim_keeps intro: advanced_refl advanced_trans)


subsection \<open>Events\<close>

lemma fold_markRunning:
  "fold (\<lambda>c. markRunning now (cl_id c)) cs rows =
   map (\<lambda>r. if oc_id r \<in> cl_id ` set cs \<and> oc_status r = StatusQueued
             then r\<lparr>oc_status := StatusRunning, oc_started := Some now\<rparr> else r) rows"
  by (induction cs arbitrary: rows) (auto simp: markRunning_def)

lemma queuedOf_iff: "r \<in> set (queuedOf host db) \<longleftrightarrow> r \<in> set (commands db) \<and> oc_host r = host \<and> oc_status r = StatusQueued"
  by (auto simp: queuedOf_def)

lemma distinct_map_sort: "distinct (map g (sort_key h xs)) \<longleftrightarrow> distinct (map g xs)"
  by (rule mset_eq_imp_distinct_iff) simp

lemma queuedOf_distinct: "op_inv db \<Longrightarrow> distinct (map oc_id (queuedOf host db))"
  by (simp add: queuedOf_def op_inv_def distinct_map_sort distinct_map_filter)

lemma rank_member:
  assumes "op_inv db" and "r \<in> set (commands db)"
  shows "phaseOf (commands db) (oc_id r) = At (oc_status r)"
  using assms by (simp add: op_inv_def phaseOf_member)

lemma ClaimRepo_Inr:
  assumes inv: "op_inv db" and c: "ClaimRepo f host now n db = (Inr cs, db')"
  shows "cs = map toClaimed (take n (queuedOf host db))" and "distinct (map cl_id cs)"
    and "\<And>x. x \<in> set cs \<Longrightarrow> phaseOf (commands db) (cl_id x) = At StatusQueued \<and> phaseOf (commands db') (cl_id x) = At StatusRunning"
    and "\<And>x. x \<in> set cs \<Longrightarrow> \<exists>r\<in>set (commands db). ident r = (cl_id x, host, cl_kind x, cl_args x, oc_reason r, oc_created r)"
proof -
  show cs: "cs = map toClaimed (take n (queuedOf host db))" using c by (simp add: ClaimRepo_def Let_def split: option.splits)
  have "map cl_id cs = take n (map oc_id (queuedOf host db))" by (simp add: cs toClaimed_def comp_def take_map)
  then show "distinct (map cl_id cs)" using queuedOf_distinct [OF inv, of host] by (simp del: map_eq_conv)
  have db': "commands db' = fold (\<lambda>c. markRunning (unixMilli now) (cl_id c)) cs (commands db)"
    using c cs by (auto simp: ClaimRepo_def Let_def split: option.splits)
  have inv': "op_inv db'" using keepsD [OF ClaimRepo_keeps inv, of f host now n] c by simp
  fix x assume "x \<in> set cs"
  then obtain r where r: "r \<in> set (queuedOf host db)" and x: "x = toClaimed r" by (auto simp: cs dest: in_set_takeD)
  then have q: "r \<in> set (commands db)" "oc_host r = host" "oc_status r = StatusQueued" by (simp_all add: queuedOf_iff)
  show "\<exists>r\<in>set (commands db). ident r = (cl_id x, host, cl_kind x, cl_args x, oc_reason r, oc_created r)"
    using q x by (auto simp: ident_def toClaimed_def)
  have "oc_id r \<in> cl_id ` set cs" using \<open>x \<in> set cs\<close> x by (force simp: toClaimed_def)
  then have "r\<lparr>oc_status := StatusRunning, oc_started := Some (unixMilli now)\<rparr> \<in> set (commands db')"
    using q unfolding db' fold_markRunning by force
  then show "phaseOf (commands db) (cl_id x) = At StatusQueued \<and> phaseOf (commands db') (cl_id x) = At StatusRunning"
    using rank_member [OF inv q(1)] rank_member [OF inv'] q(3) x by (fastforce simp: toClaimed_def)
qed

lemma Expire_Inr_inv: "op_inv db \<Longrightarrow> Expire f g now db = (r, db1) \<Longrightarrow> op_inv db1 \<and> advanced db db1"
  using keepsD [OF Expire_keeps, of db f g now] by simp

lemma Claim_Inr:
  assumes inv: "op_inv db" and c: "Claim k host db = (Inr cs, db')"
  obtains db1 where "op_inv db1" "advanced db db1" "ClaimRepo (k_fault k 2) host (k_now k) ClaimBatch db1 = (Inr cs, db')"
    "db1 = snd (Expire None None (k_now k) db)"
proof -
  obtain r db1 where e: "Expire (k_fault k 0) (k_fault k 1) (k_now k) db = (r, db1)" by fastforce
  then obtain m where "r = Inr m" "ClaimRepo (k_fault k 2) host (k_now k) ClaimBatch db1 = (Inr cs, db')"
    using c by (cases r) (auto simp: Claim_def)
  moreover have "k_fault k 0 = None" "k_fault k 1 = None"
    using e \<open>r = Inr m\<close> by (auto simp: Expire_def Let_def split: option.splits)
  ultimately show ?thesis using that e Expire_Inr_inv [OF inv e] by simp
qed

lemma CompleteRepo_Inr:
  assumes inv: "op_inv db" and c: "CompleteRepo f g host cid rp now db = (Inr cm, db')" and rp: "rp_status rp \<in> {StatusDone, StatusFailed}"
  shows "phaseOf (commands db) cid = At StatusRunning" and "phaseOf (commands db') cid = At (rp_status rp)"
    and "\<exists>r\<in>set (commands db). oc_id r = cid \<and> oc_host r = host"
proof -
  obtain r where r: "r \<in> set (commands db)" "completable host cid r"
    using c by (auto simp: CompleteRepo_def list_ex_iff Let_def split: option.splits if_splits)
  then have q: "oc_id r = cid" "oc_host r = host" "oc_status r = StatusRunning" by (simp_all add: completable_def)
  show "\<exists>r\<in>set (commands db). oc_id r = cid \<and> oc_host r = host" using r q by blast
  show "phaseOf (commands db) cid = At StatusRunning" using rank_member [OF inv r(1)] q by simp
  have inv': "op_inv db'" using keepsD [OF CompleteRepo_keeps [OF rp] inv, of f g host cid now] c by simp
  define r' where "r' = r\<lparr>oc_status := rp_status rp, oc_finished := Some (unixMilli now), oc_result := rp_result rp, oc_error := nullString (rp_error rp)\<rparr>"
  have "r' \<in> set (commands db')"
    using c r by (force simp: CompleteRepo_def r'_def Let_def split: option.splits if_splits)
  from rank_member [OF inv' this] show "phaseOf (commands db') cid = At (rp_status rp)" using q by (simp add: r'_def)
qed


definition handed :: "opevent list \<Rightarrow> string list" where
  "handed ev = concat (map (\<lambda>e. case e of Handed _ c \<Rightarrow> [cl_id c] | Answered _ _ \<Rightarrow> []) ev)"

definition answered :: "opevent list \<Rightarrow> string list" where
  "answered ev = concat (map (\<lambda>e. case e of Handed _ _ \<Rightarrow> [] | Answered _ i \<Rightarrow> [i]) ev)"

lemma handed_simps [simp]:
  "handed [] = []" "handed (a @ b) = handed a @ handed b" "handed (map (Handed h) cs) = map cl_id cs" "handed [Answered h i] = []"
  and answered_simps [simp]:
  "answered [] = []" "answered (a @ b) = answered a @ answered b" "answered (map (Handed h) cs) = []" "answered [Answered h i] = [i]"
  by (simp_all add: handed_def answered_def comp_def)

text \<open>An event concerns a command of the host it names.\<close>

fun concerns :: "opdb \<Rightarrow> opevent \<Rightarrow> bool" where
  "concerns db (Handed h c) = list_ex (\<lambda>r. oc_id r = cl_id c \<and> oc_host r = h \<and> oc_kind r = cl_kind c \<and> oc_args r = cl_args c) (commands db)"
| "concerns db (Answered h i) = list_ex (\<lambda>r. oc_id r = i \<and> oc_host r = h) (commands db)"

lemma advanced_ident: "advanced db db' \<Longrightarrow> r \<in> set (commands db) \<Longrightarrow> \<exists>r'\<in>set (commands db'). ident r' = ident r"
proof -
  assume "advanced db db'" and r: "r \<in> set (commands db)"
  then obtain new where "map ident (commands db') = map ident (commands db) @ new" by (auto simp: advanced_def)
  then have "ident r \<in> set (map ident (commands db'))" using r by (simp del: map_eq_conv)
  then show ?thesis by auto
qed

lemma concerns_advanced: "advanced db db' \<Longrightarrow> concerns db e \<Longrightarrow> concerns db' e"
proof (cases e)
  case (Handed h c)
  assume a: "advanced db db'" and "concerns db e"
  then obtain r where "r \<in> set (commands db)" "oc_id r = cl_id c \<and> oc_host r = h \<and> oc_kind r = cl_kind c \<and> oc_args r = cl_args c"
    using Handed by (auto simp: list_ex_iff)
  with advanced_ident [OF a this(1)] show ?thesis using Handed by (auto simp: list_ex_iff ident_def)
next
  case (Answered h i)
  assume a: "advanced db db'" and "concerns db e"
  then obtain r where "r \<in> set (commands db)" "oc_id r = i \<and> oc_host r = h" using Answered by (auto simp: list_ex_iff)
  with advanced_ident [OF a this(1)] show ?thesis using Answered by (auto simp: list_ex_iff ident_def)
qed

lemma opRun_keeps: "op_inv db \<Longrightarrow> op_inv (snd (opRun d cs db)) \<and> advanced db (snd (opRun d cs db))"
  using clock_bound [of cs] opRun_prims [of cs _ d db] opPrims_keep by blast

lemma opExec_keeps: "op_inv db \<Longrightarrow> op_inv (snd (opExec d c db)) \<and> advanced db (snd (opExec d c db))"
  using opExec_prims [of c "k_dbNow (callOf c)" d db] opPrims_keep by blast

lemma advanced_rank: "advanced db db' \<Longrightarrow> rank (phaseOf (commands db) i) \<le> rank (phaseOf (commands db') i)"
  by (simp add: advanced_def phases_rank)

text \<open>What one call reports: handed out are commands that were waiting, answered ones that were running.\<close>

definition fair :: "opdb \<Rightarrow> opevent list \<Rightarrow> opdb \<Rightarrow> bool" where
  "fair db ev db' \<longleftrightarrow>
     distinct (handed ev) \<and> (\<forall>i\<in>set (handed ev). rank (phaseOf (commands db) i) = 0 \<and> 1 \<le> rank (phaseOf (commands db') i)) \<and>
     distinct (answered ev) \<and> (\<forall>i\<in>set (answered ev). rank (phaseOf (commands db) i) \<le> 1 \<and> 2 \<le> rank (phaseOf (commands db') i)) \<and>
     (\<forall>e\<in>set ev. concerns db' e)"

lemma fair_none: "fair db [] db'"
  by (simp add: fair_def)

lemma Claim_fair:
  assumes inv: "op_inv db" and c: "Claim k host db = (Inr cs, db')"
  shows "fair db (map (Handed host) cs) db'"
proof -
  obtain db1 where 1: "op_inv db1" "advanced db db1" "ClaimRepo (k_fault k 2) host (k_now k) ClaimBatch db1 = (Inr cs, db')"
    by (rule Claim_Inr [OF inv c])
  note r = ClaimRepo_Inr [OF 1(1,3)]
  have adv: "advanced db1 db'" using keepsD [OF ClaimRepo_keeps 1(1), of "k_fault k 2" host "k_now k" ClaimBatch] 1(3) by simp
  have "rank (phaseOf (commands db) (cl_id x)) = 0 \<and> 1 \<le> rank (phaseOf (commands db') (cl_id x))" if "x \<in> set cs" for x
    using r(3) [OF that] advanced_rank [OF 1(2), of "cl_id x"] by simp
  moreover have "concerns db' (Handed host x)" if x: "x \<in> set cs" for x
  proof -
    obtain q where "q \<in> set (commands db1)" "ident q = (cl_id x, host, cl_kind x, cl_args x, oc_reason q, oc_created q)"
      using r(4) [OF x] by blast
    then have "concerns db1 (Handed host x)" by (auto simp: list_ex_iff ident_def)
    then show ?thesis by (rule concerns_advanced [OF adv])
  qed
  ultimately show ?thesis using r(2) by (auto simp: fair_def)
qed

lemma audit_commands [simp]: "commands (audit k f a t det cl oc db) = commands db"
  by (simp add: audit_def AppendAudit_def split: option.split)

lemma Complete_fair:
  assumes inv: "op_inv db" and c: "Complete d k host cid rp db = (Inr cm, db')"
  shows "fair db [Answered host cid] db'"
proof -
  obtain rp' db1 where v: "reportValidate (d_jsonValid d) rp = Inr rp'" and
    r: "CompleteRepo (k_fault k 0) (k_fault k 1) host cid rp' (k_now k) db = (Inr cm, db1)" and db': "commands db' = commands db1"
    using c by (auto simp: Complete_def split: sum.splits prod.splits)
  note st = reportValidate_status [OF v]
  note x = CompleteRepo_Inr [OF inv r st]
  have adv: "advanced db db1" using keepsD [OF CompleteRepo_keeps [OF st] inv, of "k_fault k 0" "k_fault k 1" host cid "k_now k"] r by simp
  have "concerns db (Answered host cid)" using x(3) by (auto simp: list_ex_iff)
  then have "concerns db1 (Answered host cid)" by (rule concerns_advanced [OF adv])
  moreover have "2 \<le> rank (At (rp_status rp'))" using st by auto
  ultimately show ?thesis using x db' by (simp add: fair_def)
qed

lemma opExec_fair:
  assumes inv: "op_inv db"
  shows "fair db (fst (opExec d c db)) (snd (opExec d c db))"
proof (cases c)
  case (CClaim k host)
  obtain r db' where r: "Claim k host db = (r, db')" by fastforce
  show ?thesis
  proof (cases r)
    case (Inr cs)
    then show ?thesis using Claim_fair [OF inv, of k host cs db'] r CClaim by simp
  qed (use CClaim r in \<open>simp add: fair_none\<close>)
next
  case (CComplete k host cid rp)
  obtain r db' where r: "Complete d k host cid rp db = (r, db')" by fastforce
  show ?thesis
  proof (cases r)
    case (Inr cm)
    then show ?thesis using Complete_fair [OF inv, of d k host cid rp cm db'] r CComplete by simp
  qed (use CComplete r in \<open>simp add: fair_none\<close>)
qed (simp_all add: fair_none)

lemma fair_append:
  assumes "fair a ev b" and "fair b ev' c" and ab: "advanced a b" and bc: "advanced b c"
  shows "fair a (ev @ ev') c"
proof -
  note ra = advanced_rank [OF ab] and rb = advanced_rank [OF bc]
  have "set (handed ev) \<inter> set (handed ev') = {}" "set (answered ev) \<inter> set (answered ev') = {}"
    using assms(1,2) unfolding fair_def by (fastforce)+
  moreover have "\<forall>i\<in>set (handed ev'). rank (phaseOf (commands a) i) = 0"
    using assms(2) ra unfolding fair_def by (metis le_zero_eq)
  moreover have "\<forall>i\<in>set (answered ev'). rank (phaseOf (commands a) i) \<le> 1"
    using assms(2) ra unfolding fair_def by (meson order_trans)
  moreover have "\<forall>i\<in>set (handed ev). 1 \<le> rank (phaseOf (commands c) i)" "\<forall>i\<in>set (answered ev). 2 \<le> rank (phaseOf (commands c) i)"
    using assms(1) rb unfolding fair_def by (meson order_trans)+
  ultimately show ?thesis using assms(1,2) concerns_advanced [OF bc] unfolding fair_def by auto
qed

lemma opRun_fair: "op_inv db \<Longrightarrow> fair db (fst (opRun d cs db)) (snd (opRun d cs db))"
proof (induction cs arbitrary: db)
  case (Cons c cs)
  obtain ev db1 where e: "opExec d c db = (ev, db1)" by fastforce
  obtain ev' db2 where r: "opRun d cs db1 = (ev', db2)" by fastforce
  have k: "op_inv db1" "advanced db db1" using opExec_keeps [OF Cons.prems, of d c] e by simp_all
  have "fair db ev db1" using opExec_fair [OF Cons.prems, of d c] e by simp
  moreover have "fair db1 ev' db2" using Cons.IH [OF k(1)] r by simp
  moreover have "advanced db1 db2" using opRun_keeps [OF k(1), of d cs] r by simp
  ultimately show ?case using e r k(2) by (simp add: fair_append)
qed (simp add: fair_none)


subsection \<open>The audit log only grows\<close>

definition auditKept :: "time \<Rightarrow> opdb \<Rightarrow> opdb \<Rightarrow> bool" where
  "auditKept T db db' \<longleftrightarrow> auditSeq db \<le> auditSeq db' \<and>
     (\<exists>P new. audits db' = filter P (audits db) @ new \<and> (\<forall>e. keptByTrigger T e \<longrightarrow> P e) \<and> (\<forall>e\<in>set new. auditSeq db < ad_id e))"

lemma auditKept_same: "audits db' = audits db \<Longrightarrow> auditSeq db' = auditSeq db \<Longrightarrow> auditKept T db db'"
  unfolding auditKept_def by (intro conjI exI [of _ "\<lambda>_. True"] exI [of _ "[]"]) simp_all

lemma auditKept_trans:
  assumes "auditKept T a b" and "auditKept T b c"
  shows "auditKept T a c"
proof -
  obtain P new where 1: "auditSeq a \<le> auditSeq b" "audits b = filter P (audits a) @ new" "\<forall>e. keptByTrigger T e \<longrightarrow> P e" "\<forall>e\<in>set new. auditSeq a < ad_id e"
    using assms(1) by (auto simp: auditKept_def)
  obtain Q new' where 2: "auditSeq b \<le> auditSeq c" "audits c = filter Q (audits b) @ new'" "\<forall>e. keptByTrigger T e \<longrightarrow> Q e" "\<forall>e\<in>set new'. auditSeq b < ad_id e"
    using assms(2) by (auto simp: auditKept_def)
  have eq: "audits c = filter (\<lambda>e. P e \<and> Q e) (audits a) @ (filter Q new @ new')" using 1(2) 2(2) by (simp add: conj_commute)
  show ?thesis unfolding auditKept_def
  proof (intro conjI exI [of _ "\<lambda>e. P e \<and> Q e"] exI [of _ "filter Q new @ new'"])
    show "audits c = filter (\<lambda>e. P e \<and> Q e) (audits a) @ (filter Q new @ new')" by (rule eq)
    show "\<forall>e\<in>set (filter Q new @ new'). auditSeq a < ad_id e" using 1(1,4) 2(4) by fastforce
  qed (use 1 2 in auto)
qed

lemma keptByTrigger_mono: "dbNow \<le> T \<Longrightarrow> keptByTrigger T e \<Longrightarrow> keptByTrigger dbNow e"
  using zdiv_mono1 [of dbNow T second] by (simp add: keptByTrigger_def)

lemma PurgeAudit_kept: "dbNow \<le> T \<Longrightarrow> auditKept T db (snd (PurgeAudit f dbNow before db))"
proof -
  assume le: "dbNow \<le> T"
  define old where "old = filter (\<lambda>e. ad_at e < unixMilli before) (audits db)"
  show ?thesis
  proof (cases "f = None \<and> \<not> list_ex (keptByTrigger dbNow) old")
    case False
    then have "snd (PurgeAudit f dbNow before db) = db" by (auto simp: PurgeAudit_def old_def Let_def split: option.split)
    then show ?thesis by (simp add: auditKept_same)
  next
    case True
    define P where "P e = (\<not> (ad_at e < unixMilli before \<and> e \<in> set (audits db)))" for e
    have "audits (snd (PurgeAudit f dbNow before db)) = filter P (audits db) @ []"
      using True by (auto simp: PurgeAudit_def old_def P_def Let_def cong: filter_cong)
    moreover have "\<forall>e. keptByTrigger T e \<longrightarrow> P e"
      using True keptByTrigger_mono [OF le] by (auto simp: P_def old_def list_ex_iff)
    moreover have "auditSeq (snd (PurgeAudit f dbNow before db)) = auditSeq db"
      using True by (auto simp: PurgeAudit_def old_def Let_def)
    ultimately show ?thesis unfolding auditKept_def
      by (intro conjI exI [of _ P] exI [of _ "[]"]) simp_all
  qed
qed

lemma AppendAudit_kept: "auditKept T db (snd (AppendAudit f e db))"
proof (cases f)
  case None
  then show ?thesis unfolding auditKept_def
    by (intro conjI exI [of _ "\<lambda>_. True"] exI [of _ "[e\<lparr>ad_id := auditSeq db + 1\<rparr>]"]) (simp_all add: AppendAudit_def)
qed (simp add: AppendAudit_def auditKept_same)

lemma opPrim_audit: "opPrim d T db db' \<Longrightarrow> auditKept T db db'"
  by (induction rule: opPrim.induct)
    (auto simp: InsertCommand_def ClaimRepo_def CompleteRepo_def Expire_def ClearResults_def InsertIncident_def UpdateIncidentRepo_def
       DeleteIncidentRepo_def Let_def split: option.split intro!: auditKept_same PurgeAudit_kept AppendAudit_kept)

lemma opPrims_audit: "(opPrim d T)\<^sup>*\<^sup>* db db' \<Longrightarrow> auditKept T db db'"
  by (induction rule: rtranclp_induct) (auto intro: auditKept_same auditKept_trans opPrim_audit)


subsection \<open>Claims and answers, exactly\<close>

text \<open>The effect of a claim on one row: stale commands end, the chosen ones start.\<close>

definition claimRow :: "time \<Rightarrow> string set \<Rightarrow> commandRow \<Rightarrow> commandRow" where
  "claimRow now chosen r =
     (if staleQueued now r then r\<lparr>oc_status := StatusExpired, oc_finished := Some (unixMilli now)\<rparr>
      else if staleRunning now r then r\<lparr>oc_status := StatusFailed, oc_finished := Some (unixMilli now), oc_error := Some ''no result''\<rparr>
      else if oc_id r \<in> chosen \<and> oc_status r = StatusQueued then r\<lparr>oc_status := StatusRunning, oc_started := Some (unixMilli now)\<rparr>
      else r)"

definition fresh :: "string \<Rightarrow> time \<Rightarrow> commandRow \<Rightarrow> bool" where
  "fresh host now r \<longleftrightarrow> oc_host r = host \<and> oc_status r = StatusQueued \<and> unixMilli (now - QueuedExpiry) \<le> oc_created r"

definition expireRow :: "time \<Rightarrow> commandRow \<Rightarrow> commandRow" where
  "expireRow now r =
     (if staleQueued now r then r\<lparr>oc_status := StatusExpired, oc_finished := Some (unixMilli now)\<rparr>
      else if staleRunning now r then r\<lparr>oc_status := StatusFailed, oc_finished := Some (unixMilli now), oc_error := Some ''no result''\<rparr>
      else r)"

lemma Expire_commands: "commands (snd (Expire None None now db)) = map (expireRow now) (commands db)"
  by (auto simp: Expire_def Let_def expireRow_def staleQueued_def staleRunning_def)

lemma expireRow_queued:
  "oc_host (expireRow now r) = host \<and> oc_status (expireRow now r) = StatusQueued \<longleftrightarrow> fresh host now r"
  "fresh host now r \<Longrightarrow> expireRow now r = r"
  by (auto simp: expireRow_def fresh_def staleQueued_def staleRunning_def)

lemma queuedOf_expired: "queuedOf host (snd (Expire None None now db)) = sort_key (\<lambda>r. (oc_created r, oc_id r)) (filter (fresh host now) (commands db))"
proof -
  have "filter (\<lambda>r. oc_host r = host \<and> oc_status r = StatusQueued) (map (expireRow now) rs) = filter (fresh host now) rs" for rs
    by (induction rs) (simp_all add: expireRow_queued)
  then show ?thesis by (simp add: queuedOf_def Expire_commands)
qed

lemma claimRow_expire: "(if oc_id (expireRow now r) \<in> S \<and> oc_status (expireRow now r) = StatusQueued
    then (expireRow now r)\<lparr>oc_status := StatusRunning, oc_started := Some (unixMilli now)\<rparr> else expireRow now r) = claimRow now S r"
  by (auto simp: claimRow_def expireRow_def staleQueued_def staleRunning_def)

lemma Claim_exact:
  assumes "\<And>i. i < 3 \<Longrightarrow> k_fault k i = None"
  shows "\<exists>db'. Claim k host db =
      (Inr (map toClaimed (take ClaimBatch (sort_key (\<lambda>r. (oc_created r, oc_id r)) (filter (fresh host (k_now k)) (commands db))))), db') \<and>
    commands db' = map (claimRow (k_now k) (oc_id ` set (take ClaimBatch (sort_key (\<lambda>r. (oc_created r, oc_id r)) (filter (fresh host (k_now k)) (commands db)))))) (commands db)"
proof -
  obtain n db1 where e: "Expire None None (k_now k) db = (Inr n, db1)" by (simp add: Expire_def Let_def)
  define chosen where "chosen = take ClaimBatch (queuedOf host db1)"
  have ch: "chosen = take ClaimBatch (sort_key (\<lambda>r. (oc_created r, oc_id r)) (filter (fresh host (k_now k)) (commands db)))"
    using queuedOf_expired [of host "k_now k" db] e by (simp add: chosen_def)
  have ids: "cl_id ` set (map toClaimed chosen) = oc_id ` set chosen" by (auto simp: toClaimed_def image_iff)
  have c1: "commands db1 = map (expireRow (k_now k)) (commands db)" using Expire_commands [of "k_now k" db] e by simp
  have f: "k_fault k 0 = None" "k_fault k 1 = None" "k_fault k 2 = None" using assms by simp_all
  have "Claim k host db = (Inr (map toClaimed chosen),
      db1\<lparr>commands := map (claimRow (k_now k) (oc_id ` set chosen)) (commands db)\<rparr>)"
    unfolding Claim_def ClaimRepo_def Let_def fold_markRunning f e prod.case sum.case option.case chosen_def [symmetric] ids
    by (simp only: c1 map_map comp_def claimRow_expire)
  then have "\<exists>db'. Claim k host db = (Inr (map toClaimed chosen), db') \<and>
      commands db' = map (claimRow (k_now k) (oc_id ` set chosen)) (commands db)" by simp
  then show ?thesis unfolding ch .
qed

lemma stale_answer:
  assumes inv: "op_inv db" and r: "r \<in> set (commands db)" "staleRunning now r"
  shows "CompleteRepo f g host (oc_id r) rp t (snd (Expire None None now db)) =
     ((case f of None \<Rightarrow> Inl (NotFound ''no running command with this id for this host'') | Some e \<Rightarrow> Inl e), snd (Expire None None now db))"
proof -
  have "\<not> completable host (oc_id r) (expireRow now x)" if "x \<in> set (commands db)" for x
  proof
    assume c: "completable host (oc_id r) (expireRow now x)"
    have "oc_id (expireRow now x) = oc_id x" by (simp add: expireRow_def)
    then have "x = r" using c inv r(1) that by (auto simp: completable_def op_inv_def distinct_map dest: inj_onD)
    then show False using c r(2) by (auto simp: completable_def expireRow_def staleRunning_def staleQueued_def split: if_splits)
  qed
  then show ?thesis by (auto simp: CompleteRepo_def Expire_commands list_ex_iff split: option.split)
qed


subsection \<open>Properties\<close>

definition emptyOp :: opdb where
  "emptyOp = \<lparr>commands = [], audits = [], auditSeq = 0, incidentRows = []\<rparr>"

definition demoRow :: commandRow where
  "demoRow = \<lparr>oc_id = ''c1'', oc_host = ''h1'', oc_kind = KindLift, oc_args = ''{}'', oc_reason = None, oc_status = StatusQueued,
     oc_created = 0, oc_started = None, oc_finished = None, oc_result = None, oc_error = None\<rparr>"

definition demoOp :: opdb where
  "demoOp = emptyOp\<lparr>commands := [demoRow]\<rparr>"

definition demoDeps :: deps where
  "demoDeps = \<lparr>d_decodeArgs = (\<lambda>_. Inl ''json: bad''), d_unmarshalArgs = (\<lambda>_. None), d_jsonValid = (\<lambda>_. True), d_hostKnown = (\<lambda>h. h = ''h1'')\<rparr>"

definition demoCall :: "time \<Rightarrow> call" where
  "demoCall t = \<lparr>k_now = t, k_auditNow = t, k_dbNow = t, k_newID = Some ''c2'', k_fault = (\<lambda>_. None), k_order = []\<rparr>"

lemmas op_eval = emptyOp_def demoRow_def demoOp_def demoDeps_def demoCall_def Claim_def ClaimRepo_def Expire_def Let_def queuedOf_def
  toClaimed_def markRunning_def staleQueued_def staleRunning_def QueuedExpiry_def RunningExpiry_def ClaimBatch_def unixMilli_def

lemma demoOp_inv: "op_inv demoOp"
  by (simp add: op_inv_def row_ok_def Valid_def Kinds_def demoOp_def emptyOp_def demoRow_def)

text \<open>C10 (refinement). The console implements a machine in which every command goes from queued to running to
  done or failed, or from queued to expired, and never back: whatever calls, polls, answers, expiry
  and retention runs follow one another, with whatever failing statements, each command only moves
  forward, none disappears, and its host, kind, arguments, reason and time never change.\<close>

theorem command_lifecycle:
  assumes "op_inv db" and "opRun d cs db = (ev, db')"
  shows "(\<forall>i. phaseStep\<^sup>*\<^sup>* (phaseOf (commands db) i) (phaseOf (commands db') i)) \<and>
         (\<exists>new. map ident (commands db') = map ident (commands db) @ new)"
  using opRun_keeps [OF assms(1), of d cs] assms(2) by (simp add: advanced_def)

theorem command_lifecycle_witness:
  "opRun demoDeps [CClaim (demoCall minute) ''h1''] demoOp =
     ([Handed ''h1'' \<lparr>cl_id = ''c1'', cl_kind = KindLift, cl_args = ''{}''\<rparr>],
      demoOp\<lparr>commands := [demoRow\<lparr>oc_status := StatusRunning, oc_started := Some 60000\<rparr>]\<rparr>) \<and>
   phaseStep\<^sup>*\<^sup>* (At StatusQueued) (At StatusRunning)"
proof -
  have r: "opRun demoDeps [CClaim (demoCall minute) ''h1''] demoOp =
     ([Handed ''h1'' \<lparr>cl_id = ''c1'', cl_kind = KindLift, cl_args = ''{}''\<rparr>],
      demoOp\<lparr>commands := [demoRow\<lparr>oc_status := StatusRunning, oc_started := Some 60000\<rparr>]\<rparr>)"
    by (simp add: op_eval)
  have "phaseOf (commands demoOp) ''c1'' = At StatusQueued"
    "phaseOf (commands (demoOp\<lparr>commands := [demoRow\<lparr>oc_status := StatusRunning, oc_started := Some 60000\<rparr>]\<rparr>)) ''c1'' = At StatusRunning"
    by (simp_all add: phaseOf_def demoOp_def demoRow_def)
  with command_lifecycle [OF demoOp_inv r] r show ?thesis by metis
qed

text \<open>C6 (safety). A command is handed out at most once and answered at most once, in any history of calls
  from any number of hosts, repeated and overlapping polls included; and it is handed to, and
  answered by, only the host it was queued for, with the kind and arguments it was queued with.\<close>

theorem command_at_most_once:
  assumes "op_inv db" and "opRun d cs db = (ev, db')"
  shows "distinct (handed ev) \<and> distinct (answered ev) \<and> (\<forall>e\<in>set ev. concerns db' e)"
  using opRun_fair [OF assms(1), of d cs] assms(2) by (simp add: fair_def)

theorem command_at_most_once_witness:
  "fst (opRun demoDeps [CClaim (demoCall minute) ''h1'', CClaim (demoCall minute) ''h1''] demoOp) =
     [Handed ''h1'' \<lparr>cl_id = ''c1'', cl_kind = KindLift, cl_args = ''{}''\<rparr>] \<and>
   distinct (handed (fst (opRun demoDeps [CClaim (demoCall minute) ''h1'', CClaim (demoCall minute) ''h1''] demoOp)))"
proof -
  have r: "opRun demoDeps [CClaim (demoCall minute) ''h1'', CClaim (demoCall minute) ''h1''] demoOp =
     ([Handed ''h1'' \<lparr>cl_id = ''c1'', cl_kind = KindLift, cl_args = ''{}''\<rparr>],
      demoOp\<lparr>commands := [demoRow\<lparr>oc_status := StatusRunning, oc_started := Some 60000\<rparr>]\<rparr>)"
    by (simp add: op_eval)
  show ?thesis using command_at_most_once [OF demoOp_inv r] r by simp
qed

text \<open>C21 (type). After any history that starts with empty tables every row is well typed: identifiers are
  unique, a command has a listed kind and one of the five statuses with exactly the columns of that
  status, incidents have a listed kind, and audit entries are numbered in order.\<close>

theorem console_tables_well_typed: "op_inv (snd (opRun d cs emptyOp))"
  using opRun_keeps [of emptyOp d cs] by (simp add: op_inv_def emptyOp_def)

text \<open>What a poll does when no statement fails: commands that waited for more than ten
  minutes expire, those that ran for more than five minutes fail, and the host gets the five oldest
  of its remaining queued commands, which are running from now on; no other row changes.\<close>

lemma Claim_effect:
  assumes "\<And>i. i < 3 \<Longrightarrow> k_fault k i = None"
  shows "\<exists>db'. let chosen = take 5 (sort_key (\<lambda>r. (oc_created r, oc_id r)) (filter (fresh host (k_now k)) (commands db)))
     in Claim k host db = (Inr (map toClaimed chosen), db') \<and>
        commands db' = map (claimRow (k_now k) (oc_id ` set chosen)) (commands db)"
  using Claim_exact [OF assms, of host db] unfolding Let_def ClaimBatch_def by simp

lemma Claim_effect_witness:
  "\<exists>db'. Claim (demoCall minute) ''h1'' demoOp = (Inr [\<lparr>cl_id = ''c1'', cl_kind = KindLift, cl_args = ''{}''\<rparr>], db')"
proof -
  have ch: "take 5 (sort_key (\<lambda>r. (oc_created r, oc_id r)) (filter (fresh ''h1'' (k_now (demoCall minute))) (commands demoOp))) = [demoRow]"
    by (simp add: fresh_def demoOp_def demoRow_def demoCall_def QueuedExpiry_def unixMilli_def)
  obtain db' where "Claim (demoCall minute) ''h1'' demoOp = (Inr (map toClaimed [demoRow]), db')"
    using Claim_effect [of "demoCall minute" "''h1''" demoOp] unfolding ch Let_def by (auto simp: demoCall_def)
  then show ?thesis by (simp add: toClaimed_def demoRow_def)
qed

text \<open>The audit log is append-only: as long as the database's clock stays at or before \<open>T\<close>, no
  history removes or changes an entry that is less than three years old at \<open>T\<close>, whatever cutoff the
  retention job uses, and new entries follow the old ones with higher numbers.\<close>

lemma audit_append_only:
  assumes "\<forall>c\<in>set cs. k_dbNow (callOf c) \<le> T"
  shows "\<exists>P new. audits (snd (opRun d cs db)) = filter P (audits db) @ new \<and>
           (\<forall>e. (T div second - 3 * 365 * 86400) * 1000 < ad_at e \<longrightarrow> P e) \<and> (\<forall>e\<in>set new. auditSeq db < ad_id e)"
  using opPrims_audit [OF opRun_prims [OF assms, of d db]] by (auto simp: auditKept_def keptByTrigger_def)

lemma audit_append_only_witness:
  "\<exists>P new. audits (snd (opRun demoDeps [CMaintain (demoCall day)] demoOp)) = filter P (audits demoOp) @ new"
  using audit_append_only [of "[CMaintain (demoCall day)]" day demoDeps demoOp] by (auto simp: demoCall_def)


lemma find_distinct: "distinct (map oc_id cs) \<Longrightarrow> r \<in> set cs \<Longrightarrow> find (\<lambda>x. oc_id x = oc_id r) cs = Some r"
  by (induction cs) auto

lemma CompleteRepo_answer:
  assumes inv: "op_inv db" and rp: "rp_status rp \<in> {StatusDone, StatusFailed}"
    and c: "CompleteRepo f g host cid rp now db = (Inr cm, db')"
  shows "cm_error cm = rp_error rp \<and> cm_status cm = rp_status rp \<and> cm_id cm = cid \<and> cm_host cm = host"
proof -
  obtain r where r: "r \<in> set (commands db)" "completable host cid r"
    using c by (auto simp: CompleteRepo_def list_ex_iff Let_def split: option.splits if_splits)
  define r' where "r' = r\<lparr>oc_status := rp_status rp, oc_finished := Some (unixMilli now), oc_result := rp_result rp, oc_error := nullString (rp_error rp)\<rparr>"
  have r': "r' \<in> set (commands db')" using c r by (force simp: CompleteRepo_def r'_def Let_def split: option.splits if_splits)
  have inv': "op_inv db'" using keepsD [OF CompleteRepo_keeps [OF rp] inv, of f g host cid now] c by simp
  have "CommandRepo g cid db' = Inr cm" using c by (auto simp: CompleteRepo_def Let_def split: option.splits if_splits)
  moreover have "oc_id r' = cid" using r by (simp add: r'_def completable_def)
  ultimately have "cm = scanCommand r'"
    using find_distinct [OF _ r'] inv' by (simp add: CommandRepo_def op_inv_def split: option.splits)
  then show ?thesis using r by (simp add: scanCommand_def r'_def completable_def fromNull_def nullString_def)
qed

text \<open>The error text of an answer is copied into the audit log: it stays there for three years,
  whatever retention runs follow, although the answer itself is cleared after thirty days.\<close>

lemma error_text_stays_in_audit:
  assumes "op_inv db" and "Complete d k host cid rp db = (Inr c, db')" and "length (rp_error rp) \<le> 2048" and "k_fault k 2 = None"
    and "\<forall>c\<in>set cs. k_dbNow (callOf c) \<le> T" and "(T div second - 3 * 365 * 86400) * 1000 < unixMilli (k_auditNow k)"
  shows "\<exists>e\<in>set (audits (snd (opRun d cs db'))). map_of (ad_detail e) ''error'' = Some (rp_error rp)"
proof -
  obtain rp' db1 where v: "reportValidate (d_jsonValid d) rp = Inr rp'" and
    r: "CompleteRepo (k_fault k 0) (k_fault k 1) host cid rp' (k_now k) db = (Inr c, db1)" and
    db': "db' = audit k (k_fault k 2) ''command.result'' (Target (d_unmarshalArgs d) (cm_args c))
                  [(''id'', cid), (''kind'', kindString (cm_kind c)), (''error'', cm_error c)]
                  (''host:'' @ host) (statusString (cm_status c)) db1"
    using assms(2) by (auto simp: Complete_def split: sum.splits prod.splits)
  have "rp_error rp' = rp_error rp" using v assms(3) by (auto simp: reportValidate_def Let_def MaxErrorBytes_def split: if_splits)
  then have err: "cm_error c = rp_error rp" using CompleteRepo_answer [OF assms(1) reportValidate_status [OF v] r] by simp
  define e where "e = \<lparr>ad_id = auditSeq db1 + 1, ad_at = unixMilli (k_auditNow k), ad_action = ''command.result'',
    ad_target = Target (d_unmarshalArgs d) (cm_args c), ad_detail = [(''id'', cid), (''kind'', kindString (cm_kind c)), (''error'', cm_error c)],
    ad_client = ''host:'' @ host, ad_outcome = statusString (cm_status c)\<rparr>"
  have "e \<in> set (audits db')" unfolding db' assms(4) audit_def AppendAudit_def by (simp add: e_def)
  moreover have "map_of (ad_detail e) ''error'' = Some (rp_error rp)" "ad_at e = unixMilli (k_auditNow k)" by (simp_all add: e_def err)
  ultimately have e: "e \<in> set (audits db')" "map_of (ad_detail e) ''error'' = Some (rp_error rp)" "ad_at e = unixMilli (k_auditNow k)" by blast+
  obtain P new where "audits (snd (opRun d cs db')) = filter P (audits db') @ new" "\<forall>e. keptByTrigger T e \<longrightarrow> P e"
    using opPrims_audit [OF opRun_prims [OF assms(5), of d db']] by (auto simp: auditKept_def)
  then have "e \<in> set (audits (snd (opRun d cs db')))" using e(1,3) assms(6) by (simp add: keptByTrigger_def)
  then show ?thesis using e(2) by blast
qed

definition demoRunning :: opdb where
  "demoRunning = emptyOp\<lparr>commands := [demoRow\<lparr>oc_status := StatusRunning, oc_started := Some 0\<rparr>]\<rparr>"

definition demoReport :: report where
  "demoReport = \<lparr>rp_status = StatusFailed, rp_result = None, rp_error = ''no account of anna''\<rparr>"

lemma demoRunning_inv: "op_inv demoRunning"
  by (simp add: op_inv_def row_ok_def Valid_def Kinds_def demoRunning_def emptyOp_def demoRow_def)

lemma error_text_stays_in_audit_witness:
  "\<exists>e\<in>set (audits (snd (opRun demoDeps [CMaintain (demoCall (60 * day))] (snd (Complete demoDeps (demoCall minute) ''h1'' ''c1'' demoReport demoRunning))))).
     map_of (ad_detail e) ''error'' = Some ''no account of anna''"
proof -
  have v: "reportValidate (d_jsonValid demoDeps) demoReport = Inr demoReport"
    by (simp add: reportValidate_def demoReport_def MaxErrorBytes_def Let_def)
  have "list_ex (completable ''h1'' ''c1'') (commands demoRunning)"
    by (simp add: demoRunning_def demoRow_def completable_def)
  then obtain c db1 where "CompleteRepo None None ''h1'' ''c1'' demoReport minute demoRunning = (Inr c, db1)"
    by (simp add: CompleteRepo_def CommandRepo_def demoRunning_def demoRow_def completable_def Let_def)
  then obtain db' where c: "Complete demoDeps (demoCall minute) ''h1'' ''c1'' demoReport demoRunning = (Inr c, db')"
    using v by (simp add: Complete_def demoCall_def)
  have e: "rp_error demoReport = ''no account of anna''" "k_fault (demoCall minute) 2 = None" by (simp_all add: demoReport_def demoCall_def)
  have "\<exists>e\<in>set (audits (snd (opRun demoDeps [CMaintain (demoCall (60 * day))] db'))). map_of (ad_detail e) ''error'' = Some (rp_error demoReport)"
    by (rule error_text_stays_in_audit [OF demoRunning_inv c _ e(2), of _ "60 * day"]) (simp_all add: e demoCall_def unixMilli_def)
  then show ?thesis using c e by simp
qed


end
