(* ===== verification/Auth.thy ===== *)
theory Auth
  imports GoText Apierror
begin

section \<open>Admin password and sessions (internal/auth)\<close>

text \<open>
  \<open>auth\<close> joins the state of \<^verbatim>\<open>application.Service\<close> (the in-memory sessions) and of
  \<^verbatim>\<open>infrastructure.SettingsStore\<close> (the settings table of the database). What the code calls and
  does not own is an argument: \<open>gen\<close> is \<^verbatim>\<open>bcrypt.GenerateFromPassword\<close> (\<open>None\<close> when it returns an
  error), \<open>cmp hash pw\<close> that \<^verbatim>\<open>bcrypt.CompareHashAndPassword\<close> returns no error, \<open>rnd\<close> the random
  bytes in hexadecimal (\<open>None\<close> when reading them fails), \<open>rd\<close> and \<open>wr\<close> the error of a database read
  or write, if it fails.
\<close>

definition sessionTTL :: duration where "sessionTTL = 24 * hour"
definition minAdminPasswordLen :: nat where "minAdminPasswordLen = 24"
definition maxAdminPasswordLen :: nat where "maxAdminPasswordLen = 1024"
definition adminPasswordHashKey :: string where "adminPasswordHashKey = ''admin_password_hash''"

record session =
  Token :: string
  ExpiresAt :: time

definition Expired :: "time \<Rightarrow> session \<Rightarrow> bool" where
  "Expired now s \<longleftrightarrow> ExpiresAt s < now"

definition ErrInvalidCredentials :: error where
  "ErrInvalidCredentials = Unauthorized ''invalid password''"

definition ErrSessionInvalid :: error where
  "ErrSessionInvalid = Unauthorized ''session invalid or expired''"

definition ErrAdminPasswordNotInitialized :: error where
  "ErrAdminPasswordNotInitialized = OtherError ''auth: admin password is not initialized''"

record auth =
  settings :: "(string \<times> string) list"
  sessions :: "(string \<times> session) list"

text \<open>The settings table.\<close>

definition Hash :: "error option \<Rightarrow> auth \<Rightarrow> string option result" where
  "Hash rd s = (case rd of Some e \<Rightarrow> Inl e | None \<Rightarrow> Inr (map_of (settings s) adminPasswordHashKey))"

definition SetHash :: "error option \<Rightarrow> string \<Rightarrow> auth \<Rightarrow> unit result \<times> auth" where
  "SetHash wr hash s =
     (case wr of
        Some e \<Rightarrow> (Inl e, s)
      | None \<Rightarrow> (Inr (), s\<lparr>settings := AList.update adminPasswordHashKey hash (settings s)\<rparr>))"

subsection \<open>Bootstrap\<close>

definition EnsureAdminPassword ::
  "(string \<Rightarrow> string option) \<Rightarrow> error option \<Rightarrow> string option \<Rightarrow> error option \<Rightarrow> auth \<Rightarrow> string result \<times> auth" where
  "EnsureAdminPassword gen rd rnd wr s =
     (case Hash rd s of
        Inl e \<Rightarrow> (Inl (OtherError ''auth: read password hash''), s)
      | Inr (Some _) \<Rightarrow> (Inr '''', s)
      | Inr None \<Rightarrow>
          (case rnd of
             None \<Rightarrow> (Inl (OtherError ''auth: generate admin password''), s)
           | Some password \<Rightarrow>
               (case gen password of
                  None \<Rightarrow> (Inl (OtherError ''auth: hash admin password''), s)
                | Some hash \<Rightarrow>
                    (case SetHash wr hash s of
                       (Inl e, s') \<Rightarrow> (Inl (OtherError ''auth: store admin password hash''), s')
                     | (Inr _, s') \<Rightarrow> (Inr password, s')))))"

definition RequireAdminPassword :: "error option \<Rightarrow> auth \<Rightarrow> unit result" where
  "RequireAdminPassword rd s =
     (case Hash rd s of
        Inl e \<Rightarrow> Inl (OtherError ''auth: read password hash'')
      | Inr None \<Rightarrow> Inl ErrAdminPasswordNotInitialized
      | Inr (Some _) \<Rightarrow> Inr ())"

definition SetAdminPassword ::
  "(string \<Rightarrow> string option) \<Rightarrow> error option \<Rightarrow> string \<Rightarrow> auth \<Rightarrow> unit result \<times> auth" where
  "SetAdminPassword gen wr password s =
     (if length password < minAdminPasswordLen \<or> maxAdminPasswordLen < length password then
        (Inl (OtherError ''auth: admin password must contain 24..1024 bytes''), s)
      else if containsAny password [char_of (13::nat), char_of (10::nat), char_of (0::nat)] then
        (Inl (OtherError ''auth: admin password must be one line without NUL bytes''), s)
      else case gen password of
             None \<Rightarrow> (Inl (OtherError ''auth: hash password''), s)
           | Some hash \<Rightarrow>
               (case SetHash wr hash s of
                  (Inl e, s') \<Rightarrow> (Inl (OtherError ''auth: store password hash''), s')
                | (Inr _, s') \<Rightarrow> (Inr (), s'\<lparr>sessions := []\<rparr>)))"

subsection \<open>Sessions\<close>

definition VerifyPassword :: "(string \<Rightarrow> string \<Rightarrow> bool) \<Rightarrow> error option \<Rightarrow> string \<Rightarrow> auth \<Rightarrow> unit result" where
  "VerifyPassword cmp rd password s =
     (case Hash rd s of
        Inl e \<Rightarrow> Inl (OtherError ''auth: read password hash'')
      | Inr None \<Rightarrow> Inl ErrInvalidCredentials
      | Inr (Some hash) \<Rightarrow> if cmp hash password then Inr () else Inl ErrInvalidCredentials)"

definition pruneExpired :: "time \<Rightarrow> (string \<times> session) list \<Rightarrow> (string \<times> session) list" where
  "pruneExpired now = filter (\<lambda>ts. \<not> Expired now (snd ts))"

definition Login ::
  "(string \<Rightarrow> string \<Rightarrow> bool) \<Rightarrow> error option \<Rightarrow> string option \<Rightarrow> time \<Rightarrow> string \<Rightarrow> auth \<Rightarrow> session result \<times> auth" where
  "Login cmp rd rnd now password s =
     (case Hash rd s of
        Inl e \<Rightarrow> (Inl (OtherError ''auth: read password hash''), s)
      | Inr None \<Rightarrow> (Inl ErrInvalidCredentials, s)
      | Inr (Some hash) \<Rightarrow>
          if \<not> cmp hash password then (Inl ErrInvalidCredentials, s)
          else case rnd of
                 None \<Rightarrow> (Inl (OtherError ''auth: generate session token''), s)
               | Some token \<Rightarrow>
                   let session = \<lparr>Token = token, ExpiresAt = now + sessionTTL\<rparr>
                   in (Inr session, s\<lparr>sessions := AList.update token session (pruneExpired now (sessions s))\<rparr>))"

definition Logout :: "string \<Rightarrow> auth \<Rightarrow> auth" where
  "Logout token s = s\<lparr>sessions := AList.delete token (sessions s)\<rparr>"

definition ValidateSession :: "time \<Rightarrow> string \<Rightarrow> auth \<Rightarrow> unit result" where
  "ValidateSession now token s =
     (case map_of (sessions s) token of
        None \<Rightarrow> Inl ErrSessionInvalid
      | Some session \<Rightarrow> if Expired now session then Inl ErrSessionInvalid else Inr ())"

subsection \<open>What the sessions promise\<close>

text \<open>A history of calls, newest first, each with the outcome of what it called; the state after it;
  and, read off the history alone, until when a token is good: the newest login that issued it
  decides, unless it was logged out or the password was changed since.\<close>

datatype authCall =
    CLogin time string "error option" "string option"
  | CLogout string
  | CSetPassword string "error option"

fun authRun :: "(string \<Rightarrow> string option) \<Rightarrow> (string \<Rightarrow> string \<Rightarrow> bool) \<Rightarrow> auth \<Rightarrow> authCall list \<Rightarrow> auth" where
  "authRun gen cmp s0 [] = s0"
| "authRun gen cmp s0 (CLogin now pw rd rnd # h) = snd (Login cmp rd rnd now pw (authRun gen cmp s0 h))"
| "authRun gen cmp s0 (CLogout tok # h) = Logout tok (authRun gen cmp s0 h)"
| "authRun gen cmp s0 (CSetPassword pw wr # h) = snd (SetAdminPassword gen wr pw (authRun gen cmp s0 h))"

fun goodUntil ::
  "(string \<Rightarrow> string option) \<Rightarrow> (string \<Rightarrow> string \<Rightarrow> bool) \<Rightarrow> auth \<Rightarrow> authCall list \<Rightarrow> string \<Rightarrow> time option" where
  "goodUntil gen cmp s0 [] tok = None"
| "goodUntil gen cmp s0 (CLogin now pw rd rnd # h) tok =
     (if rnd = Some tok \<and> VerifyPassword cmp rd pw (authRun gen cmp s0 h) = Inr () then Some (now + 24 * hour)
      else goodUntil gen cmp s0 h tok)"
| "goodUntil gen cmp s0 (CLogout t # h) tok = (if t = tok then None else goodUntil gen cmp s0 h tok)"
| "goodUntil gen cmp s0 (CSetPassword pw wr # h) tok =
     (if fst (SetAdminPassword gen wr pw (authRun gen cmp s0 h)) = Inr () then None
      else goodUntil gen cmp s0 h tok)"

fun loginsBefore :: "time \<Rightarrow> authCall list \<Rightarrow> bool" where
  "loginsBefore now [] = True"
| "loginsBefore now (CLogin t pw rd rnd # h) = (t \<le> now \<and> loginsBefore now h)"
| "loginsBefore now (c # h) = loginsBefore now h"

lemma Hash_Inr: "Hash rd s = Inr x \<longleftrightarrow> rd = None \<and> x = map_of (settings s) adminPasswordHashKey"
  by (auto simp: Hash_def split: option.splits)

lemma VerifyPassword_ok:
  "VerifyPassword cmp rd pw s = Inr () \<longleftrightarrow>
     rd = None \<and> (\<exists>h. map_of (settings s) adminPasswordHashKey = Some h \<and> cmp h pw)"
  by (auto simp: VerifyPassword_def Hash_def split: option.splits sum.splits)

text \<open>A login changes the sessions exactly when the password is right and a token could be made.\<close>

lemma Login_sessions:
  "sessions (snd (Login cmp rd rnd now pw s)) =
     (case rnd of
        Some tok \<Rightarrow>
          if VerifyPassword cmp rd pw s = Inr ()
          then AList.update tok \<lparr>Token = tok, ExpiresAt = now + sessionTTL\<rparr> (pruneExpired now (sessions s))
          else sessions s
      | None \<Rightarrow> sessions s)"
  by (auto simp: Login_def VerifyPassword_def Hash_def Let_def split: option.splits sum.splits)

lemma Login_settings [simp]: "settings (snd (Login cmp rd rnd now pw s)) = settings s"
  by (auto simp: Login_def Let_def split: option.splits sum.splits)

lemma SetAdminPassword_sessions:
  "sessions (snd (SetAdminPassword gen wr pw s)) =
     (if fst (SetAdminPassword gen wr pw s) = Inr () then [] else sessions s)"
  by (auto simp: SetAdminPassword_def SetHash_def split: option.splits)

lemma wf_sessions: "wf_table (sessions s0) \<Longrightarrow> wf_table (sessions (authRun gen cmp s0 h))"
proof (induction h)
  case (Cons c h)
  then show ?case
    by (cases c) (auto simp: Login_sessions pruneExpired_def distinct_update distinct_map_filter
        Logout_def distinct_delete SetAdminPassword_sessions split: option.splits)
qed simp

lemma ValidateSession_ok:
  "ValidateSession now tok s = Inr () \<longleftrightarrow> (\<exists>x. map_of (sessions s) tok = Some x \<and> now \<le> ExpiresAt x)"
  by (auto simp: ValidateSession_def Expired_def split: option.splits)

lemma prune_lookup:
  "wf_table m \<Longrightarrow> t \<le> now \<Longrightarrow>
   (\<exists>x. map_of (pruneExpired t m) tok = Some x \<and> now \<le> ExpiresAt x) \<longleftrightarrow>
   (\<exists>x. map_of m tok = Some x \<and> now \<le> ExpiresAt x)"
  by (cases "map_of m tok") (auto simp: pruneExpired_def map_of_filter_Some Expired_def)

lemma session_refines:
  assumes "sessions s0 = []" and "loginsBefore now h"
  shows "ValidateSession now tok (authRun gen cmp s0 h) = Inr () \<longleftrightarrow>
     (\<exists>u. goodUntil gen cmp s0 h tok = Some u \<and> now \<le> u)"
  using assms
proof (induction h)
  case (Cons c h)
  have wf: "wf_table (sessions (authRun gen cmp s0 h))" using Cons.prems(1) by (intro wf_sessions) simp
  show ?case
  proof (cases c)
    case (CLogin t pw rd rnd)
    then have "t \<le> now" "loginsBefore now h" using Cons.prems by simp_all
    then show ?thesis
      using Cons.IH [OF Cons.prems(1)] CLogin prune_lookup [OF wf]
      by (auto simp: ValidateSession_ok Login_sessions table_simps sessionTTL_def split: option.splits)
  next
    case (CLogout t)
    then show ?thesis using Cons by (auto simp: ValidateSession_ok Logout_def table_simps)
  next
    case (CSetPassword pw wr)
    then show ?thesis using Cons by (simp add: ValidateSession_ok SetAdminPassword_sessions)
  qed
qed (simp add: ValidateSession_ok)

subsection \<open>Properties\<close>

text \<open>C15 (refinement). A session token is accepted exactly when the newest login that issued it
  presented the right password, at most 24 hours have passed since, it was not logged out and the
  password was not changed in between: pruning expired sessions at a login never ends a live one,
  and nothing else makes a token valid.\<close>

theorem session_valid_iff:
  assumes "sessions s0 = []" and "loginsBefore now h"
  shows "ValidateSession now tok (authRun gen cmp s0 h) =
     (case goodUntil gen cmp s0 h tok of
        Some u \<Rightarrow> if now \<le> u then Inr () else Inl ErrSessionInvalid
      | None \<Rightarrow> Inl ErrSessionInvalid)"
  using session_refines [OF assms, of tok gen cmp]
  by (auto simp: ValidateSession_def split: option.splits if_splits)

definition demoPassword :: string where "demoPassword = ''correct horse battery staple''"
definition demoAuth :: auth where
  "demoAuth = \<lparr>settings = [(adminPasswordHashKey, ''h:'' @ demoPassword)], sessions = []\<rparr>"
definition demoGen :: "string \<Rightarrow> string option" where
  "demoGen pw = (if length pw \<le> 72 then Some (''h:'' @ pw) else None)"
definition demoCmp :: "string \<Rightarrow> string \<Rightarrow> bool" where
  "demoCmp h pw \<longleftrightarrow> length pw \<le> 72 \<and> h = ''h:'' @ pw"

lemmas auth_eval = demoAuth_def demoPassword_def demoCmp_def demoGen_def VerifyPassword_def Hash_def
  adminPasswordHashKey_def

theorem session_valid_iff_witness:
  "ValidateSession day ''t'' (authRun demoGen demoCmp demoAuth
      [CLogin hour ''guess'' None (Some ''u''), CLogin 0 demoPassword None (Some ''t'')]) = Inr () \<and>
   ValidateSession (day + 1) ''t'' (authRun demoGen demoCmp demoAuth
      [CLogin hour ''guess'' None (Some ''u''), CLogin 0 demoPassword None (Some ''t'')]) = Inl ErrSessionInvalid \<and>
   ValidateSession hour ''u'' (authRun demoGen demoCmp demoAuth
      [CLogin hour ''guess'' None (Some ''u''), CLogin 0 demoPassword None (Some ''t'')]) = Inl ErrSessionInvalid"
proof -
  have s: "sessions demoAuth = []" by (simp add: demoAuth_def)
  have b: "loginsBefore now [CLogin hour ''guess'' None (Some ''u''), CLogin 0 demoPassword None (Some ''t'')]"
    if "hour \<le> now" for now :: time using that by simp
  let ?h = "[CLogin hour ''guess'' None (Some ''u''), CLogin 0 demoPassword None (Some ''t'')]"
  have "goodUntil demoGen demoCmp demoAuth ?h ''t'' = Some day" "goodUntil demoGen demoCmp demoAuth ?h ''u'' = None"
    by (simp_all add: auth_eval)
  then show ?thesis by (simp only: session_valid_iff [OF s b]) simp
qed

text \<open>Setting a password: a refused one changes nothing; an accepted one has 24 to
  1024 bytes in one line, ends every session, and from then on a password logs in exactly when
  it compares equal to the new hash.\<close>

lemma SetAdminPassword_effect:
  "case SetAdminPassword gen wr pw s of
     (Inl e, s') \<Rightarrow> s' = s
   | (Inr _, s') \<Rightarrow>
       24 \<le> length pw \<and> length pw \<le> 1024 \<and> \<not> containsAny pw [char_of (13::nat), char_of (10::nat), char_of (0::nat)] \<and>
       wr = None \<and> sessions s' = [] \<and>
       (\<forall>tok now. ValidateSession now tok s' = Inl ErrSessionInvalid) \<and>
       (\<exists>h. gen pw = Some h \<and> (\<forall>p. VerifyPassword cmp None p s' = (if cmp h p then Inr () else Inl ErrInvalidCredentials)))"
  by (auto simp: SetAdminPassword_def SetHash_def minAdminPasswordLen_def maxAdminPasswordLen_def
      ValidateSession_def VerifyPassword_def Hash_def table_simps split: option.splits sum.splits)

text \<open>bcrypt refuses passwords above 72 bytes, so the documented range of 24 to 1024
  bytes does not work: every password of 73 to 1024 bytes is refused with a hashing error.\<close>

lemma long_password_refused:
  assumes bcrypt_limit: "\<And>p. 72 < length p \<Longrightarrow> gen p = None" and "72 < length pw"
  shows "\<exists>m. SetAdminPassword gen wr pw s = (Inl (OtherError m), s)"
  using assms by (simp add: SetAdminPassword_def)

lemma long_password_refused_witness:
  "\<exists>m. SetAdminPassword demoGen None (replicate 100 CHR ''a'') demoAuth = (Inl (OtherError m), demoAuth)"
  by (rule long_password_refused) (simp_all add: demoGen_def)

end
