(* ===== verification/Evict.thy ===== *)
theory Evict
  imports Prelude
begin

section \<open>Bounded tables with eviction\<close>

text \<open>
  \<^verbatim>\<open>ratelimit.Limiter\<close> and the login limiter keep a map per client and, at capacity, drop
  stale entries first and then, when every entry is live, the least recently seen fraction.
  \<open>evictTable\<close> is that sweep; both \<^verbatim>\<open>makeRoom\<close> methods are instances of it. The list order stands
  for Go's arbitrary iteration order, so ties may be evicted in any order. The contract a table
  of this kind offers its users is the locale \<open>bounded_table\<close>, interpreted by both limiters.
\<close>

definition evictTable :: "nat \<Rightarrow> nat \<Rightarrow> ('e \<Rightarrow> bool) \<Rightarrow> ('e \<Rightarrow> time) \<Rightarrow> ('k \<times> 'e) list \<Rightarrow> ('k \<times> 'e) list" where
  "evictTable cap fraction stale age m =
     (let live = filter (\<lambda>kv. \<not> stale (snd kv)) m
      in if length live < cap then live
         else let victims = take (length live div fraction) (sort_key (\<lambda>kv. age (snd kv)) live)
              in filter (\<lambda>kv. fst kv \<notin> set (map fst victims)) live)"

locale bounded_table =
  fixes cap :: nat
    and room :: "time \<Rightarrow> ('k \<times> 'e) list \<Rightarrow> ('k \<times> 'e) list"
    and stale :: "time \<Rightarrow> 'e \<Rightarrow> bool"
    and age :: "'e \<Rightarrow> time"
  assumes room_subset: "set (room now m) \<subseteq> set m"
    and room_wf: "wf_table m \<Longrightarrow> wf_table (room now m)"
    and room_smaller: "wf_table m \<Longrightarrow> length m \<le> cap \<Longrightarrow> length (room now m) < cap"
    and room_order: "wf_table m \<Longrightarrow> kv \<in> set m \<Longrightarrow> kv \<notin> set (room now m) \<Longrightarrow> kv' \<in> set (room now m) \<Longrightarrow>
          stale now (snd kv) \<or> age (snd kv) \<le> age (snd kv')"
begin

text \<open>Storing an entry after the sweep never exceeds the capacity.\<close>

lemma put_bounded:
  assumes "wf_table m" and "length m \<le> cap"
  shows "length (AList.update k v (if map_of m k = None \<and> cap \<le> length m then room now m else m)) \<le> cap"
    and "wf_table (AList.update k v (if map_of m k = None \<and> cap \<le> length m then room now m else m))"
proof -
  show "length (AList.update k v (if map_of m k = None \<and> cap \<le> length m then room now m else m)) \<le> cap"
  proof (cases "map_of m k = None")
    case True
    have "length (room now m) < cap" using assms by (rule room_smaller)
    with True show ?thesis
      using length_update_le [of k v m] length_update_le [of k v "room now m"] by auto
  next
    case False
    then have "length (AList.update k v m) = length m"
      by (intro length_update_in) (simp add: map_of_eq_None_iff)
    moreover have "(if map_of m k = None \<and> cap \<le> length m then room now m else m) = m" using False by (simp only: if_False simp_thms)
    ultimately show ?thesis using assms(2) by (simp only:)
  qed
  show "wf_table (AList.update k v (if map_of m k = None \<and> cap \<le> length m then room now m else m))"
    using assms(1) room_wf [OF assms(1), of now] by (simp add: distinct_update)
qed

end

subsection \<open>The sweep meets the contract\<close>

lemma set_evictTable: "set (evictTable cap fraction stale age m) \<subseteq> set m"
  by (auto simp: evictTable_def Let_def)

lemma wf_evictTable: "wf_table m \<Longrightarrow> wf_table (evictTable cap fraction stale age m)"
  by (auto simp: evictTable_def Let_def intro!: distinct_map_filter)

lemma length_filter_notin_keys:
  assumes "wf_table m" and "set vs \<subseteq> set m" and "distinct vs"
  shows "length (filter (\<lambda>kv. fst kv \<notin> set (map fst vs)) m) + length vs = length m"
proof -
  have inj: "inj_on fst (set m)" and dm: "distinct m"
    using assms(1) by (simp_all add: distinct_map)
  have "fst kv \<in> fst ` set vs \<longleftrightarrow> kv \<in> set vs" if "kv \<in> set m" for kv
    using inj_on_image_mem_iff [OF inj that assms(2)] .
  then have "set (filter (\<lambda>kv. fst kv \<notin> set (map fst vs)) m) = set m - set vs" by auto
  moreover have "card (set m - set vs) + card (set vs) = card (set m)"
    using assms(2) by (simp add: card_Diff_subset card_mono)
  ultimately show ?thesis
    using dm assms(3) by (metis distinct_card distinct_filter)
qed

lemma length_evictTable:
  assumes "wf_table m" and "length m \<le> cap" and "0 < fraction" and "fraction \<le> cap"
  shows "length (evictTable cap fraction stale age m) < cap"
proof -
  define live where "live = filter (\<lambda>kv. \<not> stale (snd kv)) m"
  define vs where "vs = take (length live div fraction) (sort_key (\<lambda>kv. age (snd kv)) live)"
  have ev: "evictTable cap fraction stale age m =
      (if length live < cap then live else filter (\<lambda>kv. fst kv \<notin> set (map fst vs)) live)"
    by (simp add: evictTable_def Let_def live_def vs_def)
  have wf: "wf_table live" unfolding live_def using assms(1) by (rule distinct_map_filter)
  have "set vs \<subseteq> set (sort_key (\<lambda>kv. age (snd kv)) live)" unfolding vs_def by (rule set_take_subset)
  then have sub: "set vs \<subseteq> set live" by (simp only: set_sort)
  have "distinct live" using wf by (simp add: distinct_map)
  then have dist: "distinct vs" unfolding vs_def by (intro distinct_take) simp
  note split = length_filter_notin_keys [OF wf sub dist]
  have le: "length live \<le> cap"
    using assms(2) length_filter_le [of "\<lambda>kv. \<not> stale (snd kv)" m] unfolding live_def by linarith
  show ?thesis
  proof (cases "length live < cap")
    case False
    with le have len: "length live = cap" by simp
    have "cap div fraction \<le> cap" by simp
    then have "length vs = cap div fraction" unfolding vs_def length_take length_sort len by (rule min_absorb2)
    moreover have "0 < cap div fraction" using assms(3,4) by (simp add: div_greater_zero_iff)
    ultimately show ?thesis using split len unfolding ev if_not_P [OF False] by linarith
  qed (simp add: ev)
qed

lemma sorted_take_drop_le:
  "sorted (map f xs) \<Longrightarrow> x \<in> set (take n xs) \<Longrightarrow> y \<in> set (drop n xs) \<Longrightarrow> f x \<le> f y"
  using sorted_append [of "map f (take n xs)" "map f (drop n xs)"]
  by (simp flip: map_append)

text \<open>No survivor was seen longer ago than a live victim.\<close>

lemma evictTable_order:
  assumes wf: "wf_table m" and kv: "kv \<in> set m" "kv \<notin> set (evictTable cap fraction stale age m)"
    and kv': "kv' \<in> set (evictTable cap fraction stale age m)"
  shows "stale (snd kv) \<or> age (snd kv) \<le> age (snd kv')"
proof (cases "stale (snd kv)")
  case False
  define live where "live = filter (\<lambda>kv. \<not> stale (snd kv)) m"
  define xs where "xs = sort_key (\<lambda>kv. age (snd kv)) live"
  define n where "n = length live div fraction"
  have ev: "evictTable cap fraction stale age m =
      (if length live < cap then live else filter (\<lambda>kv. fst kv \<notin> set (map fst (take n xs))) live)"
    by (simp add: evictTable_def Let_def live_def xs_def n_def)
  have kvl: "kv \<in> set live" using kv(1) False by (simp add: live_def)
  have big: "\<not> length live < cap" using kv(2) kvl ev by auto
  have inj: "inj_on fst (set live)"
    using wf by (simp add: live_def distinct_map inj_on_def)
  have keep: "kv' \<in> set live" "fst kv' \<notin> fst ` set (take n xs)" using kv' ev big by simp_all
  have "fst kv \<in> fst ` set (take n xs)" using kv(2) kvl ev big by simp
  then obtain v where v: "v \<in> set (take n xs)" "fst v = fst kv" by fastforce
  have "v \<in> set live" using v(1) set_take_subset [of n xs] by (auto simp: xs_def)
  then have "v = kv" using inj v(2) kvl by (simp add: inj_on_def)
  moreover have "kv' \<in> set (drop n xs)"
  proof -
    have "kv' \<in> set (take n xs @ drop n xs)" using keep(1) by (simp only: append_take_drop_id) (simp add: xs_def)
    moreover have "kv' \<notin> set (take n xs)" using keep(2) by blast
    ultimately show ?thesis by (simp only: set_append Un_iff) simp
  qed
  moreover have "sorted (map (\<lambda>kv. age (snd kv)) xs)" unfolding xs_def by (rule sorted_sort_key)
  ultimately show ?thesis using sorted_take_drop_le [where f = "\<lambda>kv. age (snd kv)"] v(1) by blast
qed simp

end
