(* ===== verification/Ratelimit.thy ===== *)
theory Ratelimit
  imports Evict Netip
begin

section \<open>The keyed rate limiter (internal/platform/ratelimit)\<close>

text \<open>
  \<open>limiter\<close> is \<^verbatim>\<open>ratelimit.Limiter\<close>: one token bucket per key, in a table bounded by
  \<open>maxKeys\<close>. The bucket itself is \<^verbatim>\<open>golang.org/x/time/rate\<close>, which is not part of the
  repository: \<open>newLim every burst\<close> stands for \<^verbatim>\<open>rate.NewLimiter(rate.Every(every), burst)\<close> and
  \<open>allowN lim now\<close> for \<^verbatim>\<open>lim.AllowN(now, 1)\<close>, returning the decision and the bucket after it.
  \<open>ClientKey\<close> and \<open>ClientIP\<close> derive the key from a request.
\<close>

definition maxKeys :: nat where "maxKeys = 10000"
definition idleAfter :: duration where "idleAfter = 10 * minute"
definition evictFraction :: nat where "evictFraction = 10"

record 'l rl_entry =
  bucket :: 'l
  rl_seen :: time

record 'l limiter =
  every :: duration
  burst :: int
  entries :: "(string \<times> 'l rl_entry) list"

definition New :: "duration \<Rightarrow> int \<Rightarrow> 'l limiter" where
  "New ev b = \<lparr>every = ev, burst = b, entries = []\<rparr>"

definition makeRoom :: "time \<Rightarrow> (string \<times> 'l rl_entry) list \<Rightarrow> (string \<times> 'l rl_entry) list" where
  "makeRoom now = evictTable maxKeys evictFraction (\<lambda>e. idleAfter < now - rl_seen e) rl_seen"

definition Allow ::
  "(duration \<Rightarrow> int \<Rightarrow> 'l) \<Rightarrow> ('l \<Rightarrow> time \<Rightarrow> bool \<times> 'l) \<Rightarrow> time \<Rightarrow> string \<Rightarrow> 'l limiter \<Rightarrow> bool \<times> 'l limiter" where
  "Allow newLim allowN now key l =
     (let found = map_of (entries l) key;
          m = (if found = None \<and> maxKeys \<le> length (entries l) then makeRoom now (entries l) else entries l);
          b = (case found of Some e \<Rightarrow> bucket e | None \<Rightarrow> newLim (every l) (burst l));
          (ok, b') = allowN b now
      in (ok, l\<lparr>entries := AList.update key \<lparr>bucket = b', rl_seen = now\<rparr> m\<rparr>))"

subsection \<open>Keys\<close>

definition ClientKey :: "string \<Rightarrow> string" where
  "ClientKey addr =
     (case ParseAddr addr of
        None \<Rightarrow> addr
      | Some a \<Rightarrow>
          (case Unmap a of
             V4 v \<Rightarrow> addrString (V4 v)
           | V6 gs z \<Rightarrow> prefixString (prefixOf 64 (V6 gs z))))"

text \<open>\<^verbatim>\<open>net.SplitHostPort\<close>, as far as it is used: the host part of an address with exactly one
  port, brackets removed, or no result.\<close>

definition splitHostPort :: "string \<Rightarrow> string option" where
  "splitHostPort hp =
     (let i = length hp - 1 - length (takeWhile (\<lambda>c. c \<noteq> CHR '':'') (rev hp));
          e = length (takeWhile (\<lambda>c. c \<noteq> CHR '']'') hp)
      in if CHR '':'' \<notin> set hp then None
         else if hd hp = CHR ''['' then
           (if e + 1 \<noteq> i \<or> CHR ''['' \<in> set (drop 1 hp) \<or> CHR '']'' \<in> set (drop (e + 1) hp) then None
            else Some (take (e - 1) (drop 1 hp)))
         else if CHR '':'' \<in> set (take i hp) \<or> containsAny hp ''[]'' then None
         else Some (take i hp))"

definition ClientIP :: "string \<Rightarrow> string \<Rightarrow> prefix list \<Rightarrow> string" where
  "ClientIP remoteAddr forwardedFor trusted =
     (let host = (case splitHostPort remoteAddr of Some h \<Rightarrow> h | None \<Rightarrow> remoteAddr)
      in case ParseAddr host of
           None \<Rightarrow> host
         | Some peer \<Rightarrow>
             if \<not> list_ex (\<lambda>p. Contains p peer) trusted then host
             else case ParseAddr (trimSpace (hd (splitOn CHR '','' forwardedFor))) of
                    Some a \<Rightarrow> addrString a
                  | None \<Rightarrow> host)"

subsection \<open>The table is bounded\<close>

interpretation rl: bounded_table maxKeys "makeRoom :: time \<Rightarrow> (string \<times> 'l rl_entry) list \<Rightarrow> _"
  "\<lambda>now e. idleAfter < now - rl_seen e" rl_seen
proof
  fix now :: time and m :: "(string \<times> 'l rl_entry) list" and kv kv'
  show "set (makeRoom now m) \<subseteq> set m" unfolding makeRoom_def by (rule set_evictTable)
  show "wf_table m \<Longrightarrow> wf_table (makeRoom now m)" unfolding makeRoom_def by (rule wf_evictTable)
  show "wf_table m \<Longrightarrow> length m \<le> maxKeys \<Longrightarrow> length (makeRoom now m) < maxKeys"
    unfolding makeRoom_def by (rule length_evictTable) (simp_all add: maxKeys_def evictFraction_def)
  show "wf_table m \<Longrightarrow> kv \<in> set m \<Longrightarrow> kv \<notin> set (makeRoom now m) \<Longrightarrow> kv' \<in> set (makeRoom now m) \<Longrightarrow>
      idleAfter < now - rl_seen (snd kv) \<or> rl_seen (snd kv) \<le> rl_seen (snd kv')"
    unfolding makeRoom_def by (rule evictTable_order)
qed

definition rl_inv :: "'l limiter \<Rightarrow> bool" where
  "rl_inv l \<longleftrightarrow> wf_table (entries l) \<and> length (entries l) \<le> maxKeys"

lemma New_inv [simp]: "rl_inv (New ev b)"
  by (simp add: rl_inv_def New_def)

definition bucketOf :: "(duration \<Rightarrow> int \<Rightarrow> 'l) \<Rightarrow> 'l limiter \<Rightarrow> string \<Rightarrow> 'l" where
  "bucketOf newLim l key =
     (case map_of (entries l) key of Some e \<Rightarrow> bucket e | None \<Rightarrow> newLim (every l) (burst l))"

lemma Allow_entries:
  "entries (snd (Allow newLim allowN now key l)) =
     AList.update key \<lparr>bucket = snd (allowN (bucketOf newLim l key) now), rl_seen = now\<rparr>
       (if map_of (entries l) key = None \<and> maxKeys \<le> length (entries l)
        then makeRoom now (entries l) else entries l)"
  by (simp add: Allow_def bucketOf_def Let_def split_def)

lemma Allow_inv: "rl_inv l \<Longrightarrow> rl_inv (snd (Allow newLim allowN now key l))"
  unfolding rl_inv_def Allow_entries by (intro conjI rl.put_bounded) blast+

text \<open>A run of requests, each with its arrival time and key, and its decisions.\<close>

fun allowRun ::
  "(duration \<Rightarrow> int \<Rightarrow> 'l) \<Rightarrow> ('l \<Rightarrow> time \<Rightarrow> bool \<times> 'l) \<Rightarrow> (time \<times> string) list \<Rightarrow> 'l limiter \<Rightarrow>
   (string \<times> bool) list \<times> 'l limiter" where
  "allowRun newLim allowN [] l = ([], l)"
| "allowRun newLim allowN ((now, key) # rs) l =
     (let (ok, l') = Allow newLim allowN now key l;
          (ds, l'') = allowRun newLim allowN rs l'
      in ((key, ok) # ds, l''))"

text \<open>The specification: one bucket, fed by the requests of one key only.\<close>

fun bucketRun :: "('l \<Rightarrow> time \<Rightarrow> bool \<times> 'l) \<Rightarrow> time list \<Rightarrow> 'l \<Rightarrow> bool list" where
  "bucketRun allowN [] b = []"
| "bucketRun allowN (now # ts) b = (let (ok, b') = allowN b now in ok # bucketRun allowN ts b')"

lemma allowRun_inv: "rl_inv l \<Longrightarrow> rl_inv (snd (allowRun newLim allowN rs l))"
proof (induction rs arbitrary: l)
  case (Cons r rs)
  then show ?case
    using Cons.IH [OF Allow_inv [OF Cons.prems, of newLim allowN "fst r" "snd r"]]
    by (cases r) (auto simp: split_def Let_def)
qed simp

lemma Allow_decision: "fst (Allow newLim allowN now key l) = fst (allowN (bucketOf newLim l key) now)"
  by (simp add: Allow_def bucketOf_def Let_def split_def)

lemma Allow_config [simp]:
  "every (snd (Allow newLim allowN now key l)) = every l"
  "burst (snd (Allow newLim allowN now key l)) = burst l"
  by (simp_all add: Allow_def Let_def split_def)

lemma Allow_entries_room:
  assumes "map_of (entries l) key = None \<longrightarrow> length (entries l) < maxKeys"
  shows "entries (snd (Allow newLim allowN now key l)) =
     AList.update key \<lparr>bucket = snd (allowN (bucketOf newLim l key) now), rl_seen = now\<rparr> (entries l)"
proof -
  have "(if map_of (entries l) key = None \<and> maxKeys \<le> length (entries l)
      then makeRoom now (entries l) else entries l) = entries l"
    using assms by (metis leD)
  then show ?thesis unfolding Allow_entries by (simp only:)
qed

lemma Allow_buckets:
  assumes "map_of (entries l) key = None \<longrightarrow> length (entries l) < maxKeys"
  shows "bucketOf newLim (snd (Allow newLim allowN now key l)) k =
     (if k = key then snd (allowN (bucketOf newLim l key) now) else bucketOf newLim l k)"
  unfolding bucketOf_def [of _ "snd (Allow newLim allowN now key l)"] Allow_entries_room [OF assms]
  by (simp add: table_simps bucketOf_def [of _ l k] split: option.splits)

lemma Allow_keys:
  assumes "map_of (entries l) key = None \<longrightarrow> length (entries l) < maxKeys"
  shows "fst ` set (entries (snd (Allow newLim allowN now key l))) = insert key (fst ` set (entries l))"
  unfolding Allow_entries_room [OF assms] by (simp add: dom_update)

lemma wf_table_length: "wf_table m \<Longrightarrow> length m = card (fst ` set m)"
  by (metis distinct_card length_map list.set_map)

lemma allowRun_isolated:
  assumes "wf_table (entries l)" and "card (fst ` set (entries l) \<union> snd ` set rs) \<le> maxKeys"
  shows "map snd (filter (\<lambda>d. fst d = k) (fst (allowRun newLim allowN rs l))) =
         bucketRun allowN (map fst (filter (\<lambda>r. snd r = k) rs)) (bucketOf newLim l k)"
  using assms
proof (induction rs arbitrary: l)
  case (Cons r rs)
  obtain now key where r: "r = (now, key)" by fastforce
  let ?l = "snd (Allow newLim allowN now key l)"
  have room: "map_of (entries l) key = None \<longrightarrow> length (entries l) < maxKeys"
  proof
    assume "map_of (entries l) key = None"
    then have "key \<notin> fst ` set (entries l)" by (simp add: map_of_eq_None_iff)
    then have "fst ` set (entries l) \<subset> fst ` set (entries l) \<union> snd ` set (r # rs)" using r by auto
    then have "card (fst ` set (entries l)) < card (fst ` set (entries l) \<union> snd ` set (r # rs))"
      by (rule psubset_card_mono [rotated]) simp
    then show "length (entries l) < maxKeys"
      using Cons.prems wf_table_length [of "entries l"] by simp
  qed
  have wf: "wf_table (entries ?l)"
    unfolding Allow_entries_room [OF room] using Cons.prems(1) by (rule distinct_update)
  have "fst ` set (entries ?l) \<union> snd ` set rs = fst ` set (entries l) \<union> snd ` set (r # rs)"
    using Allow_keys [OF room, of newLim allowN now] r by auto
  then have IH: "map snd (filter (\<lambda>d. fst d = k) (fst (allowRun newLim allowN rs ?l))) =
      bucketRun allowN (map fst (filter (\<lambda>r. snd r = k) rs)) (bucketOf newLim ?l k)"
    using Cons.IH [OF wf] Cons.prems(2) by simp
  show ?case
    using IH Allow_decision [of newLim allowN now key l] Allow_buckets [OF room, of newLim allowN now k] r
    by (auto split: prod.splits)
qed simp

subsection \<open>Properties\<close>

text \<open>Whatever requests arrive, at whatever times, the table never holds more than
  ten thousand keys.\<close>

lemma limiter_bounded:
  "length (entries (snd (allowRun newLim allowN rs (New ev b)))) \<le> 10000"
  using allowRun_inv [OF New_inv, of newLim allowN rs ev b] by (simp add: rl_inv_def maxKeys_def)

text \<open>As long as the requests come from at most ten thousand different clients,
  the decisions a client sees are those of one token bucket fed by its own requests alone: no
  client can use up another client's tokens, and none regains tokens by other clients' requests.\<close>

lemma limiter_isolates_clients:
  assumes "card (snd ` set rs) \<le> 10000"
  shows "map snd (filter (\<lambda>d. fst d = k) (fst (allowRun newLim allowN rs (New ev b)))) =
         bucketRun allowN (map fst (filter (\<lambda>r. snd r = k) rs)) (newLim ev b)"
  using allowRun_isolated [of "New ev b" rs k newLim allowN] assms
  by (simp add: New_def maxKeys_def bucketOf_def)

text \<open>A bucket that counts down and never refills, to run the definitions.\<close>

definition demoLim :: "duration \<Rightarrow> int \<Rightarrow> int" where "demoLim ev b = b"
definition demoAllow :: "int \<Rightarrow> time \<Rightarrow> bool \<times> int" where "demoAllow b now = (0 < b, b - 1)"

lemma limiter_isolates_clients_witness:
  "card (snd ` set [(0::time, ''a''), (1, ''b''), (2, ''a''), (3, ''a'')]) \<le> 10000 \<and>
   map snd (filter (\<lambda>d. fst d = ''a'')
       (fst (allowRun demoLim demoAllow [(0, ''a''), (1, ''b''), (2, ''a''), (3, ''a'')] (New second 2))))
     = [True, True, False]"
proof
  show c: "card (snd ` set [(0::time, ''a''), (1, ''b''), (2, ''a''), (3, ''a'')]) \<le> 10000" by (simp add: card_insert_if)
  show "map snd (filter (\<lambda>d. fst d = ''a'')
       (fst (allowRun demoLim demoAllow [(0, ''a''), (1, ''b''), (2, ''a''), (3, ''a'')] (New second 2))))
     = [True, True, False]"
    unfolding limiter_isolates_clients [OF c] by (simp add: demoLim_def demoAllow_def)
qed

text \<open>An IPv6 client cannot escape its bucket by rotating addresses: addresses of one
  /64 that are not IPv4-mapped have the same key, and so do an IPv4 address and its IPv4-mapped
  form.\<close>

lemma ClientKey_groups_clients:
  "(ParseAddr a = Some (V6 gs z) \<and> ParseAddr a' = Some (V6 gs' z') \<and>
    \<not> is4In6 gs \<and> \<not> is4In6 gs' \<and> take 4 gs = take 4 gs' \<longrightarrow> ClientKey a = ClientKey a') \<and>
   (ParseAddr m = Some (V6 ms zm) \<and> is4In6 ms \<and> ParseAddr v = Some (V4 (mappedV4 ms)) \<longrightarrow>
    ClientKey m = ClientKey v)"
proof -
  have "maskGroups 64 gs = maskGroups 64 gs'"
    if "ParseAddr a = Some (V6 gs z)" "ParseAddr a' = Some (V6 gs' z')" and "take 4 gs = take 4 gs'"
    using that by (simp only: maskGroups_64 [OF ParseAddr_wf])
  then show ?thesis
    by (auto simp: ClientKey_def prefixOf_def prefixString_def)
qed

lemma ClientKey_groups_clients_witness:
  "ParseAddr ''2001:db8::1'' = Some (V6 [8193, 3512, 0, 0, 0, 0, 0, 1] []) \<and>
   ClientKey ''2001:db8::1'' = ClientKey ''2001:db8::ffff:2'' \<and>
   ClientKey ''::ffff:10.0.0.7'' = ClientKey ''10.0.0.7''"
proof -
  have a: "ParseAddr ''2001:db8::1'' = Some (V6 [8193, 3512, 0, 0, 0, 0, 0, 1] [])" by (simp add: parse_eval)
  have b: "ParseAddr ''2001:db8::ffff:2'' = Some (V6 [8193, 3512, 0, 0, 0, 0, 65535, 2] [])" by (simp add: parse_eval)
  have m: "ParseAddr ''::ffff:10.0.0.7'' = Some (V6 [0, 0, 0, 0, 0, 65535, 2560, 7] [])" by (simp add: parse_eval)
  have v: "ParseAddr ''10.0.0.7'' = Some (V4 167772167)" by (simp add: parse_eval)
  show ?thesis
    using ClientKey_groups_clients [of "''2001:db8::1''" "[8193, 3512, 0, 0, 0, 0, 0, 1]" "[]"
        "''2001:db8::ffff:2''" "[8193, 3512, 0, 0, 0, 0, 65535, 2]" "[]"
        "''::ffff:10.0.0.7''" "[0, 0, 0, 0, 0, 65535, 2560, 7]" "[]" "''10.0.0.7''"] a b m v
    by (simp add: is4In6_def mappedV4_def)
qed

end
