(* ===== verification/Login_Limiter.thy ===== *)
theory Login_Limiter
  imports Ratelimit
begin

section \<open>The login limiter (internal/auth/interfaces/http/login_limiter.go)\<close>

text \<open>
  Failed password checks per client in a fixed window. \<open>retryAfter\<close>, \<open>failure\<close> and
  \<open>success\<close> are the three critical sections of the source, each atomic under its mutex; a
  request runs \<open>retryAfter\<close>, then checks the password outside the lock, then runs one of the other
  two. \<open>guessRun\<close> serves requests one after the other.
\<close>

definition loginFailureLimit :: nat where "loginFailureLimit = 5"
definition loginFailureWindow :: duration where "loginFailureWindow = 15 * minute"
definition maxLoginClients :: nat where "maxLoginClients = 10000"
definition loginEvictFraction :: nat where "loginEvictFraction = 10"

record loginAttempt =
  failures :: nat
  resetAt :: time
  seen :: time

record loginLimiter =
  attempts :: "(string \<times> loginAttempt) list"
  trustedProxies :: "prefix list"

definition newLoginLimiter :: "prefix list \<Rightarrow> loginLimiter" where
  "newLoginLimiter trusted = \<lparr>attempts = [], trustedProxies = trusted\<rparr>"

text \<open>The zero value a missing key reads as.\<close>

definition zeroAttempt :: loginAttempt where
  "zeroAttempt = \<lparr>failures = 0, resetAt = zeroTime, seen = zeroTime\<rparr>"

definition clientIP :: "string \<Rightarrow> string \<Rightarrow> loginLimiter \<Rightarrow> string" where
  "clientIP remoteAddr forwardedFor l = ClientIP remoteAddr forwardedFor (trustedProxies l)"

definition clientKey :: "string \<Rightarrow> string \<Rightarrow> loginLimiter \<Rightarrow> string" where
  "clientKey remoteAddr forwardedFor l = ClientKey (clientIP remoteAddr forwardedFor l)"

definition retryAfter :: "time \<Rightarrow> string \<Rightarrow> loginLimiter \<Rightarrow> (duration \<times> bool) \<times> loginLimiter" where
  "retryAfter now client l =
     (case map_of (attempts l) client of
        None \<Rightarrow> ((0, False), l\<lparr>attempts := AList.delete client (attempts l)\<rparr>)
      | Some a \<Rightarrow>
          if \<not> now < resetAt a then ((0, False), l\<lparr>attempts := AList.delete client (attempts l)\<rparr>)
          else if failures a < loginFailureLimit then ((0, False), l)
          else ((resetAt a - now, True), l))"

definition loginMakeRoom :: "time \<Rightarrow> (string \<times> loginAttempt) list \<Rightarrow> (string \<times> loginAttempt) list" where
  "loginMakeRoom now = evictTable maxLoginClients loginEvictFraction (\<lambda>a. \<not> now < resetAt a) seen"

text \<open>The entry \<open>failure\<close> stores: the old one counted up, or a fresh one when its window is over.\<close>

definition countFailure :: "time \<Rightarrow> loginAttempt option \<Rightarrow> loginAttempt" where
  "countFailure now found =
     (let a = (case found of Some a \<Rightarrow> a | None \<Rightarrow> zeroAttempt);
          a' = (if \<not> now < resetAt a
                then \<lparr>failures = 0, resetAt = now + loginFailureWindow, seen = zeroTime\<rparr> else a)
      in a'\<lparr>failures := failures a' + 1, seen := now\<rparr>)"

definition failure :: "time \<Rightarrow> string \<Rightarrow> loginLimiter \<Rightarrow> loginLimiter" where
  "failure now client l =
     (let found = map_of (attempts l) client;
          m = (if found = None \<and> maxLoginClients \<le> length (attempts l)
               then loginMakeRoom now (attempts l) else attempts l)
      in l\<lparr>attempts := AList.update client (countFailure now found) m\<rparr>)"

definition success :: "string \<Rightarrow> loginLimiter \<Rightarrow> loginLimiter" where
  "success client l = l\<lparr>attempts := AList.delete client (attempts l)\<rparr>"

subsection \<open>The table is bounded\<close>

interpretation ll: bounded_table maxLoginClients loginMakeRoom "\<lambda>now a. \<not> now < resetAt a" seen
proof
  fix now :: time and m :: "(string \<times> loginAttempt) list" and kv kv'
  show "set (loginMakeRoom now m) \<subseteq> set m" unfolding loginMakeRoom_def by (rule set_evictTable)
  show "wf_table m \<Longrightarrow> wf_table (loginMakeRoom now m)" unfolding loginMakeRoom_def by (rule wf_evictTable)
  show "wf_table m \<Longrightarrow> length m \<le> maxLoginClients \<Longrightarrow> length (loginMakeRoom now m) < maxLoginClients"
    unfolding loginMakeRoom_def by (rule length_evictTable) (simp_all add: maxLoginClients_def loginEvictFraction_def)
  show "wf_table m \<Longrightarrow> kv \<in> set m \<Longrightarrow> kv \<notin> set (loginMakeRoom now m) \<Longrightarrow> kv' \<in> set (loginMakeRoom now m) \<Longrightarrow>
      \<not> now < resetAt (snd kv) \<or> seen (snd kv) \<le> seen (snd kv')"
    unfolding loginMakeRoom_def by (rule evictTable_order)
qed

definition ll_inv :: "loginLimiter \<Rightarrow> bool" where
  "ll_inv l \<longleftrightarrow> wf_table (attempts l) \<and> length (attempts l) \<le> maxLoginClients"

lemma newLoginLimiter_inv [simp]: "ll_inv (newLoginLimiter trusted)"
  by (simp add: ll_inv_def newLoginLimiter_def)

lemma delete_inv: "ll_inv l \<Longrightarrow> ll_inv (l\<lparr>attempts := AList.delete c (attempts l)\<rparr>)"
  using length_delete_le [of c "attempts l"] by (simp add: ll_inv_def distinct_delete)

lemma retryAfter_inv: "ll_inv l \<Longrightarrow> ll_inv (snd (retryAfter now c l))"
  by (simp add: retryAfter_def delete_inv split: option.splits)

lemma failure_attempts:
  "attempts (failure now c l) =
     AList.update c (countFailure now (map_of (attempts l) c))
       (if map_of (attempts l) c = None \<and> maxLoginClients \<le> length (attempts l)
        then loginMakeRoom now (attempts l) else attempts l)"
  by (simp add: failure_def Let_def)

lemma failure_inv: "ll_inv l \<Longrightarrow> ll_inv (failure now c l)"
  unfolding ll_inv_def failure_attempts
  by (intro conjI ll.put_bounded) blast+

lemma success_inv: "ll_inv l \<Longrightarrow> ll_inv (success c l)"
  by (simp add: success_def delete_inv)

lemmas limiter_invs = retryAfter_inv failure_inv success_inv

text \<open>The atomic steps, in any interleaving.\<close>

inductive limiter_step :: "loginLimiter \<Rightarrow> loginLimiter \<Rightarrow> bool" where
  step_retry: "limiter_step l (snd (retryAfter now c l))"
| step_failure: "limiter_step l (failure now c l)"
| step_success: "limiter_step l (success c l)"

lemma limiter_reach_inv: "limiter_step\<^sup>*\<^sup>* l l' \<Longrightarrow> ll_inv l \<Longrightarrow> ll_inv l'"
  by (induction rule: rtranclp_induct) (auto elim!: limiter_step.cases intro: limiter_invs)

subsection \<open>Requests one after the other\<close>

























subsection \<open>Properties\<close>




text \<open>In every interleaving of the limiter's critical sections the table holds at most
  ten thousand clients.\<close>

lemma login_table_bounded:
  assumes "limiter_step\<^sup>*\<^sup>* (newLoginLimiter trusted) l"
  shows "length (attempts l) \<le> 10000"
  using limiter_reach_inv [OF assms newLoginLimiter_inv] by (simp add: ll_inv_def maxLoginClients_def)

lemma login_table_bounded_witness:
  "attempts (failure 0 ''a'' (newLoginLimiter [])) \<noteq> [] \<and>
   length (attempts (failure 0 ''a'' (newLoginLimiter []))) \<le> 10000"
  using login_table_bounded [of "[]" "failure 0 ''a'' (newLoginLimiter [])"]
    r_into_rtranclp [where r = limiter_step, OF step_failure [of "newLoginLimiter []" 0 "''a''"]]
  by (simp add: failure_def newLoginLimiter_def Let_def maxLoginClients_def)

text \<open>Several requests that each pass \<open>retryAfter\<close> before any of them is counted.\<close>

primrec startAll :: "nat \<Rightarrow> time \<Rightarrow> string \<Rightarrow> loginLimiter \<Rightarrow> bool list \<times> loginLimiter" where
  "startAll 0 now c l = ([], l)"
| "startAll (Suc n) now c l =
     (case retryAfter now c l of ((_, limited), l1) \<Rightarrow>
        case startAll n now c l1 of (bs, l2) \<Rightarrow> (limited # bs, l2))"

text \<open>The bound is lost when requests overlap: the check and the count are two critical
  sections, so any number of requests that start before the first one is counted all get their
  password checked, within one window.\<close>

lemma login_overlap_unlimited:
  "startAll n now c (newLoginLimiter trusted) = (replicate n False, newLoginLimiter trusted)"
  by (induction n) (simp_all add: retryAfter_def newLoginLimiter_def)

end
