(* ===== verification/Auth_Http.thy ===== *)
theory Auth_Http
  imports Auth Login_Limiter
begin

section \<open>Guards and handlers of the web interface (internal/auth/interfaces/http)\<close>

text \<open>
  A \<open>request\<close> holds what the guards read of an \<^verbatim>\<open>http.Request\<close>; a handler maps a request and a
  state to a response and the new state, and a middleware maps handlers to handlers. The parsers of
  the standard library are arguments, so every theorem holds whatever they accept: \<open>urlHost\<close> is the
  host of \<^verbatim>\<open>url.Parse\<close>, \<open>mediaType\<close> the type \<^verbatim>\<open>mime.ParseMediaType\<close> returns (both \<open>None\<close> on an
  error), \<open>foldEq\<close> is \<^verbatim>\<open>strings.EqualFold\<close>; a request carries the password its JSON body decodes
  to, if it decodes.
\<close>

record request =
  r_method :: string
  r_path :: string
  r_host :: string
  r_header :: "(string \<times> string) list"
  r_contentLength :: int
  r_cookies :: "(string \<times> string) list"
  r_remoteAddr :: string
  r_tls :: bool
  r_password :: "string option"

record cookie =
  c_value :: string
  c_expires :: time
  c_maxAge :: int
  c_secure :: bool

record response =
  status :: int
  message :: string
  retryAfterHeader :: "nat option"
  setCookieHeader :: "cookie option"

type_synonym 's handler = "request \<Rightarrow> 's \<Rightarrow> response \<times> 's"

text \<open>A missing header reads as the empty string.\<close>

definition headerGet :: "request \<Rightarrow> string \<Rightarrow> string" where
  "headerGet r name = (case map_of (r_header r) name of Some v \<Rightarrow> v | None \<Rightarrow> [])"

definition writeError :: "int \<Rightarrow> string \<Rightarrow> response" where
  "writeError st msg = \<lparr>status = st, message = msg, retryAfterHeader = None, setCookieHeader = None\<rparr>"

definition writeApiError :: "error \<Rightarrow> response" where
  "writeApiError e = writeError (fst (Write e)) (snd (Write e))"

subsection \<open>The guards\<close>

definition sessionCookieName :: string where "sessionCookieName = ''session''"











subsection \<open>The handlers\<close>

record handlers =
  service :: auth
  limiter :: loginLimiter
  secureCookies :: bool

definition setCookie :: "handlers \<Rightarrow> request \<Rightarrow> string \<Rightarrow> time \<Rightarrow> cookie" where
  "setCookie h r value expires =
     \<lparr>c_value = value, c_expires = expires, c_maxAge = (if value = [] then -1 else 0),
      c_secure = (secureCookies h \<or> r_tls r)\<rparr>"

definition requestKey :: "handlers \<Rightarrow> request \<Rightarrow> string" where
  "requestKey h r = clientKey (r_remoteAddr r) (headerGet r ''X-Forwarded-For'') (limiter h)"

text \<open>\<^verbatim>\<open>Duration.Round(time.Second)\<close> in seconds, halves away from zero.\<close>

definition roundSeconds :: "duration \<Rightarrow> int" where
  "roundSeconds d = (d + 500000000) div second"

definition login ::
  "(string \<Rightarrow> string \<Rightarrow> bool) \<Rightarrow> error option \<Rightarrow> string option \<Rightarrow> time \<Rightarrow> handlers handler" where
  "login cmp rd rnd now r h =
     (let client = requestKey h r
      in case retryAfter now client (limiter h) of ((wait, limited), lm) \<Rightarrow>
           let h1 = h\<lparr>limiter := lm\<rparr>
           in if limited then
                (\<lparr>status = 429, message = ''too many login attempts'',
                  retryAfterHeader = Some (nat (max 1 (roundSeconds wait))), setCookieHeader = None\<rparr>, h1)
              else case r_password r of
                     None \<Rightarrow> (writeApiError (Invalid ''malformed request body''), h1)
                   | Some pw \<Rightarrow>
                       (case Login cmp rd rnd now pw (service h1) of
                          (Inl e, svc) \<Rightarrow>
                            (writeApiError e,
                             h1\<lparr>service := svc,
                                limiter := (if e = ErrInvalidCredentials then failure now client lm else lm)\<rparr>)
                        | (Inr sess, svc) \<Rightarrow>
                            (\<lparr>status = 204, message = [], retryAfterHeader = None,
                              setCookieHeader = Some (setCookie h1 r (Token sess) (ExpiresAt sess))\<rparr>,
                             h1\<lparr>service := svc, limiter := success client lm\<rparr>)))"

definition StepUp ::
  "(string \<Rightarrow> string \<Rightarrow> bool) \<Rightarrow> error option \<Rightarrow> time \<Rightarrow> request \<Rightarrow> string \<Rightarrow> handlers \<Rightarrow> unit result \<times> handlers" where
  "StepUp cmp rd now r pw h =
     (let client = requestKey h r
      in case retryAfter now client (limiter h) of ((_, limited), lm) \<Rightarrow>
           let h1 = h\<lparr>limiter := lm\<rparr>
           in if limited then (Inl (Forbidden ''too many password attempts; try again later''), h1)
              else case VerifyPassword cmp rd pw (service h1) of
                     Inl e \<Rightarrow>
                       if e = ErrInvalidCredentials then
                         (Inl (Forbidden ''the admin password is required for this command''),
                          h1\<lparr>limiter := failure now client lm\<rparr>)
                       else (Inl e, h1)
                   | Inr _ \<Rightarrow> (Inr (), h1\<lparr>limiter := success client lm\<rparr>))"

definition sessionState :: "time \<Rightarrow> request \<Rightarrow> handlers \<Rightarrow> bool" where
  "sessionState now r h =
     (case map_of (r_cookies r) sessionCookieName of
        None \<Rightarrow> False
      | Some tok \<Rightarrow> ValidateSession now tok (service h) = Inr ())"

definition logout :: "handlers handler" where
  "logout r h =
     (let h1 = (case map_of (r_cookies r) sessionCookieName of
                  None \<Rightarrow> h
                | Some tok \<Rightarrow> h\<lparr>service := Logout tok (service h)\<rparr>)
      in (\<lparr>status = 204, message = [], retryAfterHeader = None, setCookieHeader = Some (setCookie h1 r [] 0)\<rparr>, h1))"

subsection \<open>Properties\<close>




text \<open>What the login handler does, on every branch: a limited client is answered
  429 with a wait of at least a second and its password is not looked at; a malformed body
  answers 400 and is not counted; a wrong password answers 401 and counts; a failing database or
  random source answers 500 and does not count; the right password answers 204 with a cookie for
  a session that is valid for 24 hours, and clears the client's count.\<close>

lemma login_answers:
  "let c = requestKey h r; lm = snd (retryAfter now c (limiter h));
       limited = snd (fst (retryAfter now c (limiter h)))
   in case login cmp rd rnd now r h of (resp, h') \<Rightarrow>
     (status resp = 429 \<longleftrightarrow> limited) \<and>
     (limited \<longrightarrow> service h' = service h \<and> limiter h' = lm \<and> (\<exists>w \<ge> 1. retryAfterHeader resp = Some w)) \<and>
     (status resp = 401 \<longleftrightarrow> \<not> limited \<and> (\<exists>pw. r_password r = Some pw \<and> VerifyPassword cmp rd pw (service h) = Inl ErrInvalidCredentials)) \<and>
     (status resp = 401 \<longrightarrow> service h' = service h \<and> limiter h' = failure now c lm) \<and>
     (status resp \<in> {400, 500} \<longrightarrow> service h' = service h \<and> limiter h' = lm) \<and>
     (status resp = 204 \<longleftrightarrow> \<not> limited \<and> rnd \<noteq> None \<and> (\<exists>pw. r_password r = Some pw \<and> VerifyPassword cmp rd pw (service h) = Inr ())) \<and>
     (status resp = 204 \<longrightarrow> limiter h' = success c lm \<and>
        (\<exists>ck. setCookieHeader resp = Some ck \<and> rnd = Some (c_value ck) \<and>
           (\<forall>t \<le> now + 24 * hour. ValidateSession t (c_value ck) (service h') = Inr ())))"
proof -
  obtain w limited lm where ra: "retryAfter now (requestKey h r) (limiter h) = ((w, limited), lm)"
    by (metis prod.exhaust)
  show ?thesis
  proof (cases limited)
    case True
    then show ?thesis by (simp add: login_def Let_def ra)
  next
    case False
    show ?thesis
    proof (cases "r_password r")
      case None
      with False show ?thesis by (simp add: login_def Let_def ra writeApiError_def writeError_def Invalid_def)
    next
      case (Some pw)
      with False show ?thesis
        by (auto simp: login_def Let_def ra Login_def VerifyPassword_def Hash_def writeApiError_def writeError_def
            ErrInvalidCredentials_def Unauthorized_def setCookie_def ValidateSession_ok table_simps sessionTTL_def
            split: option.split)
    qed
  qed
qed

definition demoRequest :: request where
  "demoRequest = \<lparr>r_method = ''POST'', r_path = ''/api/auth/login'', r_host = ''vps'', r_header = [], r_contentLength = 40,
     r_cookies = [], r_remoteAddr = ''192.0.2.7:5000'', r_tls = True, r_password = Some demoPassword\<rparr>"

definition demoHandlers :: handlers where
  "demoHandlers = \<lparr>service = demoAuth, limiter = newLoginLimiter [], secureCookies = False\<rparr>"

lemma demo_login_open: "snd (fst (retryAfter now c (limiter demoHandlers))) = False"
  by (simp add: demoHandlers_def retryAfter_def newLoginLimiter_def)

lemma demo_login_password: "VerifyPassword demoCmp None demoPassword (service demoHandlers) = Inr ()"
  by (simp add: demoHandlers_def VerifyPassword_def Hash_def auth_eval)

lemma login_answers_witness:
  "case login demoCmp None (Some ''t'') 0 demoRequest demoHandlers of (resp, h') \<Rightarrow>
     status resp = 204 \<and> (\<exists>ck. setCookieHeader resp = Some ck \<and> ValidateSession (24 * hour) (c_value ck) (service h') = Inr ())"
proof -
  have pw: "r_password demoRequest = Some demoPassword" by (simp add: demoRequest_def)
  obtain resp h' where l: "login demoCmp None (Some ''t'') 0 demoRequest demoHandlers = (resp, h')" by fastforce
  note t = login_answers [of demoHandlers demoRequest 0 demoCmp None "Some ''t''", unfolded l Let_def prod.case demo_login_open]
  have "status resp = 204" using t pw demo_login_password by simp
  then obtain ck where "setCookieHeader resp = Some ck" "\<forall>u \<le> 0 + 24 * hour. ValidateSession u (c_value ck) (service h') = Inr ()"
    using t by auto
  then show ?thesis using l \<open>status resp = 204\<close> by simp
qed


end
