(* ===== verification/Http_Api.thy ===== *)
theory Http_Api
  imports Hub Enrollment Operator Auth_Http
begin

section \<open>The HTTP handlers of ingest, enrollment and the console\<close>

text \<open>
  Handlers of \<^verbatim>\<open>internal/telemetry/interfaces/http\<close> (ingest, enroll, hosts) and
  \<^verbatim>\<open>internal/operator/interfaces/http\<close>, with \<^verbatim>\<open>httpserver.TunnelPeer\<close>. A handler returns a \<open>reply\<close>: a
  status with the value of its JSON body, or a status with the message of the JSON error body. A
  request body that is decoded by \<^verbatim>\<open>encoding/json\<close> comes as the decoded value, \<open>None\<close> when it is malformed
  or too large; the raw body of ingest and of results is a \<open>body\<close>.
\<close>

datatype 'b reply = Reply int 'b | Refuse int string

definition apiFail :: "error \<Rightarrow> 'b reply" where
  "apiFail e = Refuse (fst (Write e)) (snd (Write e))"

datatype body = BodyBytes string | BodyTooLarge | BodyBroken

subsection \<open>Who is calling\<close>

text \<open>The source address of a request on the tunnel.\<close>

definition TunnelPeer :: "string \<Rightarrow> addr result" where
  "TunnelPeer remoteAddr =
     (case splitHostPort remoteAddr of
        None \<Rightarrow> Inl (Unauthorized ''unknown tunnel peer'')
      | Some host \<Rightarrow>
          (case ParseAddr host of
             None \<Rightarrow> Inl (Unauthorized ''unknown tunnel peer'')
           | Some ip \<Rightarrow> Inr (Unmap ip)))"

definition tunnelHost :: "error option \<Rightarrow> string \<Rightarrow> tdb \<Rightarrow> string result" where
  "tunnelHost fault remoteAddr db =
     result_bind (TunnelPeer remoteAddr) (\<lambda>ip.
     result_bind (HostByTunnelIP fault ip db) (\<lambda>found.
       case found of None \<Rightarrow> Inl (Unauthorized ''unknown tunnel peer'') | Some host \<Rightarrow> Inr host))"

text \<open>\<^verbatim>\<open>strconv.Atoi\<close> with its error ignored: 0 when it is no number, the nearest 64-bit number when it is out
  of range.\<close>

fun scanUint :: "nat \<Rightarrow> string \<Rightarrow> nat" where
  "scanUint acc [] = acc"
| "scanUint acc (c # cs) =
     (if \<not> isDigit c then 0
      else let n = 10 * acc + (byte c - 48) in if 2 ^ 64 \<le> n then 2 ^ 64 - 1 else scanUint n cs)"

definition atoiValue :: "string \<Rightarrow> int" where
  "atoiValue s =
     (let neg = (s \<noteq> [] \<and> hd s = CHR ''-'');
          ds = (if s \<noteq> [] \<and> (hd s = CHR ''-'' \<or> hd s = CHR ''+'') then tl s else s);
          n = (if ds = [] then 0 else int (scanUint 0 ds))
      in if neg then - min n (2 ^ 63) else min n (2 ^ 63 - 1))"

subsection \<open>Ingest\<close>

definition maxIngestBody :: nat where "maxIngestBody = 1048576"
definition ingestEvery :: duration where "ingestEvery = 100 * millisecond"
definition ingestBurst :: int where "ingestBurst = 20"

record ingestCounts =
  acceptedCounts :: "nat \<times> nat \<times> nat"
  duplicateCounts :: "nat \<times> nat \<times> nat"
  replayedFlag :: bool

definition ingestResponse :: "storeResult \<Rightarrow> ingestCounts" where
  "ingestResponse r =
     \<lparr>acceptedCounts = (length (metrics (Accepted r)), length (checks (Accepted r)), length (events (Accepted r))),
      duplicateCounts = Duplicates r, replayedFlag = Replayed r\<rparr>"

definition ingest ::
  "(duration \<Rightarrow> int \<Rightarrow> 'l) \<Rightarrow> ('l \<Rightarrow> time \<Rightarrow> bool \<times> 'l) \<Rightarrow> (string \<Rightarrow> wireBatch option) \<Rightarrow> (string \<Rightarrow> bool) \<Rightarrow> (string \<Rightarrow> string option) \<Rightarrow>
   error option \<Rightarrow> error option \<Rightarrow> time \<Rightarrow> request \<Rightarrow> body \<Rightarrow> 'l limiter \<times> tdb \<times> hub \<Rightarrow> ingestCounts reply \<times> 'l limiter \<times> tdb \<times> hub" where
  "ingest newLim allowN unmarshal validJson canonObject resolveFault storeFault now r bd st =
     (case st of (lm, db, h) \<Rightarrow>
        case tunnelHost resolveFault (r_remoteAddr r) db of
          Inl e \<Rightarrow> (apiFail e, lm, db, h)
        | Inr host \<Rightarrow>
            (case Allow newLim allowN now host lm of (ok, lm') \<Rightarrow>
               if \<not> ok then (Refuse 429 ''too many batches'', lm', db, h)
               else case bd of
                      BodyTooLarge \<Rightarrow> (Refuse 413 ''batch exceeds 1 MiB'', lm', db, h)
                    | BodyBroken \<Rightarrow> (apiFail (Invalid ''could not read request body''), lm', db, h)
                    | BodyBytes raw \<Rightarrow>
                        (case DecodeBatch unmarshal raw of
                           Inl e \<Rightarrow> (apiFail e, lm', db, h)
                         | Inr b \<Rightarrow>
                             (case Ingest validJson canonObject storeFault host (headerGet r ''Idempotency-Key'') now b (db, h) of
                                (Inl e, db', h') \<Rightarrow> (apiFail e, lm', db', h')
                              | (Inr res, db', h') \<Rightarrow> (Reply 200 (ingestResponse res), lm', db', h')))))"

subsection \<open>Enrollment and hosts\<close>

definition maxEnrollBody :: nat where "maxEnrollBody = 4096"
definition enrollEvery :: duration where "enrollEvery = 6 * second"
definition enrollBurst :: int where "enrollBurst = 10"

record enrollRequest =
  eq_secret :: string
  eq_publicKey :: string

record enrollResponse =
  ep_host :: string
  ep_tunnelIP :: string
  ep_serverKey :: string
  ep_serverEndpoint :: string
  ep_serverTunnelIP :: string

definition enroll ::
  "(duration \<Rightarrow> int \<Rightarrow> 'l) \<Rightarrow> ('l \<Rightarrow> time \<Rightarrow> bool \<times> 'l) \<Rightarrow> (string \<Rightarrow> string) \<Rightarrow> (string \<Rightarrow> bool) \<Rightarrow>
   (string \<Rightarrow> addr \<Rightarrow> 't \<Rightarrow> unit result \<times> 't) option \<Rightarrow> error option \<Rightarrow> serverInfo \<Rightarrow> prefix \<Rightarrow> prefix list \<Rightarrow> time \<Rightarrow> request \<Rightarrow>
   enrollRequest option \<Rightarrow> 'l limiter \<times> tdb \<times> 't \<Rightarrow> enrollResponse reply \<times> 'l limiter \<times> tdb \<times> 't" where
  "enroll newLim allowN sha validKey tunnel fault server subnet trusted now r bd st =
     (case st of (lm, db, tun) \<Rightarrow>
        case Allow newLim allowN now (ClientKey (ClientIP (r_remoteAddr r) (headerGet r ''X-Forwarded-For'') trusted)) lm of (ok, lm') \<Rightarrow>
          if \<not> ok then (Refuse 429 ''too many enrollment attempts'', lm', db, tun)
          else case bd of
                 None \<Rightarrow> (apiFail (Invalid ''malformed request body''), lm', db, tun)
               | Some q \<Rightarrow>
                   (case EnrollSvc sha validKey tunnel fault server (eq_secret q) (eq_publicKey q) now subnet (db, tun) of
                      (Inl e, db', tun') \<Rightarrow> (apiFail e, lm', db', tun')
                    | (Inr en, db', tun') \<Rightarrow>
                        (Reply 200 \<lparr>ep_host = er_host en, ep_tunnelIP = addrString (er_ip en), ep_serverKey = si_key (er_server en),
                           ep_serverEndpoint = si_endpoint (er_server en), ep_serverTunnelIP = addrString (si_ip (er_server en))\<rparr>,
                         lm', db', tun')))"

text \<open>What an agent should pass as the server's address.\<close>

definition serverURL :: "string \<Rightarrow> bool \<Rightarrow> request \<Rightarrow> string" where
  "serverURL publicURL secure r =
     (if publicURL \<noteq> [] then publicURL
      else (if r_tls r \<or> secure then ''https'' else ''http'') @ ''://'' @ r_host r)"

record createHostResponse =
  ch_host :: "string \<times> hostRow"
  ch_serverURL :: string
  ch_secret :: string
  ch_expires :: time

definition createHost ::
  "(string \<Rightarrow> string) \<Rightarrow> error option \<Rightarrow> string option \<Rightarrow> string option \<Rightarrow> string \<Rightarrow> bool \<Rightarrow> time \<Rightarrow> request \<Rightarrow> string option \<Rightarrow> tdb \<Rightarrow>
   createHostResponse reply \<times> tdb" where
  "createHost sha fault secretRnd idRnd publicURL secure now r bd db =
     (case bd of
        None \<Rightarrow> (apiFail (Invalid ''malformed request body''), db)
      | Some name \<Rightarrow>
          (case CreateHostSvc sha fault secretRnd idRnd name now db of
             (Inl e, db') \<Rightarrow> (apiFail e, db')
           | (Inr (host, secret, expires), db') \<Rightarrow>
               (Reply 201 \<lparr>ch_host = host, ch_serverURL = serverURL publicURL secure r, ch_secret = secret, ch_expires = expires\<rparr>, db')))"

subsection \<open>The console\<close>

definition replyWith :: "int \<Rightarrow> 'a result \<Rightarrow> 'a reply" where
  "replyWith st res = (case res of Inl e \<Rightarrow> apiFail e | Inr x \<Rightarrow> Reply st x)"

definition opClient :: "handlers \<Rightarrow> request \<Rightarrow> string" where
  "opClient h r = clientIP (r_remoteAddr r) (headerGet r ''X-Forwarded-For'') (limiter h)"


definition commandsH :: "call \<Rightarrow> string \<Rightarrow> opdb \<Rightarrow> command list reply \<times> opdb" where
  "commandsH k limitParam db = (case CommandsSvc k (atoiValue limitParam) db of (res, db') \<Rightarrow> (replyWith 200 res, db'))"

definition commandH :: "call \<Rightarrow> string \<Rightarrow> opdb \<Rightarrow> command reply \<times> opdb" where
  "commandH k cid db = (case CommandSvc k cid db of (res, db') \<Rightarrow> (replyWith 200 res, db'))"

definition incidentsH :: "call \<Rightarrow> opdb \<Rightarrow> incident list reply" where
  "incidentsH k db = replyWith 200 (Incidents (k_fault k 0) db)"

definition createIncidentH :: "call \<Rightarrow> request \<Rightarrow> handlers \<Rightarrow> incidentInput option \<Rightarrow> opdb \<Rightarrow> incident reply \<times> opdb" where
  "createIncidentH k r h bd db =
     (case bd of
        None \<Rightarrow> (apiFail (Invalid ''malformed request body''), db)
      | Some i \<Rightarrow> (case CreateIncident k i (opClient h r) db of (res, db') \<Rightarrow> (replyWith 201 res, db')))"

definition updateIncidentH :: "call \<Rightarrow> request \<Rightarrow> handlers \<Rightarrow> string \<Rightarrow> incidentInput option \<Rightarrow> opdb \<Rightarrow> incident reply \<times> opdb" where
  "updateIncidentH k r h iid bd db =
     (case bd of
        None \<Rightarrow> (apiFail (Invalid ''malformed request body''), db)
      | Some i \<Rightarrow> (case UpdateIncident k iid i (opClient h r) db of (res, db') \<Rightarrow> (replyWith 200 res, db')))"

definition deleteIncidentH :: "call \<Rightarrow> request \<Rightarrow> handlers \<Rightarrow> string \<Rightarrow> opdb \<Rightarrow> unit reply \<times> opdb" where
  "deleteIncidentH k r h iid db = (case DeleteIncident k iid (opClient h r) db of (res, db') \<Rightarrow> (replyWith 204 res, db'))"

definition auditH :: "call \<Rightarrow> string \<Rightarrow> string \<Rightarrow> opdb \<Rightarrow> auditEntry list reply" where
  "auditH k limitParam beforeParam db = replyWith 200 (Audit k (atoiValue beforeParam) (atoiValue limitParam) db)"

text \<open>The tunnel-only routes of the agent. \<open>unmarshalReport\<close> decodes a report.\<close>

definition claimH :: "error option \<Rightarrow> call \<Rightarrow> request \<Rightarrow> tdb \<times> opdb \<Rightarrow> claimed list reply \<times> opdb" where
  "claimH resolveFault k r st =
     (case st of (tele, db) \<Rightarrow>
        case tunnelHost resolveFault (r_remoteAddr r) tele of
          Inl e \<Rightarrow> (apiFail e, db)
        | Inr host \<Rightarrow> (case Claim k host db of (res, db') \<Rightarrow> (replyWith 200 res, db')))"

definition resultH ::
  "(string \<Rightarrow> report option) \<Rightarrow> error option \<Rightarrow> deps \<Rightarrow> call \<Rightarrow> request \<Rightarrow> string \<Rightarrow> body \<Rightarrow> tdb \<times> opdb \<Rightarrow> unit reply \<times> opdb" where
  "resultH unmarshalReport resolveFault d k r cid bd st =
     (case st of (tele, db) \<Rightarrow>
        case tunnelHost resolveFault (r_remoteAddr r) tele of
          Inl e \<Rightarrow> (apiFail e, db)
        | Inr host \<Rightarrow>
            (case bd of
               BodyTooLarge \<Rightarrow> (Refuse 413 ''result exceeds 80 KiB'', db)
             | BodyBroken \<Rightarrow> (apiFail (Invalid ''could not read request body''), db)
             | BodyBytes raw \<Rightarrow>
                 (case unmarshalReport raw of
                    None \<Rightarrow> (apiFail (Invalid ''malformed result''), db)
                  | Some rp \<Rightarrow>
                      (case Complete d k host cid rp db of
                         (Inl e, db') \<Rightarrow> (apiFail e, db')
                       | (Inr _, db') \<Rightarrow> (Reply 204 (), db')))))"

subsection \<open>The address of a request names its host\<close>

lemma v4String_chars: "c \<in> set (v4String v) \<Longrightarrow> isDigit c \<or> c = CHR ''.''"
  using itoa_digits by (auto simp: v4String_def list_all_iff)

lemma v4String_plain: "CHR '':'' \<notin> set (v4String v)" "CHR ''['' \<notin> set (v4String v)" "CHR '']'' \<notin> set (v4String v)"
  using v4String_chars [of _ v] by (force simp: isDigit_def byte_def)+

lemma takeWhile_rev_colon:
  "CHR '':'' \<notin> set port \<Longrightarrow> takeWhile (\<lambda>c. c \<noteq> CHR '':'') (rev (s @ CHR '':'' # port)) = rev port"
  by (auto simp: takeWhile_append takeWhile_eq_all_conv)

lemma splitHostPort_plain:
  assumes "set s \<inter> {CHR '':'', CHR ''['', CHR '']''} = {}" and "set port \<inter> {CHR '':'', CHR ''['', CHR '']''} = {}" and "s \<noteq> []"
  shows "splitHostPort (s @ CHR '':'' # port) = Some s"
proof -
  have tw: "takeWhile (\<lambda>c. c \<noteq> CHR '':'') (rev (s @ CHR '':'' # port)) = rev port"
    using assms(2) by (intro takeWhile_rev_colon) auto
  have i: "length (s @ CHR '':'' # port) - 1 - length (takeWhile (\<lambda>c. c \<noteq> CHR '':'') (rev (s @ CHR '':'' # port))) = length s"
    unfolding tw by simp
  have "hd (s @ CHR '':'' # port) \<noteq> CHR ''[''" using assms by (cases s) auto
  moreover have "\<not> containsAny (s @ CHR '':'' # port) ''[]''" using assms by (auto simp: containsAny_def list_ex_iff)
  moreover have "CHR '':'' \<notin> set (take (length s) (s @ CHR '':'' # port))" using assms(1) by auto
  ultimately show ?thesis unfolding splitHostPort_def i Let_def by simp
qed


lemma v4String_not_Nil: "v4String v \<noteq> []"
  by (simp add: v4String_def)

lemma tunnelHost_peer:
  assumes "peers_inv p db" and "(host, pr) \<in> set (peers db)" and "set port \<inter> {CHR '':'', CHR ''['', CHR '']''} = {}"
  shows "tunnelHost None (p_ip pr @ CHR '':'' # port) db = Inr host"
proof -
  obtain v where v: "p_ip pr = v4String v" "hostAddress p v" using assms(1,2) by (fastforce simp: peers_inv_def)
  have "splitHostPort (p_ip pr @ CHR '':'' # port) = Some (p_ip pr)"
    unfolding v(1) using assms(3) v4String_plain [of v] v4String_not_Nil [of v] by (intro splitHostPort_plain) auto
  then have peer: "TunnelPeer (p_ip pr @ CHR '':'' # port) = Inr (V4 v)"
    using ParseAddr_v4String [OF hostAddress_small [OF v(2)]] v(1) by (simp add: TunnelPeer_def)
  have "find (\<lambda>x. p_ip (snd x) = p_ip (snd (host, pr))) (peers db) = Some (host, pr)"
    using assms(1,2) by (intro find_by_ip) (auto simp: peers_inv_def)
  then show ?thesis using v(1) peer by (simp add: tunnelHost_def HostByTunnelIP_def)
qed

lemma tunnelHost_known:
  assumes "tunnelHost f ra db = Inr host"
  shows "\<exists>pr ip. (host, pr) \<in> set (peers db) \<and> TunnelPeer ra = Inr ip \<and> p_ip pr = addrString ip"
proof -
  obtain ip where ip: "TunnelPeer ra = Inr ip" and h: "HostByTunnelIP f ip db = Inr (Some host)"
    using assms by (auto simp: tunnelHost_def result_bind_eq_Inr split: option.splits)
  obtain x where "find (\<lambda>r. p_ip (snd r) = addrString ip) (peers db) = Some x" "fst x = host"
    using h by (auto simp: HostByTunnelIP_def split: option.splits)
  then have "(host, snd x) \<in> set (peers db)" "p_ip (snd x) = addrString ip"
    by (auto simp: find_Some_iff intro: nth_mem)
  then show ?thesis using ip by blast
qed

subsection \<open>Properties\<close>


text \<open>C23 (safety). On the tunnel a request acts for the host its source address was given to, and for no other:
  the address of an enrolled host resolves to that host, batches are stored under it, and it is
  handed only commands queued for it.\<close>

theorem tunnel_requests_act_for_their_host:
  assumes "peers_inv p tele" and "(host, pr) \<in> set (peers tele)" and "set port \<inter> {CHR '':'', CHR ''['', CHR '']''} = {}"
    and "r_remoteAddr r = p_ip pr @ CHR '':'' # port" and "op_inv db"
  shows "(\<forall>cs db'. claimH None k r (tele, db) = (Reply 200 cs, db') \<longrightarrow> (\<forall>c\<in>set cs. concerns db' (Handed host c))) \<and>
         (\<forall>b lm lm' st tele' hub hub'. ingest newLim allowN unmarshal vj co None sf now r b (lm, tele, hub) = (Reply 200 st, lm', tele', hub') \<longrightarrow>
            (\<exists>batch key res. Ingest vj co sf host key now batch (tele, hub) = (Inr res, tele', hub')))"
proof -
  have host: "tunnelHost None (r_remoteAddr r) tele = Inr host"
    unfolding assms(4) by (rule tunnelHost_peer [OF assms(1,2,3)])
  have "\<forall>c\<in>set cs. concerns db' (Handed host c)" if cl: "claimH None k r (tele, db) = (Reply 200 cs, db')" for cs db'
  proof -
    have "Claim k host db = (Inr cs, db')" using cl host by (auto simp: claimH_def replyWith_def apiFail_def split: prod.splits sum.splits)
    from Claim_fair [OF assms(5) this] show ?thesis by (auto simp: fair_def)
  qed
  moreover have "\<exists>batch key res. Ingest vj co sf host key now batch (tele, hub) = (Inr res, tele', hub')"
    if "ingest newLim allowN unmarshal vj co None sf now r b (lm, tele, hub) = (Reply 200 st, lm', tele', hub')" for b lm lm' st tele' hub hub'
    using that by (auto simp: ingest_def host apiFail_def split: prod.splits sum.splits if_splits body.splits)
  ultimately show ?thesis by blast
qed




definition demoTele :: tdb where
  "demoTele = demoDb\<lparr>peers := [(''h1'', \<lparr>p_key = ''pk'', p_ip = v4String 172818434, p_enrolled = 0\<rparr>)]\<rparr>"

definition demoTunnel :: request where
  "demoTunnel = demoRequest\<lparr>r_remoteAddr := v4String 172818434 @ '':5000''\<rparr>"

lemma demoTele_inv: "peers_inv demoSubnet demoTele"
proof -
  have "hostAddress demoSubnet 172818434"
    by (simp add: hostAddress_def networkOf_def demoSubnet_def inSubnet_def broadcast_def)
  then show ?thesis by (auto simp: peers_inv_def demoTele_def demoDb_def)
qed

theorem tunnel_requests_act_for_their_host_witness:
  "\<exists>cs db'. claimH None (demoCall minute) demoTunnel (demoTele, demoOp) = (Reply 200 cs, db') \<and> length cs = 1 \<and>
     (\<forall>c\<in>set cs. concerns db' (Handed ''h1'' c))"
proof -
  have peer: "(''h1'', \<lparr>p_key = ''pk'', p_ip = v4String 172818434, p_enrolled = 0\<rparr>) \<in> set (peers demoTele)" by (simp add: demoTele_def)
  have addr: "r_remoteAddr demoTunnel = p_ip \<lparr>p_key = ''pk'', p_ip = v4String 172818434, p_enrolled = 0\<rparr> @ CHR '':'' # ''5000''"
    by (simp add: demoTunnel_def)
  have port: "set ''5000'' \<inter> {CHR '':'', CHR ''['', CHR '']''} = {}" by simp
  have "tunnelHost None (r_remoteAddr demoTunnel) demoTele = Inr ''h1''" unfolding addr by (rule tunnelHost_peer [OF demoTele_inv peer port])
  moreover obtain db' where "Claim (demoCall minute) ''h1'' demoOp = (Inr [\<lparr>cl_id = ''c1'', cl_kind = KindLift, cl_args = ''{}''\<rparr>], db')"
    by (simp add: op_eval)
  ultimately have c: "claimH None (demoCall minute) demoTunnel (demoTele, demoOp) = (Reply 200 [\<lparr>cl_id = ''c1'', cl_kind = KindLift, cl_args = ''{}''\<rparr>], db')"
    by (simp add: claimH_def replyWith_def)
  then show ?thesis using tunnel_requests_act_for_their_host [OF demoTele_inv peer port addr demoOp_inv] by fastforce
qed


end
