(* ===== verification/Collect.thy ===== *)
theory Collect
  imports Telemetry
begin

section \<open>The host collectors of the agent\<close>

text \<open>
  The collectors of \<^verbatim>\<open>internal/agent/collect\<close> that read the host: \<^verbatim>\<open>collect.go\<close> (CPU, memory, load,
  uptime), \<^verbatim>\<open>pressure.go\<close>, \<^verbatim>\<open>disk.go\<close>, \<^verbatim>\<open>network.go\<close>, \<^verbatim>\<open>docker.go\<close> and \<^verbatim>\<open>document.go\<close>. The files of
  \<^verbatim>\<open>/proc\<close> are a function from their name to their content or error. Counters are words of 64 bits;
  a value of type \<^verbatim>\<open>float64\<close> is the exact rational, its rounding is not modelled.
  \<^verbatim>\<open>strconv.ParseFloat\<close>, \<^verbatim>\<open>statfs\<close>, the answers of the Docker daemon and SHA-256 are parameters.
\<close>

subsection \<open>Text\<close>

text \<open>\<^verbatim>\<open>strings.Cut\<close> with a one-byte separator.\<close>

definition cutAt :: "char \<Rightarrow> string \<Rightarrow> (string \<times> string) option" where
  "cutAt c s = (if c \<in> set s then Some (takeWhile (\<lambda>x. x \<noteq> c) s, tl (dropWhile (\<lambda>x. x \<noteq> c) s)) else None)"

text \<open>\<^verbatim>\<open>strings.Fields\<close>: the text between runs of white space, of Unicode's where the text is not ASCII.\<close>

definition spaceAt :: "string \<Rightarrow> nat" where
  "spaceAt s = (case find (\<lambda>e. e \<noteq> [] \<and> hasPrefix s e) spaceSeqs of None \<Rightarrow> 0 | Some e \<Rightarrow> length e)"

function wordLoop :: "string \<Rightarrow> string \<Rightarrow> string list" where
  "wordLoop acc [] = (if acc = [] then [] else [rev acc])"
| "wordLoop acc (c # cs) =
     (if 0 < spaceAt (c # cs)
      then (if acc = [] then [] else [rev acc]) @ wordLoop [] (drop (spaceAt (c # cs)) (c # cs))
      else wordLoop (c # acc) cs)"
  by pat_completeness auto
termination by (relation "measure (\<lambda>(acc, s). length s)") auto

definition goFields :: "string \<Rightarrow> string list" where
  "goFields s = wordLoop [] s"

subsection \<open>Samples (collect.go)\<close>

record sample =
  s_name :: string
  s_value :: float64
  s_labels :: labels

definition plain :: "string \<Rightarrow> float64 \<Rightarrow> sample" where
  "plain name v = \<lparr>s_name = name, s_value = v, s_labels = []\<rparr>"

type_synonym procfs = "string \<Rightarrow> string result"

definition clampPercent :: "rat \<Rightarrow> rat" where
  "clampPercent v = (if v < 0 then 0 else if v > 100 then 100 else v)"

definition ofWord :: "64 word \<Rightarrow> rat" where
  "ofWord w = of_nat (unat w)"

definition percent :: "64 word \<Rightarrow> 64 word \<Rightarrow> rat" where
  "percent part whole = (if whole = 0 then 0 else clampPercent (100 * ofWord part / ofWord whole))"

subsection \<open>CPU\<close>

record cpuCounters =
  cc_values :: "64 word list"
  cc_total :: "64 word"
  cc_idle :: "64 word"
  cc_hasIOWait :: bool
  cc_hasSteal :: bool

fun parseUints :: "string list \<Rightarrow> 64 word list option" where
  "parseUints [] = Some []"
| "parseUints (f # fs) =
     (case parseUint64 f of None \<Rightarrow> None | Some v \<Rightarrow> map_option (Cons v) (parseUints fs))"

definition cpuLine :: "string list \<Rightarrow> cpuCounters result" where
  "cpuLine fs =
     (case parseUints (tl fs) of
        None \<Rightarrow> Inl (OtherError ''collect: parse /proc/stat'')
      | Some vals \<Rightarrow>
          Inr \<lparr>cc_values = vals, cc_total = sum_list (take 8 vals),
               cc_idle = vals ! 3 + (if 4 < length vals then vals ! 4 else 0),
               cc_hasIOWait = (4 < length vals), cc_hasSteal = (7 < length vals)\<rparr>)"

definition parseCPULine :: "string \<Rightarrow> cpuCounters result" where
  "parseCPULine stat =
     (case find (\<lambda>fs. 5 \<le> length fs \<and> hd fs = ''cpu'') (map goFields (splitOn (CHR ''\<newline>'') stat)) of
        None \<Rightarrow> Inl (OtherError ''collect: no aggregate cpu line in /proc/stat'')
      | Some fs \<Rightarrow> cpuLine fs)"

record cpu =
  prevTotal :: "64 word"
  prevIdle :: "64 word"
  prev :: "64 word list"
  primed :: bool

definition cpuStart :: cpu where
  "cpuStart = \<lparr>prevTotal = 0, prevIdle = 0, prev = [], primed = False\<rparr>"

definition cpuSamples :: "cpu \<Rightarrow> cpuCounters \<Rightarrow> sample list" where
  "cpuSamples c k =
     (if \<not> primed c \<or> length (cc_values k) \<noteq> length (prev c) \<or> cc_total k \<le> prevTotal c then []
      else if list_ex (\<lambda>(cur, old). cur < old) (zip (cc_values k) (prev c)) then []
      else
        let dTotal = ofWord (cc_total k - prevTotal c); dIdle = ofWord (cc_idle k - prevIdle c);
            share = (\<lambda>i. clampPercent (100 * ofWord (cc_values k ! i - prev c ! i) / dTotal))
        in [plain ''cpu.usage_percent'' (Fin (clampPercent (100 * (1 - dIdle / dTotal))))] @
           (if cc_hasIOWait k then [plain ''cpu.iowait_percent'' (Fin (share 4))] else []) @
           (if cc_hasSteal k then [plain ''cpu.steal_percent'' (Fin (share 7))] else []))"

definition cpuCollect :: "procfs \<Rightarrow> cpu \<Rightarrow> sample list result \<times> cpu" where
  "cpuCollect rd c =
     (case result_bind (rd ''stat'') parseCPULine of
        Inl e \<Rightarrow> (Inl e, c)
      | Inr k \<Rightarrow>
          (Inr (cpuSamples c k), \<lparr>prevTotal = cc_total k, prevIdle = cc_idle k, prev = cc_values k, primed = True\<rparr>))"

definition cpuCountCollect :: "procfs \<Rightarrow> sample list result" where
  "cpuCountCollect rd =
     result_bind (rd ''stat'') (\<lambda>raw.
       let n = length (filter (\<lambda>l. 3 < length l \<and> hasPrefix l ''cpu'' \<and> isDigit (l ! 3)) (splitOn (CHR ''\<newline>'') raw))
       in if n = 0 then Inl (OtherError ''collect: no per-CPU lines in /proc/stat'')
          else Inr [plain ''cpu.count'' (Fin (of_nat n))])"

subsection \<open>Memory, load, uptime\<close>

text \<open>The multiplication by 1024 wraps, as in the source.\<close>

definition meminfoLine :: "string \<Rightarrow> (string \<times> 64 word) option" where
  "meminfoLine line =
     (case cutAt (CHR '':'') line of
        None \<Rightarrow> None
      | Some (key, rest) \<Rightarrow>
          let fs = goFields rest
          in if fs = [] then None
             else case parseUint64 (hd fs) of
                    None \<Rightarrow> None
                  | Some v \<Rightarrow> Some (key, if 1 < length fs \<and> fs ! 1 = ''kB'' then v * 1024 else v))"

definition parseMeminfo :: "string \<Rightarrow> string \<Rightarrow> 64 word option" where
  "parseMeminfo raw = map_of (rev (List.map_filter meminfoLine (splitOn (CHR ''\<newline>'') raw)))"

definition usage :: "string \<Rightarrow> 64 word \<Rightarrow> 64 word \<Rightarrow> sample list" where
  "usage what whole free =
     [plain (what @ ''.total_bytes'') (Fin (ofWord whole)), plain (what @ ''.used_bytes'') (Fin (ofWord (whole - free))),
      plain (what @ ''.used_percent'') (Fin (percent (whole - free) whole))]"

definition memoryCollect :: "procfs \<Rightarrow> sample list result" where
  "memoryCollect rd =
     result_bind (rd ''meminfo'') (\<lambda>raw.
       let info = parseMeminfo raw;
           mem = (case (info ''MemTotal'', info ''MemAvailable'') of
                    (Some whole, Some avail) \<Rightarrow> if 0 < whole \<and> avail \<le> whole then usage ''memory'' whole avail else []
                  | _ \<Rightarrow> []);
           swap = (case (info ''SwapTotal'', info ''SwapFree'') of
                     (Some whole, Some free) \<Rightarrow> if free \<le> whole then usage ''swap'' whole free else []
                   | _ \<Rightarrow> []);
           out = mem @ swap
       in if out = [] then Inl (OtherError ''collect: /proc/meminfo has no usable memory goFields'') else Inr out)"

fun loadSamples :: "(string \<Rightarrow> float64 option) \<Rightarrow> string list \<Rightarrow> string list \<Rightarrow> sample list result" where
  "loadSamples parseFloat (name # names) (f # fs) =
     (case parseFloat f of
        None \<Rightarrow> Inl (OtherError ''collect: parse /proc/loadavg'')
      | Some v \<Rightarrow> result_bind (loadSamples parseFloat names fs) (\<lambda>r. Inr (plain name v # r)))"
| "loadSamples parseFloat _ _ = Inr []"

definition loadCollect :: "(string \<Rightarrow> float64 option) \<Rightarrow> procfs \<Rightarrow> sample list result" where
  "loadCollect parseFloat rd =
     result_bind (rd ''loadavg'') (\<lambda>raw.
       if length (goFields raw) < 3 then Inl (OtherError ''collect: malformed /proc/loadavg'')
       else loadSamples parseFloat [''load.avg_1m'', ''load.avg_5m'', ''load.avg_15m''] (goFields raw))"

definition uptimeCollect :: "(string \<Rightarrow> float64 option) \<Rightarrow> procfs \<Rightarrow> sample list result" where
  "uptimeCollect parseFloat rd =
     result_bind (rd ''uptime'') (\<lambda>raw.
       if goFields raw = [] then Inl (OtherError ''collect: malformed /proc/uptime'')
       else case parseFloat (hd (goFields raw)) of
              None \<Rightarrow> Inl (OtherError ''collect: parse /proc/uptime'')
            | Some v \<Rightarrow> Inr [plain ''uptime.seconds'' v])"

subsection \<open>Pressure (pressure.go)\<close>

fun inPercent :: "float64 \<Rightarrow> bool" where
  "inPercent (Fin v) \<longleftrightarrow> 0 \<le> v \<and> v \<le> 100"
| "inPercent _ \<longleftrightarrow> False"

definition avg10 :: "string list \<Rightarrow> string" where
  "avg10 fs = (case List.map_filter (\<lambda>f. case cutAt (CHR ''='') f of Some (k, v) \<Rightarrow> if k = ''avg10'' then Some v else None | None \<Rightarrow> None) fs of
     [] \<Rightarrow> [] | v # _ \<Rightarrow> v)"

definition pressureLine :: "(string \<Rightarrow> float64 option) \<Rightarrow> string \<Rightarrow> string \<Rightarrow> sample option" where
  "pressureLine parseFloat pre line =
     (let fs = goFields line
      in if length fs < 2 \<or> (hd fs \<noteq> ''some'' \<and> hd fs \<noteq> ''full'') then None
         else if hd fs = ''full'' \<and> pre = ''pressure.cpu'' then None
         else case parseFloat (avg10 (tl fs)) of
                None \<Rightarrow> None
              | Some v \<Rightarrow>
                  if \<not> inPercent v then None
                  else Some (plain (pre @ (if hd fs = ''full'' then ''.full_percent'' else ''.some_percent'')) v))"

definition parsePressureFile :: "(string \<Rightarrow> float64 option) \<Rightarrow> string \<Rightarrow> string \<Rightarrow> sample list" where
  "parsePressureFile parseFloat raw pre = List.map_filter (pressureLine parseFloat pre) (splitOn (CHR ''\<newline>'') raw)"

text \<open>A file that does not exist is skipped; the first other problem is reported when nothing was measured.\<close>

definition pressureFold ::
  "(string \<Rightarrow> float64 option) \<Rightarrow> (string \<Rightarrow> string option result) \<Rightarrow> string \<times> string \<Rightarrow> sample list \<times> error option \<Rightarrow> sample list \<times> error option" where
  "pressureFold parseFloat rd src acc =
     (case acc of (out, err) \<Rightarrow>
        case rd (fst src) of
          Inl e \<Rightarrow> (out, if err = None then Some (OtherError (''collect: read /proc/'' @ fst src)) else err)
        | Inr None \<Rightarrow> (out, err)
        | Inr (Some raw) \<Rightarrow>
            let got = parsePressureFile parseFloat raw (snd src)
            in (out @ got, if got = [] \<and> err = None then Some (OtherError (''collect: /proc/'' @ fst src @ '' has no valid avg10 pressure values'')) else err))"

definition pressureCollect :: "(string \<Rightarrow> float64 option) \<Rightarrow> (string \<Rightarrow> string option result) \<Rightarrow> sample list result" where
  "pressureCollect parseFloat rd =
     (case fold (pressureFold parseFloat rd)
        [(''pressure/cpu'', ''pressure.cpu''), (''pressure/memory'', ''pressure.memory''), (''pressure/io'', ''pressure.io'')] ([], None) of
        (out, Some e) \<Rightarrow> if out = [] then Inl e else Inr out
      | (out, None) \<Rightarrow> Inr out)"

subsection \<open>Disks (disk.go)\<close>

definition maxMounts :: nat where "maxMounts = 16"

definition realFilesystems :: "string list" where
  "realFilesystems = [''ext2'', ''ext3'', ''ext4'', ''xfs'', ''btrfs'', ''zfs'', ''f2fs'']"

record fsStat =
  BlockSize :: "64 word"
  Blocks :: "64 word"
  FreeBlocks :: "64 word"
  Avail :: "64 word"

record mount =
  mo_device :: string
  mo_point :: string

definition octalDigit :: "char \<Rightarrow> bool" where
  "octalDigit c \<longleftrightarrow> 48 \<le> byte c \<and> byte c \<le> 55"

definition octal :: "char \<Rightarrow> char \<Rightarrow> char \<Rightarrow> nat option" where
  "octal a b c =
     (let n = 64 * (byte a - 48) + 8 * (byte b - 48) + (byte c - 48)
      in if octalDigit a \<and> octalDigit b \<and> octalDigit c \<and> n < 256 then Some n else None)"

fun unescapeLoop :: "string \<Rightarrow> string" where
  "unescapeLoop (x # a # b # c # cs) =
     (if x = char_of (92::nat)
      then (case octal a b c of Some n \<Rightarrow> char_of n # unescapeLoop cs | None \<Rightarrow> x # unescapeLoop (a # b # c # cs))
      else x # unescapeLoop (a # b # c # cs))"
| "unescapeLoop s = s"

definition unescapeMount :: "string \<Rightarrow> string" where
  "unescapeMount s = (if char_of (92::nat) \<notin> set s then s else unescapeLoop s)"

fun mountLoop :: "nat \<Rightarrow> string list \<Rightarrow> string list \<Rightarrow> mount list" where
  "mountLoop n seen [] = []"
| "mountLoop n seen (line # rest) =
     (let fs = goFields line
      in if length fs < 3 \<or> fs ! 2 \<notin> set realFilesystems \<or> hd fs \<in> set seen then mountLoop n seen rest
         else
           let point = unescapeMount (fs ! 1)
           in if 128 < length point \<or> 128 < length (hd fs) then mountLoop n seen rest
              else \<lparr>mo_device = hd fs, mo_point = point\<rparr> # (if Suc n = maxMounts then [] else mountLoop (Suc n) (hd fs # seen) rest))"

definition parseMounts :: "string \<Rightarrow> mount list" where
  "parseMounts raw = mountLoop 0 [] (splitOn (CHR ''\<newline>'') raw)"

definition diskSamples :: "mount \<Rightarrow> fsStat \<Rightarrow> sample list" where
  "diskSamples m st =
     (if Blocks st = 0 \<or> BlockSize st = 0 then []
      else
        let bs = ofWord (BlockSize st);
            usedBlocks = Blocks st - min (FreeBlocks st) (Blocks st);
            used = ofWord usedBlocks * bs;
            usable = ofWord (usedBlocks + Avail st) * bs;
            pct = (if 0 < usable then clampPercent (100 * used / usable) else 0);
            ls = [(''device'', mo_device m), (''mount'', mo_point m)]
        in [\<lparr>s_name = ''disk.total_bytes'', s_value = Fin (ofWord (Blocks st) * bs), s_labels = ls\<rparr>,
            \<lparr>s_name = ''disk.used_bytes'', s_value = Fin used, s_labels = ls\<rparr>,
            \<lparr>s_name = ''disk.used_percent'', s_value = Fin pct, s_labels = ls\<rparr>])"

definition diskStep :: "(string \<Rightarrow> fsStat result) \<Rightarrow> mount \<Rightarrow> sample list \<times> error option \<Rightarrow> sample list \<times> error option" where
  "diskStep statfs m acc =
     (case statfs (mo_point m) of
        Inl e \<Rightarrow> (fst acc, Some e)
      | Inr st \<Rightarrow> (fst acc @ diskSamples m st, snd acc))"

definition diskCollect :: "(string \<Rightarrow> fsStat result) \<Rightarrow> procfs \<Rightarrow> sample list result" where
  "diskCollect statfs rd =
     result_bind (rd ''mounts'') (\<lambda>raw.
       case fold (diskStep statfs) (parseMounts raw) ([], None) of
         (out, Some e) \<Rightarrow> if out = [] then Inl e else Inr out
       | (out, None) \<Rightarrow> Inr out)"

subsection \<open>Network (network.go)\<close>

definition maxInterfaces :: nat where "maxInterfaces = 32"

definition networkLine :: "string \<Rightarrow> (string \<times> 64 word \<times> 64 word) option" where
  "networkLine line =
     (case cutAt (CHR '':'') line of
        None \<Rightarrow> None
      | Some (n, rest) \<Rightarrow>
          let name = trimSpace n; fs = goFields rest
          in if name = [] \<or> name = ''lo'' \<or> 64 < length name \<or> length fs < 9 then None
             else case (parseUint64 (fs ! 0), parseUint64 (fs ! 8)) of
                    (Some rx, Some tx) \<Rightarrow> Some (name, rx, tx)
                  | _ \<Rightarrow> None)"

definition networkCollect :: "procfs \<Rightarrow> sample list result" where
  "networkCollect rd =
     result_bind (rd ''net/dev'') (\<lambda>raw.
       let rows = List.map_filter networkLine (splitOn (CHR ''\<newline>'') raw);
           names = take maxInterfaces (sort (remdups (map fst rows)))
       in if rows = [] then Inl (OtherError ''collect: no network interfaces found in /proc/net/dev'')
          else Inr (concat (map (\<lambda>name.
            let c = the (map_of (rev rows) name); ls = [(''interface'', name)]
            in [\<lparr>s_name = ''network.rx_bytes_total'', s_value = Fin (ofWord (fst c)), s_labels = ls\<rparr>,
                \<lparr>s_name = ''network.tx_bytes_total'', s_value = Fin (ofWord (snd c)), s_labels = ls\<rparr>]) names)))"

subsection \<open>Containers (docker.go)\<close>

definition DefaultDockerDeadline :: duration where "DefaultDockerDeadline = 5 * second"
definition minDockerStatsDeadline :: duration where "minDockerStatsDeadline = second"
definition dockerDeadlineHeadroom :: duration where "dockerDeadlineHeadroom = second"

definition WithDeadline :: "duration \<Rightarrow> duration" where
  "WithDeadline interval = min (max (interval - dockerDeadlineHeadroom) minDockerStatsDeadline) DefaultDockerDeadline"

record dockerContainer =
  dc_id :: string
  dc_names :: "string list"
  dc_image :: string

record dockerCPUStats =
  TotalUsage :: "64 word"
  PercpuUsage :: "64 word list"
  SystemCPUUsage :: "64 word"
  OnlineCPUs :: "32 word"

record dockerStats =
  CPUStats :: dockerCPUStats
  PreCPUStats :: dockerCPUStats
  mem_usage :: "64 word"
  mem_limit :: "64 word"
  mem_cache :: "64 word"

definition containerName :: "dockerContainer \<Rightarrow> string" where
  "containerName c = (case dc_names c of n # _ \<Rightarrow> trimPrefix n ''/'' | [] \<Rightarrow> dc_id c)"

definition cpuPercent :: "dockerStats \<Rightarrow> rat option" where
  "cpuPercent s =
     (let cpuDelta = ofWord (TotalUsage (CPUStats s)) - ofWord (TotalUsage (PreCPUStats s));
          sysDelta = ofWord (SystemCPUUsage (CPUStats s)) - ofWord (SystemCPUUsage (PreCPUStats s));
          online = unat (OnlineCPUs (CPUStats s)); percpu = length (PercpuUsage (CPUStats s));
          cpus = (if online \<noteq> 0 then online else if percpu \<noteq> 0 then percpu else 1)
      in if sysDelta \<le> 0 \<or> cpuDelta < 0 then None else Some (cpuDelta / sysDelta * of_nat cpus * 100))"

definition containerSamples :: "dockerContainer \<Rightarrow> dockerStats \<Rightarrow> sample list" where
  "containerSamples c st =
     (let ls = [(''container'', containerName c), (''image'', dc_image c)];
          used = (if mem_cache st < mem_usage st then mem_usage st - mem_cache st else mem_usage st)
      in (case cpuPercent st of Some pct \<Rightarrow> [\<lparr>s_name = ''docker.container.cpu_percent'', s_value = Fin pct, s_labels = ls\<rparr>] | None \<Rightarrow> []) @
         (if 0 < mem_limit st
          then [\<lparr>s_name = ''docker.container.memory_used_bytes'', s_value = Fin (ofWord used), s_labels = ls\<rparr>,
                \<lparr>s_name = ''docker.container.memory_used_percent'', s_value = Fin (ofWord used / ofWord (mem_limit st) * 100), s_labels = ls\<rparr>]
          else []))"

text \<open>\<open>stats\<close> gives what the daemon answered for a container before the deadline of the tick, if it did. The
  readers work side by side, but each writes its own slot, and the slots are joined in the order of the list.\<close>

definition dockerCollect :: "dockerContainer list result \<Rightarrow> (string \<Rightarrow> dockerStats option) \<Rightarrow> sample list result" where
  "dockerCollect listed stats =
     (case listed of
        Inl e \<Rightarrow> Inl (OtherError ''docker: list containers'')
      | Inr cs \<Rightarrow> Inr (concat (map (\<lambda>c. case stats (dc_id c) of None \<Rightarrow> [] | Some st \<Rightarrow> containerSamples c st) cs)))"

subsection \<open>Documents (document.go)\<close>

definition CollectMaxDocumentBytes :: nat where "CollectMaxDocumentBytes = 512 * 1024"

record fileDocument =
  fd_kind :: string
  fd_last :: string
  fd_sent :: bool

definition documentCollect ::
  "(string \<Rightarrow> string) \<Rightarrow> (string \<Rightarrow> bool) \<Rightarrow> string option result \<Rightarrow> fileDocument \<Rightarrow> document option result \<times> fileDocument" where
  "documentCollect sha validJson content f =
     (case content of
        Inl e \<Rightarrow> (Inl e, f)
      | Inr None \<Rightarrow> (Inr None, f)
      | Inr (Some raw) \<Rightarrow>
          let data = trimSpace raw
          in if CollectMaxDocumentBytes < length data then (Inl (OtherError ''document too large''), f)
             else if \<not> hasPrefix data ''{'' \<or> \<not> validJson data then (Inl (OtherError ''not a JSON object''), f)
             else if fd_sent f \<and> sha data = fd_last f then (Inr None, f)
             else (Inr (Some \<lparr>d_kind = fd_kind f, d_body = data\<rparr>), f\<lparr>fd_last := sha data, fd_sent := True\<rparr>))"


subsection \<open>Lemmas: what the collectors report\<close>

definition sampleForm :: "sample \<Rightarrow> bool" where
  "sampleForm s \<longleftrightarrow>
     nameRe (s_name s) \<and> length (s_labels s) \<le> 2 \<and>
     (\<forall>kv\<in>set (s_labels s). labelKeyRe (fst kv) \<and> length (snd kv) \<le> 128) \<and>
     (hasSuffix (s_name s) ''_percent'' \<longrightarrow> inPercent (s_value s))"

lemma clampPercent_range [simp]: "0 \<le> clampPercent v" "clampPercent v \<le> 100"
  by (simp_all add: clampPercent_def)

lemma percent_range [simp]: "0 \<le> percent p w" "percent p w \<le> 100"
  by (simp_all add: percent_def)

lemma label_keys: "labelKeyRe ''device''" "labelKeyRe ''mount''" "labelKeyRe ''interface''" "labelKeyRe ''container''" "labelKeyRe ''image''"
  by code_simp+

lemma plain_percent: "nameRe name \<Longrightarrow> inPercent v \<Longrightarrow> sampleForm (plain name v)"
  by (simp add: sampleForm_def plain_def)

lemma plain_other: "nameRe name \<Longrightarrow> \<not> hasSuffix name ''_percent'' \<Longrightarrow> sampleForm (plain name v)"
  by (simp add: sampleForm_def plain_def)

lemma cpuSamples_form: "\<forall>s\<in>set (cpuSamples c k). sampleForm s" "length (cpuSamples c k) \<le> 3"
proof -
  have n: "nameRe ''cpu.usage_percent''" "nameRe ''cpu.iowait_percent''" "nameRe ''cpu.steal_percent''" by code_simp+
  show "\<forall>s\<in>set (cpuSamples c k). sampleForm s" by (auto simp: cpuSamples_def Let_def intro!: plain_percent n)
  show "length (cpuSamples c k) \<le> 3" by (simp add: cpuSamples_def Let_def)
qed

lemma cpuCountCollect_form: "cpuCountCollect rd = Inr ss \<Longrightarrow> (\<forall>s\<in>set ss. sampleForm s) \<and> length ss = 1"
proof -
  have n: "nameRe ''cpu.count''" "\<not> hasSuffix ''cpu.count'' ''_percent''" by code_simp+
  show "cpuCountCollect rd = Inr ss \<Longrightarrow> (\<forall>s\<in>set ss. sampleForm s) \<and> length ss = 1"
    by (auto simp: cpuCountCollect_def Let_def result_bind_def intro!: plain_other n split: sum.splits if_splits)
qed

lemma usage_form: "what \<in> {''memory'', ''swap''} \<Longrightarrow> (\<forall>s\<in>set (usage what w f). sampleForm s)"
proof -
  have n: "nameRe ''memory.total_bytes''" "nameRe ''memory.used_bytes''" "nameRe ''memory.used_percent''"
    "nameRe ''swap.total_bytes''" "nameRe ''swap.used_bytes''" "nameRe ''swap.used_percent''"
    "\<not> hasSuffix ''memory.total_bytes'' ''_percent''" "\<not> hasSuffix ''memory.used_bytes'' ''_percent''"
    "\<not> hasSuffix ''swap.total_bytes'' ''_percent''" "\<not> hasSuffix ''swap.used_bytes'' ''_percent''" by code_simp+
  show "what \<in> {''memory'', ''swap''} \<Longrightarrow> (\<forall>s\<in>set (usage what w f). sampleForm s)"
    by (auto simp: usage_def sampleForm_def plain_def n)
qed

lemma memoryCollect_form: "memoryCollect rd = Inr ss \<Longrightarrow> (\<forall>s\<in>set ss. sampleForm s) \<and> length ss \<le> 6"
proof -
  have "length (usage what w f) = 3" for what w f by (simp add: usage_def)
  then show "memoryCollect rd = Inr ss \<Longrightarrow> (\<forall>s\<in>set ss. sampleForm s) \<and> length ss \<le> 6"
    using usage_form [of "''memory''"] usage_form [of "''swap''"] by (auto simp: memoryCollect_def Let_def result_bind_def split: sum.splits option.splits if_splits)
qed

lemma loadSamples_names: "loadSamples pf names fs = Inr ss \<Longrightarrow> length ss \<le> length names \<and> (\<forall>s\<in>set ss. \<exists>n\<in>set names. \<exists>v. s = plain n v)"
proof (induction pf names fs arbitrary: ss rule: loadSamples.induct)
  case (1 pf name names f fs)
  then show ?case by (fastforce simp: result_bind_def split: option.splits sum.splits)
qed auto

lemma loadCollect_form: "loadCollect pf rd = Inr ss \<Longrightarrow> (\<forall>s\<in>set ss. sampleForm s) \<and> length ss \<le> 3"
proof -
  have n: "nameRe ''load.avg_1m''" "nameRe ''load.avg_5m''" "nameRe ''load.avg_15m''"
    "\<not> hasSuffix ''load.avg_1m'' ''_percent''" "\<not> hasSuffix ''load.avg_5m'' ''_percent''" "\<not> hasSuffix ''load.avg_15m'' ''_percent''" by code_simp+
  assume "loadCollect pf rd = Inr ss"
  then obtain raw where "loadSamples pf [''load.avg_1m'', ''load.avg_5m'', ''load.avg_15m''] (goFields raw) = Inr ss"
    by (auto simp: loadCollect_def result_bind_def split: sum.splits if_splits)
  from loadSamples_names [OF this] show ?thesis by (auto intro!: plain_other n)
qed

lemma uptimeCollect_form: "uptimeCollect pf rd = Inr ss \<Longrightarrow> (\<forall>s\<in>set ss. sampleForm s) \<and> length ss = 1"
proof -
  have n: "nameRe ''uptime.seconds''" "\<not> hasSuffix ''uptime.seconds'' ''_percent''" by code_simp+
  show "uptimeCollect pf rd = Inr ss \<Longrightarrow> (\<forall>s\<in>set ss. sampleForm s) \<and> length ss = 1"
    by (auto simp: uptimeCollect_def result_bind_def intro!: plain_other n split: sum.splits if_splits option.splits)
qed

lemma parsePressureFile_form:
  assumes "pre \<in> {''pressure.cpu'', ''pressure.memory'', ''pressure.io''}"
  shows "\<forall>s\<in>set (parsePressureFile pf raw pre). sampleForm s"
proof -
  have "nameRe (p @ x)" if "p \<in> {''pressure.cpu'', ''pressure.memory'', ''pressure.io''}" "x \<in> {''.some_percent'', ''.full_percent''}" for p x
    using that by (elim insertE emptyE; simp only:) code_simp+
  then show ?thesis using assms
    by (auto simp: parsePressureFile_def pressureLine_def map_filter_def Let_def intro!: plain_percent split: option.splits if_splits)
qed

lemma pressureCollect_form: "pressureCollect pf rdo = Inr ss \<Longrightarrow> \<forall>s\<in>set ss. sampleForm s"
proof -
  assume a: "pressureCollect pf rdo = Inr ss"
  let ?srcs = "[(''pressure/cpu'', ''pressure.cpu''), (''pressure/memory'', ''pressure.memory''), (''pressure/io'', ''pressure.io'')]"
  have step: "\<forall>s\<in>set (fst (pressureFold pf rdo src acc)). sampleForm s" if "\<forall>s\<in>set (fst acc). sampleForm s" "src \<in> set ?srcs" for src acc
  proof -
    have "snd src \<in> {''pressure.cpu'', ''pressure.memory'', ''pressure.io''}" using that(2) by auto
    from parsePressureFile_form [OF this] show ?thesis using that(1)
      by (auto simp: pressureFold_def Let_def case_prod_unfold split: sum.splits option.splits)
  qed
  have "\<forall>s\<in>set (fst (fold (pressureFold pf rdo) xs acc)). sampleForm s" if "\<forall>s\<in>set (fst acc). sampleForm s" "set xs \<subseteq> set ?srcs" for xs acc
    using that
  proof (induction xs arbitrary: acc)
    case (Cons x xs)
    then show ?case using step [of acc x] by simp
  qed simp
  from this [of "([], None)" ?srcs] show ?thesis
    using a by (auto simp: pressureCollect_def simp del: fold_simps split: prod.splits option.splits if_splits)
qed

lemma mountLoop_form:
  "(\<forall>m\<in>set (mountLoop n seen ls). length (mo_device m) \<le> 128 \<and> length (mo_point m) \<le> 128 \<and> mo_device m \<notin> set seen) \<and>
   distinct (map mo_device (mountLoop n seen ls)) \<and> (n < 16 \<longrightarrow> n + length (mountLoop n seen ls) \<le> 16)"
proof (induction n seen ls rule: mountLoop.induct)
  case (2 n seen line rest)
  define fs where "fs = goFields line"
  show ?case
  proof (cases "length fs < 3 \<or> fs ! 2 \<notin> set realFilesystems \<or> hd fs \<in> set seen \<or> 128 < length (unescapeMount (fs ! 1)) \<or> 128 < length (hd fs)")
    case True
    then have "mountLoop n seen (line # rest) = mountLoop n seen rest" by (auto simp: fs_def Let_def)
    then show ?thesis using "2.IH"(1,2) True unfolding fs_def by metis
  next
    case False
    then have eq: "mountLoop n seen (line # rest) =
        \<lparr>mo_device = hd fs, mo_point = unescapeMount (fs ! 1)\<rparr> # (if Suc n = maxMounts then [] else mountLoop (Suc n) (hd fs # seen) rest)"
      by (auto simp: fs_def Let_def)
    have "Suc n \<noteq> maxMounts \<Longrightarrow>
      (\<forall>m\<in>set (mountLoop (Suc n) (hd fs # seen) rest). length (mo_device m) \<le> 128 \<and> length (mo_point m) \<le> 128 \<and> mo_device m \<notin> set (hd fs # seen)) \<and>
      distinct (map mo_device (mountLoop (Suc n) (hd fs # seen) rest)) \<and> (Suc n < 16 \<longrightarrow> Suc n + length (mountLoop (Suc n) (hd fs # seen) rest) \<le> 16)"
      using "2.IH"(3) False unfolding fs_def by blast
    then show ?thesis using False unfolding eq by (auto simp: maxMounts_def)
  qed
qed auto

lemma diskSamples_form:
  "length (mo_device m) \<le> 128 \<Longrightarrow> length (mo_point m) \<le> 128 \<Longrightarrow> (\<forall>s\<in>set (diskSamples m st). sampleForm s) \<and> length (diskSamples m st) \<le> 3"
proof -
  have n: "nameRe ''disk.total_bytes''" "nameRe ''disk.used_bytes''" "nameRe ''disk.used_percent''"
    "\<not> hasSuffix ''disk.total_bytes'' ''_percent''" "\<not> hasSuffix ''disk.used_bytes'' ''_percent''" by code_simp+
  show "length (mo_device m) \<le> 128 \<Longrightarrow> length (mo_point m) \<le> 128 \<Longrightarrow> (\<forall>s\<in>set (diskSamples m st). sampleForm s) \<and> length (diskSamples m st) \<le> 3"
    by (auto simp: diskSamples_def sampleForm_def Let_def n label_keys)
qed

lemma diskCollect_form: "diskCollect statfs rd = Inr ss \<Longrightarrow> (\<forall>s\<in>set ss. sampleForm s) \<and> length ss \<le> 48"
proof -
  assume a: "diskCollect statfs rd = Inr ss"
  then obtain raw where f: "fst (fold (diskStep statfs) (parseMounts raw) ([], None)) = ss"
    by (auto simp: diskCollect_def result_bind_def split: sum.splits prod.splits option.splits if_splits; metis fst_conv)
  note M = mountLoop_form [of 0 "[]" "splitOn (CHR ''\<newline>'') raw", folded parseMounts_def]
  have "(\<forall>s\<in>set (fst (fold (diskStep statfs) ms acc)). sampleForm s) \<and> length (fst (fold (diskStep statfs) ms acc)) \<le> length (fst acc) + 3 * length ms"
    if "\<forall>s\<in>set (fst acc). sampleForm s" "\<forall>m\<in>set ms. length (mo_device m) \<le> 128 \<and> length (mo_point m) \<le> 128" for ms acc
    using that
  proof (induction ms arbitrary: acc)
    case (Cons m ms)
    have "(\<forall>s\<in>set (fst (diskStep statfs m acc)). sampleForm s) \<and> length (fst (diskStep statfs m acc)) \<le> length (fst acc) + 3"
      using Cons.prems diskSamples_form [of m] by (auto simp: diskStep_def split: sum.splits)
    then show ?case using Cons.IH [of "diskStep statfs m acc"] Cons.prems(2) by fastforce
  qed simp
  from this [of "([], None)" "parseMounts raw"] show ?thesis using M f by auto
qed

lemma networkCollect_form: "networkCollect rd = Inr ss \<Longrightarrow> (\<forall>s\<in>set ss. sampleForm s) \<and> length ss \<le> 64"
proof -
  assume a: "networkCollect rd = Inr ss"
  have n: "nameRe ''network.rx_bytes_total''" "nameRe ''network.tx_bytes_total''"
    "\<not> hasSuffix ''network.rx_bytes_total'' ''_percent''" "\<not> hasSuffix ''network.tx_bytes_total'' ''_percent''" by code_simp+
  define two where "two = (\<lambda>rows :: (string \<times> 64 word \<times> 64 word) list. \<lambda>name.
     let c = the (map_of (rev rows) name); ls = [(''interface'', name)]
     in [\<lparr>s_name = ''network.rx_bytes_total'', s_value = Fin (ofWord (fst c)), s_labels = ls\<rparr>,
         \<lparr>s_name = ''network.tx_bytes_total'', s_value = Fin (ofWord (snd c)), s_labels = ls\<rparr>])"
  obtain raw rows where r: "rows = List.map_filter networkLine (splitOn (CHR ''\<newline>'') raw)"
    and ss: "ss = concat (map (two rows) (take maxInterfaces (sort (remdups (map fst rows)))))"
    using a by (auto simp: networkCollect_def result_bind_def Let_def two_def split: sum.splits if_splits)
  have line: "length (fst x) \<le> 64" if "networkLine l = Some x" for l x
    using that by (auto simp: networkLine_def Let_def case_prod_unfold split: option.splits if_splits)
  then have short: "length name \<le> 64" if "name \<in> fst ` set rows" for name
    using that unfolding r map_filter_def by force
  have "sampleForm s" if s: "s \<in> set ss" for s
  proof -
    obtain name where name: "name \<in> fst ` set rows" "s \<in> set (two rows name)" using s by (auto simp: ss dest: in_set_takeD)
    then show ?thesis using short [of name] by (auto simp: two_def sampleForm_def Let_def n label_keys)
  qed
  moreover have "length (concat (map (two rows) xs)) = 2 * length xs" for xs by (induction xs) (simp_all add: two_def Let_def)
  then have "length ss \<le> 64" by (simp add: ss maxInterfaces_def)
  ultimately show ?thesis by blast
qed

text \<open>The CPU shares: when no sum of counters wraps, no difference does, and the usage is the busy part of
  the interval, never clamped.\<close>

lemma unat_sum_list: "sum_list (map unat ws) < 2 ^ 64 \<Longrightarrow> unat (sum_list (ws :: 64 word list)) = sum_list (map unat ws)"
proof (induction ws)
  case (Cons w ws)
  then have "unat (sum_list ws) = sum_list (map unat ws)" by simp
  then show ?case using Cons.prems by (simp add: unat_word_ariths)
qed simp

lemma ofWord_diff: "b \<le> a \<Longrightarrow> ofWord (a - b) = ofWord a - ofWord b"
  by (simp add: ofWord_def unat_sub word_le_nat_alt of_nat_diff)

definition busy :: "64 word list \<Rightarrow> nat" where
  "busy vs = sum_list (map unat (take 8 vs)) - unat (vs ! 3) - unat (vs ! 4)"

definition allTime :: "64 word list \<Rightarrow> nat" where
  "allTime vs = sum_list (map unat (take 8 vs))"

lemma parseCPULine_fields:
  assumes "parseCPULine raw = Inr k"
  shows "4 \<le> length (cc_values k) \<and> cc_total k = sum_list (take 8 (cc_values k)) \<and>
    cc_idle k = cc_values k ! 3 + (if 4 < length (cc_values k) then cc_values k ! 4 else 0)"
proof -
  have len: "length vs = length fs" if "parseUints fs = Some vs" for fs vs
    using that by (induction fs arbitrary: vs) (auto split: option.splits)
  obtain fs where "5 \<le> length fs" "cpuLine fs = Inr k"
    using assms by (auto simp: parseCPULine_def split: option.splits dest: find_SomeD)
  then show ?thesis using len [of "tl fs"] by (auto simp: cpuLine_def split: option.splits)
qed

lemma five: "5 \<le> length xs \<Longrightarrow> \<exists>a b c d e r. xs = a # b # c # d # e # r"
  by (auto simp: numeral_eq_Suc Suc_le_length_iff)

lemma list_all2_sum: "list_all2 (\<le>) xs ys \<Longrightarrow> sum_list (map unat (take n xs)) \<le> sum_list (map unat (take n (ys :: 64 word list)))"
proof (induction xs ys arbitrary: n rule: list_all2_induct)
  case (Cons x xs y ys)
  then show ?case by (cases n) (auto simp: word_le_nat_alt intro: add_mono)
qed simp

lemma idle_exact:
  assumes "5 \<le> length vs" "allTime vs < 2 ^ 64"
  shows "unat (vs ! 3 + vs ! 4) = unat (vs ! 3) + unat (vs ! 4)" "busy vs + (unat (vs ! 3) + unat (vs ! 4)) = allTime vs"
proof -
  obtain a b c d e r where vs: "vs = a # b # c # d # e # r" using five [OF assms(1)] by blast
  have "vs ! 3 = d" "vs ! 4 = e" by (simp_all add: vs)
  moreover have A: "allTime vs = unat a + unat b + unat c + unat d + unat e + sum_list (map unat (take 3 r))" by (simp add: vs allTime_def)
  ultimately show "unat (vs ! 3 + vs ! 4) = unat (vs ! 3) + unat (vs ! 4)" using assms(2) by (simp add: unat_word_ariths)
  show "busy vs + (unat (vs ! 3) + unat (vs ! 4)) = allTime vs" by (simp add: vs busy_def allTime_def)
qed

lemma busy_mono:
  assumes "5 \<le> length vs" "list_all2 (\<le>) vs ws"
  shows "busy vs \<le> busy ws" "unat (vs ! 3) + unat (vs ! 4) \<le> unat (ws ! 3) + unat (ws ! 4)"
proof -
  obtain a b c d e r where vs: "vs = a # b # c # d # e # r" using five [OF assms(1)] by blast
  obtain a' b' c' d' e' r' where ws: "ws = a' # b' # c' # d' # e' # r'" using five [of ws] assms list_all2_lengthD [OF assms(2)] by auto
  have le: "unat a \<le> unat a'" "unat b \<le> unat b'" "unat c \<le> unat c'" "unat d \<le> unat d'" "unat e \<le> unat e'" "list_all2 (\<le>) r r'"
    using assms(2) by (simp_all add: vs ws word_le_nat_alt)
  have B: "busy vs = unat a + unat b + unat c + sum_list (map unat (take 3 r))" "busy ws = unat a' + unat b' + unat c' + sum_list (map unat (take 3 r'))"
    by (simp_all add: vs ws busy_def)
  show "busy vs \<le> busy ws" unfolding B using le(1-3) list_all2_sum [OF le(6), of 3] by linarith
  show "unat (vs ! 3) + unat (vs ! 4) \<le> unat (ws ! 3) + unat (ws ! 4)" using le(4,5) by (simp add: vs ws)
qed

lemma decrease_iff: "length xs = length ys \<Longrightarrow> list_ex (\<lambda>(cur, old). cur < old) (zip ys xs) \<longleftrightarrow> \<not> list_all2 (\<le>) xs (ys :: 64 word list)"
  by (induction xs ys rule: list_induct2) (auto simp: not_le)

text \<open>Two readings of \<^verbatim>\<open>/proc/stat\<close> in a row, with the same columns, at least the five of user, nice, system, idle
  and iowait time, and sums that fit in 64 bits: when a counter went back or no time passed nothing is reported; otherwise
  the first sample is exactly the share of the time that was neither idle nor iowait, between 0 and 100 without the clamp ever
  changing it. The first reading reports nothing.\<close>

lemma cpu_usage_exact:
  assumes "rd1 ''stat'' = Inr raw1" "parseCPULine raw1 = Inr k1" "rd2 ''stat'' = Inr raw2" "parseCPULine raw2 = Inr k2"
    and "5 \<le> length (cc_values k1)" "length (cc_values k2) = length (cc_values k1)"
    and "allTime (cc_values k1) < 2 ^ 64" "allTime (cc_values k2) < 2 ^ 64"
  shows "fst (cpuCollect rd1 cpuStart) = Inr [] \<and>
    (if \<not> list_all2 (\<le>) (cc_values k1) (cc_values k2) \<or> allTime (cc_values k2) \<le> allTime (cc_values k1)
     then fst (cpuCollect rd2 (snd (cpuCollect rd1 cpuStart))) = Inr []
     else \<exists>rest. fst (cpuCollect rd2 (snd (cpuCollect rd1 cpuStart))) =
       Inr (plain ''cpu.usage_percent'' (Fin (100 * (of_nat (busy (cc_values k2)) - of_nat (busy (cc_values k1))) /
              (of_nat (allTime (cc_values k2)) - of_nat (allTime (cc_values k1))))) # rest))"
proof -
  let ?v = "cc_values k1" and ?w = "cc_values k2"
  have len: "5 \<le> length ?w" using assms(5,6) by simp
  note K1 = parseCPULine_fields [OF assms(2)] and K2 = parseCPULine_fields [OF assms(4)]
  have T: "ofWord (cc_total k1) = of_nat (allTime ?v)" "ofWord (cc_total k2) = of_nat (allTime ?w)"
    using K1 K2 assms(7,8) unat_sum_list [of "take 8 ?v"] unat_sum_list [of "take 8 ?w"] by (simp_all add: ofWord_def allTime_def)
  have I: "ofWord (cc_idle k1) = of_nat (unat (?v ! 3) + unat (?v ! 4))" "ofWord (cc_idle k2) = of_nat (unat (?w ! 3) + unat (?w ! 4))"
    using K1 K2 idle_exact(1) [OF assms(5,7)] idle_exact(1) [OF len assms(8)] assms(5) len by (simp_all add: ofWord_def)
  have le: "cc_total k2 \<le> cc_total k1 \<longleftrightarrow> allTime ?w \<le> allTime ?v"
    using T by (metis (mono_tags, lifting) of_nat_le_iff ofWord_def word_le_nat_alt)
  define c1 where "c1 = \<lparr>prevTotal = cc_total k1, prevIdle = cc_idle k1, prev = ?v, primed = True\<rparr>"
  have one: "cpuCollect rd1 cpuStart = (Inr [], c1)"
    using assms(1,2) by (simp add: cpuCollect_def result_bind_def cpuSamples_def cpuStart_def c1_def)
  have two: "fst (cpuCollect rd2 c1) = Inr (cpuSamples c1 k2)" using assms(3,4) by (simp add: cpuCollect_def result_bind_def)
  show ?thesis
  proof (cases "\<not> list_all2 (\<le>) ?v ?w \<or> allTime ?w \<le> allTime ?v")
    case True
    then have "cpuSamples c1 k2 = []" using le decrease_iff [of ?v ?w] assms(6) by (auto simp: cpuSamples_def c1_def)
    then show ?thesis using True one two by simp
  next
    case False
    then have mono: "list_all2 (\<le>) ?v ?w" and lt: "allTime ?v < allTime ?w" by auto
    note E1 = idle_exact(2) [OF assms(5,7)] and E2 = idle_exact(2) [OF len assms(8)] and B = busy_mono [OF assms(5) mono]
    have tot: "ofWord (cc_total k2 - cc_total k1) = (of_nat (allTime ?w) - of_nat (allTime ?v) :: rat)"
      using le lt by (subst ofWord_diff) (simp_all add: T)
    have "cc_idle k1 \<le> cc_idle k2"
      using B(2) I by (metis (mono_tags, lifting) of_nat_le_iff ofWord_def word_le_nat_alt)
    then have idl: "ofWord (cc_idle k2 - cc_idle k1) = (of_nat (unat (?w ! 3) + unat (?w ! 4)) - of_nat (unat (?v ! 3) + unat (?v ! 4)) :: rat)"
      by (subst ofWord_diff) (simp_all add: I)
    let ?d = "of_nat (allTime ?w) - of_nat (allTime ?v) :: rat" and ?b = "of_nat (busy ?w) - of_nat (busy ?v) :: rat"
    have pos: "0 < ?d" using lt by simp
    have sum: "?d = ?b + ofWord (cc_idle k2 - cc_idle k1)"
      unfolding idl E1 [symmetric] E2 [symmetric] by simp
    have "0 \<le> ofWord (cc_idle k2 - cc_idle k1)" unfolding ofWord_def by (rule of_nat_0_le_iff)
    then have bnd: "0 \<le> ?b" "?b \<le> ?d" using B(1) sum by simp_all
    have "100 * (1 - ofWord (cc_idle k2 - cc_idle k1) / ?d) = 100 * ?b / ?d"
      using pos sum by (simp add: field_simps)
    moreover have "clampPercent (100 * ?b / ?d) = 100 * ?b / ?d" using pos bnd by (simp add: clampPercent_def field_simps)
    ultimately have "\<exists>rest. cpuSamples c1 k2 = plain ''cpu.usage_percent'' (Fin (100 * ?b / ?d)) # rest"
      using le lt mono decrease_iff [of ?v ?w] assms(6) tot by (simp add: cpuSamples_def c1_def Let_def)
    then show ?thesis using False one two by auto
  qed
qed

definition demoStat :: "string \<Rightarrow> string" where
  "demoStat x = ''cpu  10 0 5 '' @ x @ '' 5'' @ [CHR ''\<newline>'']"

lemma spaceAt_plain: "33 \<le> byte c \<Longrightarrow> byte c \<le> 126 \<Longrightarrow> spaceAt (c # cs) = 0"
  using spaceSeqs_bytes hasPrefix_hd [of "c # cs"] by (fastforce simp: spaceAt_def find_None_iff split: option.splits dest: find_SomeD)

lemma spaceAt_blank: "spaceAt (CHR '' '' # cs) = 1"
proof -
  have "byte (CHR '' '') = 32" by (simp add: byte_def)
  then have "CHR '' '' = char_of n \<longleftrightarrow> n mod 256 = 32" for n :: nat by (metis byte_char_of char_of_byte mod_mod_trivial)
  then show ?thesis by (simp add: spaceAt_def spaceSeqs_def hasPrefix_def)
qed

lemma cpu_usage_exact_witness:
  "\<exists>rest. fst (cpuCollect (\<lambda>_. Inr (demoStat ''80'')) (snd (cpuCollect (\<lambda>_. Inr (demoStat ''20'')) cpuStart))) =
     Inr (plain ''cpu.usage_percent'' (Fin 0) # rest)"
proof -
  define k :: "64 word \<Rightarrow> cpuCounters" where
    "k = (\<lambda>x. \<lparr>cc_values = [10, 0, 5, x, 5], cc_total = 20 + x, cc_idle = x + 5, cc_hasIOWait = True, cc_hasSteal = False\<rparr>)"
  have p: "parseCPULine (demoStat ''20'') = Inr (k 20)" "parseCPULine (demoStat ''80'') = Inr (k 80)" 
    by (simp_all add: parseCPULine_def demoStat_def goFields_def spaceAt_plain spaceAt_blank byte_def cpuLine_def k_def parseUint64_def isDigit_def)
  show ?thesis
    using cpu_usage_exact [OF refl p(1) refl p(2)] by (simp add: k_def allTime_def busy_def)
qed

end
