(* ===== verification/Regex.thy ===== *)
theory Regex
  imports Prelude
begin

section \<open>Regular expressions\<close>

text \<open>
  The part of Go's \<^verbatim>\<open>regexp\<close> that the agent uses: classes of bytes, sequences, alternatives, greedy
  repetition, groups and the two anchors. A match is found at the leftmost position and, there, the
  first of the matches in order of preference is taken, as \<^verbatim>\<open>FindStringSubmatch\<close> does. Every class
  of the program that reaches beyond ASCII is the complement of an ASCII class, so that matching bytes
  finds the same text as matching runes.
\<close>

datatype regex =
    Cls "char \<Rightarrow> bool"
  | Eps
  | Seq regex regex
  | Alt regex regex
  | Star regex
  | Grp regex
  | Bol
  | Eol

text \<open>A position is whether the text starts here and what is left of it; a match is the groups and the
  position after it.\<close>

type_synonym position = "bool \<times> string"
type_synonym matches = "(string list \<times> position) list"

primrec starIter :: "(position \<Rightarrow> matches) \<Rightarrow> nat \<Rightarrow> position \<Rightarrow> matches" where
  "starIter m 0 st = [([], st)]"
| "starIter m (Suc n) st =
     concat (map (\<lambda>(c1, st1). if length (snd st1) < length (snd st) then map (\<lambda>(c2, st2). (c1 @ c2, st2)) (starIter m n st1) else []) (m st)) @ [([], st)]"

primrec run :: "regex \<Rightarrow> position \<Rightarrow> matches" where
  "run (Cls p) st = (case snd st of [] \<Rightarrow> [] | c # cs \<Rightarrow> if p c then [([], False, cs)] else [])"
| "run Eps st = [([], st)]"
| "run (Seq r s) st = concat (map (\<lambda>(c1, st1). map (\<lambda>(c2, st2). (c1 @ c2, st2)) (run s st1)) (run r st))"
| "run (Alt r s) st = run r st @ run s st"
| "run (Star r) st = starIter (run r) (length (snd st)) st"
| "run (Grp r) st = map (\<lambda>(c, st'). (take (length (snd st) - length (snd st')) (snd st) # c, st')) (run r st)"
| "run Bol st = (if fst st then [([], st)] else [])"
| "run Eol st = (if snd st = [] then [([], st)] else [])"

fun findFrom :: "regex \<Rightarrow> bool \<Rightarrow> string \<Rightarrow> string list option" where
  "findFrom r b s =
     (case run r (b, s) of
        (c, _) # _ \<Rightarrow> Some c
      | [] \<Rightarrow> (case s of [] \<Rightarrow> None | _ # cs \<Rightarrow> findFrom r False cs))"

declare findFrom.simps [simp del]

definition FindStringSubmatch :: "regex \<Rightarrow> string \<Rightarrow> string list option" where
  "FindStringSubmatch r s = findFrom r True s"

definition MatchString :: "regex \<Rightarrow> string \<Rightarrow> bool" where
  "MatchString r s \<longleftrightarrow> FindStringSubmatch r s \<noteq> None"

subsection \<open>Notation for patterns\<close>

definition lit :: "string \<Rightarrow> regex" where
  "lit s = foldr (\<lambda>c. Seq (Cls (\<lambda>x. x = c))) s Eps"

definition seqs :: "regex list \<Rightarrow> regex" where
  "seqs rs = foldr Seq rs Eps"

definition alts :: "regex list \<Rightarrow> regex" where
  "alts rs = foldr Alt (butlast rs) (last rs)"

definition Plus :: "regex \<Rightarrow> regex" where
  "Plus r = Seq r (Star r)"

definition Opt :: "regex \<Rightarrow> regex" where
  "Opt r = Alt r Eps"

definition times :: "nat \<Rightarrow> regex \<Rightarrow> regex" where
  "times n r = seqs (replicate n r)"

definition reSpace :: "char \<Rightarrow> bool" where
  "reSpace c \<longleftrightarrow> c \<in> {CHR 0x09, CHR 0x0A, CHR 0x0C, CHR 0x0D, CHR '' ''}"

definition reDigit :: "char \<Rightarrow> bool" where
  "reDigit c \<longleftrightarrow> CHR ''0'' \<le> c \<and> c \<le> CHR ''9''"

definition reAlpha :: "char \<Rightarrow> bool" where
  "reAlpha c \<longleftrightarrow> (CHR ''a'' \<le> c \<and> c \<le> CHR ''z'') \<or> (CHR ''A'' \<le> c \<and> c \<le> CHR ''Z'')"

definition reWord :: "char \<Rightarrow> bool" where
  "reWord c \<longleftrightarrow> reAlpha c \<or> reDigit c \<or> c = CHR ''_''"

subsection \<open>What a match is\<close>

text \<open>\<open>accepts r b s c b' s'\<close>: at the text \<open>s\<close>, which starts the input if \<open>b\<close>, \<open>r\<close> can match what comes before
  \<open>s'\<close>, with the groups \<open>c\<close>.\<close>

inductive accepts :: "regex \<Rightarrow> bool \<Rightarrow> string \<Rightarrow> string list \<Rightarrow> bool \<Rightarrow> string \<Rightarrow> bool" where
  Cls: "p c \<Longrightarrow> accepts (Cls p) b (c # cs) [] False cs"
| Eps: "accepts Eps b s [] b s"
| Seq: "accepts r b s c1 b1 s1 \<Longrightarrow> accepts r' b1 s1 c2 b2 s2 \<Longrightarrow> accepts (Seq r r') b s (c1 @ c2) b2 s2"
| AltL: "accepts r b s c b1 s1 \<Longrightarrow> accepts (Alt r r') b s c b1 s1"
| AltR: "accepts r' b s c b1 s1 \<Longrightarrow> accepts (Alt r r') b s c b1 s1"
| Star0: "accepts (Star r) b s [] b s"
| StarS: "accepts r b s c1 b1 s1 \<Longrightarrow> length s1 < length s \<Longrightarrow> accepts (Star r) b1 s1 c2 b2 s2 \<Longrightarrow> accepts (Star r) b s (c1 @ c2) b2 s2"
| Grp: "accepts r b s c b1 s1 \<Longrightarrow> s = w @ s1 \<Longrightarrow> accepts (Grp r) b s (w # c) b1 s1"
| Bol: "accepts Bol True s [] True s"
| Eol: "accepts Eol b [] [] b []"

inductive_cases accepts_elims: "accepts (Cls p) b s c b' s'" "accepts Eps b s c b' s'" "accepts (Seq r r') b s c b' s'"
  "accepts (Alt r r') b s c b' s'" "accepts (Grp r) b s c b' s'" "accepts Bol b s c b' s'" "accepts Eol b s c b' s'"

lemma accepts_suffix: "accepts r b s c b' s' \<Longrightarrow> \<exists>w. s = w @ s'"
  by (induction rule: accepts.induct) auto

lemma starIter_sound:
  assumes m: "\<And>st c st'. (c, st') \<in> set (m st) \<Longrightarrow> accepts r (fst st) (snd st) c (fst st') (snd st')"
  shows "(c, st') \<in> set (starIter m n st) \<Longrightarrow> accepts (Star r) (fst st) (snd st) c (fst st') (snd st')"
proof (induction n arbitrary: st c st')
  case 0
  then show ?case by (auto intro: accepts.Star0)
next
  case (Suc n)
  then consider "c = []" "st' = st"
    | c1 st1 c2 where "(c1, st1) \<in> set (m st)" "length (snd st1) < length (snd st)" "(c2, st') \<in> set (starIter m n st1)" "c = c1 @ c2"
    by (auto split: if_splits)
  then show ?case
  proof cases
    case 1
    then show ?thesis by (simp add: accepts.Star0)
  next
    case 2
    then show ?thesis using m Suc.IH accepts.StarS by blast
  qed
qed

lemma run_sound: "(c, st') \<in> set (run r st) \<Longrightarrow> accepts r (fst st) (snd st) c (fst st') (snd st')"
proof (induction r arbitrary: c st st')
  case (Cls p)
  then obtain x xs where "snd st = x # xs" "p x" "c = []" "st' = (False, xs)" by (cases "snd st") (auto split: if_splits)
  then show ?case by (simp add: accepts.Cls)
next
  case (Seq r s)
  then obtain c1 st1 c2 where "(c1, st1) \<in> set (run r st)" "(c2, st') \<in> set (run s st1)" "c = c1 @ c2" by auto
  then show ?case using Seq.IH accepts.Seq by blast
next
  case (Alt r s)
  then show ?case by (auto intro: accepts.AltL accepts.AltR)
next
  case (Star r)
  then show ?case using starIter_sound [of "run r" r] by auto
next
  case (Grp r)
  then obtain c' where c: "(c', st') \<in> set (run r st)" "c = take (length (snd st) - length (snd st')) (snd st) # c'" by auto
  have a: "accepts r (fst st) (snd st) c' (fst st') (snd st')" using Grp.IH c(1) by blast
  from accepts_suffix [OF this] obtain w where "snd st = w @ snd st'" by blast
  then show ?case using a by (simp add: c(2) accepts.Grp)
qed (auto intro: accepts.intros)

lemma findFrom_sound: "findFrom r b s = Some c \<Longrightarrow> \<exists>b' s' b'' s''. accepts r b' s' c b'' s'' \<and> (\<exists>w. s = w @ s') \<and> (b' \<longrightarrow> b)"
proof (induction s arbitrary: b)
  case Nil
  then obtain st where "(c, st) \<in> set (run r (b, []))" by (subst (asm) findFrom.simps) (auto split: list.splits)
  from run_sound [OF this] show ?case by auto
next
  case (Cons x xs)
  show ?case
  proof (cases "run r (b, x # xs)")
    case Nil
    then have "findFrom r False xs = Some c" using Cons.prems by (subst (asm) findFrom.simps) simp
    from Cons.IH [OF this] show ?thesis by (metis append_Cons)
  next
    case (Cons y ys)
    then have "(c, snd y) \<in> set (run r (b, x # xs))" using \<open>findFrom r b (x # xs) = Some c\<close> by (subst (asm) findFrom.simps) (auto split: prod.splits)
    from run_sound [OF this] show ?thesis by auto
  qed
qed

lemma FindStringSubmatch_sound: "FindStringSubmatch r s = Some c \<Longrightarrow> \<exists>b' s' b'' s''. accepts r b' s' c b'' s'' \<and> (\<exists>w. s = w @ s')"
  unfolding FindStringSubmatch_def by (drule findFrom_sound) blast

text \<open>A run of a class holds only members of the class.\<close>

lemma accepts_StarCls: "accepts r b s c b' s' \<Longrightarrow> r = Star (Cls p) \<Longrightarrow> c = [] \<and> (\<exists>w. s = w @ s' \<and> list_all p w)"
proof (induction rule: accepts.induct)
  case (StarS r b s c1 b1 s1 c2 b2 s2)
  then show ?case by (auto elim!: accepts_elims)
qed auto

lemma accepts_PlusCls:
  assumes "accepts (Plus (Cls p)) b s c b' s'"
  shows "c = [] \<and> (\<exists>w. s = w @ s' \<and> w \<noteq> [] \<and> list_all p w)"
  using assms unfolding Plus_def
  by (auto elim!: accepts_elims dest!: accepts_StarCls)

lemma accepts_lit: "accepts (lit t) b s c b' s' \<Longrightarrow> c = [] \<and> s = t @ s'"
  unfolding lit_def by (induction t arbitrary: b s c) (auto elim!: accepts_elims)

end
