(* ===== verification/Collect_Logs.thy ===== *)
theory Collect_Logs
  imports Collect Regex
begin

section \<open>The event and check collectors of the agent\<close>

text \<open>
  The collectors of \<^verbatim>\<open>internal/agent/collect\<close> that follow logs: \<^verbatim>\<open>journald.go\<close>, \<^verbatim>\<open>fail2ban.go\<close> and
  \<^verbatim>\<open>docker_logs.go\<close>, with the classification of \<^verbatim>\<open>log_level.go\<close> and the filter of
  \<^verbatim>\<open>healthcheck_filter.go\<close>. The lines the subprocesses write and the answers of the Docker daemon are
  inputs; \<^verbatim>\<open>json.Unmarshal\<close> is a parameter. The goroutines that follow a log take part as steps.
\<close>

record logEvent =
  ev_ts :: time
  ev_level :: string
  ev_message :: string
  ev_labels :: labels

definition maxEventMessage :: nat where "maxEventMessage = 2048"

definition truncateMessage :: "string \<Rightarrow> string" where
  "truncateMessage s = (if length s \<le> maxEventMessage then s else take maxEventMessage s)"

text \<open>\<^verbatim>\<open>strconv.ParseInt(s, 10, 64)\<close> and \<^verbatim>\<open>strconv.Atoi\<close>.\<close>

definition parseInt64 :: "string \<Rightarrow> int option" where
  "parseInt64 s =
     (let neg = hasPrefix s ''-''; ds = (if neg \<or> hasPrefix s ''+'' then tl s else s)
      in if ds = [] then None
         else case parseDigits 0 ds of
                None \<Rightarrow> None
              | Some n \<Rightarrow>
                  if neg then (if n \<le> 2 ^ 63 then Some (- int n) else None)
                  else (if n < 2 ^ 63 then Some (int n) else None))"

subsection \<open>Severity (log\_level.go)\<close>

definition slogLogLevel :: regex where
  "slogLogLevel = seqs [Bol, lit ''time='', Plus (Cls (\<lambda>c. \<not> reSpace c)), Plus (Cls reSpace), lit ''level='',
     Grp (Plus (Cls (\<lambda>c. \<not> reSpace c))), Plus (Cls reSpace), lit ''msg='']"

definition zapLogLevel :: regex where
  "zapLogLevel = seqs [Bol, Plus (Cls (\<lambda>c. \<not> reSpace c)), lit [CHR 0x09], Grp (Plus (Cls reAlpha)), lit [CHR 0x09],
     Plus (Cls (\<lambda>c. c \<noteq> CHR 0x09)), lit [CHR 0x09]]"

definition postgresLogLevel :: regex where
  "postgresLogLevel =
     (let d = Cls reDigit
      in seqs [Bol, times 4 d, lit ''-'', times 2 d, lit ''-'', times 2 d, lit '' '', times 2 d, lit '':'', times 2 d, lit '':'', times 2 d,
           Opt (seqs [lit ''.'', Plus d]), lit '' '', Plus (Cls (\<lambda>c. c \<noteq> CHR '' '')), lit '' ['', Plus d, lit ''] '',
           Grp (Plus (Cls reAlpha)), lit '':''])"

definition uvicornLogLevel :: regex where
  "uvicornLogLevel = seqs [Bol, Grp (Plus (Cls reAlpha)), lit '':'']"

definition normalizeLogLevel :: "(string \<Rightarrow> string) \<Rightarrow> string \<Rightarrow> string option" where
  "normalizeLogLevel uni level =
     (let l = toLower uni level
      in if l \<in> {''debug'', ''info'', ''notice'', ''log''} then Some ''info''
         else if l \<in> {''warn'', ''warning''} then Some ''warn''
         else if l \<in> {''error'', ''fatal'', ''dpanic''} then Some ''error''
         else if l \<in> {''panic'', ''critical''} then Some ''critical'' else None)"

text \<open>\<open>jsonFields line\<close> is what \<^verbatim>\<open>json.Unmarshal\<close> makes of a line that is a JSON object: for a key that is there,
  the string its value decodes to, if it does.\<close>

type_synonym jsonFields = "string \<Rightarrow> (string \<Rightarrow> string option option) option"

definition jsonLogLevel :: "(string \<Rightarrow> string) \<Rightarrow> jsonFields \<Rightarrow> string \<Rightarrow> string option" where
  "jsonLogLevel uni js line =
     (case js line of
        None \<Rightarrow> None
      | Some m \<Rightarrow>
          let look = (\<lambda>key. case m key of Some (Some v) \<Rightarrow> normalizeLogLevel uni v | _ \<Rightarrow> None)
          in (case look ''level'' of Some l \<Rightarrow> Some l | None \<Rightarrow> look ''severity''))"

fun patternLevel :: "(string \<Rightarrow> string) \<Rightarrow> string \<Rightarrow> regex list \<Rightarrow> string option" where
  "patternLevel uni line [] = None"
| "patternLevel uni line (r # rs) =
     (case FindStringSubmatch r line of
        Some [g] \<Rightarrow> (case normalizeLogLevel uni g of Some l \<Rightarrow> Some l | None \<Rightarrow> patternLevel uni line rs)
      | _ \<Rightarrow> patternLevel uni line rs)"

definition dockerLogLevel :: "(string \<Rightarrow> string) \<Rightarrow> jsonFields \<Rightarrow> string \<Rightarrow> bool \<Rightarrow> string" where
  "dockerLogLevel uni js line stderr =
     (case jsonLogLevel uni js line of
        Some l \<Rightarrow> l
      | None \<Rightarrow>
          (case patternLevel uni line [slogLogLevel, zapLogLevel, postgresLogLevel, uvicornLogLevel] of
             Some l \<Rightarrow> l
           | None \<Rightarrow> if stderr then ''warn'' else ''info''))"

subsection \<open>Routine health checks (healthcheck\_filter.go)\<close>

definition quote :: regex where "quote = lit [CHR 0x22]"

definition accessLogRe :: regex where
  "accessLogRe = seqs [quote, alts [lit ''GET'', lit ''HEAD''], Plus (Cls reSpace), Grp (Plus (Cls (\<lambda>c. \<not> reSpace c))), Plus (Cls reSpace),
     lit ''HTTP/'', Cls reDigit, lit ''.'', Cls reDigit, quote, Plus (Cls reSpace), Grp (times 3 (Cls reDigit))]"

definition jsonPathRe :: regex where
  "jsonPathRe = seqs [quote, lit ''path'', quote, Star (Cls reSpace), lit '':'', Star (Cls reSpace), quote,
     Grp (Star (Cls (\<lambda>c. c \<noteq> CHR 0x22))), quote]"

definition jsonStatusRe :: regex where
  "jsonStatusRe = seqs [quote, lit ''status'', Opt (lit ''_code''), quote, Star (Cls reSpace), lit '':'', Star (Cls reSpace),
     Grp (times 3 (Cls reDigit))]"

definition anyCase :: "string \<Rightarrow> regex" where
  "anyCase s = foldr (\<lambda>c. Seq (Cls (\<lambda>x. lowerAscii x = c))) s Eps"

definition healthPathRe :: regex where
  "healthPathRe = seqs [lit ''/'', Grp (alts [anyCase ''health'', anyCase ''healthz'', anyCase ''ready'']), Grp (alts [lit ''/'', Eol, lit ''?''])]"

definition isSuccessStatus :: "string \<Rightarrow> bool" where
  "isSuccessStatus status \<longleftrightarrow> length status = 3 \<and> hd status = CHR ''2''"

definition isRoutineHealthCheck :: "string \<Rightarrow> bool" where
  "isRoutineHealthCheck line =
     (case FindStringSubmatch accessLogRe line of
        Some [p, st] \<Rightarrow> MatchString healthPathRe p \<and> isSuccessStatus st
      | _ \<Rightarrow>
          (case (FindStringSubmatch jsonPathRe line, FindStringSubmatch jsonStatusRe line) of
             (Some [p], Some [st]) \<Rightarrow> MatchString healthPathRe p \<and> isSuccessStatus st
           | _ \<Rightarrow> False))"

subsection \<open>Followers: what Journald and Fail2banEvents share\<close>

text \<open>The buffer the reading goroutine fills and the first failure, which is kept.\<close>

record follower =
  fo_buf :: "logEvent list"
  fo_failed :: "error option"

definition newFollower :: follower where
  "newFollower = \<lparr>fo_buf = [], fo_failed = None\<rparr>"

definition setFailed :: "error \<Rightarrow> follower \<Rightarrow> follower" where
  "setFailed e f = (if fo_failed f = None then f\<lparr>fo_failed := Some e\<rparr> else f)"

definition readLine :: "(string \<Rightarrow> logEvent option) \<Rightarrow> string \<Rightarrow> follower \<Rightarrow> follower" where
  "readLine parse line f = (case parse line of None \<Rightarrow> f | Some ev \<Rightarrow> f\<lparr>fo_buf := fo_buf f @ [ev]\<rparr>)"

definition followerCollect :: "follower \<Rightarrow> logEvent list result \<times> follower" where
  "followerCollect f =
     (case fo_failed f of
        Some e \<Rightarrow> (Inl e, f)
      | None \<Rightarrow> (Inr (fo_buf f), f\<lparr>fo_buf := []\<rparr>))"

subsection \<open>Journald (journald.go)\<close>

record journaldLine =
  jl_message :: string
  jl_priority :: string
  jl_unit :: string
  jl_realTime :: string
  jl_container :: string
  jl_identifier :: string

definition sourceUnit :: "journaldLine \<Rightarrow> string" where
  "sourceUnit l = (if jl_unit l \<noteq> [] then jl_unit l else jl_identifier l)"

definition journaldLevel :: "string \<Rightarrow> string" where
  "journaldLevel priority =
     (case parseInt64 priority of
        None \<Rightarrow> ''info''
      | Some n \<Rightarrow> if n \<le> 3 then ''error'' else if n = 4 then ''warn'' else ''info'')"

definition journaldEvent :: "(string \<Rightarrow> journaldLine option) \<Rightarrow> time \<Rightarrow> string \<Rightarrow> logEvent option" where
  "journaldEvent unmarshal now raw =
     (case unmarshal raw of
        None \<Rightarrow> None
      | Some l \<Rightarrow>
          if jl_container l \<noteq> [] then None
          else if isRoutineHealthCheck (jl_message l) then None
          else Some \<lparr>ev_ts = (case parseInt64 (jl_realTime l) of Some us \<Rightarrow> us * 1000 | None \<Rightarrow> now),
                     ev_level = journaldLevel (jl_priority l), ev_message = truncateMessage (jl_message l),
                     ev_labels = (if sourceUnit l \<noteq> [] then [(''unit'', sourceUnit l)] else [])\<rparr>)"

subsection \<open>Fail2ban (fail2ban.go)\<close>

definition fail2banLineRe :: regex where
  "fail2banLineRe = seqs [lit ''NOTICE'', Plus (Cls reSpace), lit ''['', Grp (Plus (Cls (\<lambda>c. reWord c \<or> c = CHR ''.'' \<or> c = CHR ''-''))), lit '']'',
     Plus (Cls reSpace), Grp (alts [lit ''Ban'', lit ''Unban'']), Plus (Cls reSpace), Grp (Plus (Cls (\<lambda>c. \<not> reSpace c)))]"

definition fail2banEvent :: "string \<Rightarrow> logEvent option" where
  "fail2banEvent line =
     (case FindStringSubmatch fail2banLineRe line of
        Some [jail, action, ip] \<Rightarrow>
          Some \<lparr>ev_ts = zeroTime, ev_level = (if action = ''Unban'' then ''info'' else ''warn''),
                ev_message = action @ '' '' @ ip, ev_labels = [(''jail'', jail)]\<rparr>
      | _ \<Rightarrow> None)"

definition jailListRe :: regex where
  "jailListRe = seqs [lit ''Jail list:'', Star (Cls reSpace), Grp (Star (Cls (\<lambda>c. c \<noteq> CHR 0x0A)))]"

definition bannedCountRe :: regex where
  "bannedCountRe = seqs [lit ''Currently banned:'', Star (Cls reSpace), Grp (Plus (Cls reDigit))]"

definition nameChar :: "char \<Rightarrow> bool" where
  "nameChar c \<longleftrightarrow> isLower c \<or> isDigit c \<or> c = CHR ''_'' \<or> c = CHR ''.''"

text \<open>The loop over the runes of a name; a byte that is no part of a rune is one of its own.\<close>

function safeRunes :: "string \<Rightarrow> string" where
  "safeRunes s =
     (case s of
        [] \<Rightarrow> []
      | c # cs \<Rightarrow>
          if byte c < 128 then (if nameChar c then c else CHR ''_'') # safeRunes cs
          else CHR ''_'' # safeRunes (drop (max 1 (runeWidth (map byte s))) s))"
  by pat_completeness auto
termination by (relation "measure length") auto

declare safeRunes.simps [simp del]

definition checkNameSafe :: "(string \<Rightarrow> string) \<Rightarrow> string \<Rightarrow> string" where
  "checkNameSafe uni jail =
     (let safe = safeRunes (toLower uni jail)
      in if safe = [] \<or> \<not> isLower (hd safe) then ''j_'' @ safe else safe)"

datatype metaValue = MetaInt int | MetaText string

record agentCheck =
  ac_name :: string
  ac_status :: string
  ac_meta :: "(string \<times> metaValue) list"

text \<open>\<^verbatim>\<open>Atoi\<close> of a run of digits: out of range it reports the largest value beside the error, which is dropped.\<close>

definition atoiOrMax :: "string \<Rightarrow> int" where
  "atoiOrMax ds = (case parseInt64 ds of Some n \<Rightarrow> n | None \<Rightarrow> 2 ^ 63 - 1)"

definition jailCheck :: "(string \<Rightarrow> string) \<Rightarrow> (string \<Rightarrow> string result) \<Rightarrow> string \<Rightarrow> agentCheck option" where
  "jailCheck uni client jail0 =
     (let jail = trimSpace jail0
      in if jail = [] then None
         else case client jail of
                Inl _ \<Rightarrow> None
              | Inr out \<Rightarrow>
                  let banned = (case FindStringSubmatch bannedCountRe out of Some [g] \<Rightarrow> atoiOrMax g | _ \<Rightarrow> 0)
                  in Some \<lparr>ac_name = ''fail2ban.jail.'' @ checkNameSafe uni jail, ac_status = ''ok'',
                           ac_meta = [(''currently_banned'', MetaInt banned), (''jail'', MetaText jail)]\<rparr>)"

text \<open>\<open>status\<close> is the output of \<^verbatim>\<open>fail2ban-client status\<close>, \<open>client jail\<close> that for one jail.\<close>

definition fail2banStatusCollect :: "(string \<Rightarrow> string) \<Rightarrow> string result \<Rightarrow> (string \<Rightarrow> string result) \<Rightarrow> agentCheck list result" where
  "fail2banStatusCollect uni status client =
     (case status of
        Inl e \<Rightarrow> Inl (OtherError ''fail2ban: status'')
      | Inr out \<Rightarrow>
          (case FindStringSubmatch jailListRe out of
             Some [g] \<Rightarrow> Inr (List.map_filter (jailCheck uni client) (splitOn (CHR '','') g))
           | _ \<Rightarrow> Inl (OtherError ''fail2ban: could not parse jail list'')))"

subsection \<open>Container logs (docker\_logs.go)\<close>

definition frameSize :: "string \<Rightarrow> nat" where
  "frameSize h = ((byte (h ! 4) * 256 + byte (h ! 5)) * 256 + byte (h ! 6)) * 256 + byte (h ! 7)"

text \<open>The stream as the bytes until its end, the lines as they are emitted.\<close>

function demux :: "(bool \<Rightarrow> string) \<Rightarrow> string \<Rightarrow> (bool \<times> string) list" where
  "demux pending s =
     (if length s < 8 then []
      else
        let stderr = (byte (hd s) = 2); size = frameSize s; rest = drop 8 s
        in if length rest < size then []
           else
             let lines = splitOn (CHR 0x0A) (pending stderr @ take size rest)
             in map (Pair stderr) (filter (\<lambda>l. l \<noteq> []) (butlast lines)) @ demux (pending(stderr := last lines)) (drop size rest))"
  by pat_completeness auto
termination by (relation "measure (length \<circ> snd)") auto

declare demux.simps [simp del]

definition demuxDockerLogStream :: "string \<Rightarrow> (bool \<times> string) list" where
  "demuxDockerLogStream s = demux (\<lambda>_. []) s"

record dockerLogs =
  dl_buf :: "logEvent list"
  dl_tailers :: "string list"
  dl_running :: "string list"
  dl_failed :: "error option"

text \<open>The list the daemon answers with. A tailer that is stopped may still hand over what it has read, so that the
  running ones are kept apart from the table; a listed container gets a tailer when the table has none of it.\<close>

definition dlReconcile :: "string list result \<Rightarrow> dockerLogs \<Rightarrow> dockerLogs" where
  "dlReconcile listed d =
     (case listed of
        Inl e \<Rightarrow> d\<lparr>dl_failed := Some e\<rparr>
      | Inr ids \<Rightarrow>
          let new = filter (\<lambda>i. i \<notin> set (dl_tailers d)) (remdups ids)
          in d\<lparr>dl_failed := None, dl_running := dl_running d @ new,
               dl_tailers := filter (\<lambda>i. i \<in> set ids) (dl_tailers d) @ new\<rparr>)"

text \<open>A line of a container.\<close>

definition dlEmit :: "(string \<Rightarrow> string) \<Rightarrow> jsonFields \<Rightarrow> string \<Rightarrow> bool \<times> string \<Rightarrow> dockerLogs \<Rightarrow> dockerLogs" where
  "dlEmit uni js name l d =
     (if isRoutineHealthCheck (snd l) then d
      else d\<lparr>dl_buf := dl_buf d @ [\<lparr>ev_ts = zeroTime, ev_level = dockerLogLevel uni js (snd l) (fst l),
        ev_message = truncateMessage (snd l), ev_labels = [(''container'', name)]\<rparr>]\<rparr>)"

definition dlEnd :: "string \<Rightarrow> dockerLogs \<Rightarrow> dockerLogs" where
  "dlEnd i d = d\<lparr>dl_running := remove1 i (dl_running d)\<rparr>"

definition dlCollect :: "dockerLogs \<Rightarrow> logEvent list result \<times> dockerLogs" where
  "dlCollect d =
     (case dl_failed d of
        Some e \<Rightarrow> (Inl e, d)
      | None \<Rightarrow> (Inr (dl_buf d), d\<lparr>dl_buf := []\<rparr>))"

definition dlStart :: dockerLogs where
  "dlStart = \<lparr>dl_buf = [], dl_tailers = [], dl_running = [], dl_failed = None\<rparr>"

subsection \<open>Lemmas: lines and frames\<close>

lemma splitOn_not_Nil [simp]: "splitOn c s \<noteq> []"
  by (induction s) (auto split: list.splits)

lemma splitOn_append: "splitOn c (xs @ ys) = butlast (splitOn c xs) @ splitOn c (last (splitOn c xs) @ ys)"
proof (induction xs)
  case (Cons x xs)
  obtain l ls where s: "splitOn c xs = l # ls" by (cases "splitOn c xs") auto
  show ?case
  proof (cases "x = c")
    case True
    then show ?thesis using Cons s by simp
  next
    case False
    then show ?thesis using Cons s by (cases ls) auto
  qed
qed simp

lemma last_splitOn: "c \<notin> set (last (splitOn c s))"
proof (induction s)
  case (Cons x xs)
  obtain l ls where "splitOn c xs = l # ls" by (cases "splitOn c xs") auto
  then show ?case using Cons by (cases ls) auto
qed simp

lemma butlast_splitOn_append:
  "butlast (splitOn c (xs @ ys)) = butlast (splitOn c xs) @ butlast (splitOn c (last (splitOn c xs) @ ys))"
  by (subst splitOn_append) (simp add: butlast_append)

text \<open>The format Docker documents: the stream, three zero bytes, the length of the payload in four bytes and
  the payload. \<open>cutShort\<close> is a text that holds no whole frame.\<close>

definition be32 :: "nat \<Rightarrow> string" where
  "be32 n = [char_of (n div 2 ^ 24), char_of (n div 2 ^ 16), char_of (n div 2 ^ 8), char_of n]"

definition frame :: "bool \<times> string \<Rightarrow> string" where
  "frame f = [char_of (if fst f then 2 else (1 :: nat)), char_of (0 :: nat), char_of (0 :: nat), char_of (0 :: nat)] @ be32 (length (snd f)) @ snd f"

definition cutShort :: "string \<Rightarrow> bool" where
  "cutShort t \<longleftrightarrow> length t < 8 \<or> length t < 8 + frameSize t"

definition streamText :: "bool \<Rightarrow> (bool \<times> string) list \<Rightarrow> string" where
  "streamText e fs = concat (map snd (filter (\<lambda>f. fst f = e) fs))"

lemma be32_value:
  fixes n :: nat
  assumes "n < 2 ^ 32"
  shows "((n div 2 ^ 24 mod 256 * 256 + n div 2 ^ 16 mod 256) * 256 + n div 2 ^ 8 mod 256) * 256 + n mod 256 = n"
proof -
  define a where "a = n div 256"
  define b where "b = a div 256"
  define c where "c = b div 256"
  have q: "n div 2 ^ 8 = a" "n div 2 ^ 16 = b" "n div 2 ^ 24 = c" by (simp_all add: a_def b_def c_def div_mult2_eq [symmetric])
  have "c < 256" using assms by (simp add: q(3) [symmetric] less_mult_imp_div_less)
  then show ?thesis unfolding q using div_mult_mod_eq [of n 256] div_mult_mod_eq [of a 256] div_mult_mod_eq [of b 256]
    by (simp add: a_def [symmetric] b_def [symmetric] c_def [symmetric])
qed

lemma frameSize_frame: "length p < 2 ^ 32 \<Longrightarrow> frameSize (frame (e, p) @ t) = length p"
proof -
  have nth: "([x0, x1, x2, x3] @ [x4, x5, x6, x7] @ r) ! 4 = x4" "([x0, x1, x2, x3] @ [x4, x5, x6, x7] @ r) ! 5 = x5"
    "([x0, x1, x2, x3] @ [x4, x5, x6, x7] @ r) ! 6 = x6" "([x0, x1, x2, x3] @ [x4, x5, x6, x7] @ r) ! 7 = x7" for x0 x1 x2 x3 x4 x5 x6 x7 :: char and r
    by simp_all
  assume "length p < 2 ^ 32"
  from be32_value [OF this] show ?thesis unfolding frameSize_def frame_def be32_def append_assoc nth byte_char_of fst_conv snd_conv .
qed

lemma demux_frame:
  assumes "length p < 2 ^ 32"
  shows "demux pending (frame (e, p) @ t) =
    map (Pair e) (filter (\<lambda>l. l \<noteq> []) (butlast (splitOn (CHR 0x0A) (pending e @ p)))) @ demux (pending(e := last (splitOn (CHR 0x0A) (pending e @ p)))) t"
proof -
  have f: "frame (e, p) @ t = [char_of (if e then 2 else (1 :: nat)), char_of (0 :: nat), char_of (0 :: nat), char_of (0 :: nat)] @ be32 (length p) @ p @ t"
    by (simp add: frame_def)
  have "length (be32 (length p)) = 4" by (simp add: be32_def)
  then have "drop 8 (frame (e, p) @ t) = p @ t" "8 \<le> length (frame (e, p) @ t)" by (simp_all add: f)
  moreover have "byte (hd (frame (e, p) @ t)) = 2 \<longleftrightarrow> e" by (simp add: f)
  ultimately show ?thesis by (subst demux.simps) (simp add: frameSize_frame [OF assms] Let_def not_less [symmetric])
qed

lemma demux_cutShort: "cutShort t \<Longrightarrow> demux pending t = []"
  by (subst demux.simps) (auto simp: cutShort_def Let_def)

lemma demux_frames:
  assumes "\<forall>f\<in>set fs. length (snd f) < 2 ^ 32" "cutShort t" "\<forall>e. CHR 0x0A \<notin> set (pending e)"
  shows "map snd (filter (\<lambda>x. fst x = e) (demux pending (concat (map frame fs) @ t))) =
    filter (\<lambda>l. l \<noteq> []) (butlast (splitOn (CHR 0x0A) (pending e @ streamText e fs)))"
  using assms
proof (induction fs arbitrary: pending)
  case Nil
  then show ?case by (simp add: demux_cutShort streamText_def splitOn_single)
next
  case (Cons f fs)
  obtain e' p where f: "f = (e', p)" by fastforce
  define pending' where "pending' = pending(e' := last (splitOn (CHR 0x0A) (pending e' @ p)))"
  have nl: "\<forall>e. CHR 0x0A \<notin> set (pending' e)" using Cons.prems(3) last_splitOn by (simp add: pending'_def)
  have d: "demux pending (concat (map frame (f # fs)) @ t) =
      map (Pair e') (filter (\<lambda>l. l \<noteq> []) (butlast (splitOn (CHR 0x0A) (pending e' @ p)))) @ demux pending' (concat (map frame fs) @ t)"
    using demux_frame [of p pending e' "concat (map frame fs) @ t"] Cons.prems(1) f by (simp add: pending'_def)
  note IH = Cons.IH [OF _ Cons.prems(2) nl]
  show ?case
  proof (cases "e' = e")
    case True
    have "butlast (splitOn (CHR 0x0A) ((pending e @ p) @ streamText e fs)) =
        butlast (splitOn (CHR 0x0A) (pending e @ p)) @ butlast (splitOn (CHR 0x0A) (pending' e @ streamText e fs))"
      unfolding butlast_splitOn_append [of _ "pending e @ p"] by (simp add: pending'_def True)
    then show ?thesis using IH Cons.prems(1) unfolding d by (simp add: True f streamText_def comp_def)
  next
    case False
    then have pe: "pending' e = pending e" "(e' = e) = False" by (simp_all add: pending'_def)
    have "filter (\<lambda>x. fst x = e) (map (Pair e') xs) = []" for xs :: "string list" using False by (auto simp: filter_empty_conv)
    then show ?thesis using IH Cons.prems(1) unfolding d by (simp add: f streamText_def pe comp_def)
  qed
qed

text \<open>C32 (equivalence). Splitting the multiplexed log stream does not depend on how Docker cut it into frames: for any sequence of
  frames, with or without a last frame that is cut short, the lines emitted for a stream are, in order, the non-empty
  complete lines of that stream's text put together.\<close>

theorem demux_reassembles_lines:
  assumes "\<forall>f\<in>set fs. length (snd f) < 2 ^ 32" "cutShort t"
  shows "map snd (filter (\<lambda>x. fst x = e) (demuxDockerLogStream (concat (map frame fs) @ t))) =
    filter (\<lambda>l. l \<noteq> []) (butlast (splitOn (CHR 0x0A) (streamText e fs)))"
  using demux_frames [OF assms, of "\<lambda>_. []"] by (simp add: demuxDockerLogStream_def)

theorem demux_reassembles_lines_witness:
  "map snd (filter (\<lambda>x. fst x = False) (demuxDockerLogStream (concat (map frame [(False, ''ab''), (True, ''x''), (False, ''c'' @ [CHR 0x0A] @ ''d'')])))) = [''abc'']"
  using demux_reassembles_lines [of "[(False, ''ab''), (True, ''x''), (False, ''c'' @ [CHR 0x0A] @ ''d'')]" "[]" False]
  by (simp add: cutShort_def streamText_def)

subsection \<open>Lemmas: what the followers hand over\<close>

definition eventLevels :: "string set" where
  "eventLevels = {''info'', ''warn'', ''error'', ''critical''}"

lemma truncateMessage_short: "length (truncateMessage s) \<le> 2048"
  by (simp add: truncateMessage_def maxEventMessage_def)

lemma truncateMessage_Nil [simp]: "truncateMessage s = [] \<longleftrightarrow> s = []"
  by (simp add: truncateMessage_def maxEventMessage_def)

lemma normalizeLogLevel_level: "normalizeLogLevel uni l = Some x \<Longrightarrow> x \<in> eventLevels"
  by (auto simp: normalizeLogLevel_def eventLevels_def Let_def split: if_splits)

lemma patternLevel_level: "patternLevel uni line rs = Some x \<Longrightarrow> x \<in> eventLevels"
  by (induction uni line rs rule: patternLevel.induct) (auto split: option.splits list.splits dest: normalizeLogLevel_level)

lemma dockerLogLevel_level: "dockerLogLevel uni js line stderr \<in> eventLevels"
proof -
  have "x \<in> eventLevels" if "jsonLogLevel uni js line = Some x" for x
    using that by (auto simp: jsonLogLevel_def Let_def split: option.splits dest: normalizeLogLevel_level)
  moreover have "''warn'' \<in> eventLevels" "''info'' \<in> eventLevels" by (simp_all add: eventLevels_def)
  ultimately show ?thesis using patternLevel_level by (auto simp: dockerLogLevel_def simp del: patternLevel.simps split: option.splits)
qed

lemma journaldEvent_form:
  assumes "journaldEvent um now raw = Some ev"
  shows "ev_level ev \<in> eventLevels \<and> length (ev_message ev) \<le> 2048 \<and> length (ev_labels ev) \<le> 1"
  using assms truncateMessage_short by (auto simp: journaldEvent_def journaldLevel_def eventLevels_def split: option.splits if_splits)

text \<open>\<open>readBack parse acts\<close>: the actions on a follower are lines read and collections; the outputs of the
  collections come with the follower they leave.\<close>

datatype followAct = ReadLine string | Drain

fun followRun :: "(string \<Rightarrow> logEvent option) \<Rightarrow> followAct list \<Rightarrow> follower \<Rightarrow> logEvent list result list \<times> follower" where
  "followRun parse [] f = ([], f)"
| "followRun parse (ReadLine l # acts) f = followRun parse acts (readLine parse l f)"
| "followRun parse (Drain # acts) f =
     (case followerCollect f of (r, f') \<Rightarrow> case followRun parse acts f' of (rs, f'') \<Rightarrow> (r # rs, f''))"

definition linesOf :: "followAct list \<Rightarrow> string list" where
  "linesOf acts = List.map_filter (\<lambda>a. case a of ReadLine l \<Rightarrow> Some l | Drain \<Rightarrow> None) acts"

definition handedOver :: "logEvent list result list \<Rightarrow> logEvent list" where
  "handedOver rs = concat (map (\<lambda>r. case r of Inr es \<Rightarrow> es | Inl _ \<Rightarrow> []) rs)"

lemma followRun_all:
  "followRun parse acts f = (rs, f') \<Longrightarrow> fo_failed f = None \<Longrightarrow>
   handedOver rs @ fo_buf f' = fo_buf f @ List.map_filter parse (linesOf acts) \<and> fo_failed f' = None \<and> (\<forall>r\<in>set rs. \<exists>es. r = Inr es)"
proof (induction parse acts f arbitrary: rs f' rule: followRun.induct)
  case (1 parse f)
  then show ?case by (simp add: handedOver_def linesOf_def)
next
  case (2 parse l acts f)
  have "fo_failed (readLine parse l f) = None" using 2(3) by (simp add: readLine_def split: option.splits)
  with 2 show ?case by (auto simp: readLine_def linesOf_def map_filter_simps split: option.splits)
next
  case (3 parse acts f)
  have c: "followerCollect f = (Inr (fo_buf f), f\<lparr>fo_buf := []\<rparr>)" using 3(3) by (simp add: followerCollect_def)
  obtain rs' where r: "followRun parse acts (f\<lparr>fo_buf := []\<rparr>) = (rs', f')" "rs = Inr (fo_buf f) # rs'"
    using 3(2) c by (auto split: prod.splits)
  have "handedOver rs' @ fo_buf f' = List.map_filter parse (linesOf acts) \<and> fo_failed f' = None \<and> (\<forall>r\<in>set rs'. \<exists>es. r = Inr es)"
    using "3.IH" [OF c [symmetric] r(1)] 3(3) by simp
  then show ?case by (simp add: r(2) handedOver_def linesOf_def map_filter_simps)
qed

lemma followRun_failed: "followRun parse acts f = (rs, f') \<Longrightarrow> fo_failed f = Some e \<Longrightarrow> handedOver rs = [] \<and> fo_failed f' = Some e"
proof (induction parse acts f arbitrary: rs f' rule: followRun.induct)
  case (2 parse l acts f)
  have "fo_failed (readLine parse l f) = Some e" using 2(3) by (simp add: readLine_def split: option.splits)
  with 2 show ?case by simp
next
  case (3 parse acts f)
  have c: "followerCollect f = (Inl e, f)" using 3(3) by (simp add: followerCollect_def)
  then show ?case using 3 by (auto simp: handedOver_def split: prod.splits)
qed (simp add: handedOver_def)

subsection \<open>The steps of the container logs\<close>

text \<open>The daemon is asked again and again, tailers hand over non-empty lines and end, and ticks collect. \<open>P\<close> holds of
  every list the daemon answers with.\<close>

inductive dlStep :: "(string \<Rightarrow> string) \<Rightarrow> jsonFields \<Rightarrow> (string list \<Rightarrow> bool) \<Rightarrow> dockerLogs \<Rightarrow> (string \<times> string) option \<Rightarrow> dockerLogs \<Rightarrow> bool"
  for uni js P where
  reconciled: "P ids \<Longrightarrow> dlStep uni js P d None (dlReconcile (Inr ids) d)"
| unreachable: "dlStep uni js P d None (dlReconcile (Inl e) d)"
| emitted: "i \<in> set (dl_running d) \<Longrightarrow> line \<noteq> [] \<Longrightarrow> dlStep uni js P d (Some (i, line)) (dlEmit uni js name (stderr, line) d)"
| ended: "dlStep uni js P d None (dlEnd i d)"
| collected: "dlCollect d = (r, d') \<Longrightarrow> dlStep uni js P d None d'"

inductive dlRun :: "(string \<Rightarrow> string) \<Rightarrow> jsonFields \<Rightarrow> (string list \<Rightarrow> bool) \<Rightarrow> dockerLogs \<Rightarrow> (string \<times> string) list \<Rightarrow> dockerLogs \<Rightarrow> bool"
  for uni js P where
  none: "dlRun uni js P d [] d"
| step: "dlRun uni js P d out d1 \<Longrightarrow> dlStep uni js P d1 l d2 \<Longrightarrow> dlRun uni js P d (out @ (case l of None \<Rightarrow> [] | Some x \<Rightarrow> [x])) d2"

definition dlInv :: "dockerLogs \<Rightarrow> bool" where
  "dlInv d \<longleftrightarrow> distinct (dl_tailers d) \<and>
     (\<forall>ev\<in>set (dl_buf d). ev_level ev \<in> eventLevels \<and> ev_message ev \<noteq> [] \<and> length (ev_message ev) \<le> 2048)"

lemma dlReconcile_parts:
  "dl_buf (dlReconcile l d) = dl_buf d"
  "dl_tailers (dlReconcile (Inr ids) d) = filter (\<lambda>i. i \<in> set ids) (dl_tailers d) @ filter (\<lambda>i. i \<notin> set (dl_tailers d)) (remdups ids)"
  "dl_running (dlReconcile (Inr ids) d) = dl_running d @ filter (\<lambda>i. i \<notin> set (dl_tailers d)) (remdups ids)"
  "dl_tailers (dlReconcile (Inl e) d) = dl_tailers d" "dl_running (dlReconcile (Inl e) d) = dl_running d"
  by (auto simp: dlReconcile_def Let_def split: sum.splits)

text \<open>A container whose tailer has ended keeps its place in the table.\<close>

lemma stuck_step:
  assumes "dlStep uni js (\<lambda>ids. i \<in> set ids) d l d'" "i \<in> set (dl_tailers d)" "i \<notin> set (dl_running d)"
  shows "i \<in> set (dl_tailers d') \<and> i \<notin> set (dl_running d') \<and> (\<forall>x. l = Some x \<longrightarrow> fst x \<noteq> i)"
  using assms(1)
proof cases
  case (ended j)
  then show ?thesis using assms(2,3) by (auto simp: dlEnd_def dest: notin_set_remove1)
next
  case (collected r)
  then show ?thesis using assms(2,3) by (auto simp: dlCollect_def split: option.splits)
qed (use assms(2,3) in \<open>auto simp: dlReconcile_parts dlEmit_def\<close>)

text \<open>C33 (error). A container whose log stream ended while the daemon goes on listing it, as after a restart of the container
  between two looks at the list, is not followed again: however the collector goes on, no tailer of it runs and no line of
  it is handed over for as long as every list names it, because its entry stays in the table.\<close>

theorem ended_tail_not_resumed:
  assumes "i \<in> set (dl_tailers d)" "i \<notin> set (dl_running (dlEnd i d))" "dlRun uni js (\<lambda>ids. i \<in> set ids) (dlEnd i d) out d'"
  shows "i \<in> set (dl_tailers d') \<and> i \<notin> set (dl_running d') \<and> (\<forall>x\<in>set out. fst x \<noteq> i)"
  using assms(3)
proof (induction "dlEnd i d" out d' rule: dlRun.induct)
  case none
  then show ?case using assms(1,2) by (simp add: dlEnd_def)
next
  case (step out d1 l d2)
  then show ?case using stuck_step [OF step.hyps(3)] by (auto split: option.splits)
qed

theorem ended_tail_not_resumed_witness:
  "\<exists>d'. dlRun id (\<lambda>_. None) (\<lambda>ids. ''c1'' \<in> set ids) (dlEnd ''c1'' (dlReconcile (Inr [''c1'']) dlStart)) [] d' \<and> ''c1'' \<notin> set (dl_running d')"
proof -
  let ?d = "dlReconcile (Inr [''c1'']) dlStart"
  have p: "''c1'' \<in> set (dl_tailers ?d)" "''c1'' \<notin> set (dl_running (dlEnd ''c1'' ?d))" by (simp_all add: dlReconcile_parts dlEnd_def dlStart_def)
  have "dlRun id (\<lambda>_. None) (\<lambda>ids. ''c1'' \<in> set ids) (dlEnd ''c1'' ?d) [] (dlReconcile (Inr [''c1'']) (dlEnd ''c1'' ?d))"
    using dlRun.step [OF dlRun.none dlStep.reconciled [of "\<lambda>ids. ''c1'' \<in> set ids" "[''c1'']"]] by simp
  then show ?thesis using ended_tail_not_resumed [OF p] by blast
qed

lemma dlRun_inv: "dlRun uni js P d out d' \<Longrightarrow> dlInv d \<Longrightarrow> dlInv d'"
proof (induction rule: dlRun.induct)
  case (step d out d1 l d2)
  have inv: "dlInv d1" using step by simp
  from step.hyps(2) show ?case
  proof cases
    case (emitted i line name stderr)
    then show ?thesis using inv dockerLogLevel_level truncateMessage_short by (auto simp: dlInv_def dlEmit_def)
  next
    case (collected r)
    then show ?thesis using inv by (auto simp: dlInv_def dlCollect_def split: option.splits)
  qed (use inv in \<open>auto simp: dlInv_def dlReconcile_parts dlEnd_def\<close>)
qed

subsection \<open>Names of checks\<close>

lemma safeRunes_chars: "list_all nameChar (safeRunes s)"
proof (induction s rule: safeRunes.induct)
  case (1 s)
  have u: "nameChar (CHR ''_'')" by (simp add: nameChar_def)
  show ?case
  proof (cases s)
    case (Cons c cs)
    then show ?thesis using 1 [OF Cons] u by (subst safeRunes.simps) (auto simp: Cons)
  qed (simp add: safeRunes.simps)
qed

lemma checkNameSafe_name: "nameRe (''fail2ban.jail.'' @ checkNameSafe uni jail) \<longleftrightarrow> length (checkNameSafe uni jail) \<le> 114"
proof -
  have f: "nameRe s \<longleftrightarrow> s \<noteq> [] \<and> isLower (hd s) \<and> length s \<le> 128 \<and> list_all nameChar (tl s)" for s
    by (cases s) (auto simp: nameRe_def identRe_def nameChar_def list_all_iff)
  have "list_all nameChar (checkNameSafe uni jail)"
    using safeRunes_chars [of "toLower uni jail"] by (auto simp: checkNameSafe_def Let_def nameChar_def isLower_def byte_def)
  moreover have "list_all nameChar (tl ''fail2ban.jail.'')" "isLower (CHR ''f'')" by code_simp+
  ultimately show ?thesis by (simp add: f)
qed

end
