(* ===== verification/Agent_Operator.thy ===== *)
theory Agent_Operator
  imports Operator
begin

section \<open>The host's side of the command channel (internal/agent/operator.go)\<close>

text \<open>
  Claiming, executing and answering commands on the host. The executable is the argument \<open>run\<close>: from a
  kind, the argument text and the state of the world it gives its output, its error and whether the
  deadline passed, and the new world; \<open>report\<close> sends an answer. \<open>jsonValid\<close> is \<^verbatim>\<open>json.Valid\<close>,
  \<open>refusalOf\<close> reads the field \<^verbatim>\<open>error\<close> of a JSON object. The encoder of the answer is modelled where it
  changes the text: \<^verbatim>\<open>json.Marshal\<close> compacts a raw message and escapes the HTML characters in it.
\<close>

definition OperatorPollInterval :: duration where "OperatorPollInterval = 15 * second"
definition OperatorTimeout :: duration where "OperatorTimeout = 60 * second"
definition maxOperatorOutput :: nat where "maxOperatorOutput = 65536"
definition maxOperatorError :: nat where "maxOperatorError = 2048"

definition OperatorKinds :: "string list" where
  "OperatorKinds = [''warn'', ''suspend'', ''terminate'', ''lift'', ''refund_execute'', ''account_show'']"

record agentCommand =
  ac_id :: string
  ac_kind :: string
  ac_args :: string

record commandReport =
  ar_status :: string
  ar_result :: "string option"
  ar_error :: string

record runOutcome =
  ro_stdout :: string
  ro_stderr :: string
  ro_err :: "string option"
  ro_deadline :: bool

text \<open>A buffer that keeps the first \<open>room\<close> bytes of what is written to it.\<close>

record limitedBuffer =
  lb_bytes :: string
  lb_max :: nat

definition lbWrite :: "string \<Rightarrow> limitedBuffer \<Rightarrow> nat \<times> limitedBuffer" where
  "lbWrite p b =
     (let room = int (lb_max b) - int (length (lb_bytes b))
      in if 0 < room then
           (length p, b\<lparr>lb_bytes := lb_bytes b @ (if room < int (length p) then take (nat room) p else p)\<rparr>)
         else (length p, b))"

definition tail :: "string \<Rightarrow> string" where
  "tail b =
     (let s = trimSpace b
      in toValidUTF8 (if maxOperatorError < length s then drop (length s - maxOperatorError) s else s))"

definition failedReport :: "string \<Rightarrow> commandReport" where
  "failedReport m = \<lparr>ar_status = ''failed'', ar_result = None, ar_error = m\<rparr>"

definition jsonObject :: "(string \<Rightarrow> bool) \<Rightarrow> string \<Rightarrow> bool" where
  "jsonObject jsonValid s \<longleftrightarrow> s \<noteq> [] \<and> hd s = CHR ''{'' \<and> jsonValid s"

definition Execute ::
  "(string \<Rightarrow> bool) \<Rightarrow> (string \<Rightarrow> string option) \<Rightarrow> string \<Rightarrow> (string \<Rightarrow> string \<Rightarrow> 'w \<Rightarrow> runOutcome \<times> 'w) \<Rightarrow> agentCommand \<Rightarrow> 'w \<Rightarrow>
   commandReport \<times> 'w" where
  "Execute jsonValid refusalOf timeoutText run c w =
     (if ac_kind c \<notin> set OperatorKinds then (failedReport ''kind not allowed on this host'', w)
      else
        let args = trimSpace (ac_args c)
        in if \<not> jsonObject jsonValid args then (failedReport ''args must be a JSON object'', w)
           else case run (ac_kind c) args w of (o1, w') \<Rightarrow>
             if ro_deadline o1 then (failedReport (''timed out after '' @ timeoutText), w')
             else
               let out = trimSpace (ro_stdout o1);
                   isObj = (length out \<le> maxOperatorOutput \<and> jsonObject jsonValid out)
               in case ro_err o1 of
                    Some err \<Rightarrow>
                      let message = tail (ro_stderr o1);
                          message1 = (if isObj then (case refusalOf out of Some e \<Rightarrow> if e \<noteq> [] then e else message | None \<Rightarrow> message) else message)
                      in (failedReport (if message1 = [] then err else message1), w')
                  | None \<Rightarrow>
                      if \<not> isObj then (failedReport ''the executable did not print one JSON object of at most 64 KiB'', w')
                      else (\<lparr>ar_status = ''done'', ar_result = Some out, ar_error = []\<rparr>, w'))"

text \<open>The loop of \<^verbatim>\<open>Poll\<close>: the first answer that cannot be sent ends it.\<close>

fun answerAll ::
  "(agentCommand \<Rightarrow> 'w \<Rightarrow> commandReport \<times> 'w) \<Rightarrow> (string \<Rightarrow> commandReport \<Rightarrow> 'w \<Rightarrow> unit result \<times> 'w) \<Rightarrow> agentCommand list \<Rightarrow> 'w \<Rightarrow>
   unit result \<times> 'w" where
  "answerAll execute report [] w = (Inr (), w)"
| "answerAll execute report (c # cs) w =
     (case execute c w of (r, w1) \<Rightarrow>
        case report (ac_id c) r w1 of
          (Inl e, w2) \<Rightarrow> (Inl (OtherError (''agent: report command '' @ ac_id c)), w2)
        | (Inr _, w2) \<Rightarrow> answerAll execute report cs w2)"

text \<open>\<open>link\<close> is the tunnel session (an error, a session that cannot carry commands, or one that can) and
  \<open>commands\<close> the claim request on it.\<close>

definition Poll ::
  "('w \<Rightarrow> bool result \<times> 'w) \<Rightarrow> ('w \<Rightarrow> agentCommand list result \<times> 'w) \<Rightarrow> (agentCommand \<Rightarrow> 'w \<Rightarrow> commandReport \<times> 'w) \<Rightarrow>
   (string \<Rightarrow> commandReport \<Rightarrow> 'w \<Rightarrow> unit result \<times> 'w) \<Rightarrow> 'w \<Rightarrow> unit result \<times> 'w" where
  "Poll link claimCommands execute report w =
     (case link w of
        (Inl e, w1) \<Rightarrow> (Inl e, w1)
      | (Inr carries, w1) \<Rightarrow>
          if \<not> carries then (Inl (OtherError ''agent: the tunnel session cannot carry operator commands''), w1)
          else case claimCommands w1 of
                 (Inl e, w2) \<Rightarrow> (Inl e, w2)
               | (Inr cs, w2) \<Rightarrow> answerAll execute report cs w2)"

text \<open>The two requests of a session, from the response of the HTTP client: a status and a body.\<close>

definition sessionCommands :: "(string \<Rightarrow> agentCommand list option) \<Rightarrow> (int \<times> string) result \<Rightarrow> agentCommand list result" where
  "sessionCommands unmarshalCommands resp =
     (case resp of
        Inl e \<Rightarrow> Inl (OtherError ''agent: commands request'')
      | Inr (code, raw) \<Rightarrow>
          if code \<noteq> 200 then Inl (OtherError (''agent: ingest rejected ('' @ intText code @ ''): '' @ trimSpace (take 1048576 raw)))
          else case unmarshalCommands (take 1048576 raw) of
                 None \<Rightarrow> Inl (OtherError ''agent: decode commands'')
               | Some cs \<Rightarrow> Inr cs)"

definition sessionReport :: "(int \<times> string) result \<Rightarrow> unit result" where
  "sessionReport resp =
     (case resp of
        Inl e \<Rightarrow> Inl (OtherError ''agent: result request'')
      | Inr (code, raw) \<Rightarrow>
          if code \<noteq> 204 then Inl (OtherError (''agent: ingest rejected ('' @ intText code @ ''): '' @ trimSpace (take 65536 raw)))
          else Inr ())"

text \<open>The encoder on a raw JSON text: blanks outside strings are dropped, and everywhere the HTML characters
  and the two Unicode line separators are written as escapes. The flags say whether the scan is
  inside a string and right after a backslash.\<close>

function compactHTML :: "bool \<Rightarrow> bool \<Rightarrow> nat list \<Rightarrow> nat list" where
  "compactHTML inStr esc bs =
     (if bs = [] then []
      else if take 3 bs = [226, 128, 168] then [92, 117, 50, 48, 50, 56] @ compactHTML inStr False (drop 3 bs)
      else if take 3 bs = [226, 128, 169] then [92, 117, 50, 48, 50, 57] @ compactHTML inStr False (drop 3 bs)
      else if hd bs = 60 \<or> hd bs = 62 \<or> hd bs = 38
      then [92, 117, 48, 48, hexByte (hd bs div 16), hexByte (hd bs mod 16)] @ compactHTML inStr False (tl bs)
      else if \<not> inStr \<and> (hd bs = 32 \<or> hd bs = 9 \<or> hd bs = 10 \<or> hd bs = 13) then compactHTML inStr False (tl bs)
      else hd bs # compactHTML (if hd bs = 34 \<and> \<not> (inStr \<and> esc) then \<not> inStr else inStr) (inStr \<and> hd bs = 92 \<and> \<not> esc) (tl bs))"
  by pat_completeness auto
termination
  by (relation "measure (\<lambda>(_, _, bs). length bs)") auto

declare compactHTML.simps [simp del]

definition encodeRaw :: "string \<Rightarrow> string" where
  "encodeRaw s = map char_of (compactHTML False False (map byte s))"

text \<open>The answer as the server decodes it from the request body.\<close>

definition onTheWire :: "commandReport \<Rightarrow> report" where
  "onTheWire r =
     \<lparr>rp_status = (if ar_status r = ''done'' then StatusDone else if ar_status r = ''failed'' then StatusFailed else OtherStatus (ar_status r)),
      rp_result = Some (case ar_result r of None \<Rightarrow> ''null'' | Some s \<Rightarrow> encodeRaw s), rp_error = ar_error r\<rparr>"

subsection \<open>What is run and what is answered\<close>

lemma tail_bounded: "length (tail b) \<le> maxOperatorError \<and> validString (tail b)"
proof -
  define s where "s = trimSpace b"
  have "length (tail b) \<le> length (if maxOperatorError < length s then drop (length s - maxOperatorError) s else s)"
    unfolding tail_def Let_def s_def by (rule length_toValidUTF8)
  then show ?thesis by (auto simp: tail_def Let_def validString_toValidUTF8 split: if_splits)
qed

lemma lbWrite_bounded:
  assumes "length (lb_bytes b) \<le> lb_max b"
  shows "fst (lbWrite p b) = length p \<and> lb_bytes (snd (lbWrite p b)) = take (lb_max b) (lb_bytes b @ p)"
  using assms by (auto simp: lbWrite_def Let_def nat_minus_as_int)

lemma Execute_status: "ar_status (fst (Execute v ref t run c w)) \<in> {''done'', ''failed''}"
  by (auto simp: Execute_def Let_def failedReport_def split: prod.splits option.splits)

lemma Execute_done:
  "ar_status (fst (Execute v ref t run c w)) = ''done'' \<Longrightarrow>
   \<exists>out. ar_result (fst (Execute v ref t run c w)) = Some out \<and> length out \<le> maxOperatorOutput \<and> jsonObject v out \<and> trimSpace out = out \<and>
     ar_error (fst (Execute v ref t run c w)) = []"
  by (auto simp: Execute_def Let_def failedReport_def split: prod.splits option.splits if_splits)

lemma Execute_failed:
  "ar_status (fst (Execute v ref t run c w)) = ''failed'' \<Longrightarrow> ar_result (fst (Execute v ref t run c w)) = None"
  by (auto simp: Execute_def Let_def failedReport_def split: prod.splits option.splits if_splits)

text \<open>The executable is started only with a listed kind and a JSON object.\<close>

lemma Execute_gate:
  assumes "\<And>kind args w. kind \<in> set OperatorKinds \<Longrightarrow> jsonObject v args \<Longrightarrow> run kind args w = run' kind args w"
  shows "Execute v ref t run c w = Execute v ref t run' c w"
  using assms by (simp add: Execute_def Let_def)

text \<open>After an answer that could not be sent, nothing more of the batch is executed or answered.\<close>

lemma answerAll_stops:
  assumes "execute c w = (r, w1)" and "report (ac_id c) r w1 = (Inl e, w2)"
  shows "answerAll execute report (c # cs) w = (Inl (OtherError (''agent: report command '' @ ac_id c)), w2)"
  using assms by simp

subsection \<open>Properties\<close>

text \<open>C24 (safety). The host decides what runs: executing a command gives the same answer and the same effects for any
  two executables that agree on the listed kinds with a JSON object as argument, so nothing else
  is ever started, whatever the server sends; the listed kinds are those the server can queue.\<close>

theorem agent_runs_only_listed_kinds:
  assumes "\<And>kind args w. kind \<in> set OperatorKinds \<Longrightarrow> jsonObject v args \<Longrightarrow> run kind args w = run' kind args w"
  shows "Execute v ref t run c w = Execute v ref t run' c w \<and> set OperatorKinds = kindString ` set Kinds"
  using Execute_gate [of v run run', OF assms] by (auto simp: OperatorKinds_def Kinds_def)

definition demoRun :: "string \<Rightarrow> string \<Rightarrow> string list \<Rightarrow> runOutcome \<times> string list" where
  "demoRun kind args w = (\<lparr>ro_stdout = ''{}'', ro_stderr = [], ro_err = None, ro_deadline = False\<rparr>, w @ [kind])"

definition demoHostile :: "string \<Rightarrow> string \<Rightarrow> string list \<Rightarrow> runOutcome \<times> string list" where
  "demoHostile kind args w = (if kind = ''rm'' then (\<lparr>ro_stdout = [], ro_stderr = [], ro_err = None, ro_deadline = False\<rparr>, []) else demoRun kind args w)"

lemma demo_agree: "kind \<in> set OperatorKinds \<Longrightarrow> demoHostile kind args w = demoRun kind args w"
  by (auto simp: demoHostile_def OperatorKinds_def)

theorem agent_runs_only_listed_kinds_witness:
  "Execute (\<lambda>_. True) (\<lambda>_. None) ''1m0s'' demoHostile \<lparr>ac_id = ''c1'', ac_kind = ''rm'', ac_args = ''{}''\<rparr> [''kept''] =
     (failedReport ''kind not allowed on this host'', [''kept''])"
proof -
  have "Execute (\<lambda>_. True) (\<lambda>_. None) ''1m0s'' demoHostile \<lparr>ac_id = ''c1'', ac_kind = ''rm'', ac_args = ''{}''\<rparr> [''kept''] =
        Execute (\<lambda>_. True) (\<lambda>_. None) ''1m0s'' demoRun \<lparr>ac_id = ''c1'', ac_kind = ''rm'', ac_args = ''{}''\<rparr> [''kept'']"
    by (rule conjunct1 [OF agent_runs_only_listed_kinds]) (rule demo_agree)
  then show ?thesis by (simp add: Execute_def OperatorKinds_def)
qed


text \<open>The server accepts every answer the agent makes: a failed command always, a successful one when
  its result is at most 64 KiB as encoded; the stored status is the agent's. The hypothesis is that
  encoding a JSON object gives a JSON object.\<close>

lemma agent_answers_accepted:
  assumes "\<And>s. jsonObject v s \<Longrightarrow> jsonObject v (trimSpace (encodeRaw s))"
  shows "case onTheWire (fst (Execute v ref t run c w)) of rp \<Rightarrow>
     (\<exists>rp'. reportValidate v rp = Inr rp' \<and> rp_status rp' = rp_status rp) \<or>
     (rp_status rp = StatusDone \<and> (\<exists>out. rp_result rp = Some out \<and> 65536 < length (trimSpace out)))"
proof -
  define r where "r = fst (Execute v ref t run c w)"
  have null: "trimSpace ''null'' = ''null''" by (rule trimSpace_plain) (simp add: byte_def)
  consider "ar_status r = ''failed''" | "ar_status r = ''done''" using Execute_status [of v ref t run c w] by (auto simp: r_def)
  then show ?thesis
  proof cases
    case 1
    then have "ar_result r = None" using Execute_failed [of v ref t run c w] by (simp add: r_def)
    then show ?thesis using 1 null by (simp add: r_def [symmetric] onTheWire_def reportValidate_def Let_def)
  next
    case 2
    then obtain out where out: "ar_result r = Some out" "jsonObject v out" using Execute_done [of v ref t run c w] by (auto simp: r_def)
    define e where "e = trimSpace (encodeRaw out)"
    have e: "jsonObject v e" unfolding e_def by (rule assms [OF out(2)])
    show ?thesis
    proof (cases "65536 < length e")
      case True
      then show ?thesis using 2 out by (simp add: r_def [symmetric] onTheWire_def e_def)
    next
      case False
      then have "\<exists>rp'. reportValidate v (onTheWire r) = Inr rp' \<and> rp_status rp' = rp_status (onTheWire r)"
        using 2 out e by (auto simp: onTheWire_def reportValidate_def Let_def e_def [symmetric] MaxResultBytes_def jsonObject_def)
      then show ?thesis by (simp add: r_def [symmetric])
    qed
  qed
qed

lemma encodeRaw_brace: "encodeRaw ''{}'' = ''{}''"
  by (simp add: encodeRaw_def byte_def compactHTML.simps char_of_def bit_0)

lemma agent_answers_accepted_witness:
  "\<exists>rp'. reportValidate (\<lambda>_. True) (onTheWire (fst (Execute (\<lambda>_. True) (\<lambda>_. None) ''1m0s'' demoRun \<lparr>ac_id = ''c1'', ac_kind = ''rm'', ac_args = ''{}''\<rparr> []))) = Inr rp'"
proof -
  have st: "rp_status (onTheWire (fst (Execute (\<lambda>s. s = ''{}'') (\<lambda>_. None) ''1m0s'' demoRun \<lparr>ac_id = ''c1'', ac_kind = ''rm'', ac_args = ''{}''\<rparr> []))) = StatusFailed"
    and r: "Execute (\<lambda>_. True) (\<lambda>_. None) ''1m0s'' demoRun \<lparr>ac_id = ''c1'', ac_kind = ''rm'', ac_args = ''{}''\<rparr> [] =
         Execute (\<lambda>s. s = ''{}'') (\<lambda>_. None) ''1m0s'' demoRun \<lparr>ac_id = ''c1'', ac_kind = ''rm'', ac_args = ''{}''\<rparr> []"
    by (simp_all add: Execute_def OperatorKinds_def failedReport_def onTheWire_def)
  have "jsonObject (\<lambda>s. s = ''{}'') (trimSpace (encodeRaw s))" if "jsonObject (\<lambda>s. s = ''{}'') s" for s
    using that by (simp add: jsonObject_def encodeRaw_brace trimSpace_plain byte_def)
  from agent_answers_accepted [OF this, of "\<lambda>_. None" "''1m0s''" demoRun "\<lparr>ac_id = ''c1'', ac_kind = ''rm'', ac_args = ''{}''\<rparr>" "[]"] st
  obtain rp' where "reportValidate (\<lambda>s. s = ''{}'') (onTheWire (fst (Execute (\<lambda>s. s = ''{}'') (\<lambda>_. None) ''1m0s'' demoRun \<lparr>ac_id = ''c1'', ac_kind = ''rm'', ac_args = ''{}''\<rparr> []))) = Inr rp'"
    by auto
  then show ?thesis unfolding r
    by (auto simp: reportValidate_def Let_def Execute_def OperatorKinds_def failedReport_def onTheWire_def trimSpace_plain byte_def)
qed

subsection \<open>Where the two sides disagree\<close>

lemma compactHTML_lt: "compactHTML True False (replicate n 60 @ [34, 125]) = concat (replicate n [92, 117, 48, 48, 51, 99]) @ [34, 125]"
proof (induction n)
  case 0
  then show ?case by (simp add: compactHTML.simps)
next
  case (Suc n)
  then show ?case by (subst compactHTML.simps) (simp add: hexByte_def)
qed

definition ltResult :: "nat \<Rightarrow> string" where
  "ltResult n = map char_of ([123, 34, 97, 34, 58, 34] @ replicate n (60::nat) @ [34, 125])"

lemma encodeRaw_ltResult:
  "encodeRaw (ltResult n) = map char_of ([123, 34, 97, 34, 58, 34] @ concat (replicate n [92, 117, 48, 48, 51, 99]) @ [34, 125 :: nat])"
proof -
  have "map byte (ltResult n) = 123 # 34 # 97 # 34 # 58 # 34 # (replicate n 60 @ [34, 125])" by (simp add: ltResult_def comp_def)
  moreover have "compactHTML False False (123 # 34 # 97 # 34 # 58 # 34 # bs) = 123 # 34 # 97 # 34 # 58 # 34 # compactHTML True False bs" for bs
    by (simp add: compactHTML.simps [of False] compactHTML.simps [of True False "97 # _"] compactHTML.simps [of True False "34 # _"])
  ultimately show ?thesis by (simp add: encodeRaw_def compactHTML_lt)
qed


text \<open>A result the agent accepts can be refused by the server: the encoder writes each of the characters
  less-than, greater-than and ampersand as six bytes, so an object well below 64 KiB arrives above
  the limit, and the answer of a command that was executed is turned away as invalid.\<close>

lemma escaped_result_refused:
  assumes "run ''lift'' ''{}'' w = (\<lparr>ro_stdout = ltResult 11000, ro_stderr = [], ro_err = None, ro_deadline = False\<rparr>, w')"
    and "v ''{}''" and "v (ltResult 11000)"
  shows "case Execute v ref t run \<lparr>ac_id = cid, ac_kind = ''lift'', ac_args = ''{}''\<rparr> w of (r, _) \<Rightarrow>
     ar_status r = ''done'' \<and> ar_result r = Some (ltResult 11000) \<and> length (ltResult 11000) < 16384 \<and>
     reportValidate v (onTheWire r) = Inl (Invalid ''result must be a JSON object of at most 64 KiB'')"
proof -
  have "list_all (\<lambda>c. 33 \<le> byte c \<and> byte c \<le> 126) (ltResult 11000)"
    by (simp add: ltResult_def list_all_iff)
  then have ts: "trimSpace (ltResult 11000) = ltResult 11000" by (rule trimSpace_plain)
  have len: "length (ltResult 11000) = 11008" by (simp add: ltResult_def)
  have hd1: "hd (ltResult 11000) = CHR ''{''" "ltResult 11000 \<noteq> []" by (simp_all add: ltResult_def char_of_def bit_0)
  have br: "trimSpace ''{}'' = ''{}''" by (rule trimSpace_plain) (simp add: byte_def)
  have ex: "Execute v ref t run \<lparr>ac_id = cid, ac_kind = ''lift'', ac_args = ''{}''\<rparr> w =
      (\<lparr>ar_status = ''done'', ar_result = Some (ltResult 11000), ar_error = []\<rparr>, w')"
    using assms hd1 by (simp add: Execute_def OperatorKinds_def br jsonObject_def ts len maxOperatorOutput_def)
  have "list_all (\<lambda>c. 33 \<le> byte c \<and> byte c \<le> 126) (encodeRaw (ltResult 11000))"
    unfolding encodeRaw_ltResult by (auto simp: list_all_iff)
  then have te: "trimSpace (encodeRaw (ltResult 11000)) = encodeRaw (ltResult 11000)" by (rule trimSpace_plain)
  have le: "length (encodeRaw (ltResult 11000)) = 66008"
    unfolding encodeRaw_ltResult by (simp add: length_concat sum_list_replicate)
  have "encodeRaw (ltResult 11000) \<noteq> [] \<and> encodeRaw (ltResult 11000) \<noteq> ''null''" using le by auto
  then have "reportValidate v (onTheWire \<lparr>ar_status = ''done'', ar_result = Some (ltResult 11000), ar_error = []\<rparr>) =
      Inl (Invalid ''result must be a JSON object of at most 64 KiB'')"
    by (simp add: reportValidate_def onTheWire_def Let_def te le MaxResultBytes_def)
  then show ?thesis using ex len by simp
qed

lemma escaped_result_refused_witness:
  "case Execute (\<lambda>_. True) (\<lambda>_. None) ''1m0s'' (\<lambda>k a w. (\<lparr>ro_stdout = ltResult 11000, ro_stderr = [], ro_err = None, ro_deadline = False\<rparr>, w))
     \<lparr>ac_id = ''c1'', ac_kind = ''lift'', ac_args = ''{}''\<rparr> () of (r, _) \<Rightarrow>
     reportValidate (\<lambda>_. True) (onTheWire r) = Inl (Invalid ''result must be a JSON object of at most 64 KiB'')"
  using escaped_result_refused [of "\<lambda>k a w. (\<lparr>ro_stdout = ltResult 11000, ro_stderr = [], ro_err = None, ro_deadline = False\<rparr>, w)" "()" "()" "\<lambda>_. True" "\<lambda>_. None" "''1m0s''" "''c1''"]
  by (simp split: prod.splits)

text \<open>A batch leaves no time for its last answer: a poll hands out five commands at once, each may take
  the full minute, and the server ends a running command after five minutes. Once the clock is past
  that by a millisecond, the answer of a command that used its time is refused, although it ran.\<close>

lemma fifth_answer_may_be_refused:
  assumes "op_inv db" and "r \<in> set (commands db)" and "oc_status r = StatusRunning" and "oc_started r = Some (unixMilli t)"
    and "t + int ClaimBatch * OperatorTimeout + millisecond \<le> now"
  shows "fst (CompleteRepo None None (oc_host r) (oc_id r) rp now (snd (Expire None None now db))) =
     Inl (NotFound ''no running command with this id for this host'')"
proof -
  have "unixMilli t < unixMilli (now - RunningExpiry)"
  proof -
    have "t + millisecond \<le> now - RunningExpiry" using assms(5) by (simp add: ClaimBatch_def OperatorTimeout_def RunningExpiry_def)
    from unixMilli_mono [OF this] show ?thesis by (simp add: unixMilli_def)
  qed
  then have "staleRunning now r" using assms(3,4) by (simp add: staleRunning_def)
  from stale_answer [OF assms(1,2) this] show ?thesis by simp
qed

lemma fifth_answer_may_be_refused_witness:
  "fst (CompleteRepo None None ''h1'' ''c1'' demoReport (5 * minute + millisecond) (snd (Expire None None (5 * minute + millisecond) demoRunning))) =
     Inl (NotFound ''no running command with this id for this host'')"
  using fifth_answer_may_be_refused [OF demoRunning_inv, of "demoRow\<lparr>oc_status := StatusRunning, oc_started := Some 0\<rparr>" 0 "5 * minute + millisecond" demoReport]
  by (simp add: demoRunning_def demoRow_def ClaimBatch_def OperatorTimeout_def unixMilli_def)


end
