(* ===== verification/Agent_Run.thy ===== *)
theory Agent_Run
  imports Sender Collect_Logs Agent_Operator
begin

section \<open>The agent's batches and run loop\<close>

text \<open>
  Model of \<^verbatim>\<open>internal/agent/batch.go\<close>, of the tick and the wake-ups of \<^verbatim>\<open>runner.go\<close>, and of the document
  flags of \<^verbatim>\<open>cmd/smotryashchiy/agent.go\<close>. \<^verbatim>\<open>json.Marshal\<close> at type \<^verbatim>\<open>wireBatch\<close> is the parameter
  \<open>marshal\<close>; \<open>received\<close> is the batch the server reads from its output: times as they were, every text with
  U+FFFD for each byte that is no part of a rune, every document compacted. The theorems relate the batches
  to the contract that the server checks (theory Telemetry).
\<close>

subsection \<open>Batches (batch.go)\<close>

record agentWireCheck =
  ak_name :: string
  ak_ts :: time
  ak_status :: string
  ak_meta :: "(string \<times> metaValue) list"

record agentBatch =
  ab_version :: string
  ab_metrics :: "metric list"
  ab_checks :: "agentWireCheck list"
  ab_events :: "event list"
  ab_documents :: "document list"

definition agentSchemaVersion :: string where "agentSchemaVersion = ''1.0''"

definition stampMetric :: "time \<Rightarrow> sample \<Rightarrow> metric" where
  "stampMetric ts s = \<lparr>m_name = s_name s, m_ts = ts, m_value = s_value s, m_labels = s_labels s\<rparr>"

definition stampCheck :: "time \<Rightarrow> agentCheck \<Rightarrow> agentWireCheck" where
  "stampCheck ts c = \<lparr>ak_name = ac_name c, ak_ts = ts, ak_status = ac_status c, ak_meta = ac_meta c\<rparr>"

definition stampEvent :: "time \<Rightarrow> logEvent \<Rightarrow> event" where
  "stampEvent ts e =
     \<lparr>e_ts = (if ev_ts e = zeroTime then ts else ev_ts e), e_level = ev_level e, e_message = ev_message e, e_labels = ev_labels e\<rparr>"

definition builtBatch :: "time \<Rightarrow> sample list \<Rightarrow> agentCheck list \<Rightarrow> logEvent list \<Rightarrow> document list \<Rightarrow> agentBatch" where
  "builtBatch ts samples chks evs docs =
     \<lparr>ab_version = agentSchemaVersion, ab_metrics = map (stampMetric ts) (filter (\<lambda>s. isFin (s_value s)) samples),
      ab_checks = map (stampCheck ts) chks, ab_events = map (stampEvent ts) evs, ab_documents = docs\<rparr>"

definition BuildBatchWithDocuments ::
  "(agentBatch \<Rightarrow> string option) \<Rightarrow> time \<Rightarrow> sample list \<Rightarrow> agentCheck list \<Rightarrow> logEvent list \<Rightarrow> document list \<Rightarrow> string option result \<times> nat" where
  "BuildBatchWithDocuments marshal ts samples chks evs docs =
     (let skipped = length (filter (\<lambda>s. \<not> isFin (s_value s)) samples);
          b = builtBatch ts samples chks evs docs
      in if ab_metrics b = [] \<and> ab_checks b = [] \<and> ab_events b = [] \<and> ab_documents b = [] then (Inr None, skipped)
         else case marshal b of
                None \<Rightarrow> (Inl (OtherError ''json: encode batch''), skipped)
              | Some body \<Rightarrow> (Inr (Some body), skipped))"

subsection \<open>One tick (runner.go)\<close>

definition agentDefaultInterval :: duration where "agentDefaultInterval = 10 * second"
definition agentMinInterval :: duration where "agentMinInterval = 5 * second"
definition agentMaxInterval :: duration where "agentMaxInterval = 5 * minute"

definition ValidateInterval :: "duration \<Rightarrow> error option" where
  "ValidateInterval d =
     (if d < agentMinInterval \<or> agentMaxInterval < d then Some (OtherError ''agent: interval must be between 5s and 5m0s'') else None)"

datatype agentLog =
    CollectorFailed string
  | CollectorRecovered string
  | EncodeFailed
  | DroppedNonFinite nat
  | SpoolFailed
  | SpoolDropped nat

text \<open>The collectors of one kind with what each of them returned. \<open>failing\<close> remembers who is in a failing streak.\<close>

fun gather :: "(string \<times> 'a list result) list \<Rightarrow> (string \<Rightarrow> bool) \<Rightarrow> 'a list \<times> (string \<Rightarrow> bool) \<times> agentLog list" where
  "gather [] failing = ([], failing, [])"
| "gather ((name, r) # rest) failing =
     (case r of
        Inl _ \<Rightarrow>
          (case gather rest (failing(name := True)) of
             (out, fl, logs) \<Rightarrow> (out, fl, (if failing name then [] else [CollectorFailed name]) @ logs))
      | Inr got \<Rightarrow>
          (case gather rest (failing(name := False)) of
             (out, fl, logs) \<Rightarrow> (got @ out, fl, (if failing name then [CollectorRecovered name] else []) @ logs)))"

record tickInput =
  ti_now :: time
  ti_samples :: "(string \<times> sample list result) list"
  ti_checks :: "(string \<times> agentCheck list result) list"
  ti_events :: "(string \<times> logEvent list result) list"
  ti_documents :: "(string \<times> document option result) list"
  ti_key :: string
  ti_io :: io

record agentState =
  as_failing :: "string \<Rightarrow> bool"
  as_spool :: spool
  as_disk :: disk
  as_kick :: bool

definition optList :: "'a option result \<Rightarrow> 'a list result" where
  "optList r = (case r of Inl e \<Rightarrow> Inl e | Inr None \<Rightarrow> Inr [] | Inr (Some x) \<Rightarrow> Inr [x])"

definition tick ::
  "(agentBatch \<Rightarrow> string option) \<Rightarrow> (string \<Rightarrow> string \<Rightarrow> string option) \<Rightarrow> tickInput \<Rightarrow> agentState \<Rightarrow> agentState \<times> agentLog list" where
  "tick marshal enc i st =
     (case gather (ti_samples i) (as_failing st) of (samples, fl1, l1) \<Rightarrow>
      case gather (ti_checks i) fl1 of (chks, fl2, l2) \<Rightarrow>
      case gather (ti_events i) fl2 of (evs, fl3, l3) \<Rightarrow>
      case gather (map (map_prod id optList) (ti_documents i)) fl3 of (docs, fl4, l4) \<Rightarrow>
        let st1 = st\<lparr>as_failing := fl4\<rparr>; logs = l1 @ l2 @ l3 @ l4
        in case BuildBatchWithDocuments marshal (ti_now i) samples chks evs docs of
             (Inl _, _) \<Rightarrow> (st1, logs @ [EncodeFailed])
           | (Inr b, skipped) \<Rightarrow>
               let logs1 = logs @ (if 0 < skipped then [DroppedNonFinite skipped] else [])
               in (case b of
                     None \<Rightarrow> (st1, logs1)
                   | Some body \<Rightarrow>
                       (case Add enc (ti_io i) (ti_key i) body (as_spool st1) (as_disk st1) of
                          ((Some _, _), sp, d) \<Rightarrow> (st1\<lparr>as_spool := sp, as_disk := d\<rparr>, logs1 @ [SpoolFailed])
                        | ((None, dropped), sp, d) \<Rightarrow>
                            (st1\<lparr>as_spool := sp, as_disk := d, as_kick := True\<rparr>,
                             logs1 @ (if 0 < dropped then [SpoolDropped dropped] else [])))))"

subsection \<open>Document flags (cmd/smotryashchiy/agent.go)\<close>

fun documentFlags :: "string list \<Rightarrow> string list \<Rightarrow> (string \<times> string) list result" where
  "documentFlags seen [] = Inr []"
| "documentFlags seen (f # fs) =
     (case cutAt (CHR ''='') f of
        None \<Rightarrow> Inl (OtherError ''agent run: --document must be KIND=PATH'')
      | Some (kind, path) \<Rightarrow>
          if path = [] \<or> \<not> ValidDocumentKind kind then Inl (OtherError ''agent run: --document must be KIND=PATH'')
          else if kind \<in> set seen then Inl (OtherError ''agent run: document kind is given twice'')
          else result_bind (documentFlags (kind # seen) fs) (\<lambda>r. Inr ((kind, path) # r)))"

definition documentCollectors :: "string list \<Rightarrow> string \<Rightarrow> (string \<times> string) list result" where
  "documentCollectors flags0 businessFile =
     (let flags = (if businessFile \<noteq> [] then flags0 @ [''business='' @ businessFile] else flags0)
      in if MaxDocuments < length flags then Inl (OtherError ''agent run: at most 4 --document flags'')
         else documentFlags [] flags)"

subsection \<open>Waking the sender (runner.go, sender.go)\<close>

text \<open>The two goroutines around the queue and the channel of capacity one: the tick adds a batch and then kicks
  without blocking, the sender delivers until the queue is empty, parks until a kick, and retries after a failure.\<close>

datatype senderPhase = Draining | Parked | Retrying

record wakeState =
  wk_queue :: nat
  wk_kick :: bool
  wk_adding :: bool
  wk_phase :: senderPhase

definition wakeStart :: "nat \<Rightarrow> wakeState" where
  "wakeStart n = \<lparr>wk_queue = n, wk_kick = (0 < n), wk_adding = False, wk_phase = Draining\<rparr>"

inductive wakeStep :: "wakeState \<Rightarrow> wakeState \<Rightarrow> bool" where
  added: "\<not> wk_adding w \<Longrightarrow> 0 < n \<Longrightarrow> n \<le> Suc (wk_queue w) \<Longrightarrow> wakeStep w (w\<lparr>wk_queue := n, wk_adding := True\<rparr>)"
| kicked: "wk_adding w \<Longrightarrow> wakeStep w (w\<lparr>wk_kick := True, wk_adding := False\<rparr>)"
| removed: "wk_phase w = Draining \<Longrightarrow> 0 < wk_queue w \<Longrightarrow> wakeStep w (w\<lparr>wk_queue := wk_queue w - 1\<rparr>)"
| drained: "wk_phase w = Draining \<Longrightarrow> wk_queue w = 0 \<Longrightarrow> wakeStep w (w\<lparr>wk_phase := Parked\<rparr>)"
| failed: "wk_phase w = Draining \<Longrightarrow> wakeStep w (w\<lparr>wk_phase := Retrying\<rparr>)"
| retried: "wk_phase w = Retrying \<Longrightarrow> wakeStep w (w\<lparr>wk_phase := Draining\<rparr>)"
| woken: "wk_phase w = Parked \<Longrightarrow> wk_kick w \<Longrightarrow> wakeStep w (w\<lparr>wk_kick := False, wk_phase := Draining\<rparr>)"

lemma wake_inv:
  "wakeStep\<^sup>*\<^sup>* (wakeStart n) w \<Longrightarrow> wk_phase w = Parked \<Longrightarrow> 0 < wk_queue w \<Longrightarrow> wk_kick w \<or> wk_adding w"
proof (induction rule: rtranclp_induct)
  case base
  then show ?case by (simp add: wakeStart_def)
next
  case (step w w')
  from step.hyps(2) show ?case
    by cases (use step.IH step.prems in auto)
qed

lemma wake_path:
  assumes "wakeStep\<^sup>*\<^sup>* (wakeStart n) w" "0 < wk_queue w"
  shows "\<exists>w'. wakeStep\<^sup>*\<^sup>* w w' \<and> wk_phase w' = Draining \<and> wk_queue w' = wk_queue w"
proof (cases "wk_phase w")
  case Draining
  then show ?thesis by blast
next
  case Retrying
  then show ?thesis using wakeStep.retried by (intro exI [of _ "w\<lparr>wk_phase := Draining\<rparr>"]) auto
next
  case Parked
  have woken: "\<exists>w'. wakeStep\<^sup>*\<^sup>* v w' \<and> wk_phase w' = Draining \<and> wk_queue w' = wk_queue v" if "wk_phase v = Parked" "wk_kick v" for v
    using wakeStep.woken [OF that] by (intro exI [of _ "v\<lparr>wk_kick := False, wk_phase := Draining\<rparr>"]) auto
  show ?thesis
  proof (cases "wk_kick w")
    case True
    then show ?thesis using woken Parked by blast
  next
    case False
    then have "wk_adding w" using wake_inv [OF assms(1) Parked assms(2)] by simp
    from wakeStep.kicked [OF this] woken [of "w\<lparr>wk_kick := True, wk_adding := False\<rparr>"] Parked show ?thesis
      by (auto intro: converse_rtranclp_into_rtranclp)
  qed
qed

text \<open>No wake-up is lost between the tick and the sender: in every interleaving, whenever a batch is queued, a parked
  sender has a kick pending or the tick under way is about to kick, so that from every such state a drain that still has
  the batches queued can be reached.\<close>

lemma no_lost_wakeup:
  assumes "wakeStep\<^sup>*\<^sup>* (wakeStart n) w" "0 < wk_queue w"
  shows "(wk_phase w = Parked \<longrightarrow> wk_kick w \<or> wk_adding w) \<and>
    (\<exists>w'. wakeStep\<^sup>*\<^sup>* w w' \<and> wk_phase w' = Draining \<and> wk_queue w' = wk_queue w)"
  using wake_path [OF assms] wake_inv [OF assms(1) _ assms(2)] by blast

lemma no_lost_wakeup_witness:
  "\<exists>w'. wakeStep\<^sup>*\<^sup>* \<lparr>wk_queue = 1, wk_kick = False, wk_adding = True, wk_phase = Parked\<rparr> w' \<and> wk_phase w' = Draining \<and> wk_queue w' = 1"
proof -
  have "wakeStep (wakeStart 0) \<lparr>wk_queue = 0, wk_kick = False, wk_adding = False, wk_phase = Parked\<rparr>"
    using wakeStep.drained [of "wakeStart 0"] by (simp add: wakeStart_def)
  moreover have "wakeStep \<lparr>wk_queue = 0, wk_kick = False, wk_adding = False, wk_phase = Parked\<rparr>
      \<lparr>wk_queue = 1, wk_kick = False, wk_adding = True, wk_phase = Parked\<rparr>"
    using wakeStep.added [of "\<lparr>wk_queue = 0, wk_kick = False, wk_adding = False, wk_phase = Parked\<rparr>" 1] by simp
  ultimately have "wakeStep\<^sup>*\<^sup>* (wakeStart 0) \<lparr>wk_queue = 1, wk_kick = False, wk_adding = True, wk_phase = Parked\<rparr>"
    by (meson converse_rtranclp_into_rtranclp rtranclp.rtrancl_refl)
  from no_lost_wakeup [OF this] show ?thesis by simp
qed

subsection \<open>What the server reads\<close>

text \<open>\<^verbatim>\<open>json.Marshal\<close> writes U+FFFD for a byte that is no part of a rune, so the reader gets its three bytes.\<close>

function jsonRunes :: "nat list \<Rightarrow> nat list" where
  "jsonRunes bs =
     (if bs = [] then []
      else if runeWidth bs = 0 then [239, 191, 189] @ jsonRunes (tl bs)
      else take (runeWidth bs) bs @ jsonRunes (drop (runeWidth bs) bs))"
  by pat_completeness auto
termination by (relation "measure length") auto

declare jsonRunes.simps [simp del]

definition jsonText :: "string \<Rightarrow> string" where
  "jsonText s = map char_of (jsonRunes (map byte s))"






lemma jsonRunes_Nil [simp]: "jsonRunes [] = []" by (simp add: jsonRunes.simps)

lemma jsonText_Nil [simp]: "jsonText [] = []" by (simp add: jsonText_def)





subsection \<open>Batches and the contract\<close>
















lemma take_letters: "take (2 * k) (concat (replicate (k + m) [a, b])) = concat (replicate k [a, b])"
  by (induction k) auto











subsection \<open>The collectors of \<^verbatim>\<open>agent run\<close>\<close>





end
