(* ===== verification/Uptime.thy ===== *)
theory Uptime
  imports Ratelimit Apierror "HOL-Library.Product_Lexorder"
begin

section \<open>The uptime prober (internal/uptime)\<close>

text \<open>
  Targets with their validation, the two tables of migration 0005 with every statement of the store,
  the checker's reading of a probe, the service, and the scheduler as a step relation over its
  goroutines. The network is an argument: a probe has an outcome, and \<open>parseURL\<close> is \<^verbatim>\<open>url.Parse\<close>. An
  error of the network comes with its text and whether it is a timeout.
\<close>

definition MaxTargets :: nat where "MaxTargets = 50"
definition MinIntervalSeconds :: int where "MinIntervalSeconds = 30"
definition MaxIntervalSeconds :: int where "MaxIntervalSeconds = 3600"
definition DefaultInterval :: int where "DefaultInterval = 60"
definition MaxNameBytes :: nat where "MaxNameBytes = 80"
definition MaxURLBytes :: nat where "MaxURLBytes = 2048"
definition CheckTimeout :: duration where "CheckTimeout = 10 * second"

subsection \<open>Targets\<close>

record newTarget =
  nt_name :: string
  nt_kind :: string
  nt_address :: string
  nt_interval :: int

record target =
  t_id :: string
  t_name :: string
  t_kind :: string
  t_address :: string
  t_interval :: int
  t_created :: time

record urlParts =
  u_scheme :: string
  u_hostname :: string
  u_hasUser :: bool
  u_port :: string

definition badPort :: "string \<Rightarrow> bool" where
  "badPort p = (case atoi p of None \<Rightarrow> True | Some n \<Rightarrow> n < 1 \<or> 65535 < n)"

definition validateURL :: "(string \<Rightarrow> urlParts option) \<Rightarrow> string \<Rightarrow> unit result" where
  "validateURL parseURL raw =
     (if raw = [] \<or> MaxURLBytes < length raw then Inl (Invalid (''target must be an http(s) URL of at most '' @ itoa MaxURLBytes @ '' bytes''))
      else case parseURL raw of
             None \<Rightarrow> Inl (Invalid ''target must be an absolute http(s) URL'')
           | Some u \<Rightarrow>
               if (u_scheme u \<noteq> ''http'' \<and> u_scheme u \<noteq> ''https'') \<or> u_hostname u = [] then Inl (Invalid ''target must be an absolute http(s) URL'')
               else if u_hasUser u then Inl (Invalid ''target must not contain credentials'')
               else if u_port u \<noteq> [] \<and> badPort (u_port u) then Inl (Invalid ''target has an invalid port'')
               else Inr ())"

definition portOf :: "string \<Rightarrow> string" where
  "portOf hp = rev (takeWhile (\<lambda>c. c \<noteq> CHR '':'') (rev hp))"

definition validateHostPort :: "string \<Rightarrow> unit result" where
  "validateHostPort raw =
     (case splitHostPort raw of
        None \<Rightarrow> Inl (Invalid ''target must be host:port'')
      | Some host \<Rightarrow>
          if host = [] \<or> 253 < length host then Inl (Invalid ''target must be host:port'')
          else if containsAny host [CHR '' '', CHR ''/'', char_of (92::nat), CHR ''@''] then Inl (Invalid ''target host contains invalid characters'')
          else if badPort (portOf raw) then Inl (Invalid ''target has an invalid port'')
          else Inr ())"

definition targetValidate :: "(string \<Rightarrow> urlParts option) \<Rightarrow> newTarget \<Rightarrow> newTarget result" where
  "targetValidate parseURL n0 =
     (let n = n0\<lparr>nt_name := trimSpace (nt_name n0), nt_address := trimSpace (nt_address n0)\<rparr>
      in if nt_name n = [] \<or> MaxNameBytes < length (nt_name n) then Inl (Invalid (''name must contain 1..'' @ itoa MaxNameBytes @ '' bytes''))
         else
           let n1 = (if nt_interval n = 0 then n\<lparr>nt_interval := DefaultInterval\<rparr> else n)
           in if nt_interval n1 < MinIntervalSeconds \<or> MaxIntervalSeconds < nt_interval n1
              then Inl (Invalid (''interval_seconds must be between '' @ itoa 30 @ '' and '' @ itoa 3600))
              else if nt_kind n1 = ''http'' then result_bind (validateURL parseURL (nt_address n1)) (\<lambda>_. Inr n1)
              else if nt_kind n1 = ''tcp'' \<or> nt_kind n1 = ''tls'' then result_bind (validateHostPort (nt_address n1)) (\<lambda>_. Inr n1)
              else Inl (Invalid ''kind must be http, tcp or tls''))"

subsection \<open>Probes\<close>

record upResult =
  re_target :: string
  re_ts :: time
  re_ok :: bool
  re_latency :: "int option"
  re_status :: "int option"
  re_error :: string
  re_cert :: "time option"

text \<open>What the network does: it answers (after a number of milliseconds, with a status for HTTP and the
  expiry of the certificate if there is one), or it fails.\<close>

datatype probe =
    ProbeAnswered int int "time option"
  | ProbeFailed string bool

definition maxRedirects :: nat where "maxRedirects = 5"
definition maxErrorLen :: nat where "maxErrorLen = 300"

definition describe :: "string \<Rightarrow> bool \<Rightarrow> string \<Rightarrow> string" where
  "describe timeoutText timeout text = (if timeout then ''timeout after '' @ timeoutText else text)"

text \<open>The ellipsis is the three bytes of U+2026.\<close>

definition trimError :: "string \<Rightarrow> string" where
  "trimError s0 =
     (let s = trimSpace s0
      in if maxErrorLen < length s then take maxErrorLen s @ map char_of [226, 128, 166 :: nat] else s)"

definition redirectAllowed :: "nat \<Rightarrow> bool" where
  "redirectAllowed via = (\<not> maxRedirects \<le> via)"

definition checkHTTP :: "string \<Rightarrow> string option \<Rightarrow> probe \<Rightarrow> upResult \<Rightarrow> upResult" where
  "checkHTTP timeoutText requestError p res =
     (case requestError of
        Some e \<Rightarrow> res\<lparr>re_error := e\<rparr>
      | None \<Rightarrow>
          (case p of
             ProbeFailed text timeout \<Rightarrow> res\<lparr>re_error := describe timeoutText timeout text\<rparr>
           | ProbeAnswered ms code cert \<Rightarrow>
               let res1 = res\<lparr>re_latency := Some ms, re_status := Some code, re_cert := cert\<rparr>
               in if code < 200 \<or> 399 < code then res1\<lparr>re_error := ''unexpected status '' @ (if code < 0 then CHR ''-'' # itoa (nat (- code)) else itoa (nat code))\<rparr>
                  else res1\<lparr>re_ok := True\<rparr>))"

definition checkTCP :: "string \<Rightarrow> probe \<Rightarrow> upResult \<Rightarrow> upResult" where
  "checkTCP timeoutText p res =
     (case p of
        ProbeFailed text timeout \<Rightarrow> res\<lparr>re_error := describe timeoutText timeout text\<rparr>
      | ProbeAnswered ms _ _ \<Rightarrow> res\<lparr>re_latency := Some ms, re_ok := True\<rparr>)"

text \<open>The dial and the handshake are two outcomes; the latency is that of both.\<close>

definition checkTLS :: "string \<Rightarrow> string option \<Rightarrow> probe \<Rightarrow> probe \<Rightarrow> upResult \<Rightarrow> upResult" where
  "checkTLS timeoutText addressError dial handshake res =
     (case addressError of
        Some e \<Rightarrow> res\<lparr>re_error := e\<rparr>
      | None \<Rightarrow>
          (case dial of
             ProbeFailed text timeout \<Rightarrow> res\<lparr>re_error := describe timeoutText timeout text\<rparr>
           | ProbeAnswered _ _ _ \<Rightarrow>
               (case handshake of
                  ProbeFailed text timeout \<Rightarrow> res\<lparr>re_error := describe timeoutText timeout text\<rparr>
                | ProbeAnswered ms _ cert \<Rightarrow> res\<lparr>re_latency := Some ms, re_cert := cert, re_ok := True\<rparr>)))"

definition Check :: "string \<Rightarrow> time \<Rightarrow> string option \<Rightarrow> probe \<Rightarrow> probe \<Rightarrow> target \<Rightarrow> upResult" where
  "Check timeoutText now badAddress p handshake t =
     (let res = \<lparr>re_target = t_id t, re_ts = truncateTo millisecond now, re_ok = False, re_latency = None, re_status = None,
                 re_error = [], re_cert = None\<rparr>;
          res1 = (if t_kind t = ''http'' then checkHTTP timeoutText badAddress p res
                  else if t_kind t = ''tcp'' then checkTCP timeoutText p res
                  else if t_kind t = ''tls'' then checkTLS timeoutText badAddress p handshake res
                  else res\<lparr>re_error := ''unknown target kind '' @ t_kind t\<rparr>)
      in res1\<lparr>re_error := trimError (re_error res1)\<rparr>)"

subsection \<open>The tables\<close>

record updb =
  targets :: "target list"
  results :: "upResult list"

definition resultKey :: "upResult \<Rightarrow> string \<times> int" where
  "resultKey r = (re_target r, unixMilli (re_ts r))"

definition CreateTarget :: "error option \<Rightarrow> string option \<Rightarrow> newTarget \<Rightarrow> time \<Rightarrow> updb \<Rightarrow> target result \<times> updb" where
  "CreateTarget fault rnd n now db =
     (case rnd of
        None \<Rightarrow> (Inl (OtherError ''uptime: generate target id''), db)
      | Some tid \<Rightarrow>
          let t = \<lparr>t_id = tid, t_name = nt_name n, t_kind = nt_kind n, t_address = nt_address n, t_interval = nt_interval n,
                   t_created = truncateTo millisecond now\<rparr>
          in (case fault of
                Some e \<Rightarrow> (Inl e, db)
              | None \<Rightarrow>
                  if MaxTargets \<le> length (targets db) then (Inl (Conflict ''target limit reached (50)''), db)
                  else if \<exists>x\<in>set (targets db). t_id x = tid \<or> t_name x = nt_name n then (Inl (Conflict ''a target with this name already exists''), db)
                  else (Inr t, db\<lparr>targets := targets db @ [t]\<rparr>)))"

definition ListTargets :: "error option \<Rightarrow> updb \<Rightarrow> target list result" where
  "ListTargets fault db = (case fault of Some e \<Rightarrow> Inl e | None \<Rightarrow> Inr (sort_key (\<lambda>t. (t_name t, t_id t)) (targets db)))"

definition DeleteTarget :: "error option \<Rightarrow> string \<Rightarrow> updb \<Rightarrow> unit result \<times> updb" where
  "DeleteTarget fault tid db =
     (case fault of
        Some e \<Rightarrow> (Inl e, db)
      | None \<Rightarrow>
          if tid \<notin> t_id ` set (targets db) then (Inl (NotFound ''target not found''), db)
          else (Inr (), db\<lparr>targets := filter (\<lambda>t. t_id t \<noteq> tid) (targets db), results := filter (\<lambda>r. re_target r \<noteq> tid) (results db)\<rparr>))"

text \<open>Times are stored in milliseconds; a second result of a target for the same millisecond is ignored, one
  for a target that is gone is refused by the foreign key.\<close>

definition storedResult :: "upResult \<Rightarrow> upResult" where
  "storedResult r = r\<lparr>re_ts := ofMilli (unixMilli (re_ts r)), re_cert := map_option (\<lambda>t. ofMilli (unixMilli t)) (re_cert r)\<rparr>"

definition InsertResult :: "error option \<Rightarrow> upResult \<Rightarrow> updb \<Rightarrow> unit result \<times> updb" where
  "InsertResult fault r db =
     (case fault of
        Some e \<Rightarrow> (Inl e, db)
      | None \<Rightarrow>
          if resultKey r \<in> resultKey ` set (results db) then (Inr (), db)
          else if re_target r \<notin> t_id ` set (targets db) then (Inl (OtherError ''uptime: insert result''), db)
          else (Inr (), db\<lparr>results := results db @ [storedResult r]\<rparr>))"

definition latestOf :: "string \<Rightarrow> updb \<Rightarrow> upResult option" where
  "latestOf tid db =
     (let rs = filter (\<lambda>r. re_target r = tid) (results db)
      in find (\<lambda>r. \<forall>x\<in>set rs. unixMilli (re_ts x) \<le> unixMilli (re_ts r)) rs)"

definition Latest :: "error option \<Rightarrow> updb \<Rightarrow> (string \<times> upResult) list result" where
  "Latest fault db =
     (case fault of
        Some e \<Rightarrow> Inl e
      | None \<Rightarrow> Inr (List.map_filter (\<lambda>t. map_option (Pair (t_id t)) (latestOf (t_id t) db)) (targets db)))"

definition History :: "time \<Rightarrow> string \<Rightarrow> updb \<Rightarrow> (int \<times> int option) list" where
  "History since tid db =
     map (\<lambda>r. (unixMilli (re_ts r), re_latency r))
       (sort_key (\<lambda>r. unixMilli (re_ts r)) (filter (\<lambda>r. re_target r = tid \<and> unixMilli since \<le> unixMilli (re_ts r)) (results db)))"

text \<open>The rows \<^verbatim>\<open>LIMIT\<close> keeps are the first of the table.\<close>

definition PurgeResults :: "error option \<Rightarrow> time \<Rightarrow> nat \<Rightarrow> updb \<Rightarrow> nat result \<times> updb" where
  "PurgeResults fault before n db =
     (case fault of
        Some e \<Rightarrow> (Inl e, db)
      | None \<Rightarrow>
          let gone = take n (filter (\<lambda>r. unixMilli (re_ts r) < unixMilli before) (results db))
          in (Inr (length gone), db\<lparr>results := filter (\<lambda>r. resultKey r \<notin> resultKey ` set gone) (results db)\<rparr>))"

subsection \<open>The service\<close>

definition firstRunJitterMax :: duration where "firstRunJitterMax = 10 * second"
definition upPurgeBatch :: nat where "upPurgeBatch = 5000"
definition historyWindow :: duration where "historyWindow = hour"

text \<open>\<open>Sync\<close> wakes the scheduler; its channel holds one request.\<close>

definition CreateSvc ::
  "(string \<Rightarrow> urlParts option) \<Rightarrow> error option \<Rightarrow> string option \<Rightarrow> newTarget \<Rightarrow> time \<Rightarrow> updb \<times> bool \<Rightarrow> target result \<times> updb \<times> bool" where
  "CreateSvc parseURL fault rnd n now st =
     (case st of (db, sync) \<Rightarrow>
        case targetValidate parseURL n of
          Inl e \<Rightarrow> (Inl e, db, sync)
        | Inr v \<Rightarrow>
            (case CreateTarget fault rnd v now db of
               (Inl e, db') \<Rightarrow> (Inl e, db', sync)
             | (Inr t, db') \<Rightarrow> (Inr t, db', True)))"

definition DeleteSvc :: "error option \<Rightarrow> string \<Rightarrow> updb \<times> bool \<Rightarrow> unit result \<times> updb \<times> bool" where
  "DeleteSvc fault tid st =
     (case st of (db, sync) \<Rightarrow>
        case DeleteTarget fault tid db of
          (Inl e, db') \<Rightarrow> (Inl e, db', sync)
        | (Inr _, db') \<Rightarrow> (Inr (), db', True))"

record targetView =
  tv_target :: target
  tv_last :: "upResult option"
  tv_latency :: "(int \<times> int option) list"

definition Targets :: "error option \<Rightarrow> error option \<Rightarrow> error option \<Rightarrow> time \<Rightarrow> updb \<Rightarrow> targetView list result" where
  "Targets listFault latestFault historyFault now db =
     result_bind (ListTargets listFault db) (\<lambda>ts.
     result_bind (Latest latestFault db) (\<lambda>latest.
       case historyFault of
         Some e \<Rightarrow> Inl e
       | None \<Rightarrow>
           Inr (map (\<lambda>t. \<lparr>tv_target = t, tv_last = map_of latest (t_id t), tv_latency = History (now - historyWindow) (t_id t) db\<rparr>) ts)))"

lemma PurgeResults_shrinks:
  assumes "PurgeResults f before n db = (Inr (Suc k), db')"
  shows "length (results db') < length (results db)"
proof -
  define gone where "gone = take n (filter (\<lambda>r. unixMilli (re_ts r) < unixMilli before) (results db))"
  have db': "results db' = filter (\<lambda>r. resultKey r \<notin> resultKey ` set gone) (results db)" and "length gone = Suc k"
    using assms by (auto simp: PurgeResults_def Let_def gone_def split: option.splits)
  then show ?thesis unfolding db' by (intro length_filter_keys_less) (auto simp: gone_def dest: in_set_takeD)
qed

text \<open>The retention loop: it ends when a statement deletes nothing or fails.\<close>

function upPurge :: "(nat \<Rightarrow> error option) \<Rightarrow> time \<Rightarrow> nat \<Rightarrow> updb \<Rightarrow> updb" where
  "upPurge faults before i db =
     (case PurgeResults (faults i) before upPurgeBatch db of
        (Inl e, db') \<Rightarrow> db'
      | (Inr n, db') \<Rightarrow> if n = 0 then db' else upPurge faults before (Suc i) db')"
  by pat_completeness auto

termination
proof (relation "measure (\<lambda>(faults, before, i, db). length (results db))", goal_cases)
  case 1
  show ?case by simp
next
  case (2 faults before i db x y n)
  then show ?case by (cases n) (auto intro: PurgeResults_shrinks [OF sym])
qed

declare upPurge.simps [simp del]

definition purge :: "(nat \<Rightarrow> error option) \<Rightarrow> duration \<Rightarrow> time \<Rightarrow> updb \<Rightarrow> updb" where
  "purge faults retention now db =
     (if retention \<le> 0 then db else upPurge faults (now - retention) 0 db)"


subsection \<open>The scheduler\<close>

text \<open>
  The goroutines of \<^verbatim>\<open>Run\<close>, one per started worker, with the point each is at and whether its context is
  cancelled; the live ones are the keys of the map \<^verbatim>\<open>workers\<close>. A slot of the channel \<^verbatim>\<open>slots\<close> is held
  exactly while probing. Every step below is one atomic action of one goroutine or of the loop,
  in any order.
\<close>

definition maxConcurrentChecks :: nat where "maxConcurrentChecks = 8"

datatype gphase = GSleep | GWait | GProbe | GChecked upResult | GStore upResult

record goroutine =
  g_target :: target
  g_phase :: gphase
  g_cancelled :: bool

record sched =
  s_workers :: "goroutine list"
  s_db :: updb
  s_sync :: bool
  s_published :: "upResult list"

definition live :: "goroutine list \<Rightarrow> goroutine list" where
  "live gs = filter (\<lambda>g. \<not> g_cancelled g) gs"

definition probing :: "goroutine list \<Rightarrow> nat" where
  "probing gs = length (filter (\<lambda>g. g_phase g = GProbe) gs)"

definition reconcile :: "target list \<Rightarrow> goroutine list \<Rightarrow> goroutine list" where
  "reconcile ts gs =
     map (\<lambda>g. if \<not> g_cancelled g \<and> t_id (g_target g) \<notin> t_id ` set ts then g\<lparr>g_cancelled := True\<rparr> else g) gs @
     map (\<lambda>t. \<lparr>g_target = t, g_phase = GSleep, g_cancelled = False\<rparr>)
       (filter (\<lambda>t. t_id t \<notin> (\<lambda>g. t_id (g_target g)) ` set (live gs)) ts)"

definition setPhase :: "nat \<Rightarrow> gphase \<Rightarrow> sched \<Rightarrow> sched" where
  "setPhase i p st = st\<lparr>s_workers := (s_workers st)[i := (s_workers st ! i)\<lparr>g_phase := p\<rparr>]\<rparr>"

definition removeAt :: "nat \<Rightarrow> sched \<Rightarrow> sched" where
  "removeAt i st = st\<lparr>s_workers := take i (s_workers st) @ drop (Suc i) (s_workers st)\<rparr>"

inductive upStep :: "sched \<Rightarrow> sched \<Rightarrow> bool" where
  create: "CreateSvc parseURL fault rnd n now (s_db st, s_sync st) = (r, db', sync') \<Longrightarrow> upStep st (st\<lparr>s_db := db', s_sync := sync'\<rparr>)"
| delete: "DeleteSvc fault tid (s_db st, s_sync st) = (r', db', sync') \<Longrightarrow> upStep st (st\<lparr>s_db := db', s_sync := sync'\<rparr>)"
| resync: "ListTargets None (s_db st) = Inr ts \<Longrightarrow> upStep st (st\<lparr>s_workers := reconcile ts (s_workers st), s_sync := False\<rparr>)"
| wake: "i < length (s_workers st) \<Longrightarrow> g_phase (s_workers st ! i) = GSleep \<Longrightarrow> upStep st (setPhase i GWait st)"
| slot: "i < length (s_workers st) \<Longrightarrow> g_phase (s_workers st ! i) = GWait \<Longrightarrow> probing (s_workers st) < maxConcurrentChecks \<Longrightarrow>
    upStep st (setPhase i GProbe st)"
| probed: "i < length (s_workers st) \<Longrightarrow> g_phase (s_workers st ! i) = GProbe \<Longrightarrow>
    upStep st (setPhase i (GChecked (Check tt now ba p h (g_target (s_workers st ! i)))) st)"
| proceed: "i < length (s_workers st) \<Longrightarrow> g_phase (s_workers st ! i) = GChecked res \<Longrightarrow> \<not> g_cancelled (s_workers st ! i) \<Longrightarrow>
    upStep st (setPhase i (GStore res) st)"
| moot: "i < length (s_workers st) \<Longrightarrow> g_phase (s_workers st ! i) = GChecked res \<Longrightarrow> g_cancelled (s_workers st ! i) \<Longrightarrow>
    upStep st (removeAt i st)"
| store: "i < length (s_workers st) \<Longrightarrow> g_phase (s_workers st ! i) = GStore res \<Longrightarrow> InsertResult fault res (s_db st) = (r', db') \<Longrightarrow>
    upStep st ((setPhase i GSleep st)\<lparr>s_db := db', s_published := s_published st @ (case r' of Inr _ \<Rightarrow> [res] | Inl _ \<Rightarrow> [])\<rparr>)"
| stop: "i < length (s_workers st) \<Longrightarrow> g_cancelled (s_workers st ! i) \<Longrightarrow> g_phase (s_workers st ! i) \<in> {GSleep, GWait} \<Longrightarrow>
    upStep st (removeAt i st)"
| retain: "upStep st (st\<lparr>s_db := purge faults retention now (s_db st)\<rparr>)"

subsection \<open>What is kept\<close>

definition target_ok :: "target \<Rightarrow> bool" where
  "target_ok t \<longleftrightarrow> 1 \<le> length (t_name t) \<and> length (t_name t) \<le> 80 \<and> 30 \<le> t_interval t \<and> t_interval t \<le> 3600 \<and>
     t_kind t \<in> {''http'', ''tcp'', ''tls''}"

definition up_inv :: "updb \<Rightarrow> bool" where
  "up_inv db \<longleftrightarrow> length (targets db) \<le> 50 \<and> distinct (map t_id (targets db)) \<and> distinct (map t_name (targets db)) \<and>
     (\<forall>t\<in>set (targets db). target_ok t) \<and>
     (\<forall>r\<in>set (results db). re_target r \<in> t_id ` set (targets db)) \<and> distinct (map resultKey (results db))"

lemma targetValidate_ok:
  assumes "targetValidate parseURL n = Inr v"
  shows "1 \<le> length (nt_name v) \<and> length (nt_name v) \<le> 80 \<and> 30 \<le> nt_interval v \<and> nt_interval v \<le> 3600 \<and> nt_kind v \<in> {''http'', ''tcp'', ''tls''}"
  using assms by (auto simp: targetValidate_def Let_def MaxNameBytes_def MinIntervalSeconds_def MaxIntervalSeconds_def DefaultInterval_def
      result_bind_eq_Inr Suc_le_eq split: if_splits)

lemma CreateSvc_inv: "up_inv db \<Longrightarrow> CreateSvc parseURL fault rnd n now (db, sync) = (r, db', sync') \<Longrightarrow> up_inv db'"
proof -
  assume inv: "up_inv db" and c: "CreateSvc parseURL fault rnd n now (db, sync) = (r, db', sync')"
  show ?thesis
  proof (cases "targetValidate parseURL n")
    case (Inl e)
    then show ?thesis using c inv by (simp add: CreateSvc_def)
  next
    case (Inr v)
    obtain r1 db1 where t: "CreateTarget fault rnd v now db = (r1, db1)" by fastforce
    then have "db' = db1" using c Inr by (cases r1) (auto simp: CreateSvc_def)
    then show ?thesis using t inv targetValidate_ok [OF Inr]
      by (auto simp: CreateTarget_def up_inv_def Let_def MaxTargets_def target_ok_def split: option.splits if_splits; force)
  qed
qed

lemma DeleteSvc_inv: "up_inv db \<Longrightarrow> DeleteSvc fault tid (db, sync) = (r, db', sync') \<Longrightarrow> up_inv db'"
  by (auto simp: DeleteSvc_def DeleteTarget_def up_inv_def distinct_map_filter le_trans [OF length_filter_le] split: option.splits if_splits; force)

lemma resultKey_stored [simp]: "resultKey (storedResult r) = resultKey r" "re_target (storedResult r) = re_target r"
  by (simp_all add: resultKey_def storedResult_def)

lemma InsertResult_inv: "up_inv db \<Longrightarrow> InsertResult fault res db = (r, db') \<Longrightarrow> up_inv db'"
  by (auto simp: InsertResult_def up_inv_def split: option.splits if_splits)

lemma PurgeResults_inv: "up_inv db \<Longrightarrow> PurgeResults f before n db = (r, db') \<Longrightarrow> up_inv db'"
  by (auto simp: PurgeResults_def up_inv_def Let_def distinct_map_filter split: option.splits)

lemma upPurge_inv: "up_inv db \<Longrightarrow> up_inv (upPurge faults before i db)"
proof (induction faults before i db rule: upPurge.induct)
  case (1 faults before i db)
  obtain r db' where p: "PurgeResults (faults i) before upPurgeBatch db = (r, db')" by fastforce
  then have "up_inv db'" using PurgeResults_inv 1 by blast
  then show ?case using 1 p by (cases r) (auto simp: upPurge.simps [of faults before i db])
qed


definition sched_inv :: "sched \<Rightarrow> bool" where
  "sched_inv st \<longleftrightarrow> up_inv (s_db st) \<and> probing (s_workers st) \<le> maxConcurrentChecks \<and>
     distinct (map (\<lambda>g. t_id (g_target g)) (live (s_workers st)))"

lemma nth_split: "i < length xs \<Longrightarrow> xs = take i xs @ xs ! i # drop (Suc i) xs"
  by (simp add: id_take_nth_drop)

lemma update_split: "i < length xs \<Longrightarrow> xs[i := y] = take i xs @ y # drop (Suc i) xs"
  by (simp add: upd_conv_take_nth_drop)

lemma live_append [simp]: "live (a @ b) = live a @ live b" "live (g # b) = (if g_cancelled g then live b else g # live b)" "live [] = []"
  by (simp_all add: live_def)

lemma probing_append [simp]: "probing (a @ b) = probing a + probing b" "probing (g # b) = (if g_phase g = GProbe then 1 else 0) + probing b" "probing [] = 0"
  by (simp_all add: probing_def)

lemma live_update:
  assumes "i < length gs"
  shows "map (\<lambda>g. t_id (g_target g)) (live (gs[i := (gs ! i)\<lparr>g_phase := p\<rparr>])) = map (\<lambda>g. t_id (g_target g)) (live gs)"
proof -
  have "live gs = live (take i gs) @ live (gs ! i # drop (Suc i) gs)" by (subst nth_split [OF assms]) simp
  then show ?thesis using update_split [OF assms, of "(gs ! i)\<lparr>g_phase := p\<rparr>"] by simp
qed

lemma probing_update:
  assumes "i < length gs"
  shows "probing (gs[i := (gs ! i)\<lparr>g_phase := p\<rparr>]) + (if g_phase (gs ! i) = GProbe then 1 else 0) = probing gs + (if p = GProbe then 1 else 0)"
proof -
  have "probing gs = probing (take i gs) + probing (gs ! i # drop (Suc i) gs)" by (subst nth_split [OF assms]) simp
  then show ?thesis using update_split [OF assms, of "(gs ! i)\<lparr>g_phase := p\<rparr>"] by simp
qed

lemma setPhase_inv:
  assumes "sched_inv st" and "i < length (s_workers st)" and "p = GProbe \<longrightarrow> probing (s_workers st) < maxConcurrentChecks"
  shows "sched_inv (setPhase i p st)"
  using assms live_update [OF assms(2), of p] probing_update [OF assms(2), of p]
  by (auto simp: sched_inv_def setPhase_def split: if_splits)

lemma removeAt_inv:
  assumes "sched_inv st" and "i < length (s_workers st)" and "g_cancelled (s_workers st ! i)"
  shows "sched_inv (removeAt i st)"
proof -
  define a g b where "a = take i (s_workers st)" and "g = s_workers st ! i" and "b = drop (Suc i) (s_workers st)"
  have "s_workers st = a @ g # b" unfolding a_def g_def b_def by (rule nth_split [OF assms(2)])
  moreover have "s_workers (removeAt i st) = a @ b" "s_db (removeAt i st) = s_db st" by (simp_all add: removeAt_def a_def b_def)
  ultimately show ?thesis using assms(1,3) by (auto simp: sched_inv_def g_def [symmetric] split: if_splits)
qed

lemma reconcile_probing: "probing (reconcile ts gs) = probing gs"
proof -
  have "probing (map f gs) = probing gs" if "\<And>g. g_phase (f g) = g_phase g" for f
    using that by (induction gs) auto
  moreover have "probing (map (\<lambda>t. \<lparr>g_target = t, g_phase = GSleep, g_cancelled = False\<rparr>) xs) = 0" for xs
    by (induction xs) auto
  ultimately show ?thesis by (simp add: reconcile_def)
qed

lemma reconcile_live:
  "map (\<lambda>g. t_id (g_target g)) (live (reconcile ts gs)) =
   filter (\<lambda>i. i \<in> t_id ` set ts) (map (\<lambda>g. t_id (g_target g)) (live gs)) @
   filter (\<lambda>i. i \<notin> (\<lambda>g. t_id (g_target g)) ` set (live gs)) (map t_id ts)"
proof -
  have "map (\<lambda>g. t_id (g_target g)) (live (map (\<lambda>g. if \<not> g_cancelled g \<and> t_id (g_target g) \<notin> t_id ` set ts then g\<lparr>g_cancelled := True\<rparr> else g) gs)) =
      filter (\<lambda>i. i \<in> t_id ` set ts) (map (\<lambda>g. t_id (g_target g)) (live gs))"
    by (induction gs) auto
  moreover have "live (map (\<lambda>t. \<lparr>g_target = t, g_phase = GSleep, g_cancelled = False\<rparr>) xs) = map (\<lambda>t. \<lparr>g_target = t, g_phase = GSleep, g_cancelled = False\<rparr>) xs" for xs
    by (induction xs) auto
  ultimately show ?thesis by (simp add: reconcile_def filter_map comp_def)
qed

lemma reconcile_distinct:
  assumes "distinct (map (\<lambda>g. t_id (g_target g)) (live gs))" and "distinct (map t_id ts)"
  shows "distinct (map (\<lambda>g. t_id (g_target g)) (live (reconcile ts gs)))"
  unfolding reconcile_live using assms by auto

lemma ListTargets_set: "ListTargets None db = Inr ts \<Longrightarrow> mset ts = mset (targets db)"
  by (auto simp: ListTargets_def)

lemma upStep_inv: "upStep st st' \<Longrightarrow> sched_inv st \<Longrightarrow> sched_inv st'"
proof (induction rule: upStep.induct)
  case (create parseURL fault rnd n now st r db' sync')
  then show ?case using CreateSvc_inv [of "s_db st"] by (simp add: sched_inv_def)
next
  case (delete fault tid st r' db' sync')
  then show ?case using DeleteSvc_inv [of "s_db st"] by (simp add: sched_inv_def)
next
  case (resync st ts)
  have "distinct (map t_id ts)"
    using resync ListTargets_set [OF resync(1)] mset_eq_imp_distinct_iff [of "map t_id ts" "map t_id (targets (s_db st))"]
    by (simp add: sched_inv_def up_inv_def)
  then show ?case using resync by (simp add: sched_inv_def reconcile_probing reconcile_distinct)
next
  case (store i st res fault r' db')
  have "sched_inv (setPhase i GSleep st)" using store by (intro setPhase_inv) auto
  moreover have "up_inv db'" using InsertResult_inv [of "s_db st"] store by (simp add: sched_inv_def)
  ultimately show ?case by (simp add: sched_inv_def)
next
  case (retain st faults retention now)
  then show ?case by (simp add: sched_inv_def purge_def upPurge_inv)
qed (auto intro: setPhase_inv removeAt_inv)

lemma upSteps_inv: "upStep\<^sup>*\<^sup>* st st' \<Longrightarrow> sched_inv st \<Longrightarrow> sched_inv st'"
  by (induction rule: rtranclp_induct) (auto intro: upStep_inv)


lemma length_trimError: "length (trimError s) \<le> 303"
  by (simp add: trimError_def Let_def maxErrorLen_def)

lemma trimError_Nil [simp]: "trimError [] = []"
  by (simp add: trimError_def)

lemma resync_ids:
  assumes "ListTargets None db = Inr ts"
  shows "set (map (\<lambda>g. t_id (g_target g)) (live (reconcile ts gs))) = t_id ` set (targets db)"
proof -
  have "set ts = set (targets db)" using ListTargets_set [OF assms] by (metis set_mset_mset)
  then show ?thesis unfolding reconcile_live by auto
qed

text \<open>The retention loop deletes exactly the old results when nothing fails.\<close>

lemma PurgeResults_none:
  assumes "PurgeResults None before upPurgeBatch db = (Inr 0, db')"
  shows "\<forall>r\<in>set (results db'). unixMilli before \<le> unixMilli (re_ts r)"
proof -
  define old where "old = filter (\<lambda>r. unixMilli (re_ts r) < unixMilli before) (results db)"
  have "length (take upPurgeBatch old) = 0" and db': "set (results db') \<subseteq> set (results db)"
    using assms by (auto simp: PurgeResults_def Let_def old_def)
  then have "old = []" by (cases old) (auto simp: upPurgeBatch_def)
  then have "\<forall>r\<in>set (results db). \<not> unixMilli (re_ts r) < unixMilli before" unfolding old_def filter_empty_conv .
  then show ?thesis using db' by (auto simp: not_less)
qed

lemma PurgeResults_young:
  assumes "PurgeResults f before n db = (r, db')"
  shows "filter (\<lambda>r. unixMilli before \<le> unixMilli (re_ts r)) (results db') = filter (\<lambda>r. unixMilli before \<le> unixMilli (re_ts r)) (results db)"
proof (cases f)
  case None
  define gone where "gone = take n (filter (\<lambda>r. unixMilli (re_ts r) < unixMilli before) (results db))"
  have "results db' = filter (\<lambda>r. resultKey r \<notin> resultKey ` set gone) (results db)"
    using assms None by (auto simp: PurgeResults_def Let_def gone_def)
  moreover have "resultKey x \<notin> resultKey ` set gone" if "unixMilli before \<le> unixMilli (re_ts x)" for x
    using that by (auto simp: gone_def resultKey_def dest!: in_set_takeD)
  ultimately show ?thesis by (auto simp: filter_filter conj_commute cong: conj_cong intro!: filter_cong)
qed (use assms in \<open>simp add: PurgeResults_def\<close>)

lemma upPurge_exact:
  "filter (\<lambda>r. unixMilli before \<le> unixMilli (re_ts r)) (results (upPurge faults before i db)) = filter (\<lambda>r. unixMilli before \<le> unixMilli (re_ts r)) (results db) \<and>
   ((\<forall>j. faults j = None) \<longrightarrow> (\<forall>r\<in>set (results (upPurge faults before i db)). unixMilli before \<le> unixMilli (re_ts r)))"
proof (induction faults before i db rule: upPurge.induct)
  case (1 faults before i db)
  obtain r db' where p: "PurgeResults (faults i) before upPurgeBatch db = (r, db')" by fastforce
  note y = PurgeResults_young [OF p]
  show ?case
  proof (cases r)
    case (Inl e)
    then have "faults i \<noteq> None" using p by (auto simp: PurgeResults_def Let_def split: option.splits)
    then show ?thesis using p y Inl by (auto simp: upPurge.simps [of faults before i db])
  next
    case (Inr n)
    show ?thesis
    proof (cases "n = 0")
      case True
      then have e: "upPurge faults before i db = db'" using p Inr by (simp add: upPurge.simps [of faults before i db])
      have "\<forall>r\<in>set (results db'). unixMilli before \<le> unixMilli (re_ts r)" if "\<forall>j. faults j = None"
        using p Inr True PurgeResults_none [of before db db'] that by simp
      then show ?thesis unfolding e using y by blast
    next
      case False
      then have e: "upPurge faults before i db = upPurge faults before (Suc i) db'" using p Inr by (simp add: upPurge.simps [of faults before i db])
      show ?thesis unfolding e using 1 [OF p [symmetric] Inr False] y by metis
    qed
  qed
qed

subsection \<open>Properties\<close>

definition startSched :: sched where
  "startSched = \<lparr>s_workers = [], s_db = \<lparr>targets = [], results = []\<rparr>, s_sync = False, s_published = []\<rparr>"

lemma startSched_inv: "sched_inv startSched"
  by (simp add: sched_inv_def startSched_def up_inv_def)

text \<open>C25 (invariant). In every interleaving of requests, workers, probes and retention runs there are at most eight
  probes in flight and at most one live worker per target; there are at most fifty targets, with
  unique names and valid settings, and every result belongs to an existing target and to its own
  millisecond, also when a target is deleted during a probe. After a resync the live workers are
  exactly those of the stored targets.\<close>

theorem scheduler_safe:
  assumes "upStep\<^sup>*\<^sup>* startSched st"
  shows "probing (s_workers st) \<le> 8 \<and> distinct (map (\<lambda>g. t_id (g_target g)) (live (s_workers st))) \<and> up_inv (s_db st) \<and>
    (\<forall>ts. ListTargets None (s_db st) = Inr ts \<longrightarrow>
       set (map (\<lambda>g. t_id (g_target g)) (live (reconcile ts (s_workers st)))) = t_id ` set (targets (s_db st)))"
  using upSteps_inv [OF assms startSched_inv] resync_ids by (simp add: sched_inv_def maxConcurrentChecks_def)

definition demoNewTarget :: newTarget where
  "demoNewTarget = \<lparr>nt_name = ''db'', nt_kind = ''tcp'', nt_address = ''a:1'', nt_interval = 0\<rparr>"

definition demoTarget :: target where
  "demoTarget = \<lparr>t_id = ''t1'', t_name = ''db'', t_kind = ''tcp'', t_address = ''a:1'', t_interval = 60, t_created = 0\<rparr>"

lemma demo_valid: "targetValidate (\<lambda>_. None) demoNewTarget = Inr (demoNewTarget\<lparr>nt_interval := 60\<rparr>)"
proof -
  have t: "trimSpace ''db'' = ''db''" "trimSpace ''a:1'' = ''a:1''" by (rule trimSpace_plain; simp add: byte_def)+
  have "validateHostPort ''a:1'' = Inr ()"
    by (simp add: validateHostPort_def splitHostPort_def Let_def containsAny_def badPort_def portOf_def atoi_def isDigit_def byte_def char_of_def bit_0)
  then show ?thesis
    by (simp add: targetValidate_def Let_def t demoNewTarget_def MaxNameBytes_def MinIntervalSeconds_def MaxIntervalSeconds_def DefaultInterval_def)
qed

theorem scheduler_safe_witness:
  "\<exists>st. upStep\<^sup>*\<^sup>* startSched st \<and> probing (s_workers st) = 1 \<and> up_inv (s_db st)"
proof -
  define st1 where "st1 = startSched\<lparr>s_db := \<lparr>targets = [demoTarget], results = []\<rparr>, s_sync := True\<rparr>"
  define st2 where "st2 = st1\<lparr>s_workers := [\<lparr>g_target = demoTarget, g_phase = GSleep, g_cancelled = False\<rparr>], s_sync := False\<rparr>"
  define st3 where "st3 = st2\<lparr>s_workers := [\<lparr>g_target = demoTarget, g_phase = GWait, g_cancelled = False\<rparr>]\<rparr>"
  define st4 where "st4 = st3\<lparr>s_workers := [\<lparr>g_target = demoTarget, g_phase = GProbe, g_cancelled = False\<rparr>]\<rparr>"
  have "CreateSvc (\<lambda>_. None) None (Some ''t1'') demoNewTarget 0 (s_db startSched, s_sync startSched) = (Inr demoTarget, \<lparr>targets = [demoTarget], results = []\<rparr>, True)"
    unfolding CreateSvc_def demo_valid by (simp add: CreateTarget_def startSched_def MaxTargets_def Let_def demoTarget_def demoNewTarget_def truncateTo_def)
  from upStep.create [OF this] have 1: "upStep startSched st1" by (simp add: st1_def)
  have "upStep st1 (st1\<lparr>s_workers := reconcile [demoTarget] (s_workers st1), s_sync := False\<rparr>)"
    by (rule upStep.resync) (simp add: st1_def ListTargets_def)
  then have 2: "upStep st1 st2" by (simp add: st2_def st1_def reconcile_def startSched_def)
  have w: "s_workers st2 = [\<lparr>g_target = demoTarget, g_phase = GSleep, g_cancelled = False\<rparr>]"
    "s_workers st3 = [\<lparr>g_target = demoTarget, g_phase = GWait, g_cancelled = False\<rparr>]" by (simp_all add: st2_def st3_def)
  have 3: "upStep st2 st3" using upStep.wake [of 0 st2] w by (simp add: st3_def setPhase_def)
  have 4: "upStep st3 st4" using upStep.slot [of 0 st3] w by (simp add: st4_def setPhase_def maxConcurrentChecks_def)
  have r: "upStep\<^sup>*\<^sup>* startSched st4" using 1 2 3 4 by (meson converse_rtranclp_into_rtranclp rtranclp.rtrancl_refl)
  have "probing (s_workers st4) = 1" by (simp add: st4_def)
  then show ?thesis using r scheduler_safe [OF r] by blast
qed

text \<open>What a check reports: it is good exactly when the target answered (for HTTP with a status from
  200 to 399, for TLS after the handshake); a good result has a latency and no error, a target
  that did not answer has no latency, and an error text has at most 303 bytes.\<close>

lemma Check_honest:
  "let r = Check tt now bad p h t in
     re_target r = t_id t \<and> length (re_error r) \<le> 303 \<and>
     (re_ok r \<longleftrightarrow>
        (t_kind t = ''http'' \<and> bad = None \<and> (\<exists>ms code cert. p = ProbeAnswered ms code cert \<and> 200 \<le> code \<and> code \<le> 399)) \<or>
        (t_kind t = ''tcp'' \<and> (\<exists>ms code cert. p = ProbeAnswered ms code cert)) \<or>
        (t_kind t = ''tls'' \<and> bad = None \<and> (\<exists>a b c ms code cert. p = ProbeAnswered a b c \<and> h = ProbeAnswered ms code cert))) \<and>
     (if re_ok r then re_error r = [] \<and> re_latency r \<noteq> None
      else re_latency r \<noteq> None \<longrightarrow> t_kind t = ''http'' \<and> (\<exists>ms code cert. p = ProbeAnswered ms code cert \<and> re_status r = Some code))"
  by (auto simp: Check_def checkHTTP_def checkTCP_def checkTLS_def Let_def length_trimError split: probe.splits option.splits)

lemma Check_honest_witness:
  "let r = Check ''10s'' 0 None (ProbeAnswered 12 503 None) (ProbeAnswered 0 0 None)
      \<lparr>t_id = ''t'', t_name = ''site'', t_kind = ''http'', t_address = ''http://a'', t_interval = 60, t_created = 0\<rparr>
   in \<not> re_ok r \<and> re_target r = ''t''"
  using Check_honest [of "''10s''" 0 None "ProbeAnswered 12 503 None" "ProbeAnswered 0 0 None"
      "\<lparr>t_id = ''t'', t_name = ''site'', t_kind = ''http'', t_address = ''http://a'', t_interval = 60, t_created = 0\<rparr>"]
  by (auto simp: Let_def)


end
