(* ===== verification/Calendar.thy ===== *)
theory Calendar
  imports GoText Apierror
begin

section \<open>Site days (time package, internal/analytics/domain/query.go)\<close>

text \<open>
  The calendar dates of package \<^verbatim>\<open>time\<close> that the analytics code works with. A \<^verbatim>\<open>Day\<close> is the number of days
  since 1 January 1970 (the source keeps midnight UTC of the date); \<open>civil\<close> and \<open>dateDays\<close> convert it from
  and to year, month and day with the normalization of \<^verbatim>\<open>time.Date\<close>. A \<^verbatim>\<open>*time.Location\<close> is the offset
  of local time from UTC at every instant; the zone database itself is a parameter of the model.
\<close>

type_synonym location = "time \<Rightarrow> duration"
type_synonym civilDay = int

definition leap :: "int \<Rightarrow> bool" where
  "leap y \<longleftrightarrow> y mod 4 = 0 \<and> (y mod 100 \<noteq> 0 \<or> y mod 400 = 0)"

text \<open>The day number of 1 January of a year, and the days of a year before a month.\<close>

definition yearStart :: "int \<Rightarrow> civilDay" where
  "yearStart y = 365 * (y - 1970) + ((y - 1) div 4 - (y - 1) div 100 + (y - 1) div 400) - 477"

definition monthOffset :: "bool \<Rightarrow> nat \<Rightarrow> int" where
  "monthOffset lp m = [0, 31, 59, 90, 120, 151, 181, 212, 243, 273, 304, 334, 365] ! (m - 1) + (if lp \<and> 2 < m then 1 else 0)"

definition dateDays :: "int \<Rightarrow> int \<Rightarrow> int \<Rightarrow> civilDay" where
  "dateDays y m d =
     (let y' = y + (m - 1) div 12; m' = nat ((m - 1) mod 12) + 1
      in yearStart y' + monthOffset (leap y') m' + (d - 1))"

definition yearOf :: "civilDay \<Rightarrow> int" where
  "yearOf n =
     (let g = 1 + (400 * (n + 719162)) div 146097
      in if n < yearStart g then g - 1 else if yearStart (g + 1) \<le> n then g + 1 else g)"

definition monthOf :: "bool \<Rightarrow> int \<Rightarrow> nat" where
  "monthOf lp doy = length (filter (\<lambda>m. monthOffset lp m \<le> doy) [1..<13])"

definition civil :: "civilDay \<Rightarrow> int \<times> int \<times> int" where
  "civil n =
     (let y = yearOf n; doy = n - yearStart y; m = monthOf (leap y) doy
      in (y, int m, doy - monthOffset (leap y) m + 1))"

text \<open>\<^verbatim>\<open>Time.AddDate\<close> on a date, the methods of \<^verbatim>\<open>Day\<close>, and \<^verbatim>\<open>Weekday\<close> (0 is Sunday).\<close>

definition addDate :: "int \<Rightarrow> int \<Rightarrow> int \<Rightarrow> civilDay \<Rightarrow> civilDay" where
  "addDate years months days n = (case civil n of (y, m, d) \<Rightarrow> dateDays (y + years) (m + months) (d + days))"

definition AddDays :: "int \<Rightarrow> civilDay \<Rightarrow> civilDay" where
  "AddDays k n = addDate 0 0 k n"

definition dayOfMonth :: "civilDay \<Rightarrow> int" where
  "dayOfMonth n = (case civil n of (y, m, d) \<Rightarrow> d)"

definition weekday :: "civilDay \<Rightarrow> int" where
  "weekday n = (n + 4) mod 7"

text \<open>The zero value \<^verbatim>\<open>Day{}\<close>: 1 January of year 1.\<close>

definition zeroDay :: civilDay where
  "zeroDay = - 719162"

text \<open>\<^verbatim>\<open>Format(time.DateOnly)\<close>, which writes years from 0 to 9999 with four digits.\<close>

definition dayString :: "civilDay \<Rightarrow> string" where
  "dayString n =
     (case civil n of (y, m, d) \<Rightarrow>
        (if y < 0 then CHR ''-'' # decPad 4 (nat (- y)) else if y \<le> 9999 then decPad 4 (nat y) else itoa (nat y))
        @ ''-'' @ decPad 2 (nat m) @ ''-'' @ decPad 2 (nat d))"

definition daysIn :: "int \<Rightarrow> nat \<Rightarrow> int" where
  "daysIn y m = monthOffset (leap y) (m + 1) - monthOffset (leap y) m"

definition ParseDay :: "string \<Rightarrow> civilDay result" where
  "ParseDay s =
     (let bad = Inl (Invalid ''dates are YYYY-MM-DD'')
      in if length s \<noteq> 10 \<or> s ! 4 \<noteq> CHR ''-'' \<or> s ! 7 \<noteq> CHR ''-'' then bad
         else case (parseDigits 0 (take 4 s), parseDigits 0 (take 2 (drop 5 s)), parseDigits 0 (drop 8 s)) of
                (Some y, Some m, Some d) \<Rightarrow>
                  if m < 1 \<or> 12 < m \<or> d < 1 \<or> daysIn (int y) m < int d then bad
                  else Inr (dateDays (int y) (int m) (int d))
              | _ \<Rightarrow> bad)"

text \<open>\<^verbatim>\<open>DayOf\<close>, and \<^verbatim>\<open>time.Date\<close> at midnight in a location, which looks the offset up twice: at the
  date read as UTC, and at the instant that gives.\<close>

definition DayOf :: "time \<Rightarrow> location \<Rightarrow> civilDay" where
  "DayOf t loc = (t + loc t) div day"

definition Start :: "location \<Rightarrow> civilDay \<Rightarrow> time" where
  "Start loc n = n * day - loc (n * day - loc (n * day))"

definition utc :: location where
  "utc t = 0"

record dayRange =
  r_from :: civilDay
  r_to :: civilDay

definition Days :: "dayRange \<Rightarrow> int" where
  "Days r = r_to r - r_from r + 1"

definition Bounds :: "location \<Rightarrow> dayRange \<Rightarrow> time \<times> time" where
  "Bounds loc r = (Start loc (r_from r), Start loc (AddDays 1 (r_to r)))"

subsection \<open>The calendar is a calendar\<close>

lemma div_pred:
  fixes y k :: int
  assumes "0 < k"
  shows "y div k - (y - 1) div k = (if y mod k = 0 then 1 else 0)"
proof (cases "y mod k = 0")
  case True
  have "y = k * (y div k) + y mod k" by simp
  then have "y - 1 = k * (y div k - 1) + (k - 1)" using True by (simp add: algebra_simps)
  then have "(y - 1) div k = y div k - 1" using assms by (intro int_div_pos_eq [where r = "k - 1"]) simp_all
  then show ?thesis using True by simp
next
  case False
  have "0 < y mod k" "y mod k < k" using assms False pos_mod_sign [of k y] pos_mod_bound [of k y] by linarith+
  moreover have "y - 1 = k * (y div k) + (y mod k - 1)" by (simp add: algebra_simps)
  ultimately have "(y - 1) div k = y div k" using False assms by (intro int_div_pos_eq [where r = "y mod k - 1"]) linarith+
  then show ?thesis using False by simp
qed

lemma yearStart_step: "yearStart (y + 1) = yearStart y + (if leap y then 366 else 365)"
proof -
  have m: "y mod 400 = 0 \<Longrightarrow> y mod 100 = 0" "y mod 100 = 0 \<Longrightarrow> y mod 4 = 0"
    using dvd_trans [of 100 400 y] dvd_trans [of 4 100 y] by (simp_all add: dvd_eq_mod_eq_0)
  have "yearStart (y + 1) - yearStart y =
      365 + (y div 4 - (y - 1) div 4) - (y div 100 - (y - 1) div 100) + (y div 400 - (y - 1) div 400)"
    unfolding yearStart_def by simp
  also have "\<dots> = 365 + (if y mod 4 = 0 then 1 else 0) - (if y mod 100 = 0 then 1 else 0) + (if y mod 400 = 0 then 1 else 0)"
    by (simp only: div_pred zero_less_numeral)
  also have "\<dots> = (if leap y then 366 else 365)"
    using m unfolding leap_def by (cases "y mod 4 = 0"; cases "y mod 100 = 0"; cases "y mod 400 = 0") simp_all
  finally show ?thesis by linarith
qed

lemma div_bounds: "0 < k \<Longrightarrow> k * (x div k) \<le> x \<and> x < k * (x div k) + (k :: int)"
  using mult_div_mod_eq [of k x] pos_mod_bound [of k x] pos_mod_sign [of k x] by linarith

lemma yearOf_bounds: "yearStart (yearOf n) \<le> n \<and> n < yearStart (yearOf n + 1)"
proof -
  define g where "g = 1 + (400 * (n + 719162)) div 146097"
  note d = div_bounds [of 4] div_bounds [of 100] div_bounds [of 400]
  have "146097 * (g - 1) \<le> 400 * (n + 719162)" "400 * (n + 719162) < 146097 * (g - 1) + 146097"
    using div_bounds [of 146097 "400 * (n + 719162)"] by (simp_all add: g_def)
  then have "yearStart (g - 1) \<le> n" "n < yearStart (g + 2)"
    using d [of "g - 2"] d [of "g + 1"] by (simp_all add: yearStart_def)
  then show ?thesis unfolding yearOf_def Let_def g_def [symmetric] by (auto simp: add.commute)
qed

lemma monthOffset_bounds:
  "monthOffset lp (Suc 0) = 0" "monthOffset lp 13 = (if lp then 366 else 365)"
  by (simp_all add: monthOffset_def)

lemma month_cases: "1 \<le> m \<Longrightarrow> m \<le> 12 \<Longrightarrow> m \<in> {1, 2, 3, 4, 5, 6, 7, 8, 9, 10, 11, 12 :: nat}"
proof -
  assume "1 \<le> m" "m \<le> 12"
  then have "m \<in> set [1..<13]" by simp
  then show ?thesis by (simp add: upt_rec numeral_eq_Suc)
qed

lemma monthOffset_step: "1 \<le> m \<Longrightarrow> m \<le> 12 \<Longrightarrow> monthOffset lp m + 28 \<le> monthOffset lp (m + 1) \<and> monthOffset lp (m + 1) \<le> monthOffset lp m + 31"
  using month_cases [of m] by (auto simp: monthOffset_def)

lemma monthOf_spec:
  assumes "0 \<le> doy" "doy < (if lp then 366 else 365)"
  shows "1 \<le> monthOf lp doy \<and> monthOf lp doy \<le> 12 \<and>
    monthOffset lp (monthOf lp doy) \<le> doy \<and> doy < monthOffset lp (monthOf lp doy + 1)"
proof -
  have l: "[1..<13] = [1, 2, 3, 4, 5, 6, 7, 8, 9, 10, 11, 12 :: nat]" by (simp add: upt_rec)
  show ?thesis
    using assms unfolding monthOf_def l by (cases lp) (simp_all add: monthOffset_def)
qed

text \<open>The date of a day and the day of a date are inverse.\<close>

lemma civil_spec:
  assumes "civil n = (y, m, d)"
  shows "dateDays y m d = n" "1 \<le> m" "m \<le> 12" "1 \<le> d" "d \<le> daysIn y (nat m)" "d \<le> 31" "y = yearOf n"
    "n < dateDays y (m + 1) 1"
proof -
  define doy where "doy = n - yearStart y"
  have y: "y = yearOf n" using assms by (auto simp: civil_def Let_def)
  have b: "0 \<le> doy" "doy < (if leap y then 366 else 365)"
    using yearOf_bounds [of n] yearStart_step [of y] by (simp_all add: doy_def y)
  note s = monthOf_spec [OF b]
  have m: "m = int (monthOf (leap y) doy)" and d: "d = doy - monthOffset (leap y) (monthOf (leap y) doy) + 1"
    using assms by (simp_all add: civil_def Let_def doy_def y)
  show "1 \<le> m" "m \<le> 12" "1 \<le> d" "y = yearOf n" using s m d y by auto
  show "d \<le> daysIn y (nat m)" using s by (simp add: m d daysIn_def)
  then show "d \<le> 31" using monthOffset_step [of "nat m" "leap y"] s m by (simp add: daysIn_def)
  have q: "(m - 1) div 12 = 0" "(m - 1) mod 12 = m - 1" using \<open>1 \<le> m\<close> \<open>m \<le> 12\<close> by simp_all
  then show "dateDays y m d = n"
    using s by (simp add: dateDays_def Let_def m d doy_def nat_diff_distrib)
  show "n < dateDays y (m + 1) 1"
  proof (cases "m = 12")
    case True
    then show ?thesis using yearOf_bounds [of n] by (simp add: dateDays_def Let_def monthOffset_bounds y)
  next
    case False
    then have "m div 12 = 0" "m mod 12 = m" using \<open>1 \<le> m\<close> \<open>m \<le> 12\<close> by simp_all
    then show ?thesis using s by (simp add: dateDays_def Let_def m doy_def)
  qed
qed

lemma dateDays_plus: "dateDays y m (d + k) = dateDays y m d + k"
  by (simp add: dateDays_def Let_def)

lemma AddDays_eq [simp]: "AddDays k n = n + k"
proof (cases "civil n")
  case (fields y m d)
  show ?thesis using civil_spec(1) [OF fields] by (simp add: AddDays_def addDate_def fields dateDays_plus)
qed

lemma addDate_0 [simp]: "addDate 0 0 k n = n + k"
  using AddDays_eq [of k n] by (simp only: AddDays_def)

text \<open>The first of the next month lies after every day of this one.\<close>

lemma nextMonth_gt: "n < addDate 0 1 (1 - dayOfMonth n) n"
  by (cases "civil n") (simp add: addDate_def dayOfMonth_def civil_spec(8))

lemma monthStart_le: "addDate 0 0 (1 - dayOfMonth n) n \<le> n"
  by (cases "civil n") (simp add: dayOfMonth_def civil_spec(4))

subsection \<open>Dates as text\<close>

text \<open>The years whose date is ten characters long; \<^verbatim>\<open>time.Parse\<close> reads no others.\<close>

definition textYear :: "civilDay \<Rightarrow> bool" where
  "textYear n \<longleftrightarrow> 0 \<le> yearOf n \<and> yearOf n \<le> 9999"

lemma yearStart_mono: "a \<le> b \<Longrightarrow> yearStart a \<le> yearStart b"
proof (induction b rule: int_ge_induct)
  case (step i)
  then show ?case using yearStart_step [of i] by (simp split: if_splits)
qed simp

lemma yearOf_mono: "a \<le> b \<Longrightarrow> yearOf a \<le> yearOf b"
  using yearOf_bounds [of a] yearOf_bounds [of b] yearStart_mono [of "yearOf b + 1" "yearOf a"] by linarith

lemma monthOffset_mono: "m \<le> k \<Longrightarrow> 1 \<le> m \<Longrightarrow> k \<le> 12 \<Longrightarrow> monthOffset lp m \<le> monthOffset lp k"
proof (induction k rule: dec_induct)
  case (step i)
  then show ?case using monthOffset_step [of i lp] by simp
qed simp

text \<open>The order of days is that of year, month and day, so it is the order of their texts.\<close>

lemma civil_less:
  assumes "a < b" "civil a = (y, m, d)" "civil b = (y', m', d')"
  shows "y < y' \<or> (y = y' \<and> (m < m' \<or> (m = m' \<and> d < d')))"
proof -
  note A = civil_spec [OF assms(2)] and B = civil_spec [OF assms(3)]
  have y: "y \<le> y'" using assms(1) A(7) B(7) yearOf_mono [of a b] by simp
  have day_eq: "a = yearStart y + monthOffset (leap y) (nat m) + (d - 1)" "b = yearStart y' + monthOffset (leap y') (nat m') + (d' - 1)"
    using A(1-3) B(1-3) by (simp_all add: dateDays_def Let_def nat_diff_distrib)
  have "m \<le> m'" if "y = y'"
  proof (rule ccontr)
    assume "\<not> m \<le> m'"
    then have "monthOffset (leap y) (nat m' + 1) \<le> monthOffset (leap y) (nat m)"
      using A(2,3) B(2,3) by (intro monthOffset_mono) auto
    moreover have "d' \<le> monthOffset (leap y) (nat m' + 1) - monthOffset (leap y) (nat m')"
      using B(5) that by (simp add: daysIn_def)
    ultimately show False using day_eq assms(1) A(4) that by simp
  qed
  moreover have "d < d'" if "y = y'" "m = m'" using day_eq assms(1) that by simp
  ultimately show ?thesis using y by fastforce
qed

lemma append_less_same: "(xs :: string) @ a < xs @ b \<longleftrightarrow> a < b"
  by (induction xs) simp_all

lemma dayString_less:
  assumes "a < b" "textYear a" "textYear b"
  shows "dayString a < dayString b"
proof -
  obtain y m d y' m' d' where c: "civil a = (y, m, d)" "civil b = (y', m', d')" by (metis prod_cases3)
  note A = civil_spec [OF c(1)] and B = civil_spec [OF c(2)]
  have ys: "0 \<le> y" "y \<le> 9999" "0 \<le> y'" "y' \<le> 9999" using assms(2,3) A(7) B(7) by (simp_all add: textYear_def)
  have sm: "nat x < 10 ^ 2" if "x \<le> 31" for x :: int using that by simp
  have s: "dayString a = decPad 4 (nat y) @ ''-'' @ decPad 2 (nat m) @ ''-'' @ decPad 2 (nat d)"
    "dayString b = decPad 4 (nat y') @ ''-'' @ decPad 2 (nat m') @ ''-'' @ decPad 2 (nat d')"
    using ys by (simp_all add: dayString_def c)
  consider "y < y'" | "y = y'" "m < m'" | "y = y'" "m = m'" "d < d'" using civil_less [OF assms(1) c] by blast
  then show ?thesis
  proof cases
    case 1
    then have "decPad 4 (nat y) < decPad 4 (nat y')" using ys by (intro decPad_less) simp_all
    then show ?thesis unfolding s by (intro append_less_append) simp_all
  next
    case 2
    then have "decPad 2 (nat m) < decPad 2 (nat m')" using A B by (intro decPad_less) simp_all
    then have "decPad 2 (nat m) @ ''-'' @ decPad 2 (nat d) < decPad 2 (nat m') @ ''-'' @ decPad 2 (nat d')"
      by (intro append_less_append) simp_all
    then show ?thesis unfolding s 2 by (simp add: append_less_same)
  next
    case 3
    then have "decPad 2 (nat d) < decPad 2 (nat d')" using A B by (intro decPad_less) simp_all
    then show ?thesis unfolding s 3 by (simp add: append_less_same)
  qed
qed

lemma dayString_le_iff: "textYear a \<Longrightarrow> textYear b \<Longrightarrow> dayString a \<le> dayString b \<longleftrightarrow> a \<le> b"
  using dayString_less [of a b] dayString_less [of b a] by (cases a b rule: linorder_cases) auto

lemma dayString_inj: "textYear a \<Longrightarrow> textYear b \<Longrightarrow> dayString a = dayString b \<longleftrightarrow> a = b"
  using dayString_less [of a b] dayString_less [of b a] by (cases a b rule: linorder_cases) auto

lemma textYear_between: "textYear a \<Longrightarrow> textYear b \<Longrightarrow> a \<le> n \<Longrightarrow> n \<le> b \<Longrightarrow> textYear n"
  using yearOf_mono [of a n] yearOf_mono [of n b] by (simp add: textYear_def)

lemma ParseDay_dayString:
  assumes "textYear n"
  shows "ParseDay (dayString n) = Inr n"
proof -
  obtain y m d where c: "civil n = (y, m, d)" by (metis prod_cases3)
  note A = civil_spec [OF c]
  have y: "0 \<le> y" "y \<le> 9999" using assms A(7) by (simp_all add: textYear_def)
  have s: "dayString n = decPad 4 (nat y) @ ''-'' @ decPad 2 (nat m) @ ''-'' @ decPad 2 (nat d)" (is "_ = ?Y @ _ @ ?M @ _ @ ?D")
    using y by (simp add: dayString_def c)
  have p: "parseDigits 0 ?Y = Some (nat y)" "parseDigits 0 ?M = Some (nat m)" "parseDigits 0 ?D = Some (nat d)"
    using y A by (simp_all add: parseDigits_decPad)
  show ?thesis unfolding ParseDay_def s Let_def using p A y by (simp add: nth_append)
qed

end
