(* ===== verification/Analytics.thy ===== *)
theory Analytics
  imports Calendar Ratelimit
begin

section \<open>Site analytics: beacons, visits and their tables (internal/analytics)\<close>

text \<open>
  The write side of the analytics context: sites and beacons with their validation, the classification of
  a visit, the tables of migrations 0006, 0011 and 0012 with every statement of \<^verbatim>\<open>store.go\<close>, the service
  with its site cache and counters, and the public collect handler. Parameters: \<open>tz\<close> is
  \<^verbatim>\<open>time.LoadLocation\<close>, \<open>uni\<close> the case tables beyond ASCII, \<open>urlHost\<close> the hostname \<^verbatim>\<open>url.Parse\<close> finds
  (\<open>None\<close> on an error), \<open>sha\<close> SHA-256 as lower-case hex, \<open>geo\<close> the place of an address. One reading of the
  clock per call is an argument, as are the random bytes (in hex) and the failure of a statement. \<close>

subsection \<open>Values (domain/domain.go)\<close>

definition MaxSites :: nat where "MaxSites = 20"
definition SiteMaxNameBytes :: nat where "SiteMaxNameBytes = 80"
definition MaxDomainBytes :: nat where "MaxDomainBytes = 253"
definition BeaconMaxURLBytes :: nat where "BeaconMaxURLBytes = 2048"
definition MaxReferrerBytes :: nat where "MaxReferrerBytes = 2048"
definition MaxUTMBytes :: nat where "MaxUTMBytes = 100"
definition DefaultTimezone :: string where "DefaultTimezone = ''Europe/Moscow''"
definition InvalidUTM :: string where "InvalidUTM = ''(invalid)''"
definition VisitIdle :: duration where "VisitIdle = 30 * minute"

record site =
  si_id :: string
  si_name :: string
  si_domain :: string
  si_timezone :: string
  si_created :: time

definition Location :: "(string \<Rightarrow> location option) \<Rightarrow> site \<Rightarrow> location" where
  "Location tz s =
     (case tz (si_timezone s) of
        Some loc \<Rightarrow> if si_timezone s \<noteq> [] then loc else utc
      | None \<Rightarrow> utc)"

record newSite =
  ns_name :: string
  ns_domain :: string
  ns_timezone :: string

definition siteValidate :: "(string \<Rightarrow> string) \<Rightarrow> (string \<Rightarrow> location option) \<Rightarrow> newSite \<Rightarrow> newSite result" where
  "siteValidate uni tz n0 =
     (let n = n0\<lparr>ns_name := trimSpace (ns_name n0), ns_domain := toLower uni (trimSpace (ns_domain n0))\<rparr>
      in if ns_name n = [] \<or> SiteMaxNameBytes < length (ns_name n) then Inl (Invalid (''name must contain 1..'' @ itoa SiteMaxNameBytes @ '' bytes''))
         else if ns_domain n = [] \<or> MaxDomainBytes < length (ns_domain n) \<or> containsAny (ns_domain n) [CHR '' '', CHR ''/'', char_of (92::nat), CHR ''@'', CHR '':'']
         then Inl (Invalid ''domain must be a bare hostname (no scheme, path or port)'')
         else
           let z = trimSpace (ns_timezone n);
               n1 = n\<lparr>ns_timezone := (if z = [] then DefaultTimezone else z)\<rparr>
           in if tz (ns_timezone n1) = None \<or> ns_timezone n1 = ''Local'' then Inl (Invalid ''timezone must be an IANA zone such as Europe/Moscow'')
              else Inr n1)"

record utm =
  u_source :: string
  u_medium :: string
  u_campaign :: string
  u_content :: string
  u_term :: string

definition utmEmpty :: "utm \<Rightarrow> bool" where
  "utmEmpty u \<longleftrightarrow> u = \<lparr>u_source = [], u_medium = [], u_campaign = [], u_content = [], u_term = []\<rparr>"

record beacon =
  b_site :: string
  b_url :: string
  b_referrer :: string
  b_v :: int
  b_utm :: utm
  b_paid :: bool
  b_width :: int
  b_hostname :: string

definition capString :: "string \<Rightarrow> nat \<Rightarrow> string" where
  "capString s k = (if length s \<le> k then s else take k s)"

text \<open>The loop of the source runs over runes; a byte beyond ASCII is part of a rune outside the class, so
  running over bytes gives the same answer.\<close>

definition utmChar :: "char \<Rightarrow> bool" where
  "utmChar c \<longleftrightarrow> isLower c \<or> isDigit c \<or> c = CHR ''.'' \<or> c = CHR ''_'' \<or> c = CHR ''-''"

definition utmValue :: "(string \<Rightarrow> string) \<Rightarrow> string \<Rightarrow> string" where
  "utmValue uni v0 =
     (let v = toLower uni (trimSpace v0)
      in if v = [] then []
         else if MaxUTMBytes < length v then InvalidUTM
         else if list_all utmChar v then v else InvalidUTM)"

definition beaconNormalize :: "(string \<Rightarrow> string) \<Rightarrow> beacon \<Rightarrow> beacon \<times> bool" where
  "beaconNormalize uni b0 =
     (let u = b_utm b0;
          b = b0\<lparr>b_site := trimSpace (b_site b0),
                 b_url := capString (trimSpace (b_url b0)) BeaconMaxURLBytes,
                 b_referrer := capString (trimSpace (b_referrer b0)) MaxReferrerBytes,
                 b_utm := \<lparr>u_source = utmValue uni (u_source u), u_medium = utmValue uni (u_medium u), u_campaign = utmValue uni (u_campaign u),
                           u_content = utmValue uni (u_content u), u_term = utmValue uni (u_term u)\<rparr>,
                 b_width := (if b_width b0 < 0 \<or> 100000 < b_width b0 then 0 else b_width b0),
                 b_hostname := capString (toLower uni (trimSpace (b_hostname b0))) MaxDomainBytes\<rparr>
      in (b, b_site b \<noteq> [] \<and> b_url b \<noteq> []))"

definition ScreenGroup :: "int \<Rightarrow> string" where
  "ScreenGroup width =
     (if width \<le> 0 then [] else if width < 576 then ''mobile'' else if width < 992 then ''tablet''
      else if width < 1440 then ''laptop'' else ''desktop'')"

record pageview =
  p_site :: string
  p_ts :: time
  p_path :: string
  p_referrer :: string
  p_hash :: string
  p_browser :: string
  p_os :: string
  p_device :: string
  p_hostname :: string

record visit =
  v_source :: string
  v_channel :: string
  v_utm :: utm
  v_paid :: bool
  v_country :: string
  v_region :: string
  v_browserVersion :: string
  v_osVersion :: string
  v_screen :: string

subsection \<open>Sources and channels (application/channels.go)\<close>

definition utf8 :: "nat list \<Rightarrow> string" where
  "utf8 = map char_of"

datatype sourceKind = KindOther | KindSearch | KindSocial | KindMessenger | KindAI | KindEmail

definition knownSources :: "(string \<times> string \<times> sourceKind) list" where
  "knownSources =
     [(''alice.yandex.ru'', utf8 [208, 144, 208, 187, 208, 184, 209, 129, 208, 176], KindAI),
      (''gemini.google.com'', ''Gemini'', KindAI),
      (''chatgpt.com'', ''ChatGPT'', KindAI),
      (''chat.openai.com'', ''ChatGPT'', KindAI),
      (''perplexity.ai'', ''Perplexity'', KindAI),
      (''claude.ai'', ''Claude'', KindAI),
      (''copilot.microsoft.com'', ''Copilot'', KindAI),
      (''chat.deepseek.com'', ''DeepSeek'', KindAI),
      (''giga.chat'', ''GigaChat'', KindAI),
      (''zen.yandex.ru'', utf8 [208, 148, 208, 183, 208, 181, 208, 189], KindSocial),
      (''mail.yandex.ru'', utf8 [208, 175, 208, 189, 208, 180, 208, 181, 208, 186, 209, 129, 32, 208, 159, 208, 190, 209, 135, 209, 130, 208, 176], KindEmail),
      (''e.mail.ru'', utf8 [208, 159, 208, 190, 209, 135, 209, 130, 208, 176, 32, 77, 97, 105, 108], KindEmail),
      (''mail.google.com'', ''Gmail'', KindEmail),
      (''go.mail.ru'', utf8 [208, 159, 208, 190, 208, 184, 209, 129, 208, 186, 32, 77, 97, 105, 108], KindSearch),
      (''yandex.'', utf8 [208, 175, 208, 189, 208, 180, 208, 181, 208, 186, 209, 129], KindSearch),
      (''ya.ru'', utf8 [208, 175, 208, 189, 208, 180, 208, 181, 208, 186, 209, 129], KindSearch),
      (''google.'', ''Google'', KindSearch),
      (''bing.com'', ''Bing'', KindSearch),
      (''duckduckgo.com'', ''DuckDuckGo'', KindSearch),
      (''search.yahoo.com'', ''Yahoo'', KindSearch),
      (''nova.rambler.ru'', utf8 [208, 160, 208, 176, 208, 188, 208, 177, 208, 187, 208, 181, 209, 128], KindSearch),
      (''vk.com'', ''VK'', KindSocial),
      (''vk.ru'', ''VK'', KindSocial),
      (''ok.ru'', utf8 [208, 158, 208, 180, 208, 189, 208, 190, 208, 186, 208, 187, 208, 176, 209, 129, 209, 129, 208, 189, 208, 184, 208, 186, 208, 184], KindSocial),
      (''dzen.ru'', utf8 [208, 148, 208, 183, 208, 181, 208, 189], KindSocial),
      (''youtube.com'', ''YouTube'', KindSocial),
      (''youtu.be'', ''YouTube'', KindSocial),
      (''tiktok.com'', ''TikTok'', KindSocial),
      (''pikabu.ru'', utf8 [208, 159, 208, 184, 208, 186, 208, 176, 208, 177, 209, 131], KindSocial),
      (''rutube.ru'', ''Rutube'', KindSocial),
      (''t.me'', ''Telegram'', KindMessenger),
      (''telegram.org'', ''Telegram'', KindMessenger),
      (''web.whatsapp.com'', ''WhatsApp'', KindMessenger),
      (''wa.me'', ''WhatsApp'', KindMessenger),
      (''max.ru'', ''MAX'', KindMessenger)]"

definition utmSources :: "(string \<times> string \<times> sourceKind) list" where
  "utmSources =
     [(''yandex'', (utf8 [208, 175, 208, 189, 208, 180, 208, 181, 208, 186, 209, 129], KindSearch)),
      (''google'', (''Google'', KindSearch)),
      (''vk'', (''VK'', KindSocial)),
      (''vkontakte'', (''VK'', KindSocial)),
      (''ok'', (utf8 [208, 158, 208, 180, 208, 189, 208, 190, 208, 186, 208, 187, 208, 176, 209, 129, 209, 129, 208, 189, 208, 184, 208, 186, 208, 184], KindSocial)),
      (''dzen'', (utf8 [208, 148, 208, 183, 208, 181, 208, 189], KindSocial)),
      (''youtube'', (''YouTube'', KindSocial)),
      (''telegram'', (''Telegram'', KindMessenger)),
      (''tg'', (''Telegram'', KindMessenger)),
      (''whatsapp'', (''WhatsApp'', KindMessenger)),
      (''max'', (''MAX'', KindMessenger)),
      (''chatgpt'', (''ChatGPT'', KindAI)),
      (''email'', (''Email'', KindEmail))]"

definition paidMedia :: "string list" where
  "paidMedia = [''cpc'', ''ppc'', ''paid'', ''paidsearch'', ''paid_social'', ''paidsocial'', ''cpm'']"

definition hostMatches :: "string \<Rightarrow> string \<Rightarrow> bool" where
  "hostMatches host known =
     (if hasSuffix known ''.''
      then let label = trimSuffix known ''.'' in hasPrefix host (label @ ''.'') \<or> contains host (CHR ''.'' # label @ ''.'')
      else host = known \<or> hasSuffix host (CHR ''.'' # known))"

definition lookupHost :: "(string \<Rightarrow> string) \<Rightarrow> string \<Rightarrow> (string \<times> sourceKind) option" where
  "lookupHost uni host0 =
     (let host = trimPrefix (toLower uni host0) ''www.''
      in map_option snd (find (\<lambda>(known, _). hostMatches host known) knownSources))"

definition classify :: "(string \<Rightarrow> string) \<Rightarrow> string \<Rightarrow> utm \<Rightarrow> bool \<Rightarrow> string \<times> string" where
  "classify uni referrerHost u paid =
     (let known = (case lookupHost uni referrerHost of
                     Some k \<Rightarrow> Some k
                   | None \<Rightarrow>
                       if referrerHost = [] \<and> u_source u \<noteq> [] \<and> u_source u \<noteq> InvalidUTM then map_of utmSources (u_source u) else None);
          kind = (case known of Some (_, k) \<Rightarrow> k | None \<Rightarrow> KindOther);
          source = (case known of
                      Some (name, _) \<Rightarrow> name
                    | None \<Rightarrow>
                        if referrerHost \<noteq> [] then trimPrefix (toLower uni referrerHost) ''www.''
                        else if u_source u \<noteq> [] then u_source u else []);
          paidMedium = (u_medium u \<in> set paidMedia);
          channel =
            (if paid \<or> (paidMedium \<and> kind = KindSearch) then ''paid_search''
             else if paidMedium \<and> kind = KindSocial then ''paid_social''
             else if kind = KindSearch \<or> u_medium u = ''organic'' then ''organic_search''
             else if kind = KindSocial \<or> u_medium u = ''social'' then ''social''
             else if kind = KindMessenger \<or> u_medium u = ''messenger'' then ''messengers''
             else if kind = KindAI then ''ai_assistants''
             else if kind = KindEmail \<or> u_medium u = ''email'' then ''email''
             else if referrerHost \<noteq> [] \<or> \<not> utmEmpty u then ''referral''
             else ''direct'')
      in (source, channel))"

subsection \<open>User agents (application/service.go, application/versions.go)\<close>

definition botPatterns :: "string list" where
  "botPatterns =
     [''bot'', ''spider'', ''crawl'', ''slurp'', ''facebookexternalhit'', ''embedly'', ''quora link preview'',
      ''whatsapp'', ''google-inspectiontool'', ''bingpreview'', ''headlesschrome'', ''phantomjs'', ''pingdom'',
      ''uptimerobot'', ''curl/'', ''wget/'', ''python-requests'', ''go-http-client'', ''chrome-lighthouse'']"

definition isBotUA :: "(string \<Rightarrow> string) \<Rightarrow> string \<Rightarrow> bool" where
  "isBotUA uni ua = list_ex (contains (toLower uni ua)) botPatterns"

definition parseUserAgent :: "(string \<Rightarrow> string) \<Rightarrow> string \<Rightarrow> string \<times> string \<times> string" where
  "parseUserAgent uni ua =
     (let has = contains (toLower uni ua)
      in (if has ''yabrowser/'' then ''Yandex Browser''
          else if has ''edg/'' \<or> has ''edgios/'' \<or> has ''edga/'' then ''Edge''
          else if has ''opr/'' \<or> has ''opera'' then ''Opera''
          else if has ''firefox/'' \<or> has ''fxios/'' then ''Firefox''
          else if has ''chrome/'' \<or> has ''crios/'' then ''Chrome''
          else if has ''safari/'' then ''Safari'' else ''Other'',
          if has ''windows'' then ''Windows''
          else if has ''iphone'' \<or> has ''ipad'' \<or> has ''ios'' then ''iOS''
          else if has ''mac os x'' \<or> has ''macintosh'' then ''macOS''
          else if has ''android'' then ''Android''
          else if has ''linux'' then ''Linux'' else ''Other'',
          if has ''ipad'' \<or> has ''tablet'' then ''tablet''
          else if has ''mobi'' \<or> has ''iphone'' \<or> has ''android'' then ''mobile'' else ''desktop''))"

text \<open>The patterns are a choice of prefixes followed by groups of digits: \<open>digitsAfter\<close> is
  \<^verbatim>\<open>(?:p1|p2|..)(\d+)\<close> and \<open>twoAfter\<close> is \<^verbatim>\<open>p(\d+)[seps](\d+)\<close>, both at the leftmost position that matches.\<close>

definition digitsAt :: "string \<Rightarrow> string \<Rightarrow> (string \<times> string) option" where
  "digitsAt p s =
     (if hasPrefix s p
      then let r = drop (length p) s; ds = takeWhile isDigit r
           in if ds = [] then None else Some (ds, dropWhile isDigit r)
      else None)"

fun digitsAfter :: "string list \<Rightarrow> string \<Rightarrow> string option" where
  "digitsAfter ps [] = None"
| "digitsAfter ps (c # cs) =
     (case find (\<lambda>p. digitsAt p (c # cs) \<noteq> None) ps of
        Some p \<Rightarrow> map_option fst (digitsAt p (c # cs))
      | None \<Rightarrow> digitsAfter ps cs)"

definition twoAt :: "string \<Rightarrow> string \<Rightarrow> string \<Rightarrow> (string \<times> string) option" where
  "twoAt p seps s =
     (case digitsAt p s of
        None \<Rightarrow> None
      | Some (ds, r) \<Rightarrow>
          (case r of
             [] \<Rightarrow> None
           | c # cs \<Rightarrow>
               if c \<in> set seps \<and> takeWhile isDigit cs \<noteq> [] then Some (ds, takeWhile isDigit cs) else None))"

fun twoAfter :: "string \<Rightarrow> string \<Rightarrow> string \<Rightarrow> (string \<times> string) option" where
  "twoAfter p seps [] = None"
| "twoAfter p seps (c # cs) = (case twoAt p seps (c # cs) of Some m \<Rightarrow> Some m | None \<Rightarrow> twoAfter p seps cs)"

definition browserVersion :: "(string \<times> string list) list" where
  "browserVersion =
     [(''Yandex Browser'', [''yabrowser/'']),
      (''Edge'', [''edga/'', ''edgios/'', ''edg/'']),
      (''Opera'', [''opr/'', ''opera/'']),
      (''Firefox'', [''firefox/'', ''fxios/'']),
      (''Chrome'', [''chrome/'', ''crios/'']),
      (''Safari'', [''version/''])]"

definition windowsNames :: "((string \<times> string) \<times> string) list" where
  "windowsNames = [((''10'', ''0''), ''10/11''), ((''6'', ''3''), ''8.1''), ((''6'', ''2''), ''8''), ((''6'', ''1''), ''7'')]"

definition orEmpty :: "string option \<Rightarrow> string" where
  "orEmpty x = (case x of Some s \<Rightarrow> s | None \<Rightarrow> [])"

definition uaVersions :: "(string \<Rightarrow> string) \<Rightarrow> string \<Rightarrow> string \<Rightarrow> string \<Rightarrow> string \<times> string" where
  "uaVersions uni ua browser os =
     (let ual = toLower uni ua
      in (orEmpty (Option.bind (map_of browserVersion browser) (\<lambda>ps. digitsAfter ps ual)),
          if os = ''Windows'' then orEmpty (Option.bind (twoAfter ''windows nt '' ''.'' ual) (map_of windowsNames))
          else if os = ''Android'' then orEmpty (digitsAfter [''android ''] ual)
          else if os = ''iOS'' then orEmpty (digitsAfter [''iphone os '', ''cpu os ''] ual)
          else if os = ''macOS'' then (case twoAfter ''mac os x '' ''._'' ual of Some (a, b) \<Rightarrow> a @ ''.'' @ b | None \<Rightarrow> [])
          else []))"

subsection \<open>Origins, referrers and paths (application/service.go)\<close>

definition OriginMatchesSite :: "(string \<Rightarrow> string) \<Rightarrow> string \<Rightarrow> string \<Rightarrow> bool" where
  "OriginMatchesSite uni originHost siteDomain =
     (let host = toLower uni originHost; d = toLower uni siteDomain
      in host \<noteq> [] \<and> (host = d \<or> host = ''www.'' @ d))"

definition pathOnly :: "string \<Rightarrow> string" where
  "pathOnly u0 =
     (let u = takeWhile (\<lambda>c. c \<noteq> CHR ''?'' \<and> c \<noteq> CHR ''#'') u0
      in if u = [] then ''/'' else u)"

definition referrerDomain :: "(string \<Rightarrow> string option) \<Rightarrow> string \<Rightarrow> string" where
  "referrerDomain urlHost referrer = (if referrer = [] then [] else orEmpty (urlHost referrer))"

definition externalReferrer :: "(string \<Rightarrow> string) \<Rightarrow> (string \<Rightarrow> string option) \<Rightarrow> string \<Rightarrow> string \<Rightarrow> string" where
  "externalReferrer uni urlHost referrer siteDomain =
     (let host = referrerDomain urlHost referrer
      in if OriginMatchesSite uni host siteDomain then [] else host)"


subsection \<open>The tables and their statements (infrastructure/store.go)\<close>

text \<open>A row of \<^verbatim>\<open>pageviews\<close> written before migration 0011 has no visit. The columns of \<^verbatim>\<open>visits\<close> that its
  first pageview fixes are kept together.\<close>

record pvRow =
  pr_id :: nat
  pr_ts :: int
  pr_visit :: "string option"
  pr_view :: pageview

record visitRow =
  vr_id :: string
  vr_started :: int
  vr_last :: int
  vr_exit :: string
  vr_pageviews :: int
  vr_first :: pageview
  vr_info :: visit

definition vr_site :: "visitRow \<Rightarrow> string" where "vr_site v = p_site (vr_first v)"
definition vr_hash :: "visitRow \<Rightarrow> string" where "vr_hash v = p_hash (vr_first v)"

record counts =
  c_visitors :: int
  c_visits :: int
  c_pageviews :: int
  c_bounces :: int
  c_duration :: int

record daily =
  da_site :: string
  da_day :: string
  da_dimension :: string
  da_value :: string
  da_counts :: counts

record andb =
  sites :: "site list"
  pageviews :: "pvRow list"
  visits :: "visitRow list"
  dailies :: "daily list"
  nextPageview :: nat
  saltBase :: "string option"

definition CreateSite :: "error option \<Rightarrow> string option \<Rightarrow> newSite \<Rightarrow> time \<Rightarrow> andb \<Rightarrow> site result \<times> andb" where
  "CreateSite fault rnd n0 now db =
     (case rnd of
        None \<Rightarrow> (Inl (OtherError ''analytics: generate site id''), db)
      | Some sid \<Rightarrow>
          let n = (if ns_timezone n0 = [] then n0\<lparr>ns_timezone := DefaultTimezone\<rparr> else n0);
              s = \<lparr>si_id = sid, si_name = ns_name n, si_domain = ns_domain n, si_timezone = ns_timezone n, si_created = truncateTo millisecond now\<rparr>
          in (case fault of
                Some e \<Rightarrow> (Inl e, db)
              | None \<Rightarrow>
                  if MaxSites \<le> length (sites db) then (Inl (Conflict ''site limit reached (20)''), db)
                  else if \<exists>x\<in>set (sites db). si_id x = sid \<or> si_domain x = si_domain s then (Inl (Conflict ''a site with this domain already exists''), db)
                  else (Inr s, db\<lparr>sites := sites db @ [s]\<rparr>)))"

definition ListSites :: "error option \<Rightarrow> andb \<Rightarrow> site list result" where
  "ListSites fault db =
     (case fault of
        Some e \<Rightarrow> Inl e
      | None \<Rightarrow> Inr (sort_key si_name (sort_key si_id (sites db))))"

definition SiteExists :: "error option \<Rightarrow> string \<Rightarrow> andb \<Rightarrow> site option result" where
  "SiteExists fault sid db = (case fault of Some e \<Rightarrow> Inl e | None \<Rightarrow> Inr (find (\<lambda>s. si_id s = sid) (sites db)))"

text \<open>Every table cascades from \<^verbatim>\<open>sites\<close>.\<close>

definition DeleteSite :: "error option \<Rightarrow> string \<Rightarrow> andb \<Rightarrow> unit result \<times> andb" where
  "DeleteSite fault sid db =
     (case fault of
        Some e \<Rightarrow> (Inl e, db)
      | None \<Rightarrow>
          if sid \<notin> si_id ` set (sites db) then (Inl (NotFound ''site not found''), db)
          else (Inr (), db\<lparr>sites := filter (\<lambda>s. si_id s \<noteq> sid) (sites db),
                           pageviews := filter (\<lambda>p. p_site (pr_view p) \<noteq> sid) (pageviews db),
                           visits := filter (\<lambda>v. vr_site v \<noteq> sid) (visits db),
                           dailies := filter (\<lambda>d. da_site d \<noteq> sid) (dailies db)\<rparr>))"

definition idleMs :: int where
  "idleMs = VisitIdle div millisecond"

text \<open>The visit a pageview continues: of the visitor's visits that are not idle the one with the latest
  pageview (the first such row).\<close>

definition openVisit :: "string \<Rightarrow> string \<Rightarrow> int \<Rightarrow> visitRow list \<Rightarrow> visitRow option" where
  "openVisit sid h ts vs =
     (let live = filter (\<lambda>v. vr_site v = sid \<and> vr_hash v = h \<and> ts - idleMs < vr_last v) vs
      in find (\<lambda>v. \<forall>w\<in>set live. vr_last w \<le> vr_last v) live)"

text \<open>One transaction. The foreign keys refuse a pageview of a site that is gone, the primary key a visit
  identifier in use.\<close>

definition RecordPageview :: "error option \<Rightarrow> string option \<Rightarrow> pageview \<Rightarrow> visit \<Rightarrow> andb \<Rightarrow> unit result \<times> andb" where
  "RecordPageview fault rnd p v db =
     (case fault of
        Some e \<Rightarrow> (Inl e, db)
      | None \<Rightarrow>
          let ts = unixMilli (p_ts p);
              insert = (\<lambda>vid vs. (Inr (), db\<lparr>visits := vs,
                 pageviews := pageviews db @ [\<lparr>pr_id = nextPageview db, pr_ts = ts, pr_visit = Some vid, pr_view = p\<rparr>],
                 nextPageview := Suc (nextPageview db)\<rparr>))
          in (case openVisit (p_site p) (p_hash p) ts (visits db) of
                Some w \<Rightarrow>
                  insert (vr_id w)
                    (map (\<lambda>x. if vr_id x = vr_id w then x\<lparr>vr_last := ts, vr_exit := p_path p, vr_pageviews := vr_pageviews x + 1\<rparr> else x) (visits db))
              | None \<Rightarrow>
                  (case rnd of
                     None \<Rightarrow> (Inl (OtherError ''analytics: generate visit id''), db)
                   | Some vid \<Rightarrow>
                       if vid \<in> vr_id ` set (visits db) \<or> p_site p \<notin> si_id ` set (sites db) then (Inl (OtherError ''analytics: open visit''), db)
                       else insert vid (visits db @
                              [\<lparr>vr_id = vid, vr_started = ts, vr_last = ts, vr_exit = p_path p, vr_pageviews = 1, vr_first = p, vr_info = v\<rparr>]))))"

text \<open>The second read sees the row of whoever inserted first.\<close>

definition DailySaltBase :: "error option \<Rightarrow> string option \<Rightarrow> andb \<Rightarrow> string result \<times> andb" where
  "DailySaltBase fault rnd db =
     (case saltBase db of
        Some s \<Rightarrow> (case fault of Some e \<Rightarrow> (Inl e, db) | None \<Rightarrow> (Inr s, db))
      | None \<Rightarrow>
          (case fault of
             Some e \<Rightarrow> (Inl e, db)
           | None \<Rightarrow>
               (case rnd of
                  None \<Rightarrow> (Inl (OtherError ''analytics: generate salt''), db)
                | Some s \<Rightarrow> (Inr s, db\<lparr>saltBase := Some s\<rparr>))))"

text \<open>Two statements, each with its own failure; the pageviews left of a deleted visit go with it. The rows
  \<^verbatim>\<open>LIMIT\<close> keeps are the first of the table.\<close>

definition PurgePageviews :: "error option \<Rightarrow> error option \<Rightarrow> time \<Rightarrow> nat \<Rightarrow> andb \<Rightarrow> nat result \<times> andb" where
  "PurgePageviews fault1 fault2 before k db =
     (case fault1 of
        Some e \<Rightarrow> (Inl e, db)
      | None \<Rightarrow>
          let gone = take k (filter (\<lambda>p. pr_ts p < unixMilli before) (pageviews db));
              db1 = db\<lparr>pageviews := filter (\<lambda>p. pr_id p \<notin> pr_id ` set gone) (pageviews db)\<rparr>
          in (case fault2 of
                Some e \<Rightarrow> (Inl e, db1)
              | None \<Rightarrow>
                  let ended = take k (filter (\<lambda>v. vr_last v < unixMilli before) (visits db1))
                  in (Inr (length gone + length ended),
                      db1\<lparr>visits := filter (\<lambda>v. vr_id v \<notin> vr_id ` set ended) (visits db1),
                          pageviews := filter (\<lambda>p. pr_visit p \<notin> (Some \<circ> vr_id) ` set ended) (pageviews db1)\<rparr>)))"


subsection \<open>The service (application/service.go)\<close>

definition sitesTTL :: duration where "sitesTTL = minute"

definition collectOutcomes :: "string list" where
  "collectOutcomes = [''stored'', ''rate_limited'', ''malformed'', ''invalid'', ''bot'', ''unknown_site'', ''origin_mismatch'', ''error'']"

record ansvc =
  cachedSites :: "site list option"
  cachedAt :: time
  cachedSalt :: string
  outcomes :: "(string \<times> int) list"

text \<open>What the service is built with, and the failures of the statements of one call.\<close>

record anenv =
  ae_uni :: "string \<Rightarrow> string"
  ae_tz :: "string \<Rightarrow> location option"
  ae_urlHost :: "string \<Rightarrow> string option"
  ae_sha :: "string \<Rightarrow> string"
  ae_geo :: "string \<Rightarrow> string \<times> string"
  ae_retention :: duration

record anfaults =
  f_list :: "error option"
  f_salt :: "error option"
  f_record :: "error option"
  f_saltRnd :: "string option"
  f_visitRnd :: "string option"

definition NewService :: ansvc where
  "NewService = \<lparr>cachedSites = None, cachedAt = zeroTime, cachedSalt = [], outcomes = []\<rparr>"

definition countOf :: "string \<Rightarrow> ansvc \<Rightarrow> int" where
  "countOf outcome s = (case map_of (outcomes s) outcome of Some n \<Rightarrow> n | None \<Rightarrow> 0)"

definition CountCollect :: "string \<Rightarrow> ansvc \<Rightarrow> ansvc" where
  "CountCollect outcome s = s\<lparr>outcomes := AList.update outcome (countOf outcome s + 1) (outcomes s)\<rparr>"

definition CollectCounts :: "ansvc \<Rightarrow> (string \<times> int) list" where
  "CollectCounts s = map (\<lambda>out. (out, countOf out s)) collectOutcomes"

definition resetSites :: "ansvc \<Rightarrow> ansvc" where
  "resetSites s = s\<lparr>cachedSites := None\<rparr>"

definition CreateSiteSvc :: "anenv \<Rightarrow> error option \<Rightarrow> string option \<Rightarrow> time \<Rightarrow> newSite \<Rightarrow> andb \<times> ansvc \<Rightarrow> site result \<times> andb \<times> ansvc" where
  "CreateSiteSvc env fault rnd now n st =
     (case st of (db, s) \<Rightarrow>
        case siteValidate (ae_uni env) (ae_tz env) n of
          Inl e \<Rightarrow> (Inl e, db, s)
        | Inr v \<Rightarrow> (case CreateSite fault rnd v now db of (r, db') \<Rightarrow> (r, db', resetSites s)))"

definition DeleteSiteSvc :: "error option \<Rightarrow> string \<Rightarrow> andb \<times> ansvc \<Rightarrow> unit result \<times> andb \<times> ansvc" where
  "DeleteSiteSvc fault sid st =
     (case st of (db, s) \<Rightarrow> case DeleteSite fault sid db of (r, db') \<Rightarrow> (r, db', resetSites s))"

definition SitesSvc :: "error option \<Rightarrow> time \<Rightarrow> andb \<Rightarrow> ansvc \<Rightarrow> site list result \<times> ansvc" where
  "SitesSvc fault now db s =
     (case cachedSites s of
        Some ss \<Rightarrow>
          if sitesTTL \<le> now - cachedAt s \<or> now < cachedAt s
          then (case ListSites fault db of
                  Inl e \<Rightarrow> (Inl e, s)
                | Inr new \<Rightarrow> (Inr new, s\<lparr>cachedSites := Some new, cachedAt := now\<rparr>))
          else (Inr ss, s)
      | None \<Rightarrow>
          (case ListSites fault db of
             Inl e \<Rightarrow> (Inl e, s)
           | Inr new \<Rightarrow> (Inr new, s\<lparr>cachedSites := Some new, cachedAt := now\<rparr>)))"

definition siteSvc :: "error option \<Rightarrow> time \<Rightarrow> string \<Rightarrow> andb \<Rightarrow> ansvc \<Rightarrow> site option result \<times> ansvc" where
  "siteSvc fault now sid db s =
     (case SitesSvc fault now db s of
        (Inl e, s') \<Rightarrow> (Inl e, s')
      | (Inr ss, s') \<Rightarrow> (Inr (find (\<lambda>x. si_id x = sid) ss), s'))"

definition dailySaltBase :: "error option \<Rightarrow> string option \<Rightarrow> andb \<times> ansvc \<Rightarrow> string result \<times> andb \<times> ansvc" where
  "dailySaltBase fault rnd st =
     (case st of (db, s) \<Rightarrow>
        if cachedSalt s = []
        then (case DailySaltBase fault rnd db of
                (Inl e, db') \<Rightarrow> (Inl e, db', s)
              | (Inr base, db') \<Rightarrow> (Inr base, db', s\<lparr>cachedSalt := base\<rparr>))
        else (Inr (cachedSalt s), db, s))"

text \<open>The identity of a visitor on a site day; 16 bytes are 32 characters of hex.\<close>

definition visitorId :: "anenv \<Rightarrow> string \<Rightarrow> site \<Rightarrow> string \<Rightarrow> string \<Rightarrow> time \<Rightarrow> string" where
  "visitorId env base s ip ua now =
     (let daily = ae_sha env (base @ ''|'' @ dayString (DayOf now (Location (ae_tz env) s)))
      in take 32 (ae_sha env (daily @ ''|'' @ si_id s @ ''|'' @ ip @ ''|'' @ ua)))"

definition visitorHash ::
  "anenv \<Rightarrow> error option \<Rightarrow> string option \<Rightarrow> site \<Rightarrow> string \<Rightarrow> string \<Rightarrow> time \<Rightarrow> andb \<times> ansvc \<Rightarrow> string result \<times> andb \<times> ansvc" where
  "visitorHash env fault rnd s ip ua now st =
     (case dailySaltBase fault rnd st of
        (Inl e, st') \<Rightarrow> (Inl e, st')
      | (Inr base, st') \<Rightarrow> (Inr (visitorId env base s ip ua now), st'))"

definition derived :: "anenv \<Rightarrow> beacon \<Rightarrow> site \<Rightarrow> string \<Rightarrow> string \<Rightarrow> string \<Rightarrow> string \<Rightarrow> time \<Rightarrow> pageview \<times> visit" where
  "derived env b s hash clientIP userAgent originHost now =
     (let uni = ae_uni env;
          (browser, os, device) = parseUserAgent uni userAgent;
          referrer = externalReferrer uni (ae_urlHost env) (b_referrer b) (si_domain s);
          (source, channel) = classify uni referrer (b_utm b) (b_paid b);
          (country, region) = ae_geo env clientIP;
          (browserMajor, osVersion) = uaVersions uni userAgent browser os;
          hostname = (if OriginMatchesSite uni (b_hostname b) (si_domain s) then b_hostname b else toLower uni originHost)
      in (\<lparr>p_site = si_id s, p_ts = now, p_path = pathOnly (b_url b), p_referrer = referrer, p_hash = hash, p_browser = browser,
           p_os = os, p_device = device, p_hostname = hostname\<rparr>,
          \<lparr>v_source = source, v_channel = channel, v_utm = b_utm b, v_paid = b_paid b, v_country = country, v_region = region,
           v_browserVersion = browserMajor, v_osVersion = osVersion, v_screen = ScreenGroup (b_width b)\<rparr>))"

definition collect ::
  "anenv \<Rightarrow> anfaults \<Rightarrow> time \<Rightarrow> beacon \<Rightarrow> string \<Rightarrow> string \<Rightarrow> string \<Rightarrow> andb \<times> ansvc \<Rightarrow> (bool \<times> string \<times> error option) \<times> andb \<times> ansvc" where
  "collect env f now b0 clientIP userAgent originHost st =
     (case beaconNormalize (ae_uni env) b0 of (b, ok) \<Rightarrow>
        if \<not> ok then ((False, ''invalid'', None), st)
        else if isBotUA (ae_uni env) userAgent then ((False, ''bot'', None), st)
        else case siteSvc (f_list f) now (b_site b) (fst st) (snd st) of
               (Inl e, s1) \<Rightarrow> ((False, ''error'', Some e), fst st, s1)
             | (Inr None, s1) \<Rightarrow> ((False, ''unknown_site'', None), fst st, s1)
             | (Inr (Some site), s1) \<Rightarrow>
                 if \<not> OriginMatchesSite (ae_uni env) originHost (si_domain site) then ((False, ''origin_mismatch'', None), fst st, s1)
                 else (case visitorHash env (f_salt f) (f_saltRnd f) site clientIP userAgent now (fst st, s1) of
                         (Inl e, st2) \<Rightarrow> ((False, ''error'', Some e), st2)
                       | (Inr hash, db2, s2) \<Rightarrow>
                           (case derived env b site hash clientIP userAgent originHost now of (p, v) \<Rightarrow>
                              case RecordPageview (f_record f) (f_visitRnd f) p v db2 of
                                (Inl e, db3) \<Rightarrow> ((False, ''error'', Some e), db3, s2)
                              | (Inr _, db3) \<Rightarrow> ((True, ''stored'', None), db3, s2))))"

definition Collect ::
  "anenv \<Rightarrow> anfaults \<Rightarrow> time \<Rightarrow> beacon \<Rightarrow> string \<Rightarrow> string \<Rightarrow> string \<Rightarrow> andb \<times> ansvc \<Rightarrow> (bool \<times> error option) \<times> andb \<times> ansvc" where
  "Collect env f now b clientIP userAgent originHost st =
     (case collect env f now b clientIP userAgent originHost st of
        ((stored, outcome, err), db, s) \<Rightarrow> ((stored, err), db, CountCollect outcome s))"

text \<open>The purge loop: it ends when a batch is empty or a statement fails.\<close>

lemma PurgePageviews_shrinks:
  assumes "PurgePageviews f1 f2 before k db = (Inr (Suc n), db')"
  shows "length (pageviews db') + length (visits db') < length (pageviews db) + length (visits db)"
proof -
  define gone where "gone = take k (filter (\<lambda>p. pr_ts p < unixMilli before) (pageviews db))"
  define ended where "ended = take k (filter (\<lambda>v. vr_last v < unixMilli before) (visits db))"
  define ps where "ps = filter (\<lambda>p. pr_id p \<notin> pr_id ` set gone) (pageviews db)"
  have db': "visits db' = filter (\<lambda>v. vr_id v \<notin> vr_id ` set ended) (visits db)"
      "pageviews db' = filter (\<lambda>p. pr_visit p \<notin> (Some \<circ> vr_id) ` set ended) ps"
    and n: "length gone + length ended = Suc n"
    using assms by (auto simp: PurgePageviews_def Let_def gone_def ended_def ps_def split: option.splits)
  have le: "length (pageviews db') \<le> length ps" "length ps \<le> length (pageviews db)" "length (visits db') \<le> length (visits db)"
    unfolding db' ps_def by (rule length_filter_le)+
  have "length ps < length (pageviews db)" if "gone \<noteq> []"
    unfolding ps_def using that by (intro length_filter_keys_less) (auto simp: gone_def dest: in_set_takeD)
  moreover have "length (visits db') < length (visits db)" if "ended \<noteq> []"
    unfolding db' using that by (intro length_filter_keys_less) (auto simp: ended_def dest: in_set_takeD)
  ultimately show ?thesis using n le by (cases "gone = []") force+
qed

function anPurgeLoop :: "(nat \<Rightarrow> error option \<times> error option) \<Rightarrow> time \<Rightarrow> nat \<Rightarrow> andb \<Rightarrow> error option \<times> andb" where
  "anPurgeLoop faults before i db =
     (case PurgePageviews (fst (faults i)) (snd (faults i)) before 5000 db of
        (Inl e, db') \<Rightarrow> (Some e, db')
      | (Inr n, db') \<Rightarrow> if n = 0 then (None, db') else anPurgeLoop faults before (Suc i) db')"
  by pat_completeness auto
termination
proof (relation "measure (\<lambda>(faults, before, i, db). length (pageviews db) + length (visits db))", goal_cases)
  case 1
  show ?case by simp
next
  case (2 faults before i db x y n)
  then show ?case by (cases n) (auto intro: PurgePageviews_shrinks [OF sym])
qed

declare anPurgeLoop.simps [simp del]

definition PurgeSvc :: "anenv \<Rightarrow> (nat \<Rightarrow> error option \<times> error option) \<Rightarrow> time \<Rightarrow> andb \<Rightarrow> error option \<times> andb" where
  "PurgeSvc env faults now db =
     (if ae_retention env \<le> 0 then (None, db) else anPurgeLoop faults (now - ae_retention env) 0 db)"


subsection \<open>Visits partition the pageviews\<close>

text \<open>
  The invariant of the tables at a moment \<open>now\<close> (in milliseconds) when every purge so far had a limit of at most
  \<open>old\<close>: the pageviews of a visit follow each other with less than half an hour in between, the visit's columns
  are those of its pageviews (all of them, if the visit is not older than \<open>old\<close>), every pageview belongs to
  one visit, and two visits of a visitor are at least half an hour apart.
\<close>

definition views :: "visitRow \<Rightarrow> andb \<Rightarrow> pvRow list" where
  "views v db = filter (\<lambda>p. pr_visit p = Some (vr_id v)) (pageviews db)"

definition follows :: "pvRow \<Rightarrow> pvRow \<Rightarrow> bool" where
  "follows p q \<longleftrightarrow> pr_ts p \<le> pr_ts q \<and> pr_ts q < pr_ts p + idleMs"

definition visitOk :: "int \<Rightarrow> visitRow \<Rightarrow> pvRow list \<Rightarrow> bool" where
  "visitOk old v ps \<longleftrightarrow>
     vr_started v \<le> vr_last v \<and> successively follows ps \<and> int (length ps) \<le> vr_pageviews v \<and>
     (\<forall>p\<in>set ps. p_site (pr_view p) = vr_site v \<and> p_hash (pr_view p) = vr_hash v \<and> vr_started v \<le> pr_ts p \<and> pr_ts p \<le> vr_last v) \<and>
     (ps \<noteq> [] \<longrightarrow> pr_ts (last ps) = vr_last v \<and> p_path (pr_view (last ps)) = vr_exit v) \<and>
     (old \<le> vr_started v \<longrightarrow> ps \<noteq> [] \<and> int (length ps) = vr_pageviews v \<and> pr_view (hd ps) = vr_first v \<and> pr_ts (hd ps) = vr_started v)"

definition apart :: "visitRow \<Rightarrow> visitRow \<Rightarrow> bool" where
  "apart v w \<longleftrightarrow> vr_id v = vr_id w \<or> vr_site v \<noteq> vr_site w \<or> vr_hash v \<noteq> vr_hash w \<or>
     vr_last v + idleMs \<le> vr_started w \<or> vr_last w + idleMs \<le> vr_started v"

definition sites_ok :: "andb \<Rightarrow> bool" where
  "sites_ok db \<longleftrightarrow> length (sites db) \<le> MaxSites \<and> distinct (map si_id (sites db)) \<and> distinct (map si_domain (sites db))"

definition rows_ok :: "int \<Rightarrow> nat \<Rightarrow> pvRow list \<Rightarrow> bool" where
  "rows_ok now k ps \<longleftrightarrow>
     distinct (map pr_id ps) \<and> sorted (map pr_ts ps) \<and> (\<forall>p\<in>set ps. pr_id p < k \<and> pr_ts p \<le> now)"

definition an_inv :: "int \<Rightarrow> int \<Rightarrow> andb \<Rightarrow> bool" where
  "an_inv now old db \<longleftrightarrow>
     sites_ok db \<and> distinct (map vr_id (visits db)) \<and> rows_ok now (nextPageview db) (pageviews db) \<and>
     (\<forall>p\<in>set (pageviews db). \<exists>v\<in>set (visits db). pr_visit p = Some (vr_id v)) \<and>
     (\<forall>v\<in>set (visits db). vr_last v \<le> now \<and> vr_site v \<in> si_id ` set (sites db) \<and> visitOk old v (views v db)) \<and>
     (\<forall>v\<in>set (visits db). \<forall>w\<in>set (visits db). apart v w)"

lemma an_invE:
  assumes "an_inv now old db"
  shows "sites_ok db" "distinct (map vr_id (visits db))" "rows_ok now (nextPageview db) (pageviews db)"
    "\<And>p. p \<in> set (pageviews db) \<Longrightarrow> \<exists>v\<in>set (visits db). pr_visit p = Some (vr_id v)"
    "\<And>v. v \<in> set (visits db) \<Longrightarrow> vr_last v \<le> now \<and> vr_site v \<in> si_id ` set (sites db) \<and> visitOk old v (views v db)"
    "\<And>v w. v \<in> set (visits db) \<Longrightarrow> w \<in> set (visits db) \<Longrightarrow> apart v w"
  using assms unfolding an_inv_def by blast+

lemma an_invI:
  assumes "sites_ok db" "distinct (map vr_id (visits db))" "rows_ok now (nextPageview db) (pageviews db)"
    "\<And>p. p \<in> set (pageviews db) \<Longrightarrow> \<exists>v\<in>set (visits db). pr_visit p = Some (vr_id v)"
    "\<And>v. v \<in> set (visits db) \<Longrightarrow> vr_last v \<le> now \<and> vr_site v \<in> si_id ` set (sites db) \<and> visitOk old v (views v db)"
    "\<And>v w. v \<in> set (visits db) \<Longrightarrow> w \<in> set (visits db) \<Longrightarrow> apart v w"
  shows "an_inv now old db"
  using assms unfolding an_inv_def by blast

lemma rows_ok_snoc:
  "rows_ok now k ps \<Longrightarrow> now \<le> pr_ts r \<Longrightarrow> pr_id r = k \<Longrightarrow> rows_ok (pr_ts r) (Suc k) (ps @ [r])"
  by (force simp: rows_ok_def sorted_append less_Suc_eq)

lemma an_inv_mono: "an_inv now old db \<Longrightarrow> now \<le> now' \<Longrightarrow> an_inv now' old db"
  unfolding an_inv_def rows_ok_def by force

lemma an_inv_empty: "sites_ok db \<Longrightarrow> visits db = [] \<Longrightarrow> pageviews db = [] \<Longrightarrow> an_inv now old db"
  by (simp add: an_inv_def rows_ok_def)

lemma idleMs_eq: "idleMs = 1800000"
  by (simp add: idleMs_def VisitIdle_def)

lemma openVisit_Some:
  assumes "openVisit sid h ts vs = Some w"
  shows "w \<in> set vs" "vr_site w = sid" "vr_hash w = h" "ts - idleMs < vr_last w"
proof -
  have "w \<in> set (filter (\<lambda>v. vr_site v = sid \<and> vr_hash v = h \<and> ts - idleMs < vr_last v) vs)"
    using assms unfolding openVisit_def Let_def by (rule find_SomeD [THEN conjunct1])
  then show "w \<in> set vs" "vr_site w = sid" "vr_hash w = h" "ts - idleMs < vr_last w" by simp_all
qed

lemma openVisit_None:
  assumes "openVisit sid h ts vs = None" "v \<in> set vs" "vr_site v = sid" "vr_hash v = h"
  shows "vr_last v + idleMs \<le> ts"
proof (rule ccontr)
  define live where "live = filter (\<lambda>v. vr_site v = sid \<and> vr_hash v = h \<and> ts - idleMs < vr_last v) vs"
  assume "\<not> vr_last v + idleMs \<le> ts"
  then have "v \<in> set live" using assms by (simp add: live_def)
  then have ne: "vr_last ` set live \<noteq> {}" by auto
  then obtain m where m: "m \<in> set live" "vr_last m = Max (vr_last ` set live)"
    using Max_in [OF finite_imageI ne] by fastforce
  then have "\<forall>w\<in>set live. vr_last w \<le> vr_last m" by simp
  then have "find (\<lambda>v. \<forall>w\<in>set live. vr_last w \<le> vr_last v) live \<noteq> None"
    using m(1) by (auto simp: find_None_iff)
  then show False using assms(1) by (simp add: openVisit_def live_def Let_def)
qed

lemma visitOk_snoc:
  assumes "visitOk old w ps" "ts - idleMs < vr_last w" "vr_last w \<le> ts"
    "p_site p = vr_site w" "p_hash p = vr_hash w"
  shows "visitOk old (w\<lparr>vr_last := ts, vr_exit := p_path p, vr_pageviews := vr_pageviews w + 1\<rparr>)
    (ps @ [\<lparr>pr_id = i, pr_ts = ts, pr_visit = vid, pr_view = p\<rparr>])"
  using assms by (cases "ps = []") (auto simp: visitOk_def successively_append_iff follows_def vr_site_def vr_hash_def)

lemma RecordPageview_continue:
  assumes inv: "an_inv now old db" and le: "now \<le> ts" and w: "openVisit (p_site p) (p_hash p) ts (visits db) = Some w"
    and r: "r = \<lparr>pr_id = nextPageview db, pr_ts = ts, pr_visit = Some (vr_id w), pr_view = p\<rparr>"
    and upd: "upd = (\<lambda>x. if vr_id x = vr_id w then x\<lparr>vr_last := ts, vr_exit := p_path p, vr_pageviews := vr_pageviews x + 1\<rparr> else x)"
  shows "an_inv ts old (db\<lparr>visits := map upd (visits db), pageviews := pageviews db @ [r], nextPageview := Suc (nextPageview db)\<rparr>)" (is "an_inv _ _ ?db")
proof -
  note I = an_invE [OF inv] and W = openVisit_Some [OF w]
  have same: "vr_id (upd x) = vr_id x" "vr_site (upd x) = vr_site x" "vr_hash (upd x) = vr_hash x" "vr_started (upd x) = vr_started x" for x
    by (simp_all add: upd vr_site_def vr_hash_def)
  have only: "x = w" if "x \<in> set (visits db)" "vr_id x = vr_id w" for x
    using that W(1) I(2) by (metis distinct_map inj_onD)
  have ok: "vr_last (upd x) \<le> ts \<and> vr_site (upd x) \<in> si_id ` set (sites ?db) \<and> visitOk old (upd x) (views (upd x) ?db)"
    if x: "x \<in> set (visits db)" for x
  proof (cases "vr_id x = vr_id w")
    case True
    then have "views (upd x) ?db = views w db @ [r]" by (simp add: views_def same r)
    then show ?thesis
      using visitOk_snoc [of old w "views w db" ts p] I(5) [OF x] only [OF x True] W le
      by (simp add: r upd vr_site_def)
  next
    case False
    then have "views (upd x) ?db = views x db" by (simp add: views_def same r)
    then show ?thesis using I(5) [OF x] False le by (simp add: upd)
  qed
  have "apart (upd x) (upd y)" if x: "x \<in> set (visits db)" and y: "y \<in> set (visits db)" for x y
  proof (cases "vr_id x = vr_id w \<or> vr_id y = vr_id w")
    case False
    then show ?thesis using I(6) [OF x y] by (simp add: upd)
  next
    case True
    have "vr_started x \<le> ts" "vr_started y \<le> ts" using I(5) [OF x] I(5) [OF y] le by (auto simp: visitOk_def)
    then show ?thesis
      using True I(6) [OF x y] W only [OF x] only [OF y] by (auto simp: apart_def same) (auto simp: upd)
  qed
  then have ap: "apart v v'" if "v \<in> set (visits ?db)" "v' \<in> set (visits ?db)" for v v' using that by auto
  show ?thesis
  proof (rule an_invI)
    show "sites_ok ?db" "distinct (map vr_id (visits ?db))" using I(1,2) by (simp_all add: sites_ok_def same comp_def)
    show "rows_ok ts (nextPageview ?db) (pageviews ?db)" using rows_ok_snoc [OF I(3), of r] le by (simp add: r)
    show "\<exists>v\<in>set (visits ?db). pr_visit q = Some (vr_id v)" if "q \<in> set (pageviews ?db)" for q
      using that I(4) W(1) by (auto simp: r same)
  qed (use ok ap in auto)
qed

lemma RecordPageview_open:
  assumes inv: "an_inv now old db" and le: "now \<le> ts" and none: "openVisit (p_site p) (p_hash p) ts (visits db) = None"
    and vid: "vid \<notin> vr_id ` set (visits db)" "p_site p \<in> si_id ` set (sites db)"
    and r: "r = \<lparr>pr_id = nextPageview db, pr_ts = ts, pr_visit = Some vid, pr_view = p\<rparr>"
    and n: "n = \<lparr>vr_id = vid, vr_started = ts, vr_last = ts, vr_exit = p_path p, vr_pageviews = 1, vr_first = p, vr_info = v\<rparr>"
  shows "an_inv ts old (db\<lparr>visits := visits db @ [n], pageviews := pageviews db @ [r], nextPageview := Suc (nextPageview db)\<rparr>)" (is "an_inv _ _ ?db")
proof (rule an_invI)
  note I = an_invE [OF inv]
  have "views n db = []" using I(4) vid by (force simp: views_def filter_empty_conv n)
  then have new: "views n ?db = [r]" by (simp add: views_def r n)
  have kept: "views x ?db = views x db" if "x \<in> set (visits db)" for x
    using that vid(1) by (auto simp: views_def r)
  show "sites_ok ?db" "distinct (map vr_id (visits ?db))" using I(1,2) vid by (auto simp: sites_ok_def n)
  show "rows_ok ts (nextPageview ?db) (pageviews ?db)" using rows_ok_snoc [OF I(3), of r] le by (simp add: r)
  show "\<exists>v\<in>set (visits ?db). pr_visit q = Some (vr_id v)" if "q \<in> set (pageviews ?db)" for q
    using that I(4) by (auto simp: r n)
  show "vr_last x \<le> ts \<and> vr_site x \<in> si_id ` set (sites ?db) \<and> visitOk old x (views x ?db)" if "x \<in> set (visits ?db)" for x
  proof (cases "x = n")
    case True
    then show ?thesis using vid(2) by (simp add: new visitOk_def) (simp add: n r vr_site_def vr_hash_def)
  next
    case False
    then show ?thesis using that I(5) [of x] kept [of x] le by auto
  qed
  have far: "vr_last x + idleMs \<le> ts" if "x \<in> set (visits db)" "vr_site x = vr_site n" "vr_hash x = vr_hash n" for x
    using openVisit_None [OF none that(1)] that(2,3) by (simp add: n vr_site_def vr_hash_def)
  show "apart x y" if "x \<in> set (visits ?db)" "y \<in> set (visits ?db)" for x y
    using that I(6) far [of x] far [of y] by (auto simp: apart_def n vr_site_def vr_hash_def)
qed

lemma RecordPageview_inv:
  assumes "an_inv now old db" "now \<le> unixMilli (p_ts p)" "RecordPageview fault rnd p v db = (res, db')"
  shows "an_inv (unixMilli (p_ts p)) old db'"
proof (cases res)
  case (Inl e)
  then have "db' = db" using assms(3) by (auto simp: RecordPageview_def Let_def split: option.splits if_splits)
  then show ?thesis using assms(1,2) by (auto intro: an_inv_mono)
next
  case (Inr u)
  show ?thesis
  proof (cases "openVisit (p_site p) (p_hash p) (unixMilli (p_ts p)) (visits db)")
    case None
    then show ?thesis
      using assms(3) Inr RecordPageview_open [OF assms(1,2) None _ _ refl refl]
      by (auto simp: RecordPageview_def Let_def split: option.splits if_splits)
  next
    case (Some w)
    then show ?thesis
      using assms(3) Inr RecordPageview_continue [OF assms(1,2) Some refl refl]
      by (auto simp: RecordPageview_def Let_def split: option.splits)
  qed
qed

lemma an_inv_cong:
  "an_inv now old db \<Longrightarrow> sites db' = sites db \<Longrightarrow> visits db' = visits db \<Longrightarrow> pageviews db' = pageviews db \<Longrightarrow>
   nextPageview db' = nextPageview db \<Longrightarrow> an_inv now old db'"
  by (simp add: an_inv_def sites_ok_def views_def)

lemma CreateSite_inv:
  assumes "an_inv now old db" "CreateSite fault rnd n t db = (res, db')"
  shows "an_inv now old db'"
proof -
  have frame: "visits db' = visits db" "pageviews db' = pageviews db" "nextPageview db' = nextPageview db"
    "si_id ` set (sites db) \<subseteq> si_id ` set (sites db')" and ok: "sites_ok db \<Longrightarrow> sites_ok db'"
    using assms(2) by (auto simp: CreateSite_def Let_def sites_ok_def split: option.splits if_splits) blast+
  show ?thesis
    using an_invE [OF assms(1)] ok frame(1-3) subsetD [OF frame(4)] by (intro an_invI) (simp_all add: views_def)
qed

lemma DeleteSite_inv:
  assumes "an_inv now old db" "DeleteSite fault sid db = (res, db')"
  shows "an_inv now old db'"
proof (cases "db' = db")
  case False
  note I = an_invE [OF assms(1)]
  have d: "sites db' = filter (\<lambda>s. si_id s \<noteq> sid) (sites db)" "visits db' = filter (\<lambda>v. vr_site v \<noteq> sid) (visits db)"
    "pageviews db' = filter (\<lambda>p. p_site (pr_view p) \<noteq> sid) (pageviews db)" "nextPageview db' = nextPageview db"
    using assms(2) False by (auto simp: DeleteSite_def split: option.splits if_splits)
  have own: "p_site (pr_view p) = vr_site v" if "p \<in> set (pageviews db)" "pr_visit p = Some (vr_id v)" "v \<in> set (visits db)" for p v
    using I(5) [OF that(3)] that by (simp add: visitOk_def views_def)
  have vw: "views v db' = views v db" if "v \<in> set (visits db')" for v
    using that own by (auto simp: views_def d intro!: filter_cong)
  show ?thesis
  proof (rule an_invI)
    show "sites_ok db'" using I(1) by (auto simp: sites_ok_def d distinct_map_filter intro: le_trans [OF length_filter_le])
    show "distinct (map vr_id (visits db'))" using I(2) by (simp add: d distinct_map_filter)
    show "rows_ok now (nextPageview db') (pageviews db')"
      using I(3) by (auto simp: d rows_ok_def distinct_map_filter intro: sorted_filter)
    show "\<exists>v\<in>set (visits db'). pr_visit q = Some (vr_id v)" if "q \<in> set (pageviews db')" for q
      using that I(4) [of q] own by (fastforce simp: d)
    show "vr_last v \<le> now \<and> vr_site v \<in> si_id ` set (sites db') \<and> visitOk old v (views v db')" if "v \<in> set (visits db')" for v
      using that I(5) [of v] vw [OF that] by (auto simp: d)
    show "apart v w" if "v \<in> set (visits db')" "w \<in> set (visits db')" for v w
      using that I(6) by (simp add: d)
  qed
qed (use assms(1) in simp)


text \<open>On rows in the order of their times a purge removes a prefix.\<close>

lemma sorted_filter_less:
  fixes f :: "'a \<Rightarrow> int"
  shows "sorted (map f xs) \<Longrightarrow> \<exists>n. filter (\<lambda>x. f x < b) xs = take n xs"
proof (induction xs)
  case (Cons x xs)
  show ?case
  proof (cases "f x < b")
    case True
    obtain n where "filter (\<lambda>x. f x < b) xs = take n xs" using Cons by auto
    then show ?thesis using True by (intro exI [of _ "Suc n"]) simp
  next
    case False
    then have "filter (\<lambda>x. f x < b) (x # xs) = []" using Cons.prems by (auto simp: filter_empty_conv)
    then show ?thesis by (intro exI [of _ 0]) simp
  qed
qed simp

lemma filter_keys_take: "distinct (map f xs) \<Longrightarrow> filter (\<lambda>x. f x \<notin> f ` set (take n xs)) xs = drop n xs"
proof -
  assume d: "distinct (map f xs)"
  have xs: "xs = take n xs @ drop n xs" by simp
  have "f y \<notin> f ` set (take n xs)" if "y \<in> set (drop n xs)" for y
    using d that by (subst (asm) xs) (auto simp: distinct_map inj_on_def simp del: append_take_drop_id dest: in_set_dropD in_set_takeD)
  then have "filter (\<lambda>x. f x \<notin> f ` set (take n xs)) (drop n xs) = drop n xs" by (simp add: filter_id_conv)
  moreover have "filter (\<lambda>x. f x \<notin> f ` set (take n xs)) (take n xs) = []" by (simp add: filter_empty_conv)
  ultimately show ?thesis by (metis append_Nil filter_append append_take_drop_id)
qed

lemma purge_prefix:
  assumes "rows_ok now m ps" "gone = take k (filter (\<lambda>p. pr_ts p < b) ps)"
  shows "\<exists>n. gone = take n ps \<and> filter (\<lambda>p. pr_id p \<notin> pr_id ` set gone) ps = drop n ps"
proof -
  obtain n where "filter (\<lambda>p. pr_ts p < b) ps = take n ps"
    using sorted_filter_less [of pr_ts ps] assms(1) unfolding rows_ok_def by blast
  then have "gone = take (min k n) ps" using assms(2) by (simp add: take_take)
  then show ?thesis using filter_keys_take [of pr_id ps "min k n"] assms(1) by (auto simp: rows_ok_def)
qed

lemma visitOk_suffix:
  assumes "visitOk old v (a @ ps)" "old \<le> old'" "old' \<le> vr_started v \<Longrightarrow> a = []"
  shows "visitOk old' v ps"
  using assms by (cases "ps = []") (auto simp: visitOk_def successively_append_iff)

lemma purgeRows_inv:
  assumes inv: "an_inv now old db" and gone: "gone = take k (filter (\<lambda>p. pr_ts p < b) (pageviews db))"
  shows "an_inv now (max old b) (db\<lparr>pageviews := filter (\<lambda>p. pr_id p \<notin> pr_id ` set gone) (pageviews db)\<rparr>)" (is "an_inv _ _ ?db")
proof -
  note I = an_invE [OF inv]
  obtain n where n: "gone = take n (pageviews db)" "filter (\<lambda>p. pr_id p \<notin> pr_id ` set gone) (pageviews db) = drop n (pageviews db)"
    using purge_prefix [OF I(3) gone] by blast
  have db: "?db = db\<lparr>pageviews := drop n (pageviews db)\<rparr>" by (simp add: n(2))
  have young: "pr_ts p < b" if "p \<in> set (take n (pageviews db))" for p
    using that unfolding n(1) [symmetric] gone by (auto dest: in_set_takeD)
  have ok: "visitOk (max old b) v (views v ?db)" if v: "v \<in> set (visits db)" for v
  proof (rule visitOk_suffix)
    define a where "a = filter (\<lambda>p. pr_visit p = Some (vr_id v)) (take n (pageviews db))"
    have split: "views v db = a @ views v ?db"
      unfolding views_def a_def db by (simp flip: filter_append)
    show "visitOk old v (a @ views v ?db)" using I(5) [OF v] split by simp
    show "a = []" if "max old b \<le> vr_started v"
    proof (rule ccontr)
      assume "a \<noteq> []"
      then have "hd a \<in> set a" by simp
      then have "pr_ts (hd a) < b" "vr_started v \<le> pr_ts (hd a)"
        using young [of "hd a"] I(5) [OF v] split by (auto simp: a_def visitOk_def)
      then show False using that by simp
    qed
  qed simp
  have "rows_ok now (nextPageview db) (drop n (pageviews db))"
    using I(3) by (auto simp: rows_ok_def distinct_drop sorted_wrt_drop simp flip: drop_map dest: in_set_dropD)
  then show ?thesis
    using I ok by (intro an_invI) (auto simp: db sites_ok_def dest: in_set_dropD)
qed

lemma purgeVisits_inv:
  assumes inv: "an_inv now old db"
  shows "an_inv now old (db\<lparr>visits := filter (\<lambda>v. vr_id v \<notin> E) (visits db), pageviews := filter (\<lambda>p. pr_visit p \<notin> Some ` E) (pageviews db)\<rparr>)"
    (is "an_inv _ _ ?db")
proof -
  note I = an_invE [OF inv]
  have "views v ?db = views v db" if "v \<in> set (visits ?db)" for v
    using that by (auto simp: views_def intro!: filter_cong)
  moreover have "rows_ok now (nextPageview db) (pageviews ?db)"
    using I(3) by (auto simp: rows_ok_def distinct_map_filter intro: sorted_filter)
  ultimately show ?thesis
    using I by (intro an_invI) (fastforce simp: sites_ok_def distinct_map_filter)+
qed

lemma PurgePageviews_inv:
  assumes "an_inv now old db" "PurgePageviews f1 f2 before k db = (res, db')"
  shows "an_inv now (max old (unixMilli before)) db'"
proof (cases f1)
  case (Some e)
  then have "db' = db" using assms(2) by (simp add: PurgePageviews_def)
  then show ?thesis using purgeRows_inv [OF assms(1), where k = 0 and b = "unixMilli before", OF refl] by simp
next
  case None
  note one = purgeRows_inv [OF assms(1), where k = k and b = "unixMilli before", OF refl]
  show ?thesis
  proof (cases f2)
    case (Some e)
    then show ?thesis using assms(2) None one by (auto simp: PurgePageviews_def Let_def)
  next
    case 2: None
    show ?thesis
      using assms(2) None 2 purgeVisits_inv [OF one, of "vr_id ` set (take k (filter (\<lambda>v. vr_last v < unixMilli before) (visits db)))"]
      by (auto simp: PurgePageviews_def Let_def image_comp)
  qed
qed

lemma anPurgeLoop_inv:
  "anPurgeLoop faults before i db = (err, db') \<Longrightarrow> an_inv now old db \<Longrightarrow> an_inv now (max old (unixMilli before)) db'"
proof (induction faults before i db arbitrary: old rule: anPurgeLoop.induct)
  case (1 faults before i db)
  obtain res db1 where p: "PurgePageviews (fst (faults i)) (snd (faults i)) before 5000 db = (res, db1)" by fastforce
  note one = PurgePageviews_inv [OF "1.prems"(2) p]
  show ?case
  proof (cases res)
    case (Inl e)
    then show ?thesis using "1.prems"(1) one p by (simp add: anPurgeLoop.simps [of faults])
  next
    case (Inr n)
    then show ?thesis
      using "1.prems"(1) one p "1.IH" [OF p [symmetric] Inr, of "max old (unixMilli before)"]
      by (auto simp: anPurgeLoop.simps [of faults before i] split: if_splits)
  qed
qed


end
