(* ===== verification/Analytics_Query.thy ===== *)
theory Analytics_Query
  imports Analytics
begin

section \<open>Site analytics: reports and daily aggregates (internal/analytics)\<close>

text \<open>
  The read side: the query language with its validation (\<^verbatim>\<open>domain/query.go\<close>), the SQL of
  \<^verbatim>\<open>infrastructure/query.go\<close> as functions on the tables, the query service (\<^verbatim>\<open>application/query.go\<close>) and the
  aggregate job (\<^verbatim>\<open>application/rollup.go\<close>). Metrics are exact rationals; \<^verbatim>\<open>float64\<close> represents the counts
  exactly and the ratios up to rounding. The rows of a \<^verbatim>\<open>GROUP BY\<close> come in the order of the first row of
  each group. One reading of the clock per call is an argument, as is the failure of a statement.
\<close>

subsection \<open>The query language (domain/query.go)\<close>

record qfilter =
  fi_dimension :: string
  fi_op :: string
  fi_values :: "string list"

record query =
  q_metrics :: "string list"
  q_dimension :: string
  q_filters :: "qfilter list"
  q_dateRange :: "string list"
  q_period :: string
  q_compare :: string
  q_orderBy :: string
  q_limit :: int
  q_format :: string

definition MaxQueryLimit :: nat where "MaxQueryLimit = 1000"
definition DefaultLimit :: nat where "DefaultLimit = 100"
definition MaxFilterValues :: nat where "MaxFilterValues = 20"
definition MaxFilters :: nat where "MaxFilters = 8"
definition MaxValueBytes :: nat where "MaxValueBytes = 2048"
definition MaxHistoryMonths :: nat where "MaxHistoryMonths = 25"

definition metricSet :: "string list" where
  "metricSet = [''visitors'', ''visits'', ''pageviews'', ''views_per_visit'', ''bounce_rate'', ''visit_duration'']"

text \<open>Each visit dimension with the column of \<^verbatim>\<open>visits\<close> it reads.\<close>

definition VisitColumns :: "(string \<times> (visitRow \<Rightarrow> string)) list" where
  "VisitColumns =
     [(''entry_page'', \<lambda>v. p_path (vr_first v)), (''exit_page'', vr_exit),
      (''channel'', \<lambda>v. v_channel (vr_info v)), (''source'', \<lambda>v. v_source (vr_info v)),
      (''utm_source'', \<lambda>v. u_source (v_utm (vr_info v))), (''utm_medium'', \<lambda>v. u_medium (v_utm (vr_info v))),
      (''utm_campaign'', \<lambda>v. u_campaign (v_utm (vr_info v))), (''utm_content'', \<lambda>v. u_content (v_utm (vr_info v))),
      (''utm_term'', \<lambda>v. u_term (v_utm (vr_info v))),
      (''country'', \<lambda>v. v_country (vr_info v)), (''region'', \<lambda>v. v_region (vr_info v)),
      (''browser'', \<lambda>v. p_browser (vr_first v)), (''browser_version'', \<lambda>v. v_browserVersion (vr_info v)),
      (''os'', \<lambda>v. p_os (vr_first v)), (''os_version'', \<lambda>v. v_osVersion (vr_info v)),
      (''device'', \<lambda>v. p_device (vr_first v)), (''screen'', \<lambda>v. v_screen (vr_info v)),
      (''hostname'', \<lambda>v. p_hostname (vr_first v))]"

definition Dimensions :: "string list" where
  "Dimensions =
     [''''::string, ''page'', ''entry_page'', ''exit_page'', ''channel'', ''source'', ''utm_source'', ''utm_medium'',
      ''utm_campaign'', ''utm_content'', ''utm_term'', ''country'', ''region'', ''browser'', ''browser_version'', ''os'',
      ''os_version'', ''device'', ''screen'', ''hostname'']"

definition TimeIntervals :: "string list" where
  "TimeIntervals = [''hour'', ''day'', ''week'', ''month'']"

definition IsTimeDimension :: "string \<Rightarrow> string \<times> bool" where
  "IsTimeDimension d =
     (if hasPrefix d ''time:'' then (drop 5 d, drop 5 d \<in> set TimeIntervals) else (d, False))"

definition IsKnownDimension :: "string \<Rightarrow> bool" where
  "IsKnownDimension d \<longleftrightarrow> d = ''page'' \<or> map_of VisitColumns d \<noteq> None"

text \<open>\<^verbatim>\<open>strconv.Quote\<close> in a message is the parameter \<open>quote\<close>.\<close>

fun checkMetrics :: "(string \<Rightarrow> string) \<Rightarrow> string list \<Rightarrow> string list \<Rightarrow> unit result" where
  "checkMetrics quote seen [] = Inr ()"
| "checkMetrics quote seen (m # ms) =
     (if m \<notin> set metricSet then Inl (Invalid (''unknown metric '' @ quote m))
      else if m \<in> set seen then Inl (Invalid (''metric '' @ quote m @ '' is listed twice''))
      else checkMetrics quote (m # seen) ms)"

definition checkFilter :: "(string \<Rightarrow> string) \<Rightarrow> qfilter \<Rightarrow> unit result" where
  "checkFilter quote f =
     (if \<not> IsKnownDimension (fi_dimension f) then Inl (Invalid (''unknown filter dimension '' @ quote (fi_dimension f)))
      else if fi_op f \<noteq> ''is'' \<and> fi_op f \<noteq> ''is_not'' \<and> fi_op f \<noteq> ''contains'' then Inl (Invalid ''filter op must be is, is_not or contains'')
      else if fi_values f = [] \<or> MaxFilterValues < length (fi_values f) then Inl (Invalid (''a filter takes 1..'' @ itoa MaxFilterValues @ '' values''))
      else if list_ex (\<lambda>v. MaxValueBytes < length v) (fi_values f) then Inl (Invalid ''a filter value is too long'')
      else Inr ())"

fun checkFilters :: "(string \<Rightarrow> string) \<Rightarrow> qfilter list \<Rightarrow> unit result" where
  "checkFilters quote [] = Inr ()"
| "checkFilters quote (f # fs) = result_bind (checkFilter quote f) (\<lambda>_. checkFilters quote fs)"

definition queryValidate :: "(string \<Rightarrow> string) \<Rightarrow> query \<Rightarrow> query result" where
  "queryValidate quote q0 =
     (let q = (if q_metrics q0 = [] then q0\<lparr>q_metrics := [''visitors'']\<rparr> else q0)
      in result_bind (checkMetrics quote [] (q_metrics q)) (\<lambda>_.
         if q_dimension q \<noteq> [] \<and> \<not> IsKnownDimension (q_dimension q) \<and> \<not> snd (IsTimeDimension (q_dimension q))
         then Inl (Invalid (''unknown dimension '' @ quote (q_dimension q)))
         else if MaxFilters < length (q_filters q) then Inl (Invalid (''at most '' @ itoa MaxFilters @ '' filters''))
         else result_bind (checkFilters quote (q_filters q)) (\<lambda>_.
           if q_compare q \<noteq> [] \<and> q_compare q \<noteq> ''previous'' \<and> q_compare q \<noteq> ''year_ago'' then Inl (Invalid ''compare must be previous or year_ago'')
           else
             let q1 = (if q_limit q \<le> 0 then q\<lparr>q_limit := int DefaultLimit\<rparr> else q)
             in if int MaxQueryLimit < q_limit q1 then Inl (Invalid (''limit must be at most '' @ itoa MaxQueryLimit))
                else
                  let q2 = (if q_orderBy q1 = [] then q1\<lparr>q_orderBy := hd (q_metrics q1)\<rparr> else q1)
                  in if q_orderBy q2 \<notin> set (q_metrics q2) then Inl (Invalid ''order_by must be one of the requested metrics'')
                     else if q_format q2 \<noteq> [] \<and> q_format q2 \<noteq> ''json'' \<and> q_format q2 \<noteq> ''csv'' then Inl (Invalid ''format must be json or csv'')
                     else if length (q_dateRange q2) \<noteq> 0 \<and> length (q_dateRange q2) \<noteq> 2 then Inl (Invalid ''date_range must be [from, to]'')
                     else Inr q2)))"

subsection \<open>Counts and metrics (domain/query.go)\<close>

definition zeroCounts :: counts where
  "zeroCounts = \<lparr>c_visitors = 0, c_visits = 0, c_pageviews = 0, c_bounces = 0, c_duration = 0\<rparr>"

definition addCounts :: "counts \<Rightarrow> counts \<Rightarrow> counts" where
  "addCounts a b =
     \<lparr>c_visitors = c_visitors a + c_visitors b, c_visits = c_visits a + c_visits b, c_pageviews = c_pageviews a + c_pageviews b,
      c_bounces = c_bounces a + c_bounces b, c_duration = c_duration a + c_duration b\<rparr>"

definition roundTo :: "rat \<Rightarrow> nat \<Rightarrow> rat" where
  "roundTo v places =
     (let p = 10 ^ places
      in if v < 0 then - (of_int \<lfloor>- v * p + 1 / 2\<rfloor> / p) else of_int \<lfloor>v * p + 1 / 2\<rfloor> / p)"

text \<open>Go's integer division rounds towards zero.\<close>

definition goDiv :: "int \<Rightarrow> int \<Rightarrow> int" where
  "goDiv a b = sgn a * sgn b * (\<bar>a\<bar> div \<bar>b\<bar>)"

definition Metric :: "string \<Rightarrow> counts \<Rightarrow> rat" where
  "Metric name c =
     (if name = ''visitors'' then of_int (c_visitors c)
      else if name = ''visits'' then of_int (c_visits c)
      else if name = ''pageviews'' then of_int (c_pageviews c)
      else if name = ''views_per_visit'' then (if c_visits c = 0 then 0 else roundTo (of_int (c_pageviews c) / of_int (c_visits c)) 2)
      else if name = ''bounce_rate'' then (if c_visits c = 0 then 0 else roundTo (100 * of_int (c_bounces c) / of_int (c_visits c)) 1)
      else if name = ''visit_duration'' then (if c_visits c = 0 then 0 else of_int (goDiv (goDiv (c_duration c) (c_visits c)) 1000))
      else 0)"

type_synonym row = "string \<times> counts"

subsection \<open>The statements (infrastructure/query.go)\<close>

definition maxTimelineVisits :: nat where "maxTimelineVisits = 500000"

text \<open>A condition of \<^verbatim>\<open>matchSQL\<close>; \<^verbatim>\<open>LIKE\<close> ignores the case of ASCII letters, and the escaped value matches
  itself.\<close>

definition matchSQL :: "qfilter \<Rightarrow> string \<Rightarrow> bool" where
  "matchSQL f x =
     (if fi_op f = ''contains'' then list_ex (\<lambda>v. contains (map lowerAscii x) (map lowerAscii v)) (fi_values f)
      else if fi_op f = ''is_not'' then x \<notin> set (fi_values f)
      else x \<in> set (fi_values f))"

definition column :: "string \<Rightarrow> visitRow \<Rightarrow> string" where
  "column d = (case map_of VisitColumns d of Some col \<Rightarrow> col | None \<Rightarrow> (\<lambda>_. []))"

text \<open>\<^verbatim>\<open>filterSQL\<close> with no page alias (a condition on a visit) and with one (on a pageview and its visit).\<close>

definition filterVisit :: "andb \<Rightarrow> qfilter list \<Rightarrow> visitRow \<Rightarrow> bool" where
  "filterVisit db fs v =
     list_all (\<lambda>f. if fi_dimension f = ''page'' then list_ex (\<lambda>p. matchSQL f (p_path (pr_view p))) (views v db)
                   else matchSQL f (column (fi_dimension f) v)) fs"

definition filterPage :: "qfilter list \<Rightarrow> pvRow \<Rightarrow> visitRow \<Rightarrow> bool" where
  "filterPage fs p v =
     list_all (\<lambda>f. if fi_dimension f = ''page'' then matchSQL f (p_path (pr_view p)) else matchSQL f (column (fi_dimension f) v)) fs"

definition visitsIn :: "string \<Rightarrow> time \<Rightarrow> time \<Rightarrow> qfilter list \<Rightarrow> andb \<Rightarrow> visitRow list" where
  "visitsIn sid t0 t1 fs db =
     filter (\<lambda>v. vr_site v = sid \<and> unixMilli t0 \<le> vr_started v \<and> vr_started v < unixMilli t1 \<and> filterVisit db fs v) (visits db)"

definition visitCounts :: "visitRow list \<Rightarrow> counts" where
  "visitCounts vs =
     \<lparr>c_visitors = int (card (vr_hash ` set vs)), c_visits = int (length vs), c_pageviews = sum_list (map vr_pageviews vs),
      c_bounces = int (length (filter (\<lambda>v. vr_pageviews v = 1) vs)), c_duration = sum_list (map (\<lambda>v. vr_last v - vr_started v) vs)\<rparr>"

text \<open>The join of pageviews with their visits.\<close>

definition joined :: "andb \<Rightarrow> (pvRow \<times> visitRow) list" where
  "joined db = concat (map (\<lambda>p. map (Pair p) (filter (\<lambda>v. pr_visit p = Some (vr_id v)) (visits db))) (pageviews db))"

definition pagesIn :: "string \<Rightarrow> time \<Rightarrow> time \<Rightarrow> qfilter list \<Rightarrow> andb \<Rightarrow> (pvRow \<times> visitRow) list" where
  "pagesIn sid t0 t1 fs db =
     filter (\<lambda>(p, v). p_site (pr_view p) = sid \<and> unixMilli t0 \<le> pr_ts p \<and> pr_ts p < unixMilli t1 \<and> filterPage fs p v) (joined db)"

text \<open>The inner query groups the pageviews of a path by visit, the outer one sums the visits.\<close>

definition pageCounts :: "(pvRow \<times> visitRow) list \<Rightarrow> counts" where
  "pageCounts pvs =
     (let vs = remdups (map snd pvs)
      in \<lparr>c_visitors = int (card ((\<lambda>(p, v). p_hash (pr_view p)) ` set pvs)), c_visits = int (length vs), c_pageviews = int (length pvs),
          c_bounces = int (length (filter (\<lambda>v. vr_pageviews v = 1) vs)), c_duration = sum_list (map (\<lambda>v. vr_last v - vr_started v) vs)\<rparr>)"

definition groupBy :: "('a \<Rightarrow> string) \<Rightarrow> ('a list \<Rightarrow> counts) \<Rightarrow> 'a list \<Rightarrow> row list" where
  "groupBy key agg xs = map (\<lambda>k. (k, agg (filter (\<lambda>x. key x = k) xs))) (remdups (map key xs))"

definition rawRows :: "string \<Rightarrow> string \<Rightarrow> time \<Rightarrow> time \<Rightarrow> qfilter list \<Rightarrow> andb \<Rightarrow> row list" where
  "rawRows sid dm t0 t1 fs db =
     (if dm = ''page'' then groupBy (\<lambda>(p, v). p_path (pr_view p)) pageCounts (pagesIn sid t0 t1 fs db)
      else groupBy (if dm = [] then (\<lambda>_. []) else column dm) visitCounts (visitsIn sid t0 t1 fs db))"

definition RawRows :: "error option \<Rightarrow> string \<Rightarrow> string \<Rightarrow> time \<Rightarrow> time \<Rightarrow> qfilter list \<Rightarrow> andb \<Rightarrow> row list result" where
  "RawRows fault sid dm t0 t1 fs db = (case fault of Some e \<Rightarrow> Inl e | None \<Rightarrow> Inr (rawRows sid dm t0 t1 fs db))"

definition topColumns :: "(string \<times> (counts \<Rightarrow> int)) list" where
  "topColumns = [(''visitors'', c_visitors), (''visits'', c_visits), (''pageviews'', c_pageviews)]"

text \<open>\<^verbatim>\<open>ORDER BY col DESC, 1 LIMIT ?\<close>.\<close>

definition RawTopRows ::
  "error option \<Rightarrow> string \<Rightarrow> string \<Rightarrow> time \<Rightarrow> time \<Rightarrow> qfilter list \<Rightarrow> string \<Rightarrow> nat \<Rightarrow> andb \<Rightarrow> row list result" where
  "RawTopRows fault sid dm t0 t1 fs metric limit db =
     (case map_of topColumns metric of
        None \<Rightarrow> RawRows fault sid dm t0 t1 fs db
      | Some col \<Rightarrow>
          (case fault of
             Some e \<Rightarrow> Inl e
           | None \<Rightarrow> Inr (take limit (sort_key (\<lambda>(value, c). - col c) (sort_key fst (rawRows sid dm t0 t1 fs db))))))"

definition sumCounts :: "counts list \<Rightarrow> counts" where
  "sumCounts cs = fold addCounts cs zeroCounts"

text \<open>The days of the aggregates are compared as text.\<close>

definition dailiesIn :: "string \<Rightarrow> string \<Rightarrow> civilDay \<Rightarrow> civilDay \<Rightarrow> andb \<Rightarrow> daily list" where
  "dailiesIn sid dm d0 d1 db =
     filter (\<lambda>d. da_site d = sid \<and> da_dimension d = dm \<and> dayString d0 \<le> da_day d \<and> da_day d \<le> dayString d1) (dailies db)"

definition DailyRows :: "error option \<Rightarrow> string \<Rightarrow> string \<Rightarrow> civilDay \<Rightarrow> civilDay \<Rightarrow> andb \<Rightarrow> row list result" where
  "DailyRows fault sid dm d0 d1 db =
     (case fault of
        Some e \<Rightarrow> Inl e
      | None \<Rightarrow> Inr (groupBy da_value (\<lambda>ds. sumCounts (map da_counts ds)) (dailiesIn sid dm d0 d1 db)))"

definition DailyTotals :: "error option \<Rightarrow> string \<Rightarrow> civilDay \<Rightarrow> civilDay \<Rightarrow> andb \<Rightarrow> row list result" where
  "DailyTotals fault sid d0 d1 db =
     (case fault of
        Some e \<Rightarrow> Inl e
      | None \<Rightarrow> Inr (map (\<lambda>d. (da_day d, da_counts d)) (sort_key da_day (dailiesIn sid [] d0 d1 db))))"

definition RawVisits :: "error option \<Rightarrow> string \<Rightarrow> time \<Rightarrow> time \<Rightarrow> qfilter list \<Rightarrow> andb \<Rightarrow> visitRow list result" where
  "RawVisits fault sid t0 t1 fs db =
     (case fault of
        Some e \<Rightarrow> Inl e
      | None \<Rightarrow>
          let out = take (maxTimelineVisits + 1) (visitsIn sid t0 t1 fs db)
          in if maxTimelineVisits < length out then Inl (OtherError ''analytics: too many visits for a raw time series; narrow the range'')
             else Inr out)"

text \<open>The breakdowns are read first, then the day is replaced in one transaction.\<close>

definition dayRows :: "string \<Rightarrow> civilDay \<Rightarrow> time \<Rightarrow> time \<Rightarrow> andb \<Rightarrow> daily list" where
  "dayRows sid d t0 t1 db =
     concat (map (\<lambda>dm.
       let rows = rawRows sid dm t0 t1 [] db;
           rows' = (if dm = [] \<and> rows = [] then [([], zeroCounts)] else rows)
       in map (\<lambda>(value, c). \<lparr>da_site = sid, da_day = dayString d, da_dimension = dm, da_value = value, da_counts = c\<rparr>) rows') Dimensions)"

definition RefreshDay :: "error option \<Rightarrow> string \<Rightarrow> civilDay \<Rightarrow> time \<Rightarrow> time \<Rightarrow> andb \<Rightarrow> unit result \<times> andb" where
  "RefreshDay fault sid d t0 t1 db =
     (case fault of
        Some e \<Rightarrow> (Inl e, db)
      | None \<Rightarrow>
          (Inr (), db\<lparr>dailies := filter (\<lambda>x. \<not> (da_site x = sid \<and> da_day x = dayString d)) (dailies db) @ dayRows sid d t0 t1 db\<rparr>))"

definition AggregatedDays :: "error option \<Rightarrow> string \<Rightarrow> civilDay \<Rightarrow> civilDay \<Rightarrow> andb \<Rightarrow> string list result" where
  "AggregatedDays fault sid d0 d1 db =
     (case fault of
        Some e \<Rightarrow> Inl e
      | None \<Rightarrow> Inr (remdups (map da_day (filter (\<lambda>x. da_site x = sid \<and> dayString d0 \<le> da_day x \<and> da_day x \<le> dayString d1) (dailies db)))))"

definition FirstVisit :: "error option \<Rightarrow> string \<Rightarrow> andb \<Rightarrow> time option result" where
  "FirstVisit fault sid db =
     (case fault of
        Some e \<Rightarrow> Inl e
      | None \<Rightarrow>
          let ts = map vr_started (filter (\<lambda>v. vr_site v = sid) (visits db))
          in Inr (if ts = [] then None else Some (ofMilli (Min (set ts)))))"

definition PurgeDaily :: "error option \<Rightarrow> civilDay \<Rightarrow> andb \<Rightarrow> nat result \<times> andb" where
  "PurgeDaily fault before db =
     (case fault of
        Some e \<Rightarrow> (Inl e, db)
      | None \<Rightarrow>
          (Inr (length (filter (\<lambda>d. da_day d < dayString before) (dailies db))),
           db\<lparr>dailies := filter (\<lambda>d. \<not> da_day d < dayString before) (dailies db)\<rparr>))"

definition RealtimeCount :: "error option \<Rightarrow> string \<Rightarrow> time \<Rightarrow> andb \<Rightarrow> int result" where
  "RealtimeCount fault sid since db =
     (case fault of
        Some e \<Rightarrow> Inl e
      | None \<Rightarrow>
          Inr (int (card ((\<lambda>p. p_hash (pr_view p)) ` set (filter (\<lambda>p. p_site (pr_view p) = sid \<and> unixMilli since \<le> pr_ts p) (pageviews db))))))"


subsection \<open>The query service (application/query.go)\<close>

definition realtimeWindow :: duration where "realtimeWindow = 5 * minute"

definition rawFrom :: "duration \<Rightarrow> time \<Rightarrow> location \<Rightarrow> civilDay" where
  "rawFrom retention now loc = (if retention \<le> 0 then zeroDay else AddDays 1 (DayOf (now - retention) loc))"

definition Resolve :: "query \<Rightarrow> civilDay \<Rightarrow> dayRange result" where
  "Resolve q today =
     (case q_dateRange q of
        [a, b] \<Rightarrow>
          result_bind (ParseDay a) (\<lambda>f.
          result_bind (ParseDay b) (\<lambda>t.
            if t < f then Inl (Invalid ''date_range ends before it starts'')
            else if f < addDate 0 (- int MaxHistoryMonths) 0 t then Inl (Invalid (''date_range is longer than '' @ itoa MaxHistoryMonths @ '' months''))
            else Inr \<lparr>r_from = f, r_to = t\<rparr>))
      | _ \<Rightarrow>
          let monthStart = addDate 0 0 (1 - dayOfMonth today) today; p = q_period q
          in if p = [] \<or> p = ''today'' then Inr \<lparr>r_from = today, r_to = today\<rparr>
             else if p = ''yesterday'' then Inr \<lparr>r_from = AddDays (- 1) today, r_to = AddDays (- 1) today\<rparr>
             else if p = ''7d'' then Inr \<lparr>r_from = AddDays (- 6) today, r_to = today\<rparr>
             else if p = ''30d'' then Inr \<lparr>r_from = AddDays (- 29) today, r_to = today\<rparr>
             else if p = ''month'' then Inr \<lparr>r_from = monthStart, r_to = today\<rparr>
             else if p = ''last_month'' then Inr \<lparr>r_from = addDate 0 (- 1) 0 monthStart, r_to = AddDays (- 1) monthStart\<rparr>
             else if p = ''12mo'' then Inr \<lparr>r_from = addDate 0 (- 11) 0 monthStart, r_to = today\<rparr>
             else Inl (Invalid ''period must be today, yesterday, 7d, 30d, month, last_month or 12mo''))"

definition CompareRange :: "dayRange \<Rightarrow> string \<Rightarrow> dayRange option" where
  "CompareRange r compare =
     (if compare = ''previous'' then Some \<lparr>r_from = AddDays (- Days r) (r_from r), r_to = AddDays (- 1) (r_from r)\<rparr>
      else if compare = ''year_ago'' then Some \<lparr>r_from = addDate (- 1) 0 0 (r_from r), r_to = addDate (- 1) 0 0 (r_to r)\<rparr>
      else None)"

definition aggregatesNeeded :: "civilDay \<Rightarrow> dayRange \<Rightarrow> dayRange option \<Rightarrow> bool" where
  "aggregatesNeeded raw0 r cmp \<longleftrightarrow> r_from r < raw0 \<or> (case cmp of Some c \<Rightarrow> r_from c < raw0 | None \<Rightarrow> False)"

definition rawDaysText :: "duration \<Rightarrow> string" where
  "rawDaysText retention = itoa (nat (retention div day))"

definition deadlineError :: "(error \<Rightarrow> bool) \<Rightarrow> error \<Rightarrow> error" where
  "deadlineError exceeded e = (if exceeded e then Invalid ''the query took too long; narrow the range or the filters'' else e)"

definition metricsOf :: "string list \<Rightarrow> counts \<Rightarrow> (string \<times> rat) list" where
  "metricsOf names c = map (\<lambda>m. (m, Metric m c)) names"

definition splitRange :: "civilDay \<Rightarrow> dayRange \<Rightarrow> dayRange option \<times> dayRange option" where
  "splitRange raw0 r =
     (if \<not> r_from r < raw0 then (None, Some r)
      else if r_to r < raw0 then (Some r, None)
      else (Some \<lparr>r_from = r_from r, r_to = AddDays (- 1) raw0\<rparr>, Some \<lparr>r_from = raw0, r_to = r_to r\<rparr>))"

text \<open>The closure \<^verbatim>\<open>add\<close> of \<^verbatim>\<open>breakdown\<close>: a map with the order in which its keys came.\<close>

definition addRow :: "row \<Rightarrow> row list \<Rightarrow> row list" where
  "addRow r acc =
     (case map_of acc (fst r) of
        None \<Rightarrow> acc @ [(fst r, addCounts zeroCounts (snd r))]
      | Some c \<Rightarrow> AList.update (fst r) (addCounts c (snd r)) acc)"

definition shown :: "row \<Rightarrow> bool" where
  "shown r \<longleftrightarrow> 0 < c_visits (snd r) \<or> 0 < c_pageviews (snd r)"

definition aggPart :: "error option \<Rightarrow> string \<Rightarrow> string \<Rightarrow> dayRange option \<Rightarrow> andb \<Rightarrow> row list result" where
  "aggPart fault sid dm agg db =
     (case agg of None \<Rightarrow> Inr [] | Some a \<Rightarrow> DailyRows fault sid dm (r_from a) (r_to a) db)"

definition rawPart ::
  "error option \<Rightarrow> string \<Rightarrow> location \<Rightarrow> string \<Rightarrow> qfilter list \<Rightarrow> (string \<times> nat) option \<Rightarrow> dayRange option \<Rightarrow> andb \<Rightarrow> row list result" where
  "rawPart fault sid loc dm fs best raw db =
     (case raw of
        None \<Rightarrow> Inr []
      | Some r \<Rightarrow>
          (case Bounds loc r of (t0, t1) \<Rightarrow>
             case best of
               Some (metric, limit) \<Rightarrow> RawTopRows fault sid dm t0 t1 fs metric limit db
             | None \<Rightarrow> RawRows fault sid dm t0 t1 fs db))"

definition breakdown ::
  "error option \<Rightarrow> error option \<Rightarrow> string \<Rightarrow> location \<Rightarrow> civilDay \<Rightarrow> dayRange \<Rightarrow> string \<Rightarrow> qfilter list \<Rightarrow> (string \<times> nat) option \<Rightarrow> andb \<Rightarrow> row list result" where
  "breakdown f1 f2 sid loc raw0 r dm fs best db =
     (case splitRange raw0 r of (agg, raw) \<Rightarrow>
        result_bind (aggPart f1 sid dm agg db) (\<lambda>rows1.
        result_bind (rawPart f2 sid loc dm fs (if agg = None \<and> dm \<noteq> [] then best else None) raw db) (\<lambda>rows2.
          Inr (filter shown (fold addRow (rows1 @ rows2) [])))))"

record bucket =
  bu_label :: string
  bu_start :: time
  bu_end :: time
  bu_counts :: counts

text \<open>The loops of \<^verbatim>\<open>buckets\<close>: hours from an instant, and days, weeks or months from a date. \<open>rfc3339\<close> formats an
  instant.\<close>

function hourBuckets :: "(time \<Rightarrow> string) \<Rightarrow> time \<Rightarrow> time \<Rightarrow> bucket list" where
  "hourBuckets rfc3339 t fin =
     (if t < fin
      then \<lparr>bu_label = rfc3339 t, bu_start = t, bu_end = t + hour, bu_counts = zeroCounts\<rparr> # hourBuckets rfc3339 (t + hour) fin
      else [])"
  by pat_completeness auto
termination by (relation "measure (\<lambda>(f, t, fin). nat (fin - t))") auto

definition nextDay :: "string \<Rightarrow> civilDay \<Rightarrow> civilDay" where
  "nextDay interval d =
     (if interval = ''week'' then AddDays (7 - (weekday d + 6) mod 7) d
      else if interval = ''month'' then addDate 0 1 (1 - dayOfMonth d) d
      else AddDays 1 d)"

lemma nextDay_gt: "d < nextDay interval d"
proof -
  have "(weekday d + 6) mod 7 < 7" by simp
  then show ?thesis using nextMonth_gt [of d] unfolding nextDay_def by (simp del: pos_mod_bound)
qed

function dayBuckets :: "location \<Rightarrow> string \<Rightarrow> civilDay \<Rightarrow> civilDay \<Rightarrow> bucket list" where
  "dayBuckets loc interval d final =
     (if final < d then []
      else let next0 = nextDay interval d; next1 = (if final < next0 then AddDays 1 final else next0)
           in \<lparr>bu_label = dayString d, bu_start = Start loc d, bu_end = Start loc next1, bu_counts = zeroCounts\<rparr>
              # dayBuckets loc interval next1 final)"
  by pat_completeness auto
termination
proof (relation "measure (\<lambda>(loc, interval, d, final). nat (final + 1 - d))", goal_cases)
  case (2 loc interval d final)
  then show ?case using nextDay_gt [of d interval] by auto
qed simp

declare hourBuckets.simps [simp del] dayBuckets.simps [simp del]

definition buckets :: "(location \<Rightarrow> time \<Rightarrow> string) \<Rightarrow> dayRange \<Rightarrow> string \<Rightarrow> location \<Rightarrow> bucket list" where
  "buckets rfc3339 r interval loc =
     (case Bounds loc r of (t0, t1) \<Rightarrow>
        if interval = ''hour'' then hourBuckets (rfc3339 loc) t0 t1 else dayBuckets loc interval (r_from r) (r_to r))"

text \<open>\<^verbatim>\<open>sort.Search\<close> gives the first bucket that ends after the instant.\<close>

definition bucketAt :: "bucket list \<Rightarrow> time \<Rightarrow> nat option" where
  "bucketAt bs t =
     (let i = length (takeWhile (\<lambda>b. \<not> t < bu_end b) bs)
      in if i < length bs \<and> \<not> t < bu_start (bs ! i) then Some i else None)"

definition addDayTotal :: "location \<Rightarrow> row \<Rightarrow> bucket list \<Rightarrow> bucket list" where
  "addDayTotal loc r bs =
     (case ParseDay (fst r) of
        Inl _ \<Rightarrow> bs
      | Inr d \<Rightarrow>
          (case bucketAt bs (Start loc d) of
             None \<Rightarrow> bs
           | Some i \<Rightarrow> bs[i := (bs ! i)\<lparr>bu_counts := addCounts (bu_counts (bs ! i)) (snd r)\<rparr>]))"

text \<open>One visit of the time series; \<open>seen\<close> holds the visitors each bucket has counted.\<close>

definition addVisit :: "visitRow \<Rightarrow> bucket list \<times> (nat \<times> string) list \<Rightarrow> bucket list \<times> (nat \<times> string) list" where
  "addVisit v st =
     (case st of (bs, seen) \<Rightarrow>
        case bucketAt bs (ofMilli (vr_started v)) of
          None \<Rightarrow> st
        | Some i \<Rightarrow>
            let new = (i, vr_hash v) \<notin> set seen;
                c = \<lparr>c_visitors = (if new then 1 else 0), c_visits = 1, c_pageviews = vr_pageviews v,
                     c_bounces = (if vr_pageviews v = 1 then 1 else 0), c_duration = vr_last v - vr_started v\<rparr>
            in (bs[i := (bs ! i)\<lparr>bu_counts := addCounts (bu_counts (bs ! i)) c\<rparr>],
                if new then (i, vr_hash v) # seen else seen))"

definition timeline ::
  "(location \<Rightarrow> time \<Rightarrow> string) \<Rightarrow> error option \<Rightarrow> error option \<Rightarrow> string \<Rightarrow> location \<Rightarrow> civilDay \<Rightarrow> dayRange \<Rightarrow> string \<Rightarrow> qfilter list \<Rightarrow> andb \<Rightarrow> row list result" where
  "timeline rfc3339 f1 f2 sid loc raw0 r interval fs db =
     (let bs = buckets rfc3339 r interval loc
      in case splitRange raw0 r of (agg, raw) \<Rightarrow>
           result_bind (case agg of None \<Rightarrow> Inr [] | Some a \<Rightarrow> DailyTotals f1 sid (r_from a) (r_to a) db) (\<lambda>days.
           result_bind (case raw of None \<Rightarrow> Inr [] | Some w \<Rightarrow> (case Bounds loc w of (t0, t1) \<Rightarrow> RawVisits f2 sid t0 t1 fs db)) (\<lambda>vs.
             Inr (map (\<lambda>b. (bu_label b, bu_counts b)) (fst (fold addVisit vs (fold (addDayTotal loc) days bs, [])))))))"


record resultRow =
  rr_value :: string
  rr_metrics :: "(string \<times> rat) list"
  rr_compare :: "(string \<times> rat) list option"
  rr_compareValue :: string

record queryResult =
  qr_dateRange :: "string \<times> string"
  qr_compareRange :: "(string \<times> string) option"
  qr_timezone :: string
  qr_source :: string
  qr_rows :: "resultRow list"

text \<open>What the query service is built with (\<^verbatim>\<open>strconv.Quote\<close>, the format of an instant and the test for an
  exceeded deadline included), and the failures of the statements of one call.\<close>

record qenv =
  qe_tz :: "string \<Rightarrow> location option"
  qe_retention :: duration
  qe_quote :: "string \<Rightarrow> string"
  qe_rfc3339 :: "location \<Rightarrow> time \<Rightarrow> string"
  qe_exceeded :: "error \<Rightarrow> bool"

record qfaults =
  qf_site :: "error option"
  qf_agg :: "error option"
  qf_raw :: "error option"
  qf_cmpAgg :: "error option"
  qf_cmpRaw :: "error option"

definition zoneName :: "(string \<Rightarrow> location option) \<Rightarrow> site \<Rightarrow> string" where
  "zoneName tz s = (if tz (si_timezone s) \<noteq> None \<and> si_timezone s \<noteq> [] then si_timezone s else ''UTC'')"

definition rangeText :: "dayRange \<Rightarrow> string \<times> string" where
  "rangeText r = (dayString (r_from r), dayString (r_to r))"

definition orderRows :: "string \<Rightarrow> row list \<Rightarrow> row list" where
  "orderRows metric rows = sort_key (\<lambda>r. - Metric metric (snd r)) (sort_key fst rows)"

text \<open>The rows of a time series, each with the bucket of the comparison at the same position.\<close>

definition timeRows :: "string list \<Rightarrow> row list \<Rightarrow> row list option \<Rightarrow> resultRow list" where
  "timeRows names cur prev =
     map (\<lambda>(i, r). case prev of
            Some ps \<Rightarrow>
              if i < length ps
              then \<lparr>rr_value = fst r, rr_metrics = metricsOf names (snd r), rr_compare = Some (metricsOf names (snd (ps ! i))), rr_compareValue = fst (ps ! i)\<rparr>
              else \<lparr>rr_value = fst r, rr_metrics = metricsOf names (snd r), rr_compare = None, rr_compareValue = []\<rparr>
          | None \<Rightarrow> \<lparr>rr_value = fst r, rr_metrics = metricsOf names (snd r), rr_compare = None, rr_compareValue = []\<rparr>)
       (enumerate 0 cur)"

text \<open>The rows of a breakdown, ordered and cut; a value that the comparison lacks compares with zero.\<close>

definition breakdownRows :: "query \<Rightarrow> row list \<Rightarrow> row list option \<Rightarrow> resultRow list" where
  "breakdownRows q cur0 prev =
     (let cur = (if q_dimension q = [] \<and> cur0 = [] then [([], zeroCounts)] else cur0)
      in map (\<lambda>r. \<lparr>rr_value = fst r, rr_metrics = metricsOf (q_metrics q) (snd r),
                   rr_compare = map_option (\<lambda>ps. metricsOf (q_metrics q) (case map_of (rev ps) (fst r) of Some c \<Rightarrow> c | None \<Rightarrow> zeroCounts)) prev,
                   rr_compareValue = []\<rparr>)
           (take (nat (q_limit q)) (orderRows (q_orderBy q) cur)))"

definition optRows :: "dayRange option \<Rightarrow> (dayRange \<Rightarrow> row list result) \<Rightarrow> row list option result" where
  "optRows cmp rd = (case cmp of None \<Rightarrow> Inr None | Some c \<Rightarrow> result_bind (rd c) (\<lambda>rows. Inr (Some rows)))"

definition mapError :: "(error \<Rightarrow> error) \<Rightarrow> 'a result \<Rightarrow> 'a result" where
  "mapError g r = (case r of Inl e \<Rightarrow> Inl (g e) | Inr x \<Rightarrow> Inr x)"

definition queryRows :: "qenv \<Rightarrow> qfaults \<Rightarrow> location \<Rightarrow> civilDay \<Rightarrow> string \<Rightarrow> dayRange \<Rightarrow> dayRange option \<Rightarrow> query \<Rightarrow> andb \<Rightarrow> resultRow list result" where
  "queryRows env f loc raw0 sid r cmp q db =
     (let fs = q_filters q; late = deadlineError (qe_exceeded env)
      in case IsTimeDimension (q_dimension q) of
           (interval, True) \<Rightarrow>
             if interval = ''hour'' \<and> (Days r \<noteq> 1 \<or> aggregatesNeeded raw0 r cmp)
             then Inl (Invalid (''hour intervals need a single day inside the last '' @ rawDaysText (qe_retention env) @ '' days''))
             else
               result_bind (mapError late (timeline (qe_rfc3339 env) (qf_agg f) (qf_raw f) sid loc raw0 r interval fs db)) (\<lambda>cur.
               result_bind (mapError late (optRows cmp (\<lambda>c. timeline (qe_rfc3339 env) (qf_cmpAgg f) (qf_cmpRaw f) sid loc raw0 c interval fs db))) (\<lambda>prev.
                 Inr (timeRows (q_metrics q) cur prev)))
         | (_, False) \<Rightarrow>
             result_bind (mapError late (breakdown (qf_agg f) (qf_raw f) sid loc raw0 r (q_dimension q) fs (Some (q_orderBy q, nat (q_limit q))) db)) (\<lambda>cur.
             result_bind (mapError late (optRows cmp (\<lambda>c. breakdown (qf_cmpAgg f) (qf_cmpRaw f) sid loc raw0 c (q_dimension q) fs None db))) (\<lambda>prev.
               Inr (breakdownRows q cur prev))))"

definition Query :: "qenv \<Rightarrow> qfaults \<Rightarrow> time \<Rightarrow> string \<Rightarrow> query \<Rightarrow> andb \<Rightarrow> queryResult result" where
  "Query env f now sid q0 db =
     result_bind (queryValidate (qe_quote env) q0) (\<lambda>q.
     result_bind (SiteExists (qf_site f) sid db) (\<lambda>found.
       case found of
         None \<Rightarrow> Inl (NotFound ''site not found'')
       | Some s \<Rightarrow>
           let loc = Location (qe_tz env) s
           in result_bind (Resolve q (DayOf now loc)) (\<lambda>r.
                let cmp = CompareRange r (q_compare q); raw0 = rawFrom (qe_retention env) now loc
                in if aggregatesNeeded raw0 r cmp \<and> q_filters q \<noteq> []
                   then Inl (Invalid (''filters need a range inside the last '' @ rawDaysText (qe_retention env) @ '' days''))
                   else result_bind (queryRows env f loc raw0 sid r cmp q db) (\<lambda>rows.
                     Inr \<lparr>qr_dateRange = rangeText r, qr_compareRange = map_option rangeText cmp, qr_timezone = zoneName (qe_tz env) s,
                          qr_source = (if aggregatesNeeded raw0 r cmp then ''aggregates'' else ''raw''), qr_rows = rows\<rparr>))))"

definition Realtime :: "error option \<Rightarrow> error option \<Rightarrow> time \<Rightarrow> string \<Rightarrow> andb \<Rightarrow> int result" where
  "Realtime f1 f2 now sid db =
     result_bind (SiteExists f1 sid db) (\<lambda>found.
       case found of None \<Rightarrow> Inl (NotFound ''site not found'') | Some _ \<Rightarrow> RealtimeCount f2 sid (now - realtimeWindow) db)"

subsection \<open>The aggregate job (application/rollup.go)\<close>

text \<open>The loop over the days of a site. \<open>faults\<close> gives the failure of each day's refresh.\<close>

function rollupDays ::
  "(civilDay \<Rightarrow> error option) \<Rightarrow> location \<Rightarrow> string \<Rightarrow> string list \<Rightarrow> civilDay \<Rightarrow> civilDay \<Rightarrow> andb \<Rightarrow> unit result \<times> andb" where
  "rollupDays faults loc sid done today d db =
     (if today < d then (Inr (), db)
      else if dayString d \<in> set done \<and> d < AddDays (- 1) today then rollupDays faults loc sid done today (AddDays 1 d) db
      else (case Bounds loc \<lparr>r_from = d, r_to = d\<rparr> of (t0, t1) \<Rightarrow>
              case RefreshDay (faults d) sid d t0 t1 db of
                (Inl e, db') \<Rightarrow> (Inl e, db')
              | (Inr _, db') \<Rightarrow> rollupDays faults loc sid done today (AddDays 1 d) db'))"
  by pat_completeness auto
termination by (relation "measure (\<lambda>(faults, loc, sid, done, today, d, db). nat (today + 1 - d))") auto

declare rollupDays.simps [simp del]

record rollupFaults =
  rf_first :: "error option"
  rf_days :: "error option"
  rf_refresh :: "civilDay \<Rightarrow> error option"

definition rollupSite :: "qenv \<Rightarrow> rollupFaults \<Rightarrow> time \<Rightarrow> site \<Rightarrow> andb \<Rightarrow> unit result \<times> andb" where
  "rollupSite env f now s db =
     (let loc = Location (qe_tz env) s; today = DayOf now loc
      in case FirstVisit (rf_first f) (si_id s) db of
           Inl e \<Rightarrow> (Inl e, db)
         | Inr None \<Rightarrow> (Inr (), db)
         | Inr (Some first) \<Rightarrow>
             let d0 = DayOf first loc; raw0 = rawFrom (qe_retention env) now loc; d = (if d0 < raw0 then raw0 else d0)
             in (case AggregatedDays (rf_days f) (si_id s) d today db of
                   Inl e \<Rightarrow> (Inl e, db)
                 | Inr done \<Rightarrow> rollupDays (rf_refresh f) loc (si_id s) done today d db))"

fun rollupSites :: "qenv \<Rightarrow> (string \<Rightarrow> rollupFaults) \<Rightarrow> time \<Rightarrow> site list \<Rightarrow> andb \<Rightarrow> unit result \<times> andb" where
  "rollupSites env fs now [] db = (Inr (), db)"
| "rollupSites env fs now (s # ss) db =
     (case rollupSite env (fs (si_id s)) now s db of
        (Inl e, db') \<Rightarrow> (Inl e, db')
      | (Inr _, db') \<Rightarrow> rollupSites env fs now ss db')"

definition AnRollup :: "qenv \<Rightarrow> error option \<Rightarrow> (string \<Rightarrow> rollupFaults) \<Rightarrow> error option \<Rightarrow> time \<Rightarrow> andb \<Rightarrow> unit result \<times> andb" where
  "AnRollup env f1 fs f2 now db =
     (case ListSites f1 db of
        Inl e \<Rightarrow> (Inl e, db)
      | Inr ss \<Rightarrow>
          (case rollupSites env fs now ss db of
             (Inl e, db') \<Rightarrow> (Inl e, db')
           | (Inr _, db') \<Rightarrow>
               (case PurgeDaily f2 (addDate 0 (- int MaxHistoryMonths) 0 (DayOf now utc)) db' of
                  (Inl e, db'') \<Rightarrow> (Inl e, db'')
                | (Inr _, db'') \<Rightarrow> (Inr (), db''))))"


end
