(* ===== verification/Analytics_Reports.thy ===== *)
theory Analytics_Reports
  imports Analytics_Query "HOL-Library.Product_Lexorder"
begin

section \<open>What the analytics reports show\<close>

text \<open>
  The proofs about the analytics model: counts add up over days, so a report that reads aggregates for the old
  days and raw rows for the rest is the report the raw rows alone would give; the buckets of a time series
  tile its range; the rows a database cut keeps are those the answer shows; the histories of the service
  keep the invariant of \<open>Analytics\<close>.
\<close>

subsection \<open>Counts as five numbers\<close>

text \<open>Two counts are equal if each of the five columns is.\<close>

definition columns :: "(counts \<Rightarrow> int) set" where
  "columns = {c_visitors, c_visits, c_pageviews, c_bounces, c_duration}"

definition look :: "row list \<Rightarrow> string \<Rightarrow> counts" where
  "look rows k = (case map_of rows k of Some c \<Rightarrow> c | None \<Rightarrow> zeroCounts)"

lemma counts_eqI: "(\<And>c. c \<in> columns \<Longrightarrow> c x = c y) \<Longrightarrow> x = (y :: counts)"
  by (simp add: columns_def)

lemma columns_add: "c \<in> columns \<Longrightarrow> c (addCounts a b) = c a + c b"
  by (auto simp: columns_def addCounts_def)

lemma columns_zero: "c \<in> columns \<Longrightarrow> c zeroCounts = 0"
  by (auto simp: columns_def zeroCounts_def)

lemma columns_sum: "c \<in> columns \<Longrightarrow> c (sumCounts cs) = sum_list (map c cs)"
proof -
  assume c: "c \<in> columns"
  have "c (fold addCounts cs z) = c z + sum_list (map c cs)" for z
    by (induction cs arbitrary: z) (simp_all add: columns_add [OF c])
  then show ?thesis by (simp add: sumCounts_def columns_zero [OF c])
qed

lemma look_groupBy:
  assumes "agg [] = zeroCounts"
  shows "look (groupBy key agg xs) k = agg (filter (\<lambda>x. key x = k) xs)"
proof (cases "k \<in> key ` set xs")
  case True
  then show ?thesis by (simp add: look_def groupBy_def map_of_map_restrict)
next
  case False
  then have "filter (\<lambda>x. key x = k) xs = []" by (auto simp: filter_empty_conv)
  then show ?thesis using False assms by (simp add: look_def groupBy_def map_of_map_restrict)
qed

lemma dom_groupBy: "map_of (groupBy key agg xs) k = (if k \<in> key ` set xs then Some (agg (filter (\<lambda>x. key x = k) xs)) else None)"
  by (simp add: groupBy_def map_of_map_restrict)

lemma distinct_groupBy: "distinct (map fst (groupBy key agg xs))"
  by (simp add: groupBy_def comp_def)

text \<open>Adding rows to a map.\<close>

lemma keys_addRow: "distinct (map fst acc) \<Longrightarrow> distinct (map fst (addRow r acc))"
  by (auto simp: addRow_def map_of_eq_None_iff image_iff split: option.splits intro: distinct_update)

lemma look_addRow: "c \<in> columns \<Longrightarrow> c (look (addRow r acc) k) = c (look acc k) + (if fst r = k then c (snd r) else 0)"
  by (cases "map_of acc (fst r)") (auto simp: look_def addRow_def columns_add columns_zero table_simps map_add_def split: option.splits)

lemma keys_fold_addRow: "distinct (map fst acc) \<Longrightarrow> distinct (map fst (fold addRow rows acc))"
  by (induction rows arbitrary: acc) (simp_all add: keys_addRow)

lemma look_fold_addRow:
  assumes "c \<in> columns"
  shows "c (look (fold addRow rows acc) k) = c (look acc k) + sum_list (map (\<lambda>r. c (snd r)) (filter (\<lambda>r. fst r = k) rows))"
  by (induction rows arbitrary: acc) (simp_all add: look_addRow [OF assms])

lemma sum_look:
  assumes "c \<in> columns" "distinct (map fst rows)"
  shows "sum_list (map (\<lambda>r. c (snd r)) (filter (\<lambda>r. fst r = k) rows)) = c (look rows k)"
  using assms(2)
proof (induction rows)
  case (Cons r rows)
  then have "fst r = k \<Longrightarrow> filter (\<lambda>r. fst r = k) rows = []" by (auto simp: filter_empty_conv image_iff)
  then show ?case using Cons by (auto simp: look_def split: prod.splits)
qed (simp add: look_def columns_zero [OF assms(1)])

subsection \<open>Counts add up over days\<close>

text \<open>
  A zone whose days are the intervals between their starts, with offsets of whole milliseconds: every zone that
  never changes its offset around midnight.
\<close>

definition zone_ok :: "location \<Rightarrow> bool" where
  "zone_ok loc \<longleftrightarrow> (\<forall>t d. Start loc d \<le> t \<longleftrightarrow> d \<le> DayOf t loc) \<and> (\<forall>t. millisecond dvd loc t)"

lemma zone_ok_fixed:
  assumes "millisecond dvd c"
  shows "zone_ok (\<lambda>_. c)"
proof -
  have "d * day - c \<le> t \<longleftrightarrow> d \<le> (t + c) div day" for t d :: int
    using div_bounds [of day "t + c"] by linarith
  then show ?thesis using assms by (simp add: zone_ok_def Start_def DayOf_def)
qed

definition dayAt :: "location \<Rightarrow> int \<Rightarrow> civilDay" where
  "dayAt loc ms = DayOf (ofMilli ms) loc"

lemma Start_le_iff:
  assumes "zone_ok loc"
  shows "unixMilli (Start loc d) \<le> ms \<longleftrightarrow> d \<le> dayAt loc ms"
proof -
  have "millisecond dvd loc (d * day - loc (d * day))" "millisecond dvd d * day" using assms by (simp_all add: zone_ok_def)
  then have "millisecond dvd Start loc d" unfolding Start_def by (rule dvd_diff [rotated])
  then have "ofMilli (unixMilli (Start loc d)) = Start loc d" by (simp add: time_simps)
  then have "unixMilli (Start loc d) \<le> ms \<longleftrightarrow> Start loc d \<le> ofMilli ms" by (metis ofMilli_le_iff)
  then show ?thesis using assms by (simp add: zone_ok_def dayAt_def)
qed

lemma less_Start_iff: "zone_ok loc \<Longrightarrow> ms < unixMilli (Start loc (d + 1)) \<longleftrightarrow> dayAt loc ms \<le> d"
  using Start_le_iff [of loc "d + 1" ms] by linarith

text \<open>A visitor's hash, and with it a visit and its pageviews, belongs to one day of the site.\<close>

definition oneDay :: "location \<Rightarrow> string \<Rightarrow> andb \<Rightarrow> bool" where
  "oneDay loc sid db \<longleftrightarrow>
     (\<forall>v\<in>set (visits db). \<forall>w\<in>set (visits db). vr_site v = sid \<and> vr_site w = sid \<and> vr_hash v = vr_hash w \<longrightarrow>
        dayAt loc (vr_started v) = dayAt loc (vr_started w)) \<and>
     (\<forall>p\<in>set (pageviews db). \<forall>v\<in>set (visits db). pr_visit p = Some (vr_id v) \<longrightarrow>
        p_site (pr_view p) = vr_site v \<and> p_hash (pr_view p) = vr_hash v \<and> (vr_site v = sid \<longrightarrow> dayAt loc (pr_ts p) = dayAt loc (vr_started v)))"

definition tally :: "string set \<Rightarrow> visitRow set \<Rightarrow> int \<Rightarrow> counts" where
  "tally H V n =
     \<lparr>c_visitors = int (card H), c_visits = int (card V), c_pageviews = n,
      c_bounces = int (card {v \<in> V. vr_pageviews v = 1}), c_duration = (\<Sum>v\<in>V. vr_last v - vr_started v)\<rparr>"

lemma tally_add:
  assumes "finite H" "finite H'" "finite V" "finite V'" "H \<inter> H' = {}" "V \<inter> V' = {}"
  shows "addCounts (tally H V n) (tally H' V' n') = tally (H \<union> H') (V \<union> V') (n + n')"
proof -
  have "{v \<in> V \<union> V'. vr_pageviews v = 1} = {v \<in> V. vr_pageviews v = 1} \<union> {v \<in> V'. vr_pageviews v = 1}" by auto
  moreover have "{v \<in> V. vr_pageviews v = 1} \<inter> {v \<in> V'. vr_pageviews v = 1} = {}" using assms(6) by auto
  ultimately show ?thesis
    using assms by (simp add: tally_def addCounts_def card_Un_disjoint sum.union_disjoint)
qed

lemma visitCounts_tally: "distinct vs \<Longrightarrow> visitCounts vs = tally (vr_hash ` set vs) (set vs) (\<Sum>v\<in>set vs. vr_pageviews v)"
  by (simp add: visitCounts_def tally_def distinct_card sum_list_distinct_conv_sum_set distinct_length_filter Collect_conj_eq Int_commute)

definition pvHash :: "pvRow \<times> visitRow \<Rightarrow> string" where
  "pvHash x = p_hash (pr_view (fst x))"

lemma pageCounts_tally: "pageCounts pvs = tally (pvHash ` set pvs) (snd ` set pvs) (int (length pvs))"
proof -
  have "length (filter P (remdups xs)) = card {x \<in> set xs. P x}" for P and xs :: "visitRow list"
    using distinct_length_filter [of "remdups xs" P] by (simp add: Collect_conj_eq Int_commute)
  then show ?thesis
    by (simp add: pageCounts_def tally_def Let_def pvHash_def case_prod_beta' length_remdups_card_conv sum_list_distinct_conv_sum_set)
qed

lemma visitCounts_partition:
  assumes "distinct vs" "\<And>v w. v \<in> set vs \<Longrightarrow> w \<in> set vs \<Longrightarrow> P v \<Longrightarrow> \<not> P w \<Longrightarrow> vr_hash v \<noteq> vr_hash w"
  shows "addCounts (visitCounts (filter P vs)) (visitCounts (filter (\<lambda>v. \<not> P v) vs)) = visitCounts vs"
proof -
  define A B where "A = set (filter P vs)" and "B = set (filter (\<lambda>v. \<not> P v) vs)"
  have s: "set vs = A \<union> B" "A \<inter> B = {}" "finite A" "finite B" by (auto simp: A_def B_def)
  have "vr_hash ` A \<inter> vr_hash ` B = {}" using assms(2) by (fastforce simp: A_def B_def)
  then show ?thesis
    using assms(1) s(2-4) unfolding visitCounts_tally [OF assms(1)] s(1)
    by (simp add: visitCounts_tally tally_add image_Un sum.union_disjoint flip: A_def B_def del: set_filter)
qed

lemma pageCounts_partition:
  assumes "\<And>x y. x \<in> set pvs \<Longrightarrow> y \<in> set pvs \<Longrightarrow> P x \<Longrightarrow> \<not> P y \<Longrightarrow> pvHash x \<noteq> pvHash y \<and> snd x \<noteq> snd y"
  shows "addCounts (pageCounts (filter P pvs)) (pageCounts (filter (\<lambda>x. \<not> P x) pvs)) = pageCounts pvs"
proof -
  define A B where "A = set (filter P pvs)" and "B = set (filter (\<lambda>x. \<not> P x) pvs)"
  have s: "set pvs = A \<union> B" "finite A" "finite B" by (auto simp: A_def B_def)
  have d: "pvHash ` A \<inter> pvHash ` B = {}" "snd ` A \<inter> snd ` B = {}" using assms by (fastforce simp: A_def B_def)+
  have "int (length pvs) = int (length (filter P pvs)) + int (length (filter (\<lambda>x. \<not> P x) pvs))"
    using sum_length_filter_compl [of P pvs] by simp
  then show ?thesis
    using d s(2,3) unfolding pageCounts_tally [of pvs] s(1)
    by (simp add: pageCounts_tally tally_add image_Un flip: A_def B_def del: set_filter)
qed

text \<open>The breakdown of a range of days from the raw tables.\<close>

definition dayRaw :: "location \<Rightarrow> string \<Rightarrow> string \<Rightarrow> civilDay \<Rightarrow> civilDay \<Rightarrow> andb \<Rightarrow> row list" where
  "dayRaw loc sid dm a b db = rawRows sid dm (Start loc a) (Start loc (b + 1)) [] db"

lemma visitsIn_days:
  "zone_ok loc \<Longrightarrow> visitsIn sid (Start loc a) (Start loc (b + 1)) [] db =
     filter (\<lambda>v. vr_site v = sid \<and> a \<le> dayAt loc (vr_started v) \<and> dayAt loc (vr_started v) \<le> b) (visits db)"
  by (simp add: visitsIn_def filterVisit_def Start_le_iff less_Start_iff)

lemma pagesIn_days:
  "zone_ok loc \<Longrightarrow> pagesIn sid (Start loc a) (Start loc (b + 1)) [] db =
     filter (\<lambda>x. p_site (pr_view (fst x)) = sid \<and> a \<le> dayAt loc (pr_ts (fst x)) \<and> dayAt loc (pr_ts (fst x)) \<le> b) (joined db)"
  by (simp add: pagesIn_def filterPage_def Start_le_iff less_Start_iff case_prod_beta')

lemma set_joined: "set (joined db) = {(p, v). p \<in> set (pageviews db) \<and> v \<in> set (visits db) \<and> pr_visit p = Some (vr_id v)}"
  by (auto simp: joined_def)

lemma agg_Nil: "visitCounts [] = zeroCounts" "pageCounts [] = zeroCounts"
  by (simp_all add: visitCounts_def pageCounts_def zeroCounts_def)

definition visitKey :: "string \<Rightarrow> visitRow \<Rightarrow> string" where
  "visitKey dm = (if dm = [] then (\<lambda>_. []) else column dm)"

definition pathKey :: "pvRow \<times> visitRow \<Rightarrow> string" where
  "pathKey = (\<lambda>x. p_path (pr_view (fst x)))"

lemma rawRows_eq:
  "rawRows sid dm t0 t1 fs db =
     (if dm = ''page'' then groupBy pathKey pageCounts (pagesIn sid t0 t1 fs db) else groupBy (visitKey dm) visitCounts (visitsIn sid t0 t1 fs db))"
  by (simp add: rawRows_def visitKey_def pathKey_def case_prod_beta')

lemma oneDay_row:
  assumes "oneDay loc sid db" "(p, v) \<in> set (joined db)" "p_site (pr_view p) = sid"
  shows "v \<in> set (visits db) \<and> vr_site v = sid \<and> p_hash (pr_view p) = vr_hash v \<and> dayAt loc (pr_ts p) = dayAt loc (vr_started v)"
  using assms unfolding oneDay_def set_joined mem_Collect_eq case_prod_conv by metis

lemma oneDay_hash:
  assumes "oneDay loc sid db" "v \<in> set (visits db)" "w \<in> set (visits db)" "vr_site v = sid" "vr_site w = sid" "vr_hash v = vr_hash w"
  shows "dayAt loc (vr_started v) = dayAt loc (vr_started w)"
  using assms unfolding oneDay_def by blast

lemma dayRaw_split:
  assumes z: "zone_ok loc" and one: "oneDay loc sid db" and dist: "distinct (map vr_id (visits db))"
    and ab: "a \<le> m + 1" "m \<le> b"
  shows "look (dayRaw loc sid dm a b db) k = addCounts (look (dayRaw loc sid dm a m db) k) (look (dayRaw loc sid dm (m + 1) b db) k)"
proof (cases "dm = ''page''")
  case True
  let ?D = "\<lambda>x. dayAt loc (pr_ts (fst x))"
  define xs where "xs = filter (\<lambda>x. pathKey x = k) (filter (\<lambda>x. p_site (pr_view (fst x)) = sid \<and> a \<le> ?D x \<and> ?D x \<le> b) (joined db))"
  have parts: "filter (\<lambda>x. pathKey x = k) (filter (\<lambda>x. p_site (pr_view (fst x)) = sid \<and> a \<le> ?D x \<and> ?D x \<le> m) (joined db)) = filter (\<lambda>x. ?D x \<le> m) xs"
    "filter (\<lambda>x. pathKey x = k) (filter (\<lambda>x. p_site (pr_view (fst x)) = sid \<and> m + 1 \<le> ?D x \<and> ?D x \<le> b) (joined db)) = filter (\<lambda>x. \<not> ?D x \<le> m) xs"
    using ab by (auto simp: xs_def intro!: filter_cong)
  have "addCounts (pageCounts (filter (\<lambda>x. ?D x \<le> m) xs)) (pageCounts (filter (\<lambda>x. \<not> ?D x \<le> m) xs)) = pageCounts xs"
  proof (rule pageCounts_partition)
    fix x y assume x: "x \<in> set xs" and y: "y \<in> set xs" and l: "?D x \<le> m" "\<not> ?D y \<le> m"
    obtain p v q w where [simp]: "x = (p, v)" "y = (q, w)" by (cases x; cases y)
    note X = oneDay_row [OF one, of p v] and Y = oneDay_row [OF one, of q w]
    have "v \<in> set (visits db) \<and> vr_site v = sid \<and> pvHash x = vr_hash v \<and> dayAt loc (vr_started v) \<le> m"
      "w \<in> set (visits db) \<and> vr_site w = sid \<and> pvHash y = vr_hash w \<and> \<not> dayAt loc (vr_started w) \<le> m"
      using x y l X Y by (simp_all add: xs_def pvHash_def)
    then show "pvHash x \<noteq> pvHash y \<and> snd x \<noteq> snd y" using oneDay_hash [OF one, of v w] by auto
  qed
  then show ?thesis
    using True by (simp add: dayRaw_def rawRows_eq pagesIn_days [OF z] look_groupBy agg_Nil parts del: filter_filter flip: xs_def)
next
  case False
  let ?D = "\<lambda>v. dayAt loc (vr_started v)"
  define vs where "vs = filter (\<lambda>v. visitKey dm v = k) (filter (\<lambda>v. vr_site v = sid \<and> a \<le> ?D v \<and> ?D v \<le> b) (visits db))"
  have parts: "filter (\<lambda>v. visitKey dm v = k) (filter (\<lambda>v. vr_site v = sid \<and> a \<le> ?D v \<and> ?D v \<le> m) (visits db)) = filter (\<lambda>v. ?D v \<le> m) vs"
    "filter (\<lambda>v. visitKey dm v = k) (filter (\<lambda>v. vr_site v = sid \<and> m + 1 \<le> ?D v \<and> ?D v \<le> b) (visits db)) = filter (\<lambda>v. \<not> ?D v \<le> m) vs"
    using ab by (auto simp: vs_def intro!: filter_cong)
  have "addCounts (visitCounts (filter (\<lambda>v. ?D v \<le> m) vs)) (visitCounts (filter (\<lambda>v. \<not> ?D v \<le> m) vs)) = visitCounts vs"
  proof (rule visitCounts_partition)
    show "distinct vs" using dist by (simp add: vs_def distinct_map)
    show "vr_hash v \<noteq> vr_hash w" if "v \<in> set vs" "w \<in> set vs" "?D v \<le> m" "\<not> ?D w \<le> m" for v w
      using that oneDay_hash [OF one, of v w] by (auto simp: vs_def)
  qed
  then show ?thesis
    using False by (simp add: dayRaw_def rawRows_eq visitsIn_days [OF z] look_groupBy agg_Nil parts del: filter_filter flip: vs_def)
qed

lemma dayRaw_empty: "zone_ok loc \<Longrightarrow> b < a \<Longrightarrow> look (dayRaw loc sid dm a b db) k = zeroCounts"
  by (simp add: dayRaw_def rawRows_eq visitsIn_days pagesIn_days look_groupBy agg_Nil filter_False [of _ "\<lambda>_. False"])

lemma dayRaw_sum:
  assumes "zone_ok loc" "oneDay loc sid db" "distinct (map vr_id (visits db))" "c \<in> columns" "a - 1 \<le> b"
  shows "c (look (dayRaw loc sid dm a b db) k) = (\<Sum>d\<in>{a..b}. c (look (dayRaw loc sid dm d d db) k))"
  using assms(5)
proof (induction b rule: int_ge_induct)
  case base
  then show ?case using assms by (simp add: dayRaw_empty columns_zero)
next
  case (step b)
  have "{a..b + 1} = insert (b + 1) {a..b}" using step by auto
  then show ?case
    using step dayRaw_split [OF assms(1-3), of a b "b + 1" dm k] by (simp add: columns_add [OF assms(4)])
qed


subsection \<open>Aggregates and raw rows give the same report\<close>

text \<open>The aggregates of a day are those the raw rows of \<open>full\<close> give.\<close>

definition exactDay :: "location \<Rightarrow> string \<Rightarrow> andb \<Rightarrow> andb \<Rightarrow> civilDay \<Rightarrow> bool" where
  "exactDay loc sid full db d \<longleftrightarrow>
     filter (\<lambda>x. da_site x = sid \<and> da_day x = dayString d) (dailies db) = dayRows sid d (Start loc d) (Start loc (d + 1)) full"

text \<open>The days of the aggregates are written by \<open>dayString\<close>.\<close>

definition daysText :: "andb \<Rightarrow> bool" where
  "daysText db \<longleftrightarrow> (\<forall>x\<in>set (dailies db). \<exists>d. textYear d \<and> da_day x = dayString d)"

lemma sum_filter_days:
  fixes g :: "'a \<Rightarrow> int"
  assumes "finite D" "inj_on s D"
  shows "sum_list (map g (filter (\<lambda>x. (\<exists>d\<in>D. h x = s d) \<and> P x) xs)) = (\<Sum>d\<in>D. sum_list (map g (filter (\<lambda>x. h x = s d \<and> P x) xs)))"
proof (induction xs)
  case (Cons x xs)
  show ?case
  proof (cases "(\<exists>d\<in>D. h x = s d) \<and> P x")
    case True
    then obtain d where d: "d \<in> D" "h x = s d" by blast
    have "(\<Sum>e\<in>D. sum_list (map g (filter (\<lambda>x. h x = s e \<and> P x) (x # xs)))) =
        (\<Sum>e\<in>D. (if e = d then g x else 0) + sum_list (map g (filter (\<lambda>x. h x = s e \<and> P x) xs)))"
      using True d assms(2) by (intro sum.cong) (auto dest: inj_onD)
    then show ?thesis using Cons True d assms(1) by (simp add: sum.distrib)
  next
    case False
    then have "(\<Sum>d\<in>D. sum_list (map g (filter (\<lambda>x. h x = s d \<and> P x) (x # xs)))) =
        (\<Sum>d\<in>D. sum_list (map g (filter (\<lambda>x. h x = s d \<and> P x) xs)))"
      by (intro sum.cong) auto
    then show ?thesis using Cons False by auto
  qed
qed simp

lemma dailiesIn_days:
  assumes "daysText db" "textYear a" "textYear b"
  shows "dailiesIn sid dm a b db = filter (\<lambda>x. (\<exists>d\<in>{a..b}. da_day x = dayString d) \<and> da_site x = sid \<and> da_dimension x = dm) (dailies db)"
  unfolding dailiesIn_def
proof (rule filter_cong [OF refl])
  fix x assume "x \<in> set (dailies db)"
  then obtain d where d: "textYear d" "da_day x = dayString d" using assms(1) by (auto simp: daysText_def)
  have "(\<exists>e\<in>{a..b}. dayString d = dayString e) \<longleftrightarrow> d \<in> {a..b}"
    using d assms(2,3) textYear_between [of a b] by (auto simp: dayString_inj)
  then show "(da_site x = sid \<and> da_dimension x = dm \<and> dayString a \<le> da_day x \<and> da_day x \<le> dayString b) =
      ((\<exists>d\<in>{a..b}. da_day x = dayString d) \<and> da_site x = sid \<and> da_dimension x = dm)"
    using d assms(2,3) by (auto simp: dayString_le_iff)
qed

text \<open>One day's rows of one dimension: those of the raw breakdown, with a zero total for a day without visits.\<close>

lemma dayRows_dimension:
  assumes "dm \<in> set Dimensions"
  shows "\<exists>extra. filter (\<lambda>x. da_dimension x = dm) (dayRows sid d t0 t1 db) =
      map (\<lambda>(value, c). \<lparr>da_site = sid, da_day = dayString d, da_dimension = dm, da_value = value, da_counts = c\<rparr>)
        (extra @ rawRows sid dm t0 t1 [] db) \<and> set extra \<subseteq> {([], zeroCounts)}"
proof -
  define part where "part = (\<lambda>dm. let rows = rawRows sid dm t0 t1 [] db; rows' = (if dm = [] \<and> rows = [] then [([], zeroCounts)] else rows)
    in map (\<lambda>(value, c). \<lparr>da_site = sid, da_day = dayString d, da_dimension = dm, da_value = value, da_counts = c\<rparr>) rows')"
  have own: "filter (\<lambda>x. da_dimension x = dm) (part e) = (if e = dm then part e else [])" for e
    by (auto simp: part_def Let_def filter_empty_conv filter_id_conv)
  have "filter (\<lambda>x. da_dimension x = dm) (concat (map part ds)) = concat (map (\<lambda>e. if e = dm then part e else []) ds)" for ds
    by (induction ds) (simp_all add: own)
  moreover have "distinct ds \<Longrightarrow> dm \<in> set ds \<Longrightarrow> concat (map (\<lambda>e. if e = dm then part e else []) ds) = part dm" for ds
  proof (induction ds)
    case (Cons e ds)
    then show ?case by (cases "e = dm") (auto simp: concat_eq_Nil_conv)
  qed simp
  moreover have "distinct Dimensions" by (simp add: Dimensions_def)
  ultimately have "filter (\<lambda>x. da_dimension x = dm) (dayRows sid d t0 t1 db) = part dm"
    using assms by (simp add: dayRows_def part_def)
  then show ?thesis
    by (intro exI [of _ "if dm = [] \<and> rawRows sid dm t0 t1 [] db = [] then [([], zeroCounts)] else []"]) (auto simp: part_def Let_def)
qed

lemma exactDay_sum:
  assumes c: "c \<in> columns" and ex: "exactDay loc sid full db d" and dm: "dm \<in> set Dimensions"
  shows "sum_list (map (\<lambda>x. c (da_counts x)) (filter (\<lambda>x. da_day x = dayString d \<and> da_site x = sid \<and> da_dimension x = dm \<and> da_value x = k) (dailies db)))
    = c (look (dayRaw loc sid dm d d full) k)"
proof -
  obtain extra where e: "filter (\<lambda>x. da_dimension x = dm) (dayRows sid d (Start loc d) (Start loc (d + 1)) full) =
      map (\<lambda>(value, c). \<lparr>da_site = sid, da_day = dayString d, da_dimension = dm, da_value = value, da_counts = c\<rparr>)
        (extra @ dayRaw loc sid dm d d full)" "set extra \<subseteq> {([], zeroCounts)}"
    using dayRows_dimension [OF dm] unfolding dayRaw_def by blast
  have "filter (\<lambda>x. da_day x = dayString d \<and> da_site x = sid \<and> da_dimension x = dm \<and> da_value x = k) (dailies db) =
      filter (\<lambda>x. da_value x = k) (filter (\<lambda>x. da_dimension x = dm) (filter (\<lambda>x. da_site x = sid \<and> da_day x = dayString d) (dailies db)))"
    by (auto intro: filter_cong)
  also have "\<dots> = filter (\<lambda>x. da_value x = k) (map (\<lambda>(value, c). \<lparr>da_site = sid, da_day = dayString d, da_dimension = dm, da_value = value, da_counts = c\<rparr>)
        (extra @ dayRaw loc sid dm d d full))"
    using ex e(1) by (simp add: exactDay_def)
  also have "sum_list (map (\<lambda>x. c (da_counts x)) \<dots>) =
      sum_list (map (\<lambda>r. c (snd r)) (filter (\<lambda>r. fst r = k) extra)) + sum_list (map (\<lambda>r. c (snd r)) (filter (\<lambda>r. fst r = k) (dayRaw loc sid dm d d full)))"
    by (simp add: filter_map comp_def case_prod_beta')
  also have "sum_list (map (\<lambda>r. c (snd r)) (filter (\<lambda>r. fst r = k) extra)) = 0"
    using e(2) by (induction extra) (auto simp: columns_zero [OF c])
  also have "sum_list (map (\<lambda>r. c (snd r)) (filter (\<lambda>r. fst r = k) (dayRaw loc sid dm d d full))) = c (look (dayRaw loc sid dm d d full) k)"
    by (rule sum_look [OF c]) (simp add: dayRaw_def rawRows_eq distinct_groupBy)
  finally show ?thesis by simp
qed

lemma DailyRows_exact:
  assumes z: "zone_ok loc" "oneDay loc sid full" "distinct (map vr_id (visits full))"
    and t: "daysText db" "textYear a" "textYear b" and dm: "dm \<in> set Dimensions" and ab: "a - 1 \<le> b"
    and ex: "\<And>d. d \<in> {a..b} \<Longrightarrow> exactDay loc sid full db d"
    and rows: "DailyRows None sid dm a b db = Inr rows"
  shows "distinct (map fst rows)" "look rows k = look (dayRaw loc sid dm a b full) k"
proof -
  have r: "rows = groupBy da_value (\<lambda>ds. sumCounts (map da_counts ds)) (dailiesIn sid dm a b db)"
    using rows by (simp add: DailyRows_def)
  then show "distinct (map fst rows)" by (simp add: distinct_groupBy)
  show "look rows k = look (dayRaw loc sid dm a b full) k"
  proof (rule counts_eqI)
    fix c assume c: "c \<in> columns"
    have inj: "inj_on dayString {a..b}" using t(2,3) textYear_between [of a b] by (auto simp: inj_on_def dayString_inj)
    have "c (look rows k) = sum_list (map (\<lambda>x. c (da_counts x)) (filter (\<lambda>x. da_value x = k) (dailiesIn sid dm a b db)))"
      unfolding r by (subst look_groupBy) (simp_all add: sumCounts_def columns_sum [OF c, unfolded sumCounts_def] comp_def)
    also have "\<dots> = sum_list (map (\<lambda>x. c (da_counts x)) (filter (\<lambda>x. (\<exists>d\<in>{a..b}. da_day x = dayString d) \<and> da_site x = sid \<and> da_dimension x = dm \<and> da_value x = k) (dailies db)))"
      by (simp add: dailiesIn_days [OF t] conj_assoc)
    also have "\<dots> = (\<Sum>d\<in>{a..b}. c (look (dayRaw loc sid dm d d full) k))"
      unfolding sum_filter_days [OF finite_atLeastAtMost_int inj] by (intro sum.cong refl exactDay_sum [OF c _ dm] ex)
    also have "\<dots> = c (look (dayRaw loc sid dm a b full) k)" by (rule dayRaw_sum [OF z c ab, symmetric])
    finally show "c (look rows k) = c (look (dayRaw loc sid dm a b full) k)" .
  qed
qed


lemma map_of_shown:
  assumes "distinct (map fst rows)"
  shows "map_of (filter shown rows) k = (if shown (k, look rows k) then Some (look rows k) else None)"
proof (cases "map_of rows k")
  case None
  then show ?thesis using map_of_filter_Some [OF assms, of shown k] by (simp add: look_def shown_def zeroCounts_def)
next
  case (Some c)
  then show ?thesis using map_of_filter_Some [OF assms, of shown k] by (simp add: look_def)
qed

lemma rawRows_shown: "filter shown (rawRows sid dm t0 t1 fs db) = rawRows sid dm t0 t1 fs db"
proof -
  have "shown (k, visitCounts (filter (\<lambda>x. key x = k) xs))" if "k \<in> key ` set xs" for k key xs
    using that by (auto simp: shown_def visitCounts_def filter_empty_conv)
  moreover have "shown (k, pageCounts (filter (\<lambda>x. key x = k) xs))" if "k \<in> key ` set xs" for k key xs
    using that by (auto simp: shown_def pageCounts_def Let_def filter_empty_conv)
  ultimately show ?thesis
    unfolding rawRows_eq groupBy_def filter_id_conv by auto
qed

lemma breakdown_look:
  assumes z: "zone_ok loc" "oneDay loc sid full" "distinct (map vr_id (visits full))"
    and t: "daysText db" "textYear (r_from r)" "textYear (r_to r)" and dm: "dm \<in> set Dimensions" and le: "r_from r \<le> r_to r"
    and ex: "\<And>d. r_from r \<le> d \<Longrightarrow> d \<le> r_to r \<Longrightarrow> d < raw0 \<Longrightarrow> exactDay loc sid full db d"
    and raw: "\<And>a. r_from r \<le> a \<Longrightarrow> raw0 \<le> a \<Longrightarrow> dayRaw loc sid dm a (r_to r) db = dayRaw loc sid dm a (r_to r) full"
    and b: "breakdown None None sid loc raw0 r dm [] None db = Inr rows"
  shows "\<exists>tot. rows = filter shown tot \<and> distinct (map fst tot) \<and> (\<forall>k. look tot k = look (dayRaw loc sid dm (r_from r) (r_to r) full) k)"
proof -
  obtain agg rw where s: "splitRange raw0 r = (agg, rw)" by fastforce
  obtain rows1 rows2 where p: "aggPart None sid dm agg db = Inr rows1" "rawPart None sid loc dm [] None rw db = Inr rows2"
    and rows: "rows = filter shown (fold addRow (rows1 @ rows2) [])"
    using b s by (auto simp: breakdown_def result_bind_eq_Inr)
  have dr: "distinct (map fst (dayRaw loc sid dm a e d))" for a e d by (simp add: dayRaw_def rawRows_eq distinct_groupBy)
  have two: "distinct (map fst rows1) \<and> distinct (map fst rows2) \<and>
      addCounts (look rows1 k) (look rows2 k) = look (dayRaw loc sid dm (r_from r) (r_to r) full) k" for k
  proof -
    consider "raw0 \<le> r_from r" | "r_from r < raw0" "r_to r < raw0" | "r_from r < raw0" "raw0 \<le> r_to r" by linarith
    then show ?thesis
    proof cases
      case 1
      then have "rows1 = []" "rows2 = dayRaw loc sid dm (r_from r) (r_to r) db"
        using s p by (auto simp: splitRange_def aggPart_def rawPart_def Bounds_def RawRows_def dayRaw_def)
      then show ?thesis using raw [of "r_from r"] 1 dr by (simp add: look_def addCounts_def zeroCounts_def)
    next
      case 2
      then have "rows2 = []" "DailyRows None sid dm (r_from r) (r_to r) db = Inr rows1"
        using s p by (auto simp: splitRange_def aggPart_def rawPart_def)
      then show ?thesis
        using DailyRows_exact [OF z t dm _ _ \<open>DailyRows _ _ _ _ _ _ = _\<close>] 2 le ex by (simp add: look_def addCounts_def zeroCounts_def)
    next
      case 3
      then have d: "rows2 = dayRaw loc sid dm raw0 (r_to r) db" "DailyRows None sid dm (r_from r) (raw0 - 1) db = Inr rows1"
        using s p by (auto simp: splitRange_def aggPart_def rawPart_def Bounds_def RawRows_def dayRaw_def)
      have "textYear (raw0 - 1)" using 3 by (intro textYear_between [OF t(2,3)]) auto
      then have "distinct (map fst rows1)" "look rows1 k = look (dayRaw loc sid dm (r_from r) (raw0 - 1) full) k"
        using DailyRows_exact [OF z t(1,2) _ dm _ _ d(2)] 3 ex by simp_all
      then show ?thesis
        using dayRaw_split [OF z, of "r_from r" "raw0 - 1" "r_to r" dm k] raw [of raw0] d(1) 3 dr by simp
    qed
  qed
  have "look (fold addRow (rows1 @ rows2) []) k = look (dayRaw loc sid dm (r_from r) (r_to r) full) k" for k
  proof (rule counts_eqI)
    fix c assume c: "c \<in> columns"
    have "c (look (fold addRow (rows1 @ rows2) []) k) = c (look rows1 k) + c (look rows2 k)"
      using two by (subst look_fold_addRow [OF c]) (simp add: sum_look [OF c] look_def columns_zero [OF c])
    then show "c (look (fold addRow (rows1 @ rows2) []) k) = c (look (dayRaw loc sid dm (r_from r) (r_to r) full) k)"
      using two [of k] by (simp flip: columns_add [OF c])
  qed
  then show ?thesis using rows by (intro exI [of _ "fold addRow (rows1 @ rows2) []"]) (simp add: keys_fold_addRow)
qed

lemma breakdown_exact:
  assumes z: "zone_ok loc" "oneDay loc sid full" "distinct (map vr_id (visits full))"
    and t: "daysText db" "textYear (r_from r)" "textYear (r_to r)" and dm: "dm \<in> set Dimensions" and le: "r_from r \<le> r_to r"
    and ex: "\<And>d. r_from r \<le> d \<Longrightarrow> d \<le> r_to r \<Longrightarrow> d < raw0 \<Longrightarrow> exactDay loc sid full db d"
    and raw: "\<And>a. r_from r \<le> a \<Longrightarrow> raw0 \<le> a \<Longrightarrow> dayRaw loc sid dm a (r_to r) db = dayRaw loc sid dm a (r_to r) full"
    and b: "breakdown None None sid loc raw0 r dm [] None db = Inr rows"
  shows "map_of rows = map_of (dayRaw loc sid dm (r_from r) (r_to r) full)"
proof
  fix k
  let ?F = "dayRaw loc sid dm (r_from r) (r_to r) full"
  obtain tot where "rows = filter shown tot" "distinct (map fst tot)" "look tot k = look ?F k"
    using breakdown_look [OF z t dm le ex raw b] by blast
  moreover have "distinct (map fst ?F)" "filter shown ?F = ?F" by (simp_all add: dayRaw_def rawRows_eq distinct_groupBy rawRows_shown [unfolded rawRows_eq])
  ultimately show "map_of rows k = map_of ?F k" using map_of_shown [of tot k] map_of_shown [of ?F k] by simp
qed


subsection \<open>Time series add up\<close>

lemma less_Start: "zone_ok loc \<Longrightarrow> t < Start loc d \<longleftrightarrow> DayOf t loc < d"
  unfolding zone_ok_def by (metis not_le)

lemma bucketAt_Cons:
  "bucketAt (b # bs) t = (if t < bu_end b then (if t < bu_start b then None else Some 0) else map_option Suc (bucketAt bs t))"
  by (simp add: bucketAt_def Let_def)

lemma dayBuckets_unfold:
  "dayBuckets loc interval d fin =
     (if fin < d then []
      else \<lparr>bu_label = dayString d, bu_start = Start loc d, bu_end = Start loc (if fin < nextDay interval d then fin + 1 else nextDay interval d), bu_counts = zeroCounts\<rparr>
           # dayBuckets loc interval (if fin < nextDay interval d then fin + 1 else nextDay interval d) fin)"
  by (subst dayBuckets.simps) (simp add: Let_def)

text \<open>The buckets of a range: consecutive, from the start of the first day to the end of the last.\<close>

lemma dayBuckets_tile:
  assumes "d \<le> fin"
  shows "dayBuckets loc interval d fin \<noteq> [] \<and> bu_start (hd (dayBuckets loc interval d fin)) = Start loc d \<and>
    bu_end (last (dayBuckets loc interval d fin)) = Start loc (fin + 1) \<and>
    successively (\<lambda>a b. bu_end a = bu_start b) (dayBuckets loc interval d fin)"
  using assms
proof (induction "nat (fin - d)" arbitrary: d rule: less_induct)
  case less
  define e where "e = (if fin < nextDay interval d then fin + 1 else nextDay interval d)"
  have e: "d < e" "e \<le> fin + 1" using nextDay_gt [of d interval] less.prems by (auto simp: e_def)
  have u: "dayBuckets loc interval d fin =
      \<lparr>bu_label = dayString d, bu_start = Start loc d, bu_end = Start loc e, bu_counts = zeroCounts\<rparr> # dayBuckets loc interval e fin"
    using less.prems by (subst dayBuckets_unfold) (simp add: e_def)
  show ?case
  proof (cases "e \<le> fin")
    case True
    then have "nat (fin - e) < nat (fin - d)" using e by simp
    then show ?thesis using less.hyps [of e] True unfolding u by (cases "dayBuckets loc interval e fin") auto
  next
    case False
    then have "e = fin + 1" "dayBuckets loc interval e fin = []" using e by (simp, subst dayBuckets_unfold, simp)
    then show ?thesis unfolding u by simp
  qed
qed

lemma dayBuckets_days:
  "b \<in> set (dayBuckets loc interval d fin) \<Longrightarrow> \<exists>x y. bu_start b = Start loc x \<and> bu_end b = Start loc y \<and> bu_counts b = zeroCounts"
proof (induction loc interval d fin rule: dayBuckets.induct)
  case (1 loc interval d fin)
  then show ?case by (subst (asm) dayBuckets_unfold) (auto simp: Let_def split: if_splits)
qed

lemma bucketAt_dayBuckets:
  assumes "zone_ok loc" "d \<le> DayOf t loc" "DayOf t loc \<le> fin"
  shows "\<exists>i. bucketAt (dayBuckets loc interval d fin) t = Some i"
  using assms(2,3)
proof (induction "nat (fin - d)" arbitrary: d rule: less_induct)
  case less
  define e where "e = (if fin < nextDay interval d then fin + 1 else nextDay interval d)"
  have e: "d < e" using nextDay_gt [of d interval] less.prems by (auto simp: e_def)
  have u: "dayBuckets loc interval d fin =
      \<lparr>bu_label = dayString d, bu_start = Start loc d, bu_end = Start loc e, bu_counts = zeroCounts\<rparr> # dayBuckets loc interval e fin"
    using less.prems by (subst dayBuckets_unfold) (simp add: e_def)
  show ?case
  proof (cases "DayOf t loc < e")
    case True
    then show ?thesis using less.prems unfolding u by (simp add: bucketAt_Cons less_Start [OF assms(1)])
  next
    case False
    then have "nat (fin - e) < nat (fin - d)" using e less.prems by simp
    then obtain i where "bucketAt (dayBuckets loc interval e fin) t = Some i" using less.hyps [of e] False less.prems by auto
    then show ?thesis using False unfolding u by (simp add: bucketAt_Cons less_Start [OF assms(1)])
  qed
qed

lemma bucketAt_same_day:
  assumes z: "zone_ok loc" and "\<And>b. b \<in> set bs \<Longrightarrow> \<exists>x y. bu_start b = Start loc x \<and> bu_end b = Start loc y" and "DayOf t loc = DayOf u loc"
  shows "bucketAt bs t = bucketAt bs u"
  using assms(2)
proof (induction bs)
  case (Cons b bs)
  obtain x y where "bu_start b = Start loc x" "bu_end b = Start loc y" using Cons.prems [of b] by auto
  then show ?case using Cons assms(3) by (simp add: bucketAt_Cons less_Start [OF z])
qed (simp add: bucketAt_def)

lemma bucketAt_update: "bucketAt (bs[i := (bs ! i)\<lparr>bu_counts := c\<rparr>]) t = bucketAt bs t"
proof (induction bs arbitrary: i)
  case (Cons b bs)
  then show ?case by (cases i) (simp_all add: bucketAt_Cons)
qed (simp add: bucketAt_def)

lemma bucketAt_bound: "bucketAt bs t = Some i \<Longrightarrow> i < length bs"
  by (auto simp: bucketAt_def Let_def split: if_splits)

definition totals :: "(counts \<Rightarrow> int) \<Rightarrow> bucket list \<Rightarrow> int" where
  "totals c bs = sum_list (map (\<lambda>b. c (bu_counts b)) bs)"

lemma totals_update:
  "c \<in> columns \<Longrightarrow> i < length bs \<Longrightarrow> totals c (bs[i := (bs ! i)\<lparr>bu_counts := addCounts (bu_counts (bs ! i)) x\<rparr>]) = totals c bs + c x"
proof (induction bs arbitrary: i)
  case (Cons b bs)
  then show ?case by (cases i) (simp_all add: totals_def columns_add)
qed simp


lemma addVisit_effect:
  assumes "bucketAt bs (ofMilli (vr_started v)) = Some i" "distinct seen" "addVisit v (bs, seen) = (bs', seen')"
  shows "distinct seen'" "set seen' = insert (i, vr_hash v) (set seen)" "bucketAt bs' t = bucketAt bs t"
    "map bu_label bs' = map bu_label bs"
    "totals c_visitors bs' = totals c_visitors bs + int (length seen') - int (length seen)"
    "totals c_visits bs' = totals c_visits bs + 1" "totals c_pageviews bs' = totals c_pageviews bs + vr_pageviews v"
    "totals c_bounces bs' = totals c_bounces bs + (if vr_pageviews v = 1 then 1 else 0)"
    "totals c_duration bs' = totals c_duration bs + (vr_last v - vr_started v)"
proof -
  define c where "c = \<lparr>c_visitors = (if (i, vr_hash v) \<notin> set seen then 1 else 0), c_visits = 1, c_pageviews = vr_pageviews v,
    c_bounces = (if vr_pageviews v = 1 then 1 else 0), c_duration = vr_last v - vr_started v\<rparr>"
  have b: "bs' = bs[i := (bs ! i)\<lparr>bu_counts := addCounts (bu_counts (bs ! i)) c\<rparr>]" and sn: "seen' = (if (i, vr_hash v) \<notin> set seen then (i, vr_hash v) # seen else seen)"
    using assms(1,3) by (simp_all add: addVisit_def Let_def c_def)
  have i: "i < length bs" using assms(1) by (rule bucketAt_bound)
  have tot: "totals k bs' = totals k bs + k c" if "k \<in> columns" for k unfolding b using that i by (rule totals_update)
  show "distinct seen'" "set seen' = insert (i, vr_hash v) (set seen)" using assms(2) by (auto simp: sn)
  show "bucketAt bs' t = bucketAt bs t" by (simp add: b bucketAt_update)
  show "map bu_label bs' = map bu_label bs" using i by (simp add: b map_update list_update_same_conv [THEN iffD2])
  show "totals c_visitors bs' = totals c_visitors bs + int (length seen') - int (length seen)"
    "totals c_visits bs' = totals c_visits bs + 1" "totals c_pageviews bs' = totals c_pageviews bs + vr_pageviews v"
    "totals c_bounces bs' = totals c_bounces bs + (if vr_pageviews v = 1 then 1 else 0)"
    "totals c_duration bs' = totals c_duration bs + (vr_last v - vr_started v)"
    by (simp_all add: tot columns_def) (simp_all add: c_def sn)
qed

lemma fold_addVisit:
  assumes "\<And>v. v \<in> set vs \<Longrightarrow> bucketAt bs (ofMilli (vr_started v)) = Some (place v)" "distinct seen" "fold addVisit vs (bs, seen) = (bs', seen')"
  shows "distinct seen' \<and> set seen' = set seen \<union> (\<lambda>v. (place v, vr_hash v)) ` set vs \<and> map bu_label bs' = map bu_label bs \<and>
    totals c_visitors bs' = totals c_visitors bs + int (length seen') - int (length seen) \<and>
    totals c_visits bs' = totals c_visits bs + int (length vs) \<and> totals c_pageviews bs' = totals c_pageviews bs + sum_list (map vr_pageviews vs) \<and>
    totals c_bounces bs' = totals c_bounces bs + int (length (filter (\<lambda>v. vr_pageviews v = 1) vs)) \<and>
    totals c_duration bs' = totals c_duration bs + sum_list (map (\<lambda>v. vr_last v - vr_started v) vs)"
  using assms
proof (induction vs arbitrary: bs seen)
  case (Cons v vs)
  obtain bs1 seen1 where a: "addVisit v (bs, seen) = (bs1, seen1)" by fastforce
  have b: "bucketAt bs (ofMilli (vr_started v)) = Some (place v)" using Cons.prems(1) by simp
  note E = addVisit_effect [OF b Cons.prems(2) a]
  have "fold addVisit vs (bs1, seen1) = (bs', seen')" using Cons.prems(3) a by simp
  then show ?case using Cons.IH [OF _ E(1), of bs1] Cons.prems(1) by (simp add: E)
qed simp

lemma timeline_sums:
  assumes "zone_ok loc" "oneDay loc sid db" "r_from r \<le> r_to r" "raw0 \<le> r_from r" "interval \<noteq> ''hour''" "c \<in> columns"
    and "length (visitsIn sid (fst (Bounds loc r)) (snd (Bounds loc r)) fs db) \<le> 500000"
  shows "\<exists>rows. timeline rfc3339 f1 None sid loc raw0 r interval fs db = Inr rows \<and>
    map fst rows = map bu_label (buckets rfc3339 r interval loc) \<and>
    sum_list (map (\<lambda>x. c (snd x)) rows) = c (look (rawRows sid [] (fst (Bounds loc r)) (snd (Bounds loc r)) fs db) [])"
proof -
  define vs where "vs = visitsIn sid (Start loc (r_from r)) (Start loc (r_to r + 1)) fs db"
  define bs where "bs = dayBuckets loc interval (r_from r) (r_to r)"
  have B: "Bounds loc r = (Start loc (r_from r), Start loc (r_to r + 1))" by (simp add: Bounds_def)
  have bk: "buckets rfc3339 r interval loc = bs" using assms(5) by (simp add: buckets_def B bs_def)
  obtain bs' seen' where f: "fold addVisit vs (bs, []) = (bs', seen')" by fastforce
  have len: "length vs \<le> 500000" using assms(7) by (simp add: B vs_def)
  then have "RawVisits None sid (Start loc (r_from r)) (Start loc (r_to r + 1)) fs db = Inr vs"
    by (simp add: RawVisits_def Let_def maxTimelineVisits_def vs_def)
  then have tl: "timeline rfc3339 f1 None sid loc raw0 r interval fs db = Inr (map (\<lambda>b. (bu_label b, bu_counts b)) bs')"
    using assms(4) f by (simp add: timeline_def bk splitRange_def B)
  have mem: "v \<in> set (visits db) \<and> vr_site v = sid \<and> r_from r \<le> dayAt loc (vr_started v) \<and> dayAt loc (vr_started v) \<le> r_to r" if "v \<in> set vs" for v
    using that by (auto simp: vs_def visitsIn_def Start_le_iff [OF assms(1)] less_Start_iff [OF assms(1)])
  define place where "place = (\<lambda>v :: visitRow. the (bucketAt bs (ofMilli (vr_started v))))"
  have pl: "bucketAt bs (ofMilli (vr_started v)) = Some (place v)" if "v \<in> set vs" for v
    using bucketAt_dayBuckets [OF assms(1), of "r_from r" "ofMilli (vr_started v)"] mem [OF that] by (fastforce simp: place_def bs_def dayAt_def)
  note F = fold_addVisit [OF pl _ f, simplified]
  have same: "place v = place w" if "v \<in> set vs" "w \<in> set vs" "vr_hash v = vr_hash w" for v w
  proof -
    have "dayAt loc (vr_started v) = dayAt loc (vr_started w)" using oneDay_hash [OF assms(2)] mem [OF that(1)] mem [OF that(2)] that(3) by blast
    then have "bucketAt bs (ofMilli (vr_started v)) = bucketAt bs (ofMilli (vr_started w))"
      using dayBuckets_days by (intro bucketAt_same_day [OF assms(1)]) (auto simp: bs_def dayAt_def)
    then show ?thesis by (simp add: place_def)
  qed
  have "inj_on snd ((\<lambda>v. (place v, vr_hash v)) ` set vs)"
  proof (rule inj_onI)
    fix x y assume "x \<in> (\<lambda>v. (place v, vr_hash v)) ` set vs" "y \<in> (\<lambda>v. (place v, vr_hash v)) ` set vs" "snd x = snd y"
    then obtain v w where "v \<in> set vs" "w \<in> set vs" "x = (place v, vr_hash v)" "y = (place w, vr_hash w)" "vr_hash v = vr_hash w" by auto
    then show "x = y" using same [of v w] by simp
  qed
  then have "card (vr_hash ` set vs) = card ((\<lambda>v. (place v, vr_hash v)) ` set vs)" using card_image by (fastforce simp: image_image)
  then have "length seen' = card (vr_hash ` set vs)" using F distinct_card [of seen'] by simp
  moreover have "totals k bs = 0" if "k \<in> columns" for k
    using dayBuckets_days [of _ loc interval "r_from r" "r_to r"] columns_zero [OF that] unfolding totals_def bs_def
    by (intro sum_list_0 [THEN trans [rotated]] arg_cong [where f = sum_list]) (auto intro!: map_cong)
  ultimately have "totals c bs' = c (visitCounts vs)"
    using F assms(6) by (auto simp: columns_def visitCounts_def)
  moreover have "look (rawRows sid [] (Start loc (r_from r)) (Start loc (r_to r + 1)) fs db) [] = visitCounts vs"
    by (simp add: rawRows_eq visitKey_def look_groupBy agg_Nil vs_def)
  ultimately show ?thesis using tl F bk by (simp add: B totals_def comp_def)
qed


subsection \<open>The database may cut what the answer cuts\<close>

lemma sorted_wrt_filter_nth:
  "sorted_wrt R (filter Q ys) \<Longrightarrow> i < j \<Longrightarrow> j < length ys \<Longrightarrow> Q (ys ! i) \<Longrightarrow> Q (ys ! j) \<Longrightarrow> R (ys ! i) (ys ! j)"
proof (induction ys arbitrary: i j)
  case (Cons y ys)
  obtain j' where j: "j = Suc j'" using Cons.prems(2) by (cases j) auto
  have tl: "sorted_wrt R (filter Q ys)" using Cons.prems(1) by (simp split: if_splits)
  show ?case
  proof (cases i)
    case 0
    then have "ys ! j' \<in> set (filter Q ys)" using Cons.prems(3,5) j by simp
    then show ?thesis using Cons.prems(1,4) 0 j by simp
  next
    case (Suc i')
    then show ?thesis using Cons.IH [OF tl, of i' j'] Cons.prems j by simp
  qed
qed simp

text \<open>Two stable sorts are one sort by the pair of the keys.\<close>

lemma sort_key_pair:
  fixes g :: "'a \<Rightarrow> 'b :: linorder" and h :: "'a \<Rightarrow> 'c :: linorder"
  shows "sort_key g (sort_key h xs) = sort_key (\<lambda>x. (g x, h x)) xs"
proof (rule properties_for_sort_key [symmetric])
  define ys where "ys = sort_key g (sort_key h xs)"
  have st: "filter (\<lambda>x. g x = k) ys = filter (\<lambda>x. g x = k) (sort_key h xs)" for k by (simp add: ys_def sort_key_stable)
  show "mset (sort_key g (sort_key h xs)) = mset xs" by simp
  show "filter (\<lambda>x. (g k, h k) = (g x, h x)) (sort_key g (sort_key h xs)) = filter (\<lambda>x. (g k, h k) = (g x, h x)) xs" for k
  proof -
    have "filter (\<lambda>x. (g k, h k) = (g x, h x)) ys = filter (\<lambda>x. h x = h k) (filter (\<lambda>x. g x = g k) ys)" by (auto intro: filter_cong)
    also have "\<dots> = filter (\<lambda>x. g x = g k) (filter (\<lambda>x. h x = h k) (sort_key h xs))" unfolding st by (auto intro: filter_cong)
    also have "\<dots> = filter (\<lambda>x. (g k, h k) = (g x, h x)) xs" by (auto simp: sort_key_stable intro: filter_cong)
    finally show ?thesis by (simp add: ys_def)
  qed
  have "(g (ys ! i), h (ys ! i)) \<le> (g (ys ! j), h (ys ! j))" if "i < j" "j < length ys" for i j
  proof (cases "g (ys ! i) = g (ys ! j)")
    case True
    have "sorted_wrt (\<lambda>x y. h x \<le> h y) (filter (\<lambda>x. g x = g (ys ! i)) ys)"
      unfolding st using sorted_sort_key [of h xs] by (intro sorted_wrt_filter) (simp add: sorted_map)
    then show ?thesis using sorted_wrt_filter_nth [OF _ that] True by fastforce
  next
    case False
    have "sorted (map g ys)" by (simp add: ys_def)
    then have "g (ys ! i) \<le> g (ys ! j)" using that by (auto simp: sorted_iff_nth_mono_less)
    then show ?thesis using False by (simp add: less_le)
  qed
  then show "sorted (map (\<lambda>x. (g x, h x)) (sort_key g (sort_key h xs)))"
    unfolding ys_def [symmetric] by (auto simp: sorted_iff_nth_mono_less)
qed

lemma orderRows_pair: "orderRows m rows = sort_key (\<lambda>r. (- Metric m (snd r), fst r)) rows"
  by (simp add: orderRows_def sort_key_pair)

lemma orderRows_take: "orderRows m (take n (orderRows m rows)) = take n (orderRows m rows)"
  unfolding orderRows_pair by (rule sort_key_id_if_sorted) (simp add: sorted_wrt_take flip: take_map)

lemma topColumns_metric:
  assumes "map_of topColumns m = Some col"
  shows "Metric m c = of_int (col c)"
  using assms by (auto simp: topColumns_def Metric_def split: if_splits)

lemma sort_key_top:
  assumes "map_of topColumns m = Some col"
  shows "sort_key (\<lambda>(value, c). - col c) (sort_key fst rows) = orderRows m rows"
proof -
  have "sort_key (\<lambda>r. - Metric m (snd r)) zs = sort_key (\<lambda>(value, c). - col c) zs" for zs :: "row list"
  proof (rule properties_for_sort_key)
    show "filter (\<lambda>x. - Metric m (snd k) = - Metric m (snd x)) (sort_key (\<lambda>(value, c). - col c) zs) =
        filter (\<lambda>x. - Metric m (snd k) = - Metric m (snd x)) zs" for k
      using sort_key_stable [of "\<lambda>(value, c). - col c" "- col (snd k)" zs] by (simp add: topColumns_metric [OF assms] case_prod_beta' eq_commute [of "col (snd k)"])
    show "sorted (map (\<lambda>r. - Metric m (snd r)) (sort_key (\<lambda>(value, c). - col c) zs))"
      using sorted_sort_key [of "\<lambda>(value, c). - col c" zs] by (simp add: sorted_map topColumns_metric [OF assms] case_prod_beta')
  qed simp
  then show ?thesis by (simp add: orderRows_def)
qed

lemma fold_addRow_id:
  "distinct (map fst (acc @ rows)) \<Longrightarrow> fold addRow rows acc = acc @ rows"
proof (induction rows arbitrary: acc)
  case (Cons r rows)
  then have "map_of acc (fst r) = None" by (auto simp: map_of_eq_None_iff)
  then have "addRow r acc = acc @ [r]" by (cases r) (simp add: addRow_def addCounts_def zeroCounts_def)
  then show ?case using Cons.IH [of "acc @ [r]"] Cons.prems by simp
qed simp

lemma breakdown_raw:
  assumes "raw0 \<le> r_from r" "dm \<noteq> []"
  shows "breakdown f1 None sid loc raw0 r dm fs None db = Inr (rawRows sid dm (fst (Bounds loc r)) (snd (Bounds loc r)) fs db)"
    "map_of topColumns m = Some col \<Longrightarrow> breakdown f1 None sid loc raw0 r dm fs (Some (m, n)) db =
       Inr (take n (orderRows m (rawRows sid dm (fst (Bounds loc r)) (snd (Bounds loc r)) fs db)))"
    "map_of topColumns m = None \<Longrightarrow> breakdown f1 None sid loc raw0 r dm fs (Some (m, n)) db =
       Inr (rawRows sid dm (fst (Bounds loc r)) (snd (Bounds loc r)) fs db)"
proof -
  define rows where "rows = rawRows sid dm (fst (Bounds loc r)) (snd (Bounds loc r)) fs db"
  have d: "distinct (map fst rows)" by (simp add: rows_def rawRows_eq distinct_groupBy)
  then have all: "filter shown (fold addRow rows []) = rows" by (simp add: fold_addRow_id rows_def rawRows_shown)
  have sh: "\<forall>x\<in>set rows. shown x" using rawRows_shown [of sid dm] unfolding rows_def by (metis filter_id_conv)
  have "mset (orderRows m rows) = mset rows" by (simp add: orderRows_def)
  then have "distinct (map fst (orderRows m rows))" "set (orderRows m rows) = set rows" using d by (metis mset_map mset_eq_imp_distinct_iff, metis mset_eq_setD)
  then have cut: "filter shown (fold addRow (take n (orderRows m rows)) []) = take n (orderRows m rows)"
    using sh by (simp add: fold_addRow_id filter_id_conv distinct_take flip: take_map) (auto dest: in_set_takeD)
  show "breakdown f1 None sid loc raw0 r dm fs None db = Inr rows"
    using assms all by (simp add: breakdown_def splitRange_def aggPart_def rawPart_def RawRows_def rows_def case_prod_unfold)
  show "breakdown f1 None sid loc raw0 r dm fs (Some (m, n)) db = Inr (take n (orderRows m rows))" if "map_of topColumns m = Some col"
    using assms cut that sort_key_top [OF that, of rows]
    by (simp add: breakdown_def splitRange_def aggPart_def rawPart_def RawTopRows_def rows_def case_prod_unfold)
  show "breakdown f1 None sid loc raw0 r dm fs (Some (m, n)) db = Inr rows" if "map_of topColumns m = None"
    using assms all that by (simp add: breakdown_def splitRange_def aggPart_def rawPart_def RawTopRows_def RawRows_def rows_def case_prod_unfold)
qed

end
