(* ===== verification/Analytics_History.thy ===== *)
theory Analytics_History
  imports Analytics_Reports
begin

section \<open>Histories of the analytics service\<close>

text \<open>
  The beacons, site changes, purges, aggregate runs and restarts of a server as a reachability relation, and
  what every history keeps: the caches agree with the tables, visits partition the pageviews, a stored
  pageview comes from its own site and carries nothing of the query string, and every hash belongs to one
  site day.
\<close>

subsection \<open>The caches\<close>

definition svc_ok :: "andb \<Rightarrow> ansvc \<Rightarrow> bool" where
  "svc_ok db s \<longleftrightarrow> (\<forall>ss. cachedSites s = Some ss \<longrightarrow> ListSites None db = Inr ss) \<and> (cachedSalt s \<noteq> [] \<longrightarrow> saltBase db = Some (cachedSalt s))"

lemma svc_ok_new: "svc_ok db NewService"
  by (simp add: svc_ok_def NewService_def)

lemma svc_ok_count: "svc_ok db (CountCollect out s) = svc_ok db s"
  by (simp add: svc_ok_def CountCollect_def)

lemma svc_ok_reset: "svc_ok db s \<Longrightarrow> saltBase db' = saltBase db \<Longrightarrow> svc_ok db' (resetSites s)"
  by (simp add: svc_ok_def resetSites_def)

lemma svc_ok_cong: "svc_ok db s \<Longrightarrow> sites db' = sites db \<Longrightarrow> saltBase db' = saltBase db \<Longrightarrow> svc_ok db' s"
  by (simp add: svc_ok_def ListSites_def)

lemma ListSites_set: "ListSites None db = Inr ss \<Longrightarrow> set ss = set (sites db)"
  by (auto simp: ListSites_def)

lemma SitesSvc_ok:
  assumes "svc_ok db s" "SitesSvc fault now db s = (r, s')"
  shows "svc_ok db s' \<and> cachedSalt s' = cachedSalt s \<and> outcomes s' = outcomes s \<and> (\<forall>ss. r = Inr ss \<longrightarrow> ListSites None db = Inr ss)"
  using assms
  by (cases fault) (auto simp: SitesSvc_def svc_ok_def ListSites_def split: option.splits if_splits)

lemma siteSvc_ok:
  assumes "svc_ok db s" "siteSvc fault now sid db s = (r, s')"
  shows "svc_ok db s'" "\<And>x. r = Inr (Some x) \<Longrightarrow> x \<in> set (sites db) \<and> si_id x = sid" "r = Inr None \<Longrightarrow> sid \<notin> si_id ` set (sites db)"
proof -
  obtain r0 s0 where p: "SitesSvc fault now db s = (r0, s0)" by fastforce
  note S = SitesSvc_ok [OF assms(1) p]
  show "svc_ok db s'" using S assms(2) p by (auto simp: siteSvc_def split: sum.splits)
  have f: "find (\<lambda>y. si_id y = sid) ss = x \<and> set ss = set (sites db)" if "r = Inr x" "r0 = Inr ss" for x ss
    using that S assms(2) p ListSites_set [of db ss] by (auto simp: siteSvc_def)
  have r0: "\<exists>ss. r0 = Inr ss" if "r = Inr x" for x
    using that assms(2) p by (auto simp: siteSvc_def split: sum.splits)
  show "x \<in> set (sites db) \<and> si_id x = sid" if "r = Inr (Some x)" for x
    using f [OF that] r0 [OF that] find_SomeD by fastforce
  show "sid \<notin> si_id ` set (sites db)" if "r = Inr None"
    using f [OF that] r0 [OF that] by (auto simp: find_None_iff)
qed

lemma DailySaltBase_ok:
  assumes "DailySaltBase fault rnd db = (r, db')"
  shows "db' = db\<lparr>saltBase := saltBase db'\<rparr>" "saltBase db \<noteq> None \<Longrightarrow> saltBase db' = saltBase db" "r = Inr base \<Longrightarrow> saltBase db' = Some base"
  using assms by (auto simp: DailySaltBase_def split: option.splits)

lemma dailySaltBase_ok:
  assumes "svc_ok db s" "dailySaltBase fault rnd (db, s) = (r, db', s')"
  shows "db' = db\<lparr>saltBase := saltBase db'\<rparr>" "saltBase db \<noteq> None \<Longrightarrow> saltBase db' = saltBase db" "r = Inr base \<Longrightarrow> saltBase db' = Some base"
    "cachedSites s' = cachedSites s" "cachedSalt s' \<noteq> [] \<Longrightarrow> saltBase db' = Some (cachedSalt s')"
proof -
  obtain r0 db0 where p: "DailySaltBase fault rnd db = (r0, db0)" by fastforce
  note D = DailySaltBase_ok [OF p]
  have "(cachedSalt s \<noteq> [] \<and> r = Inr (cachedSalt s) \<and> db' = db \<and> s' = s) \<or>
    (cachedSalt s = [] \<and> db' = db0 \<and> ((\<exists>e. r = Inl e \<and> s' = s) \<or> (\<exists>b. r = Inr b \<and> r0 = Inr b \<and> s' = s\<lparr>cachedSalt := b\<rparr>)))"
    using assms(2) p by (cases r0) (auto simp: dailySaltBase_def split: if_splits)
  then show "db' = db\<lparr>saltBase := saltBase db'\<rparr>" "saltBase db \<noteq> None \<Longrightarrow> saltBase db' = saltBase db" "r = Inr base \<Longrightarrow> saltBase db' = Some base"
    "cachedSites s' = cachedSites s" "cachedSalt s' \<noteq> [] \<Longrightarrow> saltBase db' = Some (cachedSalt s')"
    using D assms(1) by (auto simp: svc_ok_def)
qed

lemma visitorHash_ok:
  assumes "svc_ok db s" "visitorHash env fault rnd site ip ua now (db, s) = (r, db', s')"
  shows "db' = db\<lparr>saltBase := saltBase db'\<rparr>" "saltBase db \<noteq> None \<Longrightarrow> saltBase db' = saltBase db" "svc_ok db' s'"
    "r = Inr h \<Longrightarrow> \<exists>base. saltBase db' = Some base \<and> h = visitorId env base site ip ua now"
proof -
  obtain r0 where p: "dailySaltBase fault rnd (db, s) = (r0, db', s')" and r: "r = map_sum id (\<lambda>base. visitorId env base site ip ua now) r0"
    using assms(2) by (auto simp: visitorHash_def split: sum.splits prod.splits)
  note D = dailySaltBase_ok [OF assms(1) p]
  show "db' = db\<lparr>saltBase := saltBase db'\<rparr>" "saltBase db \<noteq> None \<Longrightarrow> saltBase db' = saltBase db" by (rule D)+
  have "sites db' = sites db" by (subst D(1)) simp
  then show "svc_ok db' s'" using assms(1) D(4,5) by (simp add: svc_ok_def ListSites_def)
  show "\<exists>base. saltBase db' = Some base \<and> h = visitorId env base site ip ua now" if "r = Inr h"
    using that r D(3) by (cases r0) auto
qed

subsection \<open>A beacon, on every branch\<close>

text \<open>What a stored beacon went through: the site it names, the salt and the row it adds.\<close>

definition storedFrom ::
  "anenv \<Rightarrow> time \<Rightarrow> beacon \<Rightarrow> string \<Rightarrow> string \<Rightarrow> string \<Rightarrow> string option \<Rightarrow> andb \<Rightarrow> andb \<Rightarrow> site \<Rightarrow> string \<Rightarrow> pageview \<Rightarrow> visit \<Rightarrow> bool" where
  "storedFrom env now b0 ip ua origin rnd db db' site base p v \<longleftrightarrow>
     snd (beaconNormalize (ae_uni env) b0) \<and> \<not> isBotUA (ae_uni env) ua \<and>
     site \<in> set (sites db) \<and> si_id site = b_site (fst (beaconNormalize (ae_uni env) b0)) \<and>
     OriginMatchesSite (ae_uni env) origin (si_domain site) \<and>
     saltBase db' = Some base \<and> (saltBase db \<noteq> None \<longrightarrow> saltBase db = Some base) \<and>
     derived env (fst (beaconNormalize (ae_uni env) b0)) site (visitorId env base site ip ua now) ip ua origin now = (p, v) \<and>
     RecordPageview None rnd p v (db\<lparr>saltBase := Some base\<rparr>) = (Inr (), db')"

lemma RecordPageview_frame:
  assumes "RecordPageview fault rnd p v db = (r, db')"
  shows "sites db' = sites db" "saltBase db' = saltBase db" "dailies db' = dailies db" "r = Inl e \<Longrightarrow> db' = db" "r = Inr u \<Longrightarrow> fault = None"
  using assms by (auto simp: RecordPageview_def Let_def split: option.splits if_splits)

lemma collect_ok:
  assumes ok: "svc_ok db s" and c: "collect env f now b0 ip ua origin (db, s) = ((stored, outcome, err), db', s')"
  shows "svc_ok db' s'" "stored \<longleftrightarrow> outcome = ''stored''" "outcome \<in> set collectOutcomes"
    "stored \<Longrightarrow> \<exists>site base p v. storedFrom env now b0 ip ua origin (f_visitRnd f) db db' site base p v"
    "\<not> stored \<Longrightarrow> db' = db\<lparr>saltBase := saltBase db'\<rparr> \<and> (saltBase db \<noteq> None \<longrightarrow> saltBase db' = saltBase db)"
proof -
  let ?uni = "ae_uni env"
  obtain b good where n: "beaconNormalize ?uni b0 = (b, good)" by fastforce
  obtain r s1 where sv: "siteSvc (f_list f) now (b_site b) db s = (r, s1)" by fastforce
  note S = siteSvc_ok [OF ok sv]
  have all: "svc_ok db' s' \<and> (stored \<longleftrightarrow> outcome = ''stored'') \<and> outcome \<in> set collectOutcomes \<and>
    (stored \<longrightarrow> (\<exists>site base p v. storedFrom env now b0 ip ua origin (f_visitRnd f) db db' site base p v)) \<and>
    (\<not> stored \<longrightarrow> db' = db\<lparr>saltBase := saltBase db'\<rparr> \<and> (saltBase db \<noteq> None \<longrightarrow> saltBase db' = saltBase db))"
  proof (cases "good \<and> \<not> isBotUA ?uni ua \<and> (\<exists>site. r = Inr (Some site) \<and> OriginMatchesSite ?uni origin (si_domain site))")
    case False
    then show ?thesis
      using c n sv ok S(1) by (auto simp: collect_def collectOutcomes_def split: if_splits sum.splits option.splits)
  next
    case True
    then obtain site where r: "r = Inr (Some site)" and o: "OriginMatchesSite ?uni origin (si_domain site)" by blast
    obtain h db2 s2 where v: "visitorHash env (f_salt f) (f_saltRnd f) site ip ua now (db, s1) = (h, db2, s2)" by (metis prod_cases3)
    note V = visitorHash_ok [OF S(1) v]
    show ?thesis
    proof (cases h)
      case (Inl e)
      then show ?thesis using c n sv v r o True V by (auto simp: collect_def collectOutcomes_def)
    next
      case (Inr hash)
      then obtain base where base: "saltBase db2 = Some base" "hash = visitorId env base site ip ua now" using V(4) by blast
      obtain p w where d: "derived env b site hash ip ua origin now = (p, w)" by fastforce
      obtain res db3 where rec: "RecordPageview (f_record f) (f_visitRnd f) p w db2 = (res, db3)" by fastforce
      note F = RecordPageview_frame [OF rec]
      have eq: "db' = db3" "s' = s2" "stored \<longleftrightarrow> isl res = False" "outcome = (if isl res then ''error'' else ''stored'')"
        using c n sv v r o True Inr d rec by (auto simp: collect_def split: sum.splits)
      have "svc_ok db3 s2" using V(3) F(1,2) by (rule svc_ok_cong)
      moreover have "storedFrom env now b0 ip ua origin (f_visitRnd f) db db3 site base p w" if "\<not> isl res"
        unfolding storedFrom_def
      proof (intro conjI)
        show "saltBase db \<noteq> None \<longrightarrow> saltBase db = Some base" using V(2) base by simp
        have "db2 = db\<lparr>saltBase := Some base\<rparr>" using V(1) base by simp
        then show "RecordPageview None (f_visitRnd f) p w (db\<lparr>saltBase := Some base\<rparr>) = (Inr (), db3)"
          using that rec F(5) by (cases res) auto
      qed (use n True r S(2) o base d F(2) in auto)
      moreover have "db3 = db2" if "isl res" using that F(4) by (cases res) auto
      moreover have "''error'' \<in> set collectOutcomes" "''stored'' \<in> set collectOutcomes" by (simp_all add: collectOutcomes_def)
      ultimately show ?thesis unfolding eq using V(1,2) by (cases "isl res"; auto; metis)
    qed
  qed
  then show "svc_ok db' s'" "stored \<longleftrightarrow> outcome = ''stored''" "outcome \<in> set collectOutcomes"
    "stored \<Longrightarrow> \<exists>site base p v. storedFrom env now b0 ip ua origin (f_visitRnd f) db db' site base p v"
    "\<not> stored \<Longrightarrow> db' = db\<lparr>saltBase := saltBase db'\<rparr> \<and> (saltBase db \<noteq> None \<longrightarrow> saltBase db' = saltBase db)" by blast+
qed


subsection \<open>Histories\<close>

text \<open>The two inputs of SHA-256 for one visitor and day, and what is expected of the function: digests of 64
  hexadecimal characters, and no collision of their first halves among the inputs \<open>X\<close> of the history.\<close>

definition dayInput :: "anenv \<Rightarrow> string \<Rightarrow> site \<Rightarrow> time \<Rightarrow> string" where
  "dayInput env base s now = base @ ''|'' @ dayString (DayOf now (Location (ae_tz env) s))"

definition visitorInput :: "anenv \<Rightarrow> string \<Rightarrow> site \<Rightarrow> string \<Rightarrow> string \<Rightarrow> time \<Rightarrow> string" where
  "visitorInput env base s ip ua now = ae_sha env (dayInput env base s now) @ ''|'' @ si_id s @ ''|'' @ ip @ ''|'' @ ua"

definition hashInputs :: "anenv \<Rightarrow> string \<Rightarrow> site \<Rightarrow> string \<Rightarrow> string \<Rightarrow> time \<Rightarrow> string set" where
  "hashInputs env base s ip ua now = {dayInput env base s now, visitorInput env base s ip ua now}"

definition sha_ok :: "anenv \<Rightarrow> string set \<Rightarrow> bool" where
  "sha_ok env X \<longleftrightarrow> (\<forall>x. length (ae_sha env x) = 64) \<and> inj_on (\<lambda>x. take 32 (ae_sha env x)) X"

lemma visitorId_eq: "visitorId env base s ip ua now = take 32 (ae_sha env (visitorInput env base s ip ua now))"
  by (simp add: visitorId_def visitorInput_def dayInput_def Let_def)

text \<open>The clock shows a year that is written with four digits, in every zone, also when cut to milliseconds.\<close>

definition clockOk :: "anenv \<Rightarrow> time \<Rightarrow> bool" where
  "clockOk env now \<longleftrightarrow>
     (\<forall>s. textYear (DayOf now (Location (ae_tz env) s)) \<and> textYear (dayAt (Location (ae_tz env) s) (unixMilli now)))"

definition emptyTables :: andb where
  "emptyTables = \<lparr>sites = [], pageviews = [], visits = [], dailies = [], nextPageview = 1, saltBase = None\<rparr>"

text \<open>\<open>anReach env q X t old db s\<close>: a history whose last clock reading is \<open>t\<close>, whose purges had limits of at
  most \<open>old\<close> and whose hashes had inputs in \<open>X\<close> leads from empty tables to \<open>db\<close> and the service state \<open>s\<close>.\<close>

inductive anReach :: "anenv \<Rightarrow> qenv \<Rightarrow> string set \<Rightarrow> time \<Rightarrow> int \<Rightarrow> andb \<Rightarrow> ansvc \<Rightarrow> bool" for env q X where
  start: "anReach env q X t old emptyTables NewService"
| collect: "anReach env q X t old db s \<Longrightarrow> t \<le> now \<Longrightarrow> clockOk env now \<Longrightarrow>
    Collect env f now b ip ua origin (db, s) = (r, db', s') \<Longrightarrow>
    \<forall>site\<in>set (sites db). \<forall>base. saltBase db' = Some base \<longrightarrow> hashInputs env base site ip ua now \<subseteq> X \<Longrightarrow>
    anReach env q X now old db' s'"
| create: "anReach env q X t old db s \<Longrightarrow> t \<le> now \<Longrightarrow> CreateSiteSvc env fault rnd now n (db, s) = (rs, db', s') \<Longrightarrow> anReach env q X now old db' s'"
| delete: "anReach env q X t old db s \<Longrightarrow> DeleteSiteSvc fault sid (db, s) = (ru, db', s') \<Longrightarrow> anReach env q X t old db' s'"
| purge: "anReach env q X t old db s \<Longrightarrow> t \<le> now \<Longrightarrow> PurgeSvc env faults now db = (err, db') \<Longrightarrow>
    anReach env q X now (max old (unixMilli (now - ae_retention env))) db' s"
| rollup: "anReach env q X t old db s \<Longrightarrow> t \<le> now \<Longrightarrow> clockOk env now \<Longrightarrow> AnRollup q f1 fs f2 now db = (r', db') \<Longrightarrow>
    anReach env q X now old db' s"
| restart: "anReach env q X t old db s \<Longrightarrow> anReach env q X t old db NewService"

definition hashed :: "anenv \<Rightarrow> string set \<Rightarrow> andb \<Rightarrow> string \<Rightarrow> string \<Rightarrow> int \<Rightarrow> bool" where
  "hashed env X db h sid ms \<longleftrightarrow>
     (\<exists>s base ip ua t. s \<in> set (sites db) \<and> si_id s = sid \<and> saltBase db = Some base \<and> h = visitorId env base s ip ua t \<and> ms = unixMilli t \<and>
        hashInputs env base s ip ua t \<subseteq> X \<and> clockOk env t)"

definition hash_inv :: "anenv \<Rightarrow> string set \<Rightarrow> andb \<Rightarrow> bool" where
  "hash_inv env X db \<longleftrightarrow>
     (\<forall>v\<in>set (visits db). hashed env X db (vr_hash v) (vr_site v) (vr_started v)) \<and>
     (\<forall>p\<in>set (pageviews db). hashed env X db (p_hash (pr_view p)) (p_site (pr_view p)) (pr_ts p))"

lemma hashed_mono:
  "hashed env X db h sid ms \<Longrightarrow> (\<And>s. s \<in> set (sites db) \<Longrightarrow> si_id s = sid \<Longrightarrow> s \<in> set (sites db')) \<Longrightarrow>
   (saltBase db \<noteq> None \<Longrightarrow> saltBase db' = saltBase db) \<Longrightarrow> hashed env X db' h sid ms"
  unfolding hashed_def by (metis option.distinct(1))

lemma hash_inv_shrink:
  assumes "hash_inv env X db" "set (visits db') \<subseteq> set (visits db)" "set (pageviews db') \<subseteq> set (pageviews db)"
    "\<And>s v. v \<in> set (visits db') \<Longrightarrow> s \<in> set (sites db) \<Longrightarrow> si_id s = vr_site v \<Longrightarrow> s \<in> set (sites db')"
    "\<And>s p. p \<in> set (pageviews db') \<Longrightarrow> s \<in> set (sites db) \<Longrightarrow> si_id s = p_site (pr_view p) \<Longrightarrow> s \<in> set (sites db')"
    "saltBase db \<noteq> None \<Longrightarrow> saltBase db' = saltBase db"
  shows "hash_inv env X db'"
  unfolding hash_inv_def
proof (intro conjI ballI)
  fix v assume v: "v \<in> set (visits db')"
  then have "hashed env X db (vr_hash v) (vr_site v) (vr_started v)" using assms(1,2) by (auto simp: hash_inv_def)
  then show "hashed env X db' (vr_hash v) (vr_site v) (vr_started v)" using assms(4) [OF v] assms(6) by (rule hashed_mono)
next
  fix p assume p: "p \<in> set (pageviews db')"
  then have "hashed env X db (p_hash (pr_view p)) (p_site (pr_view p)) (pr_ts p)" using assms(1,3) by (auto simp: hash_inv_def)
  then show "hashed env X db' (p_hash (pr_view p)) (p_site (pr_view p)) (pr_ts p)" using assms(5) [OF p] assms(6) by (rule hashed_mono)
qed


lemma RecordPageview_rows:
  assumes "RecordPageview fault rnd p v db = (Inr u, db')"
  shows "\<exists>i vid. pageviews db' = pageviews db @ [\<lparr>pr_id = i, pr_ts = unixMilli (p_ts p), pr_visit = Some vid, pr_view = p\<rparr>]"
  using assms by (auto simp: RecordPageview_def Let_def split: option.splits if_splits)

lemma RecordPageview_visits:
  assumes "RecordPageview fault rnd p v db = (Inr u, db')" "w \<in> set (visits db')"
  shows "(\<exists>x\<in>set (visits db). vr_first w = vr_first x \<and> vr_started w = vr_started x) \<or> (vr_first w = p \<and> vr_started w = unixMilli (p_ts p))"
  using assms by (auto simp: RecordPageview_def Let_def split: option.splits if_splits; blast)

lemma derived_keys:
  assumes "derived env b site hash ip ua origin now = (p, v)"
  shows "p_site p = si_id site" "p_hash p = hash" "p_ts p = now" "p_path p = pathOnly (b_url b)"
    "p_referrer p = externalReferrer (ae_uni env) (ae_urlHost env) (b_referrer b) (si_domain site)" "v_utm v = b_utm b"
  using assms by (auto simp: derived_def Let_def split: prod.splits)

lemma storedFrom_hash_inv:
  assumes inv: "hash_inv env X db" and st: "storedFrom env now b0 ip ua origin rnd db db' site base p v"
    and X: "hashInputs env base site ip ua now \<subseteq> X" and clk: "clockOk env now"
  shows "hash_inv env X db'"
proof -
  let ?db = "db\<lparr>saltBase := Some base\<rparr>"
  have rec: "RecordPageview None rnd p v ?db = (Inr (), db')" and site: "site \<in> set (sites db)" and salt: "saltBase db' = Some base" "saltBase db \<noteq> None \<longrightarrow> saltBase db = Some base"
    and d: "derived env (fst (beaconNormalize (ae_uni env) b0)) site (visitorId env base site ip ua now) ip ua origin now = (p, v)"
    using st by (simp_all add: storedFrom_def)
  note F = RecordPageview_frame [OF rec] and R = RecordPageview_rows [OF rec] RecordPageview_visits [OF rec] and K = derived_keys [OF d]
  have keep: "hashed env X db' h sid ms" if "hashed env X db h sid ms" for h sid ms
    using that by (rule hashed_mono) (use F(1) salt in auto)
  have new: "hashed env X db' (p_hash p) (p_site p) (unixMilli (p_ts p))"
    unfolding hashed_def K using site salt X clk F(1) by (auto intro!: exI [of _ site])
  show ?thesis
    unfolding hash_inv_def
  proof (intro conjI ballI)
    fix w assume "w \<in> set (visits db')"
    then show "hashed env X db' (vr_hash w) (vr_site w) (vr_started w)"
      using R(2) [of w] inv keep new by (fastforce simp: hash_inv_def vr_hash_def vr_site_def)
  next
    fix x assume "x \<in> set (pageviews db')"
    then show "hashed env X db' (p_hash (pr_view x)) (p_site (pr_view x)) (pr_ts x)"
      using R(1) inv keep new by (auto simp: hash_inv_def)
  qed
qed

text \<open>The aggregates keep to the calendar.\<close>

lemma RefreshDay_frame: "RefreshDay fault sid d t0 t1 db = (r, db') \<Longrightarrow> \<exists>ds. db' = db\<lparr>dailies := ds\<rparr>"
  by (auto simp: RefreshDay_def split: option.splits intro: exI [of _ "dailies db"])

lemma dayRows_day: "x \<in> set (dayRows sid d t0 t1 db) \<Longrightarrow> da_site x = sid \<and> da_day x = dayString d"
  by (auto simp: dayRows_def Let_def)

lemma daysText_RefreshDay:
  "daysText db \<Longrightarrow> textYear d \<Longrightarrow> RefreshDay fault sid d t0 t1 db = (r, db') \<Longrightarrow> daysText db'"
  by (auto simp: RefreshDay_def daysText_def split: option.splits dest!: dayRows_day)

lemma rollupDays_unfold:
  "rollupDays faults loc sid done today d db =
     (if today < d then (Inr (), db)
      else if dayString d \<in> set done \<and> d < today - 1 then rollupDays faults loc sid done today (d + 1) db
      else case RefreshDay (faults d) sid d (Start loc d) (Start loc (d + 1)) db of
             (Inl e, db') \<Rightarrow> (Inl e, db')
           | (Inr _, db') \<Rightarrow> rollupDays faults loc sid done today (d + 1) db')"
  by (subst rollupDays.simps) (simp add: Bounds_def split: sum.splits prod.splits)

lemma rollupDays_text:
  "rollupDays faults loc sid done today d db = (r, db') \<Longrightarrow> textYear d \<Longrightarrow> textYear today \<Longrightarrow>
   \<exists>ds. db' = db\<lparr>dailies := ds\<rparr> \<and> (daysText db \<longrightarrow> daysText db')"
proof (induction "nat (today + 1 - d)" arbitrary: d db)
  case 0
  then show ?case by (subst (asm) rollupDays_unfold) (auto intro: exI [of _ "dailies db"])
next
  case (Suc n)
  have d: "\<not> today < d" using Suc(2) by simp
  have next_ok: "\<exists>ds. db' = x\<lparr>dailies := ds\<rparr> \<and> (daysText x \<longrightarrow> daysText db')"
    if "rollupDays faults loc sid done today (d + 1) x = (r, db')" for x
  proof (cases "d = today")
    case True
    then show ?thesis using that by (subst (asm) rollupDays_unfold) (auto intro: exI [of _ "dailies x"])
  next
    case False
    then have "textYear (d + 1)" using Suc.prems d by (intro textYear_between [OF Suc.prems(2,3)]) auto
    then show ?thesis using Suc(1) [of "d + 1" x] Suc(2) Suc.prems that by simp
  qed
  obtain r1 db1 where p: "RefreshDay (faults d) sid d (Start loc d) (Start loc (d + 1)) db = (r1, db1)" by fastforce
  have "(db' = db1) \<or> rollupDays faults loc sid done today (d + 1) db1 = (r, db') \<or> rollupDays faults loc sid done today (d + 1) db = (r, db')"
    using Suc.prems(1) d p by (subst (asm) rollupDays_unfold) (auto split: if_splits sum.splits)
  then show ?case
    using next_ok RefreshDay_frame [OF p] daysText_RefreshDay [OF _ Suc.prems(2) p] by fastforce
qed

lemma hash_inv_dailies [simp]: "hash_inv env X (db\<lparr>dailies := ds\<rparr>) = hash_inv env X db"
  by (simp add: hash_inv_def hashed_def)

lemma FirstVisit_text:
  assumes "hash_inv env X db" "FirstVisit fault (si_id s) db = Inr (Some first)"
  shows "textYear (DayOf first (Location (ae_tz env) s'))"
proof -
  define vs where "vs = filter (\<lambda>v. vr_site v = si_id s) (visits db)"
  have f: "first = ofMilli (Min (vr_started ` set vs))" "vs \<noteq> []"
    using assms(2) by (auto simp: FirstVisit_def Let_def vs_def split: option.splits if_splits)
  then have "Min (vr_started ` set vs) \<in> vr_started ` set vs" by (intro Min_in) auto
  then obtain v where "v \<in> set (visits db)" "vr_started v = Min (vr_started ` set vs)" by (force simp: vs_def)
  then have "hashed env X db (vr_hash v) (vr_site v) (Min (vr_started ` set vs))" using assms(1) by (force simp: hash_inv_def)
  then show ?thesis unfolding f(1) hashed_def clockOk_def dayAt_def by auto
qed

lemma rollupSite_cases:
  assumes "rollupSite q f now s db = (r, db')"
  shows "db' = db \<or> (\<exists>first d done. FirstVisit (rf_first f) (si_id s) db = Inr (Some first) \<and> DayOf first (Location (qe_tz q) s) \<le> d \<and>
    rollupDays (rf_refresh f) (Location (qe_tz q) s) (si_id s) done (DayOf now (Location (qe_tz q) s)) d db = (r, db'))"
proof (cases "FirstVisit (rf_first f) (si_id s) db")
  case (Inr first)
  define loc d where "loc = Location (qe_tz q) s"
    and "d = (if DayOf (the first) loc < rawFrom (qe_retention q) now loc then rawFrom (qe_retention q) now loc else DayOf (the first) loc)"
  have "DayOf (the first) loc \<le> d" by (simp add: d_def)
  moreover have "db' = db \<or> (first \<noteq> None \<and> (\<exists>done. rollupDays (rf_refresh f) loc (si_id s) done (DayOf now loc) d db = (r, db')))"
    using assms Inr by (auto simp: rollupSite_def Let_def d_def loc_def split: option.splits sum.splits)
  ultimately show ?thesis using Inr unfolding loc_def by fastforce
qed (use assms in \<open>auto simp: rollupSite_def Let_def\<close>)

lemma rollupSite_text:
  assumes "rollupSite q f now s db = (r, db')" "clockOk env now" "qe_tz q = ae_tz env" "hash_inv env X db"
  shows "\<exists>ds. db' = db\<lparr>dailies := ds\<rparr> \<and> (daysText db \<longrightarrow> daysText db')"
proof -
  define loc where "loc = Location (ae_tz env) s"
  have same: "\<exists>ds. db = db\<lparr>dailies := ds\<rparr>" by (intro exI [of _ "dailies db"]) simp
  have today: "textYear (DayOf now loc)" using assms(2) by (simp add: clockOk_def loc_def)
  consider "db' = db" | first d "done" where "FirstVisit (rf_first f) (si_id s) db = Inr (Some first)" "DayOf first loc \<le> d"
    "rollupDays (rf_refresh f) loc (si_id s) done (DayOf now loc) d db = (r, db')"
    using rollupSite_cases [OF assms(1)] assms(3) by (auto simp: loc_def)
  then show ?thesis
  proof cases
    case 1
    then show ?thesis using same by simp
  next
    case 2
    show ?thesis
    proof (cases "DayOf now loc < d")
      case True
      then show ?thesis using 2(3) same by (subst (asm) rollupDays_unfold) simp
    next
      case False
      have "textYear d"
        using 2(2) False by (intro textYear_between [OF FirstVisit_text [OF assms(4) 2(1), of s] today]) (auto simp: loc_def)
      then show ?thesis using rollupDays_text [OF 2(3) _ today] by blast
    qed
  qed
qed

lemma rollupSites_text:
  assumes "rollupSites q fs now ss db = (r, db')" "clockOk env now" "qe_tz q = ae_tz env" "hash_inv env X db"
  shows "\<exists>ds. db' = db\<lparr>dailies := ds\<rparr> \<and> (daysText db \<longrightarrow> daysText db')"
  using assms(1,4)
proof (induction ss arbitrary: db)
  case Nil
  then show ?case by (intro exI [of _ "dailies db"]) simp
next
  case (Cons s ss)
  obtain r1 db1 where p: "rollupSite q (fs (si_id s)) now s db = (r1, db1)" by fastforce
  obtain ds where one: "db1 = db\<lparr>dailies := ds\<rparr>" "daysText db \<longrightarrow> daysText db1"
    using rollupSite_text [OF p assms(2,3) Cons.prems(2)] by blast
  have "hash_inv env X db1" using Cons.prems(2) one(1) by simp
  then show ?case using Cons.IH [of db1] Cons.prems(1) p one by (cases r1) fastforce+
qed

lemma AnRollup_text:
  assumes "AnRollup q f1 fs f2 now db = (r, db')" "clockOk env now" "qe_tz q = ae_tz env" "hash_inv env X db"
  shows "\<exists>ds. db' = db\<lparr>dailies := ds\<rparr> \<and> (daysText db \<longrightarrow> daysText db')"
proof (cases f1)
  case (Some e)
  then show ?thesis using assms(1) by (intro exI [of _ "dailies db"]) (simp add: AnRollup_def ListSites_def)
next
  case None
  obtain ss where ss: "ListSites f1 db = Inr ss" using None by (simp add: ListSites_def)
  obtain r1 db1 where p: "rollupSites q fs now ss db = (r1, db1)" by fastforce
  obtain ds where one: "db1 = db\<lparr>dailies := ds\<rparr>" "daysText db \<longrightarrow> daysText db1"
    using rollupSites_text [OF p assms(2-4)] by blast
  have "db' = db1 \<or> (\<exists>d. db' = db1\<lparr>dailies := filter (\<lambda>x. \<not> da_day x < d) (dailies db1)\<rparr>)"
    using assms(1) ss p by (auto simp: AnRollup_def PurgeDaily_def split: sum.splits option.splits)
  then show ?thesis using one by (auto simp: daysText_def)
qed

text \<open>The invariant of every history.\<close>

definition hist_inv :: "anenv \<Rightarrow> string set \<Rightarrow> time \<Rightarrow> int \<Rightarrow> andb \<Rightarrow> ansvc \<Rightarrow> bool" where
  "hist_inv env X t old db s \<longleftrightarrow> an_inv (unixMilli t) old db \<and> svc_ok db s \<and> hash_inv env X db \<and> daysText db"


lemma PurgePageviews_frame:
  assumes "PurgePageviews f1 f2 before k db = (r, db')"
  shows "sites db' = sites db \<and> saltBase db' = saltBase db \<and> dailies db' = dailies db \<and>
    set (visits db') \<subseteq> set (visits db) \<and> set (pageviews db') \<subseteq> set (pageviews db)"
  using assms by (auto simp: PurgePageviews_def Let_def split: option.splits)

lemma anPurgeLoop_frame:
  "anPurgeLoop faults before i db = (err, db') \<Longrightarrow>
   sites db' = sites db \<and> saltBase db' = saltBase db \<and> dailies db' = dailies db \<and>
   set (visits db') \<subseteq> set (visits db) \<and> set (pageviews db') \<subseteq> set (pageviews db)"
proof (induction faults before i db rule: anPurgeLoop.induct)
  case (1 faults before i db)
  obtain res db1 where p: "PurgePageviews (fst (faults i)) (snd (faults i)) before 5000 db = (res, db1)" by fastforce
  note F = PurgePageviews_frame [OF p]
  have "db' = db1 \<or> (\<exists>n. res = Inr n \<and> n \<noteq> 0 \<and> anPurgeLoop faults before (Suc i) db1 = (err, db'))"
    using "1.prems" p by (auto simp: anPurgeLoop.simps [of faults before i db] split: sum.splits if_splits)
  then show ?case using F "1.IH" [OF p [symmetric]] by (auto; blast)
qed

lemma PurgeSvc_frame:
  "PurgeSvc env faults now db = (err, db') \<Longrightarrow>
   sites db' = sites db \<and> saltBase db' = saltBase db \<and> dailies db' = dailies db \<and>
   set (visits db') \<subseteq> set (visits db) \<and> set (pageviews db') \<subseteq> set (pageviews db)"
  by (auto simp: PurgeSvc_def dest: anPurgeLoop_frame split: if_splits)

lemma an_inv_old_mono: "an_inv now old db \<Longrightarrow> old \<le> old' \<Longrightarrow> an_inv now old' db"
  unfolding an_inv_def using visitOk_suffix [of old _ "[]", simplified] by blast

lemma PurgeSvc_inv:
  "an_inv ms old db \<Longrightarrow> PurgeSvc env faults now db = (err, db') \<Longrightarrow> an_inv ms (max old (unixMilli (now - ae_retention env))) db'"
  by (auto simp: PurgeSvc_def intro: anPurgeLoop_inv an_inv_old_mono split: if_splits)

lemma CreateSite_frame:
  "CreateSite fault rnd n now db = (r, db') \<Longrightarrow> set (sites db) \<subseteq> set (sites db') \<and> visits db' = visits db \<and> pageviews db' = pageviews db \<and>
   saltBase db' = saltBase db \<and> dailies db' = dailies db"
  by (auto simp: CreateSite_def Let_def split: option.splits if_splits)

lemma DeleteSite_frame:
  "DeleteSite fault sid db = (r, db') \<Longrightarrow> db' = db \<or>
   (sites db' = filter (\<lambda>s. si_id s \<noteq> sid) (sites db) \<and> visits db' = filter (\<lambda>v. vr_site v \<noteq> sid) (visits db) \<and>
    pageviews db' = filter (\<lambda>p. p_site (pr_view p) \<noteq> sid) (pageviews db) \<and> saltBase db' = saltBase db \<and> set (dailies db') \<subseteq> set (dailies db))"
  by (auto simp: DeleteSite_def split: option.splits if_splits)

lemma collect_hist_inv:
  assumes inv: "hist_inv env X t old db s" and t: "t \<le> now" "clockOk env now"
    and c: "Collect env f now b ip ua origin (db, s) = (r, db', s')"
    and X: "\<forall>site\<in>set (sites db). \<forall>base. saltBase db' = Some base \<longrightarrow> hashInputs env base site ip ua now \<subseteq> X"
  shows "hist_inv env X now old db' s'"
proof -
  obtain stored outcome err s1 where p: "collect env f now b ip ua origin (db, s) = ((stored, outcome, err), db', s1)" and s': "s' = CountCollect outcome s1"
    using c by (auto simp: Collect_def split: prod.splits)
  have I: "an_inv (unixMilli t) old db" "svc_ok db s" "hash_inv env X db" "daysText db" using inv by (simp_all add: hist_inv_def)
  note C = collect_ok [OF I(2) p]
  have le: "unixMilli t \<le> unixMilli now" using t by (simp add: unixMilli_mono)
  have "an_inv (unixMilli now) old db' \<and> hash_inv env X db' \<and> daysText db'"
  proof (cases stored)
    case False
    then obtain x where db: "db' = db\<lparr>saltBase := x\<rparr>" "saltBase db \<noteq> None \<longrightarrow> x = saltBase db" using C(5) by metis
    have "hash_inv env X db'" by (rule hash_inv_shrink [OF I(3)]) (use db in auto)
    moreover have "an_inv (unixMilli t) old db'" using I(1) db by (auto intro: an_inv_cong)
    ultimately show ?thesis using le I(4) db by (auto simp: daysText_def intro: an_inv_mono)
  next
    case True
    then obtain site base p v where st: "storedFrom env now b ip ua origin (f_visitRnd f) db db' site base p v" using C(4) by blast
    then have rec: "RecordPageview None (f_visitRnd f) p v (db\<lparr>saltBase := Some base\<rparr>) = (Inr (), db')"
      and sb: "saltBase db' = Some base" "site \<in> set (sites db)" and ts: "p_ts p = now"
      using derived_keys(3) by (auto simp: storedFrom_def)
    have "an_inv (unixMilli t) old (db\<lparr>saltBase := Some base\<rparr>)" using I(1) by (auto intro: an_inv_cong)
    then have "an_inv (unixMilli now) old db'" using RecordPageview_inv [OF _ _ rec] le ts by simp
    moreover have "hash_inv env X db'" using storedFrom_hash_inv [OF I(3) st _ t(2)] X sb by blast
    moreover have "daysText db'" using RecordPageview_frame(3) [OF rec] I(4) by (simp add: daysText_def)
    ultimately show ?thesis by simp
  qed
  then show ?thesis using C(1) by (simp add: hist_inv_def s' svc_ok_count)
qed

lemma hist_inv_mono: "hist_inv env X t old db s \<Longrightarrow> t \<le> now \<Longrightarrow> hist_inv env X now old db s"
  unfolding hist_inv_def using an_inv_mono unixMilli_mono by blast

lemma anReach_inv:
  assumes "anReach env q X t old db s" "qe_tz q = ae_tz env"
  shows "hist_inv env X t old db s"
  using assms(1)
proof (induction rule: anReach.induct)
  case (start t old)
  show ?case by (simp add: hist_inv_def an_inv_empty sites_ok_def emptyTables_def svc_ok_new hash_inv_def daysText_def MaxSites_def)
next
  case (collect t old db s now f b ip ua origin r db' s')
  then show ?case by (auto intro: collect_hist_inv)
next
  case (create t old db s now fault rnd n rs db' s')
  have I: "hist_inv env X now old db s" using create by (auto intro: hist_inv_mono)
  show ?case
  proof (cases "db' = db \<and> s' = s")
    case False
    then obtain v where c: "CreateSite fault rnd v now db = (rs, db')" "s' = resetSites s"
      using create.hyps(3) by (auto simp: CreateSiteSvc_def split: sum.splits prod.splits)
    note F = CreateSite_frame [OF c(1)]
    have "hash_inv env X db'" by (rule hash_inv_shrink [of env X db]) (use I F in \<open>auto simp: hist_inv_def\<close>)
    then show ?thesis using I F c svc_ok_reset [of db s db'] by (auto simp: hist_inv_def daysText_def intro: CreateSite_inv)
  qed (use I in simp)
next
  case (delete t old db s fault sid ru db' s')
  have d: "DeleteSite fault sid db = (ru, db')" "s' = resetSites s" using delete.hyps(2) by (auto simp: DeleteSiteSvc_def split: prod.splits)
  note F = DeleteSite_frame [OF d(1)]
  have "hash_inv env X db'" by (rule hash_inv_shrink [of env X db]) (use delete.IH F in \<open>auto simp: hist_inv_def\<close>)
  then show ?case using delete.IH F d svc_ok_reset [of db s db'] by (auto simp: hist_inv_def daysText_def intro: DeleteSite_inv)
next
  case (purge t old db s now faults err db')
  note F = PurgeSvc_frame [OF purge.hyps(3)]
  have I: "hist_inv env X now old db s" using purge by (auto intro: hist_inv_mono)
  have "hash_inv env X db'" by (rule hash_inv_shrink [of env X db]) (use I F in \<open>auto simp: hist_inv_def\<close>)
  then show ?case using I F purge.hyps(3) svc_ok_cong [of db s db'] by (auto simp: hist_inv_def daysText_def intro: PurgeSvc_inv)
next
  case (rollup t old db s now f1 fs f2 r' db')
  have I: "hist_inv env X now old db s" using rollup by (auto intro: hist_inv_mono)
  obtain ds where "db' = db\<lparr>dailies := ds\<rparr>" "daysText db \<longrightarrow> daysText db'"
    using AnRollup_text [OF rollup.hyps(4,3) assms(2)] I by (auto simp: hist_inv_def)
  then show ?case using I by (auto simp: hist_inv_def intro: an_inv_cong svc_ok_cong)
next
  case (restart t old db s)
  then show ?case by (simp add: hist_inv_def svc_ok_new)
qed


subsection \<open>Hashes, days and purges\<close>

lemma DayOf_milli:
  assumes "zone_ok loc"
  shows "dayAt loc (unixMilli t) = DayOf t loc"
proof -
  have "d \<le> dayAt loc (unixMilli t) \<longleftrightarrow> d \<le> DayOf t loc" for d
  proof -
    have "d \<le> dayAt loc (unixMilli t) \<longleftrightarrow> unixMilli (Start loc d) \<le> unixMilli t" using Start_le_iff [OF assms] by simp
    also have "\<dots> \<longleftrightarrow> Start loc d \<le> t"
    proof
      assume "unixMilli (Start loc d) \<le> unixMilli t"
      then have "d \<le> dayAt loc (unixMilli t)" using Start_le_iff [OF assms] by simp
      then have "Start loc d \<le> ofMilli (unixMilli t)" using assms by (simp add: zone_ok_def dayAt_def)
      also have "\<dots> \<le> t" by (simp add: ofMilli_unixMilli truncateTo_le)
      finally show "Start loc d \<le> t" .
    qed (rule unixMilli_mono)
    finally show ?thesis using assms by (simp add: zone_ok_def)
  qed
  from this [of "dayAt loc (unixMilli t)"] this [of "DayOf t loc"] show ?thesis by simp
qed

text \<open>Equal hashes come from the same site day.\<close>

lemma hashed_day:
  assumes sha: "sha_ok env X" and z: "zone_ok (Location (ae_tz env) site)"
    and ids: "distinct (map si_id (sites db))" and site: "site \<in> set (sites db)" "si_id site = sid"
    and h: "hashed env X db h sid ms" "hashed env X db h sid ms'"
  shows "dayAt (Location (ae_tz env) site) ms = dayAt (Location (ae_tz env) site) ms'"
proof -
  let ?loc = "Location (ae_tz env) site"
  have uniq: "s = site" if "s \<in> set (sites db)" "si_id s = sid" for s
    using that site ids by (metis distinct_map inj_onD)
  obtain base ip ua t where 1: "saltBase db = Some base" "h = visitorId env base site ip ua t" "ms = unixMilli t" "hashInputs env base site ip ua t \<subseteq> X" "clockOk env t"
    using h(1) uniq unfolding hashed_def by metis
  obtain base' ip' ua' t' where 2: "saltBase db = Some base'" "h = visitorId env base' site ip' ua' t'" "ms' = unixMilli t'"
      "hashInputs env base' site ip' ua' t' \<subseteq> X" "clockOk env t'"
    using h(2) uniq unfolding hashed_def by metis
  have b: "base' = base" using 1(1) 2(1) by simp
  have len: "length (ae_sha env x) = 64" for x using sha by (simp add: sha_ok_def)
  have inj: "x = y" if "take 32 (ae_sha env x) = take 32 (ae_sha env y)" "x \<in> X" "y \<in> X" for x y
    using that sha by (auto simp: sha_ok_def dest: inj_onD)
  have "visitorInput env base site ip ua t = visitorInput env base site ip' ua' t'"
    by (rule inj) (use 1(2,4) 2(2,4) b in \<open>auto simp: visitorId_eq hashInputs_def\<close>)
  then have "ae_sha env (dayInput env base site t) = ae_sha env (dayInput env base site t')"
    using len by (simp add: visitorInput_def)
  then have "take 32 (ae_sha env (dayInput env base site t)) = take 32 (ae_sha env (dayInput env base site t'))" by simp
  then have "dayInput env base site t = dayInput env base site t'"
    by (rule inj) (use 1(4) 2(4) b in \<open>auto simp: hashInputs_def\<close>)
  then have "dayString (DayOf t ?loc) = dayString (DayOf t' ?loc)" by (simp add: dayInput_def)
  then have "DayOf t ?loc = DayOf t' ?loc" using 1(5) 2(5) by (simp add: dayString_inj clockOk_def)
  then show ?thesis using 1(3) 2(3) by (simp add: DayOf_milli [OF z])
qed

lemma hist_inv_oneDay:
  assumes inv: "hist_inv env X t old db s" and sha: "sha_ok env X"
    and site: "site \<in> set (sites db)" and z: "zone_ok (Location (ae_tz env) site)"
  shows "oneDay (Location (ae_tz env) site) (si_id site) db"
proof -
  have I: "an_inv (unixMilli t) old db" "hash_inv env X db" using inv by (simp_all add: hist_inv_def)
  note A = an_invE [OF I(1)]
  have ids: "distinct (map si_id (sites db))" using A(1) by (simp add: sites_ok_def)
  note D = hashed_day [OF sha z ids site refl]
  have own: "p_site (pr_view p) = vr_site v \<and> p_hash (pr_view p) = vr_hash v"
    if "p \<in> set (pageviews db)" "v \<in> set (visits db)" "pr_visit p = Some (vr_id v)" for p v
    using A(5) [OF that(2)] that by (simp add: visitOk_def views_def)
  have V: "hashed env X db (vr_hash v) (vr_site v) (vr_started v)" if "v \<in> set (visits db)" for v using I(2) that by (simp add: hash_inv_def)
  have P: "hashed env X db (p_hash (pr_view p)) (p_site (pr_view p)) (pr_ts p)" if "p \<in> set (pageviews db)" for p using I(2) that by (simp add: hash_inv_def)
  show ?thesis
    unfolding oneDay_def
  proof (intro conjI ballI impI)
    show "dayAt (Location (ae_tz env) site) (vr_started v) = dayAt (Location (ae_tz env) site) (vr_started w)"
      if "v \<in> set (visits db)" "w \<in> set (visits db)" "vr_site v = si_id site \<and> vr_site w = si_id site \<and> vr_hash v = vr_hash w" for v w
      by (rule D [of "vr_hash v"]) (use V [OF that(1)] V [OF that(2)] that(3) in auto)
    show "dayAt (Location (ae_tz env) site) (pr_ts p) = dayAt (Location (ae_tz env) site) (vr_started v)"
      if "p \<in> set (pageviews db)" "v \<in> set (visits db)" "pr_visit p = Some (vr_id v)" "vr_site v = si_id site" for p v
      by (rule D [of "vr_hash v"]) (use V [OF that(2)] P [OF that(1)] own [OF that(1-3)] that(4) in auto)
  qed (use own in blast)+
qed


text \<open>A purge leaves the visits and pageviews that are not older than its limit.\<close>

definition youngVisit :: "int \<Rightarrow> visitRow \<Rightarrow> bool" where
  "youngVisit b v \<longleftrightarrow> b \<le> vr_last v"

definition youngRow :: "int \<Rightarrow> pvRow \<Rightarrow> bool" where
  "youngRow b p \<longleftrightarrow> b \<le> pr_ts p"

lemma filter_kept: "(\<And>x. x \<in> set xs \<Longrightarrow> Q x \<Longrightarrow> K x) \<Longrightarrow> filter Q (filter K xs) = filter Q xs"
  by (auto intro!: filter_cong)

lemma PurgePageviews_young:
  assumes inv: "an_inv now old db" and p: "PurgePageviews f1 f2 before k db = (r, db')"
  shows "filter (youngVisit (unixMilli before)) (visits db') = filter (youngVisit (unixMilli before)) (visits db)"
    "filter (youngRow (unixMilli before)) (pageviews db') = filter (youngRow (unixMilli before)) (pageviews db)"
proof -
  note I = an_invE [OF inv]
  let ?b = "unixMilli before"
  define gone where "gone = take k (filter (\<lambda>p. pr_ts p < ?b) (pageviews db))"
  define ended where "ended = take k (filter (\<lambda>v. vr_last v < ?b) (visits db))"
  have g: "p \<in> set (pageviews db) \<and> pr_ts p < ?b" if "p \<in> set gone" for p using that by (auto simp: gone_def dest: in_set_takeD)
  have e: "v \<in> set (visits db) \<and> vr_last v < ?b" if "v \<in> set ended" for v using that by (auto simp: ended_def dest: in_set_takeD)
  have kp: "pr_id x \<notin> pr_id ` set gone" if "x \<in> set (pageviews db)" "youngRow ?b x" for x
  proof
    assume "pr_id x \<in> pr_id ` set gone"
    then obtain y where y: "y \<in> set gone" "pr_id x = pr_id y" by auto
    then have "x = y" using I(3) g [of y] that(1) by (metis rows_ok_def distinct_map inj_onD)
    then show False using g [OF y(1)] that(2) by (simp add: youngRow_def)
  qed
  have kv: "vr_id x \<notin> vr_id ` set ended" if "x \<in> set (visits db)" "youngVisit ?b x" for x
  proof
    assume "vr_id x \<in> vr_id ` set ended"
    then obtain y where y: "y \<in> set ended" "vr_id x = vr_id y" by auto
    then have "x = y" using I(2) e [of y] that(1) by (metis distinct_map inj_onD)
    then show False using e [OF y(1)] that(2) by (simp add: youngVisit_def)
  qed
  have kc: "pr_visit x \<notin> (Some \<circ> vr_id) ` set ended" if "x \<in> set (pageviews db)" "youngRow ?b x" for x
  proof
    assume "pr_visit x \<in> (Some \<circ> vr_id) ` set ended"
    then obtain v where v: "v \<in> set ended" "pr_visit x = Some (vr_id v)" by auto
    then have "pr_ts x \<le> vr_last v" using I(5) e [of v] that(1) by (auto simp: visitOk_def views_def)
    then show False using e [OF v(1)] that(2) by (simp add: youngRow_def)
  qed
  have "(visits db' = visits db \<or> visits db' = filter (\<lambda>v. vr_id v \<notin> vr_id ` set ended) (visits db)) \<and>
    (pageviews db' = pageviews db \<or> pageviews db' = filter (\<lambda>p. pr_id p \<notin> pr_id ` set gone) (pageviews db) \<or>
     pageviews db' = filter (\<lambda>p. pr_visit p \<notin> (Some \<circ> vr_id) ` set ended) (filter (\<lambda>p. pr_id p \<notin> pr_id ` set gone) (pageviews db)))"
    using p by (auto simp: PurgePageviews_def Let_def gone_def ended_def split: option.splits)
  moreover have "filter (youngVisit ?b) (filter (\<lambda>v. vr_id v \<notin> vr_id ` set ended) (visits db)) = filter (youngVisit ?b) (visits db)"
    by (rule filter_kept) (rule kv)
  moreover have g2: "filter (youngRow ?b) (filter (\<lambda>p. pr_id p \<notin> pr_id ` set gone) (pageviews db)) = filter (youngRow ?b) (pageviews db)"
    by (rule filter_kept) (rule kp)
  moreover have "filter (youngRow ?b) (filter (\<lambda>p. pr_visit p \<notin> (Some \<circ> vr_id) ` set ended) (filter (\<lambda>p. pr_id p \<notin> pr_id ` set gone) (pageviews db)))
      = filter (youngRow ?b) (filter (\<lambda>p. pr_id p \<notin> pr_id ` set gone) (pageviews db))"
    by (rule filter_kept) (use kc in auto)
  ultimately show "filter (youngVisit ?b) (visits db') = filter (youngVisit ?b) (visits db)"
    "filter (youngRow ?b) (pageviews db') = filter (youngRow ?b) (pageviews db)" by metis+
qed

lemma PurgeSvc_young:
  assumes "an_inv ms old db" "PurgeSvc env faults now db = (err, db')"
  shows "filter (youngVisit (unixMilli (now - ae_retention env))) (visits db') = filter (youngVisit (unixMilli (now - ae_retention env))) (visits db)"
    "filter (youngRow (unixMilli (now - ae_retention env))) (pageviews db') = filter (youngRow (unixMilli (now - ae_retention env))) (pageviews db)"
proof -
  have loop: "anPurgeLoop fs before i db = (err, db') \<Longrightarrow> an_inv ms old db \<Longrightarrow>
      filter (youngVisit (unixMilli before)) (visits db') = filter (youngVisit (unixMilli before)) (visits db) \<and>
      filter (youngRow (unixMilli before)) (pageviews db') = filter (youngRow (unixMilli before)) (pageviews db)" for fs before i db old
  proof (induction fs before i db arbitrary: old rule: anPurgeLoop.induct)
    case (1 fs before i db)
    obtain res db1 where p: "PurgePageviews (fst (fs i)) (snd (fs i)) before 5000 db = (res, db1)" by fastforce
    note Y = PurgePageviews_young [OF "1.prems"(2) p] and inv = PurgePageviews_inv [OF "1.prems"(2) p]
    have "db' = db1 \<or> (\<exists>n. res = Inr n \<and> n \<noteq> 0 \<and> anPurgeLoop fs before (Suc i) db1 = (err, db'))"
      using "1.prems"(1) p by (auto simp: anPurgeLoop.simps [of fs before i db] split: sum.splits if_splits)
    then show ?case using Y "1.IH" [OF p [symmetric] _ _ _ inv] by auto
  qed
  show "filter (youngVisit (unixMilli (now - ae_retention env))) (visits db') = filter (youngVisit (unixMilli (now - ae_retention env))) (visits db)"
    "filter (youngRow (unixMilli (now - ae_retention env))) (pageviews db') = filter (youngRow (unixMilli (now - ae_retention env))) (pageviews db)"
    using assms loop [of faults _ 0 db] by (auto simp: PurgeSvc_def split: if_splits)
qed

lemma filter_weaker: "(\<And>x. x \<in> set xs \<Longrightarrow> P x \<Longrightarrow> Q x) \<Longrightarrow> filter P xs = filter P (filter Q xs)"
  by (auto intro!: filter_cong)

lemma filter_concat_map:
  "(\<And>x. x \<in> set xs \<Longrightarrow> \<not> Q x \<Longrightarrow> filter R (f x) = []) \<Longrightarrow> filter R (concat (map f xs)) = concat (map (\<lambda>x. filter R (f x)) (filter Q xs))"
  by (induction xs) auto

text \<open>Raw reports of days that start after the limit read the same rows before and after.\<close>

lemma dayRaw_young:
  assumes z: "zone_ok loc" and inv: "an_inv now old db" and sub: "set (visits db') \<subseteq> set (visits db)" "set (pageviews db') \<subseteq> set (pageviews db)"
    and V: "filter (youngVisit b) (visits db') = filter (youngVisit b) (visits db)"
    and P: "filter (youngRow b) (pageviews db') = filter (youngRow b) (pageviews db)"
    and a: "dayAt loc (b - 1) < a"
  shows "dayRaw loc sid dm a e db' = dayRaw loc sid dm a e db"
proof -
  note I = an_invE [OF inv]
  have late: "b \<le> ms" if "a \<le> dayAt loc ms" for ms
  proof (rule ccontr)
    assume "\<not> b \<le> ms"
    then have "unixMilli (Start loc a) \<le> b - 1" using that Start_le_iff [OF z, of a ms] by linarith
    then show False using Start_le_iff [OF z, of a "b - 1"] a by simp
  qed
  have yv: "youngVisit b v" if "v \<in> set (visits db)" "a \<le> dayAt loc (vr_started v)" for v
    using late [OF that(2)] I(5) [OF that(1)] by (auto simp: youngVisit_def visitOk_def)
  have yw: "youngVisit b v" if "v \<in> set (visits db)" "p \<in> set (pageviews db)" "pr_visit p = Some (vr_id v)" "youngRow b p" for v p
    using I(5) [OF that(1)] that(2-4) by (auto simp: youngVisit_def youngRow_def visitOk_def views_def)
  have same: "filter Q (visits db') = filter Q (visits db)" if "\<And>v. v \<in> set (visits db) \<Longrightarrow> Q v \<Longrightarrow> youngVisit b v" for Q
    using filter_weaker [of "visits db" Q "youngVisit b"] filter_weaker [of "visits db'" Q "youngVisit b"] that sub(1) V by auto
  define R where "R = (\<lambda>x :: pvRow \<times> visitRow. p_site (pr_view (fst x)) = sid \<and> a \<le> dayAt loc (pr_ts (fst x)) \<and> dayAt loc (pr_ts (fst x)) \<le> e)"
  define rows where "rows = (\<lambda>(db :: andb) p. filter R (map (Pair p) (filter (\<lambda>v. pr_visit p = Some (vr_id v)) (visits db))))"
  have no: "filter R (map (Pair p) vs) = []" if "\<not> youngRow b p" for p and vs :: "visitRow list"
    using that late [of "pr_ts p"] by (auto simp: R_def youngRow_def filter_empty_conv)
  have j: "filter R (joined x) = concat (map (rows x) (filter (youngRow b) (pageviews x)))" for x
    unfolding joined_def rows_def by (intro filter_concat_map no)
  have "filter R (joined db') = filter R (joined db)"
    unfolding j P by (intro arg_cong [where f = concat] map_cong refl) (auto simp: rows_def same yw)
  moreover have "filter (\<lambda>v. vr_site v = sid \<and> a \<le> dayAt loc (vr_started v) \<and> dayAt loc (vr_started v) \<le> e) (visits db') =
      filter (\<lambda>v. vr_site v = sid \<and> a \<le> dayAt loc (vr_started v) \<and> dayAt loc (vr_started v) \<le> e) (visits db)"
    by (rule same) (use yv in auto)
  ultimately show ?thesis by (simp add: dayRaw_def rawRows_eq visitsIn_days [OF z] pagesIn_days [OF z] R_def)
qed


lemma dayAt_mono: "zone_ok loc \<Longrightarrow> ms \<le> ms' \<Longrightarrow> dayAt loc ms \<le> dayAt loc ms'"
  using Start_le_iff [of loc "dayAt loc ms" ms] Start_le_iff [of loc "dayAt loc ms" ms'] by auto

lemma rawFrom_late:
  assumes z: "zone_ok loc" and r: "0 < retention" and a: "rawFrom retention now loc \<le> a"
  shows "dayAt loc (unixMilli (now - retention) - 1) < a"
proof -
  have "dayAt loc (unixMilli (now - retention) - 1) \<le> DayOf (now - retention) loc"
    using dayAt_mono [OF z, of "unixMilli (now - retention) - 1" "unixMilli (now - retention)"] DayOf_milli [OF z, of "now - retention"] by simp
  then show ?thesis using r a by (simp add: rawFrom_def)
qed

lemma dayRaw_purged:
  assumes z: "zone_ok loc" and inv: "an_inv ms old db" and p: "PurgeSvc env faults now db = (err, db')"
    and a: "rawFrom (ae_retention env) now loc \<le> a"
  shows "dayRaw loc sid dm a e db' = dayRaw loc sid dm a e db"
proof (cases "0 < ae_retention env")
  case True
  note F = PurgeSvc_frame [OF p]
  show ?thesis
    by (rule dayRaw_young [OF z inv _ _ PurgeSvc_young [OF inv p] rawFrom_late [OF z True a]]) (use F in auto)
qed (use p in \<open>simp add: PurgeSvc_def\<close>)

lemma exactDay_cong:
  "exactDay loc sid full db d \<Longrightarrow> dailies db' = dailies db \<Longrightarrow> exactDay loc sid full db' d"
  by (simp add: exactDay_def)

lemma breakdown_returns: "\<exists>rows. breakdown None None sid loc raw0 r dm fs None db = Inr rows"
proof -
  obtain agg raw where s: "splitRange raw0 r = (agg, raw)" by fastforce
  have "\<exists>rows. aggPart None sid dm agg db = Inr rows" by (cases agg) (simp_all add: aggPart_def DailyRows_def)
  moreover have "\<exists>rows. rawPart None sid loc dm fs None raw db = Inr rows" by (cases raw) (simp_all add: rawPart_def RawRows_def split: prod.split)
  ultimately show ?thesis by (auto simp: breakdown_def s)
qed

text \<open>C27 (equivalence). Reports do not change when the raw rows behind them are deleted. In any state the service
  can be in, let the daily aggregates of the days before \<open>raw0\<close> be up to date and let a purge run; then a report
  over any range of days, by any dimension, which reads the aggregates for the days before \<open>raw0\<close> and the remaining raw rows
  for the rest, has for every value the counts that the raw rows before the purge give for the whole range, visitors
  included: a visitor's hash belongs to one site day, so the visitors of the days add up.\<close>

theorem reports_survive_purge:
  fixes loc :: location
  assumes "anReach env q X t old db s" "qe_tz q = ae_tz env" "sha_ok env X"
    and "site \<in> set (sites db)" "loc = Location (ae_tz env) site" "zone_ok loc"
    and "r_from r \<le> r_to r" "textYear (r_from r)" "textYear (r_to r)" "dm \<in> set Dimensions"
    and "\<forall>d. r_from r \<le> d \<and> d \<le> r_to r \<and> d < raw0 \<longrightarrow> exactDay loc (si_id site) db db d"
    and "PurgeSvc env faults now db = (err, db')" "rawFrom (ae_retention env) now loc \<le> raw0"
  shows "\<exists>rows. breakdown None None (si_id site) loc raw0 r dm [] None db' = Inr rows \<and>
    map_of rows = map_of (rawRows (si_id site) dm (fst (Bounds loc r)) (snd (Bounds loc r)) [] db)"
proof -
  have inv: "hist_inv env X t old db s" using assms(1,2) by (rule anReach_inv)
  then have an: "an_inv (unixMilli t) old db" and dtx: "daysText db" by (simp_all add: hist_inv_def)
  note F = PurgeSvc_frame [OF assms(12)]
  have one: "oneDay loc (si_id site) db" using hist_inv_oneDay [OF inv assms(3,4)] assms(5,6) by simp
  obtain rows where b: "breakdown None None (si_id site) loc raw0 r dm [] None db' = Inr rows"
    using breakdown_returns by blast
  have "map_of rows = map_of (dayRaw loc (si_id site) dm (r_from r) (r_to r) db)"
  proof (rule breakdown_exact [OF assms(6) one an_invE(2) [OF an] _ assms(8,9,10,7) _ _ b])
    show "daysText db'" using dtx F by (simp add: daysText_def)
    show "exactDay loc (si_id site) db db' d" if "r_from r \<le> d" "d \<le> r_to r" "d < raw0" for d
      using assms(11) that F exactDay_cong by blast
    show "dayRaw loc (si_id site) dm a (r_to r) db' = dayRaw loc (si_id site) dm a (r_to r) db" if "r_from r \<le> a" "raw0 \<le> a" for a
      using dayRaw_purged [OF assms(6) an assms(12)] assms(13) that by simp
  qed
  then show ?thesis using b by (simp add: dayRaw_def Bounds_def)
qed

text \<open>C26 (invariant). Whatever beacons, site changes, purges, aggregate runs and restarts happened, every pageview belongs to
  exactly one visit; the pageviews of a visit are of one visitor of one site, follow each other with less than half an hour in
  between and end with the visit's last time and exit page; a visit that no purge has touched counts exactly its pageviews and
  starts with its first one; two visits of a visitor are at least half an hour apart; and there are at most twenty sites, of
  different domains.\<close>

theorem visits_partition_pageviews:
  assumes "anReach env q X t old db s" "qe_tz q = ae_tz env"
  shows "(\<forall>p\<in>set (pageviews db). \<exists>!v. v \<in> set (visits db) \<and> pr_visit p = Some (vr_id v)) \<and>
    (\<forall>v\<in>set (visits db).
       successively (\<lambda>p q. pr_ts p \<le> pr_ts q \<and> pr_ts q - pr_ts p < 30 * 60 * 1000) (views v db) \<and>
       (\<forall>p\<in>set (views v db). p_site (pr_view p) = vr_site v \<and> p_hash (pr_view p) = vr_hash v) \<and>
       (views v db \<noteq> [] \<longrightarrow> pr_ts (last (views v db)) = vr_last v \<and> p_path (pr_view (last (views v db))) = vr_exit v) \<and>
       (old \<le> vr_started v \<longrightarrow> int (length (views v db)) = vr_pageviews v \<and> pr_view (hd (views v db)) = vr_first v \<and> pr_ts (hd (views v db)) = vr_started v)) \<and>
    (\<forall>v\<in>set (visits db). \<forall>w\<in>set (visits db). v \<noteq> w \<and> vr_site v = vr_site w \<and> vr_hash v = vr_hash w \<longrightarrow>
       30 * 60 * 1000 \<le> vr_started w - vr_last v \<or> 30 * 60 * 1000 \<le> vr_started v - vr_last w) \<and>
    length (sites db) \<le> 20 \<and> distinct (map si_domain (sites db))"
proof -
  have "hist_inv env X t old db s" using assms by (rule anReach_inv)
  then have an: "an_inv (unixMilli t) old db" by (simp add: hist_inv_def)
  note I = an_invE [OF an]
  have ids: "v = w" if "v \<in> set (visits db)" "w \<in> set (visits db)" "vr_id v = vr_id w" for v w
    using that I(2) by (metis distinct_map inj_onD)
  have f: "successively (\<lambda>p q. pr_ts p \<le> pr_ts q \<and> pr_ts q - pr_ts p < 30 * 60 * 1000) = successively follows"
    by (intro arg_cong [where f = successively] ext) (auto simp: follows_def idleMs_eq)
  have "\<forall>v\<in>set (visits db). visitOk old v (views v db) \<and>
      successively (\<lambda>p q. pr_ts p \<le> pr_ts q \<and> pr_ts q - pr_ts p < 30 * 60 * 1000) (views v db)"
    using I(5) unfolding f by (auto simp: visitOk_def)
  moreover have "\<exists>!v. v \<in> set (visits db) \<and> pr_visit p = Some (vr_id v)" if "p \<in> set (pageviews db)" for p
    using I(4) [OF that] ids by fastforce
  moreover have "30 * 60 * 1000 \<le> vr_started w - vr_last v \<or> 30 * 60 * 1000 \<le> vr_started v - vr_last w"
    if "v \<in> set (visits db)" "w \<in> set (visits db)" "v \<noteq> w" "vr_site v = vr_site w" "vr_hash v = vr_hash w" for v w
    using I(6) [OF that(1,2)] ids that by (auto simp: apart_def idleMs_eq)
  ultimately show ?thesis using I(1) by (auto simp: visitOk_def sites_ok_def MaxSites_def)
qed


lemma countOf_count: "countOf k (CountCollect out s) = countOf k s + (if k = out then 1 else 0)"
  by (simp add: countOf_def CountCollect_def table_simps)

lemma collect_counts: "siteSvc fault now sid db s = (r, s') \<Longrightarrow> outcomes s' = outcomes s"
  by (auto simp: siteSvc_def SitesSvc_def split: option.splits sum.splits if_splits)

lemma collect_outcomes:
  assumes "collect env f now b ip ua origin (db, s) = (x, db', s')"
  shows "outcomes s' = outcomes s"
proof -
  obtain c good where n: "beaconNormalize (ae_uni env) b = (c, good)" by fastforce
  obtain r s1 where sv: "siteSvc (f_list f) now (b_site c) db s = (r, s1)" by fastforce
  have hash: "outcomes s2 = outcomes s1" if "visitorHash env (f_salt f) (f_saltRnd f) site ip ua now (db, s1) = (h, db2, s2)" for site h db2 s2
    using that by (auto simp: visitorHash_def dailySaltBase_def split: sum.splits prod.splits if_splits)
  show ?thesis
    using assms n sv collect_counts [OF sv] hash
    by (auto simp: collect_def split: if_splits sum.splits option.splits prod.splits)
qed

lemma pathOnly_clean: "CHR ''?'' \<notin> set (pathOnly u) \<and> CHR ''#'' \<notin> set (pathOnly u) \<and> length (pathOnly u) \<le> max 1 (length u)"
  using length_takeWhile_le [of "\<lambda>c. c \<noteq> CHR ''?'' \<and> c \<noteq> CHR ''#''" u]
  by (auto simp: pathOnly_def Let_def dest: set_takeWhileD)

lemma externalReferrer_other: "\<not> OriginMatchesSite uni (externalReferrer uni urlHost ref d) d"
  by (simp add: externalReferrer_def Let_def) (simp add: OriginMatchesSite_def toLower_def isAscii_def)

lemma capString_le: "length (capString s k) \<le> k"
  by (simp add: capString_def)

lemma normalize_fields: "b_site (fst (beaconNormalize uni b)) = trimSpace (b_site b)" "length (b_url (fst (beaconNormalize uni b))) \<le> 2048"
  using capString_le [of "trimSpace (b_url b)" BeaconMaxURLBytes] by (simp_all add: beaconNormalize_def Let_def BeaconMaxURLBytes_def)

text \<open>C28 (safety). In any state the service can be in, a beacon is stored only when it names a registered site, its Origin is the
  site's domain or www. plus it, and the user agent is no known bot; what is stored is one pageview of that site at the time of
  the request, with a path of at most 2048 bytes and no query string or fragment, a referrer that is not the site itself, and
  as visitor the digest under the stored salt. Any other beacon changes no site, pageview, visit or aggregate. Either way
  exactly one outcome is counted, as stored exactly when it was stored.\<close>

theorem collect_stores_own_traffic:
  assumes "anReach env q X t old db s" "qe_tz q = ae_tz env" "Collect env f now b ip ua origin (db, s) = ((stored, err), db', s')"
  shows "(stored \<longrightarrow> (\<exists>site base r.
      site \<in> set (sites db) \<and> si_id site = trimSpace (b_site b) \<and> OriginMatchesSite (ae_uni env) origin (si_domain site) \<and> \<not> isBotUA (ae_uni env) ua \<and>
      pageviews db' = pageviews db @ [r] \<and> pr_ts r = unixMilli now \<and> p_site (pr_view r) = si_id site \<and>
      CHR ''?'' \<notin> set (p_path (pr_view r)) \<and> CHR ''#'' \<notin> set (p_path (pr_view r)) \<and> length (p_path (pr_view r)) \<le> 2048 \<and>
      \<not> OriginMatchesSite (ae_uni env) (p_referrer (pr_view r)) (si_domain site) \<and>
      saltBase db' = Some base \<and> p_hash (pr_view r) = visitorId env base site ip ua now)) \<and>
    (\<not> stored \<longrightarrow> sites db' = sites db \<and> visits db' = visits db \<and> pageviews db' = pageviews db \<and> dailies db' = dailies db) \<and>
    (\<exists>out\<in>set collectOutcomes. (stored \<longleftrightarrow> out = ''stored'') \<and> (\<forall>k. countOf k s' = countOf k s + (if k = out then 1 else 0)))"
proof -
  have "svc_ok db s" using anReach_inv [OF assms(1,2)] by (simp add: hist_inv_def)
  obtain outcome s1 where p: "collect env f now b ip ua origin (db, s) = ((stored, outcome, err), db', s1)" and s': "s' = CountCollect outcome s1"
    using assms(3) by (auto simp: Collect_def split: prod.splits)
  note C = collect_ok [OF \<open>svc_ok db s\<close> p]
  have cnt: "countOf k s' = countOf k s + (if k = outcome then 1 else 0)" for k
    using collect_outcomes [OF p] countOf_count by (simp add: s' countOf_def CountCollect_def table_simps)
  have "\<exists>site base r.
      site \<in> set (sites db) \<and> si_id site = trimSpace (b_site b) \<and> OriginMatchesSite (ae_uni env) origin (si_domain site) \<and> \<not> isBotUA (ae_uni env) ua \<and>
      pageviews db' = pageviews db @ [r] \<and> pr_ts r = unixMilli now \<and> p_site (pr_view r) = si_id site \<and>
      CHR ''?'' \<notin> set (p_path (pr_view r)) \<and> CHR ''#'' \<notin> set (p_path (pr_view r)) \<and> length (p_path (pr_view r)) \<le> 2048 \<and>
      \<not> OriginMatchesSite (ae_uni env) (p_referrer (pr_view r)) (si_domain site) \<and>
      saltBase db' = Some base \<and> p_hash (pr_view r) = visitorId env base site ip ua now" if stored
  proof -
    obtain site base p v where st: "storedFrom env now b ip ua origin (f_visitRnd f) db db' site base p v" using C(4) \<open>stored\<close> by blast
    then have rec: "RecordPageview None (f_visitRnd f) p v (db\<lparr>saltBase := Some base\<rparr>) = (Inr (), db')"
      and d: "derived env (fst (beaconNormalize (ae_uni env) b)) site (visitorId env base site ip ua now) ip ua origin now = (p, v)"
      by (simp_all add: storedFrom_def)
    note K = derived_keys [OF d]
    obtain i vid where r: "pageviews db' = pageviews db @ [\<lparr>pr_id = i, pr_ts = unixMilli (p_ts p), pr_visit = Some vid, pr_view = p\<rparr>]"
      using RecordPageview_rows [OF rec] by auto
    show ?thesis
      by (rule exI [of _ site], rule exI [of _ base], rule exI [of _ "\<lparr>pr_id = i, pr_ts = unixMilli (p_ts p), pr_visit = Some vid, pr_view = p\<rparr>"])
        (use st r pathOnly_clean [of "b_url (fst (beaconNormalize (ae_uni env) b))"] normalize_fields [of "ae_uni env" b] in
          \<open>auto simp: storedFrom_def K externalReferrer_other\<close>)
  qed
  moreover have "sites db' = sites db \<and> visits db' = visits db \<and> pageviews db' = pageviews db \<and> dailies db' = dailies db" if "\<not> stored"
  proof -
    have eq: "db' = db\<lparr>saltBase := saltBase db'\<rparr>" using C(5) that by simp
    show ?thesis by (simp add: arg_cong [OF eq, of sites] arg_cong [OF eq, of visits] arg_cong [OF eq, of pageviews] arg_cong [OF eq, of dailies])
  qed
  ultimately show ?thesis using cnt C(2,3) by blast
qed


subsection \<open>What an aggregate run does to a day\<close>

definition dayOfSite :: "string \<Rightarrow> civilDay \<Rightarrow> andb \<Rightarrow> daily list" where
  "dayOfSite sid d db = filter (\<lambda>x. da_site x = sid \<and> da_day x = dayString d) (dailies db)"

lemma exactDay_eq: "exactDay loc sid full db d \<longleftrightarrow> dayOfSite sid d db = dayRows sid d (Start loc d) (Start loc (d + 1)) full"
  by (simp add: exactDay_def dayOfSite_def)

lemma dayRows_dailies [simp]: "dayRows sid d t0 t1 (db\<lparr>dailies := ds\<rparr>) = dayRows sid d t0 t1 db"
proof -
  have "visitsIn sid t0 t1 [] (db\<lparr>dailies := ds\<rparr>) = visitsIn sid t0 t1 [] db" by (simp add: visitsIn_def filterVisit_def)
  moreover have "pagesIn sid t0 t1 [] (db\<lparr>dailies := ds\<rparr>) = pagesIn sid t0 t1 [] db" by (simp add: pagesIn_def joined_def)
  ultimately have "rawRows sid dm t0 t1 [] (db\<lparr>dailies := ds\<rparr>) = rawRows sid dm t0 t1 [] db" for dm by (simp add: rawRows_def)
  then show ?thesis unfolding dayRows_def by presburger
qed

lemma RefreshDay_exact: "RefreshDay None sid d t0 t1 db = (Inr (), db') \<Longrightarrow> dayOfSite sid d db' = dayRows sid d t0 t1 db"
  by (auto simp: RefreshDay_def dayOfSite_def filter_empty_conv filter_id_conv dest: dayRows_day)

lemma RefreshDay_other:
  assumes "RefreshDay fault sid d t0 t1 db = (r, db')" "sid' \<noteq> sid \<or> dayString e \<noteq> dayString d"
  shows "dayOfSite sid' e db' = dayOfSite sid' e db"
proof -
  have "filter (\<lambda>x. da_site x = sid' \<and> da_day x = dayString e) (dayRows sid d t0 t1 db) = []"
    using assms(2) by (auto simp: filter_empty_conv dest!: dayRows_day)
  moreover have "filter (\<lambda>x. da_site x = sid' \<and> da_day x = dayString e) (filter (\<lambda>x. \<not> (da_site x = sid \<and> da_day x = dayString d)) (dailies db)) =
      filter (\<lambda>x. da_site x = sid' \<and> da_day x = dayString e) (dailies db)"
    by (rule filter_kept) (use assms(2) in auto)
  ultimately show ?thesis using assms(1) by (auto simp: RefreshDay_def dayOfSite_def simp del: filter_filter split: option.splits)
qed

lemma rollupDays_other:
  "rollupDays faults loc sid done today d db = (r, db') \<Longrightarrow>
   sid' \<noteq> sid \<or> (\<forall>i. d \<le> i \<and> i \<le> today \<and> \<not> (dayString i \<in> set done \<and> i < today - 1) \<longrightarrow> dayString e \<noteq> dayString i) \<Longrightarrow>
   dayOfSite sid' e db' = dayOfSite sid' e db"
proof (induction "nat (today + 1 - d)" arbitrary: d db)
  case 0
  then show ?case by (subst (asm) rollupDays_unfold) auto
next
  case (Suc n)
  have d: "\<not> today < d" using Suc(2) by simp
  note IH = Suc(1) [of "d + 1"]
  have n: "n = nat (today + 1 - (d + 1))" using Suc(2) by simp
  have rest: "sid' \<noteq> sid \<or> (\<forall>i. d + 1 \<le> i \<and> i \<le> today \<and> \<not> (dayString i \<in> set done \<and> i < today - 1) \<longrightarrow> dayString e \<noteq> dayString i)"
  proof -
    have "d \<le> i" if "d + 1 \<le> i" for i using that by simp
    then show ?thesis using Suc.prems(2) by blast
  qed
  show ?case
  proof (cases "dayString d \<in> set done \<and> d < today - 1")
    case True
    then show ?thesis using Suc.prems(1) IH [OF n _ rest] d by (subst (asm) rollupDays_unfold) auto
  next
    case False
    obtain r1 db1 where p: "RefreshDay (faults d) sid d (Start loc d) (Start loc (d + 1)) db = (r1, db1)" by fastforce
    have o: "dayOfSite sid' e db1 = dayOfSite sid' e db" using Suc.prems(2) False d by (intro RefreshDay_other [OF p]) auto
    have "db' = db1 \<or> rollupDays faults loc sid done today (d + 1) db1 = (r, db')"
      using Suc.prems(1) p False d by (subst (asm) rollupDays_unfold) (auto split: sum.splits)
    then show ?thesis using o IH [OF n _ rest, of db1] by auto
  qed
qed

lemma rollupDays_exact:
  assumes "rollupDays faults loc sid done today d db = (Inr (), db')" "textYear d" "textYear today" "d \<le> e" "e \<le> today"
    "\<not> (dayString e \<in> set done \<and> e < today - 1)"
  shows "exactDay loc sid db db' e"
  using assms
proof (induction "nat (today + 1 - d)" arbitrary: d db)
  case (Suc n)
  have d: "\<not> today < d" using Suc(2) by simp
  have n: "n = nat (today + 1 - (d + 1))" using Suc(2) by simp
  have ty: "textYear i" if "d \<le> i" "i \<le> today" for i using that by (rule textYear_between [OF Suc.prems(2,3)])
  obtain r1 db1 where p: "RefreshDay (faults d) sid d (Start loc d) (Start loc (d + 1)) db = (r1, db1)" by fastforce
  show ?case
  proof (cases "dayString d \<in> set done \<and> d < today - 1")
    case True
    then have "rollupDays faults loc sid done today (d + 1) db = (Inr (), db')" using Suc.prems(1) d by (subst (asm) rollupDays_unfold) auto
    moreover have "d \<noteq> e" using True Suc.prems(6) by auto
    ultimately show ?thesis using Suc(1) [OF n] Suc.prems ty True by (simp add: zless_imp_add1_zle)
  next
    case False
    have r: "r1 = Inr ()" "rollupDays faults loc sid done today (d + 1) db1 = (Inr (), db')"
      using Suc.prems(1) p False d by (subst (asm) rollupDays_unfold, auto split: sum.splits)+
    obtain ds where db1: "db1 = db\<lparr>dailies := ds\<rparr>" using RefreshDay_frame [OF p] by blast
    show ?thesis
    proof (cases "d = e")
      case True
      have "faults d = None" using p r(1) by (auto simp: RefreshDay_def split: option.splits)
      then have "dayOfSite sid d db1 = dayRows sid d (Start loc d) (Start loc (d + 1)) db" using RefreshDay_exact p r(1) by simp
      moreover have "dayOfSite sid d db' = dayOfSite sid d db1"
        by (rule rollupDays_other [OF r(2)]) (use ty d in \<open>auto simp: dayString_inj\<close>)
      ultimately show ?thesis using True by (simp add: exactDay_eq)
    next
      case False
      then have "exactDay loc sid db1 db' e" using Suc(1) [OF n r(2)] Suc.prems ty by simp
      then show ?thesis by (simp add: exactDay_eq db1)
    qed
  qed
qed simp


lemma AggregatedDays_iff:
  assumes "AggregatedDays fault sid a b db = Inr done" "textYear a" "textYear b" "a \<le> d" "d \<le> b"
  shows "dayString d \<in> set done \<longleftrightarrow> dayOfSite sid d db \<noteq> []"
proof -
  have "textYear d" using assms(4,5) by (rule textYear_between [OF assms(2,3)])
  then have "dayString a \<le> dayString d" "dayString d \<le> dayString b" using assms by (simp_all add: dayString_le_iff)
  then show ?thesis
    using assms(1) by (auto simp: AggregatedDays_def dayOfSite_def filter_empty_conv image_iff split: option.splits; metis)
qed

lemma rollupSite_other:
  assumes "rollupSite q f now s db = (r, db')" "sid \<noteq> si_id s"
  shows "dayOfSite sid e db' = dayOfSite sid e db"
  using rollupSite_cases [OF assms(1)] rollupDays_other assms(2) by blast

lemma rollupSite_spec:
  assumes run: "rollupSite q f now s db = (Inr (), db')" and env: "hash_inv env X db" "clockOk env now" "qe_tz q = ae_tz env"
    and loc: "loc = Location (qe_tz q) s" "zone_ok loc" and v: "v \<in> set (visits db)" "vr_site v = si_id s"
    and d: "dayAt loc (vr_started v) \<le> d" "rawFrom (qe_retention q) now loc \<le> d" "d \<le> DayOf now loc"
  shows "if dayOfSite (si_id s) d db = [] \<or> DayOf now loc - 1 \<le> d then exactDay loc (si_id s) db db' d else dayOfSite (si_id s) d db' = dayOfSite (si_id s) d db"
proof -
  let ?today = "DayOf now loc"
  define ts where "ts = map vr_started (filter (\<lambda>v. vr_site v = si_id s) (visits db))"
  have m: "vr_started v \<in> set ts" using v by (simp add: ts_def)
  then have "Min (set ts) \<le> vr_started v" by simp
  then have d0: "DayOf (ofMilli (Min (set ts))) loc \<le> d" using dayAt_mono [OF loc(2)] d(1) by (force simp: dayAt_def)
  define a where "a = (if DayOf (ofMilli (Min (set ts))) loc < rawFrom (qe_retention q) now loc then rawFrom (qe_retention q) now loc else DayOf (ofMilli (Min (set ts))) loc)"
  have a: "a \<le> d" "DayOf (ofMilli (Min (set ts))) loc \<le> a" using d0 d(2) by (auto simp: a_def)
  have first: "FirstVisit None (si_id s) db = Inr (Some (ofMilli (Min (set ts))))"
    using m by (simp add: FirstVisit_def ts_def [symmetric] Let_def) auto
  have "\<exists>done. AggregatedDays None (si_id s) a ?today db = Inr done \<and> rollupDays (rf_refresh f) loc (si_id s) done ?today a db = (Inr (), db')"
    using run first m
    by (cases "rf_first f"; cases "rf_days f")
      (auto simp: rollupSite_def Let_def loc(1) FirstVisit_def AggregatedDays_def a_def ts_def [symmetric] split: if_splits)
  then obtain "done" where dn: "AggregatedDays None (si_id s) a ?today db = Inr done"
    and go: "rollupDays (rf_refresh f) loc (si_id s) done ?today a db = (Inr (), db')" by blast
  have today: "textYear ?today" using env(2,3) loc(1) by (simp add: clockOk_def)
  have t0: "textYear (DayOf (ofMilli (Min (set ts))) loc)" using FirstVisit_text [OF env(1) first] env(3) loc(1) by simp
  have ty: "textYear a" using a d(3) by (intro textYear_between [OF t0 today]) auto
  have done_iff: "dayString i \<in> set done \<longleftrightarrow> dayOfSite (si_id s) i db \<noteq> []" if "a \<le> i" "i \<le> ?today" for i
    using AggregatedDays_iff [OF dn ty today that] .
  show ?thesis
  proof (cases "dayOfSite (si_id s) d db = [] \<or> ?today - 1 \<le> d")
    case True
    then show ?thesis using rollupDays_exact [OF go ty today a(1) d(3)] done_iff [OF a(1) d(3)] by auto
  next
    case False
    have "textYear i" if "a \<le> i" "i \<le> ?today" for i using that by (rule textYear_between [OF ty today])
    then have "dayString d \<noteq> dayString i" if "a \<le> i \<and> i \<le> ?today \<and> \<not> (dayString i \<in> set done \<and> i < ?today - 1)" for i
      using that False done_iff a(1) d(3) by (auto simp: dayString_inj)
    then have "dayOfSite (si_id s) d db' = dayOfSite (si_id s) d db" by (intro rollupDays_other [OF go]) blast
    then show ?thesis using False by simp
  qed
qed


lemma exactDay_dailies: "exactDay loc sid (full\<lparr>dailies := ds\<rparr>) db d = exactDay loc sid full db d"
  by (simp add: exactDay_def)

lemma rollupSites_other:
  "rollupSites q fs now ss db = (r, db') \<Longrightarrow> sid \<notin> si_id ` set ss \<Longrightarrow> dayOfSite sid e db' = dayOfSite sid e db"
proof (induction ss arbitrary: db)
  case (Cons s ss)
  obtain r1 db1 where p: "rollupSite q (fs (si_id s)) now s db = (r1, db1)" by fastforce
  then show ?case using Cons rollupSite_other [OF p, of sid e] by (cases r1) auto
qed simp

lemma rollupSites_spec:
  assumes "rollupSites q fs now ss db = (Inr (), db')" "distinct (map si_id ss)" "s \<in> set ss"
    and env: "hash_inv env X db" "clockOk env now" "qe_tz q = ae_tz env"
    and loc: "loc = Location (qe_tz q) s" "zone_ok loc" and v: "v \<in> set (visits db)" "vr_site v = si_id s"
    and d: "dayAt loc (vr_started v) \<le> d" "rawFrom (qe_retention q) now loc \<le> d" "d \<le> DayOf now loc"
  shows "if dayOfSite (si_id s) d db = [] \<or> DayOf now loc - 1 \<le> d then exactDay loc (si_id s) db db' d else dayOfSite (si_id s) d db' = dayOfSite (si_id s) d db"
  using assms(1-3) env(1) v(1)
proof (induction ss arbitrary: db)
  case (Cons x ss)
  obtain r1 db1 where p: "rollupSite q (fs (si_id x)) now x db = (r1, db1)" by fastforce
  then have r: "r1 = Inr ()" "rollupSites q fs now ss db1 = (Inr (), db')" using Cons.prems(1) by (cases r1, auto)+
  obtain ds where db1: "db1 = db\<lparr>dailies := ds\<rparr>" using rollupSite_text [OF p env(2,3) Cons.prems(4)] by blast
  show ?case
  proof (cases "x = s")
    case True
    have "si_id s \<notin> si_id ` set ss" using Cons.prems(2) True by auto
    then have e: "dayOfSite (si_id s) d db' = dayOfSite (si_id s) d db1" by (rule rollupSites_other [OF r(2)])
    have "rollupSite q (fs (si_id s)) now s db = (Inr (), db1)" using p r(1) True by simp
    then show ?thesis
      using rollupSite_spec [OF _ Cons.prems(4) env(2,3) loc Cons.prems(5) v(2) d, of "fs (si_id s)" db1] unfolding exactDay_eq e by blast
  next
    case False
    then have s: "s \<in> set ss" using Cons.prems(3) by simp
    then have "si_id s \<noteq> si_id x" using Cons.prems(2) by (metis distinct.simps(2) image_eqI list.simps(9) list.set_map)
    then have e: "dayOfSite (si_id s) d db1 = dayOfSite (si_id s) d db" by (rule rollupSite_other [OF p])
    have x: "exactDay loc (si_id s) db1 db' d = exactDay loc (si_id s) db db' d" unfolding db1 by (rule exactDay_dailies)
    have "hash_inv env X db1" "v \<in> set (visits db1)" "distinct (map si_id ss)" using Cons.prems(2,4,5) by (simp_all add: db1)
    then show ?thesis using Cons.IH [OF r(2) _ s] unfolding e x by blast
  qed
qed simp

lemma AnRollup_spec:
  assumes "anReach env q X t old db s" "qe_tz q = ae_tz env" "clockOk env now" "AnRollup q f1 fs f2 now db = (Inr (), db')"
    and "site \<in> set (sites db)" "loc = Location (ae_tz env) site" "zone_ok loc"
    and "v \<in> set (visits db)" "vr_site v = si_id site" "dayAt loc (vr_started v) \<le> d"
    and "rawFrom (qe_retention q) now loc \<le> d" "d \<le> DayOf now loc" "\<not> dayString d < dayString (addDate 0 (- 25) 0 (DayOf now utc))"
  shows "if dayOfSite (si_id site) d db = [] \<or> DayOf now loc - 1 \<le> d then exactDay loc (si_id site) db db' d
    else dayOfSite (si_id site) d db' = dayOfSite (si_id site) d db"
proof -
  have inv: "hist_inv env X t old db s" using assms(1,2) by (rule anReach_inv)
  then have h: "hash_inv env X db" and ids: "distinct (map si_id (sites db))" by (auto simp: hist_inv_def an_inv_def sites_ok_def)
  obtain ss where ss: "ListSites None db = Inr ss" "f1 = None" using assms(4) by (cases f1) (auto simp: AnRollup_def ListSites_def)
  have mss: "mset ss = mset (sites db)" using ss by (auto simp: ListSites_def)
  then have "distinct (map si_id ss)" "site \<in> set ss"
    using ids assms(5) by (metis mset_map mset_eq_imp_distinct_iff, metis mset_eq_setD)
  obtain r1 db1 where p: "rollupSites q fs now ss db = (r1, db1)" by fastforce
  have "r1 = Inr () \<and> db' = db1\<lparr>dailies := filter (\<lambda>x. \<not> da_day x < dayString (addDate 0 (- 25) 0 (DayOf now utc))) (dailies db1)\<rparr>"
    using assms(4) ss p by (auto simp: AnRollup_def PurgeDaily_def MaxHistoryMonths_def split: sum.splits option.splits)
  then have r: "r1 = Inr ()" and db': "dayOfSite (si_id site) d db' = dayOfSite (si_id site) d db1"
    using assms(13) by (auto simp: dayOfSite_def intro!: filter_cong)
  have "if dayOfSite (si_id site) d db = [] \<or> DayOf now loc - 1 \<le> d then exactDay loc (si_id site) db db1 d
    else dayOfSite (si_id site) d db1 = dayOfSite (si_id site) d db"
    by (rule rollupSites_spec [OF _ \<open>distinct (map si_id ss)\<close> \<open>site \<in> set ss\<close> h assms(3,2) _ assms(7-12)]) (use p r assms(2,6) in simp_all)
  then show ?thesis unfolding exactDay_eq db' .
qed

text \<open>A completed aggregate run on any reachable state: for every site and every day from its first stored visit on
  that the raw rows hold whole and that is at most 25 months old, the aggregates of the day are afterwards exactly the breakdowns of
  the raw rows, by every dimension, if the day is today or yesterday or had no aggregates; the aggregates of an older day that
  has some are left as they are, up to date or not.\<close>

lemma Rollup_refreshes_days:
  assumes "anReach env q X t old db s" "qe_tz q = ae_tz env" "clockOk env now" "AnRollup q f1 fs f2 now db = (Inr (), db')"
    and "site \<in> set (sites db)" "loc = Location (ae_tz env) site" "zone_ok loc"
    and "v \<in> set (visits db)" "vr_site v = si_id site" "dayAt loc (vr_started v) \<le> d"
    and "rawFrom (qe_retention q) now loc \<le> d" "d \<le> DayOf now loc" "\<not> dayString d < dayString (addDate 0 (- 25) 0 (DayOf now utc))"
  shows "if dayOfSite (si_id site) d db = [] \<or> DayOf now loc - 1 \<le> d then exactDay loc (si_id site) db db' d
    else dayOfSite (si_id site) d db' = dayOfSite (si_id site) d db"
  by (rule AnRollup_spec [OF assms])


subsection \<open>A small history\<close>

text \<open>A site in Moscow with one visitor, as an instance of the theorems.\<close>

definition demoTime :: time where "demoTime = 1704106800 * second"
definition demoDayInput :: string where "demoDayInput = ''salt|2024-01-01''"

definition demoZone :: location where "demoZone _ = 3 * hour"

definition demoEnv :: anenv where
  "demoEnv = \<lparr>ae_uni = id, ae_tz = (\<lambda>z. if z = ''Europe/Moscow'' then Some demoZone else None), ae_urlHost = (\<lambda>_. None),
     ae_sha = (\<lambda>x. if x = demoDayInput then replicate 64 (CHR ''a'') else replicate 64 (CHR ''b'')), ae_geo = (\<lambda>_. ([], [])), ae_retention = 30 * day\<rparr>"

definition demoQuery :: qenv where
  "demoQuery = \<lparr>qe_tz = ae_tz demoEnv, qe_retention = 30 * day, qe_quote = id, qe_rfc3339 = (\<lambda>_ _. []), qe_exceeded = (\<lambda>_. False)\<rparr>"

definition demoSite :: site where
  "demoSite = \<lparr>si_id = ''s1'', si_name = ''Shop'', si_domain = ''shop.ru'', si_timezone = ''Europe/Moscow'', si_created = demoTime\<rparr>"

definition demoBeacon :: beacon where
  "demoBeacon = \<lparr>b_site = ''s1'', b_url = ''/a?q'', b_referrer = [], b_v = 2,
     b_utm = \<lparr>u_source = [], u_medium = [], u_campaign = [], u_content = [], u_term = []\<rparr>, b_paid = False, b_width = 0, b_hostname = []\<rparr>"

definition demoFaults :: anfaults where
  "demoFaults = \<lparr>f_list = None, f_salt = None, f_record = None, f_saltRnd = Some ''salt'', f_visitRnd = Some ''v1''\<rparr>"

definition demoView :: pageview where
  "demoView = \<lparr>p_site = ''s1'', p_ts = demoTime, p_path = ''/a'', p_referrer = [], p_hash = replicate 32 (CHR ''b''),
     p_browser = ''Other'', p_os = ''Other'', p_device = ''desktop'', p_hostname = ''shop.ru''\<rparr>"

definition demoInfo :: visit where
  "demoInfo = \<lparr>v_source = [], v_channel = ''direct'', v_utm = b_utm demoBeacon, v_paid = False, v_country = [], v_region = [],
     v_browserVersion = [], v_osVersion = [], v_screen = []\<rparr>"

definition demoTables :: andb where
  "demoTables = \<lparr>sites = [demoSite],
     pageviews = [\<lparr>pr_id = 1, pr_ts = 1704106800000, pr_visit = Some ''v1'', pr_view = demoView\<rparr>],
     visits = [\<lparr>vr_id = ''v1'', vr_started = 1704106800000, vr_last = 1704106800000, vr_exit = ''/a'', vr_pageviews = 1, vr_first = demoView, vr_info = demoInfo\<rparr>],
     dailies = [], nextPageview = 2, saltBase = Some ''salt''\<rparr>"

definition demoSvc :: ansvc where
  "demoSvc = \<lparr>cachedSites = Some [demoSite], cachedAt = demoTime, cachedSalt = ''salt'', outcomes = [(''stored'', 1)]\<rparr>"

definition demoInputs :: "string set" where
  "demoInputs = hashInputs demoEnv ''salt'' demoSite ''ip'' ''ua'' demoTime"

lemmas demo_defs = demoEnv_def demoSite_def demoBeacon_def demoFaults_def

lemma demo_plain: "trimSpace ''Shop'' = ''Shop''" "trimSpace ''shop.ru'' = ''shop.ru''" "trimSpace ''s1'' = ''s1''" "trimSpace ''/a?q'' = ''/a?q''"
  by (rule trimSpace_plain, simp add: byte_def)+

lemma demo_lower: "toLower id ''shop.ru'' = ''shop.ru''" "toLower id ''ua'' = ''ua''" "toLower id [] = []"
  by code_simp+

lemma demo_site:
  "siteValidate id (ae_tz demoEnv) \<lparr>ns_name = ''Shop'', ns_domain = ''shop.ru'', ns_timezone = []\<rparr> =
     Inr \<lparr>ns_name = ''Shop'', ns_domain = ''shop.ru'', ns_timezone = ''Europe/Moscow''\<rparr>"
proof -
  have "\<not> containsAny ''shop.ru'' [CHR '' '', CHR ''/'', char_of (92::nat), CHR ''@'', CHR '':'']" by code_simp
  then show ?thesis by (simp add: siteValidate_def demo_plain demo_lower demoEnv_def DefaultTimezone_def SiteMaxNameBytes_def MaxDomainBytes_def Let_def)
qed

lemma demo_create:
  "CreateSiteSvc demoEnv None (Some ''s1'') demoTime \<lparr>ns_name = ''Shop'', ns_domain = ''shop.ru'', ns_timezone = []\<rparr> (emptyTables, NewService) =
     (Inr demoSite, emptyTables\<lparr>sites := [demoSite]\<rparr>, NewService)"
proof -
  have "truncateTo millisecond demoTime = demoTime" by code_simp
  then show ?thesis
    using demo_site by (simp add: CreateSiteSvc_def CreateSite_def demoEnv_def demoSite_def NewService_def resetSites_def MaxSites_def emptyTables_def Let_def)
qed

lemma demo_beacon: "beaconNormalize id demoBeacon = (demoBeacon, True)"
  by (simp add: beaconNormalize_def demoBeacon_def demo_plain demo_lower utmValue_def capString_def BeaconMaxURLBytes_def MaxReferrerBytes_def MaxDomainBytes_def)

lemma demo_agent: "\<not> isBotUA id ''ua''" "parseUserAgent id ''ua'' = (''Other'', ''Other'', ''desktop'')" "uaVersions id ''ua'' ''Other'' ''Other'' = ([], [])"
  by code_simp+

lemma demo_channel: "classify id [] (b_utm demoBeacon) False = ([], ''direct'')"
  by code_simp

lemma demo_day: "dayString (DayOf demoTime demoZone) = ''2024-01-01''"
  by code_simp

lemma demo_visitor: "visitorId demoEnv ''salt'' demoSite ''ip'' ''ua'' demoTime = replicate 32 (CHR ''b'')"
  using demo_day by (simp add: visitorId_def Location_def demoEnv_def demoSite_def demoDayInput_def)

lemma demo_derived: "derived demoEnv demoBeacon demoSite h ''ip'' ''ua'' ''shop.ru'' demoTime = (demoView\<lparr>p_hash := h\<rparr>, demoInfo)"
  using demo_channel
  by (simp add: derived_def demo_agent demo_lower demo_defs demoView_def demoInfo_def externalReferrer_def referrerDomain_def OriginMatchesSite_def pathOnly_def ScreenGroup_def)

lemma demo_collect:
  "Collect demoEnv demoFaults demoTime demoBeacon ''ip'' ''ua'' ''shop.ru'' (emptyTables\<lparr>sites := [demoSite]\<rparr>, NewService) =
     ((True, None), demoTables, demoSvc)"
proof -
  have sid: "b_site demoBeacon = ''s1''" by (simp add: demoBeacon_def)
  have uni: "ae_uni demoEnv = id" by (simp add: demoEnv_def)
  have s: "siteSvc None demoTime ''s1'' (emptyTables\<lparr>sites := [demoSite]\<rparr>) NewService = (Inr (Some demoSite), NewService\<lparr>cachedSites := Some [demoSite], cachedAt := demoTime\<rparr>)"
    by (simp add: siteSvc_def SitesSvc_def NewService_def ListSites_def demoSite_def)
  have o': "OriginMatchesSite id ''shop.ru'' (si_domain demoSite)" by (simp add: OriginMatchesSite_def demo_lower demoSite_def)
  have h: "visitorHash demoEnv None (Some ''salt'') demoSite ''ip'' ''ua'' demoTime (emptyTables\<lparr>sites := [demoSite]\<rparr>, NewService\<lparr>cachedSites := Some [demoSite], cachedAt := demoTime\<rparr>) =
      (Inr (replicate 32 (CHR ''b'')), emptyTables\<lparr>sites := [demoSite], saltBase := Some ''salt''\<rparr>,
       NewService\<lparr>cachedSites := Some [demoSite], cachedAt := demoTime, cachedSalt := ''salt''\<rparr>)"
    by (simp add: visitorHash_def dailySaltBase_def NewService_def DailySaltBase_def emptyTables_def demo_visitor)
  have r: "RecordPageview None (Some ''v1'') demoView demoInfo (emptyTables\<lparr>sites := [demoSite], saltBase := Some ''salt''\<rparr>) = (Inr (), demoTables)"
    by (simp add: RecordPageview_def emptyTables_def demoTables_def openVisit_def demoView_def unixMilli_def demoTime_def demoSite_def)
  have v: "demoView\<lparr>p_hash := replicate 32 (CHR ''b'')\<rparr> = demoView" by (simp add: demoView_def)
  have "collect demoEnv demoFaults demoTime demoBeacon ''ip'' ''ua'' ''shop.ru'' (emptyTables\<lparr>sites := [demoSite]\<rparr>, NewService) =
      ((True, ''stored'', None), demoTables, NewService\<lparr>cachedSites := Some [demoSite], cachedAt := demoTime, cachedSalt := ''salt''\<rparr>)"
    using s o' h r demo_beacon sid by (simp add: collect_def uni demo_agent demo_derived v demoFaults_def)
  then show ?thesis by (simp add: Collect_def CountCollect_def demoSvc_def NewService_def countOf_def)
qed

lemma demo_zone: "Location (ae_tz demoEnv) demoSite = demoZone" "zone_ok demoZone"
proof -
  have z: "demoZone = (\<lambda>_. 3 * hour)" by (simp add: demoZone_def fun_eq_iff)
  show "zone_ok demoZone" unfolding z by (rule zone_ok_fixed) simp
  show "Location (ae_tz demoEnv) demoSite = demoZone" by (simp add: Location_def demoEnv_def demoSite_def)
qed

lemma demo_clock: "clockOk demoEnv demoTime"
proof -
  have z: "Location (ae_tz demoEnv) s = demoZone \<or> Location (ae_tz demoEnv) s = utc" for s by (simp add: Location_def demoEnv_def)
  have "textYear (DayOf demoTime demoZone) \<and> textYear (dayAt demoZone (unixMilli demoTime))"
    "textYear (DayOf demoTime utc) \<and> textYear (dayAt utc (unixMilli demoTime))" by code_simp+
  then show ?thesis unfolding clockOk_def using z by metis
qed

lemma demo_history: "anReach demoEnv demoQuery demoInputs demoTime 0 demoTables demoSvc"
proof -
  have "anReach demoEnv demoQuery demoInputs demoTime 0 (emptyTables\<lparr>sites := [demoSite]\<rparr>) NewService"
    using anReach.create [OF anReach.start order.refl demo_create] .
  then show ?thesis
    by (rule anReach.collect [OF _ order.refl _ demo_collect]) (use demo_clock in \<open>auto simp: demoInputs_def demoTables_def\<close>)
qed

lemma demo_sha: "sha_ok demoEnv demoInputs"
proof -
  have d: "dayInput demoEnv ''salt'' demoSite demoTime = demoDayInput"
    using demo_day by (simp add: dayInput_def demo_zone demoDayInput_def)
  have v: "visitorInput demoEnv ''salt'' demoSite ''ip'' ''ua'' demoTime \<noteq> demoDayInput"
    by (simp add: visitorInput_def d) (simp add: demoEnv_def demoDayInput_def demoSite_def eval_nat_numeral)
  show ?thesis using d v by (auto simp: sha_ok_def demoInputs_def hashInputs_def inj_on_def demoEnv_def eval_nat_numeral)
qed

text \<open>Without failing statements an aggregate run always ends well.\<close>

definition noFaults :: rollupFaults where "noFaults = \<lparr>rf_first = None, rf_days = None, rf_refresh = (\<lambda>_. None)\<rparr>"

lemma rollupDays_returns: "\<exists>db'. rollupDays (\<lambda>_. None) loc sid done today d db = (Inr (), db')"
proof (induction "nat (today + 1 - d)" arbitrary: d db)
  case 0
  then show ?case by (subst rollupDays_unfold) simp
next
  case (Suc n)
  have "n = nat (today + 1 - (d + 1))" using Suc(2) by simp
  then show ?case using Suc(1) [of "d + 1"] by (subst rollupDays_unfold) (auto simp: RefreshDay_def)
qed

lemma rollupSite_returns: "\<exists>db'. rollupSite q noFaults now s db = (Inr (), db')"
  using rollupDays_returns by (auto simp: rollupSite_def noFaults_def Let_def FirstVisit_def AggregatedDays_def)

lemma rollupSites_returns: "\<exists>db'. rollupSites q (\<lambda>_. noFaults) now ss db = (Inr (), db')"
proof (induction ss arbitrary: db)
  case (Cons s ss)
  obtain db1 where "rollupSite q noFaults now s db = (Inr (), db1)" using rollupSite_returns by blast
  then show ?case using Cons [of db1] by simp
qed simp

lemma AnRollup_returns: "fst (AnRollup q None (\<lambda>_. noFaults) None now db) = Inr ()"
proof -
  obtain db1 where "rollupSites q (\<lambda>_. noFaults) now (sort_key si_name (sort_key si_id (sites db))) db = (Inr (), db1)"
    using rollupSites_returns by blast
  then show ?thesis by (simp add: AnRollup_def ListSites_def PurgeDaily_def)
qed

definition demoDaily :: andb where
  "demoDaily = snd (AnRollup demoQuery None (\<lambda>_. noFaults) None demoTime demoTables)"

lemma demo_rollup: "AnRollup demoQuery None (\<lambda>_. noFaults) None demoTime demoTables = (Inr (), demoDaily)"
  using AnRollup_returns by (simp add: demoDaily_def prod_eq_iff)

lemma demo_tz: "qe_tz demoQuery = ae_tz demoEnv" by (simp add: demoQuery_def)

lemma demo_days: "DayOf demoTime demoZone = 19723" "dayAt demoZone 1704106800000 = 19723"
  "rawFrom (30 * day) demoTime demoZone \<le> 19723" "\<not> dayString 19723 < dayString (addDate 0 (- 25) 0 (DayOf demoTime utc))"
  "textYear 19723"
  by code_simp+

lemma demo_rolled: "exactDay demoZone ''s1'' demoTables demoDaily 19723" "\<exists>ds. demoDaily = demoTables\<lparr>dailies := ds\<rparr>"
proof -
  obtain v where v: "v \<in> set (visits demoTables)" "vr_site v = si_id demoSite" "vr_started v = 1704106800000"
    by (auto simp: demoTables_def vr_site_def demoView_def demoSite_def)
  have q: "qe_retention demoQuery = 30 * day" "demoSite \<in> set (sites demoTables)" by (simp_all add: demoQuery_def demoTables_def)
  have "if dayOfSite (si_id demoSite) 19723 demoTables = [] \<or> DayOf demoTime demoZone - 1 \<le> 19723
      then exactDay demoZone (si_id demoSite) demoTables demoDaily 19723
      else dayOfSite (si_id demoSite) 19723 demoDaily = dayOfSite (si_id demoSite) 19723 demoTables"
    by (rule AnRollup_spec [OF demo_history demo_tz demo_clock demo_rollup q(2) demo_zone(1) [symmetric] demo_zone(2) v(1,2)])
      (use q(1) v(3) demo_days in simp_all)
  then show "exactDay demoZone ''s1'' demoTables demoDaily 19723" by (simp add: demo_days demoSite_def)
  show "\<exists>ds. demoDaily = demoTables\<lparr>dailies := ds\<rparr>"
    using AnRollup_text [OF demo_rollup _ demo_tz] demo_clock anReach_inv [OF demo_history demo_tz] by (auto simp: hist_inv_def)
qed

lemma demo_rolled_reach: "anReach demoEnv demoQuery demoInputs demoTime 0 demoDaily demoSvc"
  by (rule anReach.rollup [OF demo_history order.refl _ demo_rollup]) (use demo_clock in simp)

lemma Rollup_refreshes_days_witness: "exactDay demoZone ''s1'' demoTables demoDaily 19723"
proof -
  obtain v where v: "v \<in> set (visits demoTables)" "vr_site v = si_id demoSite" "vr_started v = 1704106800000"
    by (auto simp: demoTables_def vr_site_def demoView_def demoSite_def)
  have q: "qe_retention demoQuery = 30 * day" "demoSite \<in> set (sites demoTables)" by (simp_all add: demoQuery_def demoTables_def)
  show ?thesis
    using Rollup_refreshes_days [OF demo_history demo_tz demo_clock demo_rollup q(2) demo_zone(1) [symmetric] demo_zone(2) v(1,2), of 19723] v(3) q(1) demo_days
    by (simp add: demoSite_def)
qed

theorem visits_partition_pageviews_witness:
  "anReach demoEnv demoQuery demoInputs demoTime 0 demoTables demoSvc \<and>
   (\<exists>!v. v \<in> set (visits demoTables) \<and> pr_visit (hd (pageviews demoTables)) = Some (vr_id v)) \<and>
   int (length (views (hd (visits demoTables)) demoTables)) = vr_pageviews (hd (visits demoTables))"
proof -
  have "hd (pageviews demoTables) \<in> set (pageviews demoTables)" "hd (visits demoTables) \<in> set (visits demoTables)"
    "0 \<le> vr_started (hd (visits demoTables))" by (simp_all add: demoTables_def)
  then show ?thesis using demo_history visits_partition_pageviews [OF demo_history demo_tz] by blast
qed

theorem collect_stores_own_traffic_witness:
  "\<exists>r. pageviews demoTables = [r] \<and> pr_ts r = 1704106800000 \<and> CHR ''?'' \<notin> set (p_path (pr_view r)) \<and> countOf ''stored'' demoSvc = 1"
proof -
  have start: "anReach demoEnv demoQuery demoInputs demoTime 0 (emptyTables\<lparr>sites := [demoSite]\<rparr>) NewService"
    using anReach.create [OF anReach.start order.refl demo_create] .
  have "unixMilli demoTime = 1704106800000" "countOf ''stored'' NewService = 0" by code_simp+
  then show ?thesis
    using collect_stores_own_traffic [OF start demo_tz demo_collect] by (auto simp: emptyTables_def)
qed

theorem reports_survive_purge_witness:
  "\<exists>rows. breakdown None None ''s1'' demoZone 19744 \<lparr>r_from = 19723, r_to = 19723\<rparr> ''page'' [] None
       (snd (PurgeSvc demoEnv (\<lambda>_. (None, None)) (demoTime + 50 * day) demoDaily)) = Inr rows \<and>
     map_of rows = map_of (rawRows ''s1'' ''page'' 1704056400000000000 1704142800000000000 [] demoDaily)"
proof -
  obtain ds where r: "demoDaily = demoTables\<lparr>dailies := ds\<rparr>" using demo_rolled(2) by blast
  have "dayRows sid d t0 t1 demoDaily = dayRows sid d t0 t1 demoTables" for sid d t0 t1 unfolding r by (rule dayRows_dailies)
  then have ex: "exactDay demoZone (si_id demoSite) demoDaily demoDaily 19723"
    using demo_rolled(1) by (simp add: demoSite_def exactDay_eq)
  let ?r = "\<lparr>r_from = 19723, r_to = 19723\<rparr>"
  have B: "Bounds demoZone ?r = (1704056400000000000, 1704142800000000000)"
    "rawFrom (ae_retention demoEnv) (demoTime + 50 * day) demoZone \<le> 19744" "''page'' \<in> set Dimensions" by code_simp+
  have m: "demoSite \<in> set (sites demoDaily)" by (simp add: r demoTables_def)
  have P: "PurgeSvc demoEnv (\<lambda>_. (None, None)) (demoTime + 50 * day) demoDaily =
      (fst (PurgeSvc demoEnv (\<lambda>_. (None, None)) (demoTime + 50 * day) demoDaily), snd (PurgeSvc demoEnv (\<lambda>_. (None, None)) (demoTime + 50 * day) demoDaily))"
    by simp
  have d: "\<forall>d. r_from ?r \<le> d \<and> d \<le> r_to ?r \<and> d < 19744 \<longrightarrow> exactDay demoZone (si_id demoSite) demoDaily demoDaily d"
  proof (intro allI impI)
    fix d :: int assume "r_from ?r \<le> d \<and> d \<le> r_to ?r \<and> d < 19744"
    then have "d = 19723" by simp
    then show "exactDay demoZone (si_id demoSite) demoDaily demoDaily d" using ex by simp
  qed
  have "demoSite = demoSite" "si_id demoSite = ''s1''" by (simp_all add: demoSite_def)
  then show ?thesis
    using reports_survive_purge [OF demo_rolled_reach demo_tz demo_sha m demo_zone(1) [symmetric] demo_zone(2) _ _ _ B(3) d P B(2)] B(1) demo_days(5) by simp
qed


text \<open>Letting the database cut a raw breakdown to its first rows does not change the answer: for every metric to
  order by and every limit, the rows of the answer are those of the whole breakdown, ordered by the metric and then by value and
  cut to the limit, at most 1000 of them.\<close>

lemma database_cut_harmless:
  assumes "raw0 \<le> r_from r" "q_dimension q \<noteq> []" "q_limit q \<le> 1000"
    and "breakdown f1 None sid loc raw0 r (q_dimension q) fs (Some (q_orderBy q, nat (q_limit q))) db = Inr cur"
    and "breakdown f1 None sid loc raw0 r (q_dimension q) fs None db = Inr whole"
  shows "breakdownRows q cur prev = breakdownRows q whole prev \<and> length (breakdownRows q cur prev) \<le> 1000 \<and>
    map rr_value (breakdownRows q cur prev) = map fst (take (nat (q_limit q)) (orderRows (q_orderBy q) (rawRows sid (q_dimension q) (fst (Bounds loc r)) (snd (Bounds loc r)) fs db)))"
proof -
  define rows where "rows = rawRows sid (q_dimension q) (fst (Bounds loc r)) (snd (Bounds loc r)) fs db"
  have w: "whole = rows" using breakdown_raw(1) [OF assms(1,2)] assms(5) by (simp add: rows_def)
  have c: "cur = rows \<or> cur = take (nat (q_limit q)) (orderRows (q_orderBy q) rows)"
    using breakdown_raw(2,3) [OF assms(1,2)] assms(4) by (cases "map_of topColumns (q_orderBy q)") (auto simp: rows_def)
  have "take (nat (q_limit q)) (orderRows (q_orderBy q) cur) = take (nat (q_limit q)) (orderRows (q_orderBy q) rows)"
    using c by (auto simp: orderRows_take)
  then show ?thesis using assms(2,3) by (simp add: breakdownRows_def w comp_def flip: rows_def)
qed


definition demoTopQuery :: query where
  "demoTopQuery = \<lparr>q_metrics = [''visitors''], q_dimension = ''page'', q_filters = [], q_dateRange = [], q_period = [], q_compare = [],
     q_orderBy = ''pageviews'', q_limit = 10, q_format = []\<rparr>"

lemma database_cut_harmless_witness:
  "\<exists>cur. breakdown None None ''s1'' demoZone 19723 \<lparr>r_from = 19723, r_to = 19723\<rparr> ''page'' [] (Some (''pageviews'', 10)) demoTables = Inr cur \<and>
     length (breakdownRows demoTopQuery cur None) \<le> 1000"
proof -
  let ?b = "breakdown None None ''s1'' demoZone 19723 \<lparr>r_from = 19723, r_to = 19723\<rparr> (q_dimension demoTopQuery) []"
  have q: "19723 \<le> r_from \<lparr>r_from = 19723, r_to = 19723\<rparr>" "q_dimension demoTopQuery \<noteq> []" "q_limit demoTopQuery \<le> 1000"
    by (simp_all add: demoTopQuery_def)
  obtain cur where cur: "?b (Some (q_orderBy demoTopQuery, nat (q_limit demoTopQuery))) demoTables = Inr cur"
    using breakdown_raw(2,3) [OF q(1,2)] by (cases "map_of topColumns (q_orderBy demoTopQuery)") blast+
  show ?thesis
    using database_cut_harmless [OF q cur breakdown_raw(1) [OF q(1,2)], of None] cur by (intro exI [of _ cur] conjI; elim conjE) (simp add: demoTopQuery_def)
qed

text \<open>On any reachable state the timeline of a range of days that the raw rows hold adds up to the totals of the
  range: it has the bucket labels of the range in order, and each of the five counts, summed over the buckets, is the count that
  the same query gives without a dimension, unique visitors included, since a visitor is one identity per day.\<close>

lemma timeline_adds_up:
  assumes "anReach env q X t old db s" "qe_tz q = ae_tz env" "sha_ok env X"
    and "site \<in> set (sites db)" "loc = Location (ae_tz env) site" "zone_ok loc"
    and "r_from r \<le> r_to r" "raw0 \<le> r_from r" "interval \<noteq> ''hour''"
    and "length (visitsIn (si_id site) (fst (Bounds loc r)) (snd (Bounds loc r)) fs db) \<le> 500000"
  shows "\<exists>rows. timeline rfc3339 f1 None (si_id site) loc raw0 r interval fs db = Inr rows \<and>
    map fst rows = map bu_label (buckets rfc3339 r interval loc) \<and>
    (\<forall>c\<in>{c_visitors, c_visits, c_pageviews, c_bounces, c_duration}.
       sum_list (map (\<lambda>x. c (snd x)) rows) = c (look (rawRows (si_id site) [] (fst (Bounds loc r)) (snd (Bounds loc r)) fs db) []))"
proof -
  have "oneDay loc (si_id site) db" using hist_inv_oneDay [OF anReach_inv [OF assms(1,2)] assms(3,4)] assms(5,6) by simp
  note T = timeline_sums [OF assms(6) this assms(7-9) _ assms(10), of _ rfc3339 f1]
  have c: "{c_visitors, c_visits, c_pageviews, c_bounces, c_duration} = columns" by (simp add: columns_def)
  obtain rows where r: "timeline rfc3339 f1 None (si_id site) loc raw0 r interval fs db = Inr rows" using T [of c_visits] c by auto
  show ?thesis unfolding c using T r by (intro exI [of _ rows] conjI ballI) (auto simp: columns_def)
qed

lemma timeline_adds_up_witness:
  "\<exists>rows. timeline (\<lambda>_ _. []) None None ''s1'' demoZone 19723 \<lparr>r_from = 19723, r_to = 19723\<rparr> ''day'' [] demoTables = Inr rows \<and>
     sum_list (map (\<lambda>x. c_pageviews (snd x)) rows) = c_pageviews (look (rawRows ''s1'' [] 1704056400000000000 1704142800000000000 [] demoTables) [])"
proof -
  let ?r = "\<lparr>r_from = 19723, r_to = 19723\<rparr>"
  have B: "Bounds demoZone ?r = (1704056400000000000, 1704142800000000000)" by code_simp
  have m: "demoSite \<in> set (sites demoTables)" "si_id demoSite = ''s1''" by (simp_all add: demoTables_def demoSite_def)
  have "length (visitsIn (si_id demoSite) (fst (Bounds demoZone ?r)) (snd (Bounds demoZone ?r)) [] demoTables) \<le> length (visits demoTables)"
    by (simp add: visitsIn_def)
  also have "\<dots> \<le> 500000" by (simp add: demoTables_def)
  finally have n: "length (visitsIn (si_id demoSite) (fst (Bounds demoZone ?r)) (snd (Bounds demoZone ?r)) [] demoTables) \<le> 500000" .
  show ?thesis
    using timeline_adds_up [OF demo_history demo_tz demo_sha m(1) demo_zone(1) [symmetric] demo_zone(2) _ _ _ n, of 19723 "''day''" "\<lambda>_ _. []" None]
    unfolding B m(2) by auto
qed

end
