(* ===== verification/Labels_Read.thy ===== *)
theory Labels_Read
  imports Labels
begin

section \<open>Reading a stored label set (internal/telemetry/domain/labels.go, ParseLabels)\<close>

text \<open>
  \<^verbatim>\<open>ParseLabels\<close> hands the stored text to \<^verbatim>\<open>json.Unmarshal\<close> with a \<^verbatim>\<open>map[string]string\<close> to fill. The
  decoder below reads such an object: white space between the tokens, the escapes of a string with
  surrogate pairs, the replacement character for a lone surrogate or a byte that is no UTF-8, and a
  \<^verbatim>\<open>null\<close> value, which leaves the empty string. A value of any other kind and any syntax error
  make \<^verbatim>\<open>Unmarshal\<close> report an error, and the result is then the empty set.
\<close>

definition hexVal :: "nat \<Rightarrow> nat option" where
  "hexVal b =
     (if 48 \<le> b \<and> b \<le> 57 then Some (b - 48)
      else if 97 \<le> b \<and> b \<le> 102 then Some (b - 87)
      else if 65 \<le> b \<and> b \<le> 70 then Some (b - 55) else None)"

text \<open>\<^verbatim>\<open>getu4\<close> of encoding/json: the code of \<open>\uXXXX\<close> at the head, and what follows it.\<close>

fun getu4 :: "nat list \<Rightarrow> (nat \<times> nat list) option" where
  "getu4 (s # u # a # b # c # d # r) =
     (if s = 92 \<and> u = 117 then
        (case (hexVal a, hexVal b, hexVal c, hexVal d) of
           (Some w, Some x, Some y, Some z) \<Rightarrow> Some (((w * 16 + x) * 16 + y) * 16 + z, r)
         | _ \<Rightarrow> None)
      else None)"
| "getu4 _ = None"

definition encodeRune :: "nat \<Rightarrow> nat list" where
  "encodeRune c =
     (if c < 128 then [c]
      else if c < 2048 then [192 + c div 64, 128 + c mod 64]
      else if c < 65536 then [224 + c div 4096, 128 + c div 64 mod 64, 128 + c mod 64]
      else [240 + c div 262144, 128 + c div 4096 mod 64, 128 + c div 64 mod 64, 128 + c mod 64])"

definition RuneError :: "nat list" where "RuneError = [239, 191, 189]"

definition unescape1 :: "nat \<Rightarrow> nat option" where
  "unescape1 c =
     (if c \<in> {34, 92, 47} then Some c else if c = 98 then Some 8 else if c = 102 then Some 12
      else if c = 110 then Some 10 else if c = 114 then Some 13 else if c = 116 then Some 9 else None)"

text \<open>The next piece of a string literal: its bytes and what follows them.\<close>

definition litPiece :: "nat list \<Rightarrow> (nat list \<times> nat list) option" where
  "litPiece bs =
     (case bs of
        [] \<Rightarrow> None
      | b # r \<Rightarrow>
          if b = 92 then
            (case r of
               [] \<Rightarrow> None
             | c # r1 \<Rightarrow>
                 if c \<noteq> 117 then map_option (\<lambda>x. ([x], r1)) (unescape1 c)
                 else case getu4 bs of
                        None \<Rightarrow> None
                      | Some (u, r2) \<Rightarrow>
                          if u < 55296 \<or> 57344 \<le> u then Some (encodeRune u, r2)
                          else case getu4 r2 of
                                 Some (v, r3) \<Rightarrow>
                                   if u < 56320 \<and> 56320 \<le> v \<and> v < 57344
                                   then Some (encodeRune (65536 + (u - 55296) * 1024 + (v - 56320)), r3)
                                   else Some (RuneError, r2)
                               | None \<Rightarrow> Some (RuneError, r2))
          else if b < 32 then None
          else if runeWidth bs = 0 then Some (RuneError, r)
          else Some (take (runeWidth bs) bs, drop (runeWidth bs) bs))"

lemma getu4_length: "getu4 bs = Some (u, r) \<Longrightarrow> length r < length bs"
  by (induction bs rule: getu4.induct) (auto split: if_splits option.splits)

lemma litPiece_length: "litPiece bs = Some (p, r) \<Longrightarrow> length r < length bs"
  by (auto simp: litPiece_def split: list.splits if_splits option.splits dest!: getu4_length)

text \<open>A literal from behind its opening quote to its closing one.\<close>

function litStr :: "nat list \<Rightarrow> (nat list \<times> nat list) option" where
  "litStr bs =
     (if bs \<noteq> [] \<and> hd bs = 34 then Some ([], tl bs)
      else case litPiece bs of
             None \<Rightarrow> None
           | Some (p, r) \<Rightarrow> map_option (\<lambda>(s, r'). (p @ s, r')) (litStr r))"
  by pat_completeness auto
termination
  by (relation "measure length") (auto dest: litPiece_length)

declare litStr.simps [simp del]

definition skipWs :: "nat list \<Rightarrow> nat list" where
  "skipWs = dropWhile (\<lambda>b. b \<in> {32, 9, 10, 13})"

definition litValue :: "nat list \<Rightarrow> (nat list \<times> nat list) option" where
  "litValue bs =
     (if bs \<noteq> [] \<and> hd bs = 34 then litStr (tl bs)
      else if take 4 bs = [110, 117, 108, 108] then Some ([], drop 4 bs)
      else None)"

definition litMember :: "nat list \<Rightarrow> ((nat list \<times> nat list) \<times> nat list) option" where
  "litMember bs =
     (case skipWs bs of
        [] \<Rightarrow> None
      | q # r \<Rightarrow>
          if q \<noteq> 34 then None
          else case litStr r of
                 None \<Rightarrow> None
               | Some (k, r1) \<Rightarrow>
                   (case skipWs r1 of
                      [] \<Rightarrow> None
                    | c # r2 \<Rightarrow>
                        if c \<noteq> 58 then None
                        else map_option (\<lambda>(v, r3). ((k, v), skipWs r3)) (litValue (skipWs r2))))"

lemma litStr_length: "litStr bs = Some (s, r) \<Longrightarrow> length r < length bs"
proof (induction bs arbitrary: s r rule: litStr.induct)
  case (1 bs)
  show ?case
  proof (cases "bs \<noteq> [] \<and> hd bs = 34")
    case True
    then show ?thesis using 1(2) by (subst (asm) litStr.simps) auto
  next
    case False
    with 1(2) obtain p r0 s' where p: "litPiece bs = Some (p, r0)" "litStr r0 = Some (s', r)"
      by (subst (asm) litStr.simps) (auto split: if_splits option.splits)
    show ?thesis using 1(1) [OF False p(1) refl p(2)] litPiece_length [OF p(1)] by simp
  qed
qed

lemma skipWs_length: "length (skipWs bs) \<le> length bs"
  by (simp add: skipWs_def length_dropWhile_le)

lemma litValue_length: "litValue bs = Some (s, r) \<Longrightarrow> length r \<le> length bs"
  by (auto simp: litValue_def split: if_splits dest!: litStr_length)

lemma litMember_length: "litMember bs = Some (m, r) \<Longrightarrow> length r < length bs"
proof -
  assume "litMember bs = Some (m, r)"
  then obtain q r0 k r1 c r2 v r3 where "skipWs bs = q # r0" "litStr r0 = Some (k, r1)" "skipWs r1 = c # r2"
    "litValue (skipWs r2) = Some (v, r3)" "r = skipWs r3"
    by (auto simp: litMember_def split: list.splits if_splits option.splits)
  then show ?thesis
    using skipWs_length [of bs] skipWs_length [of r1] skipWs_length [of r2] skipWs_length [of r3] litStr_length [of r0 k r1]
      litValue_length [of "skipWs r2" v r3] by simp
qed

text \<open>The members of an object from behind its opening brace or a comma.\<close>

function litMembers :: "nat list \<Rightarrow> ((nat list \<times> nat list) list \<times> nat list) option" where
  "litMembers bs =
     (case litMember bs of
        None \<Rightarrow> None
      | Some (m, r) \<Rightarrow>
          if r \<noteq> [] \<and> hd r = 44 then map_option (\<lambda>(ms, r'). (m # ms, r')) (litMembers (tl r))
          else if r \<noteq> [] \<and> hd r = 125 then Some ([m], tl r)
          else None)"
  by pat_completeness auto
termination
  by (relation "measure length") (auto dest: litMember_length)

declare litMembers.simps [simp del]

definition ofBytes :: "nat list \<Rightarrow> string" where "ofBytes = map char_of"

definition ParseLabels :: "string \<Rightarrow> labels" where
  "ParseLabels text =
     (case skipWs (map byte text) of
        [] \<Rightarrow> []
      | b # r \<Rightarrow>
          if b \<noteq> 123 then []
          else if skipWs r \<noteq> [] \<and> hd (skipWs r) = 125 then []
          else case litMembers r of
                 None \<Rightarrow> []
               | Some (ms, r') \<Rightarrow>
                   if skipWs r' = [] then fold (\<lambda>(k, v). AList.update (ofBytes k) (ofBytes v)) ms [] else [])"

subsection \<open>Reading back what \<open>CanonicalLabels\<close> wrote\<close>

text \<open>Behind the opening quote, an escaped piece of the text is read as the bytes it stands for.\<close>

lemma litStr_piece:
  assumes "litPiece bs = Some (p, r)" and "hd bs \<noteq> 34"
  shows "litStr bs = map_option (\<lambda>(s, r'). (p @ s, r')) (litStr r)"
  using assms by (subst litStr.simps) simp

lemma hexVal_hexByte: "n < 16 \<Longrightarrow> hexVal (hexByte n) = Some n"
  by (auto simp: hexVal_def hexByte_def)

lemma litPiece_escByte:
  assumes "b < 128"
  shows "litPiece (escByte b @ r) = Some ([b], r) \<and> hd (escByte b @ r) \<noteq> 34"
proof -
  have "hexVal (hexByte (b div 16)) = Some (b div 16)" "hexVal (hexByte (b mod 16)) = Some (b mod 16)"
    using assms by (auto intro!: hexVal_hexByte simp: less_mult_imp_div_less)
  moreover have "hexVal 48 = Some 0" by (simp add: hexVal_def)
  moreover have "b div 16 * 16 + b mod 16 = b" by simp
  ultimately show ?thesis
    using assms by (auto simp: escByte_def litPiece_def unescape1_def encodeRune_def)
qed

lemma litPiece_escRune:
  assumes "runeWidth bs \<noteq> 0"
  shows "litPiece (escRune (take (runeWidth bs) bs) @ r) = Some (take (runeWidth bs) bs, r) \<and>
    hd (escRune (take (runeWidth bs) bs) @ r) \<noteq> 34"
  using rune_head_cases [OF assms]
proof (elim disjE exE conjE)
  fix b assume "take (runeWidth bs) bs = [b]" "b < 128"
  then show ?thesis using litPiece_escByte [of b r] by (simp add: escRune_def)
next
  let ?u = "take (runeWidth bs) bs"
  assume len: "1 < length ?u" and big: "\<forall>b\<in>set ?u. 128 \<le> b"
  have plain: "escRune u = u" if "1 < length u" "u \<noteq> [226, 128, 168]" "u \<noteq> [226, 128, 169]" for u
    using that by (cases u rule: remdups_adj.cases) (simp_all add: escRune_def)
  have sep: "litPiece (escRune [226, 128, n] @ r) = Some ([226, 128, n], r) \<and> hd (escRune [226, 128, n] @ r) \<noteq> 34"
    if "n = 168 \<or> n = 169" for n
    using that by (auto simp: escRune_def litPiece_def hexVal_def encodeRune_def)
  show ?thesis
  proof (cases "?u = [226, 128, 168] \<or> ?u = [226, 128, 169]")
    case True
    then show ?thesis by (elim disjE) (simp_all only: sep simp_thms)
  next
    case False
    obtain b t where u: "?u = b # t" using len by (cases ?u) auto
    have "128 \<le> b" using big u by simp
    moreover have w: "runeWidth (?u @ r) = runeWidth bs" by (rule runeWidth_take [OF assms])
    moreover have "take (runeWidth bs) (?u @ r) = ?u" "drop (runeWidth bs) (?u @ r) = r"
      using runeWidth_le [of bs] by simp_all
    ultimately show ?thesis
      using plain [OF len] False assms u by (simp add: litPiece_def)
  qed
qed

lemma litStr_escape: "validRunes bs \<Longrightarrow> litStr (escape bs @ 34 # r) = Some (bs, r)"
proof (induction bs rule: escape.induct)
  case (1 bs)
  show ?case
  proof (cases "bs = []")
    case True
    then show ?thesis by (simp add: escape.simps litStr.simps)
  next
    case False
    with 1(3) have w: "runeWidth bs \<noteq> 0" and v: "validRunes (drop (runeWidth bs) bs)"
      by (auto simp: validRunes.simps [of bs] split: if_splits)
    note piece = litPiece_escRune [OF w, of "escape (drop (runeWidth bs) bs) @ 34 # r"]
    show ?thesis
      using 1(2) [OF False w v] False w litStr_piece [OF conjunct1 [OF piece] conjunct2 [OF piece]]
      by (subst escape.simps) simp
  qed
qed

lemma skipWs_Nil [simp]: "skipWs [] = []"
  by (simp add: skipWs_def)

lemma skipWs_token [simp]: "b \<notin> {32, 9, 10, 13} \<Longrightarrow> skipWs (b # r) = b # r"
  by (auto simp: skipWs_def)

lemma litMember_pair:
  assumes "validString k" and "validString v"
  shows "litMember (pairText (k, v) @ r) = Some ((map byte k, map byte v), skipWs r)"
  using assms by (simp add: litMember_def pairText_def quoted_def litStr_escape validString_def litValue_def)

lemma litMembers_pairs:
  "l \<noteq> [] \<Longrightarrow> validLabels l \<Longrightarrow>
   litMembers (pairsText l @ 125 # r) = Some (map (\<lambda>(k, v). (map byte k, map byte v)) l, r)"
proof (induction l rule: pairsText.induct)
  case (2 kv)
  obtain k v where kv: "kv = (k, v)" by (cases kv)
  with 2 have "validString k" "validString v" by (auto simp: validLabels_def)
  then show ?case using kv by (simp add: litMembers.simps litMember_pair)
next
  case (3 kv kv' l)
  obtain k v where kv: "kv = (k, v)" by (cases kv)
  with 3 have "validString k" "validString v" "validLabels (kv' # l)" by (auto simp: validLabels_def)
  then show ?case using kv 3(1) by (subst litMembers.simps) (simp add: litMember_pair)
qed simp

lemma ofBytes_byte [simp]: "ofBytes (map byte s) = s"
  by (simp add: ofBytes_def comp_def)

lemma fold_update_distinct:
  "distinct (map fst (acc @ l)) \<Longrightarrow> fold (\<lambda>(k, v). AList.update k v) l acc = acc @ l"
proof (induction l arbitrary: acc)
  case (Cons kv l)
  have "AList.update (fst kv) (snd kv) acc = acc @ [kv]" if "fst kv \<notin> set (map fst acc)"
    using that by (induction acc) auto
  then show ?case using Cons by (cases kv) auto
qed simp

lemma map_byte_char_of: "\<forall>b\<in>set bs. b < 256 \<Longrightarrow> map byte (map char_of bs) = bs"
  by (induction bs) auto

lemma ParseLabels_canonical:
  assumes "wf_table l" and "validLabels l"
  shows "ParseLabels (CanonicalLabels l) = sort_key fst l"
proof (cases "l = []")
  case True
  then show ?thesis by (simp add: CanonicalLabels_def ParseLabels_def byte_def)
next
  case False
  let ?s = "sort_key fst l"
  have s: "?s \<noteq> []" "validLabels ?s" "distinct (map fst ?s)"
    using False assms by (auto simp: validLabels_def distinct_map dest: arg_cong [of _ _ length])
  have b: "map byte (CanonicalLabels l) = 123 # pairsText ?s @ [125]"
    using False pairsText_bytes [of ?s] unfolding CanonicalLabels_def
    by (subst if_not_P) (auto intro!: map_byte_char_of [of "[123] @ _", simplified])
  obtain t where "pairsText ?s @ [125] = 34 # t"
    using s(1) by (cases ?s rule: pairsText.cases) (auto simp: pairText_def quoted_def)
  then have q: "skipWs (pairsText ?s @ [125]) = 34 # t" by simp
  have "fold (\<lambda>(k, v). AList.update (ofBytes k) (ofBytes v)) (map (\<lambda>(k, v). (map byte k, map byte v)) ?s) [] =
      fold (\<lambda>(k, v). AList.update k v) ?s []"
    by (simp add: fold_map comp_def case_prod_beta')
  also have "\<dots> = ?s" using fold_update_distinct [of "[]" ?s] s(3) by simp
  finally show ?thesis
    using litMembers_pairs [OF s(1,2), of "[]"] unfolding ParseLabels_def b by (simp add: q)
qed

text \<open>What the store reads back is what it wrote: parsing the canonical text of a label set of
  valid UTF-8 gives the set again, its labels in the order of their keys; nothing is lost to the
  escapes of the encoder.\<close>

lemma ParseLabels_CanonicalLabels:
  assumes "wf_table l" and "validLabels l"
  shows "ParseLabels (CanonicalLabels l) = sort_key fst l \<and> map_of (ParseLabels (CanonicalLabels l)) = map_of l"
proof
  show *: "ParseLabels (CanonicalLabels l) = sort_key fst l" using assms by (rule ParseLabels_canonical)
  show "map_of (ParseLabels (CanonicalLabels l)) = map_of l"
    unfolding * by (rule map_of_inject_set [THEN iffD2]) (use assms in \<open>auto simp: distinct_map\<close>)
qed

lemma ParseLabels_CanonicalLabels_witness:
  "ParseLabels (CanonicalLabels [(''if'', ''eth0''), (''a'', ''x<y'')]) = [(''a'', ''x<y''), (''if'', ''eth0'')]"
proof -
  have "validLabels [(''if'', ''eth0''), (''a'', ''x<y'')]"
    by (simp add: validLabels_def validString_def validRunes.simps byte_def)
  from ParseLabels_CanonicalLabels [OF _ this] show ?thesis by simp
qed

text \<open>A text that does not open an object is read as the empty set.\<close>

lemma ParseLabels_no_object: "x = [] \<or> byte (hd x) \<notin> {32, 9, 10, 13, 123} \<Longrightarrow> ParseLabels x = []"
  by (cases x) (auto simp: ParseLabels_def)

end
