(* ===== verification/Telemetry_Read.thy ===== *)
theory Telemetry_Read
  imports Http_Api Maintenance Labels_Read
begin

section \<open>Reading telemetry (store.go, maintenance.go, handlers.go and stream.go of internal/telemetry)\<close>

text \<open>
  The read half of the telemetry store, of its service and of its HTTP handlers. A \<open>SELECT\<close> is a list
  operation on the table it reads: \<^verbatim>\<open>WHERE\<close> a \<open>filter\<close>, \<^verbatim>\<open>ORDER BY\<close> a sort by the tuple of the named columns
  (byte order for text, as SQLite's default collation has it), \<^verbatim>\<open>LIMIT\<close> a \<open>take\<close>. \<^verbatim>\<open>INDEXED BY\<close> chooses an
  index and no row; rows equal in every named column keep the order of the table. \<open>fault\<close> is the error of the query, if it fails; a query changes no table.
  \<^verbatim>\<open>time.Parse(time.RFC3339Nano, _)\<close> is the parameter \<open>timeParse\<close>. \<^verbatim>\<open>url.Values.Get\<close> is a function from the
  name of a parameter to its first value, the empty string when it is missing.
\<close>

subsection \<open>The repository: metrics\<close>

type_synonym metricRowT = "(series \<times> int) \<times> (float64 \<times> string)"
type_synonym metricPointT = "string \<times> metric"

text \<open>The conditions the filter collects.\<close>

definition seriesCond :: "string \<Rightarrow> string \<Rightarrow> series \<Rightarrow> bool" where
  "seriesCond host name s \<longleftrightarrow> (host \<noteq> '''' \<longrightarrow> fst s = host) \<and> (name \<noteq> '''' \<longrightarrow> fst (snd s) = name)"

definition rangeCond :: "time option \<Rightarrow> time option \<Rightarrow> int \<Rightarrow> bool" where
  "rangeCond from til ts \<longleftrightarrow>
     (case from of None \<Rightarrow> True | Some f \<Rightarrow> unixMilli f \<le> ts) \<and> (case til of None \<Rightarrow> True | Some t \<Rightarrow> ts \<le> unixMilli t)"

definition metricCond :: "metricQuery \<Rightarrow> metricRowT \<Rightarrow> bool" where
  "metricCond q r \<longleftrightarrow> seriesCond (q_host q) (q_name q) (fst (fst r)) \<and> rangeCond (q_from q) (q_to q) (snd (fst r))"

text \<open>The two orders of the queries and the limit between them.\<close>

definition newestFirst :: "metricRowT \<Rightarrow> int \<times> series" where
  "newestFirst r = (- snd (fst r), fst (fst r))"

definition oldestFirst :: "metricRowT \<Rightarrow> int \<times> series" where
  "oldestFirst r = (snd (fst r), fst (fst r))"

definition limitNewest :: "nat \<Rightarrow> metricRowT list \<Rightarrow> metricRowT list" where
  "limitNewest n rows = sort_key oldestFirst (take n (sort_key newestFirst rows))"

text \<open>SQLite divides integers towards zero.\<close>

definition sqlDiv :: "int \<Rightarrow> int \<Rightarrow> int" where
  "sqlDiv a b = (if 0 \<le> a then a div b else - ((- a) div b))"

definition stepBucket :: "int \<Rightarrow> metricRowT \<Rightarrow> series \<times> int" where
  "stepBucket step r = (fst (fst r), sqlDiv (snd (fst r)) (step * 1000))"

text \<open>The grouped subquery: the newest timestamp of each bucket, and the join back on the primary key.\<close>

definition bucketTops :: "int \<Rightarrow> metricRowT list \<Rightarrow> (series \<times> int) list" where
  "bucketTops step rows =
     map (\<lambda>g. (fst g, Max (set (map (\<lambda>r. snd (fst r)) (filter (\<lambda>r. stepBucket step r = g) rows)))))
       (remdups (map (stepBucket step) rows))"

definition joinRows :: "(series \<times> int) list \<Rightarrow> metricRowT list \<Rightarrow> metricRowT list" where
  "joinRows ks rows = concat (map (\<lambda>m. map (\<lambda>_. m) (filter (\<lambda>k. k = fst m) ks)) rows)"

definition stepCond :: "metricQuery \<Rightarrow> tdb \<Rightarrow> metricRowT \<Rightarrow> bool" where
  "stepCond q db r \<longleftrightarrow> metricCond q r \<and>
     (q_host q = '''' \<and> q_name q \<noteq> '''' \<longrightarrow> fst (fst (fst r)) \<in> set (map fst (hosts db)))"

definition pointOf :: "series \<Rightarrow> int \<Rightarrow> float64 \<Rightarrow> metricPointT" where
  "pointOf s ts v =
     (case s of (host, name, ls) \<Rightarrow> (host, \<lparr>m_name = name, m_ts = ofMilli ts, m_value = v, m_labels = ParseLabels ls\<rparr>))"

definition rowPoint :: "metricRowT \<Rightarrow> metricPointT" where
  "rowPoint r = pointOf (fst (fst r)) (snd (fst r)) (fst (snd r))"

definition metricPage :: "metricQuery \<Rightarrow> tdb \<Rightarrow> metricRowT list" where
  "metricPage q db =
     limitNewest (nat (q_limit q))
       (if 0 < q_step q then joinRows (bucketTops (q_step q) (filter (stepCond q db) (metricRows db))) (metricRows db)
        else filter (metricCond q) (metricRows db))"

definition latestPage :: "metricQuery \<Rightarrow> tdb \<Rightarrow> (series \<times> (int \<times> float64)) list" where
  "latestPage q db =
     take (nat (q_limit q)) (sort_key fst (filter (\<lambda>r. seriesCond (q_host q) (q_name q) (fst r)) (metricLatest db)))"

definition MetricsRepo :: "error option \<Rightarrow> metricQuery \<Rightarrow> tdb \<Rightarrow> metricPointT list result" where
  "MetricsRepo fault q db =
     (case fault of
        Some e \<Rightarrow> Inl e
      | None \<Rightarrow>
          Inr (if \<not> 0 < q_step q \<and> q_latest q then map (\<lambda>(s, ts, v). pointOf s ts v) (latestPage q db)
               else map rowPoint (metricPage q db)))"

subsection \<open>The repository: rollups, hosts, checks, events and documents\<close>

record rollupPoint =
  rp_host :: string
  rp_name :: string
  rp_labels :: labels
  rp_ts :: time
  rp_count :: nat
  rp_min :: rat
  rp_max :: rat
  rp_avg :: rat

definition rollupPage :: "metricQuery \<Rightarrow> tdb \<Rightarrow> ((series \<times> int) \<times> rollupRow) list" where
  "rollupPage q db =
     take (nat (q_limit q)) (sort_key (\<lambda>r. (snd (fst r), fst (fst r)))
       (filter (\<lambda>r. seriesCond (q_host q) (q_name q) (fst (fst r)) \<and> rangeCond (q_from q) (q_to q) (snd (fst r))) (rollups db)))"

definition rollupPointOf :: "(series \<times> int) \<times> rollupRow \<Rightarrow> rollupPoint" where
  "rollupPointOf r =
     (case r of (((host, name, ls), ts), a) \<Rightarrow>
        \<lparr>rp_host = host, rp_name = name, rp_labels = ParseLabels ls, rp_ts = ofMilli ts, rp_count = ru_count a,
         rp_min = ru_min a, rp_max = ru_max a, rp_avg = ru_sum a / of_nat (ru_count a)\<rparr>)"

definition MetricRollupsRepo :: "error option \<Rightarrow> metricQuery \<Rightarrow> tdb \<Rightarrow> rollupPoint list result" where
  "MetricRollupsRepo fault q db = (case fault of Some e \<Rightarrow> Inl e | None \<Rightarrow> Inr (map rollupPointOf (rollupPage q db)))"

definition Hosts :: "error option \<Rightarrow> tdb \<Rightarrow> (string \<times> hostRow) list result" where
  "Hosts fault db = (case fault of Some e \<Rightarrow> Inl e | None \<Rightarrow> Inr (sort_key (\<lambda>(i, h). (h_name h, i)) (hosts db)))"

definition maxCheckRows :: nat where "maxCheckRows = 1000"

definition ChecksRepo :: "error option \<Rightarrow> string \<Rightarrow> string \<Rightarrow> tdb \<Rightarrow> (string \<times> check) list result" where
  "ChecksRepo fault host name db =
     (case fault of
        Some e \<Rightarrow> Inl e
      | None \<Rightarrow>
          Inr (map (\<lambda>((h, n), ts, st, meta). (h, \<lparr>k_name = n, k_ts = ofMilli ts, k_status = st, k_meta = meta\<rparr>))
                (take maxCheckRows (sort_key fst
                  (filter (\<lambda>r. (host \<noteq> '''' \<longrightarrow> fst (fst r) = host) \<and> (name \<noteq> '''' \<longrightarrow> snd (fst r) = name)) (checkLatest db))))))"

definition eventCond :: "eventQuery \<Rightarrow> (string \<times> int \<times> string \<times> string \<times> string) \<times> string \<Rightarrow> bool" where
  "eventCond q r \<longleftrightarrow>
     (case r of ((host, ts, level, msgText, ls), ver) \<Rightarrow>
        (eq_host q \<noteq> '''' \<longrightarrow> host = eq_host q) \<and> (eq_level q \<noteq> '''' \<longrightarrow> level = eq_level q) \<and> rangeCond (eq_from q) None ts)"

definition EventsRepo :: "error option \<Rightarrow> eventQuery \<Rightarrow> tdb \<Rightarrow> (string \<times> event) list result" where
  "EventsRepo fault q db =
     (case fault of
        Some e \<Rightarrow> Inl e
      | None \<Rightarrow>
          Inr (map (\<lambda>((host, ts, level, msgText, ls), ver).
                 (host, \<lparr>e_ts = ofMilli ts, e_level = level, e_message = msgText, e_labels = ParseLabels ls\<rparr>))
                (take (nat (eq_limit q)) (sort_key (\<lambda>((host, ts, level, msgText, ls), ver). (- ts, host, level, msgText))
                  (filter (eventCond q) (eventRows db))))))"

record hostDocument =
  hd_host :: string
  hd_hostName :: string
  hd_kind :: string
  hd_received :: time
  hd_body :: string

definition DocumentsRepo :: "error option \<Rightarrow> string \<Rightarrow> tdb \<Rightarrow> hostDocument list result" where
  "DocumentsRepo fault kind db =
     (case fault of
        Some e \<Rightarrow> Inl e
      | None \<Rightarrow>
          Inr (sort_key hd_hostName
                (concat (map (\<lambda>((host, k), received, body).
                   map (\<lambda>(i, h). \<lparr>hd_host = host, hd_hostName = h_name h, hd_kind = k, hd_received = ofMilli received, hd_body = body\<rparr>)
                     (filter (\<lambda>(i, h). i = host) (hosts db)))
                  (filter (\<lambda>((host, k), _). k = kind) (documentRows db))))))"

subsection \<open>The service\<close>

definition MetricsSvc :: "error option \<Rightarrow> metricQuery \<Rightarrow> tdb \<Rightarrow> metricPointT list result" where
  "MetricsSvc fault q db = result_bind (Metrics q) (\<lambda>q'. MetricsRepo fault q' db)"

definition MetricRollupsSvc :: "error option \<Rightarrow> metricQuery \<Rightarrow> tdb \<Rightarrow> rollupPoint list result" where
  "MetricRollupsSvc fault q db = result_bind (MetricRollups q) (\<lambda>q'. MetricRollupsRepo fault q' db)"

definition EventsSvc :: "error option \<Rightarrow> eventQuery \<Rightarrow> tdb \<Rightarrow> (string \<times> event) list result" where
  "EventsSvc fault q db = result_bind (Events q) (\<lambda>q'. EventsRepo fault q' db)"

subsection \<open>The handlers\<close>

type_synonym params = "string \<Rightarrow> string"

definition parseTime :: "(string \<Rightarrow> time option) \<Rightarrow> params \<Rightarrow> string \<Rightarrow> time option result" where
  "parseTime timeParse q key =
     (if q key = '''' then Inr None
      else case timeParse (q key) of
             None \<Rightarrow> Inl (Invalid (key @ '' must be an RFC 3339 timestamp''))
           | Some t \<Rightarrow> Inr (Some t))"

definition parseInt :: "params \<Rightarrow> string \<Rightarrow> int result" where
  "parseInt q key =
     (if q key = '''' then Inr 0
      else case atoi (q key) of None \<Rightarrow> Inl (Invalid (key @ '' must be an integer'')) | Some n \<Rightarrow> Inr n)"

definition parseBool :: "params \<Rightarrow> string \<Rightarrow> bool result" where
  "parseBool q key =
     (if q key = '''' then Inr False
      else case parseBoolText (q key) of None \<Rightarrow> Inl (Invalid (key @ '' must be a boolean'')) | Some b \<Rightarrow> Inr b)"

definition metricParams :: "(string \<Rightarrow> time option) \<Rightarrow> params \<Rightarrow> metricQuery result" where
  "metricParams timeParse q =
     result_bind (parseTime timeParse q ''from'') (\<lambda>from.
     result_bind (parseTime timeParse q ''to'') (\<lambda>til.
     result_bind (parseInt q ''limit'') (\<lambda>limit.
     result_bind (parseBool q ''latest'') (\<lambda>latest.
     result_bind (parseInt q ''step'') (\<lambda>step.
       Inr \<lparr>q_host = q ''host'', q_name = q ''name'', q_from = from, q_to = til, q_limit = limit, q_latest = latest,
            q_step = step\<rparr>)))))"

datatype metricsBody = RawBody "metricPointT list" | HourBody "rollupPoint list"

definition metricsH :: "(string \<Rightarrow> time option) \<Rightarrow> error option \<Rightarrow> params \<Rightarrow> tdb \<Rightarrow> metricsBody reply" where
  "metricsH timeParse fault q db =
     (if q ''resolution'' \<notin> {'''', ''raw'', ''hour''} then apiFail (Invalid ''resolution must be raw or hour'')
      else case metricParams timeParse q of
             Inl e \<Rightarrow> apiFail e
           | Inr query \<Rightarrow>
               if q ''resolution'' = ''hour'' then
                 (case MetricRollupsSvc fault query db of Inl e \<Rightarrow> apiFail e | Inr ps \<Rightarrow> Reply 200 (HourBody ps))
               else (case MetricsSvc fault query db of Inl e \<Rightarrow> apiFail e | Inr ps \<Rightarrow> Reply 200 (RawBody ps)))"

definition checksH :: "error option \<Rightarrow> params \<Rightarrow> tdb \<Rightarrow> (string \<times> check) list reply" where
  "checksH fault q db = replyWith 200 (ChecksRepo fault (q ''host'') (q ''name'') db)"

definition eventsH :: "(string \<Rightarrow> time option) \<Rightarrow> error option \<Rightarrow> params \<Rightarrow> tdb \<Rightarrow> (string \<times> event) list reply" where
  "eventsH timeParse fault q db =
     replyWith 200 (result_bind (parseInt q ''limit'') (\<lambda>limit.
       result_bind (parseTime timeParse q ''from'') (\<lambda>from.
         EventsSvc fault \<lparr>eq_host = q ''host'', eq_level = q ''level'', eq_from = from, eq_limit = limit\<rparr> db)))"

definition documentsH :: "error option \<Rightarrow> params \<Rightarrow> tdb \<Rightarrow> hostDocument list reply" where
  "documentsH fault q db =
     (if q ''kind'' = '''' then apiFail (Invalid ''kind is required'')
      else replyWith 200 (DocumentsRepo fault (q ''kind'') db))"

subsection \<open>What a limited read returns\<close>

lemma set_limitNewest: "set (limitNewest n rows) \<subseteq> set rows"
  unfolding limitNewest_def by (metis set_sort set_take_subset)

lemma length_limitNewest: "length (limitNewest n rows) = min n (length rows)"
  by (simp add: limitNewest_def min.commute)

lemma distinct_limitNewest: "distinct rows \<Longrightarrow> distinct (limitNewest n rows)"
  by (simp add: limitNewest_def)

lemma limitNewest_ordered:
  assumes "wf_table rows"
  shows "sorted_wrt (\<lambda>a b. oldestFirst a < oldestFirst b) (limitNewest n rows)"
proof -
  have "inj_on oldestFirst (set (limitNewest n rows))"
  proof (rule inj_onI)
    fix x y assume "x \<in> set (limitNewest n rows)" "y \<in> set (limitNewest n rows)" "oldestFirst x = oldestFirst y"
    then have "x \<in> set rows" "y \<in> set rows" "fst x = fst y"
      using set_limitNewest by (auto simp: oldestFirst_def prod_eq_iff)
    then show "x = y" using assms by (metis eq_key_imp_eq_value prod.collapse)
  qed
  moreover have "distinct (limitNewest n rows)" using assms by (simp add: distinct_limitNewest distinct_map)
  ultimately have "distinct (map oldestFirst (limitNewest n rows))" by (simp add: distinct_map)
  moreover have "sorted (map oldestFirst (limitNewest n rows))" by (simp add: limitNewest_def)
  ultimately have "sorted_wrt (<) (map oldestFirst (limitNewest n rows))" by (simp add: strict_sorted_iff)
  then show ?thesis by (simp add: sorted_wrt_map)
qed

lemma limitNewest_newest:
  assumes "r \<in> set rows" and "r \<notin> set (limitNewest n rows)" and "p \<in> set (limitNewest n rows)"
  shows "snd (fst r) \<le> snd (fst p)"
proof -
  let ?s = "sort_key newestFirst rows"
  have "p \<in> set (take n ?s)" "r \<notin> set (take n ?s)" "r \<in> set ?s" using assms by (auto simp: limitNewest_def)
  then have "r \<in> set (drop n ?s)" by (metis Un_iff append_take_drop_id set_append)
  moreover have "sorted_wrt (\<lambda>a b. newestFirst a \<le> newestFirst b) (take n ?s @ drop n ?s)"
    using sorted_sort_key [of newestFirst rows] by (simp add: sorted_map)
  ultimately have "newestFirst p \<le> newestFirst r" using \<open>p \<in> set (take n ?s)\<close> unfolding sorted_wrt_append by blast
  then show ?thesis by (auto simp: newestFirst_def less_eq_prod_def)
qed

subsection \<open>One sample per bucket\<close>

lemma joinRows_eq:
  assumes "distinct ks"
  shows "joinRows ks rows = filter (\<lambda>m. fst m \<in> set ks) rows"
proof -
  have one: "filter (\<lambda>k. k = x) ks = (if x \<in> set ks then [x] else [])" for x
    using assms by (induction ks) auto
  show ?thesis unfolding joinRows_def one by (induction rows) auto
qed

lemma bucketTops_iff:
  "k \<in> set (bucketTops step rows) \<longleftrightarrow>
   (\<exists>r\<in>set rows. fst r = k \<and> (\<forall>r'\<in>set rows. stepBucket step r' = stepBucket step r \<longrightarrow> snd (fst r') \<le> snd (fst r)))"
proof
  assume "k \<in> set (bucketTops step rows)"
  then have "k \<in> (\<lambda>g. (fst g, Max ((\<lambda>r. snd (fst r)) ` {r \<in> set rows. stepBucket step r = g}))) ` (stepBucket step ` set rows)"
    by (simp add: bucketTops_def)
  then obtain g where g: "g \<in> stepBucket step ` set rows"
    and k: "k = (fst g, Max ((\<lambda>r. snd (fst r)) ` {r \<in> set rows. stepBucket step r = g}))"
    by (elim imageE) blast
  let ?T = "(\<lambda>r. snd (fst r)) ` {r \<in> set rows. stepBucket step r = g}"
  have fin: "finite ?T" by simp
  have ne: "?T \<noteq> {}" using g by blast
  obtain r where r: "r \<in> set rows" "stepBucket step r = g" "snd (fst r) = Max ?T" using Max_in [OF fin ne] by auto
  moreover have "fst (fst r) = fst g" using r(2) by (auto simp: stepBucket_def)
  ultimately show "\<exists>r\<in>set rows. fst r = k \<and> (\<forall>r'\<in>set rows. stepBucket step r' = stepBucket step r \<longrightarrow> snd (fst r') \<le> snd (fst r))"
    using fin k by (intro bexI [of _ r]) (auto simp: prod_eq_iff)
next
  assume "\<exists>r\<in>set rows. fst r = k \<and> (\<forall>r'\<in>set rows. stepBucket step r' = stepBucket step r \<longrightarrow> snd (fst r') \<le> snd (fst r))"
  then obtain r where r: "r \<in> set rows" "fst r = k" "\<And>r'. r' \<in> set rows \<Longrightarrow> stepBucket step r' = stepBucket step r \<Longrightarrow> snd (fst r') \<le> snd (fst r)"
    by blast
  let ?g = "stepBucket step r"
  have top: "Max ((\<lambda>r. snd (fst r)) ` {r \<in> set rows. stepBucket step r = ?g}) = snd (fst r)" using r by (intro Max_eqI) auto
  moreover have "fst ?g = fst (fst r)" by (simp add: stepBucket_def)
  ultimately show "k \<in> set (bucketTops step rows)"
    using r(1,2) by (auto simp: bucketTops_def prod_eq_iff intro!: image_eqI [of _ _ ?g])
qed

lemma distinct_bucketTops: "distinct (bucketTops step rows)"
proof -
  let ?f = "\<lambda>g. (fst g, Max (set (map (\<lambda>r. snd (fst r)) (filter (\<lambda>r. stepBucket step r = g) rows))))"
  have undo: "g = (fst (?f g), sqlDiv (snd (?f g)) (step * 1000))" if "g \<in> stepBucket step ` set rows" for g
  proof -
    let ?T = "set (map (\<lambda>r. snd (fst r)) (filter (\<lambda>r. stepBucket step r = g) rows))"
    have "?T \<noteq> {}" using that by (simp only: set_map set_filter image_is_empty) blast
    then have "Max ?T \<in> ?T" by (intro Max_in) auto
    then show ?thesis by (auto simp: stepBucket_def)
  qed
  have "inj_on ?f (stepBucket step ` set rows)"
  proof (rule inj_onI)
    fix g g' assume "g \<in> stepBucket step ` set rows" "g' \<in> stepBucket step ` set rows" "?f g = ?f g'"
    then show "g = g'" using undo [of g] undo [of g'] by simp
  qed
  then show ?thesis by (simp add: bucketTops_def distinct_map)
qed

text \<open>The rows a query asks for: those its conditions admit, and with a step only the newest of each
  bucket of its series.\<close>

definition wantedRow :: "metricQuery \<Rightarrow> tdb \<Rightarrow> metricRowT \<Rightarrow> bool" where
  "wantedRow q db r \<longleftrightarrow>
     (if 0 < q_step q then
        stepCond q db r \<and>
        (\<forall>r'\<in>set (metricRows db). stepCond q db r' \<and> stepBucket (q_step q) r' = stepBucket (q_step q) r \<longrightarrow> snd (fst r') \<le> snd (fst r))
      else metricCond q r)"

lemma metricPage_eq:
  assumes "wf_table (metricRows db)"
  shows "metricPage q db = limitNewest (nat (q_limit q)) (filter (wantedRow q db) (metricRows db))"
proof (cases "0 < q_step q")
  case True
  let ?rows = "filter (stepCond q db) (metricRows db)"
  have "fst m \<in> set (bucketTops (q_step q) ?rows) \<longleftrightarrow> wantedRow q db m" if "m \<in> set (metricRows db)" for m
  proof -
    have same: "r = m" if "r \<in> set (metricRows db)" "fst r = fst m" for r
      using that \<open>m \<in> set (metricRows db)\<close> assms by (metis eq_key_imp_eq_value prod.collapse)
    show ?thesis
    proof
      assume "fst m \<in> set (bucketTops (q_step q) ?rows)"
      then obtain r where r: "r \<in> set ?rows" "fst r = fst m"
        "\<forall>r'\<in>set ?rows. stepBucket (q_step q) r' = stepBucket (q_step q) r \<longrightarrow> snd (fst r') \<le> snd (fst r)"
        unfolding bucketTops_iff by blast
      then have "r = m" using same by simp
      then show "wantedRow q db m" using r True unfolding wantedRow_def by (simp only: if_True set_filter mem_Collect_eq) blast
    next
      assume "wantedRow q db m"
      then show "fst m \<in> set (bucketTops (q_step q) ?rows)"
        unfolding bucketTops_iff wantedRow_def using True that by (intro bexI [of _ m]) simp_all
    qed
  qed
  then have "filter (\<lambda>m. fst m \<in> set (bucketTops (q_step q) ?rows)) (metricRows db) = filter (wantedRow q db) (metricRows db)"
    by (intro filter_cong) auto
  then show ?thesis using True by (simp add: metricPage_def joinRows_eq [OF distinct_bucketTops])
next
  case False
  then show ?thesis by (simp add: metricPage_def wantedRow_def cong: filter_cong)
qed

subsection \<open>Properties of the metric reads\<close>

definition effectiveLimit :: "metricQuery \<Rightarrow> nat" where
  "effectiveLimit q = (if q_limit q = 0 then 1000 else nat (q_limit q))"

lemma MetricsSvc_page:
  assumes "MetricsSvc None q db = Inr pts" and "\<not> q_latest q"
  shows "pts = map rowPoint (metricPage (q\<lparr>q_limit := int (effectiveLimit q)\<rparr>) db)"
proof -
  obtain q' where q': "Metrics q = Inr q'" "MetricsRepo None q' db = Inr pts"
    using assms(1) by (cases "Metrics q") (auto simp: MetricsSvc_def)
  have "q' = q\<lparr>q_limit := (if q_limit q = 0 then 1000 else q_limit q)\<rparr>" "1 \<le> q_limit q'"
    using Metrics_bounded [of q] unfolding q'(1) sum.case by blast+
  then have "q' = q\<lparr>q_limit := int (effectiveLimit q)\<rparr>" by (auto simp: effectiveLimit_def)
  then show ?thesis using q'(2) assms(2) by (simp add: MetricsRepo_def)
qed

lemma MetricsSvc_rows:
  assumes "wf_table (metricRows db)" and "MetricsSvc None q db = Inr pts" and "\<not> q_latest q"
  shows "pts = map rowPoint (limitNewest (effectiveLimit q) (filter (wantedRow q db) (metricRows db)))"
proof -
  have "wantedRow (q\<lparr>q_limit := l\<rparr>) db = wantedRow q db" for l
    by (simp add: fun_eq_iff wantedRow_def stepCond_def metricCond_def)
  then show ?thesis using MetricsSvc_page [OF assms(2,3)] metricPage_eq [OF assms(1)] by simp
qed

text \<open>C34 (equivalence). A read of raw samples, sampled by a step or not, returns as many of the rows the query
  asks for as the limit allows, and the newest of them: every returned row is wanted, none comes
  twice, a wanted row is left out only when the page is full and every returned row is at least
  as new, and the page runs from the oldest row to the newest. With a step the wanted rows
  are the newest of each bucket of each series.\<close>

theorem metrics_newest_page:
  assumes "wf_table (metricRows db)" and "MetricsSvc None q db = Inr pts" and "\<not> q_latest q"
  shows "\<exists>page. pts = map rowPoint page \<and> distinct page \<and>
     set page \<subseteq> {r \<in> set (metricRows db). wantedRow q db r} \<and>
     length page = min (effectiveLimit q) (card {r \<in> set (metricRows db). wantedRow q db r}) \<and>
     sorted_wrt (\<lambda>a b. oldestFirst a < oldestFirst b) page \<and>
     (\<forall>r\<in>set (metricRows db). wantedRow q db r \<longrightarrow> r \<notin> set page \<longrightarrow> (\<forall>p\<in>set page. snd (fst r) \<le> snd (fst p)))"
proof -
  let ?rows = "filter (wantedRow q db) (metricRows db)" and ?n = "effectiveLimit q"
  have p: "pts = map rowPoint (limitNewest ?n ?rows)" using assms by (rule MetricsSvc_rows)
  have wf: "wf_table ?rows" using assms(1) by (rule distinct_map_filter_fst)
  then have d: "distinct ?rows" by (simp add: distinct_map)
  have "card {r \<in> set (metricRows db). wantedRow q db r} = length ?rows" using distinct_card [OF d] by simp
  then have len: "length (limitNewest ?n ?rows) = min ?n (card {r \<in> set (metricRows db). wantedRow q db r})"
    by (simp only: length_limitNewest)
  have keep: "snd (fst r) \<le> snd (fst x)"
    if "r \<in> set (metricRows db)" "wantedRow q db r" "r \<notin> set (limitNewest ?n ?rows)" "x \<in> set (limitNewest ?n ?rows)" for r x
    using limitNewest_newest [OF _ that(3,4)] that(1,2) by simp
  have sub: "set (limitNewest ?n ?rows) \<subseteq> {r \<in> set (metricRows db). wantedRow q db r}"
    using set_limitNewest [of ?n ?rows] by simp
  show ?thesis
    using p distinct_limitNewest [OF d] sub len limitNewest_ordered [OF wf] keep by blast
qed

text \<open>The rows of the metric table a batch adds.\<close>

lemma withBatch_metricRows:
  "metricRows (withBatch host key t b db) = metricRows db @ map (metricRow host (schemaVersion b)) (metrics (newRecords host b db))"
  by (simp add: withBatch_def touchHost_def storeDocuments_def Let_def)

lemma okLabels_valid:
  assumes "okLabels ls"
  shows "validLabels ls"
proof -
  have "isAscii k" if "labelKeyRe k" for k
    using that unfolding labelKeyRe_def by (rule identRe_ascii) (auto simp: isLower_def isDigit_def byte_def)
  then show ?thesis using assms validString_ascii by (fastforce simp: okLabels_def validLabels_def)
qed

lemma accepted_metric:
  assumes "Ingest validJson canonObject fault host key now b (db, h) = (Inr r, db', h')" and "m \<in> set (metrics (Accepted r))"
    and "\<not> Replayed r"
  shows "((host, m_name m, CanonicalLabels (m_labels m)), unixMilli (m_ts m)) \<in> keysOf (metricRows db')"
    and "(((host, m_name m, CanonicalLabels (m_labels m)), unixMilli (m_ts m)), (m_value m, schemaVersion b)) \<in> set (metricRows db')"
    and "validLabels (m_labels m)" and "m_ts m = ofMilli (unixMilli (m_ts m))"
proof -
  have e: "admissible validJson canonObject now b" "Accepted r = newRecords host (normalForm canonObject b) db"
    "db' = withBatch host key now (normalForm canonObject b) db"
    using Ingest_effect [where validJson = validJson and canonObject = canonObject and fault = fault and host = host and key = key and now = now and b = b and db = db and h = h] assms by (auto split: if_splits)
  have row: "metricRow host (schemaVersion b) m \<in> set (metricRows db')"
    using assms(2) e by (simp add: withBatch_metricRows normalForm_def)
  then show "(((host, m_name m, CanonicalLabels (m_labels m)), unixMilli (m_ts m)), (m_value m, schemaVersion b)) \<in> set (metricRows db')"
    by (simp add: metricRow_def metricKey_def)
  then show "((host, m_name m, CanonicalLabels (m_labels m)), unixMilli (m_ts m)) \<in> keysOf (metricRows db')" by force
  have "m \<in> set (metrics (normalForm canonObject b))"
    using assms(2) e(2) set_news by (fastforce simp: newRecords_def)
  then obtain m0 where m0: "m0 \<in> set (metrics b)" "m = m0\<lparr>m_ts := truncateTo millisecond (m_ts m0)\<rparr>"
    by (auto simp: normalForm_def)
  then have "okLabels (m_labels m)" using e(1) by (auto simp: admissible_def list_all_iff okMetric_def)
  then show "validLabels (m_labels m)" by (rule okLabels_valid)
  show "m_ts m = ofMilli (unixMilli (m_ts m))" using m0(2) by (simp add: ofMilli_unixMilli truncateTo_idem)
qed

text \<open>C9 (roundtrip). A sample the server accepted is read back as it was accepted: after an ingest, every query
  on raw samples that covers the sample and is not cut by its limit returns it under its host, with
  its name, value, labels and timestamp. The labels are a map, so only their order may change.\<close>

theorem ingested_sample_read_back:
  assumes "tdb_inv db"
    and "Ingest validJson canonObject fault host key now b (db, h) = (Inr r, db', h')" and "\<not> Replayed r"
    and "m \<in> set (metrics (Accepted r))" and "wf_table (m_labels m)"
    and "MetricsSvc None q db' = Inr pts" and "\<not> q_latest q" and "q_step q = 0"
    and "q_host q \<in> {'''', host}" and "q_name q \<in> {'''', m_name m}" and "rangeCond (q_from q) (q_to q) (unixMilli (m_ts m))"
    and "card {r \<in> set (metricRows db'). metricCond q r} \<le> effectiveLimit q"
  shows "(host, m\<lparr>m_labels := sort_key fst (m_labels m)\<rparr>) \<in> set pts"
proof -
  note m = accepted_metric [OF assms(2,4,3)]
  let ?row = "(((host, m_name m, CanonicalLabels (m_labels m)), unixMilli (m_ts m)), (m_value m, schemaVersion b))"
  have wf: "wf_table (metricRows db')"
    using Ingest_effect [where validJson = validJson and canonObject = canonObject and fault = fault and host = host and key = key and now = now and b = b and db = db and h = h] assms(1-3) withBatch_inv
    by (auto simp: tdb_inv_def split: if_splits)
  have w: "wantedRow q db' = metricCond q" using assms(8) by (simp add: fun_eq_iff wantedRow_def)
  have wr: "wantedRow q db' ?row" using assms(9-11) unfolding w metricCond_def seriesCond_def by auto
  let ?rows = "filter (wantedRow q db') (metricRows db')"
  have "distinct ?rows" using wf by (simp add: distinct_map)
  then have "length ?rows \<le> effectiveLimit q" using assms(12) distinct_card [of ?rows] by (simp add: w)
  then have "set (limitNewest (effectiveLimit q) ?rows) = set ?rows" by (simp add: limitNewest_def)
  then have "rowPoint ?row \<in> set pts" using m(2) wr MetricsSvc_rows [OF wf assms(6,7)] by simp
  moreover have "rowPoint ?row = (host, m\<lparr>m_labels := sort_key fst (m_labels m)\<rparr>)"
    using ParseLabels_canonical [OF assms(5) m(3)] m(4) by (simp add: rowPoint_def pointOf_def)
  ultimately show ?thesis by simp
qed

subsection \<open>A small store to read from\<close>

definition readRow :: "string \<Rightarrow> int \<Rightarrow> rat \<Rightarrow> metricRowT" where
  "readRow name ts v = (((''h1'', name, ''{}''), ts), (Fin v, ''1.0''))"

definition readDb :: tdb where
  "readDb = demoDb\<lparr>metricRows := [readRow ''cpu'' 1000 1, readRow ''cpu'' 12000 2, readRow ''cpu'' 4000 3, readRow ''mem'' 5000 4]\<rparr>"

definition readQuery :: metricQuery where
  "readQuery = \<lparr>q_host = ''h1'', q_name = ''cpu'', q_from = None, q_to = None, q_limit = 0, q_latest = False, q_step = 10\<rparr>"

lemma Metrics_readQuery: "Metrics readQuery = Inr (readQuery\<lparr>q_limit := 1000\<rparr>)"
  by (simp add: Metrics_def readQuery_def validateStep_def afterTo_def boundedLimit_def MinStepSeconds_def MaxStepSeconds_def
      DefaultMetricLimit_def MaxMetricLimit_def)

lemma readDb_wanted:
  "filter (wantedRow readQuery readDb) (metricRows readDb) = [readRow ''cpu'' 12000 2, readRow ''cpu'' 4000 3]"
  by (simp add: readDb_def readRow_def wantedRow_def readQuery_def stepCond_def metricCond_def seriesCond_def rangeCond_def
      stepBucket_def sqlDiv_def)

theorem metrics_newest_page_witness:
  "\<exists>page. MetricsSvc None readQuery readDb = Inr (map rowPoint page) \<and> length page = 2 \<and>
     set page \<subseteq> {readRow ''cpu'' 12000 2, readRow ''cpu'' 4000 3}"
proof -
  have wf: "wf_table (metricRows readDb)" by (simp add: readDb_def readRow_def)
  have w: "{r \<in> set (metricRows readDb). wantedRow readQuery readDb r} = {readRow ''cpu'' 12000 2, readRow ''cpu'' 4000 3}"
    using arg_cong [OF readDb_wanted, of set] by simp
  have c: "card {readRow ''cpu'' 12000 2, readRow ''cpu'' 4000 3} = 2" by (simp add: readRow_def)
  obtain pts where p: "MetricsSvc None readQuery readDb = Inr pts"
    by (simp add: MetricsSvc_def Metrics_readQuery MetricsRepo_def)
  have "\<not> q_latest readQuery" "effectiveLimit readQuery = 1000" by (simp_all add: readQuery_def effectiveLimit_def)
  then obtain page where "pts = map rowPoint page" "set page \<subseteq> {readRow ''cpu'' 12000 2, readRow ''cpu'' 4000 3}" "length page = min 1000 2"
    using metrics_newest_page [OF wf p] unfolding w c by metis
  then show ?thesis using p by auto
qed

lemma demoBatch_admissible: "admissible (\<lambda>_. True) Some 0 demoBatch"
  by (simp add: admissible_def demoBatch_def emptyBatch_def demoMetric_def okMetric_def nameRe_def identRe_def isLower_def
      isDigit_def byte_def okTS_def zeroTime_def okLabels_def versionRe_def hasPrefix_def MaxRecords_def MaxDocuments_def batchLen_def)

definition backQuery :: metricQuery where
  "backQuery = \<lparr>q_host = '''', q_name = ''mem'', q_from = Some 0, q_to = Some (2 * second), q_limit = 5, q_latest = False, q_step = 0\<rparr>"

theorem ingested_sample_read_back_witness:
  "\<exists>r db' h' pts. Ingest (\<lambda>_. True) Some None ''h1'' ''k'' 0 demoBatch (demoDb, NewHub) = (Inr r, db', h') \<and>
     MetricsSvc None backQuery db' = Inr pts \<and> (''h1'', demoMetric ''mem'' second 0) \<in> set pts"
proof -
  let ?b = "normalForm Some demoBatch" and ?m = "demoMetric ''mem'' second 0"
  have n: "Normalize (\<lambda>_. True) Some 0 demoBatch = Inr ?b"
    using Normalize_decides [of "\<lambda>_. True" Some 0 demoBatch] demoBatch_admissible by (simp add: decides_def)
  let ?db = "withBatch ''h1'' ''k'' 0 ?b demoDb"
  have new: "metrics (newRecords ''h1'' ?b demoDb) = [demoMetric ''cpu'' second 1, ?m]"
    by (simp add: newRecords_def normalForm_def demo_store)
  have "map_of (hosts demoDb) ''h1'' \<noteq> None" "(''h1'', ''k'') \<notin> keysOf (batches demoDb)" by (simp_all add: demoDb_def)
  then obtain r where r: "Store None ''h1'' ''k'' 0 ?b demoDb = (Inr r, ?db)" "\<not> Replayed r" "Accepted r = newRecords ''h1'' ?b demoDb"
    using Store_eq [OF normalForm_storable [OF demoBatch_admissible], of "''h1''" "''k''" 0 demoDb] by (simp add: Let_def)
  then obtain h' where I: "Ingest (\<lambda>_. True) Some None ''h1'' ''k'' 0 demoBatch (demoDb, NewHub) = (Inr r, ?db, h')"
    by (simp add: Ingest_def n MaxIdempotencyKey_def)
  obtain pts where p: "MetricsSvc None backQuery ?db = Inr pts"
    by (simp add: MetricsSvc_def Metrics_def backQuery_def validateStep_def afterTo_def boundedLimit_def MaxMetricLimit_def MetricsRepo_def)
  have rows: "metricRows ?db = [metricRow ''h1'' ''1.0'' (demoMetric ''cpu'' second 1), metricRow ''h1'' ''1.0'' ?m]"
    unfolding withBatch_metricRows new by (simp add: demoDb_def demoBatch_def emptyBatch_def normalForm_def)
  have "card {r \<in> set (metricRows ?db). metricCond backQuery r} \<le> card (set (metricRows ?db))" by (rule card_mono) auto
  also have "\<dots> \<le> 5" using card_length [of "metricRows ?db"] by (simp add: rows)
  finally have c: "card {r \<in> set (metricRows ?db). metricCond backQuery r} \<le> effectiveLimit backQuery"
    by (simp add: effectiveLimit_def backQuery_def)
  have inv: "tdb_inv demoDb" by (simp add: tdb_inv_def demoDb_def latestOk_def)
  have "(''h1'', ?m\<lparr>m_labels := sort_key fst (m_labels ?m)\<rparr>) \<in> set pts"
    by (rule ingested_sample_read_back [OF inv I r(2) _ _ p _ _ _ _ _ c])
      (simp_all add: r(3) new backQuery_def demoMetric_def rangeCond_def unixMilli_def)
  then show ?thesis using I p by (auto simp: demoMetric_def)
qed

subsection \<open>Hourly reads keep the oldest hours\<close>

text \<open>The limit of a read of hourly aggregates works the other way round: a matching hour is left out only
  when it is at least as new as every returned one, so a long range loses its end.\<close>

lemma rollup_limit_keeps_oldest:
  assumes "r \<in> set (rollups db)" and "seriesCond (q_host q) (q_name q) (fst (fst r))" and "rangeCond (q_from q) (q_to q) (snd (fst r))"
    and "r \<notin> set (rollupPage q db)" and "p \<in> set (rollupPage q db)"
  shows "snd (fst p) \<le> snd (fst r)"
proof -
  define key where "key = (\<lambda>r :: (series \<times> int) \<times> rollupRow. (snd (fst r), fst (fst r)))"
  define s where "s = sort_key key
    (filter (\<lambda>r. seriesCond (q_host q) (q_name q) (fst (fst r)) \<and> rangeCond (q_from q) (q_to q) (snd (fst r))) (rollups db))"
  define n where "n = nat (q_limit q)"
  have page: "rollupPage q db = take n s" by (simp add: rollupPage_def s_def key_def n_def)
  have "r \<in> set (take n s @ drop n s)" using assms(1-3) by (simp add: s_def)
  then have "r \<in> set (drop n s)" using assms(4) unfolding page set_append by blast
  moreover have "sorted_wrt (\<lambda>a b. key a \<le> key b) (take n s @ drop n s)"
    unfolding s_def append_take_drop_id using sorted_sort_key [of key] by (simp add: sorted_map)
  ultimately have "key p \<le> key r" using assms(5) unfolding page sorted_wrt_append by blast
  then show ?thesis by (auto simp: key_def less_eq_prod_def)
qed

definition hourRow :: "int \<Rightarrow> (series \<times> int) \<times> rollupRow" where
  "hourRow ts = (((''h1'', ''cpu'', ''{}''), ts), \<lparr>ru_count = 1, ru_min = 0, ru_max = 0, ru_sum = 0\<rparr>)"

lemma rollup_read_loses_the_end:
  "MetricRollupsSvc None (readQuery\<lparr>q_step := 0, q_limit := 1\<rparr>) (demoDb\<lparr>rollups := [hourRow 3600000, hourRow 0]\<rparr>) =
   Inr [rollupPointOf (hourRow 0)]"
  by (simp add: MetricRollupsSvc_def MetricRollups_def readQuery_def afterTo_def boundedLimit_def MaxMetricLimit_def
      MetricRollupsRepo_def rollupPage_def hourRow_def seriesCond_def rangeCond_def demoDb_def)

subsection \<open>The live stream (stream.go)\<close>

record streamFrame =
  fr_type :: string
  fr_host :: string
  fr_record :: recordBody

definition frameOf :: "msg \<Rightarrow> streamFrame" where
  "frameOf m = \<lparr>fr_type = msg_type m, fr_host = msg_host m, fr_record = msg_body m\<rparr>"

text \<open>What one turn of the loop can observe: the client went away, the subscription's channel is ready (and
  whether the write succeeds), the ping ticker fired (and whether the ping is answered).\<close>

datatype streamEvent = ClientGone | ChannelReady bool | PingTick bool

datatype streamEnd = TooSlow | ShuttingDown | Abandoned

definition streamTurn :: "nat \<Rightarrow> streamEvent \<Rightarrow> hub \<Rightarrow> streamFrame list \<times> streamEnd option \<times> hub" where
  "streamTurn i ev h =
     (case ev of
        ClientGone \<Rightarrow> ([], Some Abandoned, h)
      | PingTick ok \<Rightarrow> ([], if ok then None else Some Abandoned, h)
      | ChannelReady ok \<Rightarrow>
          (case sub_buffer (all_subs h ! i) of
             m # _ \<Rightarrow> if ok then ([frameOf m], None, receive i h) else ([], Some Abandoned, receive i h)
           | [] \<Rightarrow>
               if \<not> sub_closed (all_subs h ! i) then ([], None, h)
               else ([], Some (if sub_dropped (all_subs h ! i) then TooSlow else ShuttingDown), h)))"

text \<open>The loop over the events a connection sees, each with what others do to the hub before it; when it ends,
  the deferred call removes the subscription. A run whose events end first is still open.\<close>

fun streamLoop :: "nat \<Rightarrow> ((hub \<Rightarrow> hub) \<times> streamEvent) list \<Rightarrow> hub \<Rightarrow> streamFrame list \<times> streamEnd option \<times> hub" where
  "streamLoop i [] h = ([], None, h)"
| "streamLoop i ((others, ev) # evs) h =
     (case streamTurn i ev (others h) of
        (fs, Some e, h') \<Rightarrow> (fs, Some e, Unsubscribe i h')
      | (fs, None, h') \<Rightarrow> (case streamLoop i evs h' of (fs', e, h'') \<Rightarrow> (fs @ fs', e, h'')))"

text \<open>The handler; \<open>refused\<close> is the error response the WebSocket library wrote itself when it does not accept
  the upgrade.\<close>

definition stream ::
  "(int \<times> string) option \<Rightarrow> params \<Rightarrow> ((hub \<Rightarrow> hub) \<times> streamEvent) list \<Rightarrow> hub \<Rightarrow> (streamFrame list \<times> streamEnd option) reply \<times> hub" where
  "stream refused q evs h =
     (if q ''type'' \<notin> {'''', ''metric'', ''check'', ''event'', ''uptime''} then
        (apiFail (Invalid ''type must be metric, check, event or uptime''), h)
      else case refused of
             Some (code, why) \<Rightarrow> (Refuse code why, h)
           | None \<Rightarrow>
               (case Subscribe (q ''host'') (q ''type'') h of (i, h1) \<Rightarrow>
                  (case streamLoop i evs h1 of (fs, e, h2) \<Rightarrow> (Reply 101 (fs, e), h2))))"

lemma Unsubscribe_gone: "i \<notin> set (subs (Unsubscribe i h))"
  by (simp add: Unsubscribe_def closeSub_def)

text \<open>A stream that ended holds no subscription any more, whatever the others did in between.\<close>

lemma stream_releases:
  "streamLoop i evs h = (fs, Some e, h') \<Longrightarrow> i \<notin> set (subs h')"
proof (induction i evs h arbitrary: fs rule: streamLoop.induct)
  case (2 i others ev evs h)
  show ?case
  proof (cases "streamTurn i ev (others h)")
    case (fields fs1 e1 h1)
    then show ?thesis using 2 Unsubscribe_gone by (cases e1) (auto split: prod.splits)
  qed
qed simp

text \<open>A subscription that was dropped or closed is drained: the client gets every message still buffered, in
  order, and then the reason.\<close>

lemma stream_drains:
  assumes "i < length (all_subs h)" and "sub_closed (all_subs h ! i)"
  shows "\<exists>h'. streamLoop i (replicate (Suc (length (sub_buffer (all_subs h ! i)))) (id, ChannelReady True)) h =
     (map frameOf (sub_buffer (all_subs h ! i)), Some (if sub_dropped (all_subs h ! i) then TooSlow else ShuttingDown), h')"
  using assms
proof (induction "sub_buffer (all_subs h ! i)" arbitrary: h)
  case Nil
  then show ?case by (simp add: streamTurn_def flip: Nil(1))
next
  case (Cons m ms)
  let ?h = "receive i h"
  have buf: "sub_buffer (all_subs ?h ! i) = ms" and same: "sub_closed (all_subs ?h ! i) = sub_closed (all_subs h ! i)"
    "sub_dropped (all_subs ?h ! i) = sub_dropped (all_subs h ! i)" "length (all_subs ?h) = length (all_subs h)"
    using Cons(2,3) by (simp_all add: receive_def flip: Cons(2))
  obtain h' where "streamLoop i (replicate (Suc (length ms)) (id, ChannelReady True)) ?h =
      (map frameOf ms, Some (if sub_dropped (all_subs h ! i) then TooSlow else ShuttingDown), h')"
    using Cons(1) [of ?h] Cons(3,4) buf same by auto
  moreover have "streamTurn i (ChannelReady True) h = ([frameOf m], None, ?h)"
    by (simp add: streamTurn_def flip: Cons(2))
  ultimately show ?case unfolding Cons(2) [symmetric] by simp
qed

text \<open>\<^verbatim>\<open>GET /api/hosts\<close>.\<close>

definition listHosts :: "error option \<Rightarrow> tdb \<Rightarrow> (string \<times> string \<times> time \<times> time option) list reply" where
  "listHosts fault db =
     (case Hosts fault db of
        Inl e \<Rightarrow> apiFail e
      | Inr hs \<Rightarrow> Reply 200 (map (\<lambda>(i, h). (i, h_name h, ofMilli (h_created h), map_option ofMilli (h_lastSeen h))) hs))"

end
