(* ===== verification/Config.thy ===== *)
theory Config
  imports Telemetry_Read Uptime Analytics
begin

section \<open>Settings from the environment (internal/platform/config/config.go)\<close>

text \<open>
  \<open>Load\<close> turns the environment, a function from names to values, into a \<open>config\<close> or an error. The
  prefix and address parsers are those of net/netip; \<^verbatim>\<open>url.Parse\<close> is the parameter \<open>parseURL\<close>, whose result has
  the parts the code looks at. Error texts leave out the offending value that the code quotes in them.
  The second part follows the retention settings, which are numbers of days, into the 64-bit durations of
  the maintenance jobs.
\<close>

subsection \<open>Parsers of the standard library\<close>

text \<open>\<^verbatim>\<open>strings.LastIndexByte\<close> as a split: what stands before and behind the last \<open>c\<close>.\<close>

definition splitLast :: "char \<Rightarrow> string \<Rightarrow> (string \<times> string) option" where
  "splitLast c s =
     (if c \<notin> set s then None
      else let t = rev (takeWhile (\<lambda>x. x \<noteq> c) (rev s)) in Some (take (length s - length t - 1) s, t))"

definition addrIs4 :: "addr \<Rightarrow> bool" where
  "addrIs4 a = (case a of V4 _ \<Rightarrow> True | V6 _ _ \<Rightarrow> False)"

text \<open>\<^verbatim>\<open>netip.ParsePrefix\<close>: no zone, and the bits as a plain decimal number without a leading zero or sign.\<close>

definition ParsePrefix :: "string \<Rightarrow> prefix option" where
  "ParsePrefix s =
     (case splitLast (CHR ''/'') s of
        None \<Rightarrow> None
      | Some (ip, bits) \<Rightarrow>
          (case ParseAddr ip of
             None \<Rightarrow> None
           | Some a \<Rightarrow>
               if (case a of V4 _ \<Rightarrow> False | V6 _ z \<Rightarrow> z \<noteq> []) then None
               else if 1 < length bits \<and> (byte (hd bits) < 49 \<or> 57 < byte (hd bits)) then None
               else case atoi bits of
                      None \<Rightarrow> None
                    | Some n \<Rightarrow>
                        if n < 0 \<or> (if addrIs4 a then 32 else 128) < n then None
                        else Some \<lparr>p_addr = a, p_bits = nat n\<rparr>))"

definition Masked :: "prefix \<Rightarrow> prefix" where
  "Masked p = prefixOf (p_bits p) (p_addr p)"

text \<open>Whether \<^verbatim>\<open>netip.ParseAddrPort\<close> takes a text: an address, in brackets exactly when it is IPv6, and a port of
  16 bits.\<close>

definition isAddrPort :: "string \<Rightarrow> bool" where
  "isAddrPort s =
     (case splitLast (CHR '':'') s of
        None \<Rightarrow> False
      | Some (ip, port) \<Rightarrow>
          if ip = [] \<or> port = [] then False
          else let br = (hd ip = CHR ''[''); host = (if br then butlast (tl ip) else ip)
               in if br \<and> (length ip < 2 \<or> last ip \<noteq> CHR '']'') then False
                  else case parseUint64 port of
                         None \<Rightarrow> False
                       | Some n \<Rightarrow>
                           unat n < 2 ^ 16 \<and> (case ParseAddr host of None \<Rightarrow> False | Some a \<Rightarrow> addrIs4 a = (\<not> br)))"

subsection \<open>The settings\<close>

record config =
  cfg_addr :: string
  cfg_dbPath :: string
  cfg_production :: bool
  cfg_release :: string
  cfg_secureCookies :: bool
  cfg_trustedProxies :: "prefix list"
  cfg_rawDays :: int
  cfg_rollupDays :: int
  cfg_analyticsDays :: int
  cfg_geoIPPath :: string
  cfg_wgPort :: int
  cfg_tunnelCIDR :: prefix
  cfg_publicEndpoint :: string
  cfg_publicURL :: string
  cfg_tlsDomain :: string
  cfg_httpsAddr :: string
  cfg_acmeHTTPAddr :: string
  cfg_acmeEmail :: string
  cfg_acmeStaging :: bool

type_synonym environ = "string \<Rightarrow> string option"

record configURL =
  cu_scheme :: string
  cu_host :: string
  cu_hasUser :: bool
  cu_rawQuery :: string
  cu_fragment :: string

definition Getenv :: "environ \<Rightarrow> string \<Rightarrow> string" where
  "Getenv env key = (case env key of None \<Rightarrow> '''' | Some v \<Rightarrow> v)"

definition getOr :: "environ \<Rightarrow> string \<Rightarrow> string \<Rightarrow> string" where
  "getOr env key fallback = (if Getenv env key \<noteq> '''' then Getenv env key else fallback)"

text \<open>A setting is missing when it is unset or blank.\<close>

definition missing :: "environ \<Rightarrow> string \<Rightarrow> bool" where
  "missing env key = (case env key of None \<Rightarrow> True | Some v \<Rightarrow> trimSpace v = '''')"

definition cfgError :: "string \<Rightarrow> string \<Rightarrow> 'a result" where
  "cfgError key why = Inl (OtherError (''config: '' @ key @ why))"

definition getBool :: "environ \<Rightarrow> string \<Rightarrow> bool \<Rightarrow> bool result" where
  "getBool env key fallback =
     (if missing env key then Inr fallback
      else case parseBoolText (Getenv env key) of None \<Rightarrow> cfgError key '' must be a boolean'' | Some b \<Rightarrow> Inr b)"

definition getPositiveInt :: "environ \<Rightarrow> string \<Rightarrow> int \<Rightarrow> int result" where
  "getPositiveInt env key fallback =
     (if missing env key then Inr fallback
      else case atoi (trimSpace (Getenv env key)) of
             None \<Rightarrow> cfgError key '' must be a positive integer number of days''
           | Some n \<Rightarrow> if n \<le> 0 then cfgError key '' must be a positive integer number of days'' else Inr n)"

definition trimSlashes :: "string \<Rightarrow> string" where
  "trimSlashes s = rev (dropWhile (\<lambda>c. c = CHR ''/'') (rev s))"

definition parsePublicURL :: "(string \<Rightarrow> configURL option) \<Rightarrow> string \<Rightarrow> string result" where
  "parsePublicURL parseURL value =
     (let raw = trimSpace value
      in if raw = '''' then Inr ''''
         else case parseURL raw of
                None \<Rightarrow> cfgError ''SMOTRYASHCHIY_PUBLIC_URL'' '' must be an absolute http(s) URL without credentials, query or fragment''
              | Some u \<Rightarrow>
                  if (cu_scheme u \<noteq> ''http'' \<and> cu_scheme u \<noteq> ''https'') \<or> cu_host u = '''' \<or> cu_hasUser u \<or> cu_rawQuery u \<noteq> '''' \<or> cu_fragment u \<noteq> ''''
                  then cfgError ''SMOTRYASHCHIY_PUBLIC_URL'' '' must be an absolute http(s) URL without credentials, query or fragment''
                  else Inr (trimSlashes raw))"

definition validPort :: "string \<Rightarrow> bool" where
  "validPort raw = (case atoi raw of None \<Rightarrow> False | Some n \<Rightarrow> 1 \<le> n \<and> n \<le> 65535)"

definition getPort :: "environ \<Rightarrow> string \<Rightarrow> int \<Rightarrow> int result" where
  "getPort env key fallback =
     (if missing env key then Inr fallback
      else if \<not> validPort (trimSpace (Getenv env key)) then cfgError key '' must be a port between 1 and 65535''
      else Inr (case atoi (trimSpace (Getenv env key)) of Some n \<Rightarrow> n | None \<Rightarrow> 0))"

definition parseTunnelCIDR :: "string \<Rightarrow> prefix result" where
  "parseTunnelCIDR value =
     (case ParsePrefix (trimSpace value) of
        None \<Rightarrow> cfgError ''SMOTRYASHCHIY_TUNNEL_CIDR'' '' must be an IPv4 CIDR between /8 and /24''
      | Some p \<Rightarrow>
          if \<not> addrIs4 (p_addr p) \<or> p_bits p < 8 \<or> 24 < p_bits p
          then cfgError ''SMOTRYASHCHIY_TUNNEL_CIDR'' '' must be an IPv4 CIDR between /8 and /24''
          else Inr (Masked p))"

fun prefixList :: "string list \<Rightarrow> prefix list result" where
  "prefixList [] = Inr []"
| "prefixList (s # ss) =
     (case ParsePrefix (trimSpace s) of
        None \<Rightarrow> cfgError ''SMOTRYASHCHIY_TRUSTED_PROXY_CIDRS'' '' contains invalid CIDR''
      | Some p \<Rightarrow> result_bind (prefixList ss) (\<lambda>ps. Inr (Masked p # ps)))"

definition parsePrefixes :: "string \<Rightarrow> prefix list result" where
  "parsePrefixes value = (if trimSpace value = '''' then Inr [] else prefixList (splitOn (CHR '','') value))"

text \<open>The endpoint is an address with a port, or a host name with one.\<close>

definition parseEndpoint :: "string \<Rightarrow> string result" where
  "parseEndpoint endpoint =
     (if endpoint = '''' \<or> isAddrPort endpoint then Inr endpoint
      else case splitHostPort endpoint of
             None \<Rightarrow> cfgError ''SMOTRYASHCHIY_PUBLIC_ENDPOINT'' '' must be host:port''
           | Some host \<Rightarrow>
               if host = '''' \<or> \<not> validPort (portOf endpoint) then cfgError ''SMOTRYASHCHIY_PUBLIC_ENDPOINT'' '' must be host:port''
               else Inr endpoint)"

definition acmeCA :: "string \<Rightarrow> bool result" where
  "acmeCA ca =
     (if ca \<in> {'''', ''production''} then Inr False
      else if ca = ''staging'' then Inr True
      else cfgError ''SMOTRYASHCHIY_ACME_CA'' '' must be production or staging'')"

definition releasePattern :: "string \<Rightarrow> bool" where
  "releasePattern s \<longleftrightarrow> length s = 40 \<and> list_all isHex s"

definition checkProduction :: "config \<Rightarrow> config result" where
  "checkProduction cfg =
     (if \<not> cfg_production cfg then Inr cfg
      else if \<not> releasePattern (cfg_release cfg) then cfgError ''SMOTRYASHCHIY_RELEASE'' '' must be a 40-character lowercase Git SHA in production''
      else if \<not> cfg_secureCookies cfg then cfgError ''SMOTRYASHCHIY_SECURE_COOKIES'' '' must be true in production''
      else if cfg_publicURL cfg = '''' then cfgError ''SMOTRYASHCHIY_PUBLIC_URL'' '' (the URL agents use to enroll) is required in production''
      else if cfg_publicEndpoint cfg = '''' then cfgError ''SMOTRYASHCHIY_PUBLIC_ENDPOINT'' '' (agent-facing WireGuard host:port) is required in production''
      else if cfg_tlsDomain cfg = '''' \<and> cfg_trustedProxies cfg = [] then
        cfgError '''' ''production requires either built-in TLS or a trusted reverse proxy''
      else Inr cfg)"

definition Load :: "(string \<Rightarrow> configURL option) \<Rightarrow> string \<Rightarrow> environ \<Rightarrow> config result" where
  "Load parseURL defaultRelease env =
     result_bind (getBool env ''SMOTRYASHCHIY_PRODUCTION'' False) (\<lambda>production.
     result_bind (getBool env ''SMOTRYASHCHIY_SECURE_COOKIES'' production) (\<lambda>secure.
     result_bind (parsePrefixes (Getenv env ''SMOTRYASHCHIY_TRUSTED_PROXY_CIDRS'')) (\<lambda>proxies.
     result_bind (getPositiveInt env ''SMOTRYASHCHIY_RAW_RETENTION_DAYS'' 30) (\<lambda>rawDays.
     result_bind (getPositiveInt env ''SMOTRYASHCHIY_ROLLUP_RETENTION_DAYS'' 396) (\<lambda>rollupDays.
     result_bind (getPositiveInt env ''SMOTRYASHCHIY_ANALYTICS_RETENTION_DAYS'' 90) (\<lambda>analyticsDays.
     result_bind (getPort env ''SMOTRYASHCHIY_WG_PORT'' 51820) (\<lambda>wgPort.
     result_bind (parseTunnelCIDR (getOr env ''SMOTRYASHCHIY_TUNNEL_CIDR'' ''10.99.0.0/16'')) (\<lambda>tunnel.
     result_bind (parseEndpoint (trimSpace (Getenv env ''SMOTRYASHCHIY_PUBLIC_ENDPOINT''))) (\<lambda>endpoint.
     result_bind (parsePublicURL parseURL (Getenv env ''SMOTRYASHCHIY_PUBLIC_URL'')) (\<lambda>publicURL.
     result_bind (acmeCA (trimSpace (Getenv env ''SMOTRYASHCHIY_ACME_CA''))) (\<lambda>staging.
       let tlsDomain = trimSpace (Getenv env ''SMOTRYASHCHIY_TLS_DOMAIN'')
       in checkProduction
            \<lparr>cfg_addr = getOr env ''SMOTRYASHCHIY_ADDR'' '':8080'', cfg_dbPath = getOr env ''SMOTRYASHCHIY_DB_PATH'' ''./data/smotryashchiy.db'',
             cfg_production = production, cfg_release = getOr env ''SMOTRYASHCHIY_RELEASE'' defaultRelease,
             cfg_secureCookies = secure, cfg_trustedProxies = proxies, cfg_rawDays = rawDays, cfg_rollupDays = rollupDays,
             cfg_analyticsDays = analyticsDays, cfg_geoIPPath = trimSpace (Getenv env ''SMOTRYASHCHIY_GEOIP_PATH''),
             cfg_wgPort = wgPort, cfg_tunnelCIDR = tunnel, cfg_publicEndpoint = endpoint,
             cfg_publicURL = (if publicURL = '''' \<and> tlsDomain \<noteq> '''' then ''https://'' @ tlsDomain else publicURL),
             cfg_tlsDomain = tlsDomain, cfg_httpsAddr = getOr env ''SMOTRYASHCHIY_HTTPS_ADDR'' '':8443'',
             cfg_acmeHTTPAddr = getOr env ''SMOTRYASHCHIY_ACME_HTTP_ADDR'' '':8080'',
             cfg_acmeEmail = trimSpace (Getenv env ''SMOTRYASHCHIY_ACME_EMAIL''), cfg_acmeStaging = staging\<rparr>)))))))))))"

definition HealthProbeAddr :: "environ \<Rightarrow> string" where
  "HealthProbeAddr env =
     (if trimSpace (Getenv env ''SMOTRYASHCHIY_TLS_DOMAIN'') \<noteq> '''' then getOr env ''SMOTRYASHCHIY_ACME_HTTP_ADDR'' '':8080''
      else getOr env ''SMOTRYASHCHIY_ADDR'' '':8080'')"

subsection \<open>The retention settings as durations\<close>

text \<open>\<^verbatim>\<open>time.Duration\<close> is a signed 64-bit number of nanoseconds: the product wraps. \<open>retentionOf\<close> is what
  \<^verbatim>\<open>NewMaintenance\<close> and the composition root compute from a number of days.\<close>

definition dur64 :: "int \<Rightarrow> duration" where
  "dur64 n = sint (word_of_int n :: 64 word)"

definition retentionOf :: "int \<Rightarrow> duration" where
  "retentionOf days = dur64 (dur64 (days * 24) * hour)"

text \<open>A purge as the server runs it: the telemetry job with the configured numbers of days.\<close>

definition PurgeConfigured ::
  "(nat \<Rightarrow> nat option) \<Rightarrow> (nat \<Rightarrow> nat option) \<Rightarrow> config \<Rightarrow> time \<Rightarrow> tdb \<Rightarrow> unit result \<times> tdb" where
  "PurgeConfigured failsRaw failsRollups cfg now db =
     Purge failsRaw failsRollups (retentionOf (cfg_rawDays cfg)) (retentionOf (cfg_rollupDays cfg)) now db"

subsection \<open>What an accepted configuration guarantees\<close>

lemma dur64_eq: "dur64 n = (n + 2 ^ 63) mod 2 ^ 64 - 2 ^ 63"
proof -
  have "sint (word_of_int n :: 64 word) = signed_take_bit 63 n" by transfer simp
  then show ?thesis by (simp add: dur64_def signed_take_bit_eq_take_bit_shift take_bit_eq_mod)
qed

lemma dur64_mod: "dur64 n mod 2 ^ 64 = n mod 2 ^ 64"
  by (simp add: dur64_eq mod_diff_left_eq)

lemma retentionOf_eq: "retentionOf days = dur64 (days * day)"
proof -
  have "dur64 (days * 24) * hour mod 2 ^ 64 = days * 24 * hour mod 2 ^ 64"
    by (metis dur64_mod mod_mult_left_eq)
  then have "(dur64 (days * 24) * hour + 2 ^ 63) mod 2 ^ 64 = (days * 24 * hour + 2 ^ 63) mod 2 ^ 64"
    by (rule mod_add_cong) simp
  moreover have "days * 24 * hour = days * day" by simp
  ultimately show ?thesis
    unfolding retentionOf_def dur64_eq [of "dur64 (days * 24) * hour"] dur64_eq [of "days * day"] by simp
qed

lemma getPositiveInt_pos: "0 < fallback \<Longrightarrow> getPositiveInt env key fallback = Inr n \<Longrightarrow> 0 < n"
  by (auto simp: getPositiveInt_def cfgError_def split: if_splits option.splits)

lemma getPort_range: "1 \<le> fallback \<Longrightarrow> fallback \<le> 65535 \<Longrightarrow> getPort env key fallback = Inr n \<Longrightarrow> 1 \<le> n \<and> n \<le> 65535"
  by (auto simp: getPort_def validPort_def cfgError_def split: if_splits option.splits)

lemma maskAddr_idem: "maskAddr b (maskAddr b (V4 v)) = maskAddr b (V4 v)"
  by simp

lemma parseTunnelCIDR_ok:
  assumes "parseTunnelCIDR s = Inr p"
  shows "\<exists>v. p = \<lparr>p_addr = maskAddr (p_bits p) (V4 v), p_bits = p_bits p\<rparr> \<and> v < 2 ^ 32 \<and> 8 \<le> p_bits p \<and> p_bits p \<le> 24"
proof -
  obtain q where q: "ParsePrefix (trimSpace s) = Some q" "addrIs4 (p_addr q)" "8 \<le> p_bits q" "p_bits q \<le> 24" "p = Masked q"
    using assms by (auto simp: parseTunnelCIDR_def cfgError_def split: option.splits if_splits)
  obtain v where v: "p_addr q = V4 v" using q(2) by (auto simp: addrIs4_def split: addr.splits)
  have "\<exists>ip. ParseAddr ip = Some (p_addr q)"
    using q(1) by (auto simp: ParsePrefix_def split: option.splits if_splits prod.splits)
  then have "v < 2 ^ 32" using ParseAddr_wf v by fastforce
  then show ?thesis using q v by (auto simp: Masked_def prefixOf_def)
qed

lemma parsePublicURL_plain: "parsePublicURL parseURL v = Inr u \<Longrightarrow> u = [] \<or> last u \<noteq> CHR ''/''"
proof -
  have "trimSlashes s = [] \<or> last (trimSlashes s) \<noteq> CHR ''/''" for s
    using hd_dropWhile [of "\<lambda>c. c = CHR ''/''" "rev s"] unfolding trimSlashes_def by (auto simp: last_rev)
  then show "parsePublicURL parseURL v = Inr u \<Longrightarrow> u = [] \<or> last u \<noteq> CHR ''/''"
    by (auto simp: parsePublicURL_def cfgError_def Let_def split: if_splits option.splits)
qed

lemma result_bind_InrE:
  assumes "result_bind r f = Inr y"
  obtains x where "r = Inr x" "f x = Inr y"
  using assms by (cases r) auto

lemma checkProduction_Inr:
  "checkProduction cfg = Inr cfg' \<Longrightarrow>
   cfg' = cfg \<and> (cfg_production cfg \<longrightarrow> releasePattern (cfg_release cfg) \<and> cfg_secureCookies cfg \<and> cfg_publicURL cfg \<noteq> '''' \<and>
     cfg_publicEndpoint cfg \<noteq> '''' \<and> (cfg_tlsDomain cfg \<noteq> '''' \<or> cfg_trustedProxies cfg \<noteq> []))"
  by (auto simp: checkProduction_def cfgError_def split: if_splits)

text \<open>C35 (safety). A configuration the server starts with is fit for use: the tunnel subnet is a masked IPv4
  prefix of 8 to 24 bits, so enrollment has host addresses to give; the WireGuard port is a port, the
  retention settings are positive, the public URL takes a path behind it. In production it names a
  release, sends cookies over TLS only, tells agents where to enroll and to dial, and traffic is
  encrypted by the server itself or by a trusted proxy.\<close>

theorem accepted_config_fit:
  assumes "Load parseURL defaultRelease env = Inr cfg"
  shows "(\<exists>v. cfg_tunnelCIDR cfg = \<lparr>p_addr = maskAddr (p_bits (cfg_tunnelCIDR cfg)) (V4 v), p_bits = p_bits (cfg_tunnelCIDR cfg)\<rparr> \<and> v < 2 ^ 32) \<and>
     8 \<le> p_bits (cfg_tunnelCIDR cfg) \<and> p_bits (cfg_tunnelCIDR cfg) \<le> 24 \<and>
     1 \<le> cfg_wgPort cfg \<and> cfg_wgPort cfg \<le> 65535 \<and>
     0 < cfg_rawDays cfg \<and> 0 < cfg_rollupDays cfg \<and> 0 < cfg_analyticsDays cfg \<and>
     (cfg_production cfg \<longrightarrow>
        length (cfg_release cfg) = 40 \<and> list_all isHex (cfg_release cfg) \<and> cfg_secureCookies cfg \<and> cfg_publicURL cfg \<noteq> '''' \<and>
        cfg_publicEndpoint cfg \<noteq> '''' \<and> (cfg_tlsDomain cfg \<noteq> '''' \<or> cfg_trustedProxies cfg \<noteq> []))"
proof -
  obtain rawDays rollupDays analyticsDays wgPort tunnel cfg0 where
    days: "getPositiveInt env ''SMOTRYASHCHIY_RAW_RETENTION_DAYS'' 30 = Inr rawDays"
      "getPositiveInt env ''SMOTRYASHCHIY_ROLLUP_RETENTION_DAYS'' 396 = Inr rollupDays"
      "getPositiveInt env ''SMOTRYASHCHIY_ANALYTICS_RETENTION_DAYS'' 90 = Inr analyticsDays"
    and port: "getPort env ''SMOTRYASHCHIY_WG_PORT'' 51820 = Inr wgPort"
    and tunnel: "parseTunnelCIDR (getOr env ''SMOTRYASHCHIY_TUNNEL_CIDR'' ''10.99.0.0/16'') = Inr tunnel"
    and cfg0: "checkProduction cfg0 = Inr cfg" "cfg_rawDays cfg0 = rawDays" "cfg_rollupDays cfg0 = rollupDays"
      "cfg_analyticsDays cfg0 = analyticsDays" "cfg_wgPort cfg0 = wgPort" "cfg_tunnelCIDR cfg0 = tunnel"
    using assms unfolding Load_def Let_def by (elim result_bind_InrE) force
  have "0 < rawDays" "0 < rollupDays" "0 < analyticsDays"
    using days getPositiveInt_pos [of 30] getPositiveInt_pos [of 396] getPositiveInt_pos [of 90] by simp_all
  moreover have "1 \<le> wgPort \<and> wgPort \<le> 65535" using port getPort_range [of 51820] by simp
  ultimately show ?thesis
    using checkProduction_Inr [OF cfg0(1)] parseTunnelCIDR_ok [OF tunnel] cfg0(2-6) by (auto simp: releasePattern_def)
qed

subsection \<open>Retention settings that wrap around\<close>

lemma retentionOf_exact: "0 < days \<Longrightarrow> days \<le> 106751 \<Longrightarrow> retentionOf days = days * day"
  by (simp add: retentionOf_eq dur64_eq)

lemma retentionOf_negative:
  assumes "106752 \<le> days" and "days \<le> 213503"
  shows "retentionOf days = days * day - 2 ^ 64" and "retentionOf days \<le> - (23 * hour)"
proof -
  have "(days * day + 2 ^ 63) mod 2 ^ 64 = (days * day + 2 ^ 63 - 2 ^ 64) mod 2 ^ 64" by (metis minus_mod_self2)
  also have "\<dots> = days * day + 2 ^ 63 - 2 ^ 64" using assms by (intro mod_pos_pos_trivial) auto
  finally show "retentionOf days = days * day - 2 ^ 64" by (simp add: retentionOf_eq dur64_eq)
  then show "retentionOf days \<le> - (23 * hour)" using assms by simp
qed

lemma Purge_clears_rollups:
  assumes "wf_table (batches db)" and "rollupTTL \<le> - (23 * hour)"
    and "Purge (\<lambda>_. None) (\<lambda>_. None) rawTTL rollupTTL now db = (r, db')"
  shows "r = Inr () \<and> (\<forall>x\<in>set (rollups db'). unixMilli now < snd (fst x))"
proof -
  obtain db1 where db1: "wf_table (batches db1)"
    "(r, db') = drainRollups (\<lambda>_. None) 0 (truncateTo hour (now - rollupTTL)) purgeBatch db1"
  proof (cases "RolledThrough db")
    case None
    then show ?thesis using that [OF assms(1)] assms(3) by (simp add: Purge_def)
  next
    case (Some t)
    let ?d = "drainRaw (\<lambda>_. None) 0 (rawCutoff now rawTTL t) purgeBatch db"
    have "fst ?d = Inr ()" "wf_table (batches (snd ?d))"
      using drainRaw_spec [OF assms(1), of "rawCutoff now rawTTL t" "\<lambda>_. None" 0 purgeBatch] by (simp_all add: keeps_def)
    then show ?thesis using that [of "snd ?d"] assms(3) Some by (cases ?d) (simp add: Purge_def)
  qed
  have d: "fst (drainRollups (\<lambda>_. None) 0 (truncateTo hour (now - rollupTTL)) purgeBatch db1) = r"
    "snd (drainRollups (\<lambda>_. None) 0 (truncateTo hour (now - rollupTTL)) purgeBatch db1) = db'" by (simp_all flip: db1(2))
  have le: "now + 22 * hour \<le> truncateTo hour (now - rollupTTL)"
    using truncateTo_gt [of hour "now - rollupTTL"] assms(2) by simp
  have "unixMilli now < unixMilli (now + 22 * hour)" by (simp add: unixMilli_def)
  also have "\<dots> \<le> unixMilli (truncateTo hour (now - rollupTTL))" using le by (rule unixMilli_mono)
  finally have "unixMilli now < unixMilli (truncateTo hour (now - rollupTTL))" .
  then show ?thesis
    using drainRollups_spec [of "\<lambda>_. None" 0 "truncateTo hour (now - rollupTTL)" purgeBatch db1]
    unfolding Let_def d by (force simp: purgeBatch_def)
qed

text \<open>C36 (error). A large retention setting is accepted and deletes what it should keep: from 106752 to 213503
  days, some 292 to 584 years, the duration wraps to a negative one, the limit of the purge lies in
  the future, and the first purge that succeeds removes every hourly aggregate there is.\<close>

theorem large_retention_deletes_rollups:
  assumes "Load parseURL defaultRelease env = Inr cfg" and "106752 \<le> cfg_rollupDays cfg" and "cfg_rollupDays cfg \<le> 213503"
    and "wf_table (batches db)" and "PurgeConfigured (\<lambda>_. None) (\<lambda>_. None) cfg now db = (r, db')"
  shows "r = Inr () \<and> (\<forall>x\<in>set (rollups db'). unixMilli now < snd (fst x))"
  using Purge_clears_rollups [OF assms(4) retentionOf_negative(2) [OF assms(2,3)]] assms(5) by (simp add: PurgeConfigured_def)

subsection \<open>Concrete environments\<close>

definition largeEnv :: environ where
  "largeEnv = (\<lambda>_. None)(''SMOTRYASHCHIY_ROLLUP_RETENTION_DAYS'' \<mapsto> ''106752'')"

lemma tunnel_default: "parseTunnelCIDR ''10.99.0.0/16'' = Inr \<lparr>p_addr = V4 174260224, p_bits = 16\<rparr>"
proof -
  have t: "trimSpace ''10.99.0.0/16'' = ''10.99.0.0/16''" by (rule trimSpace_plain) (simp_all add: byte_def)
  have "ParsePrefix ''10.99.0.0/16'' = Some \<lparr>p_addr = V4 174260224, p_bits = 16\<rparr>"
    by (simp add: ParsePrefix_def splitLast_def parse_eval addrIs4_def atoi_def)
  then show ?thesis unfolding parseTunnelCIDR_def t by (simp add: addrIs4_def Masked_def prefixOf_def)
qed

lemma largeEnv_config:
  "\<exists>cfg. Load (\<lambda>_. None) '''' largeEnv = Inr cfg \<and> cfg_rollupDays cfg = 106752 \<and> \<not> cfg_production cfg"
proof -
  have t: "trimSpace ''106752'' = ''106752''" by (rule trimSpace_plain) (simp add: byte_def)
  have d: "getPositiveInt largeEnv ''SMOTRYASHCHIY_ROLLUP_RETENTION_DAYS'' 396 = Inr 106752"
    by (simp add: getPositiveInt_def missing_def Getenv_def largeEnv_def t atoi_def isDigit_def byte_def)
  have o: "largeEnv k = None" if "k \<noteq> ''SMOTRYASHCHIY_ROLLUP_RETENTION_DAYS''" for k using that by (simp add: largeEnv_def)
  show ?thesis
    unfolding Load_def d
    by (simp add: getBool_def getPositiveInt_def getPort_def missing_def getOr_def Getenv_def o tunnel_default parsePrefixes_def
        parseEndpoint_def parsePublicURL_def acmeCA_def checkProduction_def Let_def)
qed

theorem large_retention_deletes_rollups_witness:
  "\<exists>cfg db'. Load (\<lambda>_. None) '''' largeEnv = Inr cfg \<and>
     PurgeConfigured (\<lambda>_. None) (\<lambda>_. None) cfg second (demoDb\<lparr>rollups := [hourRow 0]\<rparr>) = (Inr (), db') \<and> hourRow 0 \<notin> set (rollups db')"
proof -
  obtain cfg where cfg: "Load (\<lambda>_. None) '''' largeEnv = Inr cfg" "cfg_rollupDays cfg = 106752" using largeEnv_config by blast
  obtain r db' where p: "PurgeConfigured (\<lambda>_. None) (\<lambda>_. None) cfg second (demoDb\<lparr>rollups := [hourRow 0]\<rparr>) = (r, db')" by fastforce
  have "wf_table (batches (demoDb\<lparr>rollups := [hourRow 0]\<rparr>))" by (simp add: demoDb_def)
  then have "r = Inr () \<and> (\<forall>x\<in>set (rollups db'). unixMilli second < snd (fst x))"
    using large_retention_deletes_rollups [OF cfg(1) _ _ _ p] cfg(2) by simp
  moreover have "\<not> unixMilli second < snd (fst (hourRow 0))" by (simp add: hourRow_def unixMilli_def)
  ultimately show ?thesis using cfg(1) p by blast
qed

definition productionEnv :: environ where
  "productionEnv = (\<lambda>_. None)(''SMOTRYASHCHIY_PRODUCTION'' \<mapsto> ''true'', ''SMOTRYASHCHIY_TLS_DOMAIN'' \<mapsto> ''mon.example'',
     ''SMOTRYASHCHIY_PUBLIC_ENDPOINT'' \<mapsto> ''192.0.2.7:51820'')"

definition demoRelease :: string where "demoRelease = replicate 40 (CHR ''a'')"

lemma productionEnv_config: "\<exists>cfg. Load (\<lambda>_. None) demoRelease productionEnv = Inr cfg \<and> cfg_production cfg"
proof -
  have t: "trimSpace ''true'' = ''true''" "trimSpace ''mon.example'' = ''mon.example''" "trimSpace ''192.0.2.7:51820'' = ''192.0.2.7:51820''"
    by (rule trimSpace_plain; simp add: byte_def)+
  have e: "isAddrPort ''192.0.2.7:51820''"
    by (simp add: isAddrPort_def splitLast_def parse_eval addrIs4_def parseUint64_def unat_of_nat)
  have r: "releasePattern demoRelease" by (simp add: releasePattern_def demoRelease_def isHex_def byte_def list_all_iff)
  then have "demoRelease \<noteq> []" by (auto simp: releasePattern_def)
  then show ?thesis
    unfolding Load_def
    by (simp add: getBool_def getPositiveInt_def getPort_def missing_def getOr_def Getenv_def productionEnv_def t tunnel_default parsePrefixes_def
        parseEndpoint_def parsePublicURL_def acmeCA_def checkProduction_def Let_def parseBoolText_def e r)
qed

theorem accepted_config_fit_witness:
  "\<exists>cfg. Load (\<lambda>_. None) demoRelease productionEnv = Inr cfg \<and> cfg_secureCookies cfg \<and> cfg_publicURL cfg \<noteq> '''' \<and>
     p_bits (cfg_tunnelCIDR cfg) \<le> 24"
proof -
  obtain cfg where cfg: "Load (\<lambda>_. None) demoRelease productionEnv = Inr cfg" "cfg_production cfg" using productionEnv_config by blast
  from accepted_config_fit [OF cfg(1)] cfg show ?thesis by blast
qed

text \<open>An endpoint that is an IP address may have port 0, which the check of the host name form refuses.\<close>

lemma endpoint_port_zero:
  "parseEndpoint ''192.0.2.7:0'' = Inr ''192.0.2.7:0''"
  "parseEndpoint ''mon.example:0'' = cfgError ''SMOTRYASHCHIY_PUBLIC_ENDPOINT'' '' must be host:port''"
proof -
  have "isAddrPort ''192.0.2.7:0''"
    by (simp add: isAddrPort_def splitLast_def parse_eval addrIs4_def parseUint64_def)
  then show "parseEndpoint ''192.0.2.7:0'' = Inr ''192.0.2.7:0''" by (simp add: parseEndpoint_def)
  show "parseEndpoint ''mon.example:0'' = cfgError ''SMOTRYASHCHIY_PUBLIC_ENDPOINT'' '' must be host:port''"
    by (simp add: parseEndpoint_def isAddrPort_def splitLast_def parse_eval parseUint64_def splitHostPort_def containsAny_def
        validPort_def portOf_def atoi_def)
qed

end
