(* ===== verification/Analytics_Http.thy ===== *)
theory Analytics_Http
  imports Http_Api Analytics_History Uptime
begin

section \<open>The HTTP handlers of analytics and uptime\<close>

text \<open>
  \<^verbatim>\<open>collect.go\<close> and \<^verbatim>\<open>handlers.go\<close> of internal/analytics/interfaces/http, and
  \<^verbatim>\<open>handlers.go\<close> of internal/uptime/interfaces/http. A request body comes as the decoded value, \<open>None\<close> when
  it is malformed or too large. The answer of the public collect endpoint is its status with the origin it
  allows, if any; \<^verbatim>\<open>url.Parse\<close> and \<^verbatim>\<open>URL.Hostname\<close> are the field \<open>ae_urlHost\<close> of the environment. The CSV export
  is the text \<^verbatim>\<open>encoding/csv\<close> writes; \<^verbatim>\<open>strconv.FormatFloat\<close> is a parameter.
\<close>

subsection \<open>Collect (collect.go)\<close>

definition maxCollectBody :: nat where "maxCollectBody = 4096"
definition collectEvery :: duration where "collectEvery = second"
definition collectBurst :: int where "collectBurst = 5"

record collectReply =
  cr_status :: int
  cr_allowOrigin :: "string option"

definition originHostname :: "anenv \<Rightarrow> request \<Rightarrow> string" where
  "originHostname env r = (case ae_urlHost env (headerGet r ''Origin'') of None \<Rightarrow> '''' | Some h \<Rightarrow> h)"

definition setCORS :: "anenv \<Rightarrow> error option \<Rightarrow> time \<Rightarrow> request \<Rightarrow> andb \<times> ansvc \<Rightarrow> string option \<times> ansvc" where
  "setCORS env fault now r st =
     (let host = originHostname env r
      in if host = '''' then (None, snd st)
         else case SitesSvc fault now (fst st) (snd st) of
                (Inl e, s) \<Rightarrow> (None, s)
              | (Inr ss, s) \<Rightarrow>
                  (if list_ex (\<lambda>x. OriginMatchesSite (ae_uni env) host (si_domain x)) ss then Some (headerGet r ''Origin'') else None, s))"

definition collectH ::
  "(duration \<Rightarrow> int \<Rightarrow> 'l) \<Rightarrow> ('l \<Rightarrow> time \<Rightarrow> bool \<times> 'l) \<Rightarrow> anenv \<Rightarrow> error option \<Rightarrow> anfaults \<Rightarrow> prefix list \<Rightarrow> time \<Rightarrow> request \<Rightarrow>
   beacon option \<Rightarrow> 'l limiter \<times> andb \<times> ansvc \<Rightarrow> collectReply \<times> 'l limiter \<times> andb \<times> ansvc" where
  "collectH newLim allowN env corsFault f trusted now r bd st =
     (case st of (lm, db, s) \<Rightarrow>
        let ip = ClientIP (r_remoteAddr r) (headerGet r ''X-Forwarded-For'') trusted
        in case Allow newLim allowN now (ClientKey ip) lm of (ok, lm') \<Rightarrow>
             if \<not> ok then (\<lparr>cr_status = 204, cr_allowOrigin = None\<rparr>, lm', db, CountCollect ''rate_limited'' s)
             else case setCORS env corsFault now r (db, s) of (origin, s1) \<Rightarrow>
                    (case bd of
                       None \<Rightarrow> (\<lparr>cr_status = 204, cr_allowOrigin = origin\<rparr>, lm', db, CountCollect ''malformed'' s1)
                     | Some b \<Rightarrow>
                         (case Collect env f now b ip (headerGet r ''User-Agent'') (originHostname env r) (db, s1) of
                            (_, db', s2) \<Rightarrow> (\<lparr>cr_status = 204, cr_allowOrigin = origin\<rparr>, lm', db', s2))))"

subsection \<open>Sites and queries (handlers.go)\<close>

definition maxBody :: nat where "maxBody = 8192"
definition maxQueryBody :: nat where "maxQueryBody = 65536"

definition collectStats :: "ansvc \<Rightarrow> (string \<times> int) list reply" where
  "collectStats s = Reply 200 (CollectCounts s)"

definition listSites :: "error option \<Rightarrow> time \<Rightarrow> andb \<times> ansvc \<Rightarrow> site list reply \<times> andb \<times> ansvc" where
  "listSites fault now st = (case SitesSvc fault now (fst st) (snd st) of (r, s) \<Rightarrow> (replyWith 200 r, fst st, s))"

definition createSite ::
  "anenv \<Rightarrow> error option \<Rightarrow> string option \<Rightarrow> time \<Rightarrow> newSite option \<Rightarrow> andb \<times> ansvc \<Rightarrow> site reply \<times> andb \<times> ansvc" where
  "createSite env fault rnd now bd st =
     (case bd of
        None \<Rightarrow> (apiFail (Invalid ''malformed request body''), st)
      | Some n \<Rightarrow> (case CreateSiteSvc env fault rnd now n st of (r, st') \<Rightarrow> (replyWith 201 r, st')))"

definition removeSite :: "error option \<Rightarrow> string \<Rightarrow> andb \<times> ansvc \<Rightarrow> unit reply \<times> andb \<times> ansvc" where
  "removeSite fault sid st = (case DeleteSiteSvc fault sid st of (r, st') \<Rightarrow> (replyWith 204 r, st'))"

definition realtimeH :: "error option \<Rightarrow> error option \<Rightarrow> time \<Rightarrow> string \<Rightarrow> andb \<Rightarrow> int reply" where
  "realtimeH f1 f2 now sid db = replyWith 200 (Realtime f1 f2 now sid db)"

text \<open>The CSV export: a cell that a spreadsheet would run as a formula gets an apostrophe.\<close>

definition formulaChars :: "char set" where
  "formulaChars = {CHR ''='', CHR ''+'', CHR ''-'', CHR ''@'', CHR 0x09, CHR 0x0D}"

definition csvCell :: "string \<Rightarrow> string" where
  "csvCell v = (if v \<noteq> '''' \<and> hd v \<in> formulaChars then CHR 0x27 # v else v)"

text \<open>\<^verbatim>\<open>csv.Writer.Write\<close>: when a field is quoted, how, and a record as a line.\<close>

definition fieldNeedsQuotes :: "string \<Rightarrow> bool" where
  "fieldNeedsQuotes s =
     (if s = '''' then False
      else s = [char_of (92::nat), CHR ''.''] \<or> CHR '','' \<in> set s \<or> CHR 0x22 \<in> set s \<or> CHR 0x0D \<in> set s \<or> CHR 0x0A \<in> set s \<or>
           list_ex (hasPrefix s) spaceSeqs)"

definition csvField :: "string \<Rightarrow> string" where
  "csvField s =
     (if fieldNeedsQuotes s
      then [CHR 0x22] @ concat (map (\<lambda>c. if c = CHR 0x22 then [CHR 0x22, CHR 0x22] else [c]) s) @ [CHR 0x22]
      else s)"

definition csvRecord :: "string list \<Rightarrow> string" where
  "csvRecord fs = joinWith '','' (map csvField fs) @ [CHR 0x0A]"

definition csvHeader :: "string \<Rightarrow> string list \<Rightarrow> queryResult \<Rightarrow> string list" where
  "csvHeader dimension ms res =
     (dimension # ms) @
     (if qr_compareRange res = None then []
      else (if snd (IsTimeDimension dimension) then [''compare_'' @ dimension] else []) @ map (\<lambda>m. ''compare_'' @ m) ms)"

definition metricOf :: "(string \<times> rat) list \<Rightarrow> string \<Rightarrow> rat" where
  "metricOf t m = (case map_of t m of Some x \<Rightarrow> x | None \<Rightarrow> 0)"

definition csvRow :: "(rat \<Rightarrow> string) \<Rightarrow> string \<Rightarrow> string list \<Rightarrow> queryResult \<Rightarrow> resultRow \<Rightarrow> string list" where
  "csvRow fmt dimension ms res row =
     (csvCell (rr_value row) # map (\<lambda>m. fmt (metricOf (rr_metrics row) m)) ms) @
     (if qr_compareRange res = None then []
      else (if snd (IsTimeDimension dimension) then [csvCell (rr_compareValue row)] else []) @
           map (\<lambda>m. case rr_compare row of None \<Rightarrow> '''' | Some t \<Rightarrow> fmt (metricOf t m)) ms)"

definition csvRecords :: "(rat \<Rightarrow> string) \<Rightarrow> string \<Rightarrow> string list \<Rightarrow> queryResult \<Rightarrow> string list list" where
  "csvRecords fmt dim0 ms res =
     (let dimension = (if dim0 = '''' then ''total'' else dim0)
      in csvHeader dimension ms res # map (csvRow fmt dimension ms res) (qr_rows res))"

definition writeCSV :: "(rat \<Rightarrow> string) \<Rightarrow> string \<Rightarrow> string list \<Rightarrow> queryResult \<Rightarrow> string" where
  "writeCSV fmt dim0 ms res = concat (map csvRecord (csvRecords fmt dim0 ms res))"

datatype queryBody = JsonBody queryResult | CsvBody string string

definition queryH ::
  "(rat \<Rightarrow> string) \<Rightarrow> qenv \<Rightarrow> qfaults \<Rightarrow> time \<Rightarrow> string \<Rightarrow> query option \<Rightarrow> andb \<Rightarrow> queryBody reply" where
  "queryH fmt env f now sid bd db =
     (case bd of
        None \<Rightarrow> apiFail (Invalid ''malformed query'')
      | Some q \<Rightarrow>
          (case Query env f now sid q db of
             Inl e \<Rightarrow> apiFail e
           | Inr res \<Rightarrow>
               if q_format q \<noteq> ''csv'' then Reply 200 (JsonBody res)
               else Reply 200 (CsvBody (''analytics-'' @ fst (qr_dateRange res) @ ''-'' @ snd (qr_dateRange res) @ ''.csv'')
                      (writeCSV fmt (q_dimension q) (if q_metrics q = [] then [''visitors''] else q_metrics q) res))))"

subsection \<open>Uptime (handlers.go)\<close>

definition listTargets :: "error option \<Rightarrow> error option \<Rightarrow> error option \<Rightarrow> time \<Rightarrow> updb \<Rightarrow> targetView list reply" where
  "listTargets f1 f2 f3 now db = replyWith 200 (Targets f1 f2 f3 now db)"

definition createTargetH ::
  "(string \<Rightarrow> urlParts option) \<Rightarrow> error option \<Rightarrow> string option \<Rightarrow> time \<Rightarrow> newTarget option \<Rightarrow> updb \<times> bool \<Rightarrow> targetView reply \<times> updb \<times> bool" where
  "createTargetH parseURL fault rnd now bd st =
     (case bd of
        None \<Rightarrow> (apiFail (Invalid ''malformed request body''), st)
      | Some n \<Rightarrow>
          (case CreateSvc parseURL fault rnd n now st of
             (Inl e, st') \<Rightarrow> (apiFail e, st')
           | (Inr t, st') \<Rightarrow> (Reply 201 \<lparr>tv_target = t, tv_last = None, tv_latency = []\<rparr>, st')))"

definition removeTarget :: "error option \<Rightarrow> string \<Rightarrow> updb \<times> bool \<Rightarrow> unit reply \<times> updb \<times> bool" where
  "removeTarget fault tid st = (case DeleteSvc fault tid st of (r, st') \<Rightarrow> (replyWith 204 r, st'))"

subsection \<open>The answer of collect\<close>

lemma collect_outcome_known:
  assumes "collect env f now b ip ua origin (db, s) = ((stored, outcome, err), db', s')"
  shows "outcome \<in> set collectOutcomes"
  using assms
  by (auto simp: collect_def collectOutcomes_def split: if_splits sum.splits option.splits prod.splits)

lemma setCORS_counts: "setCORS env fault now r (db, s) = (h, s') \<Longrightarrow> outcomes s' = outcomes s"
  by (auto simp: setCORS_def SitesSvc_def Let_def split: if_splits option.splits sum.splits)

lemma countOf_after: "outcomes s1 = outcomes s \<Longrightarrow> countOf k (CountCollect out s1) = countOf k s + (if k = out then 1 else 0)"
  by (simp add: countOf_count) (simp add: countOf_def)

text \<open>The sites a request is compared with: the cached list or, when it is stale, the table.\<close>

definition knownSites :: "error option \<Rightarrow> time \<Rightarrow> andb \<Rightarrow> ansvc \<Rightarrow> site list" where
  "knownSites fault now db s = (case fst (SitesSvc fault now db s) of Inl _ \<Rightarrow> [] | Inr ss \<Rightarrow> ss)"

lemma setCORS_eq:
  "fst (setCORS env fault now r (db, s)) =
     (if \<exists>x\<in>set (knownSites fault now db s). OriginMatchesSite (ae_uni env) (originHostname env r) (si_domain x)
      then Some (headerGet r ''Origin'') else None)"
proof -
  have "\<not> OriginMatchesSite uni '''' d" for uni d by (simp add: OriginMatchesSite_def toLower_def isAscii_def)
  then show ?thesis
    by (cases "SitesSvc fault now db s") (auto simp: setCORS_def knownSites_def Let_def list_ex_iff split: sum.splits)
qed

text \<open>The public collect endpoint always answers 204, and its only other content is the allowed
  origin, which depends on the limiter, the Origin header and the registered sites and on nothing
  else: neither on the beacon, nor on the User-Agent, nor on whether a pageview was stored. A request
  over the limit touches no table. Every request is counted under exactly one outcome. The allowed
  origin does tell a prober whether a site of that domain is registered.\<close>

lemma collect_answer_uniform:
  assumes "collectH newLim allowN env corsFault f trusted now r bd (lm, db, s) = (reply, lm', db', s')"
  shows "reply = \<lparr>cr_status = 204, cr_allowOrigin =
           (if fst (Allow newLim allowN now (ClientKey (ClientIP (r_remoteAddr r) (headerGet r ''X-Forwarded-For'') trusted)) lm) \<and>
               (\<exists>x\<in>set (knownSites corsFault now db s). OriginMatchesSite (ae_uni env) (originHostname env r) (si_domain x))
            then Some (headerGet r ''Origin'') else None)\<rparr> \<and>
     (\<not> fst (Allow newLim allowN now (ClientKey (ClientIP (r_remoteAddr r) (headerGet r ''X-Forwarded-For'') trusted)) lm) \<longrightarrow>
        db' = db \<and> cachedSites s' = cachedSites s) \<and>
     (\<exists>out\<in>set collectOutcomes. \<forall>k. countOf k s' = countOf k s + (if k = out then 1 else 0))"
proof -
  define ip where "ip = ClientIP (r_remoteAddr r) (headerGet r ''X-Forwarded-For'') trusted"
  obtain ok lm1 where al: "Allow newLim allowN now (ClientKey ip) lm = (ok, lm1)" by fastforce
  obtain h s1 where c: "setCORS env corsFault now r (db, s) = (h, s1)" by fastforce
  have h: "h = (if \<exists>x\<in>set (knownSites corsFault now db s). OriginMatchesSite (ae_uni env) (originHostname env r) (si_domain x)
      then Some (headerGet r ''Origin'') else None)" using setCORS_eq [of env corsFault now r db s] c by simp
  note o1 = setCORS_counts [OF c]
  note run = assms [unfolded collectH_def Let_def prod.case, folded ip_def, unfolded al prod.case c]
  have outs: "''rate_limited'' \<in> set collectOutcomes" "''malformed'' \<in> set collectOutcomes" by (simp_all add: collectOutcomes_def)
  show ?thesis
  proof (cases ok)
    case False
    then have "reply = \<lparr>cr_status = 204, cr_allowOrigin = None\<rparr>" "db' = db" "s' = CountCollect ''rate_limited'' s" using run by auto
    moreover have "cachedSites (CountCollect out s) = cachedSites s" for out by (simp add: CountCollect_def)
    ultimately show ?thesis
      using False al outs(1) unfolding ip_def [symmetric] by (auto simp: countOf_count intro!: bexI [of _ "''rate_limited''"])
  next
    case True
    show ?thesis
    proof (cases bd)
      case None
      then have e: "reply = \<lparr>cr_status = 204, cr_allowOrigin = h\<rparr>" "s' = CountCollect ''malformed'' s1" using run True by auto
      have "\<exists>out\<in>set collectOutcomes. \<forall>k. countOf k s' = countOf k s + (if k = out then 1 else 0)"
        unfolding e(2) using countOf_after [OF o1] outs(2) by blast
      then show ?thesis using e(1) True al h unfolding ip_def [symmetric] by simp
    next
      case (Some b)
      obtain stored outcome err s2 where p: "collect env f now b ip (headerGet r ''User-Agent'') (originHostname env r) (db, s1) = ((stored, outcome, err), db', s2)"
        and e: "reply = \<lparr>cr_status = 204, cr_allowOrigin = h\<rparr>" "s' = CountCollect outcome s2"
        using run True Some by (auto simp: Collect_def split: prod.splits)
      have "\<exists>out\<in>set collectOutcomes. \<forall>k. countOf k s' = countOf k s + (if k = out then 1 else 0)"
        unfolding e(2) using countOf_after [of s2 s] collect_outcomes [OF p] o1 collect_outcome_known [OF p] by auto
      then show ?thesis using e(1) True al h unfolding ip_def [symmetric] by simp
    qed
  qed
qed

subsection \<open>Reading the export back\<close>

text \<open>A reader of comma-separated text by RFC 4180: a field is plain or quoted, a doubled quote stands for one.\<close>

datatype csvMode = FieldStart | Plain | Quoted | QuoteSeen

fun readCSV :: "csvMode \<Rightarrow> string \<Rightarrow> string list \<Rightarrow> string \<Rightarrow> string list list" where
  "readCSV mode cell row [] = []"
| "readCSV mode cell row (c # cs) =
     (if mode = Quoted then (if c = CHR 0x22 then readCSV QuoteSeen cell row cs else readCSV Quoted (cell @ [c]) row cs)
      else if mode = QuoteSeen \<and> c = CHR 0x22 then readCSV Quoted (cell @ [c]) row cs
      else if mode = FieldStart \<and> c = CHR 0x22 then readCSV Quoted [] row cs
      else if c = CHR '','' then readCSV FieldStart [] (row @ [cell]) cs
      else if c = CHR 0x0A then (row @ [cell]) # readCSV FieldStart [] [] cs
      else readCSV (if mode = FieldStart then Plain else mode) (cell @ [c]) row cs)"

lemma read_quoted:
  "readCSV Quoted cell row (concat (map (\<lambda>c. if c = CHR 0x22 then [CHR 0x22, CHR 0x22] else [c]) s) @ [CHR 0x22] @ rest) =
   readCSV QuoteSeen (cell @ s) row rest"
  by (induction s arbitrary: cell) auto

lemma read_plain:
  "CHR '','' \<notin> set s \<Longrightarrow> CHR 0x22 \<notin> set s \<Longrightarrow> CHR 0x0A \<notin> set s \<Longrightarrow>
   readCSV Plain cell row (s @ rest) = readCSV Plain (cell @ s) row rest"
  by (induction s arbitrary: cell) auto

lemma read_field:
  assumes "sep = CHR '','' \<or> sep = CHR 0x0A"
  shows "readCSV FieldStart [] row (csvField s @ sep # rest) =
    (if sep = CHR '','' then readCSV FieldStart [] (row @ [s]) rest else (row @ [s]) # readCSV FieldStart [] [] rest)"
proof (cases "fieldNeedsQuotes s")
  case True
  then have "readCSV FieldStart [] row (csvField s @ sep # rest) = readCSV QuoteSeen s row (sep # rest)"
    using read_quoted [of "[]" row s "sep # rest"] by (simp add: csvField_def)
  then show ?thesis using assms by auto
next
  case False
  then have e: "csvField s = s" by (simp add: csvField_def)
  show ?thesis
  proof (cases s)
    case Nil
    then show ?thesis using assms by (auto simp: csvField_def fieldNeedsQuotes_def)
  next
    case (Cons c t)
    have n: "CHR '','' \<notin> set s" "CHR 0x22 \<notin> set s" "CHR 0x0A \<notin> set s" using False Cons by (auto simp: fieldNeedsQuotes_def)
    then have "readCSV FieldStart [] row (s @ sep # rest) = readCSV Plain [c] row (t @ sep # rest)" using Cons by auto
    also have "\<dots> = readCSV Plain s row (sep # rest)" using read_plain [of t "[c]" row "sep # rest"] n Cons by simp
    finally show ?thesis using assms e by auto
  qed
qed

lemma read_record:
  "fs \<noteq> [] \<Longrightarrow> readCSV FieldStart [] row (csvRecord fs @ rest) = (row @ fs) # readCSV FieldStart [] [] rest"
proof (induction fs arbitrary: row)
  case (Cons f fs)
  show ?case
  proof (cases fs)
    case Nil
    then show ?thesis using read_field [of "CHR 0x0A" row f rest] by (simp add: csvRecord_def)
  next
    case (Cons g gs)
    have "readCSV FieldStart [] row (csvRecord (f # fs) @ rest) = readCSV FieldStart [] row (csvField f @ CHR '','' # csvRecord fs @ rest)"
      using Cons by (simp add: csvRecord_def)
    also have "\<dots> = readCSV FieldStart [] (row @ [f]) (csvRecord fs @ rest)" by (simp add: read_field)
    finally show ?thesis using Cons.IH [of "row @ [f]"] Cons by simp
  qed
qed simp

lemma read_records: "\<forall>fs\<in>set recs. fs \<noteq> [] \<Longrightarrow> readCSV FieldStart [] [] (concat (map csvRecord recs)) = recs"
  by (induction recs) (simp_all add: read_record)

lemma csvCell_safe: "csvCell v = [] \<or> hd (csvCell v) \<notin> formulaChars"
  by (auto simp: csvCell_def formulaChars_def)

text \<open>C37 (roundtrip). No stored value can forge the CSV export: whatever paths, referrers or campaign names visitors
  sent, a CSV reader finds exactly the header and one record per row of the result, with the same
  number of fields each, and the cell that holds the visitors' text does not start a formula.\<close>

theorem csv_export_exact:
  "readCSV FieldStart [] [] (writeCSV fmt dim0 ms res) = csvRecords fmt dim0 ms res \<and>
   length (csvRecords fmt dim0 ms res) = Suc (length (qr_rows res)) \<and>
   (\<forall>rec\<in>set (csvRecords fmt dim0 ms res). length rec = length (hd (csvRecords fmt dim0 ms res))) \<and>
   (\<forall>rec\<in>set (tl (csvRecords fmt dim0 ms res)). hd rec = [] \<or> hd (hd rec) \<notin> formulaChars)"
proof (intro conjI)
  have "\<forall>rec\<in>set (csvRecords fmt dim0 ms res). rec \<noteq> []" by (auto simp: csvRecords_def Let_def csvHeader_def csvRow_def)
  then show "readCSV FieldStart [] [] (writeCSV fmt dim0 ms res) = csvRecords fmt dim0 ms res"
    unfolding writeCSV_def by (rule read_records)
  show "length (csvRecords fmt dim0 ms res) = Suc (length (qr_rows res))" by (simp add: csvRecords_def Let_def)
  show "\<forall>rec\<in>set (csvRecords fmt dim0 ms res). length rec = length (hd (csvRecords fmt dim0 ms res))"
    by (auto simp: csvRecords_def Let_def csvHeader_def csvRow_def)
  show "\<forall>rec\<in>set (tl (csvRecords fmt dim0 ms res)). hd rec = [] \<or> hd (hd rec) \<notin> formulaChars"
    using csvCell_safe by (auto simp: csvRecords_def Let_def csvRow_def)
qed

subsection \<open>A probe and an export\<close>

definition probeEnv :: anenv where
  "probeEnv = demoEnv\<lparr>ae_urlHost := (\<lambda>o'. if hasPrefix o' ''https://'' then Some (drop 8 o') else None)\<rparr>"

definition probe :: "string \<Rightarrow> request" where
  "probe origin = demoRequest\<lparr>r_header := [(''Origin'', origin)]\<rparr>"

lemma knownSites_demo: "knownSites None demoTime demoTables demoSvc = [demoSite]"
  by (simp add: knownSites_def SitesSvc_def demoSvc_def sitesTTL_def)

lemma collect_answer_uniform_witness:
  "cr_allowOrigin (fst (collectH (\<lambda>_ _. ()) (\<lambda>l _. (True, l)) probeEnv None demoFaults [] demoTime (probe ''https://shop.ru'') None
     (New collectEvery collectBurst, demoTables, demoSvc))) = Some ''https://shop.ru'' \<and>
   cr_allowOrigin (fst (collectH (\<lambda>_ _. ()) (\<lambda>l _. (True, l)) probeEnv None demoFaults [] demoTime (probe ''https://other.ru'') None
     (New collectEvery collectBurst, demoTables, demoSvc))) = None"
proof -
  have ok: "fst (Allow (\<lambda>_ _. ()) (\<lambda>l _. (True, l)) demoTime k (New collectEvery collectBurst)) = True" for k
    by (simp add: Allow_def New_def Let_def)
  have host: "originHostname probeEnv (probe (''https://'' @ d)) = d" "headerGet (probe (''https://'' @ d)) ''Origin'' = ''https://'' @ d" for d
    by (simp_all add: originHostname_def probeEnv_def probe_def headerGet_def hasPrefix_def)
  have m: "OriginMatchesSite (ae_uni probeEnv) ''shop.ru'' (si_domain demoSite)" "\<not> OriginMatchesSite (ae_uni probeEnv) ''other.ru'' (si_domain demoSite)"
    by (simp_all add: OriginMatchesSite_def probeEnv_def demoEnv_def demoSite_def toLower_def isAscii_def byte_def lowerAscii_def)
  have one: "cr_allowOrigin (fst (collectH (\<lambda>_ _. ()) (\<lambda>l _. (True, l)) probeEnv None demoFaults [] demoTime (probe (''https://'' @ d)) None
     (New collectEvery collectBurst, demoTables, demoSvc))) =
     (if OriginMatchesSite (ae_uni probeEnv) d (si_domain demoSite) then Some (''https://'' @ d) else None)" for d
  proof -
    obtain reply lm db s where c: "collectH (\<lambda>_ _. ()) (\<lambda>l _. (True, l)) probeEnv None demoFaults [] demoTime (probe (''https://'' @ d)) None
      (New collectEvery collectBurst, demoTables, demoSvc) = (reply, lm, db, s)" by (metis surj_pair)
    show ?thesis
      using collect_answer_uniform [OF c] unfolding ok knownSites_demo host c by simp
  qed
  show ?thesis using one [of "''shop.ru''"] one [of "''other.ru''"] m by simp
qed

definition demoExport :: queryResult where
  "demoExport = \<lparr>qr_dateRange = (''2024-01-01'', ''2024-01-01''), qr_compareRange = None, qr_timezone = ''UTC'', qr_source = ''raw'',
     qr_rows = [\<lparr>rr_value = ''=1+1,x'', rr_metrics = [(''visitors'', 1)], rr_compare = None, rr_compareValue = []\<rparr>]\<rparr>"

lemma demoExport_records: "csvRecords (\<lambda>_. ''1'') ''page'' [''visitors''] demoExport = [[''page'', ''visitors''], [CHR 0x27 # ''=1+1,x'', ''1'']]"
  by (simp add: csvRecords_def demoExport_def csvHeader_def csvRow_def csvCell_def formulaChars_def)

theorem csv_export_exact_witness:
  "readCSV FieldStart [] [] (writeCSV (\<lambda>_. ''1'') ''page'' [''visitors''] demoExport) =
   [[''page'', ''visitors''], [CHR 0x27 # ''=1+1,x'', ''1'']]"
  using csv_export_exact [of "\<lambda>_. ''1''" "''page''" "[''visitors'']" demoExport] by (simp add: demoExport_records)

end
