(* ===== verification/Migrations.thy ===== *)
theory Migrations
  imports Apierror GoText
begin

section \<open>Schema migrations (internal/platform/db/sqlite.go)\<close>

text \<open>
  A database is what the embedded scripts made of it, \<open>md_schema\<close>, and the versions recorded in
  \<^verbatim>\<open>schema_migrations\<close>, in the order they were inserted; \<open>None\<close> before that table exists. What a script
  does, \<open>run\<close>, is a parameter. A script and the record of its version are one transaction.
\<close>

record 's database =
  md_schema :: 's
  md_applied :: "string list option"

definition appliedVersions :: "'s database \<Rightarrow> string list" where
  "appliedVersions db = (case md_applied db of None \<Rightarrow> [] | Some vs \<Rightarrow> vs)"

text \<open>\<^verbatim>\<open>filepath.Base\<close> of the path of an embedded script.\<close>

definition baseName :: "string \<Rightarrow> string" where
  "baseName path = last (splitOn CHR ''/'' path)"

definition MigrationCount :: "(string \<times> string) list \<Rightarrow> nat" where
  "MigrationCount files = length files"

definition AppliedMigrations :: "error option \<Rightarrow> error option \<Rightarrow> 's database \<Rightarrow> nat result" where
  "AppliedMigrations inspectFault countFault db =
     (case inspectFault of
        Some e \<Rightarrow> Inl e
      | None \<Rightarrow>
          (case md_applied db of
             None \<Rightarrow> Inr 0
           | Some vs \<Rightarrow> (case countFault of Some e \<Rightarrow> Inl e | None \<Rightarrow> Inr (length vs))))"

text \<open>The statements around one script that may fail.\<close>

record migFaults =
  mg_check :: bool
  mg_read :: bool
  mg_begin :: bool
  mg_record :: bool
  mg_commit :: bool

definition migrateOne :: "(string \<Rightarrow> 's \<Rightarrow> 's result) \<Rightarrow> (string \<Rightarrow> migFaults) \<Rightarrow> string \<times> string \<Rightarrow> 's database \<Rightarrow> unit result \<times> 's database" where
  "migrateOne run faults entry db =
     (let version = baseName (fst entry); f = faults version
      in if mg_check f then (Inl (OtherError (''db: check migration '' @ version)), db)
         else if version \<in> set (appliedVersions db) then (Inr (), db)
         else if mg_read f then (Inl (OtherError (''db: read migration '' @ version)), db)
         else if mg_begin f then (Inl (OtherError (''db: begin migration '' @ version)), db)
         else case run (snd entry) (md_schema db) of
                Inl e \<Rightarrow> (Inl (OtherError (''db: apply migration '' @ version)), db)
              | Inr s \<Rightarrow>
                  if mg_record f then (Inl (OtherError (''db: record migration '' @ version)), db)
                  else if mg_commit f then (Inl (OtherError (''db: commit migration '' @ version)), db)
                  else (Inr (), \<lparr>md_schema = s, md_applied = Some (appliedVersions db @ [version])\<rparr>))"

fun migrateAll :: "(string \<Rightarrow> 's \<Rightarrow> 's result) \<Rightarrow> (string \<Rightarrow> migFaults) \<Rightarrow> (string \<times> string) list \<Rightarrow> 's database \<Rightarrow> unit result \<times> 's database" where
  "migrateAll run faults [] db = (Inr (), db)"
| "migrateAll run faults (entry # entries) db =
     (case migrateOne run faults entry db of
        (Inl e, db') \<Rightarrow> (Inl e, db')
      | (Inr _, db') \<Rightarrow> migrateAll run faults entries db')"

definition Migrate ::
  "(string \<Rightarrow> 's \<Rightarrow> 's result) \<Rightarrow> (string \<times> string) list \<Rightarrow> error option \<Rightarrow> (string \<Rightarrow> migFaults) \<Rightarrow> 's database \<Rightarrow> unit result \<times> 's database" where
  "Migrate run files createFault faults db =
     (case createFault of
        Some e \<Rightarrow> (Inl e, db)
      | None \<Rightarrow> migrateAll run faults (sort_key fst files) (db\<lparr>md_applied := Some (appliedVersions db)\<rparr>))"

subsection \<open>Every script once, in order\<close>

text \<open>The reference: the scripts one after the other on an empty schema.\<close>

fun runScripts :: "(string \<Rightarrow> 's \<Rightarrow> 's result) \<Rightarrow> string list \<Rightarrow> 's \<Rightarrow> 's result" where
  "runScripts run [] s = Inr s"
| "runScripts run (c # cs) s = result_bind (run c s) (runScripts run cs)"

lemma runScripts_append: "runScripts run (cs @ [c]) s = result_bind (runScripts run cs s) (run c)"
  by (induction cs arbitrary: s) (auto simp: result_bind_def split: sum.splits)

definition versionOf :: "string \<times> string \<Rightarrow> string" where
  "versionOf entry = baseName (fst entry)"

text \<open>The scripts of all releases in the order of their names; the binary of a release embeds a first part of them.\<close>

definition numbered :: "(string \<times> string) list \<Rightarrow> bool" where
  "numbered all \<longleftrightarrow> sorted_wrt (<) (map fst all) \<and> distinct (map versionOf all)"

definition migratedTo :: "(string \<Rightarrow> 's \<Rightarrow> 's result) \<Rightarrow> (string \<times> string) list \<Rightarrow> 's \<Rightarrow> nat \<Rightarrow> 's database \<Rightarrow> bool" where
  "migratedTo run all s0 n db \<longleftrightarrow>
     n \<le> length all \<and> appliedVersions db = map versionOf (take n all) \<and> runScripts run (map snd (take n all)) s0 = Inr (md_schema db)"

inductive migrate_step :: "(string \<Rightarrow> 's \<Rightarrow> 's result) \<Rightarrow> (string \<times> string) list \<Rightarrow> 's database \<Rightarrow> 's database \<Rightarrow> bool" for run all where
  start: "mset files = mset (take m all) \<Longrightarrow> Migrate run files createFault faults db = (r, db') \<Longrightarrow> migrate_step run all db db'"

lemma migrateOne_step:
  assumes "numbered all" and "migratedTo run all s0 n db" and "j < length all" and "j \<le> n"
    and "migrateOne run faults (all ! j) db = (r, db')"
  shows "\<exists>n'. migratedTo run all s0 n' db' \<and> n \<le> n' \<and> (r = Inr () \<longrightarrow> Suc j \<le> n')"
proof (cases "j < n")
  case True
  then have "versionOf (all ! j) \<in> set (map versionOf (take n all))"
    using assms(3) nth_mem [of j "map versionOf (take n all)"] by simp
  then have "db' = db" using assms(2,5) by (auto simp: migrateOne_def migratedTo_def versionOf_def Let_def split: if_splits)
  then show ?thesis using assms(2) True by (intro exI [of _ n]) simp
next
  case False
  then have j: "j = n" using assms(4) by simp
  have fresh: "versionOf (all ! n) \<notin> set (map versionOf (take n all))"
  proof -
    have "distinct (map versionOf (take n all @ [all ! n]))"
      using assms(1,3) j by (simp only: numbered_def flip: take_Suc_conv_app_nth) (metis distinct_take take_map)
    then show ?thesis by simp
  qed
  have step: "migratedTo run all s0 (Suc n) \<lparr>md_schema = s, md_applied = Some (appliedVersions db @ [versionOf (all ! n)])\<rparr>"
    if "run (snd (all ! n)) (md_schema db) = Inr s" for s
    using assms(2,3) j that by (simp add: migratedTo_def appliedVersions_def take_Suc_conv_app_nth runScripts_append)
  consider "db' = db" "r \<noteq> Inr ()" | s where "run (snd (all ! n)) (md_schema db) = Inr s"
    "db' = \<lparr>md_schema = s, md_applied = Some (appliedVersions db @ [versionOf (all ! n)])\<rparr>"
    using assms(2,5) j fresh
    by (fastforce simp: migrateOne_def migratedTo_def versionOf_def Let_def split: if_splits sum.splits)
  then show ?thesis
  proof cases
    case 1
    then show ?thesis using assms(2) by (intro exI [of _ n]) simp
  next
    case (2 s)
    then show ?thesis using step j by (intro exI [of _ "Suc n"]) simp
  qed
qed

lemma migrateAll_step:
  assumes "numbered all" and "m \<le> length all"
  shows "entries = drop j (take m all) \<Longrightarrow> migratedTo run all s0 n db \<Longrightarrow> min j m \<le> n \<Longrightarrow> migrateAll run faults entries db = (r, db') \<Longrightarrow>
    \<exists>n'. migratedTo run all s0 n' db' \<and> n \<le> n' \<and> (r = Inr () \<longrightarrow> m \<le> n')"
proof (induction entries arbitrary: j n db)
  case Nil
  then have "m \<le> j" using assms(2) by simp
  then show ?case using Nil by auto
next
  case (Cons entry entries)
  have j: "j < m" using Cons.prems(1) assms(2) by (metis drop_all length_take list.distinct(1) min.absorb2 not_le)
  have e: "entry = all ! j" "entries = drop (Suc j) (take m all)"
    using Cons.prems(1) j assms(2) by (simp_all add: Cons_nth_drop_Suc [symmetric])
  obtain r1 db1 where one: "migrateOne run faults entry db = (r1, db1)" by fastforce
  obtain n1 where n1: "migratedTo run all s0 n1 db1" "n \<le> n1" "r1 = Inr () \<longrightarrow> Suc j \<le> n1"
    using migrateOne_step [OF assms(1) Cons.prems(2) _ _ one [unfolded e(1)]] j assms(2) Cons.prems(3) by (meson min.absorb1 less_imp_le less_le_trans order_trans min.boundedI order_refl)
  show ?case
  proof (cases r1)
    case (Inl err)
    then show ?thesis using Cons.prems(4) one n1 by auto
  next
    case (Inr u)
    then have rest: "migrateAll run faults entries db1 = (r, db')" and "min (Suc j) m \<le> n1" using Cons.prems(4) one n1(3) by auto
    then obtain n' where "migratedTo run all s0 n' db'" "n1 \<le> n'" "r = Inr () \<longrightarrow> m \<le> n'"
      using Cons.IH [OF e(2) n1(1)] by blast
    then show ?thesis using n1(2) by (intro exI [of _ n']) simp
  qed
qed

lemma Migrate_step:
  assumes "numbered all" and "mset files = mset (take m all)" and "migratedTo run all s0 n db"
    and "Migrate run files createFault faults db = (r, db')"
  shows "\<exists>n'. migratedTo run all s0 n' db' \<and> n \<le> n' \<and> (r = Inr () \<longrightarrow> length files \<le> n' \<and> md_applied db' \<noteq> None)"
proof (cases createFault)
  case (Some e)
  then show ?thesis using assms(3,4) by (intro exI [of _ n]) (auto simp: Migrate_def)
next
  case None
  let ?m = "min m (length all)"
  have "sorted_wrt (<) (map fst (take m all))" using assms(1) sorted_wrt_take [of "(<)" "map fst all" m] by (simp add: numbered_def take_map)
  then have "sorted (map fst (take m all))" "distinct (map fst (take m all))" by (simp_all add: strict_sorted_iff)
  then have "sort_key fst files = take m all" using assms(2) by (intro sort_key_inj_key_eq) (simp_all add: distinct_map set_mset_mset [symmetric] del: set_mset_mset)
  then have loop: "migrateAll run faults (drop 0 (take ?m all)) (db\<lparr>md_applied := Some (appliedVersions db)\<rparr>) = (r, db')"
    using assms(4) None by (auto simp: Migrate_def min_def)
  have "migratedTo run all s0 n (db\<lparr>md_applied := Some (appliedVersions db)\<rparr>)" using assms(3) by (simp add: migratedTo_def appliedVersions_def)
  then obtain n' where n': "migratedTo run all s0 n' db'" "n \<le> n'" "r = Inr () \<longrightarrow> ?m \<le> n'"
    using migrateAll_step [OF assms(1) _ refl _ _ loop] by force
  have "length files = ?m" using assms(2) by (metis length_take min.commute size_mset)
  moreover have "md_applied db' \<noteq> None"
  proof -
    have "migrateAll run faults es d = (q, d') \<Longrightarrow> md_applied d \<noteq> None \<Longrightarrow> md_applied d' \<noteq> None" for es d q d'
      by (induction es arbitrary: d) (auto simp: migrateOne_def Let_def split: prod.splits sum.splits if_splits)
    then show ?thesis using loop by fastforce
  qed
  ultimately show ?thesis using n' by auto
qed

lemma migrate_reach:
  assumes "numbered all" and "(migrate_step run all)\<^sup>*\<^sup>* \<lparr>md_schema = s0, md_applied = None\<rparr> db"
  shows "\<exists>n. migratedTo run all s0 n db"
  using assms(2)
proof (induction rule: rtranclp_induct)
  case base
  show ?case by (rule exI [of _ 0]) (simp add: migratedTo_def appliedVersions_def)
next
  case (step db1 db2)
  then obtain n files m createFault faults r where "migratedTo run all s0 n db1" "mset files = mset (take m all)"
    "Migrate run files createFault faults db1 = (r, db2)" by (auto elim: migrate_step.cases)
  then show ?case using Migrate_step [OF assms(1), of files m run s0 n db1 createFault faults r db2] by auto
qed

text \<open>C12 (safety). Migrations run exactly once and in order: whatever starts of whatever releases a database has seen, in any
  order and with failures anywhere, its schema is that of the first \<open>n\<close> scripts, each run once, in the order of
  their names, and exactly their versions are recorded; a start never goes back, and one that succeeds has
  run every script of its binary and counts the recorded versions rightly.\<close>

theorem migrations_exactly_once:
  assumes "numbered all" and "(migrate_step run all)\<^sup>*\<^sup>* \<lparr>md_schema = s0, md_applied = None\<rparr> db"
    and "mset files = mset (take m all)" and "Migrate run files createFault faults db = (r, db')"
  shows "\<exists>n n'. n \<le> n' \<and> migratedTo run all s0 n db \<and> migratedTo run all s0 n' db' \<and>
     (r = Inr () \<longrightarrow> MigrationCount files \<le> n' \<and> AppliedMigrations None None db' = Inr n')"
proof -
  obtain n where n: "migratedTo run all s0 n db" using migrate_reach [OF assms(1,2)] by blast
  obtain n' where n': "migratedTo run all s0 n' db'" "n \<le> n'" "r = Inr () \<longrightarrow> length files \<le> n' \<and> md_applied db' \<noteq> None"
    using Migrate_step [OF assms(1,3) n assms(4)] by blast
  have "AppliedMigrations None None db' = Inr n'" if "md_applied db' \<noteq> None"
  proof -
    have "length (appliedVersions db') = n'" using n'(1) by (simp add: migratedTo_def)
    then show ?thesis using that by (auto simp: AppliedMigrations_def appliedVersions_def)
  qed
  then show ?thesis using n n' by (auto simp: MigrationCount_def)
qed

text \<open>Two scripts; the first start fails at the second one, the next start finishes.\<close>

definition demoScripts :: "(string \<times> string) list" where
  "demoScripts = [(''migrations/0001_a.sql'', ''A''), (''migrations/0002_b.sql'', ''B'')]"

definition demoRun :: "string \<Rightarrow> string \<Rightarrow> string result" where
  "demoRun c s = Inr (s @ c)"

definition noMigFaults :: migFaults where
  "noMigFaults = \<lparr>mg_check = False, mg_read = False, mg_begin = False, mg_record = False, mg_commit = False\<rparr>"

definition secondFails :: "string \<Rightarrow> migFaults" where
  "secondFails v = (if v = ''0002_b.sql'' then noMigFaults\<lparr>mg_commit := True\<rparr> else noMigFaults)"

lemma demoScripts_numbered: "numbered demoScripts"
  by (simp add: numbered_def demoScripts_def versionOf_def baseName_def less_char_def)

lemma demo_half:
  "Migrate demoRun demoScripts None secondFails \<lparr>md_schema = [], md_applied = None\<rparr> =
     (Inl (OtherError ''db: commit migration 0002_b.sql''), \<lparr>md_schema = ''A'', md_applied = Some [''0001_a.sql'']\<rparr>)"
  by (simp add: Migrate_def demoScripts_def less_char_def migrateOne_def baseName_def secondFails_def noMigFaults_def appliedVersions_def demoRun_def)

theorem migrations_exactly_once_witness:
  "\<exists>db'. Migrate demoRun demoScripts None (\<lambda>_. noMigFaults) \<lparr>md_schema = ''A'', md_applied = Some [''0001_a.sql'']\<rparr> = (Inr (), db') \<and>
     migratedTo demoRun demoScripts [] 2 db' \<and> md_schema db' = ''AB''"
proof -
  have half: "migrate_step demoRun demoScripts \<lparr>md_schema = [], md_applied = None\<rparr> \<lparr>md_schema = ''A'', md_applied = Some [''0001_a.sql'']\<rparr>"
    using demo_half by (rule migrate_step.start [where m = 2, rotated]) (simp add: demoScripts_def)
  obtain db' where r: "Migrate demoRun demoScripts None (\<lambda>_. noMigFaults) \<lparr>md_schema = ''A'', md_applied = Some [''0001_a.sql'']\<rparr> = (Inr (), db')"
    by (simp add: Migrate_def demoScripts_def less_char_def migrateOne_def baseName_def noMigFaults_def appliedVersions_def demoRun_def)
  obtain n' where "migratedTo demoRun demoScripts [] n' db'" "2 \<le> n'"
    using migrations_exactly_once [OF demoScripts_numbered r_into_rtranclp [of "migrate_step demoRun demoScripts", OF half] _ r, of 2] by (auto simp: demoScripts_def MigrationCount_def)
  moreover from this have "n' = 2" by (simp add: migratedTo_def demoScripts_def)
  ultimately show ?thesis using r by (auto simp: migratedTo_def demoScripts_def demoRun_def)
qed

end
