(* ===== verification/Backup.thy ===== *)
theory Backup
  imports Apierror GoText
begin

section \<open>Backup and restore (internal/platform/backup)\<close>

text \<open>
  The file system is a function from paths to the contents of the files there. SQLite is outside: what
  \<^verbatim>\<open>VACUUM INTO\<close> writes for a database, the verdict of the integrity check and the number of applied migrations
  are the parameters of \<open>sqlite\<close>. The SHA-256 digest, the JSON codec of the manifest and the tar and gzip codec of
  a bundle are the parameters of \<open>codec\<close>; an opened bundle is the list of its entries, each perhaps unreadable.
  A failing system call is a flag. Only what is on disk after a call is modelled, so the deferred removal of
  the work directory is its last step.
\<close>

type_synonym files = "string \<Rightarrow> string option"

definition manifestName :: string where "manifestName = ''manifest.json''"
definition dbName :: string where "dbName = ''smotryashchiy.db''"
definition FormatVersion :: int where "FormatVersion = 1"
definition maxManifestBytes :: nat where "maxManifestBytes = 2 ^ 20"
definition maxDBBytes :: nat where "maxDBBytes = 64 * 2 ^ 30"

record manifest =
  mf_format :: int
  mf_created :: time
  mf_release :: string
  mf_migrations :: nat
  mf_sha :: string
  mf_bytes :: nat

record sqlite =
  sq_vacuum :: "string \<Rightarrow> string"
  sq_verdict :: "string \<Rightarrow> string result"
  sq_applied :: "string \<Rightarrow> nat result"

datatype tarEntry = TarEntry string string bool | TarBroken

record codec =
  cd_sha :: "string \<Rightarrow> string"
  cd_marshal :: "manifest \<Rightarrow> string"
  cd_unmarshal :: "string \<Rightarrow> manifest option"
  cd_pack :: "(string \<times> string) list \<Rightarrow> string"
  cd_unpack :: "string \<Rightarrow> tarEntry list option"

text \<open>\<^verbatim>\<open>os.RemoveAll\<close> of a directory and \<^verbatim>\<open>os.Rename\<close> of a file, which replaces what is at the new path.\<close>

definition under :: "string \<Rightarrow> string \<Rightarrow> bool" where
  "under dir p = hasPrefix p (dir @ ''/'')"

definition removeTree :: "string \<Rightarrow> files \<Rightarrow> files" where
  "removeTree dir fs = (\<lambda>p. if under dir p then None else fs p)"

definition renameFile :: "string \<Rightarrow> string \<Rightarrow> files \<Rightarrow> files" where
  "renameFile old new fs = (fs(new := fs old))(old := None)"

subsection \<open>Creating a bundle\<close>

definition quoteSQL :: "string \<Rightarrow> string" where
  "quoteSQL s = [CHR 0x27] @ concat (map (\<lambda>c. if c = CHR 0x27 then [CHR 0x27, CHR 0x27] else [c]) s) @ [CHR 0x27]"

text \<open>\<open>inspect\<close>: the digest and the size, the integrity check, the migrations; \<open>fault\<close> is a failing open or read.\<close>

definition inspect :: "sqlite \<Rightarrow> codec \<Rightarrow> error option \<Rightarrow> string \<Rightarrow> manifest result" where
  "inspect sq cd fault content =
     (case fault of
        Some e \<Rightarrow> Inl e
      | None \<Rightarrow>
          result_bind (sq_verdict sq content) (\<lambda>verdict.
            if verdict \<noteq> ''ok'' then Inl (OtherError (''integrity check failed: '' @ verdict))
            else result_bind (sq_applied sq content) (\<lambda>n.
              Inr \<lparr>mf_format = 0, mf_created = zeroTime, mf_release = [], mf_migrations = n, mf_sha = cd_sha cd content,
                   mf_bytes = length content\<rparr>)))"

definition bundleOf :: "codec \<Rightarrow> manifest \<Rightarrow> string \<Rightarrow> string" where
  "bundleOf cd m snapshot = cd_pack cd [(manifestName, cd_marshal cd m), (dbName, snapshot)]"

record createFaults =
  bf_open :: bool
  bf_temp :: bool
  bf_vacuum :: "error option"
  bf_inspect :: "error option"
  bf_write :: "(nat \<times> error) option"
  bf_sync :: bool

text \<open>\<open>Create\<close> returns the manifest, or the error, and what it wrote to its output; a failing write leaves a
  part of the bundle.\<close>

definition Create :: "sqlite \<Rightarrow> codec \<Rightarrow> createFaults \<Rightarrow> string \<Rightarrow> time \<Rightarrow> string \<Rightarrow> manifest result \<times> string" where
  "Create sq cd f release now live =
     (if bf_temp f then (Inl (OtherError ''backup: create work dir''), [])
      else case bf_vacuum f of
             Some e \<Rightarrow> (Inl e, [])
           | None \<Rightarrow>
               let snapshot = sq_vacuum sq live
               in case inspect sq cd (bf_inspect f) snapshot of
                    Inl e \<Rightarrow> (Inl e, [])
                  | Inr m0 \<Rightarrow>
                      let m = m0\<lparr>mf_format := FormatVersion, mf_created := truncateTo second now, mf_release := release\<rparr>;
                          out = bundleOf cd m snapshot
                      in case bf_write f of
                           Some (n, e) \<Rightarrow> (Inl e, take n out)
                         | None \<Rightarrow> (Inr m, out))"

definition CreateFile ::
  "sqlite \<Rightarrow> codec \<Rightarrow> createFaults \<Rightarrow> string \<Rightarrow> time \<Rightarrow> string \<Rightarrow> string \<Rightarrow> files \<Rightarrow> manifest result \<times> files" where
  "CreateFile sq cd f release now live outPath fs =
     (if bf_open f \<or> fs outPath \<noteq> None then (Inl (OtherError (''backup: create '' @ outPath)), fs)
      else case Create sq cd f release now live of
             (Inl e, _) \<Rightarrow> (Inl e, fs(outPath := None))
           | (Inr m, out) \<Rightarrow>
               if bf_sync f then (Inl (OtherError ''backup: sync''), fs(outPath := None))
               else (Inr m, fs(outPath \<mapsto> out)))"

subsection \<open>Reading a bundle\<close>

record extractState =
  ex_manifest :: "manifest option"
  ex_db :: "string option"
  ex_count :: nat

text \<open>One entry; the file of the snapshot is created exclusively, so a second one fails.\<close>

definition extractEntry :: "codec \<Rightarrow> tarEntry \<Rightarrow> extractState \<Rightarrow> extractState result" where
  "extractEntry cd en st =
     (case en of
        TarBroken \<Rightarrow> Inl (OtherError ''backup: read bundle'')
      | TarEntry name content broken \<Rightarrow>
          let st' = st\<lparr>ex_count := ex_count st + 1\<rparr>;
              done' = (\<lambda>s. if 2 < ex_count s then Inl (OtherError ''backup: the bundle has too many entries'') else Inr s)
          in if name = manifestName then
               (if broken \<or> maxManifestBytes < length content then Inl (OtherError ''backup: manifest is unreadable or too large'')
                else case cd_unmarshal cd content of
                       None \<Rightarrow> Inl (OtherError ''backup: manifest is not valid JSON'')
                     | Some m \<Rightarrow> done' (st'\<lparr>ex_manifest := Some m\<rparr>))
             else if name = dbName then
               (if ex_db st \<noteq> None then Inl (OtherError ''open: file exists'')
                else if broken \<or> maxDBBytes < length content then Inl (OtherError ''backup: the database in the bundle is unreadable or too large'')
                else done' (st'\<lparr>ex_db := Some content\<rparr>))
             else Inl (OtherError (''backup: unexpected entry '' @ name)))"

fun extractLoop :: "codec \<Rightarrow> tarEntry list \<Rightarrow> extractState \<Rightarrow> extractState result" where
  "extractLoop cd [] st = Inr st"
| "extractLoop cd (en # ens) st = result_bind (extractEntry cd en st) (extractLoop cd ens)"

definition extractBundle :: "codec \<Rightarrow> string \<Rightarrow> (manifest \<times> string) result" where
  "extractBundle cd bundle =
     (case cd_unpack cd bundle of
        None \<Rightarrow> Inl (OtherError ''backup: the input is not a gzip bundle'')
      | Some ens \<Rightarrow>
          result_bind (extractLoop cd ens \<lparr>ex_manifest = None, ex_db = None, ex_count = 0\<rparr>) (\<lambda>st.
            case (ex_manifest st, ex_db st) of
              (Some m, Some d) \<Rightarrow> Inr (m, d)
            | _ \<Rightarrow> Inl (OtherError ''backup: the bundle must contain manifest.json and smotryashchiy.db'')))"

subsection \<open>Restoring\<close>

record restoreOptions =
  ro_force :: bool
  ro_maxMigrations :: nat
  ro_stamp :: string

record restoreFaults =
  rt_mkdir :: bool
  rt_temp :: bool
  rt_stage :: "error option"
  rt_inspect :: "error option"
  rt_stat :: "error option"
  rt_locked :: "error option"
  rt_aside :: bool
  rt_chmod :: "error option"
  rt_install :: bool

record restoreResult =
  rs_manifest :: manifest
  rs_previous :: string

definition asidePath :: "string \<Rightarrow> string \<Rightarrow> string" where
  "asidePath dbPath stamp = dbPath @ ''.pre-restore-'' @ stamp"

text \<open>What a bundle must be before anything is touched.\<close>

definition verified :: "sqlite \<Rightarrow> codec \<Rightarrow> restoreOptions \<Rightarrow> restoreFaults \<Rightarrow> string \<Rightarrow> (manifest \<times> string) result" where
  "verified sq cd opts f bundle =
     result_bind (case rt_stage f of Some e \<Rightarrow> Inl e | None \<Rightarrow> extractBundle cd bundle) (\<lambda>(m, staged).
       if mf_format m \<noteq> FormatVersion then Inl (OtherError ''backup: unsupported bundle format'')
       else result_bind (inspect sq cd (rt_inspect f) staged) (\<lambda>got.
         if mf_sha got \<noteq> mf_sha m then
           Inl (OtherError ''backup: the database in the bundle does not match its manifest hash (corrupted or tampered)'')
         else if ro_maxMigrations opts < mf_migrations got then Inl (OtherError ''backup: upgrade the binary first'')
         else Inr (m, staged)))"

text \<open>The existing database is moved aside: the path it went to, empty when there was none, and the files.\<close>

definition moveAside :: "restoreOptions \<Rightarrow> restoreFaults \<Rightarrow> string \<Rightarrow> files \<Rightarrow> string result \<times> files" where
  "moveAside opts f dbPath fs =
     (case rt_stat f of
        Some e \<Rightarrow> (Inl e, fs)
      | None \<Rightarrow>
          (case fs dbPath of
             None \<Rightarrow> (Inr '''', fs)
           | Some old \<Rightarrow>
               if old = [] then (Inr '''', fs)
               else if \<not> ro_force opts then (Inl (OtherError ''backup: already holds a database; use --force to replace it''), fs)
               else case rt_locked f of
                      Some e \<Rightarrow> (Inl e, fs)
                    | None \<Rightarrow>
                        if rt_aside f then (Inl (OtherError ''backup: keep the previous database''), fs)
                        else (Inr (asidePath dbPath (ro_stamp opts)), renameFile dbPath (asidePath dbPath (ro_stamp opts)) fs)))"

definition stagedPath :: "string \<Rightarrow> string" where
  "stagedPath work = work @ ''/'' @ dbName"

text \<open>The last steps: the write-ahead files of the old database go, and the staged file takes its place.\<close>

definition installStaged ::
  "restoreFaults \<Rightarrow> string \<Rightarrow> string \<Rightarrow> manifest \<Rightarrow> string \<Rightarrow> files \<Rightarrow> restoreResult result \<times> files" where
  "installStaged f dbPath work m previous fs =
     (let fs2 = fs(dbPath @ ''-wal'' := None, dbPath @ ''-shm'' := None)
      in case rt_chmod f of
           Some e \<Rightarrow> (Inl e, fs2)
         | None \<Rightarrow>
             if rt_install f then (Inl (OtherError ''backup: install the restored database''), fs2)
             else (Inr \<lparr>rs_manifest = m, rs_previous = previous\<rparr>, renameFile (stagedPath work) dbPath fs2))"

text \<open>The whole restore; \<open>work\<close> is the name \<^verbatim>\<open>MkdirTemp\<close> chose.\<close>

definition Restore ::
  "sqlite \<Rightarrow> codec \<Rightarrow> restoreOptions \<Rightarrow> restoreFaults \<Rightarrow> string \<Rightarrow> string \<Rightarrow> string \<Rightarrow> files \<Rightarrow> restoreResult result \<times> files" where
  "Restore sq cd opts f bundle dbPath work fs =
     (if rt_mkdir f then (Inl (OtherError ''backup: create data dir''), fs)
      else if rt_temp f then (Inl (OtherError ''backup: create work dir''), fs)
      else case verified sq cd opts f bundle of
             Inl e \<Rightarrow> (Inl e, removeTree work fs)
           | Inr (m, staged) \<Rightarrow>
               (case moveAside opts f dbPath (fs(stagedPath work \<mapsto> staged)) of
                  (Inl e, fs1) \<Rightarrow> (Inl e, removeTree work fs1)
                | (Inr previous, fs1) \<Rightarrow>
                    (case installStaged f dbPath work m previous fs1 of (r, fs2) \<Rightarrow> (r, removeTree work fs2))))"

subsection \<open>What a restore leaves behind\<close>

lemma inspect_Inr:
  "inspect sq cd fault c = Inr m \<Longrightarrow> sq_verdict sq c = Inr ''ok'' \<and> sq_applied sq c = Inr (mf_migrations m) \<and> mf_sha m = cd_sha cd c"
  by (auto simp: inspect_def result_bind_def split: option.splits sum.splits if_splits)

text \<open>A snapshot that may be installed.\<close>

definition sound :: "sqlite \<Rightarrow> codec \<Rightarrow> restoreOptions \<Rightarrow> manifest \<Rightarrow> string \<Rightarrow> bool" where
  "sound sq cd opts m d \<longleftrightarrow> mf_format m = 1 \<and> cd_sha cd d = mf_sha m \<and> sq_verdict sq d = Inr ''ok'' \<and>
     (\<exists>n. sq_applied sq d = Inr n \<and> n \<le> ro_maxMigrations opts)"

lemma verified_sound:
  assumes "verified sq cd opts f bundle = Inr (m, d)"
  shows "sound sq cd opts m d" and "extractBundle cd bundle = Inr (m, d)"
proof -
  obtain got where "extractBundle cd bundle = Inr (m, d)" "mf_format m = 1" "inspect sq cd (rt_inspect f) d = Inr got"
    "mf_sha got = mf_sha m" "mf_migrations got \<le> ro_maxMigrations opts"
    using assms by (auto simp: verified_def FormatVersion_def result_bind_def split: option.splits sum.splits if_splits prod.splits)
  then show "sound sq cd opts m d" "extractBundle cd bundle = Inr (m, d)" using inspect_Inr by (auto simp: sound_def)
qed

text \<open>The paths a restore works with do not get in each other's way: the work directory is fresh, and no database
  was put aside under this stamp yet.\<close>

definition pathsOk :: "string \<Rightarrow> string \<Rightarrow> string \<Rightarrow> files \<Rightarrow> bool" where
  "pathsOk dbPath stamp work fs \<longleftrightarrow> (\<forall>p. under work p \<longrightarrow> fs p = None) \<and> fs (asidePath dbPath stamp) = None \<and>
     list_all (\<lambda>p. \<not> under work p) [dbPath, dbPath @ ''-wal'', dbPath @ ''-shm'', asidePath dbPath stamp]"

lemma asidePath_other [simp]: "asidePath p s \<noteq> p" "asidePath p s \<noteq> p @ ''-wal''" "asidePath p s \<noteq> p @ ''-shm''"
  by (simp_all add: asidePath_def)

lemma staged_under: "under work (stagedPath work)"
  by (simp add: under_def hasPrefix_def stagedPath_def)

text \<open>The old database stays where it is or goes aside, and nothing else moves.\<close>

lemma moveAside_cases:
  assumes "moveAside opts f dbPath fs = (r, fs')"
  shows "(fs' = fs \<and> (\<forall>p. r = Inr p \<longrightarrow> fs dbPath \<in> {None, Some []})) \<or>
    (ro_force opts \<and> r = Inr (asidePath dbPath (ro_stamp opts)) \<and> fs' = renameFile dbPath (asidePath dbPath (ro_stamp opts)) fs)"
  using assms by (auto simp: moveAside_def split: option.splits if_splits)

lemma installStaged_cases:
  assumes "installStaged f dbPath work m previous fs = (r, fs')"
  shows "(\<exists>e. r = Inl e \<and> fs' = fs(dbPath @ ''-wal'' := None, dbPath @ ''-shm'' := None)) \<or>
    (r = Inr \<lparr>rs_manifest = m, rs_previous = previous\<rparr> \<and>
     fs' = renameFile (stagedPath work) dbPath (fs(dbPath @ ''-wal'' := None, dbPath @ ''-shm'' := None)))"
  using assms by (auto simp: installStaged_def Let_def split: option.splits if_splits)

definition restoreSafe :: "sqlite \<Rightarrow> codec \<Rightarrow> restoreOptions \<Rightarrow> string \<Rightarrow> string \<Rightarrow> files \<Rightarrow> restoreResult result \<Rightarrow> files \<Rightarrow> bool" where
  "restoreSafe sq cd opts bundle dbPath fs r fs' \<longleftrightarrow>
     (case r of
        Inr res \<Rightarrow> \<exists>d. fs' dbPath = Some d \<and> extractBundle cd bundle = Inr (rs_manifest res, d) \<and> sound sq cd opts (rs_manifest res) d
      | Inl e \<Rightarrow> fs' dbPath = fs dbPath \<or> (ro_force opts \<and> fs' dbPath = None \<and> fs' (asidePath dbPath (ro_stamp opts)) = fs dbPath)) \<and>
     (\<forall>old. fs dbPath = Some old \<longrightarrow> old \<noteq> [] \<longrightarrow> fs' dbPath = Some old \<or> fs' (asidePath dbPath (ro_stamp opts)) = Some old) \<and>
     (\<forall>p. p \<notin> {dbPath, dbPath @ ''-wal'', dbPath @ ''-shm'', asidePath dbPath (ro_stamp opts)} \<longrightarrow> fs' p = fs p)"

lemma restoreSafe_install:
  assumes "pathsOk dbPath (ro_stamp opts) work fs" and "sound sq cd opts m d" and "extractBundle cd bundle = Inr (m, d)"
    and "moveAside opts f dbPath (fs(stagedPath work \<mapsto> d)) = (Inr previous, fs1)"
    and "installStaged f dbPath work m previous fs1 = (r, fs2)"
  shows "restoreSafe sq cd opts bundle dbPath fs r (removeTree work fs2)"
proof -
  let ?a = "asidePath dbPath (ro_stamp opts)" and ?s = "stagedPath work"
  let ?fs = "fs1(dbPath @ ''-wal'' := None, dbPath @ ''-shm'' := None)"
  have P: "\<And>p. under work p \<Longrightarrow> fs p = None" "\<not> under work dbPath" "\<not> under work ?a" "fs ?a = None"
    "\<not> under work (dbPath @ ''-wal'')" "\<not> under work (dbPath @ ''-shm'')"
    using assms(1) by (auto simp: pathsOk_def)
  note s = staged_under [of work]
  have ne: "?s \<noteq> dbPath" "?s \<noteq> ?a" "?s \<noteq> dbPath @ ''-wal''" "?s \<noteq> dbPath @ ''-shm''" using s P by auto
  note mc = moveAside_cases [OF assms(4)]
  have at: "fs1 ?s = Some d" using mc ne by (auto simp: renameFile_def)
  have db: "(fs1 dbPath = fs dbPath \<and> fs1 ?a = None \<and> fs dbPath \<in> {None, Some []}) \<or> (ro_force opts \<and> fs1 dbPath = None \<and> fs1 ?a = fs dbPath)"
    using mc ne P(4) by (auto simp: renameFile_def)
  have rest: "fs1 p = fs p" if "p \<notin> {dbPath, ?a, ?s}" for p using mc that by (auto simp: renameFile_def)
  from installStaged_cases [OF assms(5)] show ?thesis
  proof (elim disjE exE conjE)
    fix e assume e: "r = Inl e" "fs2 = ?fs"
    have c3: "removeTree work fs2 p = fs p" if "p \<notin> {dbPath, dbPath @ ''-wal'', dbPath @ ''-shm'', ?a}" for p
      using that P(1) rest [of p] s by (auto simp: removeTree_def e)
    have l: "removeTree work fs2 dbPath = fs1 dbPath" "removeTree work fs2 ?a = fs1 ?a" using P by (simp_all add: removeTree_def e)
    have c1: "removeTree work fs2 dbPath = fs dbPath \<or> (ro_force opts \<and> removeTree work fs2 dbPath = None \<and> removeTree work fs2 ?a = fs dbPath)"
      unfolding l using db by blast
    have c2: "removeTree work fs2 dbPath = Some old \<or> removeTree work fs2 ?a = Some old" if "fs dbPath = Some old" for old
      unfolding l that [symmetric] using db by blast
    show ?thesis unfolding restoreSafe_def e(1) sum.case using c1 c2 c3 by blast
  next
    assume e: "r = Inr \<lparr>rs_manifest = m, rs_previous = previous\<rparr>" "fs2 = renameFile ?s dbPath ?fs"
    have c3: "removeTree work fs2 p = fs p" if "p \<notin> {dbPath, dbPath @ ''-wal'', dbPath @ ''-shm'', ?a}" for p
      using that P(1) rest [of p] s by (auto simp: removeTree_def e renameFile_def)
    have l: "removeTree work fs2 dbPath = Some d" "removeTree work fs2 ?a = fs1 ?a"
      using P ne at by (simp_all add: removeTree_def e renameFile_def)
    have c2: "removeTree work fs2 ?a = Some old" if "fs dbPath = Some old" "old \<noteq> []" for old
      unfolding l using db that by auto
    show ?thesis unfolding restoreSafe_def e(1) sum.case restoreResult.select_convs using l(1) c2 c3 assms(2,3) by blast
  qed
qed

lemma Restore_safe:
  assumes "pathsOk dbPath (ro_stamp opts) work fs" and "Restore sq cd opts f bundle dbPath work fs = (r, fs')"
  shows "restoreSafe sq cd opts bundle dbPath fs r fs'"
proof -
  have P: "\<And>p. under work p \<Longrightarrow> fs p = None" "\<not> under work dbPath" using assms(1) by (auto simp: pathsOk_def)
  note s = staged_under [of work]
  have same: "removeTree work fs = fs" "removeTree work (fs(stagedPath work \<mapsto> d)) = fs" for d
    using P(1) s by (auto simp: removeTree_def fun_eq_iff)
  have idle: "restoreSafe sq cd opts bundle dbPath fs (Inl e) fs" for e by (simp add: restoreSafe_def)
  show ?thesis
  proof (cases "rt_mkdir f \<or> rt_temp f")
    case True
    then show ?thesis using assms(2) idle by (auto simp: Restore_def split: if_splits)
  next
    case early: False
    show ?thesis
    proof (cases "verified sq cd opts f bundle")
      case (Inl e)
      then show ?thesis using assms(2) early idle by (auto simp: Restore_def same)
    next
      case (Inr md)
      then obtain m d where v: "verified sq cd opts f bundle = Inr (m, d)" by (cases md) auto
      obtain r1 fs1 where mv: "moveAside opts f dbPath (fs(stagedPath work \<mapsto> d)) = (r1, fs1)" by fastforce
      show ?thesis
      proof (cases r1)
        case (Inl e)
        then have "fs1 = fs(stagedPath work \<mapsto> d)" using moveAside_cases [OF mv] by auto
        then show ?thesis using assms(2) early v mv Inl idle by (auto simp: Restore_def same)
      next
        case (Inr previous)
        obtain r2 fs2 where i: "installStaged f dbPath work m previous fs1 = (r2, fs2)" by fastforce
        then have "r = r2" "fs' = removeTree work fs2" using assms(2) early v mv Inr by (auto simp: Restore_def)
        then show ?thesis using restoreSafe_install [OF assms(1) verified_sound [OF v] mv [unfolded Inr] i] by simp
      qed
    qed
  qed
qed


subsection \<open>A bundle restores what was backed up\<close>

definition noRestoreFaults :: restoreFaults where
  "noRestoreFaults = \<lparr>rt_mkdir = False, rt_temp = False, rt_stage = None, rt_inspect = None, rt_stat = None, rt_locked = None,
     rt_aside = False, rt_chmod = None, rt_install = False\<rparr>"

lemma noRestoreFaults_sel [simp]:
  "\<not> rt_mkdir noRestoreFaults" "\<not> rt_temp noRestoreFaults" "rt_stage noRestoreFaults = None" "rt_inspect noRestoreFaults = None"
  "rt_stat noRestoreFaults = None" "rt_locked noRestoreFaults = None" "\<not> rt_aside noRestoreFaults" "rt_chmod noRestoreFaults = None"
  "\<not> rt_install noRestoreFaults"
  by (simp_all add: noRestoreFaults_def)

lemma CreateFile_Inr:
  assumes "CreateFile sq cd f release now live outPath fs = (Inr m, fs1)"
  shows "fs1 = fs(outPath \<mapsto> bundleOf cd m (sq_vacuum sq live)) \<and> mf_format m = 1 \<and> mf_sha m = cd_sha cd (sq_vacuum sq live) \<and>
    sq_verdict sq (sq_vacuum sq live) = Inr ''ok'' \<and> sq_applied sq (sq_vacuum sq live) = Inr (mf_migrations m) \<and> fs outPath = None"
proof -
  let ?s = "sq_vacuum sq live"
  obtain m0 where m0: "inspect sq cd (bf_inspect f) ?s = Inr m0"
    "m = m0\<lparr>mf_format := FormatVersion, mf_created := truncateTo second now, mf_release := release\<rparr>"
    "fs1 = fs(outPath \<mapsto> bundleOf cd m ?s)" "fs outPath = None"
    using assms by (auto simp: CreateFile_def Create_def Let_def split: if_splits option.splits sum.splits prod.splits)
  then show ?thesis using inspect_Inr [OF m0(1)] by (simp add: FormatVersion_def)
qed

text \<open>C38 (roundtrip). A backup restores what was backed up: the bundle written for a running database, read on a machine
  that has none, installs exactly the consistent snapshot SQLite took, with the manifest that was
  returned. The hypotheses on the codec are that an archive unpacks to what was packed and that the
  manifest survives its encoding.\<close>

theorem backup_restores_snapshot:
  assumes "CreateFile sq cd f release now live outPath fs = (Inr m, fs1)" and "fs1 outPath = Some bundle"
    and "cd_unpack cd (cd_pack cd [(manifestName, cd_marshal cd m), (dbName, sq_vacuum sq live)]) =
      Some [TarEntry manifestName (cd_marshal cd m) False, TarEntry dbName (sq_vacuum sq live) False]"
    and "cd_unmarshal cd (cd_marshal cd m) = Some m"
    and "length (cd_marshal cd m) \<le> maxManifestBytes" and "length (sq_vacuum sq live) \<le> maxDBBytes"
    and "mf_migrations m \<le> ro_maxMigrations opts"
    and "pathsOk dbPath (ro_stamp opts) work fs2" and "fs2 dbPath = None"
  shows "\<exists>fs3. Restore sq cd opts noRestoreFaults bundle dbPath work fs2 = (Inr \<lparr>rs_manifest = m, rs_previous = ''''\<rparr>, fs3) \<and>
     fs3 dbPath = Some (sq_vacuum sq live)"
proof -
  let ?s = "sq_vacuum sq live"
  note C = CreateFile_Inr [OF assms(1)]
  then have b: "bundle = bundleOf cd m ?s" using assms(2) by simp
  have ne: "dbName \<noteq> manifestName" by (simp add: dbName_def manifestName_def)
  have x: "extractBundle cd bundle = Inr (m, ?s)"
    using assms(3-6) ne by (simp add: extractBundle_def b bundleOf_def extractEntry_def Let_def)
  have v: "verified sq cd opts noRestoreFaults bundle = Inr (m, ?s)"
    using x C assms(7) by (simp add: verified_def inspect_def FormatVersion_def)
  have "stagedPath work \<noteq> dbPath" using staged_under [of work] assms(8) by (auto simp: pathsOk_def)
  then have mv: "moveAside opts noRestoreFaults dbPath (fs2(stagedPath work \<mapsto> ?s)) = (Inr '''', fs2(stagedPath work \<mapsto> ?s))"
    using assms(9) by (simp add: moveAside_def)
  obtain fs3 where r: "Restore sq cd opts noRestoreFaults bundle dbPath work fs2 = (Inr \<lparr>rs_manifest = m, rs_previous = ''''\<rparr>, fs3)"
    by (simp add: Restore_def v mv installStaged_def Let_def)
  then show ?thesis using Restore_safe [OF assms(8) r] x by (auto simp: restoreSafe_def)
qed

subsection \<open>Where the replacement is not atomic\<close>

text \<open>When the last rename fails, or the process stops before it, there is no database at its path any more; a
  server started then creates an empty one.\<close>

lemma failed_install_leaves_no_database:
  assumes "pathsOk dbPath (ro_stamp opts) work fs" and "verified sq cd opts noRestoreFaults bundle = Inr (m, d)"
    and "fs dbPath = Some old" and "old \<noteq> []" and "ro_force opts"
  shows "\<exists>e fs'. Restore sq cd opts (noRestoreFaults\<lparr>rt_install := True\<rparr>) bundle dbPath work fs = (Inl e, fs') \<and> fs' dbPath = None"
proof -
  have v: "verified sq cd opts (noRestoreFaults\<lparr>rt_install := True\<rparr>) bundle = Inr (m, d)"
    using assms(2) by (simp add: verified_def cong: if_cong)
  have "stagedPath work \<noteq> dbPath" using staged_under [of work] assms(1) by (auto simp: pathsOk_def)
  then show ?thesis
    using assms(3-5)
    by (simp add: Restore_def v moveAside_def installStaged_def Let_def renameFile_def removeTree_def)
qed

text \<open>The name of the file put aside has the resolution of a second: a second restore with the same stamp replaces
  the database the first one kept.\<close>

lemma second_restore_replaces_kept:
  assumes "fs dbPath = Some old" and "old \<noteq> []" and "ro_force opts" and "fs (asidePath dbPath (ro_stamp opts)) = Some kept"
  shows "moveAside opts noRestoreFaults dbPath fs = (Inr (asidePath dbPath (ro_stamp opts)), renameFile dbPath (asidePath dbPath (ro_stamp opts)) fs) \<and>
    renameFile dbPath (asidePath dbPath (ro_stamp opts)) fs (asidePath dbPath (ro_stamp opts)) = Some old"
  using assms by (simp add: moveAside_def renameFile_def)

subsection \<open>Compaction (vacuum.go)\<close>

record vacuumResult =
  vr_before :: nat
  vr_after :: nat
  vr_previous :: string

record vacuumFaults =
  vf_locked :: "error option"
  vf_open :: "error option"
  vf_vacuum :: bool
  vf_stat :: "error option"
  vf_aside :: bool
  vf_chmod :: "error option"
  vf_install :: bool
  vf_remove :: bool
  vf_reopen :: bool

definition compactPath :: "string \<Rightarrow> string \<Rightarrow> string" where
  "compactPath dbPath stamp = dbPath @ ''.vacuum-'' @ stamp"

definition preVacuumPath :: "string \<Rightarrow> string \<Rightarrow> string" where
  "preVacuumPath dbPath stamp = dbPath @ ''.pre-vacuum-'' @ stamp"

text \<open>The verdict of \<^verbatim>\<open>PRAGMA quick_check\<close> on the copy.\<close>

definition quickCheck :: "(string \<Rightarrow> string result) \<Rightarrow> string \<Rightarrow> unit result" where
  "quickCheck quick content =
     (case quick content of
        Inl e \<Rightarrow> Inl e
      | Inr verdict \<Rightarrow> if verdict \<noteq> ''ok'' then Inl (OtherError (''backup: the compacted copy failed its check: '' @ verdict)) else Inr ())"

text \<open>The swap: the old file goes aside, its write-ahead files go, the copy takes its place; then the old file is removed
  unless it is to be kept, and the planner statistics are refreshed when the new file opens.\<close>

definition swapIn ::
  "(string \<Rightarrow> string) \<Rightarrow> vacuumFaults \<Rightarrow> bool \<Rightarrow> string \<Rightarrow> string \<Rightarrow> string \<Rightarrow> nat \<Rightarrow> string \<Rightarrow> files \<Rightarrow> vacuumResult result \<times> files" where
  "swapIn optimize f keep dbPath packed previous before copy fs1 =
     (if vf_aside f then (Inl (OtherError ''backup: set the old database aside''), fs1(packed := None))
      else let fs2 = (renameFile dbPath previous fs1)(dbPath @ ''-wal'' := None, dbPath @ ''-shm'' := None)
           in case vf_chmod f of
                Some e \<Rightarrow> (Inl e, fs2)
              | None \<Rightarrow>
                  if vf_install f then (Inl (OtherError ''backup: install the compacted database''), fs2)
                  else let fs3 = renameFile packed dbPath fs2;
                           kept = (keep \<or> vf_remove f);
                           fs4 = (if kept then fs3 else fs3(previous := None));
                           fs5 = (if vf_reopen f then fs4 else fs4(dbPath := map_option optimize (fs4 dbPath)))
                       in (Inr \<lparr>vr_before = before, vr_after = length copy, vr_previous = (if kept then previous else '''')\<rparr>, fs5))"

definition Vacuum ::
  "sqlite \<Rightarrow> (string \<Rightarrow> string result) \<Rightarrow> (string \<Rightarrow> string) \<Rightarrow> vacuumFaults \<Rightarrow> bool \<Rightarrow> string \<Rightarrow> string \<Rightarrow> files \<Rightarrow> vacuumResult result \<times> files" where
  "Vacuum sq quick optimize f keep stamp dbPath fs =
     (case fs dbPath of
        None \<Rightarrow> (Inl (OtherError (''backup: no database at '' @ dbPath)), fs)
      | Some old \<Rightarrow>
          (case vf_locked f of
             Some e \<Rightarrow> (Inl e, fs)
           | None \<Rightarrow>
               (case vf_open f of
                  Some e \<Rightarrow> (Inl e, fs)
                | None \<Rightarrow>
                    let packed = compactPath dbPath stamp; copy = sq_vacuum sq old
                    in if vf_vacuum f \<or> fs packed \<noteq> None \<and> fs packed \<noteq> Some [] then
                         (Inl (OtherError ''backup: vacuum''), fs(packed := None))
                       else (case quickCheck quick copy of
                               Inl e \<Rightarrow> (Inl e, fs(packed := None))
                             | Inr _ \<Rightarrow>
                                 (case vf_stat f of
                                    Some e \<Rightarrow> (Inl e, fs(packed \<mapsto> copy))
                                  | None \<Rightarrow> swapIn optimize f keep dbPath packed (preVacuumPath dbPath stamp) (length old) copy (fs(packed \<mapsto> copy)))))))"

lemma vacuum_paths [simp]:
  "compactPath p s \<noteq> p" "preVacuumPath p s \<noteq> p" "compactPath p s \<noteq> preVacuumPath p s" "preVacuumPath p s \<noteq> compactPath p s"
  "compactPath p s \<noteq> p @ ''-wal''" "compactPath p s \<noteq> p @ ''-shm''" "preVacuumPath p s \<noteq> p @ ''-wal''" "preVacuumPath p s \<noteq> p @ ''-shm''"
  "p \<noteq> compactPath p s" "p \<noteq> preVacuumPath p s"
  by (auto simp: compactPath_def preVacuumPath_def)

text \<open>A compaction never loses the data: afterwards the file is the old one or the checked compact copy, or it is missing and the
  old one stands aside; a compaction that succeeds has put the copy in place, and kept the old file when asked to.\<close>

lemma vacuum_keeps_data:
  assumes "fs dbPath = Some old" and "Vacuum sq quick optimize f keep stamp dbPath fs = (r, fs')"
  shows "case r of
      Inr res \<Rightarrow> fs' dbPath \<in> {Some (sq_vacuum sq old), Some (optimize (sq_vacuum sq old))} \<and> quick (sq_vacuum sq old) = Inr ''ok'' \<and>
        (keep \<longrightarrow> fs' (preVacuumPath dbPath stamp) = Some old \<and> vr_previous res = preVacuumPath dbPath stamp)
    | Inl e \<Rightarrow> fs' dbPath = Some old \<or> fs' dbPath = None \<and> fs' (preVacuumPath dbPath stamp) = Some old"
proof -
  consider e where "r = Inl e" "fs' dbPath = Some old"
    | "quickCheck quick (sq_vacuum sq old) = Inr ()"
      "swapIn optimize f keep dbPath (compactPath dbPath stamp) (preVacuumPath dbPath stamp) (length old) (sq_vacuum sq old)
         (fs(compactPath dbPath stamp \<mapsto> sq_vacuum sq old)) = (r, fs')"
    using assms by (auto simp: Vacuum_def Let_def split: option.splits if_splits sum.splits)
  then show ?thesis
  proof cases
    case 1
    then show ?thesis by simp
  next
    case 2
    have ok: "quick (sq_vacuum sq old) = Inr ''ok''" using 2(1) by (auto simp: quickCheck_def split: sum.splits if_splits)
    show ?thesis
      using 2(2) assms(1) ok by (auto simp: swapIn_def Let_def renameFile_def split: option.splits if_splits)
  qed
qed

subsection \<open>A small database\<close>

definition demoSqlite :: sqlite where
  "demoSqlite = \<lparr>sq_vacuum = (\<lambda>c. ''S'' @ c), sq_verdict = (\<lambda>_. Inr ''ok''), sq_applied = (\<lambda>_. Inr 13)\<rparr>"

definition demoCodec :: codec where
  "demoCodec = \<lparr>cd_sha = (\<lambda>c. ''#'' @ c), cd_marshal = mf_release,
     cd_unmarshal = (\<lambda>r. Some \<lparr>mf_format = 1, mf_created = 0, mf_release = r, mf_migrations = 13, mf_sha = ''#SX'', mf_bytes = 2\<rparr>),
     cd_pack = (\<lambda>es. concat (map snd es)), cd_unpack = (\<lambda>b. Some [TarEntry manifestName (take 2 b) False, TarEntry dbName (drop 2 b) False])\<rparr>"

definition demoOptions :: restoreOptions where
  "demoOptions = \<lparr>ro_force = False, ro_maxMigrations = 13, ro_stamp = ''20240101T000000Z''\<rparr>"

definition noCreateFaults :: createFaults where
  "noCreateFaults = \<lparr>bf_open = False, bf_temp = False, bf_vacuum = None, bf_inspect = None, bf_write = None, bf_sync = False\<rparr>"

lemma demo_paths: "pathsOk ''/data/db'' (ro_stamp demoOptions) ''/data/w'' (\<lambda>_. None)"
  by (simp add: pathsOk_def under_def hasPrefix_def asidePath_def demoOptions_def)

theorem backup_restores_snapshot_witness:
  "\<exists>m fs1 bundle fs3. CreateFile demoSqlite demoCodec noCreateFaults ''v1'' 0 ''X'' ''/out'' (\<lambda>_. None) = (Inr m, fs1) \<and> fs1 ''/out'' = Some bundle \<and>
     Restore demoSqlite demoCodec demoOptions noRestoreFaults bundle ''/data/db'' ''/data/w'' (\<lambda>_. None) =
       (Inr \<lparr>rs_manifest = m, rs_previous = ''''\<rparr>, fs3) \<and> fs3 ''/data/db'' = Some ''SX''"
proof -
  define m where "m = \<lparr>mf_format = 1, mf_created = 0, mf_release = ''v1'', mf_migrations = 13, mf_sha = ''#SX'', mf_bytes = 2\<rparr>"
  have c: "CreateFile demoSqlite demoCodec noCreateFaults ''v1'' 0 ''X'' ''/out'' (\<lambda>_. None) = (Inr m, [''/out'' \<mapsto> ''v1SX''])"
    by (simp add: CreateFile_def Create_def inspect_def noCreateFaults_def demoSqlite_def demoCodec_def bundleOf_def m_def
        FormatVersion_def truncateTo_def Let_def cong: if_cong)
  have "\<exists>fs3. Restore demoSqlite demoCodec demoOptions noRestoreFaults ''v1SX'' ''/data/db'' ''/data/w'' (\<lambda>_. None) =
       (Inr \<lparr>rs_manifest = m, rs_previous = ''''\<rparr>, fs3) \<and> fs3 ''/data/db'' = Some (sq_vacuum demoSqlite ''X'')"
    by (rule backup_restores_snapshot [OF c _ _ _ _ _ _ demo_paths])
      (simp_all add: demoCodec_def demoSqlite_def m_def demoOptions_def maxManifestBytes_def maxDBBytes_def)
  then show ?thesis using c by (auto simp: demoSqlite_def)
qed


end
