(* ===== verification/Agent_Session.thy ===== *)
theory Agent_Session
  imports Http_Api Backup
begin

section \<open>The agent's identity and its session (internal/agent/agent.go, internal/transport/keys.go)\<close>

text \<open>
  Keys are base64 texts of 32 bytes; the decoder is that of encoding/base64, the derivation of a public key
  (X25519) is the parameter \<open>x25519\<close>. \<open>AgentEnroll\<close> generates a key pair, exchanges the secret for a tunnel address
  and writes the configuration; the exchange with the server is a function on the server's state, which
  returns the status and the decoded body of the answer, or \<open>None\<close> when the request fails. The JSON codec of the
  configuration is a parameter, as are the resolver and \<^verbatim>\<open>net.ParseIP\<close>. The tunnel of a session is in theory
  \<open>Tunnel\<close>.
\<close>

subsection \<open>Keys (keys.go)\<close>

definition IngestPort :: nat where "IngestPort = 8443"
definition keyLen :: nat where "keyLen = 32"

definition b64Value :: "char \<Rightarrow> nat option" where
  "b64Value c =
     (let b = byte c
      in if 65 \<le> b \<and> b \<le> 90 then Some (b - 65)
         else if 97 \<le> b \<and> b \<le> 122 then Some (b - 71)
         else if 48 \<le> b \<and> b \<le> 57 then Some (b + 4)
         else if b = 43 then Some 62 else if b = 47 then Some 63 else None)"

definition b64Char :: "nat \<Rightarrow> char" where
  "b64Char n =
     char_of (if n < 26 then n + 65 else if n < 52 then n + 71 else if n < 62 then n - 4 else if n = 62 then 43 else 47)"

text \<open>\<^verbatim>\<open>base64.StdEncoding\<close>: line breaks are skipped, the last group is padded, the unused bits of a padded group
  are not checked.\<close>

fun b64Groups :: "string \<Rightarrow> nat list option" where
  "b64Groups [] = Some []"
| "b64Groups (a # b # c # d # r) =
     (case (b64Value a, b64Value b) of
        (Some w, Some x) \<Rightarrow>
          if c = CHR ''='' then (if d = CHR ''='' \<and> r = [] then Some [w * 4 + x div 16] else None)
          else (case b64Value c of
                  None \<Rightarrow> None
                | Some y \<Rightarrow>
                    if d = CHR ''='' then (if r = [] then Some [w * 4 + x div 16, x mod 16 * 16 + y div 4] else None)
                    else (case b64Value d of
                            None \<Rightarrow> None
                          | Some z \<Rightarrow>
                              map_option (\<lambda>t. (w * 4 + x div 16) # (x mod 16 * 16 + y div 4) # (y mod 4 * 64 + z) # t) (b64Groups r)))
      | _ \<Rightarrow> None)"
| "b64Groups _ = None"

definition b64Decode :: "string \<Rightarrow> nat list option" where
  "b64Decode s = b64Groups (filter (\<lambda>c. c \<noteq> CHR 0x0A \<and> c \<noteq> CHR 0x0D) s)"

fun b64Encode :: "nat list \<Rightarrow> string" where
  "b64Encode [] = []"
| "b64Encode [p] = [b64Char (p div 4), b64Char (p mod 4 * 16), CHR ''='', CHR ''='']"
| "b64Encode [p, q] = [b64Char (p div 4), b64Char (p mod 4 * 16 + q div 16), b64Char (q mod 16 * 4), CHR ''='']"
| "b64Encode (p # q # r # t) =
     b64Char (p div 4) # b64Char (p mod 4 * 16 + q div 16) # b64Char (q mod 16 * 4 + r div 64) # b64Char (r mod 64) # b64Encode t"

definition decodeKey :: "string \<Rightarrow> nat list result" where
  "decodeKey s =
     (case b64Decode s of
        None \<Rightarrow> Inl (OtherError ''transport: key must be 32 bytes, base64 encoded'')
      | Some raw \<Rightarrow> if length raw \<noteq> keyLen then Inl (OtherError ''transport: key must be 32 bytes, base64 encoded'') else Inr raw)"

definition PublicKey :: "(nat list \<Rightarrow> nat list) \<Rightarrow> string \<Rightarrow> string result" where
  "PublicKey x25519 private = result_bind (decodeKey private) (\<lambda>raw. Inr (b64Encode (x25519 raw)))"

definition ValidatePublicKey :: "string \<Rightarrow> unit result" where
  "ValidatePublicKey s = result_bind (decodeKey s) (\<lambda>_. Inr ())"

definition hexOf :: "nat list \<Rightarrow> string" where
  "hexOf bs = concat (map (\<lambda>b. [char_of (if b div 16 < 10 then 48 + b div 16 else 87 + b div 16),
     char_of (if b mod 16 < 10 then 48 + b mod 16 else 87 + b mod 16)]) bs)"

definition hexKey :: "string \<Rightarrow> string result" where
  "hexKey s = result_bind (decodeKey s) (\<lambda>raw. Inr (hexOf raw))"

definition GenerateKey :: "(nat list \<Rightarrow> nat list) \<Rightarrow> nat list option \<Rightarrow> (string \<times> string) result" where
  "GenerateKey x25519 rnd =
     (case rnd of
        None \<Rightarrow> Inl (OtherError ''transport: generate key'')
      | Some k \<Rightarrow> Inr (b64Encode k, b64Encode (x25519 k)))"

subsection \<open>The configuration (agent.go)\<close>

record agentConfig =
  ac_host :: string
  ac_private :: string
  ac_tunnelIP :: string
  ac_serverKey :: string
  ac_serverEndpoint :: string
  ac_serverTunnelIP :: string

definition agentValidate :: "(nat list \<Rightarrow> nat list) \<Rightarrow> agentConfig \<Rightarrow> unit result" where
  "agentValidate x25519 c =
     (if ac_host c = '''' \<or> ac_serverEndpoint c = '''' then Inl (OtherError ''agent: config is incomplete (host_id/server_endpoint)'')
      else result_bind (PublicKey x25519 (ac_private c)) (\<lambda>_.
           result_bind (ValidatePublicKey (ac_serverKey c)) (\<lambda>_.
             if ParseAddr (ac_tunnelIP c) = None \<or> ParseAddr (ac_serverTunnelIP c) = None then Inl (OtherError ''agent: config address'')
             else Inr ())))"

record configFaults =
  cf_mkdir :: bool
  cf_open :: bool
  cf_write :: "nat option"

definition writeConfig :: "(agentConfig \<Rightarrow> string) \<Rightarrow> configFaults \<Rightarrow> string \<Rightarrow> agentConfig \<Rightarrow> files \<Rightarrow> unit result \<times> files" where
  "writeConfig marshal f path cfg fs =
     (if cf_mkdir f then (Inl (OtherError ''agent: create config dir''), fs)
      else if cf_open f \<or> fs path \<noteq> None then (Inl (OtherError ''agent: create config''), fs)
      else let raw = marshal cfg @ [CHR 0x0A]
           in case cf_write f of
                Some n \<Rightarrow> (Inl (OtherError ''agent: write config''), fs(path \<mapsto> take n raw))
              | None \<Rightarrow> (Inr (), fs(path \<mapsto> raw)))"

definition LoadConfig :: "(nat list \<Rightarrow> nat list) \<Rightarrow> (string \<Rightarrow> agentConfig option) \<Rightarrow> string \<Rightarrow> files \<Rightarrow> agentConfig result" where
  "LoadConfig x25519 unmarshal path fs =
     (case fs path of
        None \<Rightarrow> Inl (OtherError ''agent: read config'')
      | Some raw \<Rightarrow>
          (case unmarshal raw of
             None \<Rightarrow> Inl (OtherError ''agent: parse config'')
           | Some cfg \<Rightarrow> result_bind (agentValidate x25519 cfg) (\<lambda>_. Inr cfg)))"

text \<open>The exchange of the secret; \<open>statFails\<close> is an error of \<^verbatim>\<open>os.Stat\<close> other than the file being there.\<close>

definition AgentEnroll ::
  "(nat list \<Rightarrow> nat list) \<Rightarrow> (agentConfig \<Rightarrow> string) \<Rightarrow> (string \<Rightarrow> string \<Rightarrow> 's \<Rightarrow> (int \<times> enrollResponse option) option \<times> 's) \<Rightarrow>
   nat list option \<Rightarrow> bool \<Rightarrow> configFaults \<Rightarrow> string \<Rightarrow> string \<Rightarrow> files \<times> 's \<Rightarrow> agentConfig result \<times> files \<times> 's" where
  "AgentEnroll x25519 marshal exchange rnd statFails f secret path st =
     (case st of (fs, srv) \<Rightarrow>
        if \<not> statFails \<and> fs path \<noteq> None then (Inl (OtherError ''agent: config already exists; delete it to enroll again''), fs, srv)
        else case GenerateKey x25519 rnd of
               Inl e \<Rightarrow> (Inl e, fs, srv)
             | Inr (private, public) \<Rightarrow>
                 (case exchange secret public srv of
                    (None, srv') \<Rightarrow> (Inl (OtherError ''agent: enrollment request''), fs, srv')
                  | (Some (code, body), srv') \<Rightarrow>
                      if code \<noteq> 200 then (Inl (OtherError ''agent: enrollment rejected''), fs, srv')
                      else case body of
                             None \<Rightarrow> (Inl (OtherError ''agent: decode enrollment response''), fs, srv')
                           | Some out \<Rightarrow>
                               let cfg = \<lparr>ac_host = ep_host out, ac_private = private, ac_tunnelIP = ep_tunnelIP out,
                                          ac_serverKey = ep_serverKey out, ac_serverEndpoint = ep_serverEndpoint out,
                                          ac_serverTunnelIP = ep_serverTunnelIP out\<rparr>
                               in case agentValidate x25519 cfg of
                                    Inl e \<Rightarrow> (Inl e, fs, srv')
                                  | Inr _ \<Rightarrow>
                                      (case writeConfig marshal f path cfg fs of
                                         (Inl e, fs') \<Rightarrow> (Inl e, fs', srv')
                                       | (Inr _, fs') \<Rightarrow> (Inr cfg, fs', srv'))))"

subsection \<open>The session\<close>

text \<open>\<^verbatim>\<open>resolveEndpoint\<close>: a host that is an IP address stays, otherwise the first IPv4 address of the name is taken,
  or the first address when there is none. \<^verbatim>\<open>net.JoinHostPort\<close> puts an IPv6 address in brackets.\<close>

definition joinHostPort :: "string \<Rightarrow> string \<Rightarrow> string" where
  "joinHostPort host port = (if CHR '':'' \<in> set host then ''['' @ host @ '']:'' @ port else host @ '':'' @ port)"

definition lastPort :: "string \<Rightarrow> string" where
  "lastPort hp = rev (takeWhile (\<lambda>c. c \<noteq> CHR '':'') (rev hp))"

definition firstV4 :: "addr list \<Rightarrow> addr option" where
  "firstV4 as =
     (case find (\<lambda>a. case Unmap a of V4 _ \<Rightarrow> True | V6 _ _ \<Rightarrow> False) as of
        Some a \<Rightarrow> Some (Unmap a)
      | None \<Rightarrow> (case as of [] \<Rightarrow> None | V6 gs _ # _ \<Rightarrow> Some (V6 gs []) | a # _ \<Rightarrow> Some a))"

definition resolveEndpoint :: "(string \<Rightarrow> bool) \<Rightarrow> (string \<Rightarrow> addr list result) \<Rightarrow> string \<Rightarrow> string result" where
  "resolveEndpoint isIP lookup endpoint =
     (case splitHostPort endpoint of
        None \<Rightarrow> Inl (OtherError ''missing port in address'')
      | Some host \<Rightarrow>
          if isIP host then Inr endpoint
          else result_bind (lookup host) (\<lambda>as.
                 case firstV4 as of
                   None \<Rightarrow> Inl (OtherError ''no addresses'')
                 | Some a \<Rightarrow> Inr (joinHostPort (addrString a) (lastPort endpoint))))"

text \<open>The answer to one posted batch, as \<^verbatim>\<open>Send\<close> reports it.\<close>

datatype 'r sendResult = Sent 'r | SendStatus int string | SendBroken

definition Send :: "(string \<Rightarrow> string \<Rightarrow> 's \<Rightarrow> (int \<times> string \<times> 'r option) option \<times> 's) \<Rightarrow> string \<Rightarrow> string \<Rightarrow> 's \<Rightarrow> 'r sendResult \<times> 's" where
  "Send post key batch srv =
     (case post key batch srv of
        (None, srv') \<Rightarrow> (SendBroken, srv')
      | (Some (code, text, body), srv') \<Rightarrow>
          if code \<noteq> 200 then (SendStatus code (trimSpace text), srv')
          else (case body of None \<Rightarrow> SendBroken | Some r \<Rightarrow> Sent r, srv'))"

definition NewKey :: "nat list \<Rightarrow> string" where
  "NewKey rnd = hexOf rnd"

subsection \<open>Keys survive their encoding\<close>

lemma b64Value_Char: "n < 64 \<Longrightarrow> b64Value (b64Char n) = Some n"
  by (auto simp: b64Value_def b64Char_def Let_def)

lemma byte_b64Char: "byte (b64Char n) = (if n < 26 then n + 65 else if n < 52 then n + 71 else if n < 62 then n - 4 else if n = 62 then 43 else 47)"
  by (simp add: b64Char_def)

lemma b64Char_plain: "b64Char n \<noteq> CHR ''=''" "b64Char n \<noteq> CHR 0x0A" "b64Char n \<noteq> CHR 0x0D"
proof -
  have "byte (b64Char n) \<notin> {61, 10, 13}" by (auto simp: byte_b64Char split: if_splits)
  then show "b64Char n \<noteq> CHR ''=''" "b64Char n \<noteq> CHR 0x0A" "b64Char n \<noteq> CHR 0x0D" by (auto simp: byte_def)
qed

lemma b64_join:
  fixes p q r :: nat
  shows "q < 256 \<Longrightarrow> p div 4 * 4 + (p mod 4 * 16 + q div 16) div 16 = p"
    and "q < 256 \<Longrightarrow> r < 256 \<Longrightarrow> (p mod 4 * 16 + q div 16) mod 16 * 16 + (q mod 16 * 4 + r div 64) div 4 = q"
    and "r < 256 \<Longrightarrow> (q mod 16 * 4 + r div 64) mod 4 * 64 + r mod 64 = r"
proof -
  have d: "(c * k + x) div k = c" "(c * k + x) mod k = x" if "x < k" for c k x :: nat using that by auto
  show "p div 4 * 4 + (p mod 4 * 16 + q div 16) div 16 = p" if "q < 256"
    using d(1) [of "q div 16" 16 "p mod 4"] that by (simp add: less_mult_imp_div_less)
  show "(p mod 4 * 16 + q div 16) mod 16 * 16 + (q mod 16 * 4 + r div 64) div 4 = q" if "q < 256" "r < 256"
    using d(2) [of "q div 16" 16 "p mod 4"] d(1) [of "r div 64" 4 "q mod 16"] that by (simp add: less_mult_imp_div_less)
  show "(q mod 16 * 4 + r div 64) mod 4 * 64 + r mod 64 = r" if "r < 256"
    using d(2) [of "r div 64" 4 "q mod 16"] that by (simp add: less_mult_imp_div_less)
qed

lemma b64_round: "\<forall>b\<in>set bs. b < 256 \<Longrightarrow> b64Groups (b64Encode bs) = Some bs"
proof (induction bs rule: b64Encode.induct)
  case (2 p)
  then have "p mod 4 * 16 < 64" "p div 4 < 64" by auto
  then show ?case by (simp add: b64Value_Char b64Char_plain)
next
  case (3 p q)
  then have "p mod 4 * 16 + q div 16 < 64" "q mod 16 * 4 < 64" "p div 4 < 64" "q div 16 < 16" by auto
  then show ?case using 3 b64_join(1) [of q p] b64_join(2) [of q 0 p] by (simp add: b64Value_Char b64Char_plain)
next
  case (4 p q r t)
  then have "p mod 4 * 16 + q div 16 < 64" "q mod 16 * 4 + r div 64 < 64" "p div 4 < 64" "r mod 64 < 64" "q div 16 < 16" by auto
  then show ?case using 4 b64_join(1) [of q p] b64_join(2) [of q r p] b64_join(3) [of r q] by (simp add: b64Value_Char b64Char_plain)
qed simp

lemma b64Encode_lines: "filter (\<lambda>c. c \<noteq> CHR 0x0A \<and> c \<noteq> CHR 0x0D) (b64Encode bs) = b64Encode bs"
  by (induction bs rule: b64Encode.induct) (simp_all add: b64Char_plain)

lemma decodeKey_encode: "length k = 32 \<Longrightarrow> \<forall>b\<in>set k. b < 256 \<Longrightarrow> decodeKey (b64Encode k) = Inr k"
  by (simp add: decodeKey_def b64Decode_def b64Encode_lines b64_round keyLen_def)

subsection \<open>Enrollment, from the agent's file to the server's tables\<close>

text \<open>The server's handler at the other end of the exchange.\<close>

definition serverExchange ::
  "(duration \<Rightarrow> int \<Rightarrow> 'l) \<Rightarrow> ('l \<Rightarrow> time \<Rightarrow> bool \<times> 'l) \<Rightarrow> (string \<Rightarrow> string) \<Rightarrow>
   (string \<Rightarrow> addr \<Rightarrow> 't \<Rightarrow> unit result \<times> 't) option \<Rightarrow> error option \<Rightarrow> serverInfo \<Rightarrow> prefix \<Rightarrow> prefix list \<Rightarrow> time \<Rightarrow> request \<Rightarrow>
   string \<Rightarrow> string \<Rightarrow> 'l limiter \<times> tdb \<times> 't \<Rightarrow> (int \<times> enrollResponse option) option \<times> 'l limiter \<times> tdb \<times> 't" where
  "serverExchange newLim allowN sha tunnel fault server subnet trusted now req secret public st =
     (case enroll newLim allowN sha (\<lambda>k. ValidatePublicKey k = Inr ()) tunnel fault server subnet trusted now req
             (Some \<lparr>eq_secret = secret, eq_publicKey = public\<rparr>) st of
        (Reply code body, st') \<Rightarrow> (Some (code, Some body), st')
      | (Refuse code _, st') \<Rightarrow> (Some (code, None), st'))"

lemma serverExchange_200:
  assumes "serverExchange newLim allowN sha tunnel fault server subnet trusted now req secret public (lm, db, tun) = (Some (200, Some out), lm', db', tun')"
  shows "\<exists>en. EnrollSvc sha (\<lambda>k. ValidatePublicKey k = Inr ()) tunnel fault server secret public now subnet (db, tun) = (Inr en, db', tun') \<and>
     ep_host out = er_host en \<and> ep_tunnelIP out = addrString (er_ip en)"
  using assms
  by (auto simp: serverExchange_def enroll_def Let_def apiFail_def split: prod.splits reply.splits if_splits sum.splits)

lemma writeConfig_Inr:
  "writeConfig marshal f path cfg fs = (Inr u, fs') \<Longrightarrow> fs path = None \<and> fs' = fs(path \<mapsto> marshal cfg @ [CHR 0x0A])"
  by (auto simp: writeConfig_def Let_def split: if_splits option.splits)

lemma AgentEnroll_Inr:
  assumes "AgentEnroll x25519 marshal exchange rnd statFails f secret path (fs, srv) = (Inr cfg, fs', srv')"
  obtains k out where "rnd = Some k" "exchange secret (b64Encode (x25519 k)) srv = (Some (200, Some out), srv')"
    "cfg = \<lparr>ac_host = ep_host out, ac_private = b64Encode k, ac_tunnelIP = ep_tunnelIP out, ac_serverKey = ep_serverKey out,
            ac_serverEndpoint = ep_serverEndpoint out, ac_serverTunnelIP = ep_serverTunnelIP out\<rparr>"
    "agentValidate x25519 cfg = Inr ()" "fs path = None" "fs' = fs(path \<mapsto> marshal cfg @ [CHR 0x0A])"
proof -
  obtain k where k: "rnd = Some k" using assms by (cases rnd) (auto simp: AgentEnroll_def GenerateKey_def split: if_splits)
  obtain out where o: "exchange secret (b64Encode (x25519 k)) srv = (Some (200, Some out), srv')"
    using assms k by (auto simp: AgentEnroll_def GenerateKey_def Let_def split: if_splits option.splits prod.splits sum.splits)
  define c where "c = \<lparr>ac_host = ep_host out, ac_private = b64Encode k, ac_tunnelIP = ep_tunnelIP out, ac_serverKey = ep_serverKey out,
            ac_serverEndpoint = ep_serverEndpoint out, ac_serverTunnelIP = ep_serverTunnelIP out\<rparr>"
  have v: "agentValidate x25519 c = Inr ()" and w: "writeConfig marshal f path c fs = (Inr (), fs')" and "cfg = c"
    using assms k o by (auto simp: AgentEnroll_def GenerateKey_def Let_def c_def [symmetric] split: if_splits sum.splits prod.splits)
  then show ?thesis using that [OF k o] writeConfig_Inr [OF w] by (simp add: c_def)
qed

text \<open>C8 (refinement). What an agent writes down after enrolling is what the server knows about it: the configuration
  file was not there before, it reads back as the returned configuration, no other file changed; its
  tunnel address is a host address of the subnet that the server resolves to the host of the
  configuration, and the key the server has stored for that host is the public key of the agent's
  private key.\<close>

theorem enrolled_agent_known_to_server:
  assumes "ipv4 p" and "peers_inv p db" and "length k = 32" and "\<forall>b\<in>set k. b < 256"
    and "AgentEnroll x25519 marshal (serverExchange newLim allowN sha tunnel fault server p trusted now req) (Some k) statFails f secret path
      (fs, lm, db, tun) = (Inr cfg, fs', lm', db', tun')"
    and "unmarshal (marshal cfg @ [CHR 0x0A]) = Some cfg"
  shows "fs path = None \<and> LoadConfig x25519 unmarshal path fs' = Inr cfg \<and> (\<forall>q. q \<noteq> path \<longrightarrow> fs' q = fs q) \<and>
     (\<exists>v r. ParseAddr (ac_tunnelIP cfg) = Some (V4 v) \<and> hostAddress p v \<and> HostByTunnelIP None (V4 v) db' = Inr (Some (ac_host cfg)) \<and>
        (ac_host cfg, r) \<in> set (peers db') \<and> PublicKey x25519 (ac_private cfg) = Inr (p_key r))"
proof -
  obtain out where o: "serverExchange newLim allowN sha tunnel fault server p trusted now req secret (b64Encode (x25519 k)) (lm, db, tun) =
      (Some (200, Some out), lm', db', tun')"
    and cfg: "ac_host cfg = ep_host out" "ac_private cfg = b64Encode k" "ac_tunnelIP cfg = ep_tunnelIP out"
    and saved: "agentValidate x25519 cfg = Inr ()" "fs path = None" "fs' = fs(path \<mapsto> marshal cfg @ [CHR 0x0A])"
    using AgentEnroll_Inr [OF assms(5)] by (metis agentConfig.select_convs(1-3) option.inject)
  obtain en where en: "EnrollSvc sha (\<lambda>k. ValidatePublicKey k = Inr ()) tunnel fault server secret (b64Encode (x25519 k)) now p (db, tun) = (Inr en, db', tun')"
    "ep_host out = er_host en" "ep_tunnelIP out = addrString (er_ip en)" using serverExchange_200 [OF o] by blast
  have id: "HostByTunnelIP None (er_ip en) db' = Inr (Some (er_host en))" and "\<exists>v. er_ip en = V4 v \<and> hostAddress p v"
    using enrolled_address [OF assms(1,2) en(1) rtranclp.rtrancl_refl] by blast+
  then obtain v where v: "er_ip en = V4 v" "hostAddress p v" by blast
  have "v < 2 ^ 32" using v(2) assms(1) by (auto simp: hostAddress_def inSubnet_def ipv4_def split: if_splits)
  then have ip: "ParseAddr (ac_tunnelIP cfg) = Some (V4 v)" using cfg(3) en(3) v(1) by (simp add: ParseAddr_v4String)
  obtain pe where pe: "Enroll fault (sha secret) (b64Encode (x25519 k)) now p db = (Inr pe, db')" "pe_host pe = er_host en" "pe_ip pe = er_ip en"
    using EnrollSvc_stored [OF en(1)] by blast
  have "\<exists>r. (er_host en, r) \<in> set (peers db') \<and> p_key r = b64Encode (x25519 k)" using Enroll_Inr [OF pe(1)] pe(2) by force
  moreover have "PublicKey x25519 (ac_private cfg) = Inr (b64Encode (x25519 k))"
    using decodeKey_encode [OF assms(3,4)] cfg(2) by (simp add: PublicKey_def)
  moreover have "LoadConfig x25519 unmarshal path fs' = Inr cfg" using saved assms(6) by (simp add: LoadConfig_def)
  ultimately show ?thesis using saved ip v id cfg(1) en(2) by auto
qed

text \<open>A running example: a host enrolls with a server whose limiter lets it through.\<close>

definition demoKey :: "nat list" where "demoKey = replicate 32 1"

definition keyServer :: serverInfo where
  "keyServer = \<lparr>si_key = b64Encode demoKey, si_endpoint = ''vps:51820'', si_ip = V4 172818433\<rparr>"

definition noConfigFaults :: configFaults where
  "noConfigFaults = \<lparr>cf_mkdir = False, cf_open = False, cf_write = None\<rparr>"

definition demoExchange :: "string \<Rightarrow> string \<Rightarrow> unit limiter \<times> tdb \<times> nat \<Rightarrow> (int \<times> enrollResponse option) option \<times> unit limiter \<times> tdb \<times> nat" where
  "demoExchange = serverExchange (\<lambda>_ _. ()) (\<lambda>l _. (True, l)) demoSha (Some demoAddPeer) None keyServer demoSubnet [] second demoRequest"

definition demoAgent :: agentConfig where
  "demoAgent = \<lparr>ac_host = ''h1'', ac_private = b64Encode demoKey, ac_tunnelIP = v4String 172818434, ac_serverKey = b64Encode demoKey,
     ac_serverEndpoint = ''vps:51820'', ac_serverTunnelIP = v4String 172818433\<rparr>"

lemma demoKey_ok: "decodeKey (b64Encode demoKey) = Inr demoKey" "length demoKey = 32" "\<forall>b\<in>set demoKey. b < 256"
  by (simp_all add: decodeKey_encode demoKey_def)

lemma demoAgent_valid: "agentValidate id demoAgent = Inr ()"
  by (simp add: agentValidate_def demoAgent_def PublicKey_def ValidatePublicKey_def demoKey_ok ParseAddr_v4String)

lemma demoAgent_enrolls:
  "\<exists>lm' db' tun'. AgentEnroll id (\<lambda>_. ''C'') demoExchange (Some demoKey) False noConfigFaults ''s'' ''/etc/agent.json''
     (\<lambda>_. None, New enrollEvery enrollBurst, demoEnroll, 0) = (Inr demoAgent, [''/etc/agent.json'' \<mapsto> ''C'' @ [CHR 0x0A]], lm', db', tun')"
proof -
  obtain db' where e: "Enroll None (demoSha ''s'') (b64Encode demoKey) second demoSubnet demoEnroll =
      (Inr \<lparr>pe_host = ''h1'', pe_key = b64Encode demoKey, pe_ip = V4 172818434, pe_enrolled = second\<rparr>, db')"
    using demoEnroll_any by blast
  have "EnrollSvc demoSha (\<lambda>k. ValidatePublicKey k = Inr ()) (Some demoAddPeer) None keyServer ''s'' (b64Encode demoKey) second demoSubnet (demoEnroll, 0) =
      (Inr \<lparr>er_host = ''h1'', er_ip = V4 172818434, er_server = keyServer\<rparr>, db', 1)"
    by (simp add: EnrollSvc_def e demoAddPeer_def ValidatePublicKey_def demoKey_ok)
  then have x: "\<exists>lm'. demoExchange ''s'' (b64Encode demoKey) (New enrollEvery enrollBurst, demoEnroll, 0) =
      (Some (200, Some \<lparr>ep_host = ''h1'', ep_tunnelIP = v4String 172818434, ep_serverKey = b64Encode demoKey,
         ep_serverEndpoint = ''vps:51820'', ep_serverTunnelIP = v4String 172818433\<rparr>), lm', db', 1)"
    by (simp add: demoExchange_def serverExchange_def enroll_def Allow_def New_def Let_def keyServer_def)
  then show ?thesis
    using demoAgent_valid
    by (auto simp: AgentEnroll_def GenerateKey_def Let_def writeConfig_def noConfigFaults_def demoAgent_def)
qed

theorem enrolled_agent_known_to_server_witness:
  "\<exists>fs' lm' db' tun'. AgentEnroll id (\<lambda>_. ''C'') demoExchange (Some demoKey) False noConfigFaults ''s'' ''/etc/agent.json''
     (\<lambda>_. None, New enrollEvery enrollBurst, demoEnroll, 0) = (Inr demoAgent, fs', lm', db', tun') \<and>
     LoadConfig id (\<lambda>_. Some demoAgent) ''/etc/agent.json'' fs' = Inr demoAgent \<and>
     HostByTunnelIP None (V4 172818434) db' = Inr (Some ''h1'')"
proof -
  obtain fs' lm' db' tun' where r: "AgentEnroll id (\<lambda>_. ''C'') demoExchange (Some demoKey) False noConfigFaults ''s'' ''/etc/agent.json''
     (\<lambda>_. None, New enrollEvery enrollBurst, demoEnroll, 0) = (Inr demoAgent, fs', lm', db', tun')" using demoAgent_enrolls by blast
  have "ParseAddr (ac_tunnelIP demoAgent) = Some (V4 172818434)" "ac_host demoAgent = ''h1''"
    by (simp_all add: demoAgent_def ParseAddr_v4String)
  then show ?thesis
    using r enrolled_agent_known_to_server [OF demoSubnet_ipv4 demoEnroll_inv demoKey_ok(2,3) r [unfolded demoExchange_def], of "\<lambda>_. Some demoAgent"]
    by auto
qed

end
