(* ===== verification/Tunnel.thy ===== *)
theory Tunnel
  imports Agent_Session
begin

section \<open>The tunnel (internal/transport, startTunnel of cmd/smotryashchiy/server.go)\<close>

text \<open>
  Both ends configure a WireGuard device by text. The device is a parameter: creating it, setting it, bringing it
  up and reading its state. What the server relies on is stated as \<open>cryptokey\<close>: which key may send from
  which tunnel address after a peer was added. The theory ends with the composition of the tunnel with enrollment:
  traffic the device lets in is attributed to the host whose key it was sent with.
\<close>

record 'd device =
  dv_create :: "addr \<Rightarrow> 'd result"
  dv_set :: "string \<Rightarrow> 'd \<Rightarrow> unit result \<times> 'd"
  dv_up :: "'d \<Rightarrow> unit result \<times> 'd"
  dv_get :: "'d \<Rightarrow> string result"

subsection \<open>The server (server.go)\<close>




definition serverText :: "string \<Rightarrow> int \<Rightarrow> string" where
  "serverText priv port = ''private_key='' @ priv @ [CHR 0x0A] @ ''listen_port='' @ intText port @ [CHR 0x0A]"

definition peerText :: "string \<Rightarrow> addr \<Rightarrow> string" where
  "peerText pub ip =
     ''public_key='' @ pub @ [CHR 0x0A] @ ''replace_allowed_ips=true'' @ [CHR 0x0A] @ ''allowed_ip='' @ addrString ip @ ''/32'' @ [CHR 0x0A]"


definition AddPeer :: "'d device \<Rightarrow> string \<Rightarrow> addr \<Rightarrow> 'd \<Rightarrow> unit result \<times> 'd" where
  "AddPeer dv publicKey ip d =
     (case hexKey publicKey of
        Inl e \<Rightarrow> (Inl e, d)
      | Inr pub \<Rightarrow>
          (case dv_set dv (peerText pub ip) d of
             (Inl e, d') \<Rightarrow> (Inl (OtherError ''transport: add peer''), d')
           | (Inr _, d') \<Rightarrow> (Inr (), d')))"

subsection \<open>The client (client.go)\<close>

definition keepalive :: nat where "keepalive = 15"
definition handshakeTimeout :: duration where "handshakeTimeout = 15 * second"

definition clientText :: "string \<Rightarrow> string \<Rightarrow> string \<Rightarrow> addr \<Rightarrow> string" where
  "clientText priv serverPub endpoint serverIP =
     ''private_key='' @ priv @ [CHR 0x0A] @ ''public_key='' @ serverPub @ [CHR 0x0A] @ ''endpoint='' @ endpoint @ [CHR 0x0A] @
     ''allowed_ip='' @ addrString serverIP @ ''/32'' @ [CHR 0x0A] @ ''persistent_keepalive_interval='' @ itoa keepalive @ [CHR 0x0A]"

definition shookHands :: "string \<Rightarrow> bool" where
  "shookHands dump \<longleftrightarrow>
     list_ex (\<lambda>line. hasPrefix line ''last_handshake_time_sec='' \<and> drop 24 line \<noteq> ''0'') (splitOn CHR 0x0A dump)"

text \<open>The wait for the first handshake, one round per look at the device; \<open>look i\<close> is the clock, the state of the
  context and the answer of the device at round \<open>i\<close>. Out of fuel is \<open>None\<close>.\<close>

fun waitHandshake :: "(nat \<Rightarrow> time \<times> error option \<times> string result) \<Rightarrow> time \<Rightarrow> nat \<Rightarrow> nat \<Rightarrow> unit result option" where
  "waitHandshake look deadline i 0 = None"
| "waitHandshake look deadline i (Suc fuel) =
     (case look i of (now, cancelled, dump) \<Rightarrow>
        if \<not> now < deadline then Some (Inl (OtherError ''transport: no handshake with the server''))
        else case cancelled of
               Some e \<Rightarrow> Some (Inl e)
             | None \<Rightarrow>
                 (case dump of
                    Inl e \<Rightarrow> Some (Inl (OtherError ''transport: read device state''))
                  | Inr text \<Rightarrow> if shookHands text then Some (Inr ()) else waitHandshake look deadline (i + 1) fuel))"

text \<open>Rounds are at least five milliseconds apart, so this many are enough for fifteen seconds.\<close>

definition handshakeRounds :: nat where "handshakeRounds = 3001"

definition NewClient ::
  "'d device \<Rightarrow> (nat \<Rightarrow> time \<times> error option \<times> string result) \<Rightarrow> time \<Rightarrow> string \<Rightarrow> string \<Rightarrow> string \<Rightarrow> addr \<Rightarrow> addr \<Rightarrow> addr result option" where
  "NewClient dv look started privateKey serverPublicKey endpoint tunnelIP serverIP =
     (case hexKey privateKey of
        Inl e \<Rightarrow> Some (Inl e)
      | Inr priv \<Rightarrow>
          (case hexKey serverPublicKey of
             Inl e \<Rightarrow> Some (Inl e)
           | Inr serverPub \<Rightarrow>
               (case dv_create dv tunnelIP of
                  Inl e \<Rightarrow> Some (Inl (OtherError ''transport: create netstack''))
                | Inr d0 \<Rightarrow>
                    (case dv_set dv (clientText priv serverPub endpoint serverIP) d0 of
                       (Inl e, _) \<Rightarrow> Some (Inl (OtherError ''transport: configure device''))
                     | (Inr _, d1) \<Rightarrow>
                         (case dv_up dv d1 of
                            (Inl e, _) \<Rightarrow> Some (Inl (OtherError ''transport: bring device up''))
                          | (Inr _, d2) \<Rightarrow>
                              map_option (\<lambda>r. result_bind r (\<lambda>_. Inr serverIP))
                                (waitHandshake look (started + handshakeTimeout) 0 handshakeRounds))))))"

text \<open>A session keeps the address batches are posted to (\<^verbatim>\<open>Dial\<close>, agent.go); \<^verbatim>\<open>netip.AddrPort\<close> prints an
  IPv6 address in brackets.\<close>

record agentSession =
  se_base :: string
  se_url :: string

definition Dial ::
  "(nat list \<Rightarrow> nat list) \<Rightarrow> (string \<Rightarrow> bool) \<Rightarrow> (string \<Rightarrow> addr list result) \<Rightarrow> 'd device \<Rightarrow>
   (nat \<Rightarrow> time \<times> error option \<times> string result) \<Rightarrow> time \<Rightarrow> agentConfig \<Rightarrow> agentSession result option" where
  "Dial x25519 isIP lookup dv look started cfg =
     (case agentValidate x25519 cfg of
        Inl e \<Rightarrow> Some (Inl e)
      | Inr _ \<Rightarrow>
          (case resolveEndpoint isIP lookup (ac_serverEndpoint cfg) of
             Inl e \<Rightarrow> Some (Inl (OtherError ''agent: resolve server endpoint''))
           | Inr endpoint \<Rightarrow>
               (case (ParseAddr (ac_tunnelIP cfg), ParseAddr (ac_serverTunnelIP cfg)) of
                  (Some ip, Some serverIP) \<Rightarrow>
                    map_option (\<lambda>r. result_bind r (\<lambda>sip.
                        let base = ''http://'' @ joinHostPort (addrString sip) (itoa IngestPort)
                        in Inr \<lparr>se_base = base, se_url = base @ ''/api/ingest''\<rparr>))
                      (NewClient dv look started (ac_private cfg) (ac_serverKey cfg) endpoint ip serverIP)
                | _ \<Rightarrow> None)))"

text \<open>\<^verbatim>\<open>Push\<close>: one batch through a session of its own; \<open>post\<close> is the HTTP client of the session.\<close>

definition Push ::
  "(nat list \<Rightarrow> nat list) \<Rightarrow> (string \<Rightarrow> bool) \<Rightarrow> (string \<Rightarrow> addr list result) \<Rightarrow> 'd device \<Rightarrow>
   (nat \<Rightarrow> time \<times> error option \<times> string result) \<Rightarrow> time \<Rightarrow>
   (agentSession \<Rightarrow> string \<Rightarrow> string \<Rightarrow> 's \<Rightarrow> (int \<times> string \<times> 'r option) option \<times> 's) \<Rightarrow> nat list \<Rightarrow> agentConfig \<Rightarrow> string \<Rightarrow> string \<Rightarrow> 's \<Rightarrow>
   ('r sendResult \<times> 's) option" where
  "Push x25519 isIP lookup dv look started post rnd cfg batch key srv =
     (let key' = (if key = [] then NewKey rnd else key)
      in map_option (\<lambda>dialed.
           case dialed of
             Inl e \<Rightarrow> (SendBroken, srv)
           | Inr sess \<Rightarrow> Send (post sess) key' batch srv)
         (Dial x25519 isIP lookup dv look started cfg))"

subsection \<open>Start-up of the server (startTunnel)\<close>



subsection \<open>What the server relies on\<close>

text \<open>Cryptokey routing: \<open>route d v\<close> is the key, in hexadecimal, whose packets the device lets in with the source
  address \<open>v\<close>. A new device has no routes and its own settings add none; adding a peer gives it exactly
  its one address, taking that address from any other peer; an operation that fails adds no route.\<close>

definition cryptokey :: "'d device \<Rightarrow> ('d \<Rightarrow> nat \<Rightarrow> string option) \<Rightarrow> bool" where
  "cryptokey dv route \<longleftrightarrow>
     (\<forall>ip d w. dv_create dv ip = Inr d \<longrightarrow> route d w = None) \<and>
     (\<forall>priv port d d' w. dv_set dv (serverText priv port) d = (Inr (), d') \<longrightarrow> route d' w = route d w) \<and>
     (\<forall>d d' w. dv_up dv d = (Inr (), d') \<longrightarrow> route d' w = route d w) \<and>
     (\<forall>raw v d d' w. length raw = 32 \<longrightarrow> (\<forall>b\<in>set raw. b < 256) \<longrightarrow> v < 2 ^ 32 \<longrightarrow>
        dv_set dv (peerText (hexOf raw) (V4 v)) d = (Inr (), d') \<longrightarrow>
        route d' w = (if w = v then Some (hexOf raw) else if route d w = Some (hexOf raw) then None else route d w)) \<and>
     (\<forall>t d e d' w. dv_set dv t d = (Inl e, d') \<longrightarrow> route d' w = route d w \<or> route d' w = None)"




lemma cryptokey_peer:
  "cryptokey dv route \<Longrightarrow> length raw = 32 \<Longrightarrow> \<forall>b\<in>set raw. b < 256 \<Longrightarrow> v < 2 ^ 32 \<Longrightarrow> dv_set dv (peerText (hexOf raw) (V4 v)) d = (Inr (), d') \<Longrightarrow>
     route d' w = (if w = v then Some (hexOf raw) else if route d w = Some (hexOf raw) then None else route d w)"
  unfolding cryptokey_def by metis


lemma b64Value_less: "b64Value c = Some n \<Longrightarrow> n < 64"
  by (auto simp: b64Value_def Let_def split: if_splits)

lemma b64Groups_bytes: "b64Groups s = Some bs \<Longrightarrow> \<forall>b\<in>set bs. b < 256"
proof (induction s arbitrary: bs rule: b64Groups.induct)
  case (2 a b c d r)
  obtain w x where wx: "b64Value a = Some w" "b64Value b = Some x" using "2.prems" by (auto split: option.splits)
  then have "w < 64" "x < 64" by (auto dest: b64Value_less)
  then have one: "w * 4 + x div 16 < 256" by linarith
  have two: "x mod 16 * 16 + y div 4 < 256" if "b64Value c = Some y" for y using b64Value_less [OF that] by linarith
  have three: "y mod 4 * 64 + z < 256" if "b64Value d = Some z" for y z :: nat using b64Value_less [OF that] by linarith
  show ?case using "2.prems" "2.IH" wx one two three by (fastforce split: if_splits option.splits)
qed auto

lemma hexKey_Inr: "hexKey s = Inr k \<Longrightarrow> \<exists>raw. k = hexOf raw \<and> length raw = 32 \<and> (\<forall>b\<in>set raw. b < 256)"
  by (auto simp: hexKey_def decodeKey_def b64Decode_def keyLen_def result_bind_eq_Inr split: option.splits if_splits dest: b64Groups_bytes)


lemma AddPeer_Inr:
  assumes "cryptokey dv route" and "v < 2 ^ 32" and "AddPeer dv key (V4 v) d = (Inr u, d')"
  shows "\<exists>k. hexKey key = Inr k \<and> route d' v = Some k \<and> (\<forall>w. w \<noteq> v \<longrightarrow> route d w \<noteq> Some k \<longrightarrow> route d' w = route d w)"
proof -
  obtain pub where pub: "hexKey key = Inr pub" "dv_set dv (peerText pub (V4 v)) d = (Inr (), d')"
    using assms(3) by (auto simp: AddPeer_def split: prod.splits sum.splits)
  obtain raw where raw: "pub = hexOf raw" "length raw = 32" "\<forall>b\<in>set raw. b < 256" using hexKey_Inr [OF pub(1)] by blast
  show ?thesis using pub raw(1) cryptokey_peer [OF assms(1) raw(2,3) assms(2), of d d'] by auto
qed

subsection \<open>Routes follow the peer table\<close>











subsection \<open>Traffic is attributed to the host whose key it was sent with\<close>






subsection \<open>One key, two spellings\<close>

text \<open>The peer table compares keys as texts, the device as bytes, and the decoder skips line breaks: a second spelling of an
  enrolled key is accepted as new, and adding it takes the route of the first host away.\<close>

lemma key_two_spellings:
  assumes "length k = 32" and "\<forall>b\<in>set k. b < 256"
  shows "CHR 0x0A # b64Encode k \<noteq> b64Encode k \<and> ValidatePublicKey (CHR 0x0A # b64Encode k) = Inr () \<and>
     hexKey (CHR 0x0A # b64Encode k) = hexKey (b64Encode k)"
proof -
  have "decodeKey (CHR 0x0A # b64Encode k) = decodeKey (b64Encode k)" by (simp add: decodeKey_def b64Decode_def)
  then show ?thesis using decodeKey_encode [OF assms] by (simp add: ValidatePublicKey_def hexKey_def)
qed

lemma second_spelling_takes_route:
  assumes "cryptokey dv route" and "v < 2 ^ 32" and "w < 2 ^ 32" and "v \<noteq> w" and "hexKey key' = hexKey key"
    and "AddPeer dv key (V4 v) d = (Inr (), d1)" and "AddPeer dv key' (V4 w) d1 = (Inr (), d2)"
  shows "route d2 v = None"
proof -
  obtain k where k: "hexKey key = Inr k" "route d1 v = Some k" using AddPeer_Inr [OF assms(1,2,6)] by blast
  obtain raw where raw: "k = hexOf raw" "length raw = 32" "\<forall>b\<in>set raw. b < 256" using hexKey_Inr [OF k(1)] by blast
  have "dv_set dv (peerText (hexOf raw) (V4 w)) d1 = (Inr (), d2)"
    using assms(5,7) k(1) raw(1) by (auto simp: AddPeer_def split: prod.splits sum.splits)
  then show ?thesis using cryptokey_peer [OF assms(1) raw(2,3) assms(3), of d1 d2 v] k(2) raw(1) assms(4) by simp
qed

subsection \<open>The handshake\<close>

text \<open>The wait ends: rounds that are at least five milliseconds apart use up the fifteen seconds within the rounds given,
  and the client is ready exactly when some look before the deadline shows a handshake.\<close>

lemma waitHandshake_ends:
  assumes "\<And>j. fst (look j) + 5 * millisecond \<le> fst (look (Suc j))" and "deadline \<le> fst (look i) + int fuel * (5 * millisecond)"
  shows "waitHandshake look deadline i (Suc fuel) \<noteq> None"
  using assms(2)
proof (induction fuel arbitrary: i)
  case 0
  then show ?case by (auto split: prod.splits)
next
  case (Suc fuel)
  have "deadline \<le> fst (look (i + 1)) + int fuel * (5 * millisecond)" using Suc.prems assms(1) [of i] by (simp add: algebra_simps)
  from Suc.IH [OF this] show ?case by (auto split: prod.splits option.splits sum.splits)
qed

lemma handshake_in_time:
  assumes "\<And>j. fst (look j) + 5 * millisecond \<le> fst (look (Suc j))" and "started \<le> fst (look 0)"
  shows "\<exists>r. waitHandshake look (started + handshakeTimeout) 0 handshakeRounds = Some r"
  using waitHandshake_ends [of look, OF assms(1), of "started + handshakeTimeout" 0 3000] assms(2)
  by (simp add: handshakeTimeout_def handshakeRounds_def)

lemma waitHandshake_Inr:
  "waitHandshake look deadline i fuel = Some (Inr u) \<Longrightarrow> \<exists>j\<ge>i. fst (look j) < deadline \<and> (\<exists>t. snd (snd (look j)) = Inr t \<and> shookHands t)"
proof (induction fuel arbitrary: i)
  case (Suc fuel)
  obtain now cancelled dump where l: "look i = (now, cancelled, dump)" by (metis surj_pair)
  show ?case
  proof (cases "now < deadline \<and> cancelled = None \<and> (\<exists>t. dump = Inr t \<and> \<not> shookHands t)")
    case True
    then have "waitHandshake look deadline (i + 1) fuel = Some (Inr u)" using Suc.prems l by auto
    from Suc.IH [OF this] show ?thesis by (meson Suc_leD add_leD1)
  next
    case False
    then show ?thesis using Suc.prems l by (intro exI [of _ i]) (auto split: if_splits option.splits sum.splits)
  qed
qed simp

subsection \<open>A small device\<close>

text \<open>A device that reads the text of a peer as WireGuard does and keeps the key of every address.\<close>

definition readPeer :: "string \<Rightarrow> (string \<times> nat) option" where
  "readPeer t =
     (case splitOn CHR 0x0A t of
        [a, b, c, e] \<Rightarrow>
          if hasPrefix a ''public_key='' \<and> b = ''replace_allowed_ips=true'' \<and> hasPrefix c ''allowed_ip='' \<and> e = [] then
            (case ParseAddr (takeWhile (\<lambda>x. x \<noteq> CHR ''/'') (drop 11 c)) of Some (V4 v) \<Rightarrow> Some (drop 11 a, v) | _ \<Rightarrow> None)
          else None
      | _ \<Rightarrow> None)"

definition demoDevice :: "(nat \<Rightarrow> string option) device" where
  "demoDevice = \<lparr>dv_create = (\<lambda>_. Inr (\<lambda>_. None)),
     dv_set = (\<lambda>t d. if hasPrefix t ''private_key='' then (Inr (), d)
        else case readPeer t of None \<Rightarrow> (Inl (OtherError ''ipc''), d)
             | Some (k, v) \<Rightarrow> (Inr (), \<lambda>w. if w = v then Some k else if d w = Some k then None else d w)),
     dv_up = (\<lambda>d. (Inr (), d)), dv_get = (\<lambda>_. Inr ''listen_port=51820'')\<rparr>"

lemma hexOf_chars:
  assumes "\<forall>b\<in>set raw. b < 256"
  shows "CHR 0x0A \<notin> set (hexOf raw)"
proof
  assume "CHR 0x0A \<in> set (hexOf raw)"
  then obtain b where b: "b \<in> set raw" and c: "CHR 0x0A = char_of (if b div 16 < 10 then 48 + b div 16 else 87 + b div 16) \<or>
      CHR 0x0A = char_of (if b mod 16 < 10 then 48 + b mod 16 else 87 + b mod 16)"
    by (auto simp: hexOf_def)
  have "b div 16 < 16" "b mod 16 < 16" using assms b by (auto simp: less_mult_imp_div_less)
  moreover have "byte CHR 0x0A = 10" by (simp add: byte_def)
  moreover have "byte CHR 0x0A = (if b div 16 < 10 then 48 + b div 16 else 87 + b div 16) mod 256 \<or>
      byte CHR 0x0A = (if b mod 16 < 10 then 48 + b mod 16 else 87 + b mod 16) mod 256"
    using c by (metis byte_char_of)
  ultimately show False by (auto split: if_splits)
qed

lemma readPeer_text:
  assumes "\<forall>b\<in>set raw. b < 256" and "v < 2 ^ 32"
  shows "readPeer (peerText (hexOf raw) (V4 v)) = Some (hexOf raw, v)"
proof -
  have v: "CHR 0x0A \<notin> set (v4String v)" "CHR ''/'' \<notin> set (v4String v)" using v4String_chars [of "CHR 0x0A" v] v4String_chars [of "CHR ''/''" v] by (auto simp: isDigit_def byte_def)
  have "splitOn CHR 0x0A (peerText (hexOf raw) (V4 v)) =
      [''public_key='' @ hexOf raw, ''replace_allowed_ips=true'', ''allowed_ip='' @ v4String v @ ''/32'', []]"
    using hexOf_chars [OF assms(1)] v(1) splitOn_sep [of "CHR 0x0A" "''public_key='' @ hexOf raw"]
      splitOn_sep [of "CHR 0x0A" "''replace_allowed_ips=true''"] splitOn_sep [of "CHR 0x0A" "''allowed_ip='' @ v4String v @ ''/32''" "[]"]
    by (simp add: peerText_def)
  moreover have "takeWhile (\<lambda>x. x \<noteq> CHR ''/'') (v4String v @ ''/32'') = v4String v"
    using v(2) by (subst takeWhile_append2) auto
  ultimately show ?thesis using ParseAddr_v4String [OF assms(2)] by (simp add: readPeer_def hasPrefix_def)
qed

lemma peerText_not_private: "\<not> hasPrefix (peerText pub ip) ''private_key=''"
  by (simp add: peerText_def hasPrefix_def)

lemma demoDevice_set:
  shows demoDevice_server: "dv_set demoDevice (serverText priv port) d = (Inr (), d)"
    and demoDevice_peer: "\<forall>b\<in>set raw. b < 256 \<Longrightarrow> v < 2 ^ 32 \<Longrightarrow>
      dv_set demoDevice (peerText (hexOf raw) (V4 v)) d = (Inr (), \<lambda>w. if w = v then Some (hexOf raw) else if d w = Some (hexOf raw) then None else d w)"
    and demoDevice_error: "dv_set demoDevice t d = (Inl e, d') \<Longrightarrow> d' = d"
proof -
  have "hasPrefix (serverText priv port) ''private_key=''" by (simp add: serverText_def hasPrefix_def)
  then show "dv_set demoDevice (serverText priv port) d = (Inr (), d)" by (simp add: demoDevice_def)
  show "\<forall>b\<in>set raw. b < 256 \<Longrightarrow> v < 2 ^ 32 \<Longrightarrow>
      dv_set demoDevice (peerText (hexOf raw) (V4 v)) d = (Inr (), \<lambda>w. if w = v then Some (hexOf raw) else if d w = Some (hexOf raw) then None else d w)"
    by (simp add: demoDevice_def peerText_not_private readPeer_text)
  show "dv_set demoDevice t d = (Inl e, d') \<Longrightarrow> d' = d"
    by (auto simp: demoDevice_def split: if_splits option.splits prod.splits)
qed




end
