(* ===== verification/Http_Server.thy ===== *)
theory Http_Server
  imports Auth_Http
begin

section \<open>The HTTP platform (internal/platform/httpserver)\<close>

text \<open>
  The middleware around every handler: the request identifier, compression and the recovery of panics. A handler is
  what it does to its response writer, a list of actions; the writer is that of net/http, which fixes the status and
  the headers at the first \<^verbatim>\<open>WriteHeader\<close> or \<^verbatim>\<open>Write\<close>. Informational statuses, the sniffing of a missing
  content type and the check of a declared length are left out. \<open>gzip\<close> is the compressed form of a text,
  \<open>mediaType\<close> is \<^verbatim>\<open>mime.ParseMediaType\<close>, \<open>foldEq\<close> \<^verbatim>\<open>strings.EqualFold\<close>, and \<open>positive\<close>
  tells of a text \<^verbatim>\<open>strconv.ParseFloat\<close> accepts whether its value is above zero.
\<close>

type_synonym header = "string \<Rightarrow> string list"

definition hGet :: "header \<Rightarrow> string \<Rightarrow> string" where
  "hGet h k = (case h k of [] \<Rightarrow> [] | v # _ \<Rightarrow> v)"

definition hSet :: "string \<Rightarrow> string \<Rightarrow> header \<Rightarrow> header" where
  "hSet k v h = h(k := [v])"

definition hAdd :: "string \<Rightarrow> string \<Rightarrow> header \<Rightarrow> header" where
  "hAdd k v h = h(k := h k @ [v])"

definition hDel :: "string \<Rightarrow> header \<Rightarrow> header" where
  "hDel k h = h(k := [])"

subsection \<open>The response writer of net/http\<close>

record wire =
  wr_header :: header
  wr_sent :: "(int \<times> header) option"
  wr_body :: string

definition bodyAllowed :: "int \<Rightarrow> bool" where
  "bodyAllowed s \<longleftrightarrow> \<not> (100 \<le> s \<and> s \<le> 199) \<and> s \<noteq> 204 \<and> s \<noteq> 304"

definition rwWriteHeader :: "int \<Rightarrow> wire \<Rightarrow> wire" where
  "rwWriteHeader s w = (case wr_sent w of Some _ \<Rightarrow> w | None \<Rightarrow> w\<lparr>wr_sent := Some (s, wr_header w)\<rparr>)"

definition rwWrite :: "string \<Rightarrow> wire \<Rightarrow> wire" where
  "rwWrite p w =
     (let w' = rwWriteHeader 200 w
      in case wr_sent w' of
           None \<Rightarrow> w'
         | Some (s, _) \<Rightarrow> if bodyAllowed s then w'\<lparr>wr_body := wr_body w' @ p\<rparr> else w')"

datatype action = SetHeader string string | WriteHead int | Body string | Panic

subsection \<open>Compression (compress.go)\<close>

definition minCompressSize :: nat where "minCompressSize = 1024"

definition cutAt :: "char \<Rightarrow> string \<Rightarrow> string \<times> string" where
  "cutAt c s = (takeWhile (\<lambda>x. x \<noteq> c) s, drop 1 (dropWhile (\<lambda>x. x \<noteq> c) s))"

definition weight :: "(string \<Rightarrow> bool option) \<Rightarrow> string \<Rightarrow> bool" where
  "weight positive params =
     (let ps = filter (\<lambda>c. c \<noteq> CHR '' '') params
      in if hasPrefix ps ''q='' then (case positive (drop 2 ps) of Some b \<Rightarrow> b | None \<Rightarrow> True) else True)"

fun acceptsParts :: "(string \<Rightarrow> bool option) \<Rightarrow> (string \<Rightarrow> string) \<Rightarrow> string \<Rightarrow> bool \<Rightarrow> string list \<Rightarrow> bool" where
  "acceptsParts positive uni coding star [] = star"
| "acceptsParts positive uni coding star (part # parts) =
     (case cutAt CHR '';'' (trimSpace part) of (name0, params) \<Rightarrow>
        let name = toLower uni (trimSpace name0)
        in if name \<noteq> coding \<and> name \<noteq> ''*'' then acceptsParts positive uni coding star parts
           else if name = coding then weight positive params
           else acceptsParts positive uni coding (weight positive params) parts)"

definition AcceptsEncoding :: "(string \<Rightarrow> bool option) \<Rightarrow> (string \<Rightarrow> string) \<Rightarrow> string \<Rightarrow> string \<Rightarrow> bool" where
  "AcceptsEncoding positive uni hdr coding = acceptsParts positive uni coding False (splitOn CHR '','' hdr)"

definition compressible :: "(string \<Rightarrow> string option) \<Rightarrow> string \<Rightarrow> bool" where
  "compressible mediaType contentType =
     (case mediaType contentType of
        None \<Rightarrow> False
      | Some mt \<Rightarrow> hasPrefix mt ''text/'' \<or> mt = ''application/json'' \<or> mt = ''application/javascript'' \<or>
          mt = ''image/svg+xml'' \<or> mt = ''application/manifest+json'')"

definition varies :: "(string \<Rightarrow> string \<Rightarrow> bool) \<Rightarrow> header \<Rightarrow> bool" where
  "varies foldEq h \<longleftrightarrow>
     list_ex (\<lambda>v. list_ex (\<lambda>field. foldEq (trimSpace field) ''Accept-Encoding'') (splitOn CHR '','' v)) (h ''Vary'')"

text \<open>\<open>cw_gz\<close> is the text given to the gzip writer, when there is one; its compressed form reaches the wire when it is closed.\<close>

record compressWriter =
  cw_wire :: wire
  cw_status :: int
  cw_buf :: string
  cw_decided :: bool
  cw_gz :: "string option"

definition cwWriteHeader :: "int \<Rightarrow> compressWriter \<Rightarrow> compressWriter" where
  "cwWriteHeader s c = (if cw_decided c then c else c\<lparr>cw_status := s\<rparr>)"

definition varied :: "(string \<Rightarrow> string option) \<Rightarrow> (string \<Rightarrow> string \<Rightarrow> bool) \<Rightarrow> header \<Rightarrow> header" where
  "varied mediaType foldEq h =
     (if compressible mediaType (hGet h ''Content-Type'') \<and> \<not> varies foldEq h then hAdd ''Vary'' ''Accept-Encoding'' h else h)"

definition worth :: "(string \<Rightarrow> string option) \<Rightarrow> header \<Rightarrow> int \<Rightarrow> nat \<Rightarrow> bool" where
  "worth mediaType h s n \<longleftrightarrow>
     compressible mediaType (hGet h ''Content-Type'') \<and> minCompressSize \<le> n \<and> hGet h ''Content-Encoding'' = '''' \<and>
     200 \<le> s \<and> s < 300 \<and> s \<noteq> 204 \<and> s \<noteq> 206"

definition decide :: "(string \<Rightarrow> string option) \<Rightarrow> (string \<Rightarrow> string \<Rightarrow> bool) \<Rightarrow> compressWriter \<Rightarrow> compressWriter" where
  "decide mediaType foldEq c =
     (let h1 = varied mediaType foldEq (wr_header (cw_wire c));
          ok = worth mediaType h1 (cw_status c) (length (cw_buf c));
          h2 = (if ok then hDel ''Content-Length'' (hSet ''Content-Encoding'' ''gzip'' h1) else h1);
          w = rwWriteHeader (cw_status c) ((cw_wire c)\<lparr>wr_header := h2\<rparr>);
          w' = (if \<not> ok \<and> cw_buf c \<noteq> [] then rwWrite (cw_buf c) w else w)
      in c\<lparr>cw_decided := True, cw_gz := (if ok then Some (cw_buf c) else None), cw_wire := w', cw_buf := []\<rparr>)"

definition cwWrite :: "(string \<Rightarrow> string option) \<Rightarrow> (string \<Rightarrow> string \<Rightarrow> bool) \<Rightarrow> string \<Rightarrow> compressWriter \<Rightarrow> compressWriter" where
  "cwWrite mediaType foldEq p c =
     (if cw_decided c then
        (case cw_gz c of
           Some t \<Rightarrow> c\<lparr>cw_gz := Some (t @ p)\<rparr>
         | None \<Rightarrow> c\<lparr>cw_wire := rwWrite p (cw_wire c)\<rparr>)
      else
        let c' = c\<lparr>cw_buf := cw_buf c @ p\<rparr>
        in if minCompressSize \<le> length (cw_buf c') then decide mediaType foldEq c' else c')"

definition finish :: "(string \<Rightarrow> string) \<Rightarrow> (string \<Rightarrow> string option) \<Rightarrow> (string \<Rightarrow> string \<Rightarrow> bool) \<Rightarrow> compressWriter \<Rightarrow> wire" where
  "finish gzip mediaType foldEq c =
     (let c' = (if cw_decided c then c else decide mediaType foldEq c)
      in case cw_gz c' of None \<Rightarrow> cw_wire c' | Some t \<Rightarrow> rwWrite (gzip t) (cw_wire c'))"

subsection \<open>The chain (middleware.go, server.go)\<close>

text \<open>\<^verbatim>\<open>withRecover\<close>: a panic ends the handler, and 500 is written in its place.\<close>

fun withRecover :: "action list \<Rightarrow> action list" where
  "withRecover [] = []"
| "withRecover (Panic # as) = [WriteHead 500]"
| "withRecover (a # as) = a # withRecover as"

fun plainStep :: "action \<Rightarrow> wire \<Rightarrow> wire" where
  "plainStep (SetHeader k v) w = w\<lparr>wr_header := hSet k v (wr_header w)\<rparr>"
| "plainStep (WriteHead s) w = rwWriteHeader s w"
| "plainStep (Body p) w = rwWrite p w"
| "plainStep Panic w = w"

fun compressStep :: "(string \<Rightarrow> string option) \<Rightarrow> (string \<Rightarrow> string \<Rightarrow> bool) \<Rightarrow> action \<Rightarrow> compressWriter \<Rightarrow> compressWriter" where
  "compressStep mt fe (SetHeader k v) c = c\<lparr>cw_wire := (cw_wire c)\<lparr>wr_header := hSet k v (wr_header (cw_wire c))\<rparr>\<rparr>"
| "compressStep mt fe (WriteHead s) c = cwWriteHeader s c"
| "compressStep mt fe (Body p) c = cwWrite mt fe p c"
| "compressStep mt fe Panic c = c"

definition bypass :: "(string \<Rightarrow> bool option) \<Rightarrow> (string \<Rightarrow> string) \<Rightarrow> request \<Rightarrow> bool" where
  "bypass positive uni r \<longleftrightarrow>
     headerGet r ''Upgrade'' \<noteq> '''' \<or> headerGet r ''Range'' \<noteq> '''' \<or> r_method r = ''HEAD'' \<or>
     \<not> AcceptsEncoding positive uni (headerGet r ''Accept-Encoding'') ''gzip''"

definition withCompression ::
  "(string \<Rightarrow> string) \<Rightarrow> (string \<Rightarrow> string option) \<Rightarrow> (string \<Rightarrow> string \<Rightarrow> bool) \<Rightarrow> (string \<Rightarrow> bool option) \<Rightarrow> (string \<Rightarrow> string) \<Rightarrow>
   request \<Rightarrow> action list \<Rightarrow> wire \<Rightarrow> wire" where
  "withCompression gzip mediaType foldEq positive uni r as w =
     (if bypass positive uni r then fold plainStep as w
      else finish gzip mediaType foldEq
             (fold (compressStep mediaType foldEq) as
                \<lparr>cw_wire = w, cw_status = 200, cw_buf = [], cw_decided = False, cw_gz = None\<rparr>))"

text \<open>The chain around a handler, on the writer it is given. The access log of \<^verbatim>\<open>withLogging\<close> changes
  no byte of the response.\<close>

definition Chain ::
  "(string \<Rightarrow> string) \<Rightarrow> (string \<Rightarrow> string option) \<Rightarrow> (string \<Rightarrow> string \<Rightarrow> bool) \<Rightarrow> (string \<Rightarrow> bool option) \<Rightarrow> (string \<Rightarrow> string) \<Rightarrow>
   string \<Rightarrow> request \<Rightarrow> action list \<Rightarrow> wire \<Rightarrow> wire" where
  "Chain gzip mediaType foldEq positive uni rid r as w =
     withCompression gzip mediaType foldEq positive uni r (withRecover as) (w\<lparr>wr_header := hSet ''X-Request-Id'' rid (wr_header w)\<rparr>)"

text \<open>The writer of a request, and what net/http sends at the end: 200 when the handler wrote nothing.\<close>

definition emptyWire :: wire where
  "emptyWire = \<lparr>wr_header = (\<lambda>_. []), wr_sent = None, wr_body = []\<rparr>"

definition sent :: "(wire \<Rightarrow> wire) \<Rightarrow> wire" where
  "sent serve = rwWriteHeader 200 (serve emptyWire)"

text \<open>\<^verbatim>\<open>Server.Use\<close> and \<^verbatim>\<open>chained\<close>: the loop wraps the last registered middleware first.\<close>

fun chainedFrom :: "('h \<Rightarrow> 'h) list \<Rightarrow> nat \<Rightarrow> 'h \<Rightarrow> 'h" where
  "chainedFrom mws 0 h = h"
| "chainedFrom mws (Suc i) h = chainedFrom mws i ((mws ! i) h)"

definition chained :: "('h \<Rightarrow> 'h) \<Rightarrow> ('h \<Rightarrow> 'h) list \<Rightarrow> 'h \<Rightarrow> 'h" where
  "chained chain mws mux = chain (chainedFrom mws (length mws) mux)"

definition hsts :: string where "hsts = ''max-age=31536000''"

definition withHSTS :: "(wire \<Rightarrow> wire) \<Rightarrow> wire \<Rightarrow> wire" where
  "withHSTS serve w = serve (w\<lparr>wr_header := hSet ''Strict-Transport-Security'' hsts (wr_header w)\<rparr>)"

text \<open>The probes of health.go: \<open>ping\<close> is the answer of the database within two seconds.\<close>

definition readyTimeout :: duration where "readyTimeout = 2 * second"

definition healthz :: "action list" where "healthz = [WriteHead 200]"

definition healthReady :: "(string \<Rightarrow> string \<Rightarrow> string) \<Rightarrow> string \<Rightarrow> error option \<Rightarrow> action list" where
  "healthReady encode release ping =
     (let (st, code) = (case ping of None \<Rightarrow> (''ok'', 200) | Some _ \<Rightarrow> (''unavailable'', 503))
      in [SetHeader ''Content-Type'' ''application/json'', WriteHead code, Body (encode st release)])"

subsection \<open>Compression is transparent\<close>

text \<open>A handler that sets its headers, then its status, then writes its body in pieces, as the handlers of the program do.\<close>

definition answer :: "(string \<times> string) list \<Rightarrow> int option \<Rightarrow> string list \<Rightarrow> action list" where
  "answer hs st ps = map (\<lambda>(k, v). SetHeader k v) hs @ (case st of None \<Rightarrow> [] | Some s \<Rightarrow> [WriteHead s]) @ map Body ps"

definition headersOf :: "(string \<times> string) list \<Rightarrow> header \<Rightarrow> header" where
  "headersOf hs h = fold (\<lambda>(k, v). hSet k v) hs h"

lemma withRecover_answer: "withRecover (answer hs st ps) = answer hs st ps"
proof -
  have bodies: "withRecover (map Body ps) = map Body ps" by (induction ps) auto
  have "withRecover (map (\<lambda>(k, v). SetHeader k v) hs @ as) = map (\<lambda>(k, v). SetHeader k v) hs @ withRecover as" for as
    by (induction hs) auto
  then show ?thesis using bodies by (auto simp: answer_def split: option.splits)
qed

lemma plain_headers:
  "fold plainStep (map (\<lambda>(k, v). SetHeader k v) hs) w = w\<lparr>wr_header := headersOf hs (wr_header w)\<rparr>"
  by (induction hs arbitrary: w) (auto simp: headersOf_def)

lemma compress_headers:
  "fold (compressStep mt fe) (map (\<lambda>(k, v). SetHeader k v) hs) c =
     c\<lparr>cw_wire := (cw_wire c)\<lparr>wr_header := headersOf hs (wr_header (cw_wire c))\<rparr>\<rparr>"
  by (induction hs arbitrary: c) (auto simp: headersOf_def)

lemma fold_rwWrite:
  "wr_sent w = Some (s, h) \<Longrightarrow> fold rwWrite ps w = w\<lparr>wr_body := wr_body w @ (if bodyAllowed s then concat ps else [])\<rparr>"
  by (induction ps arbitrary: w) (auto simp: rwWrite_def rwWriteHeader_def)

lemma fold_plain_bodies: "fold plainStep (map Body ps) w = fold rwWrite ps w"
  by (induction ps arbitrary: w) auto

text \<open>The plain response.\<close>

lemma plain_answer:
  "rwWriteHeader 200 (fold plainStep (answer hs st ps) \<lparr>wr_header = h0, wr_sent = None, wr_body = []\<rparr>) =
     (let h = headersOf hs h0; s = (case st of None \<Rightarrow> 200 | Some s \<Rightarrow> s)
      in \<lparr>wr_header = h, wr_sent = Some (s, h), wr_body = (if bodyAllowed s then concat ps else [])\<rparr>)"
proof -
  have sent: "rwWriteHeader 200 (fold rwWrite ps \<lparr>wr_header = h, wr_sent = Some (s, h), wr_body = []\<rparr>) =
      \<lparr>wr_header = h, wr_sent = Some (s, h), wr_body = (if bodyAllowed s then concat ps else [])\<rparr>" for h s
    by (simp add: fold_rwWrite rwWriteHeader_def)
  have "rwWriteHeader 200 (fold rwWrite ps \<lparr>wr_header = h, wr_sent = None, wr_body = []\<rparr>) =
      rwWriteHeader 200 (fold rwWrite ps \<lparr>wr_header = h, wr_sent = Some (200, h), wr_body = []\<rparr>)" for h
    by (cases ps) (simp_all add: rwWrite_def rwWriteHeader_def)
  then show ?thesis
    by (cases st) (simp_all add: answer_def plain_headers fold_plain_bodies Let_def sent, simp add: rwWriteHeader_def sent [unfolded rwWriteHeader_def])
qed

text \<open>Writing in pieces through the compressing writer is writing the whole at once.\<close>

lemma decided_rest:
  assumes "cw_decided c"
  shows "finish gz mt fe (fold (cwWrite mt fe) ps c) =
     (case cw_gz c of None \<Rightarrow> fold rwWrite ps (cw_wire c) | Some t \<Rightarrow> rwWrite (gz (t @ concat ps)) (cw_wire c))"
  using assms
proof (induction ps arbitrary: c)
  case (Cons p ps)
  then show ?case by (cases "cw_gz c") (simp_all add: cwWrite_def)
qed (auto simp: finish_def split: option.splits)

lemma sent_rwWriteHeader: "wr_sent (rwWriteHeader s w) \<noteq> None"
  by (auto simp: rwWriteHeader_def split: option.splits)

lemma rwWrite_append: "wr_sent w \<noteq> None \<Longrightarrow> fold rwWrite ps (rwWrite p w) = rwWrite (p @ concat ps) w"
  by (auto simp: rwWrite_def rwWriteHeader_def fold_rwWrite split: option.splits)

lemma rwWrite_Nil: "wr_sent w \<noteq> None \<Longrightarrow> rwWrite [] w = w"
  by (auto simp: rwWrite_def rwWriteHeader_def split: option.splits)

lemma worth_more: "minCompressSize \<le> m \<Longrightarrow> minCompressSize \<le> n \<Longrightarrow> worth mt h s m \<longleftrightarrow> worth mt h s n"
  by (simp add: worth_def)

text \<open>The decision on the whole body.\<close>

definition settled :: "(string \<Rightarrow> string) \<Rightarrow> (string \<Rightarrow> string option) \<Rightarrow> header \<Rightarrow> int \<Rightarrow> string \<Rightarrow> wire \<Rightarrow> wire" where
  "settled gz mt h s t w =
     (if worth mt h s (length t) then rwWrite (gz t) (rwWriteHeader s (w\<lparr>wr_header := hDel ''Content-Length'' (hSet ''Content-Encoding'' ''gzip'' h)\<rparr>))
      else rwWrite t (rwWriteHeader s (w\<lparr>wr_header := h\<rparr>)))"

lemma decide_rest:
  "finish gz mt fe (fold (cwWrite mt fe) ps (decide mt fe c)) =
     (let h = varied mt fe (wr_header (cw_wire c))
      in if worth mt h (cw_status c) (length (cw_buf c))
         then rwWrite (gz (cw_buf c @ concat ps)) (rwWriteHeader (cw_status c) ((cw_wire c)\<lparr>wr_header := hDel ''Content-Length'' (hSet ''Content-Encoding'' ''gzip'' h)\<rparr>))
         else fold rwWrite ps (rwWrite (cw_buf c) (rwWriteHeader (cw_status c) ((cw_wire c)\<lparr>wr_header := h\<rparr>))))"
proof -
  have d: "cw_decided (decide mt fe c)" by (simp add: decide_def Let_def)
  show ?thesis unfolding decided_rest [OF d] by (simp add: decide_def Let_def rwWrite_Nil sent_rwWriteHeader)
qed

lemma finish_undecided:
  assumes "\<not> cw_decided c"
  shows "finish gz mt fe c = settled gz mt (varied mt fe (wr_header (cw_wire c))) (cw_status c) (cw_buf c) (cw_wire c)"
proof -
  have "cw_decided (decide mt fe c)" by (simp add: decide_def Let_def)
  then have "finish gz mt fe c = finish gz mt fe (fold (cwWrite mt fe) [] (decide mt fe c))" using assms by (simp add: finish_def)
  then show ?thesis unfolding decide_rest by (simp add: settled_def Let_def)
qed

lemma whole_at_once:
  assumes "\<not> cw_decided c" and "length (cw_buf c) < minCompressSize"
  shows "finish gz mt fe (fold (cwWrite mt fe) ps c) =
     settled gz mt (varied mt fe (wr_header (cw_wire c))) (cw_status c) (cw_buf c @ concat ps) (cw_wire c)"
  using assms
proof (induction ps arbitrary: c)
  case Nil
  then show ?case by (simp add: finish_undecided)
next
  case (Cons p ps)
  let ?c = "c\<lparr>cw_buf := cw_buf c @ p\<rparr>"
  show ?case
  proof (cases "length (cw_buf ?c) < minCompressSize")
    case True
    then show ?thesis using Cons.IH [of ?c] Cons.prems by (simp add: cwWrite_def Let_def)
  next
    case False
    then have "fold (cwWrite mt fe) (p # ps) c = fold (cwWrite mt fe) ps (decide mt fe ?c)" using Cons.prems by (simp add: cwWrite_def Let_def)
    moreover have "worth mt h s (length (cw_buf ?c)) \<longleftrightarrow> worth mt h s (length (cw_buf c @ concat (p # ps)))" for h s
      using False by (intro worth_more) auto
    ultimately show ?thesis by (simp add: decide_rest Let_def settled_def rwWrite_append sent_rwWriteHeader)
  qed
qed

lemma compress_answer:
  "fold (compressStep mt fe) (answer hs st ps) \<lparr>cw_wire = \<lparr>wr_header = h0, wr_sent = None, wr_body = []\<rparr>, cw_status = 200, cw_buf = [], cw_decided = False, cw_gz = None\<rparr> =
     fold (cwWrite mt fe) ps \<lparr>cw_wire = \<lparr>wr_header = headersOf hs h0, wr_sent = None, wr_body = []\<rparr>, cw_status = (case st of None \<Rightarrow> 200 | Some s \<Rightarrow> s),
       cw_buf = [], cw_decided = False, cw_gz = None\<rparr>"
proof -
  have bodies: "fold (compressStep mt fe) (map Body ps) c = fold (cwWrite mt fe) ps c" for c by (induction ps arbitrary: c) auto
  show ?thesis by (cases st) (simp_all add: answer_def compress_headers bodies cwWriteHeader_def)
qed

text \<open>What is sent without the compressing middleware.\<close>

definition uncompressed :: "string \<Rightarrow> action list \<Rightarrow> wire" where
  "uncompressed rid as = sent (\<lambda>w. fold plainStep (withRecover as) (w\<lparr>wr_header := hSet ''X-Request-Id'' rid (wr_header w)\<rparr>))"

text \<open>C39 (equivalence). Compression is transparent: for every request and every handler that sets headers, a status and a body in any
  pieces, the client receives the status and the headers it would receive without compression, apart from
  those of the encoding, and either the same body or its gzip form under \<^verbatim>\<open>Content-Encoding: gzip\<close>; the latter only
  for a successful response of a compressible type, not encoded yet and of at least 1024 bytes, to a request that
  accepts gzip. An upgrade, a range request and a HEAD are answered as without compression.\<close>

theorem compression_transparent:
  "\<exists>s h h'. wr_sent (uncompressed rid (answer hs st ps)) = Some (s, h) \<and>
     wr_sent (sent (Chain gzip mediaType foldEq positive uni rid r (answer hs st ps))) = Some (s, h') \<and>
     (\<forall>k. k \<notin> {''Vary'', ''Content-Encoding'', ''Content-Length''} \<longrightarrow> h' k = h k) \<and>
     (h' ''Content-Encoding'' = h ''Content-Encoding'' \<and> h' ''Content-Length'' = h ''Content-Length'' \<and>
        wr_body (sent (Chain gzip mediaType foldEq positive uni rid r (answer hs st ps))) = wr_body (uncompressed rid (answer hs st ps)) \<or>
      h' ''Content-Encoding'' = [''gzip''] \<and> h' ''Content-Length'' = [] \<and>
        wr_body (sent (Chain gzip mediaType foldEq positive uni rid r (answer hs st ps))) = gzip (wr_body (uncompressed rid (answer hs st ps))) \<and>
        200 \<le> s \<and> s < 300 \<and> compressible mediaType (hGet h ''Content-Type'') \<and> hGet h ''Content-Encoding'' = '''' \<and>
        1024 \<le> length (wr_body (uncompressed rid (answer hs st ps))) \<and>
        AcceptsEncoding positive uni (headerGet r ''Accept-Encoding'') ''gzip'') \<and>
     (bypass positive uni r \<longrightarrow> sent (Chain gzip mediaType foldEq positive uni rid r (answer hs st ps)) = uncompressed rid (answer hs st ps))"
proof -
  let ?h0 = "hSet ''X-Request-Id'' rid (\<lambda>_. [])"
  let ?h = "headersOf hs ?h0" and ?s = "case st of None \<Rightarrow> 200 | Some s \<Rightarrow> s"
  have plain: "uncompressed rid (answer hs st ps) = \<lparr>wr_header = ?h, wr_sent = Some (?s, ?h), wr_body = (if bodyAllowed ?s then concat ps else [])\<rparr>"
    by (simp add: uncompressed_def sent_def emptyWire_def withRecover_answer plain_answer [unfolded Let_def])
  show ?thesis
  proof (cases "bypass positive uni r")
    case True
    then have "sent (Chain gzip mediaType foldEq positive uni rid r (answer hs st ps)) = uncompressed rid (answer hs st ps)"
      by (simp add: uncompressed_def sent_def Chain_def withCompression_def)
    then show ?thesis using plain by auto
  next
    case False
    let ?w = "\<lparr>wr_header = ?h, wr_sent = None, wr_body = []\<rparr>" and ?v = "varied mediaType foldEq ?h"
    have served: "sent (Chain gzip mediaType foldEq positive uni rid r (answer hs st ps)) =
        rwWriteHeader 200 (settled gzip mediaType ?v ?s (concat ps) ?w)"
      using False by (simp add: sent_def Chain_def withCompression_def withRecover_answer emptyWire_def compress_answer whole_at_once minCompressSize_def)
    have v: "?v k = ?h k" if "k \<noteq> ''Vary''" for k using that by (simp add: varied_def hAdd_def)
    then have v': "hGet ?v k = hGet ?h k" if "k \<noteq> ''Vary''" for k using that by (simp add: hGet_def)
    have acc: "AcceptsEncoding positive uni (headerGet r ''Accept-Encoding'') ''gzip''" using False by (simp add: bypass_def)
    show ?thesis
    proof (cases "worth mediaType ?v ?s (length (concat ps))")
      case True
      then have w: "200 \<le> ?s" "?s < 300" "?s \<noteq> 204" "compressible mediaType (hGet ?h ''Content-Type'')" "hGet ?h ''Content-Encoding'' = ''''" "1024 \<le> length (concat ps)"
        by (simp_all add: worth_def v' minCompressSize_def)
      have "bodyAllowed ?s" using w(1-3) by (simp add: bodyAllowed_def)
      then show ?thesis
        using False acc w True v by (simp add: plain served settled_def rwWrite_def rwWriteHeader_def hSet_def hDel_def)
    next
      case False
      then show ?thesis using \<open>\<not> bypass positive uni r\<close> v by (simp add: plain served settled_def rwWrite_def rwWriteHeader_def)
    qed
  qed
qed

text \<open>A panic before anything was sent is answered with 500, with the text written so far; without compression the status
  the handler began with stays.\<close>

lemma recovered_panic_status:
  assumes "length (concat ps) < 1024"
  shows "map_option fst (wr_sent (sent (Chain gzip mediaType foldEq positive uni rid r (answer hs (Some s) ps @ Panic # as)))) =
     Some (if bypass positive uni r then s else 500)"
proof -
  have rec: "withRecover (answer hs (Some s) ps @ Panic # as) = answer hs (Some s) ps @ [WriteHead 500]"
  proof -
    have bodies: "withRecover (map Body ps @ Panic # as) = map Body ps @ [WriteHead 500]" by (induction ps) auto
    have "withRecover (map (\<lambda>(k, v). SetHeader k v) hs @ as) = map (\<lambda>(k, v). SetHeader k v) hs @ withRecover as" for as
      by (induction hs) auto
    then show ?thesis using bodies by (simp add: answer_def)
  qed
  have buffered: "\<exists>t. fold (cwWrite mt fe) qs c = c\<lparr>cw_buf := t\<rparr>" if "\<not> cw_decided c" "length (cw_buf c) + length (concat qs) < 1024" for qs c mt fe
    using that
  proof (induction qs arbitrary: c)
    case (Cons q qs)
    then show ?case using Cons.IH [of "c\<lparr>cw_buf := cw_buf c @ q\<rparr>"] by (auto simp: cwWrite_def Let_def minCompressSize_def)
  next
    case Nil
    show ?case by (rule exI [of _ "cw_buf c"]) simp
  qed
  show ?thesis
  proof (cases "bypass positive uni r")
    case True
    then show ?thesis
      by (simp add: sent_def Chain_def withCompression_def rec emptyWire_def)
        (simp add: answer_def plain_headers fold_plain_bodies rwWriteHeader_def fold_rwWrite)
  next
    case False
    let ?h = "headersOf hs (hSet ''X-Request-Id'' rid (\<lambda>_. []))"
    obtain t where "fold (cwWrite mediaType foldEq) ps \<lparr>cw_wire = \<lparr>wr_header = ?h, wr_sent = None, wr_body = []\<rparr>, cw_status = s, cw_buf = [],
        cw_decided = False, cw_gz = None\<rparr> = \<lparr>cw_wire = \<lparr>wr_header = ?h, wr_sent = None, wr_body = []\<rparr>, cw_status = s, cw_buf = t, cw_decided = False, cw_gz = None\<rparr>"
      using buffered [of "\<lparr>cw_wire = \<lparr>wr_header = ?h, wr_sent = None, wr_body = []\<rparr>, cw_status = s, cw_buf = [], cw_decided = False, cw_gz = None\<rparr>" ps] assms by auto
    then show ?thesis
      using False by (simp add: sent_def Chain_def withCompression_def rec emptyWire_def compress_answer cwWriteHeader_def finish_undecided)
        (simp add: settled_def worth_def rwWrite_def rwWriteHeader_def Let_def)
  qed
qed

lemma chainedFrom_foldr: "chainedFrom mws (length mws) h = foldr (\<lambda>mw. mw) mws h"
proof -
  have "i \<le> length mws \<Longrightarrow> chainedFrom mws i h = foldr (\<lambda>mw. mw) (take i mws) h" for i
    by (induction i arbitrary: h) (simp_all add: take_Suc_conv_app_nth)
  then show ?thesis by simp
qed

text \<open>The first registered middleware is the outermost.\<close>

lemma first_registered_outermost: "chained chain (mw # mws) mux = chain (mw (foldr (\<lambda>m. m) mws mux))"
  using chainedFrom_foldr [of "mw # mws" mux] by (simp only: chained_def foldr.simps comp_apply)

text \<open>A JSON answer of 1024 bytes to a browser.\<close>

definition browserRequest :: request where
  "browserRequest = \<lparr>r_method = ''GET'', r_path = ''/api/hosts'', r_host = ''h'', r_header = [(''Accept-Encoding'', ''gzip, br'')],
     r_contentLength = 0, r_cookies = [], r_remoteAddr = ''192.0.2.1:1'', r_tls = True, r_password = None\<rparr>"

theorem compression_transparent_witness:
  "\<exists>h'. wr_sent (sent (Chain (\<lambda>t. ''z'' @ t) Some (=) (\<lambda>_. Some True) id ''1'' browserRequest
       (answer [(''Content-Type'', ''application/json'')] None [replicate 1024 CHR ''x'']))) = Some (200, h') \<and> h' ''Content-Type'' = [''application/json'']"
proof -
  let ?a = "answer [(''Content-Type'', ''application/json'')] None [replicate 1024 CHR ''x'']"
  have "wr_sent (uncompressed ''1'' ?a) = Some (200, headersOf [(''Content-Type'', ''application/json'')] (hSet ''X-Request-Id'' ''1'' (\<lambda>_. [])))"
    by (simp add: uncompressed_def sent_def emptyWire_def withRecover_answer plain_answer [unfolded Let_def])
  moreover have "headersOf [(''Content-Type'', ''application/json'')] (hSet ''X-Request-Id'' ''1'' (\<lambda>_. [])) ''Content-Type'' = [''application/json'']"
    by (simp add: headersOf_def hSet_def)
  moreover obtain s h h' where "wr_sent (uncompressed ''1'' ?a) = Some (s, h)"
    "wr_sent (sent (Chain (\<lambda>t. ''z'' @ t) Some (=) (\<lambda>_. Some True) id ''1'' browserRequest ?a)) = Some (s, h')"
    and eq: "\<forall>k. k \<notin> {''Vary'', ''Content-Encoding'', ''Content-Length''} \<longrightarrow> h' k = h k"
    using compression_transparent [of "''1''" "[(''Content-Type'', ''application/json'')]" None "[replicate 1024 CHR ''x'']" "\<lambda>t. ''z'' @ t" Some "(=)"
        "\<lambda>_. Some True" id browserRequest] by (elim exE conjE) (rule that)
  moreover have "h' ''Content-Type'' = h ''Content-Type''" by (rule eq [rule_format]) simp
  ultimately show ?thesis by simp
qed

end
