(* ===== verification/Web.thy ===== *)
theory Web
  imports Http_Server
begin

section \<open>The embedded user interface (web/embed.go)\<close>








subsection \<open>Paths\<close>




subsection \<open>Answers\<close>





subsection \<open>The handler\<close>








subsection \<open>Every path is answered with what it names\<close>






















end
