(* ===== verification/Admin.thy ===== *)
theory Admin
  imports Config Tunnel Migrations
begin

section \<open>Administration commands (cmd/smotryashchiy: main.go, admin.go, backup.go, ops.go, acme.go)\<close>

text \<open>
  The dispatch of the command line and the commands that change state, composed of the operations of the other theories. The flags
  of a command come parsed (\<open>None\<close> when they are wrong), the configuration comes as the outcome of \<open>Load\<close>; what a command prints is left out.
\<close>

subsection \<open>Dispatch\<close>

datatype mode = ServerMode | AgentMode "string list" | AdminMode "string list" | VersionMode | HealthMode | UsageMode

definition modeOf :: "string list \<Rightarrow> mode" where
  "modeOf args =
     (case args of
        [] \<Rightarrow> UsageMode
      | a # rest \<Rightarrow>
          if a = ''server'' then ServerMode
          else if a = ''agent'' then AgentMode rest
          else if a = ''admin'' then AdminMode rest
          else if a = ''version'' then VersionMode
          else if a = ''healthcheck'' then HealthMode
          else UsageMode)"

text \<open>The exit code; \<open>exec\<close> is the error a mode ends with, if any.\<close>

definition runMain :: "(mode \<Rightarrow> error option) \<Rightarrow> string list \<Rightarrow> int" where
  "runMain exec args = (if modeOf args = UsageMode then 2 else case exec (modeOf args) of None \<Rightarrow> 0 | Some _ \<Rightarrow> 1)"

datatype adminAction = HostCreate "string list" | BackupCmd "string list" | RestoreCmd "string list" | VacuumCmd "string list" | SetPassword | AdminUsage

definition adminActionOf :: "string list \<Rightarrow> adminAction" where
  "adminActionOf args =
     (if 2 \<le> length args \<and> args ! 0 = ''host'' \<and> args ! 1 = ''create'' then HostCreate (drop 2 args)
      else if 1 \<le> length args \<and> args ! 0 = ''backup'' then BackupCmd (drop 1 args)
      else if 1 \<le> length args \<and> args ! 0 = ''restore'' then RestoreCmd (drop 1 args)
      else if 1 \<le> length args \<and> args ! 0 = ''vacuum'' then VacuumCmd (drop 1 args)
      else if length args \<noteq> 1 \<or> args ! 0 \<noteq> ''set-password'' then AdminUsage
      else SetPassword)"

subsection \<open>The administrator's password (admin.go)\<close>

definition maxPasswordInput :: nat where "maxPasswordInput = 1026"

definition readPassword :: "error option \<Rightarrow> string \<Rightarrow> string result" where
  "readPassword fault input =
     (case fault of
        Some e \<Rightarrow> Inl (OtherError ''read password from stdin'')
      | None \<Rightarrow>
          let raw = take maxPasswordInput input
          in if maxPasswordInput \<le> length raw then Inl (OtherError ''password exceeds safety limit'')
             else Inr (trimSuffix (trimSuffix raw [CHR 0x0A]) [CHR 0x0D]))"

text \<open>The whole command: the configuration, the password, the database with its migrations, the new hash.\<close>

definition runSetPassword ::
  "'c result \<Rightarrow> error option \<Rightarrow> string \<Rightarrow> error option \<Rightarrow> ('s database \<Rightarrow> unit result \<times> 's database) \<Rightarrow> (string \<Rightarrow> string option) \<Rightarrow> error option \<Rightarrow>
   's database \<times> auth \<Rightarrow> unit result \<times> 's database \<times> auth" where
  "runSetPassword cfg readFault input openFault migrate gen wr st =
     (case st of (db, s) \<Rightarrow>
        (case cfg of
           Inl e \<Rightarrow> (Inl e, db, s)
         | Inr _ \<Rightarrow>
             (case readPassword readFault input of
                Inl e \<Rightarrow> (Inl e, db, s)
              | Inr password \<Rightarrow>
                  (case openFault of
                     Some e \<Rightarrow> (Inl e, db, s)
                   | None \<Rightarrow>
                       (case migrate db of
                          (Inl e, db') \<Rightarrow> (Inl e, db', s)
                        | (Inr _, db') \<Rightarrow> (case SetAdminPassword gen wr password s of (r, s') \<Rightarrow> (r, db', s')))))))"

subsection \<open>Backup, restore and compaction (backup.go)\<close>

text \<open>\<^verbatim>\<open>runBackup\<close>: the bundle goes to a new file, or to standard output unless that is a terminal; the second component of the
  result is what was written there.\<close>

definition runBackup ::
  "string option \<Rightarrow> string result \<Rightarrow> error option \<Rightarrow> bool \<Rightarrow> sqlite \<Rightarrow> codec \<Rightarrow> createFaults \<Rightarrow> string \<Rightarrow> time \<Rightarrow> files \<Rightarrow>
   manifest result \<times> string \<times> files" where
  "runBackup flags cfg openFault terminal sq cd f release now fs =
     (case flags of
        None \<Rightarrow> (Inl (OtherError ''usage''), [], fs)
      | Some out \<Rightarrow>
          if out = '''' then (Inl (OtherError ''usage''), [], fs)
          else case cfg of
                 Inl e \<Rightarrow> (Inl e, [], fs)
               | Inr dbPath \<Rightarrow>
                   (case fs dbPath of
                      None \<Rightarrow> (Inl (OtherError ''no database''), [], fs)
                    | Some content \<Rightarrow>
                        (case openFault of
                           Some e \<Rightarrow> (Inl e, [], fs)
                         | None \<Rightarrow>
                             if out = ''-'' then
                               (if terminal then (Inl (OtherError ''refusing to write a binary bundle to a terminal''), [], fs)
                                else case Create sq cd f release now content of (r, written) \<Rightarrow> (r, written, fs))
                             else (case CreateFile sq cd f release now content out fs of (r, fs') \<Rightarrow> (r, [], fs')))))"

definition runRestore ::
  "(string \<times> bool) option \<Rightarrow> string result \<Rightarrow> string \<Rightarrow> nat \<Rightarrow> string \<Rightarrow> sqlite \<Rightarrow> codec \<Rightarrow> restoreFaults \<Rightarrow> string \<Rightarrow> files \<Rightarrow> restoreResult result \<times> files" where
  "runRestore flags cfg input migrations stamp sq cd f work fs =
     (case flags of
        None \<Rightarrow> (Inl (OtherError ''usage''), fs)
      | Some (from, force) \<Rightarrow>
          if from = '''' then (Inl (OtherError ''usage''), fs)
          else case cfg of
                 Inl e \<Rightarrow> (Inl e, fs)
               | Inr dbPath \<Rightarrow>
                   let opts = \<lparr>ro_force = force, ro_maxMigrations = migrations, ro_stamp = stamp\<rparr>
                   in if from = ''-'' then Restore sq cd opts f input dbPath work fs
                      else (case fs from of
                              None \<Rightarrow> (Inl (OtherError ''open bundle''), fs)
                            | Some bundle \<Rightarrow> Restore sq cd opts f bundle dbPath work fs))"

definition runVacuum ::
  "bool option \<Rightarrow> string result \<Rightarrow> sqlite \<Rightarrow> (string \<Rightarrow> string result) \<Rightarrow> (string \<Rightarrow> string) \<Rightarrow> vacuumFaults \<Rightarrow> string \<Rightarrow> files \<Rightarrow> vacuumResult result \<times> files" where
  "runVacuum flags cfg sq quick optimize f stamp fs =
     (case flags of
        None \<Rightarrow> (Inl (OtherError ''usage''), fs)
      | Some keep \<Rightarrow>
          (case cfg of
             Inl e \<Rightarrow> (Inl e, fs)
           | Inr dbPath \<Rightarrow> Vacuum sq quick optimize f keep stamp dbPath fs))"

subsection \<open>Addresses (admin.go, ops.go, acme.go)\<close>

definition loopback :: "string \<Rightarrow> string" where
  "loopback host = (if host \<in> {'''', ''0.0.0.0'', ''::''} then ''127.0.0.1'' else host)"

definition defaultServerURL :: "string \<Rightarrow> string" where
  "defaultServerURL addr =
     (case splitHostPort addr of
        None \<Rightarrow> ''http://'' @ addr
      | Some host \<Rightarrow> ''http://'' @ joinHostPort (loopback host) (lastPort addr))"

definition healthURL :: "string \<Rightarrow> string result" where
  "healthURL listenAddr =
     (case splitHostPort listenAddr of
        None \<Rightarrow> Inl (OtherError (''invalid listen address '' @ listenAddr))
      | Some host \<Rightarrow> Inr (''http://'' @ joinHostPort (loopback host) (lastPort listenAddr) @ ''/health/ready''))"

text \<open>\<open>answers\<close> is the status of the reply to a GET of a URL within three seconds.\<close>

definition runHealthcheck :: "(string \<Rightarrow> int result) \<Rightarrow> environ \<Rightarrow> unit result" where
  "runHealthcheck answers env =
     result_bind (healthURL (HealthProbeAddr env)) (\<lambda>url.
     result_bind (answers url) (\<lambda>code. if code \<noteq> 200 then Inl (OtherError ''not ready'') else Inr ()))"

definition redirectTarget :: "string \<Rightarrow> string \<Rightarrow> string" where
  "redirectTarget host uri = ''https://'' @ (case splitHostPort host of Some h \<Rightarrow> h | None \<Rightarrow> host) @ uri"

subsection \<open>What the commands promise\<close>

lemma readPassword_line:
  assumes "length pw \<le> 1024" and "\<not> hasSuffix pw [CHR 0x0D]"
  shows "readPassword None (pw @ [CHR 0x0A]) = Inr pw"
  using assms by (simp add: readPassword_def maxPasswordInput_def Let_def trimSuffix_def)

text \<open>A password piped into the command is the one that logs in afterwards; earlier sessions are gone.\<close>

lemma piped_password_logs_in:
  assumes "runSetPassword cfg rf (pw @ [CHR 0x0A]) openFault migrate gen wr (db, s) = (Inr (), db', s')"
    and "\<not> hasSuffix pw [CHR 0x0D]" and "\<And>h p. gen p = Some h \<Longrightarrow> cmp h p"
  shows "fst (Login cmp None (Some tok) now pw s') = Inr \<lparr>Token = tok, ExpiresAt = now + sessionTTL\<rparr> \<and> sessions s' = []"
proof -
  obtain p where p: "readPassword rf (pw @ [CHR 0x0A]) = Inr p" "SetAdminPassword gen wr p s = (Inr (), s')"
    using assms(1) by (auto simp: runSetPassword_def split: sum.splits option.splits prod.splits)
  have "p = pw" using p(1) assms(2)
    by (auto simp: readPassword_def Let_def trimSuffix_def maxPasswordInput_def split: option.splits if_splits)
  moreover obtain h where h: "gen p = Some h" "SetHash wr h s = (Inr (), s'\<lparr>sessions := sessions s\<rparr>)" "sessions s' = []"
    using p(2) by (auto simp: SetAdminPassword_def SetHash_def split: if_splits option.splits sum.splits prod.splits)
  moreover have "map_of (settings s') adminPasswordHashKey = Some h"
  proof -
    have "s'\<lparr>sessions := sessions s\<rparr> = s\<lparr>settings := AList.update adminPasswordHashKey h (settings s)\<rparr>"
      using h(2) by (auto simp: SetHash_def split: option.splits)
    from arg_cong [OF this, of settings] show ?thesis by (simp add: map_of_update)
  qed
  ultimately show ?thesis using assms(3) by (simp add: Login_def Hash_def Let_def)
qed

text \<open>A password of the full 1024 bytes that ends with a carriage return and a line feed is refused as too long.\<close>

lemma longest_password_crlf:
  assumes "length pw = 1024"
  shows "readPassword None (pw @ [CHR 0x0D, CHR 0x0A]) = Inl (OtherError ''password exceeds safety limit'')"
  using assms by (simp add: readPassword_def maxPasswordInput_def Let_def)

text \<open>A restore from the command keeps the guarantees of \<open>Restore\<close>; without the flag an existing database stays as it is.\<close>

lemma runRestore_unforced:
  assumes "runRestore (Some (from, False)) (Inr dbPath) input migrations stamp sq cd f work fs = (r, fs')"
    and "pathsOk dbPath stamp work fs" and "fs dbPath = Some old" and "old \<noteq> []"
  shows "fs' dbPath = Some old"
proof -
  have "fs' = fs \<or> (\<exists>bdl. Restore sq cd \<lparr>ro_force = False, ro_maxMigrations = migrations, ro_stamp = stamp\<rparr> f bdl dbPath work fs = (r, fs'))"
    using assms(1) by (auto simp: runRestore_def Let_def split: if_splits option.splits)
  moreover have "fs2 dbPath = Some old"
    if "Restore sq cd \<lparr>ro_force = False, ro_maxMigrations = migrations, ro_stamp = stamp\<rparr> f bdl dbPath work fs = (q, fs2)" for bdl q fs2
  proof -
    have "stagedPath work \<noteq> dbPath" "\<not> under work dbPath" using staged_under [of work] assms(2) by (auto simp: pathsOk_def)
    then show ?thesis using that assms(3,4)
      by (auto simp: Restore_def moveAside_def removeTree_def split: if_splits sum.splits option.splits prod.splits)
  qed
  ultimately show ?thesis using assms(3) by blast
qed

text \<open>The redirect of an IPv6 literal with a port loses its brackets.\<close>

lemma redirect_drops_brackets: "redirectTarget ''[::1]:8080'' ''/'' = ''https://::1/''"
  by (simp add: redirectTarget_def splitHostPort_def containsAny_def Let_def)

end
