(* ===== verification/Geoip.thy ===== *)
theory Geoip
  imports Netip Apierror
begin

section \<open>Visitor geography (internal/analytics/infrastructure/geoip.go)\<close>

text \<open>
  The database of places is a file that may be replaced while the server runs. \<open>stat\<close> and \<open>opened\<close> are what a look at it finds, its
  modification time and the outcome of opening it; \<open>look\<close> reads a record: the country, and the English names of the subdivisions. The
  two critical sections are atomic here, as their locks make them.
\<close>

definition geoRecheck :: duration where "geoRecheck = minute"

record 'r geoIP =
  ge_path :: string
  ge_reader :: "'r option"
  ge_modTime :: time
  ge_checkedAt :: time

definition NewGeoIP :: "string \<Rightarrow> 'r geoIP" where
  "NewGeoIP path = \<lparr>ge_path = path, ge_reader = None, ge_modTime = zeroTime, ge_checkedAt = zeroTime\<rparr>"

definition refresh :: "time \<Rightarrow> time result \<Rightarrow> 'r result \<Rightarrow> 'r geoIP \<Rightarrow> 'r geoIP" where
  "refresh now stat opened g =
     (if now - ge_checkedAt g < geoRecheck then g
      else let g1 = g\<lparr>ge_checkedAt := now\<rparr>
           in case stat of
                Inl e \<Rightarrow> g1
              | Inr modTime \<Rightarrow>
                  if ge_reader g \<noteq> None \<and> modTime = ge_modTime g then g1
                  else case opened of
                         Inl e \<Rightarrow> g1
                       | Inr r \<Rightarrow> g1\<lparr>ge_reader := Some r, ge_modTime := modTime\<rparr>)"

definition Locate ::
  "('r \<Rightarrow> addr \<Rightarrow> (string \<times> string list) option) \<Rightarrow> time \<Rightarrow> time result \<Rightarrow> 'r result \<Rightarrow> string \<Rightarrow> 'r geoIP \<Rightarrow> (string \<times> string) \<times> 'r geoIP" where
  "Locate look now stat opened ip g =
     (if ge_path g = '''' then (('''', ''''), g)
      else case ParseAddr ip of
             None \<Rightarrow> (('''', ''''), g)
           | Some addr \<Rightarrow>
               let g1 = refresh now stat opened g
               in (case ge_reader g1 of
                     None \<Rightarrow> ('''', '''')
                   | Some r \<Rightarrow>
                       (case look r (Unmap addr) of
                          None \<Rightarrow> ('''', '''')
                        | Some (country, names) \<Rightarrow> (country, case names of [] \<Rightarrow> '''' | region # _ \<Rightarrow> region)), g1))"

definition closeGeo :: "'r geoIP \<Rightarrow> 'r geoIP" where
  "closeGeo g = g\<lparr>ge_reader := None\<rparr>"

subsection \<open>The file is looked at once a minute, and an open one is never lost\<close>

lemma refresh_once_a_minute:
  assumes "geoRecheck \<le> now - ge_checkedAt g" and "now' - now < geoRecheck"
  shows "refresh now' stat' opened' (refresh now stat opened g) = refresh now stat opened g"
  using assms by (auto simp: refresh_def Let_def split: sum.splits)

lemma refresh_keeps_reader: "ge_reader g \<noteq> None \<Longrightarrow> ge_reader (refresh now stat opened g) \<noteq> None"
  by (auto simp: refresh_def Let_def split: sum.splits)

text \<open>A replaced file is used from the first lookup that is due and can open it; while it cannot be opened, the old one stays and the next
  minute tries again.\<close>

lemma refresh_due:
  assumes "geoRecheck \<le> now - ge_checkedAt g" and "ge_reader g = None \<or> modTime \<noteq> ge_modTime g"
  shows "ge_reader (refresh now (Inr modTime) (Inr r) g) = Some r"
    and "ge_reader (refresh now (Inr modTime) (Inl e) g) = ge_reader g"
    and "ge_modTime (refresh now (Inr modTime) (Inl e) g) = ge_modTime g"
  using assms by (auto simp: refresh_def Let_def)

lemma Locate_without_file:
  assumes "ge_path g = '''' \<or> ge_reader g = None \<and> (\<exists>e. stat = Inl e)"
  shows "fst (Locate look now stat opened ip g) = ('''', '''')"
  using assms by (auto simp: Locate_def refresh_def Let_def split: option.splits)

end
