(* ===== verification/Spec2Isabelle.thy ===== *)
theory Spec2Isabelle
  imports Sender Maintenance Http_Api Agent_Run Uptime Analytics_History Telemetry_Read Config Analytics_Http Migrations Tunnel Web Admin Geoip
begin

text \<open>
  \<^bold>\<open>Verification library of smotryashchiy, a self-hosted monitoring server with its agent.\<close>

  \<^bold>\<open>The program.\<close> One binary, written in Go, with three modes. The \<^emph>\<open>agent\<close> (\<^verbatim>\<open>src/internal/agent\<close>) samples a host, builds
  a batch at every tick, keeps batches in a spool on disk until the server acknowledged them and sends them through a
  WireGuard tunnel; it also polls the server for operator commands and runs the host's operator executable. The \<^emph>\<open>server\<close>
  (\<^verbatim>\<open>src/cmd/smotryashchiy/server.go\<close> composes it) enrolls hosts with one-time secrets, stores telemetry once per
  idempotency key, aggregates and purges it, publishes live records to browsers, probes uptime targets, counts page
  views of web sites, queues operator commands with an audit log, and guards everything with an administrator
  password. The \<^emph>\<open>administration\<close> commands set the password, create hosts, and back up and restore the SQLite database.
  Components are bounded contexts (telemetry, auth, operator, uptime, analytics) over a shared platform (configuration,
  HTTP, rate limits, errors, database, backup); they meet in the database tables, in the tunnel address that identifies a
  host, and in the live hub.

  \<^bold>\<open>How the code is modelled.\<close> Structs are records, enumerations are datatypes, a fallible call returns \<open>error + 'a\<close>
  (theory \<open>Apierror\<close>), state is passed explicitly and returned. A table is an association list or a list of rows, a transaction
  one atomic step, and every statement, system call or source of randomness that may fail is an argument, so that
  theorems quantify over all failures. Times are nanoseconds as \<open>int\<close>; 64-bit wrap-around is written out where it
  matters (\<open>Spool.nextSeq\<close>, \<open>Config.retentionOf\<close>). Go's map order and concurrent calls appear as arbitrary order and as step relations
  (\<open>inductive\<close>) whose reachable states carry the invariants. Third-party code (SQLite, WireGuard, bcrypt, x/time/rate, JSON and
  archive codecs, SHA-256, \<^verbatim>\<open>url.Parse\<close>) is a parameter; what a theorem needs of it is a hypothesis with a witness that
  satisfies it.

  \<^bold>\<open>Theories, in the order of their imports.\<close>
  \<^item> \<open>Prelude\<close>, \<open>GoText\<close>, \<open>Netip\<close>, \<open>Regex\<close>, \<open>Calendar\<close>: clocks and tables; Go's string functions and UTF-8; \<^verbatim>\<open>net/netip\<close>;
    regular expressions by ordered matching; the civil calendar. Round trips of decimal and address texts.
  \<^item> \<open>Apierror\<close> (\<^verbatim>\<open>platform/apierror\<close>): error kinds and the HTTP status of each.
  \<^item> \<open>Batch_Queue\<close>, \<open>Spool\<close>, \<open>Sender\<close> (\<^verbatim>\<open>agent/spool\<close>, \<^verbatim>\<open>agent/sender.go\<close>): the contract of a durable queue as a locale, its
    implementation on a directory of files, and the sender proved against the locale and interpreted on the spool. A
    restart rebuilds the queue, the bounds hold after every sequence of failing calls, a drain sends in order, loses
    only what was acknowledged or refused, and ends.
  \<^item> \<open>Evict\<close>, \<open>Ratelimit\<close>, \<open>Login_Limiter\<close> (\<^verbatim>\<open>platform/ratelimit\<close>, \<^verbatim>\<open>auth/interfaces/http/login_limiter.go\<close>): bounded tables of
    clients with their eviction, as a locale with two interpretations; the bound on password guesses.
  \<^item> \<open>Auth\<close>, \<open>Auth_Http\<close> (\<^verbatim>\<open>auth\<close>): password, sessions, the guards around the API and the handlers. A session is valid exactly
    between its login and its end; no guarded route is reached without one.
  \<^item> \<open>Labels\<close>, \<open>Labels_Read\<close>, \<open>Telemetry\<close>, \<open>Telemetry_Store\<close>, \<open>Hub\<close>, \<open>Maintenance\<close>, \<open>Telemetry_Read\<close> (\<^verbatim>\<open>telemetry\<close>): the ingest contract, decided exactly;
    storing exactly once under replays and faults; live publication; hourly aggregates and retention, which never
    aggregate hours whose rows are gone; reading back what was ingested.
  \<^item> \<open>Enrollment\<close>, \<open>Agent_Session\<close>, \<open>Tunnel\<close> (enrollment.go, \<^verbatim>\<open>agent/agent.go\<close>, \<^verbatim>\<open>transport\<close>): one-time secrets, tunnel addresses, keys, the
    configuration of an agent and the WireGuard endpoints. Secrets work once, the agent's identity is the one the
    server stored, and tunnel traffic is attributed to the host whose key it was sent with.
  \<^item> \<open>Operator_Domain\<close>, \<open>Operator\<close>, \<open>Agent_Operator\<close> (\<^verbatim>\<open>operator\<close>, \<^verbatim>\<open>agent/operator.go\<close>): the command console as a refinement of a five-status
    machine, handed out and answered at most once, with an append-only audit; what the agent executes.
  \<^item> \<open>Http_Api\<close>, \<open>Http_Server\<close>, \<open>Web\<close>: the handlers of ingest, enrollment and console; the middleware, with transparent
    compression; the handler of the embedded interface.
  \<^item> \<open>Uptime\<close> (\<^verbatim>\<open>uptime\<close>): targets, the checker, the scheduler and its tables.
  \<^item> \<open>Analytics\<close>, \<open>Analytics_Query\<close>, \<open>Analytics_Reports\<close>, \<open>Analytics_History\<close>, \<open>Analytics_Http\<close> (\<^verbatim>\<open>analytics\<close>): beacons and visits, the query language, reports from raw rows and
    from daily aggregates, and the handlers with the CSV export. Visits partition the page views, and a report over
    purged days equals the report over the rows.
  \<^item> \<open>Collect\<close>, \<open>Collect_Logs\<close>, \<open>Agent_Run\<close> (\<^verbatim>\<open>agent/collect\<close>, batch.go, runner.go): the collectors on the texts they read, log streams, and the tick of the
    agent, composed with the contract the server decides.
  \<^item> \<open>Config\<close> (\<^verbatim>\<open>platform/config\<close>), \<open>Backup\<close> (\<^verbatim>\<open>platform/backup\<close>), \<open>Migrations\<close> (\<^verbatim>\<open>platform/db\<close>): what an accepted configuration
    promises; backup, restore and compaction on an explicit file system; migrations run once and in order.
  \<^item> \<open>Admin\<close> (\<^verbatim>\<open>cmd/smotryashchiy\<close>), \<open>Geoip\<close> (\<^verbatim>\<open>analytics/infrastructure/geoip.go\<close>): the administration commands composed of those
    operations, and the cached reader of the places of visitors.

  Each theory has the operations first and then the lemmas that carry its properties. A property is a theorem whose text
  begins with its number. Where modelling showed a defect, the theorem states what the code does.

  \<^bold>\<open>Termination and fuel.\<close> Loops are structural recursions or \<open>function\<close>s with a measure (addresses left in the subnet for
  \<open>freeFrom\<close>, bytes left for the decoders, rows left for the purge loops). Fuel appears where the loop depends on the outside:
  \<open>Sender.Drain\<close> runs at most one round more than the queue is long, which \<open>Drain_returns\<close> proves to be enough; \<open>Tunnel.waitHandshake\<close>
  has 3001 rounds for 15 seconds of at least 5 milliseconds each, proved enough in \<open>handshake_in_time\<close>; the stream loop of
  \<open>Telemetry_Read\<close> consumes a finite list of turns.

  \<^bold>\<open>Not modelled.\<close> The timer loops that only call a modelled step (the \<^verbatim>\<open>Run\<close> methods of the maintenance jobs, the services and the
  sender's back-off wait); flags, usage texts and signal handling of the command line; the ACME certificate
  set-up, which configures a library; the listening sockets and graceful shutdown; logging; the connection settings of
  SQLite and its query planner; subprocesses and Docker requests of the collectors, whose output is an input
  here; floating-point rounding, since averages and percentages are exact rationals; the TypeScript interface and the
  tracking script. They are input and output without decisions of the program's own, or belong to another language.
\<close>

end
